(* ===== verification/Bootsh_Prelude.thy ===== *)
theory Bootsh_Prelude
  imports Main "HOL-Library.Word" "HOL-Library.Char_ord" "HOL-Library.List_Lexorder"
    "HOL-Library.Multiset"
begin

text \<open>
  What every component shares: the error monad in which \<open>exit\<close>, \<open>fatal\<close> and
  \<open>sh_error\<close> are values, C characters and strings, the character classes of the C
  locale, and the dictionary interface that both symbol tables of the build tool (the
  hash table of \<open>htab.c\<close> and the balanced tree of \<open>tree.c\<close>) provide.

  A C string is a \<^typ>\<open>string\<close> without its terminating NUL. A character is a byte.
\<close>

section \<open>Collections of lemmas\<close>

named_theorems inv_intros \<open>introduction rules of the components' invariants\<close>
named_theorems monad_simps \<open>equations that take a successful or failed run apart\<close>

section \<open>Errors as values\<close>

text \<open>
  A computation that may call \<open>exit(1)\<close> or \<open>longjmp\<close> away is a sum: \<open>Inl\<close> the error,
  \<open>Inr\<close> the result. \<open>bindE\<close> is sequencing: the first error ends the run.
\<close>

fun bindE :: "'e + 'a \<Rightarrow> ('a \<Rightarrow> 'e + 'b) \<Rightarrow> 'e + 'b" where
  "bindE (Inl e) f = Inl e"
| "bindE (Inr x) f = f x"

lemma bindE_cong [fundef_cong]:
  "m = m' \<Longrightarrow> (\<And>x. m' = Inr x \<Longrightarrow> f x = f' x) \<Longrightarrow> bindE m f = bindE m' f'"
  by (cases m') auto

lemma bindE_Inr_iff [monad_simps]:
  "bindE m f = Inr y \<longleftrightarrow> (\<exists>x. m = Inr x \<and> f x = Inr y)"
  by (cases m) auto

lemma bindE_Inl_iff [monad_simps]:
  "bindE m f = Inl e \<longleftrightarrow> m = Inl e \<or> (\<exists>x. m = Inr x \<and> f x = Inl e)"
  by (cases m) auto

lemma bindE_elim: "bindE m f = Inr y \<Longrightarrow> (\<And>x. m = Inr x \<Longrightarrow> f x = Inr y \<Longrightarrow> P) \<Longrightarrow> P"
  by (cases m) auto

lemma bindE_assoc: "bindE (bindE m f) g = bindE m (\<lambda>x. bindE (f x) g)"
  by (cases m) auto

text \<open>A list traversed by a fallible, state-passing body.\<close>

fun foldE :: "('a \<Rightarrow> 's \<Rightarrow> 'e + 's) \<Rightarrow> 'a list \<Rightarrow> 's \<Rightarrow> 'e + 's" where
  "foldE f [] s = Inr s"
| "foldE f (x # xs) s = bindE (f x s) (foldE f xs)"

lemma foldE_cong [fundef_cong]:
  assumes "xs = ys" and "s = t" and "\<And>x s. x \<in> set ys \<Longrightarrow> f x s = g x s"
  shows "foldE f xs s = foldE g ys t"
proof -
  have "(\<And>x s. x \<in> set ys \<Longrightarrow> f x s = g x s) \<Longrightarrow> foldE f ys u = foldE g ys u" for u
    by (induction ys arbitrary: u) (auto intro: bindE_cong)
  then show ?thesis using assms by simp
qed

lemma foldE_append: "foldE f (xs @ ys) s = bindE (foldE f xs s) (foldE f ys)"
  by (induction xs arbitrary: s) (auto simp: bindE_assoc intro!: bindE_cong)

text \<open>An invariant kept by the body is kept by the loop.\<close>

lemma foldE_invariant:
  assumes "foldE f xs s = Inr t" and "P s"
    and "\<And>x s s'. x \<in> set xs \<Longrightarrow> P s \<Longrightarrow> f x s = Inr s' \<Longrightarrow> P s'"
  shows "P t"
  using assms by (induction xs arbitrary: s) (auto simp: monad_simps)

text \<open>A preorder on what one looks at, kept by the body, is kept by the loop.\<close>

lemma foldE_related:
  assumes "foldE f xs s = Inr t" and "\<And>x s t. x \<in> set xs \<Longrightarrow> f x s = Inr t \<Longrightarrow> R (g s) (g t)"
    and "\<And>a. R a a" and "\<And>a b c. R a b \<Longrightarrow> R b c \<Longrightarrow> R a c"
  shows "R (g s) (g t)"
  using assms(1,2)
proof (induction xs arbitrary: s)
  case Nil
  then show ?case using assms(3) by simp
next
  case (Cons x xs)
  then obtain u where "f x s = Inr u" "foldE f xs u = Inr t" by (auto simp: monad_simps)
  then show ?case using Cons assms(4) by (metis list.set_intros)
qed

lemma fold_related:
  assumes "\<And>x s. R (g s) (g (f x s))" and "\<And>a. R a a" and "\<And>a b c. R a b \<Longrightarrow> R b c \<Longrightarrow> R a c"
  shows "R (g s) (g (fold f xs s))"
  using assms by (induction xs arbitrary: s) (simp, metis fold_simps(2))

section \<open>Lists\<close>

text \<open>Reading at a cursor, when the list is known from there on.\<close>

lemma drop_eq_ConsD:
  assumes "drop s m = y # w"
  shows "s < length m" and "m ! s = y" and "drop (Suc s) m = w"
proof -
  show s: "s < length m"
  proof (rule ccontr)
    assume "\<not> s < length m"
    then show False using assms by simp
  qed
  then have "m ! s # drop (Suc s) m = y # w" using assms by (simp add: Cons_nth_drop_Suc)
  then show "m ! s = y" and "drop (Suc s) m = w" by simp_all
qed

lemma nth_drop_append: "drop s m = w \<Longrightarrow> s \<le> length m \<Longrightarrow> m ! (s + i) = w ! i"
  by auto

lemma drop1_dropWhile_less: "r \<noteq> [] \<Longrightarrow> length (drop 1 (dropWhile P r)) < length r"
  using length_dropWhile_le [of P r] by (cases r) auto

section \<open>Characters\<close>

definition byte_of :: "char \<Rightarrow> nat" where
  "byte_of c = of_char c"

lemma byte_of_less: "byte_of c < 256"
  by (simp add: byte_of_def of_char_of [symmetric] del: of_char_of)

lemma byte_of_eq_iff [simp]: "byte_of c = byte_of d \<longleftrightarrow> c = d"
  by (simp add: byte_of_def)

lemma byte_of_le_iff: "byte_of c \<le> byte_of d \<longleftrightarrow> c \<le> d"
  by (simp add: byte_of_def less_eq_char_def)

text \<open>The classes of \<open><ctype.h>\<close> in the C locale.\<close>

definition isdigit :: "char \<Rightarrow> bool" where
  "isdigit c = (CHR ''0'' \<le> c \<and> c \<le> CHR ''9'')"

definition isalpha :: "char \<Rightarrow> bool" where
  "isalpha c = ((CHR ''a'' \<le> c \<and> c \<le> CHR ''z'') \<or> (CHR ''A'' \<le> c \<and> c \<le> CHR ''Z''))"

definition isalnum :: "char \<Rightarrow> bool" where
  "isalnum c = (isalpha c \<or> isdigit c)"

definition newline_chr :: char where "newline_chr = CHR 0x0A"
definition return_chr :: char where "return_chr = CHR 0x0D"
definition tab_chr :: char where "tab_chr = CHR 0x09"
definition quote_chr :: char where "quote_chr = CHR 0x27"

lemmas chr_defs = newline_chr_def return_chr_def tab_chr_def quote_chr_def

definition isblank :: "char \<Rightarrow> bool" where
  "isblank c = (c = CHR '' '' \<or> c = tab_chr)"

definition isspace :: "char \<Rightarrow> bool" where
  "isspace c = (c \<in> {CHR '' '', tab_chr, newline_chr, CHR 0x0B, CHR 0x0C, return_chr})"

text \<open>
  \<open>strcmp\<close>: the C library fixes only the sign of the result, which is the lexicographic
  order of the unsigned bytes.
\<close>

definition strcmp :: "string \<Rightarrow> string \<Rightarrow> int" where
  "strcmp s t = (if s = t then 0 else if s < t then - 1 else 1)"

lemma strcmp_eq_0 [simp]: "strcmp s t = 0 \<longleftrightarrow> s = t"
  by (simp add: strcmp_def)

lemma strcmp_refl [simp]: "strcmp s s = 0"
  by simp

lemma strcmp_pos: "0 < strcmp s t \<longleftrightarrow> t < s"
  by (auto simp: strcmp_def)

lemma strcmp_neg: "strcmp s t < 0 \<longleftrightarrow> s < t"
  by (auto simp: strcmp_def)

section \<open>Numbers\<close>

definition digit_value :: "char \<Rightarrow> int" where
  "digit_value c = int (byte_of c) - 48"

definition decimal :: "string \<Rightarrow> int" where
  "decimal ds = foldl (\<lambda>n c. n * 10 + digit_value c) 0 ds"

text \<open>
  White space, a sign and decimal digits, as \<open>strtol\<close> and \<open>scanf\<close> read them: the number and
  the rest, \<open>None\<close> if there is no digit.
\<close>

definition scan_decimal :: "string \<Rightarrow> (int \<times> string) option" where
  "scan_decimal s =
     (let t = dropWhile isspace s;
          neg = (take 1 t = ''-'');
          u = (if take 1 t = ''-'' \<or> take 1 t = ''+'' then drop 1 t else t);
          ds = takeWhile isdigit u
      in if ds = [] then None
         else Some (if neg then - decimal ds else decimal ds, dropWhile isdigit u))"

definition LONG_MAX :: int where "LONG_MAX = 2 ^ 63 - 1"
definition LONG_MIN :: int where "LONG_MIN = - (2 ^ 63)"

text \<open>\<open>strtol(s, &end, 10)\<close>: saturating; \<open>end\<close> is \<open>s\<close> if there is no number.\<close>

definition strtol10 :: "string \<Rightarrow> int \<times> string" where
  "strtol10 s =
     (case scan_decimal s of
        None \<Rightarrow> (0, s)
      | Some (n, r) \<Rightarrow> (max LONG_MIN (min LONG_MAX n), r))"

text \<open>Conversion to a 32-bit \<open>int\<close>.\<close>

definition to_int32 :: "int \<Rightarrow> int" where
  "to_int32 n = (n + 2 ^ 31) mod 2 ^ 32 - 2 ^ 31"

section \<open>The dictionary interface\<close>

text \<open>
  What the build tool's environment and graph rely on: a table with an invariant, whose
  lookup after an insertion is the update of the lookup before.
\<close>

locale dictionary =
  fixes dinv :: "'d \<Rightarrow> bool"
    and dempty :: "'d"
    and dlookup :: "'d \<Rightarrow> 'k \<Rightarrow> 'v option"
    and dinsert :: "'k \<Rightarrow> 'v \<Rightarrow> 'd \<Rightarrow> 'd"
  assumes empty_inv: "dinv dempty"
    and lookup_empty: "dlookup dempty k = None"
    and insert_inv: "dinv d \<Longrightarrow> dinv (dinsert k v d)"
    and lookup_insert: "dinv d \<Longrightarrow> dlookup (dinsert k v d) = (dlookup d)(k \<mapsto> v)"
begin

lemma lookup_insert_same: "dinv d \<Longrightarrow> dlookup (dinsert k v d) k = Some v"
  by (simp add: lookup_insert)

lemma lookup_insert_other: "dinv d \<Longrightarrow> k' \<noteq> k \<Longrightarrow> dlookup (dinsert k v d) k' = dlookup d k'"
  by (simp add: lookup_insert)

text \<open>Insertions made one after the other, as a parser makes them: the last one wins.\<close>

lemma fold_insert_inv: "dinv d \<Longrightarrow> dinv (fold (\<lambda>(k, v). dinsert k v) kvs d)"
  by (induction kvs arbitrary: d) (auto simp: insert_inv)

lemma fold_insert_lookup:
  "dinv d \<Longrightarrow> dlookup (fold (\<lambda>(k, v). dinsert k v) kvs d) = dlookup d ++ map_of (rev kvs)"
proof (induction kvs arbitrary: d)
  case (Cons kv kvs)
  obtain k v where kv: "kv = (k, v)" by (cases kv)
  show ?case
    by (simp add: kv Cons insert_inv lookup_insert map_add_upd_left map_add_def fun_eq_iff
        split: option.split)
qed simp

lemma fold_insert_empty: "dlookup (fold (\<lambda>(k, v). dinsert k v) kvs dempty) = map_of (rev kvs)"
  by (simp add: fold_insert_lookup empty_inv lookup_empty map_add_def fun_eq_iff split: option.split)

end

end
