(* ===== verification/Samu_Htab.thy ===== *)
theory Samu_Htab
  imports Bootsh_Prelude
begin

text \<open>
  The open-addressing hash table of \<open>src/samu/htab.c\<close>, which maps paths to graph nodes:
  MurmurHash64A, keys, linear probing and growth by doubling. A NULL \<open>str\<close> in the key
  array is \<open>None\<close>; a NULL value is \<open>None\<close> in the value array. The sizes are \<^typ>\<open>nat\<close>
  (the table never reaches 2^64 slots), the hash is a 64-bit word.

  The lemmas show that probing ends, that the invariant survives insertion and growth,
  and that the table is a dictionary from strings to values.
\<close>

unbundle bit_operations_syntax

section \<open>Data\<close>

type_synonym u64 = "64 word"

record hashtablekey =
  khash :: u64
  kstr :: string

record 'v hashtable =
  hlen :: nat
  hcap :: nat
  hkeys :: "hashtablekey option list"
  hvals :: "'v option list"

section \<open>MurmurHash64A\<close>

definition byte64 :: "char \<Rightarrow> u64" where
  "byte64 c = of_nat (byte_of c)"

text \<open>The eight bytes \<open>memcpy\<close> puts into \<open>k\<close>, on a little-endian machine.\<close>

fun le_bytes :: "string \<Rightarrow> u64" where
  "le_bytes [] = 0"
| "le_bytes (c # cs) = byte64 c OR push_bit 8 (le_bytes cs)"

definition murmur_m :: u64 where "murmur_m = 0xc6a4a7935bd1e995"
definition murmur_seed :: u64 where "murmur_seed = 0xdecafbaddecafbad"

definition murmur_block :: "u64 \<Rightarrow> u64 \<Rightarrow> u64" where
  "murmur_block h k =
     (let k1 = k * murmur_m;
          k2 = k1 XOR drop_bit 47 k1;
          k3 = k2 * murmur_m
      in (h XOR k3) * murmur_m)"

fun murmur_blocks :: "nat \<Rightarrow> string \<Rightarrow> u64 \<Rightarrow> u64 \<times> string" where
  "murmur_blocks 0 p h = (h, p)"
| "murmur_blocks (Suc n) p h = murmur_blocks n (drop 8 p) (murmur_block h (le_bytes (take 8 p)))"

text \<open>The \<open>switch\<close> on the last \<open>len & 7\<close> bytes falls through from the highest byte down.\<close>

fun murmur_tail :: "string \<Rightarrow> nat \<Rightarrow> u64 \<Rightarrow> u64" where
  "murmur_tail p 0 h = h"
| "murmur_tail p (Suc n) h = murmur_tail p n (h XOR push_bit (8 * n) (byte64 (p ! n)))"

definition murmurhash64a :: "string \<Rightarrow> u64" where
  "murmurhash64a s =
     (let len = length s;
          (h, p) = murmur_blocks (len div 8) s (murmur_seed XOR (of_nat len * murmur_m));
          h = (if len mod 8 = 0 then h else murmur_tail p (len mod 8) h * murmur_m);
          h = h XOR drop_bit 47 h;
          h = h * murmur_m
      in h XOR drop_bit 47 h)"

section \<open>Operations\<close>

definition htabkey :: "string \<Rightarrow> hashtablekey" where
  "htabkey s = \<lparr>khash = murmurhash64a s, kstr = s\<rparr>"

definition mkhtab :: "nat \<Rightarrow> 'v hashtable" where
  "mkhtab cap = \<lparr>hlen = 0, hcap = cap, hkeys = replicate cap None, hvals = replicate cap None\<rparr>"

text \<open>\<open>delhtab\<close> frees the table; the values it hands to \<open>del\<close>, in order.\<close>

definition delhtab :: "'v hashtable \<Rightarrow> 'v option list" where
  "delhtab h = map snd (filter (\<lambda>(k, v). k \<noteq> None) (zip (hkeys h) (hvals h)))"

definition keyequal :: "hashtablekey \<Rightarrow> hashtablekey \<Rightarrow> bool" where
  "keyequal k1 k2 =
     (if khash k1 \<noteq> khash k2 \<or> length (kstr k1) \<noteq> length (kstr k2) then False
      else kstr k1 = kstr k2)"

text \<open>
  The probe loop. After \<open>cap\<close> steps it is back where it started with nothing changed, so
  running out of \<open>cap\<close> steps of fuel is exactly the C loop not ending.
\<close>

fun probe :: "nat \<Rightarrow> nat \<Rightarrow> hashtablekey option list \<Rightarrow> hashtablekey \<Rightarrow> nat \<Rightarrow> nat option" where
  "probe 0 cap ks k i = None"
| "probe (Suc fuel) cap ks k i =
     (case ks ! i of
        None \<Rightarrow> Some i
      | Some k' \<Rightarrow> if keyequal k' k then Some i
                  else probe fuel cap ks k ((i + 1) AND (cap - 1)))"

definition keyindex :: "'v hashtable \<Rightarrow> hashtablekey \<Rightarrow> nat option" where
  "keyindex h k = probe (hcap h) (hcap h) (hkeys h) k (unat (khash k) AND (hcap h - 1))"

text \<open>The loop of \<open>htabput\<close> that moves the old entries into the new arrays.\<close>

fun rehash :: "(hashtablekey option \<times> 'v option) list \<Rightarrow> 'v hashtable \<Rightarrow> 'v hashtable option" where
  "rehash [] h = Some h"
| "rehash ((None, v) # old) h = rehash old h"
| "rehash ((Some k, v) # old) h =
     (case keyindex h k of
        None \<Rightarrow> None
      | Some j \<Rightarrow> rehash old (h\<lparr>hkeys := (hkeys h)[j := Some k], hvals := (hvals h)[j := v]\<rparr>))"

definition htab_grow :: "'v hashtable \<Rightarrow> 'v hashtable option" where
  "htab_grow h =
     (if hcap h div 2 < hlen h then
        rehash (zip (hkeys h) (hvals h))
          (h\<lparr>hcap := hcap h * 2, hkeys := replicate (hcap h * 2) None,
             hvals := replicate (hcap h * 2) None\<rparr>)
      else Some h)"

text \<open>\<open>htabput\<close> returns the slot of the key; the caller writes through it.\<close>

definition htabput :: "'v hashtable \<Rightarrow> hashtablekey \<Rightarrow> ('v hashtable \<times> nat) option" where
  "htabput h0 k =
     (case htab_grow h0 of
        None \<Rightarrow> None
      | Some h \<Rightarrow>
        (case keyindex h k of
           None \<Rightarrow> None
         | Some i \<Rightarrow>
           (if hkeys h ! i = None then
              Some (h\<lparr>hkeys := (hkeys h)[i := Some k], hvals := (hvals h)[i := None],
                      hlen := hlen h + 1\<rparr>, i)
            else Some (h, i))))"

text \<open>\<open>None\<close>: the probe does not end. \<open>Some None\<close>: NULL.\<close>

definition htabget :: "'v hashtable \<Rightarrow> hashtablekey \<Rightarrow> 'v option option" where
  "htabget h k =
     (case keyindex h k of
        None \<Rightarrow> None
      | Some i \<Rightarrow> Some (if hkeys h ! i \<noteq> None then hvals h ! i else None))"

text \<open>The client's idiom \<open>v = htabput(h, &k); *v = n\<close>, and \<open>htabget\<close> on a string.\<close>

definition htab_store :: "string \<Rightarrow> 'v \<Rightarrow> 'v hashtable \<Rightarrow> 'v hashtable" where
  "htab_store s v h =
     (case htabput h (htabkey s) of
        None \<Rightarrow> h
      | Some (h', i) \<Rightarrow> h'\<lparr>hvals := (hvals h')[i := Some v]\<rparr>)"

definition htab_lookup :: "'v hashtable \<Rightarrow> string \<Rightarrow> 'v option" where
  "htab_lookup h s = (case htabget h (htabkey s) of None \<Rightarrow> None | Some v \<Rightarrow> v)"

section \<open>Probing\<close>

lemma nat_and_mask: "(x::nat) AND (2 ^ n - 1) = x mod 2 ^ n"
  by (metis mask_eq_exp_minus_1 take_bit_eq_mask take_bit_eq_mod)

lemma keyequal_iff: "keyequal k1 k2 \<longleftrightarrow> khash k1 = khash k2 \<and> kstr k1 = kstr k2"
  by (auto simp: keyequal_def)

lemma htabkey_simps [simp]: "kstr (htabkey s) = s" "khash (htabkey s) = murmurhash64a s"
  by (simp_all add: htabkey_def)

text \<open>The \<open>d\<close>-th slot the probe for \<open>k\<close> visits, and the slots at which it stops.\<close>

definition slot :: "nat \<Rightarrow> hashtablekey \<Rightarrow> nat \<Rightarrow> nat" where
  "slot cap k d = (unat (khash k) + d) mod cap"

definition stops :: "hashtablekey option list \<Rightarrow> hashtablekey \<Rightarrow> nat \<Rightarrow> bool" where
  "stops ks k i = (case ks ! i of None \<Rightarrow> True | Some k' \<Rightarrow> keyequal k' k)"

lemma slot_less: "0 < cap \<Longrightarrow> slot cap k d < cap"
  by (simp add: slot_def)

lemma slot_step: "(slot (2 ^ n) k d + 1) AND (2 ^ n - 1) = slot (2 ^ n) k (Suc d)"
  by (simp only: nat_and_mask slot_def) (simp add: mod_Suc_eq)

lemma slot_reaches:
  assumes "i < cap" shows "\<exists>d<cap. slot cap k d = i"
proof -
  define a where "a = unat (khash k) mod cap"
  define d where "d = (if a \<le> i then i - a else cap + i - a)"
  have a: "a < cap" using assms by (simp add: a_def)
  have "(a + d) mod cap = i" using a assms by (auto simp: d_def)
  then have "slot cap k d = i" by (simp add: slot_def a_def mod_add_left_eq)
  moreover have "d < cap" using a assms by (auto simp: d_def)
  ultimately show ?thesis by blast
qed

lemma probe_first:
  assumes "cap = 2 ^ n" and "stops ks k (slot cap k d)"
    and "\<And>d'. d0 \<le> d' \<Longrightarrow> d' < d \<Longrightarrow> \<not> stops ks k (slot cap k d')"
    and "d0 \<le> d" and "d < d0 + fuel"
  shows "probe fuel cap ks k (slot cap k d0) = Some (slot cap k d)"
  using assms(3-5)
proof (induction fuel arbitrary: d0)
  case (Suc fuel)
  show ?case
  proof (cases "d0 = d")
    case True
    then show ?thesis using assms(2) by (auto simp: stops_def split: option.splits)
  next
    case False
    then have "Suc d0 \<le> d" using Suc.prems by simp
    then have IH: "probe fuel cap ks k (slot cap k (Suc d0)) = Some (slot cap k d)"
      using Suc.prems by (intro Suc.IH) auto
    have "\<not> stops ks k (slot cap k d0)" using Suc.prems False by simp
    then obtain k' where "ks ! slot cap k d0 = Some k'" and "\<not> keyequal k' k"
      by (auto simp: stops_def split: option.splits)
    then show ?thesis
      using IH assms(1) slot_step [of n k d0] by simp
  qed
qed simp

text \<open>The index at which the probe of \<open>k\<close> stops, and all it passed on the way.\<close>

definition probed :: "hashtablekey option list \<Rightarrow> hashtablekey \<Rightarrow> nat \<Rightarrow> bool" where
  "probed ks k i \<longleftrightarrow> (\<exists>d<length ks. i = slot (length ks) k d \<and> stops ks k i \<and>
     (\<forall>d'<d. \<not> stops ks k (slot (length ks) k d')))"

lemma probe_ends:
  assumes cap: "length ks = 2 ^ n" and i: "i < length ks" "ks ! i = None"
  shows "\<exists>j. probe (length ks) (length ks) ks k (slot (length ks) k 0) = Some j \<and> probed ks k j"
proof -
  let ?S = "\<lambda>d. stops ks k (slot (length ks) k d)"
  obtain d1 where d1: "d1 < length ks" "slot (length ks) k d1 = i"
    using slot_reaches [OF i(1)] by blast
  then have "?S d1" using i(2) by (simp add: stops_def)
  then obtain d where d: "d \<le> d1" "?S d" and least: "\<forall>d'<d. \<not> ?S d'"
    using ex_least_nat_le [of ?S d1] by (metis not_less0)
  then have "probe (length ks) (length ks) ks k (slot (length ks) k 0) = Some (slot (length ks) k d)"
    using cap d1 by (intro probe_first) auto
  moreover have "probed ks k (slot (length ks) k d)"
    using d d1 least unfolding probed_def by (intro exI [of _ d]) auto
  ultimately show ?thesis by blast
qed

section \<open>The invariant\<close>

fun entries :: "(hashtablekey option \<times> 'v option) list \<Rightarrow> (string \<times> 'v option) list" where
  "entries [] = []"
| "entries ((None, v) # xs) = entries xs"
| "entries ((Some k, v) # xs) = (kstr k, v) # entries xs"

lemma entries_append [simp]: "entries (xs @ ys) = entries xs @ entries ys"
  by (induction xs rule: entries.induct) auto

lemma entries_Nones [simp]: "entries (replicate n (None, v)) = []"
  by (induction n) auto

lemma in_entries_iff: "(s, v) \<in> set (entries xs) \<longleftrightarrow> (\<exists>k. kstr k = s \<and> (Some k, v) \<in> set xs)"
  by (induction xs rule: entries.induct) auto

lemma entries_full: "length (entries xs) < length xs \<Longrightarrow> \<exists>i<length xs. fst (xs ! i) = None"
  by (induction xs rule: entries.induct) (auto simp: less_Suc_eq_0_disj)

lemma mset_entries_update:
  assumes "i < length xs" and "fst (xs ! i) = None"
  shows "mset (entries (xs[i := (Some k, v)])) = add_mset (kstr k, v) (mset (entries xs))"
proof -
  obtain a where a: "xs ! i = (None, a)" using assms(2) by (cases "xs ! i") auto
  have "xs = take i xs @ xs ! i # drop (Suc i) xs" by (simp add: assms(1) id_take_nth_drop)
  then have "entries xs = entries (take i xs) @ entries (drop (Suc i) xs)"
    using a by (metis entries.simps(2) entries_append)
  moreover have "entries (xs[i := (Some k, v)])
      = entries (take i xs) @ (kstr k, v) # entries (drop (Suc i) xs)"
    using assms(1) by (simp add: upd_conv_take_nth_drop)
  ultimately show ?thesis by simp
qed

text \<open>
  \<open>reachable_key\<close>: probing for a stored key passes only occupied slots before its own, so
  it is found. \<open>arrays_ok\<close> holds of the arrays alone, in the middle of a growth too.
\<close>

definition reachable_keys :: "hashtablekey option list \<Rightarrow> bool" where
  "reachable_keys ks \<longleftrightarrow> (\<forall>i<length ks. \<forall>k. ks ! i = Some k \<longrightarrow>
     (\<exists>d<length ks. i = slot (length ks) k d \<and> (\<forall>d'<d. ks ! slot (length ks) k d' \<noteq> None)))"

definition arrays_ok :: "hashtablekey option list \<Rightarrow> 'v option list \<Rightarrow> bool" where
  "arrays_ok ks vs \<longleftrightarrow> (\<exists>n. length ks = 2 ^ n) \<and> length vs = length ks \<and>
     distinct (map fst (entries (zip ks vs))) \<and>
     (\<forall>k. Some k \<in> set ks \<longrightarrow> k = htabkey (kstr k)) \<and> reachable_keys ks"

definition htab_wf :: "'v hashtable \<Rightarrow> bool" where
  "htab_wf h \<longleftrightarrow> arrays_ok (hkeys h) (hvals h) \<and> length (hkeys h) = hcap h \<and> 4 \<le> hcap h \<and>
     hlen h = length (entries (zip (hkeys h) (hvals h))) \<and> hlen h \<le> hcap h div 2 + 1"

lemma arrays_ok_empty [inv_intros]: "arrays_ok (replicate (2 ^ n) None) (replicate (2 ^ n) None)"
  by (auto simp: arrays_ok_def reachable_keys_def)

lemma mkhtab_entries: "entries (zip (hkeys (mkhtab n)) (hvals (mkhtab n))) = []"
  by (simp only: mkhtab_def hashtable.simps zip_replicate min.idem entries_Nones)

lemma mkhtab_wf: "htab_wf (mkhtab (2 ^ Suc (Suc n)))"
  using arrays_ok_empty [of "Suc (Suc n)"] by (simp add: htab_wf_def mkhtab_def)

section \<open>One slot at a time\<close>

abbreviation tab_entries :: "'v hashtable \<Rightarrow> (string \<times> 'v option) list" where
  "tab_entries h \<equiv> entries (zip (hkeys h) (hvals h))"

definition tab_ok :: "'v hashtable \<Rightarrow> bool" where
  "tab_ok h \<longleftrightarrow> arrays_ok (hkeys h) (hvals h) \<and> length (hkeys h) = hcap h"

lemma keyindex_ends:
  assumes "tab_ok h" and "length (tab_entries h) < hcap h"
  shows "\<exists>j. keyindex h k = Some j \<and> probed (hkeys h) k j"
proof -
  obtain n where n: "length (hkeys h) = 2 ^ n" and len: "length (hvals h) = length (hkeys h)"
    using assms(1) by (auto simp: tab_ok_def arrays_ok_def)
  have cap: "hcap h = 2 ^ n" using assms(1) n by (simp add: tab_ok_def)
  obtain i where "i < length (hkeys h)" "hkeys h ! i = None"
    using entries_full [of "zip (hkeys h) (hvals h)"] assms len by (auto simp: tab_ok_def)
  from probe_ends [OF n this, of k] show ?thesis
    using n cap by (simp only: keyindex_def nat_and_mask) (simp add: slot_def)
qed

lemma probed_bound: "probed ks k i \<Longrightarrow> i < length ks"
  by (auto simp: probed_def intro: slot_less)

lemma probed_None:
  assumes "probed ks (htabkey s) i" and "ks ! i = None" and "arrays_ok ks vs"
  shows "s \<notin> fst ` set (entries (zip ks vs))"
proof
  assume "s \<in> fst ` set (entries (zip ks vs))"
  then obtain k v where "kstr k = s" and "(Some k, v) \<in> set (zip ks vs)"
    by (auto simp: in_entries_iff)
  then obtain j where j: "j < length ks" "ks ! j = Some k"
    by (metis in_set_zipE in_set_conv_nth)
  have k: "k = htabkey s"
    using assms(3) j \<open>kstr k = s\<close> by (metis arrays_ok_def nth_mem)
  from assms(3) j obtain e where e: "j = slot (length ks) k e"
      and occ: "\<forall>d'<e. ks ! slot (length ks) k d' \<noteq> None"
    unfolding arrays_ok_def reachable_keys_def by blast
  from assms(1) obtain d where d: "i = slot (length ks) k d"
      and go: "\<forall>d'<d. \<not> stops ks k (slot (length ks) k d')"
    unfolding probed_def k by blast
  have "stops ks k j" using j by (simp add: stops_def keyequal_iff)
  then have "\<not> e < d" using go e by blast
  moreover have "\<not> d < e" using occ d assms(2) by blast
  ultimately show False using d e j assms(2) by simp
qed

lemma probed_Some:
  assumes "probed ks (htabkey s) i" and "ks ! i = Some k" and "arrays_ok ks vs"
  shows "k = htabkey s" and "(s, vs ! i) \<in> set (entries (zip ks vs))"
proof -
  have i: "i < length ks" by (rule probed_bound [OF assms(1)])
  have "keyequal k (htabkey s)" using assms(1,2) by (auto simp: probed_def stops_def)
  moreover have "k = htabkey (kstr k)"
    using assms(2,3) i by (metis arrays_ok_def nth_mem)
  ultimately show k: "k = htabkey s" by (simp add: keyequal_iff)
  have "(Some k, vs ! i) \<in> set (zip ks vs)"
    using i assms(2,3) by (auto simp: arrays_ok_def set_zip intro!: exI [of _ i])
  then show "(s, vs ! i) \<in> set (entries (zip ks vs))"
    by (auto simp: in_entries_iff k intro!: exI [of _ "htabkey s"])
qed

lemma mset_entries_distinct:
  assumes "distinct (map fst xs)" and "mset ys = mset xs"
  shows "distinct (map fst ys)" and "map_of ys = map_of xs"
proof -
  have "mset (map fst ys) = mset (map fst xs)" using assms(2) by simp
  then show d: "distinct (map fst ys)" using assms(1) mset_eq_imp_distinct_iff by blast
  have "set ys = set xs" using assms(2) mset_eq_setD by blast
  then show "map_of ys = map_of xs" using d assms(1) map_of_inject_set by blast
qed

lemma arrays_ok_insert:
  assumes ok: "arrays_ok ks vs" and p: "probed ks (htabkey s) i" and free: "ks ! i = None"
  shows "arrays_ok (ks[i := Some (htabkey s)]) (vs[i := v])"
    and "mset (entries (zip (ks[i := Some (htabkey s)]) (vs[i := v])))
       = add_mset (s, v) (mset (entries (zip ks vs)))"
proof -
  have i: "i < length ks" by (rule probed_bound [OF p])
  have len: "length vs = length ks" using ok by (simp add: arrays_ok_def)
  have z: "zip (ks[i := Some (htabkey s)]) (vs[i := v]) = (zip ks vs)[i := (Some (htabkey s), v)]"
    by (simp add: update_zip)
  show ms: "mset (entries (zip (ks[i := Some (htabkey s)]) (vs[i := v])))
       = add_mset (s, v) (mset (entries (zip ks vs)))"
    using i len free by (simp add: z mset_entries_update)
  have "distinct (map fst ((s, v) # entries (zip ks vs)))"
    using probed_None [OF p free ok] ok by (auto simp: arrays_ok_def)
  then have d: "distinct (map fst (entries (zip (ks[i := Some (htabkey s)]) (vs[i := v]))))"
    by (rule mset_entries_distinct) (simp add: ms)
  have r: "reachable_keys (ks[i := Some (htabkey s)])"
    unfolding reachable_keys_def
  proof (intro allI impI)
    fix j k assume j: "j < length (ks[i := Some (htabkey s)])"
      and k: "ks[i := Some (htabkey s)] ! j = Some k"
    have "\<exists>d<length ks. j = slot (length ks) k d \<and> (\<forall>d'<d. ks ! slot (length ks) k d' \<noteq> None)"
    proof (cases "j = i")
      case True
      then show ?thesis using p k i
        by (force simp: probed_def stops_def split: option.splits)
    next
      case False
      then show ?thesis using ok j k by (auto simp: arrays_ok_def reachable_keys_def)
    qed
    then obtain d where "d < length ks" "j = slot (length ks) k d"
        "\<forall>d'<d. ks ! slot (length ks) k d' \<noteq> None" by blast
    then show "\<exists>d<length (ks[i := Some (htabkey s)]). j = slot (length (ks[i := Some (htabkey s)])) k d \<and>
        (\<forall>d'<d. ks[i := Some (htabkey s)] ! slot (length (ks[i := Some (htabkey s)])) k d' \<noteq> None)"
      using i by (intro exI [of _ d]) (auto simp: nth_list_update)
  qed
  have c: "Some k \<in> set (ks[i := Some (htabkey s)]) \<Longrightarrow> k = htabkey (kstr k)" for k
    using ok set_update_subset_insert [of ks i "Some (htabkey s)"]
    by (auto simp: arrays_ok_def)
  show "arrays_ok (ks[i := Some (htabkey s)]) (vs[i := v])"
    using ok d r c len by (simp add: arrays_ok_def)
qed

lemma arrays_ok_write:
  assumes "arrays_ok ks vs" and "i < length ks" and "ks ! i = Some k"
  shows "arrays_ok ks (vs[i := v])"
    and "map_of (entries (zip ks (vs[i := v]))) = (map_of (entries (zip ks vs)))(kstr k \<mapsto> v)"
    and "length (entries (zip ks (vs[i := v]))) = length (entries (zip ks vs))"
proof -
  have len: "length vs = length ks" using assms by (simp add: arrays_ok_def)
  define A where "A = entries (zip (take i ks) (take i vs))"
  define B where "B = entries (zip (drop (Suc i) ks) (drop (Suc i) vs))"
  have split: "zip ks ws = zip (take i ks) (take i ws) @ (Some k, ws ! i)
      # zip (drop (Suc i) ks) (drop (Suc i) ws)" if "length ws = length ks" for ws :: "'a option list"
    using id_take_nth_drop [of i "zip ks ws"] that assms(2,3) by (simp add: take_zip drop_zip)
  have old: "entries (zip ks vs) = A @ (kstr k, vs ! i) # B"
    unfolding A_def B_def using split [OF len] by simp
  have new: "entries (zip ks (vs[i := v])) = A @ (kstr k, v) # B"
    unfolding A_def B_def using split [of "vs[i := v]"] len assms(2) by simp
  have d: "distinct (map fst (A @ (kstr k, vs ! i) # B))"
    using assms(1) old by (simp add: arrays_ok_def)
  then show "arrays_ok ks (vs[i := v])" using assms(1) new len by (simp add: arrays_ok_def)
  have "kstr k \<notin> fst ` set A" using d by auto
  then have "map_of A (kstr k) = None" by (simp add: map_of_eq_None_iff)
  then show "map_of (entries (zip ks (vs[i := v]))) = (map_of (entries (zip ks vs)))(kstr k \<mapsto> v)"
    using d by (auto simp: old new fun_eq_iff map_add_def split: option.splits)
  show "length (entries (zip ks (vs[i := v]))) = length (entries (zip ks vs))"
    by (simp add: old new)
qed

section \<open>Growth, insertion and lookup\<close>

lemma rehash_ok:
  assumes "tab_ok h" and "\<forall>k v. (Some k, v) \<in> set old \<longrightarrow> k = htabkey (kstr k)"
    and "distinct (map fst (entries old @ tab_entries h))"
    and "length (entries old) + length (tab_entries h) < hcap h"
  shows "\<exists>h'. rehash old h = Some h' \<and> tab_ok h' \<and> hcap h' = hcap h \<and> hlen h' = hlen h \<and>
    mset (tab_entries h') = mset (entries old) + mset (tab_entries h)"
  using assms
proof (induction old h rule: rehash.induct)
  case (3 k v old h)
  have "k = htabkey (kstr k)" using 3(3) by simp
  then obtain s where k: "k = htabkey s" by blast
  obtain j where j: "keyindex h k = Some j" and p: "probed (hkeys h) (htabkey s) j"
    using keyindex_ends [OF 3(2), of k] 3(5) unfolding k by auto
  have ok: "arrays_ok (hkeys h) (hvals h)" using 3(2) by (simp add: tab_ok_def)
  have free: "hkeys h ! j = None"
  proof (rule ccontr)
    assume "hkeys h ! j \<noteq> None"
    then obtain k' where "hkeys h ! j = Some k'" by blast
    then have "(s, hvals h ! j) \<in> set (tab_entries h)"
      using probed_Some(2) [OF p _ ok] by blast
    then have "s \<in> set (map fst (tab_entries h))" by (simp only: set_map image_iff) (rule bexI, simp_all)
    moreover have "distinct (s # map fst (entries old) @ map fst (tab_entries h))"
      using 3(4) by (simp only: k entries.simps map_append append_Cons list.map fst_conv htabkey_simps)
    ultimately show False by simp
  qed
  let ?h = "h\<lparr>hkeys := (hkeys h)[j := Some k], hvals := (hvals h)[j := v]\<rparr>"
  note ins = arrays_ok_insert [OF ok p free, of v, folded k]
  have ok': "tab_ok ?h" using ins(1) 3(2) by (simp add: tab_ok_def)
  have ms: "mset (tab_entries ?h) = add_mset (s, v) (mset (tab_entries h))"
    using ins(2) by simp
  have "size (mset (tab_entries ?h)) = Suc (size (mset (tab_entries h)))"
    unfolding ms by simp
  then have len: "length (tab_entries ?h) = Suc (length (tab_entries h))"
    by (simp only: size_mset)
  have d: "distinct (map fst (entries old @ tab_entries ?h))"
    by (rule mset_entries_distinct [of "entries ((Some k, v) # old) @ tab_entries h"])
      (use 3(4) ms k in simp_all)
  have can: "\<forall>k v. (Some k, v) \<in> set old \<longrightarrow> k = htabkey (kstr k)" using 3(3) by simp
  have room: "length (entries old) + length (tab_entries ?h) < hcap ?h"
    unfolding len using 3(5) by simp
  from 3(1) [OF j ok' can d room] obtain h' where h': "rehash old ?h = Some h'" "tab_ok h'"
      "hcap h' = hcap ?h" "hlen h' = hlen ?h"
      "mset (tab_entries h') = mset (entries old) + mset (tab_entries ?h)"
    by blast
  have "rehash ((Some k, v) # old) h = Some h'" using j h'(1) by simp
  then show ?case using h' ms k by (intro exI [of _ h']) simp
qed auto

lemma htab_wf_tab_ok: "htab_wf h \<Longrightarrow> tab_ok h"
  by (simp add: htab_wf_def tab_ok_def)

lemma htab_grow_ok:
  assumes "htab_wf h"
  shows "\<exists>h'. htab_grow h = Some h' \<and> htab_wf h' \<and> hlen h' \<le> hcap h' div 2 \<and> hlen h' = hlen h \<and>
    map_of (tab_entries h') = map_of (tab_entries h)"
proof (cases "hcap h div 2 < hlen h")
  case True
  obtain n where n: "hcap h = 2 ^ n" using assms by (auto simp: htab_wf_def arrays_ok_def)
  let ?h = "h\<lparr>hcap := hcap h * 2, hkeys := replicate (hcap h * 2) None,
             hvals := replicate (hcap h * 2) None\<rparr>"
  have cap: "hcap h * 2 = 2 ^ Suc n" using n by simp
  have ok: "tab_ok ?h"
    unfolding tab_ok_def cap using arrays_ok_empty [of "Suc n"] by simp
  have wf: "hlen h = length (tab_entries h)" "hlen h \<le> hcap h div 2 + 1" "4 \<le> hcap h"
      "distinct (map fst (tab_entries h))"
    using assms by (auto simp: htab_wf_def arrays_ok_def)
  have can: "\<forall>k v. (Some k, v) \<in> set (zip (hkeys h) (hvals h)) \<longrightarrow> k = htabkey (kstr k)"
    using assms by (auto simp: htab_wf_def arrays_ok_def dest!: set_zip_leftD)
  have e: "tab_entries ?h = []" by simp
  have d: "distinct (map fst (tab_entries h @ tab_entries ?h))" using wf(4) by (simp add: e)
  have r: "length (tab_entries h) + length (tab_entries ?h) < hcap ?h"
    using wf(1-3) by (simp add: e)
  from rehash_ok [OF ok can d r] obtain h' where
      h': "rehash (zip (hkeys h) (hvals h)) ?h = Some h'" "tab_ok h'"
      "hcap h' = hcap h * 2" "hlen h' = hlen h" "mset (tab_entries h') = mset (tab_entries h)"
    by (elim exE conjE) (simp add: e)
  then have "length (tab_entries h') = length (tab_entries h)" by (metis size_mset)
  moreover have "map_of (tab_entries h') = map_of (tab_entries h)"
    using mset_entries_distinct(2) [OF wf(4) h'(5)] .
  ultimately show ?thesis
    using h' wf True by (auto simp: htab_grow_def htab_wf_def tab_ok_def)
next
  case False
  then show ?thesis using assms by (auto simp: htab_grow_def)
qed

lemma htab_wf_room: "htab_wf h \<Longrightarrow> length (tab_entries h) < hcap h"
  by (auto simp: htab_wf_def)

lemma htab_lookup_eq:
  assumes "htab_wf h"
  shows "htab_lookup h s = Option.bind (map_of (tab_entries h) s) id"
    and "htabget h (htabkey s) \<noteq> None"
proof -
  have ok: "arrays_ok (hkeys h) (hvals h)" using assms by (simp add: htab_wf_def)
  then have d: "distinct (map fst (tab_entries h))" by (simp add: arrays_ok_def)
  obtain j where j: "keyindex h (htabkey s) = Some j" and p: "probed (hkeys h) (htabkey s) j"
    using keyindex_ends [OF htab_wf_tab_ok htab_wf_room] assms by blast
  show "htabget h (htabkey s) \<noteq> None" using j by (simp add: htabget_def)
  show "htab_lookup h s = Option.bind (map_of (tab_entries h) s) id"
  proof (cases "hkeys h ! j")
    case None
    then have "map_of (tab_entries h) s = None"
      using probed_None [OF p _ ok] by (simp add: map_of_eq_None_iff)
    then show ?thesis using j None by (simp add: htab_lookup_def htabget_def)
  next
    case (Some k)
    then have "map_of (tab_entries h) s = Some (hvals h ! j)"
      using probed_Some(2) [OF p _ ok] d by simp
    then show ?thesis using j Some by (simp add: htab_lookup_def htabget_def)
  qed
qed

text \<open>
  \<open>htabput\<close> ends, keeps the invariant, and hands out the slot of the key: a fresh NULL
  slot if the key is new, the slot with the value it had before otherwise.
\<close>

lemma htabput_ok:
  assumes "htab_wf h"
  shows "\<exists>h' i. htabput h (htabkey s) = Some (h', i) \<and> htab_wf h' \<and> i < hcap h' \<and>
    hkeys h' ! i = Some (htabkey s) \<and> hvals h' ! i = htab_lookup h s \<and>
    map_of (tab_entries h') = (map_of (tab_entries h))(s \<mapsto> htab_lookup h s)"
proof -
  obtain g where g: "htab_grow h = Some g" "htab_wf g" "hlen g \<le> hcap g div 2"
      "map_of (tab_entries g) = map_of (tab_entries h)"
    using htab_grow_ok [OF assms] by blast
  have ok: "arrays_ok (hkeys g) (hvals g)" and cap: "length (hkeys g) = hcap g"
      and len: "length (hvals g) = hcap g"
    using g(2) by (auto simp: htab_wf_def arrays_ok_def)
  obtain j where j: "keyindex g (htabkey s) = Some j" and p: "probed (hkeys g) (htabkey s) j"
    using keyindex_ends [OF htab_wf_tab_ok htab_wf_room] g(2) by blast
  have jb: "j < hcap g" using probed_bound [OF p] cap by simp
  show ?thesis
  proof (cases "hkeys g ! j")
    case None
    let ?h = "g\<lparr>hkeys := (hkeys g)[j := Some (htabkey s)], hvals := (hvals g)[j := None],
                hlen := hlen g + 1\<rparr>"
    note ins = arrays_ok_insert [OF ok p None, of None]
    have "size (mset (tab_entries ?h)) = Suc (size (mset (tab_entries g)))"
      using ins(2) by simp
    then have "length (tab_entries ?h) = Suc (length (tab_entries g))"
      by (simp only: size_mset)
    then have wf: "htab_wf ?h"
      using ins(1) g(2,3) by (simp add: htab_wf_def)
    have new: "s \<notin> fst ` set (tab_entries g)" by (rule probed_None [OF p None ok])
    then have none: "map_of (tab_entries g) s = None" by (simp add: map_of_eq_None_iff)
    have d: "distinct (map fst ((s, None) # tab_entries g))"
      using new ok by (simp add: arrays_ok_def)
    have "map_of (tab_entries ?h) = map_of ((s, None) # tab_entries g)"
      by (rule mset_entries_distinct(2) [OF d]) (simp add: ins(2))
    then show ?thesis
      using g j None wf jb cap len none htab_lookup_eq(1) [OF assms, of s]
      by (simp add: htabput_def)
  next
    case (Some k)
    note hit = probed_Some [OF p Some ok]
    have "map_of (tab_entries g) s = Some (hvals g ! j)"
      using hit(2) ok by (simp add: arrays_ok_def)
    then show ?thesis
      using g j Some jb hit(1) htab_lookup_eq(1) [OF assms, of s]
      by (auto simp: htabput_def fun_upd_idem)
  qed
qed

lemma htab_store_ok:
  assumes "htab_wf h"
  shows "htab_wf (htab_store s v h)"
    and "map_of (tab_entries (htab_store s v h)) = (map_of (tab_entries h))(s \<mapsto> Some v)"
proof -
  obtain h' i where put: "htabput h (htabkey s) = Some (h', i)" "htab_wf h'" "i < hcap h'"
      "hkeys h' ! i = Some (htabkey s)"
      "map_of (tab_entries h') = (map_of (tab_entries h))(s \<mapsto> htab_lookup h s)"
    using htabput_ok [OF assms] by blast
  have ok: "arrays_ok (hkeys h') (hvals h')" and i: "i < length (hkeys h')"
    using put(2,3) by (auto simp: htab_wf_def)
  note w = arrays_ok_write [OF ok i put(4), of "Some v"]
  show "htab_wf (htab_store s v h)"
    using put(1,2) w by (simp add: htab_store_def htab_wf_def)
  show "map_of (tab_entries (htab_store s v h)) = (map_of (tab_entries h))(s \<mapsto> Some v)"
    using put(1,5) w(2) by (simp add: htab_store_def)
qed

text \<open>The hash table is a dictionary.\<close>

interpretation htab_dict: dictionary htab_wf "mkhtab 1024" htab_lookup htab_store
proof
  show wf0: "htab_wf (mkhtab 1024)" using mkhtab_wf [of 8] by simp
  show "htab_lookup (mkhtab 1024) k = None" for k
    by (simp add: htab_lookup_eq [OF wf0] mkhtab_entries)
  show "htab_wf (htab_store k v d)" if "htab_wf d" for d k and v :: 'a
    using that by (rule htab_store_ok)
  show "htab_lookup (htab_store k v d) = (htab_lookup d)(k \<mapsto> v)" if "htab_wf d" for d k and v :: 'a
    using that by (simp add: fun_eq_iff htab_lookup_eq htab_store_ok)
qed

section \<open>Properties\<close>


text \<open>
  \<open>htabput\<close> on a well-formed table ends (neither its own probe nor the ones of the rehash
  run for ever), keeps the table well-formed, and returns the slot of the key, in bounds; the
  slot holds what a lookup of the key gave before (NULL for a new key), and the other keys keep
  their values.
\<close>

theorem htabput_returns_slot:
  assumes "htab_wf h"
  shows "\<exists>h' i. htabput h (htabkey s) = Some (h', i) \<and> htab_wf h' \<and> i < hcap h' \<and>
    hkeys h' ! i = Some (htabkey s) \<and> hvals h' ! i = htab_lookup h s \<and>
    htab_lookup h' = htab_lookup h"
proof -
  obtain h' i where *: "htabput h (htabkey s) = Some (h', i)" "htab_wf h'" "i < hcap h'"
      "hkeys h' ! i = Some (htabkey s)" "hvals h' ! i = htab_lookup h s"
      "map_of (tab_entries h') = (map_of (tab_entries h))(s \<mapsto> htab_lookup h s)"
    using htabput_ok [OF assms] by blast
  then have "htab_lookup h' = htab_lookup h"
    by (simp add: fun_eq_iff htab_lookup_eq [OF assms] htab_lookup_eq [OF *(2)])
  then show ?thesis using * by blast
qed

theorem htabput_returns_slot_witness:
  "\<exists>h' i. htabput (mkhtab 1024 :: nat hashtable) (htabkey ''a.o'') = Some (h', i) \<and> htab_wf h' \<and>
     i < hcap h' \<and> hkeys h' ! i = Some (htabkey ''a.o'') \<and>
     hvals h' ! i = htab_lookup (mkhtab 1024) ''a.o'' \<and> htab_lookup h' = htab_lookup (mkhtab 1024)"
  by (rule htabput_returns_slot [OF htab_dict.empty_inv])

end
