(* ===== verification/Samu_Tree.thy ===== *)
theory Samu_Tree
  imports Bootsh_Prelude
begin

text \<open>
  The height-balanced search tree of \<open>src/samu/tree.c\<close>, which holds variable bindings,
  rules and pools by name. A NULL child is \<open>Tip\<close>. The array of parent pointers that
  \<open>treeinsert\<close> collects on its way down is a list of frames, innermost first: the node
  and the side taken.

  The lemmas show that the single pass of rebalancing, which stops at the first subtree
  whose height did not change, restores the invariant; that the array of \<open>MAXH\<close> pointers
  is long enough; and that the tree is a dictionary.
\<close>

section \<open>Data and operations\<close>

datatype 'v treenode =
    Tip
  | Node (nkey: string) (nvalue: 'v) "'v treenode" "'v treenode" nat

fun child :: "'v treenode \<Rightarrow> bool \<Rightarrow> 'v treenode" where
  "child Tip d = Tip"
| "child (Node k v l r h) d = (if d then r else l)"

fun set_child :: "bool \<Rightarrow> 'v treenode \<Rightarrow> 'v treenode \<Rightarrow> 'v treenode" where
  "set_child d c Tip = Tip"
| "set_child d c (Node k v l r h) = (if d then Node k v l c h else Node k v c r h)"

fun set_height :: "nat \<Rightarrow> 'v treenode \<Rightarrow> 'v treenode" where
  "set_height h' Tip = Tip"
| "set_height h' (Node k v l r h) = Node k v l r h'"

fun set_value :: "'v \<Rightarrow> 'v treenode \<Rightarrow> 'v treenode" where
  "set_value v' Tip = Tip"
| "set_value v' (Node k v l r h) = Node k v' l r h"

fun height :: "'v treenode \<Rightarrow> nat" where
  "height Tip = 0"
| "height (Node k v l r h) = h"

text \<open>\<open>sizeof(void *) * 8 * 3 / 2\<close> on a 64-bit machine.\<close>

definition MAXH :: nat where "MAXH = 8 * 8 * 3 div 2"

text \<open>The keys and values \<open>deltree\<close> hands to the destructors, in order.\<close>

fun deltree :: "'v treenode \<Rightarrow> (string \<times> 'v) list" where
  "deltree Tip = []"
| "deltree (Node k v l r h) = (k, v) # deltree l @ deltree r"

text \<open>\<open>rot\<close>: the node that replaces \<open>x\<close>, and the change of height.\<close>

definition rot :: "'v treenode \<Rightarrow> bool \<Rightarrow> 'v treenode \<times> int" where
  "rot x dir =
     (let y = child x dir;
          z = child y (\<not> dir);
          hx = height x;
          hz = height z
      in if hz > height (child y dir) then
           let x' = set_height hz (set_child dir (child z (\<not> dir)) x);
               y' = set_height hz (set_child (\<not> dir) (child z dir) y);
               z' = set_height (hz + 1) (set_child dir y' (set_child (\<not> dir) x' z))
           in (z', int (height z') - int hx)
         else
           let x' = set_height (hz + 1) (set_child dir z x);
               y' = set_height (hz + 2) (set_child (\<not> dir) x' y)
           in (y', int (height y') - int hx))"

text \<open>The test \<open>h0 - h1 + 1u < 3u\<close> is made in unsigned arithmetic.\<close>

definition balance :: "'v treenode \<Rightarrow> 'v treenode \<times> int" where
  "balance n =
     (let h0 = height (child n False);
          h1 = height (child n True)
      in if (int h0 - int h1 + 1) mod 2 ^ 32 < 3 then
           let new = (if h0 < h1 then h1 + 1 else h0 + 1)
           in (set_height new n, int new - int (height n))
         else rot n (h0 < h1))"

fun treefind :: "'v treenode \<Rightarrow> string \<Rightarrow> 'v option" where
  "treefind Tip key = None"
| "treefind (Node k v l r h) key =
     (let c = strcmp key k
      in if c = 0 then Some v else if 0 < c then treefind r key else treefind l key)"

type_synonym 'v frames = "(bool \<times> 'v treenode) list"

text \<open>The loop down: the frames passed, and where it stopped (\<open>Tip\<close> if the key is new).\<close>

fun descend :: "string \<Rightarrow> 'v treenode \<Rightarrow> 'v frames \<Rightarrow> 'v frames \<times> 'v treenode" where
  "descend key Tip a = (a, Tip)"
| "descend key (Node k v l r h) a =
     (let c = strcmp key k
      in if c = 0 then (a, Node k v l r h)
         else if 0 < c then descend key r ((True, Node k v l r h) # a)
         else descend key l ((False, Node k v l r h) # a))"

text \<open>What the parents look like when a subtree is replaced in place.\<close>

fun plug :: "'v frames \<Rightarrow> 'v treenode \<Rightarrow> 'v treenode" where
  "plug [] t = t"
| "plug ((d, n) # a) t = plug a (set_child d t n)"

text \<open>\<open>while (i && balance(a[--i]));\<close>\<close>

fun climb :: "'v frames \<Rightarrow> 'v treenode \<Rightarrow> 'v treenode" where
  "climb [] t = t"
| "climb ((d, n) # a) t =
     (let (n', delta) = balance (set_child d t n)
      in if delta = 0 then plug a n' else climb a n')"

text \<open>The new root, and the val that was replaced (NULL is \<open>None\<close>).\<close>

definition treeinsert :: "'v treenode \<Rightarrow> string \<Rightarrow> 'v \<Rightarrow> 'v treenode \<times> 'v option" where
  "treeinsert root key val =
     (case descend key root [] of
        (a, Tip) \<Rightarrow> (climb a (Node key val Tip Tip 1), None)
      | (a, Node k v l r h) \<Rightarrow> (plug a (set_value val (Node k v l r h)), Some v))"

text \<open>How many entries of \<open>a[MAXH]\<close> the loop down has written when it ends.\<close>

definition path_entries :: "'v treenode \<Rightarrow> string \<Rightarrow> nat" where
  "path_entries root key = 1 + length (fst (descend key root []))"

section \<open>Invariants\<close>

fun avl :: "'v treenode \<Rightarrow> bool" where
  "avl Tip = True"
| "avl (Node k v l r h) =
     (avl l \<and> avl r \<and> height l \<le> height r + 1 \<and> height r \<le> height l + 1 \<and>
      h = max (height l) (height r) + 1)"

fun inorder :: "'v treenode \<Rightarrow> (string \<times> 'v) list" where
  "inorder Tip = []"
| "inorder (Node k v l r h) = inorder l @ (k, v) # inorder r"

definition ordered :: "'v treenode \<Rightarrow> bool" where
  "ordered t = sorted_wrt (<) (map fst (inorder t))"

definition tree_wf :: "'v treenode \<Rightarrow> bool" where
  "tree_wf t \<longleftrightarrow> avl t \<and> ordered t"

section \<open>The recursive reference\<close>

text \<open>
  The loops down and up as one recursion: the flag says whether the loop up still runs.
\<close>

fun ins :: "string \<Rightarrow> 'v \<Rightarrow> 'v treenode \<Rightarrow> 'v treenode \<times> bool" where
  "ins key val Tip = (Node key val Tip Tip 1, True)"
| "ins key val (Node k v l r h) =
     (let c = strcmp key k
      in if c = 0 then (Node k val l r h, False)
         else
           let d = (0 < c);
               (t, go) = ins key val (if d then r else l);
               n = set_child d t (Node k v l r h)
           in if go then let (n', delta) = balance n in (n', delta \<noteq> 0) else (n, False))"

definition finish :: "string \<Rightarrow> 'v \<Rightarrow> 'v frames \<times> 'v treenode \<Rightarrow> 'v treenode" where
  "finish key val p =
     (case p of
        (a, Tip) \<Rightarrow> climb a (Node key val Tip Tip 1)
      | (a, Node k v l r h) \<Rightarrow> plug a (set_value val (Node k v l r h)))"

lemma loops_are_ins:
  "finish key val (descend key t a)
   = (let (t', go) = ins key val t in if go then climb a t' else plug a t')"
proof (induction t arbitrary: a)
  case (Node k v l r h)
  consider "strcmp key k = 0" | "0 < strcmp key k" | "strcmp key k < 0" by linarith
  then show ?case
  proof cases
    case 2
    obtain t' go where t': "ins key val r = (t', go)" by fastforce
    show ?thesis
      using Node(2) [of "(True, Node k v l r h) # a"] 2 t'
      by (auto simp: Let_def split: prod.splits)
  next
    case 3
    obtain t' go where t': "ins key val l = (t', go)" by fastforce
    show ?thesis
      using Node(1) [of "(False, Node k v l r h) # a"] 3 t'
      by (auto simp: Let_def split: prod.splits)
  qed (simp add: finish_def)
qed (simp add: finish_def)

lemma treeinsert_eq_ins: "fst (treeinsert t key val) = fst (ins key val t)"
proof -
  have "fst (treeinsert t key val) = finish key val (descend key t [])"
    by (simp add: treeinsert_def finish_def split: prod.splits treenode.splits)
  also have "\<dots> = fst (ins key val t)"
    by (simp only: loops_are_ins) (simp split: prod.splits)
  finally show ?thesis .
qed

section \<open>Rebalancing\<close>

lemma unsigned_window:
  assumes "abs (i :: int) \<le> 2" shows "(i + 1) mod 2 ^ 32 < 3 \<longleftrightarrow> abs i \<le> 1"
proof -
  have "i = -2 \<or> i = -1 \<or> i = 0 \<or> i = 1 \<or> i = 2" using assms by arith
  then show ?thesis by (elim disjE) simp_all
qed

lemma balance_level:
  assumes "height l \<le> height r + 1" and "height r \<le> height l + 1"
  shows "balance (Node k v l r h) =
    (Node k v l r (max (height l) (height r) + 1), int (max (height l) (height r) + 1) - int h)"
proof -
  have "(int (height l) - int (height r) + 1) mod 2 ^ 32 < 3"
    using assms by (subst unsigned_window) auto
  then show ?thesis
    using assms by (auto simp: balance_def Let_def max_def)
qed

text \<open>A subtree that is two levels deeper on one side, as an insertion leaves it.\<close>

lemma balance_deep_right:
  assumes "avl l" "avl r" "height r = height l + 2"
    and "r = Node k' v' rl rr hr" "height rl \<noteq> height rr"
  shows "avl (fst (balance (Node k v l r (height r))))"
    and "snd (balance (Node k v l r (height r))) = 0"
    and "height (fst (balance (Node k v l r (height r)))) = height r"
    and "inorder (fst (balance (Node k v l r h))) = inorder (Node k v l r h)"
proof -
  have "\<not> (int (height l) - int (height r) + 1) mod 2 ^ 32 < 3"
    using assms(3) by (subst unsigned_window) auto
  then have b: "balance (Node k v l r h) = rot (Node k v l r h) True" for h
    using assms(3) by (simp add: balance_def Let_def)
  show "avl (fst (balance (Node k v l r (height r))))"
    and "snd (balance (Node k v l r (height r))) = 0"
    and "height (fst (balance (Node k v l r (height r)))) = height r"
    unfolding b using assms by (cases rl; auto simp: rot_def Let_def max_def split: if_splits)+
  show "inorder (fst (balance (Node k v l r h))) = inorder (Node k v l r h)"
    unfolding b using assms by (cases rl; auto simp: rot_def Let_def)
qed

lemma balance_deep_left:
  assumes "avl l" "avl r" "height l = height r + 2"
    and "l = Node k' v' ll lr hl" "height ll \<noteq> height lr"
  shows "avl (fst (balance (Node k v l r (height l))))"
    and "snd (balance (Node k v l r (height l))) = 0"
    and "height (fst (balance (Node k v l r (height l)))) = height l"
    and "inorder (fst (balance (Node k v l r h))) = inorder (Node k v l r h)"
proof -
  have "\<not> (int (height l) - int (height r) + 1) mod 2 ^ 32 < 3"
    using assms(3) by (subst unsigned_window) auto
  then have b: "balance (Node k v l r h) = rot (Node k v l r h) False" for h
    using assms(3) by (simp add: balance_def Let_def)
  show "avl (fst (balance (Node k v l r (height l))))"
    and "snd (balance (Node k v l r (height l))) = 0"
    and "height (fst (balance (Node k v l r (height l)))) = height l"
    unfolding b using assms by (cases lr; auto simp: rot_def Let_def max_def split: if_splits)+
  show "inorder (fst (balance (Node k v l r h))) = inorder (Node k v l r h)"
    unfolding b using assms by (cases lr; auto simp: rot_def Let_def)
qed

section \<open>Insertion keeps the tree balanced\<close>

text \<open>
  While the loop up runs, the subtree below has grown by one level and leans to one side
  (or is the new leaf), which is what a rotation needs.
\<close>

definition grown :: "'v treenode \<Rightarrow> bool" where
  "grown t = (case t of Tip \<Rightarrow> False
     | Node k v l r h \<Rightarrow> height l \<noteq> height r \<or> (l = Tip \<and> r = Tip))"

definition ins_ok :: "'v treenode \<Rightarrow> 'v treenode \<times> bool \<Rightarrow> bool" where
  "ins_ok t p \<longleftrightarrow> avl (fst p) \<and>
     (if snd p then height (fst p) = height t + 1 \<and> grown (fst p) else height (fst p) = height t)"

lemma ins_step_right:
  assumes "avl (Node k v l r h)" and "ins_ok r (t, True)"
  shows "ins_ok (Node k v l r h) (let (n', delta) = balance (Node k v l t h) in (n', delta \<noteq> 0))"
proof (cases "height t \<le> height l + 1")
  case True
  then show ?thesis
    using assms by (auto simp: ins_ok_def grown_def balance_level max_def)
next
  case False
  then have ht: "height t = height l + 2" "h = height t"
    using assms by (auto simp: ins_ok_def max_def)
  obtain k' v' rl rr hr where t: "t = Node k' v' rl rr hr" and "height rl \<noteq> height rr"
    using assms(2) ht by (auto simp: ins_ok_def grown_def split: treenode.splits)
  then show ?thesis
    using balance_deep_right(1-3) [OF _ _ ht(1) t, of k v] assms ht
    by (auto simp: ins_ok_def split: prod.splits)
qed

lemma ins_step_left:
  assumes "avl (Node k v l r h)" and "ins_ok l (t, True)"
  shows "ins_ok (Node k v l r h) (let (n', delta) = balance (Node k v t r h) in (n', delta \<noteq> 0))"
proof (cases "height t \<le> height r + 1")
  case True
  then show ?thesis
    using assms by (auto simp: ins_ok_def grown_def balance_level max_def)
next
  case False
  then have ht: "height t = height r + 2" "h = height t"
    using assms by (auto simp: ins_ok_def max_def)
  obtain k' v' ll lr hl where t: "t = Node k' v' ll lr hl" and "height ll \<noteq> height lr"
    using assms(2) ht by (auto simp: ins_ok_def grown_def split: treenode.splits)
  then show ?thesis
    using balance_deep_left(1-3) [OF _ _ ht(1) t, of k v] assms ht
    by (auto simp: ins_ok_def split: prod.splits)
qed

lemma ins_balanced: "avl t \<Longrightarrow> ins_ok t (ins key val t)"
proof (induction t)
  case (Node k v l r h)
  consider "strcmp key k = 0" | "0 < strcmp key k" | "strcmp key k < 0" by linarith
  then show ?case
  proof cases
    case 2
    obtain t' go where t': "ins key val r = (t', go)" by fastforce
    with Node show ?thesis
      using 2 ins_step_right [OF Node.prems, of t'] by (cases go) (auto simp: ins_ok_def Let_def)
  next
    case 3
    obtain t' go where t': "ins key val l = (t', go)" by fastforce
    with Node show ?thesis
      using 3 ins_step_left [OF Node.prems, of t'] by (cases go) (auto simp: ins_ok_def Let_def)
  qed (use Node in \<open>simp add: ins_ok_def\<close>)
qed (simp add: ins_ok_def grown_def)

section \<open>Insertion is the update of a sorted association list\<close>

fun upd :: "string \<Rightarrow> 'v \<Rightarrow> (string \<times> 'v) list \<Rightarrow> (string \<times> 'v) list" where
  "upd key val [] = [(key, val)]"
| "upd key val ((k, v) # xs) =
     (if key < k then (key, val) # (k, v) # xs
      else if key = k then (key, val) # xs
      else (k, v) # upd key val xs)"

lemma upd_right:
  "\<forall>x \<in> set xs. fst x < key \<Longrightarrow> upd key val (xs @ ys) = xs @ upd key val ys"
  by (induction xs) auto

lemma upd_left: "key < k \<Longrightarrow> upd key val (xs @ (k, v) # ys) = upd key val xs @ (k, v) # ys"
  by (induction xs) auto

lemma map_of_upd:
  "sorted_wrt (<) (map fst xs) \<Longrightarrow> map_of (upd key val xs) = (map_of xs)(key \<mapsto> val)"
proof (induction key val xs rule: upd.induct)
  case (2 key val k v xs)
  have "map_of xs key = None" if "key < k"
    using 2(2) that by (force simp: map_of_eq_None_iff)
  then show ?case using 2 by (auto simp: fun_eq_iff)
qed auto

lemma fst_set_upd: "fst ` set (upd key val xs) = insert key (fst ` set xs)"
  by (induction xs rule: upd.induct) auto

lemma sorted_upd:
  "sorted_wrt (<) (map fst xs) \<Longrightarrow> sorted_wrt (<) (map fst (upd key val xs))"
proof (induction key val xs rule: upd.induct)
  case (2 key val k v xs)
  have "\<forall>y \<in> fst ` set (upd key val xs). k < y" if "k < key"
    using 2(2) that by (simp add: fst_set_upd)
  then show ?case using 2 by (fastforce simp: not_less_iff_gr_or_eq)
qed auto

lemma inorder_balance_right:
  assumes "avl (Node k v l r h)" and "ins_ok r (t, True)"
  shows "inorder (fst (balance (Node k v l t h))) = inorder (Node k v l t h)"
proof (cases "height t \<le> height l + 1")
  case True
  then show ?thesis using assms by (auto simp: ins_ok_def balance_level)
next
  case False
  then have ht: "height t = height l + 2"
    using assms by (auto simp: ins_ok_def max_def)
  obtain k' v' rl rr hr where t: "t = Node k' v' rl rr hr" and "height rl \<noteq> height rr"
    using assms(2) ht by (auto simp: ins_ok_def grown_def split: treenode.splits)
  then show ?thesis
    using balance_deep_right(4) [OF _ _ ht t, of k v h] assms by (auto simp: ins_ok_def)
qed

lemma inorder_balance_left:
  assumes "avl (Node k v l r h)" and "ins_ok l (t, True)"
  shows "inorder (fst (balance (Node k v t r h))) = inorder (Node k v t r h)"
proof (cases "height t \<le> height r + 1")
  case True
  then show ?thesis using assms by (auto simp: ins_ok_def balance_level)
next
  case False
  then have ht: "height t = height r + 2"
    using assms by (auto simp: ins_ok_def max_def)
  obtain k' v' ll lr hl where t: "t = Node k' v' ll lr hl" and "height ll \<noteq> height lr"
    using assms(2) ht by (auto simp: ins_ok_def grown_def split: treenode.splits)
  then show ?thesis
    using balance_deep_left(4) [OF _ _ ht t, of k v h] assms by (auto simp: ins_ok_def)
qed

lemma inorder_ins:
  "avl t \<Longrightarrow> ordered t \<Longrightarrow> inorder (fst (ins key val t)) = upd key val (inorder t)"
proof (induction t)
  case (Node k v l r h)
  have sub: "ordered l" "ordered r" "\<forall>x \<in> set (inorder l). fst x < k"
    using Node.prems(2) by (auto simp: ordered_def sorted_wrt_append)
  consider "strcmp key k = 0" | "0 < strcmp key k" | "strcmp key k < 0" by linarith
  then show ?case
  proof cases
    case 1
    then show ?thesis using sub(3) by (simp add: upd_right)
  next
    case 2
    then have "k < key" by (simp add: strcmp_pos)
    then have "\<forall>x \<in> set (inorder l @ [(k, v)]). fst x < key" using sub(3) by auto
    from upd_right [OF this, of val "inorder r"] have
      u: "upd key val (inorder (Node k v l r h)) = inorder l @ (k, v) # upd key val (inorder r)"
      by simp
    obtain t' go where t': "ins key val r = (t', go)" by fastforce
    have "ins_ok r (t', go)" using ins_balanced [of r key val] Node.prems t' by simp
    then show ?thesis
      using Node 2 t' u sub inorder_balance_right [OF Node.prems(1), of t']
      by (cases go) (auto simp: Let_def split: prod.splits)
  next
    case 3
    then have "key < k" by (simp add: strcmp_neg)
    then have u: "upd key val (inorder (Node k v l r h)) = upd key val (inorder l) @ (k, v) # inorder r"
      by (simp add: upd_left)
    obtain t' go where t': "ins key val l = (t', go)" by fastforce
    have "ins_ok l (t', go)" using ins_balanced [of l key val] Node.prems t' by simp
    then show ?thesis
      using Node 3 t' u sub inorder_balance_left [OF Node.prems(1), of t']
      by (cases go) (auto simp: Let_def split: prod.splits)
  qed
qed simp

lemma treefind_map_of: "ordered t \<Longrightarrow> treefind t key = map_of (inorder t) key"
proof (induction t)
  case (Node k v l r h)
  have sub: "ordered l" "ordered r" "\<forall>x \<in> set (inorder l). fst x < k" "\<forall>x \<in> set (inorder r). k < fst x"
    using Node.prems by (auto simp: ordered_def sorted_wrt_append)
  have "map_of (inorder l) key = None" if "\<not> key < k"
    using sub(3) that by (force simp: map_of_eq_None_iff)
  moreover have "map_of (inorder r) key = None" if "\<not> k < key"
    using sub(4) that by (force simp: map_of_eq_None_iff)
  ultimately show ?case
    using Node sub strcmp_pos [of key k] strcmp_neg [of key k]
    by (auto simp: Let_def map_add_def not_less_iff_gr_or_eq split: option.splits)
qed simp

lemma treeinsert_wf [inv_intros]: "tree_wf t \<Longrightarrow> tree_wf (fst (treeinsert t key val))"
  using ins_balanced [of t key val]
  by (simp add: tree_wf_def treeinsert_eq_ins ins_ok_def ordered_def inorder_ins sorted_upd)

lemma treefind_treeinsert:
  assumes "tree_wf t"
  shows "treefind (fst (treeinsert t key val)) = (treefind t)(key \<mapsto> val)"
proof
  fix key'
  have "ordered (fst (treeinsert t key val))"
    using treeinsert_wf [OF assms] by (simp add: tree_wf_def)
  then show "treefind (fst (treeinsert t key val)) key' = ((treefind t)(key \<mapsto> val)) key'"
    using assms by (simp add: treefind_map_of treeinsert_eq_ins inorder_ins map_of_upd tree_wf_def
        ordered_def)
qed

lemma descend_found:
  "case snd (descend key t a) of Tip \<Rightarrow> treefind t key = None
     | Node k v l r h \<Rightarrow> treefind t key = Some v"
proof (induction t arbitrary: a)
  case (Node k v l r h)
  consider "strcmp key k = 0" | "0 < strcmp key k" | "strcmp key k < 0" by linarith
  then show ?case
  proof cases
    case 2
    then have "treefind (Node k v l r h) key = treefind r key" by (auto simp: Let_def)
    then show ?thesis using 2 Node(2) [of "(True, Node k v l r h) # a"]
      by (auto simp: Let_def split: treenode.splits)
  next
    case 3
    then have "treefind (Node k v l r h) key = treefind l key" by (auto simp: Let_def)
    then show ?thesis using 3 Node(1) [of "(False, Node k v l r h) # a"]
      by (auto simp: Let_def split: treenode.splits)
  qed simp
qed simp

lemma treeinsert_old: "snd (treeinsert t key val) = treefind t key"
  using descend_found [where key = key and t = t and a = "[]"]
  by (auto simp: treeinsert_def split: prod.splits treenode.splits)

section \<open>The array of parent pointers is long enough\<close>

lemma descend_depth: "avl t \<Longrightarrow> length (fst (descend key t a)) \<le> length a + height t"
proof (induction key t a rule: descend.induct)
  case (2 key k v l r h a)
  then show ?case by (auto simp: Let_def le_max_iff_disj intro: le_trans)
qed simp

fun nodes :: "'v treenode \<Rightarrow> nat" where
  "nodes Tip = 0"
| "nodes (Node k v l r h) = 1 + nodes l + nodes r"

fun minnodes :: "nat \<Rightarrow> nat" where
  "minnodes 0 = 0"
| "minnodes (Suc 0) = 1"
| "minnodes (Suc (Suc n)) = 1 + minnodes (Suc n) + minnodes n"

lemma minnodes_mono: "minnodes n \<le> minnodes (Suc n)"
  by (cases n) auto

lemma minnodes_double: "minnodes (Suc n) \<le> 2 * minnodes n + 1"
  by (induction n rule: minnodes.induct) auto

lemma minnodes_three: "4 * (minnodes n + 1) \<le> minnodes (n + 3) + 1"
  using minnodes_mono [of n] minnodes_double [of "n - 1"]
  by (cases n) (auto simp: numeral_3_eq_3)

lemma minnodes_pow: "4 ^ n \<le> minnodes (3 * n) + 1"
proof (induction n)
  case (Suc n)
  then show ?case using minnodes_three [of "3 * n"] by (simp add: algebra_simps)
qed simp

lemma avl_minnodes: "avl t \<Longrightarrow> minnodes (height t) \<le> nodes t"
proof (induction t)
  case (Node k v l r h)
  consider "height l = height r" | "height l = Suc (height r)" | "height r = Suc (height l)"
    using Node.prems by force
  then show ?case
  proof cases
    case 1
    then show ?thesis
      using Node minnodes_double [of "height r"] by (auto simp: max_def)
  qed (use Node in \<open>auto simp: max_def\<close>)
qed simp

lemma minnodes_mono_le: "m \<le> n \<Longrightarrow> minnodes m \<le> minnodes n"
  by (rule lift_Suc_mono_le) (rule minnodes_mono)

lemma avl_height_bound:
  assumes "avl t" and "nodes t < 2 ^ 64 - 1" shows "height t < 96"
proof (rule ccontr)
  assume "\<not> height t < 96"
  then have "minnodes (3 * 32) \<le> nodes t"
    using avl_minnodes [OF assms(1)] minnodes_mono_le [of "3 * 32" "height t"] by simp
  moreover have "(4::nat) ^ 32 = 2 ^ 64" by simp
  ultimately show False using assms(2) minnodes_pow [of 32] by linarith
qed

interpretation tree_dict: dictionary tree_wf Tip treefind "\<lambda>k v t. fst (treeinsert t k v)"
  by unfold_locales
    (auto simp: treeinsert_wf treefind_treeinsert, simp add: tree_wf_def ordered_def)

section \<open>Properties\<close>

text \<open>
  C13: after any sequence of insertions into the empty tree, the tree is height-balanced with
  exact heights, its keys are in increasing order, and a lookup gives the value inserted last.
\<close>

theorem tree_refines_map:
  "tree_wf (fold (\<lambda>(k, v) t. fst (treeinsert t k v)) kvs Tip) \<and>
   treefind (fold (\<lambda>(k, v) t. fst (treeinsert t k v)) kvs Tip) = map_of (rev kvs)"
proof -
  have "(\<lambda>(k, v) t. fst (treeinsert t k v)) = (\<lambda>(k, v). (\<lambda>t. fst (treeinsert t k v)))"
    by auto
  then show ?thesis
    using tree_dict.fold_insert_inv [OF tree_dict.empty_inv, of kvs]
      tree_dict.fold_insert_empty [of kvs] by simp
qed

text \<open>
  \<open>treeinsert\<close> makes one climb that stops at the first subtree whose height is unchanged;
  the result is the one of rebalancing at every level of the recursion, and it hands back
  exactly the value that the key had before (NULL if it was not there).
\<close>

theorem treeinsert_is_reference:
  "fst (treeinsert t key val) = fst (ins key val t) \<and> snd (treeinsert t key val) = treefind t key"
  by (simp add: treeinsert_eq_ins treeinsert_old)

text \<open>
  C14: the array of \<open>MAXH\<close> pointers that \<open>treeinsert\<close> fills on its way down never overflows: in
  a well-formed tree with fewer nodes than a 64-bit address space has bytes, the path to any
  key takes at most \<open>MAXH\<close> entries.
\<close>

theorem treeinsert_path_fits:
  assumes "tree_wf t" and "nodes t < 2 ^ 64 - 1"
  shows "path_entries t key \<le> MAXH"
proof -
  have "height t < 96" using assms by (intro avl_height_bound) (auto simp: tree_wf_def)
  then show ?thesis
    using descend_depth [of t key "[]"] assms(1) by (simp add: path_entries_def MAXH_def tree_wf_def)
qed

theorem treeinsert_path_fits_witness:
  "path_entries (fst (treeinsert Tip ''cc'' (0::nat))) ''ld'' \<le> MAXH"
  by (rule treeinsert_path_fits)
    (auto simp: treeinsert_wf tree_dict.empty_inv, simp add: treeinsert_def)

end
