(* ===== verification/Samu_Util.thy ===== *)
theory Samu_Util
  imports Bootsh_Prelude
begin

text \<open>
  \<open>src/samu/util.c\<close>: the errors that end the build tool, the growing byte buffer, the size
  check of the allocator, unevaluated strings, and \<open>canonpath\<close>, which rewrites a path in
  place. \<open>canonpath\<close> is modelled on the memory it works on, with its two cursors and its
  stack of component starts; the lemmas show that the write cursor never passes the read
  cursor, and that the result is the one the reference definition on lists of components
  gives.
\<close>

section \<open>Errors\<close>

datatype fatal_msg =
    Empty_path | Too_many_components | Rule_redefined | Rule_no_command | Rule_rsp_mismatch
  | Undefined_rule | Pool_redefined | Unknown_pool | Pool_invalid_depth | Pool_no_depth
  | Pool_unexpected_var | Version_invalid | Version_too_new | Unknown_target
  | Multiple_rules | Var_cycle | Open_failed | Stat_failed | Missing_file
  | Dependency_cycle | Too_many_nodes | Record_too_large | Bad_placeholder | No_progress
  | Subcommand_failed | Subcommands_failed

text \<open>
  \<open>fatal\<close> with the name it prints, \<open>scanerror\<close> with path, line and column, a loop that never
  ends, an access to memory that is out of bounds or was never written, and a division by
  zero.
\<close>

datatype samu_error =
    Fatal fatal_msg string
  | Scan_error string nat nat string
  | Diverges
  | Bad_access
  | Div_by_zero

text \<open>What \<open>fopen\<close> and reading give: the content, \<open>ENOENT\<close>, or another error.\<close>

datatype file_result = File string | Missing | Unreadable

section \<open>Buffers and sizes\<close>

record buffer =
  bdata :: string
  bcap :: nat

definition bufadd :: "buffer \<Rightarrow> char \<Rightarrow> buffer" where
  "bufadd buf c =
     (let buf' = (if length (bdata buf) \<ge> bcap buf
                  then buf\<lparr>bcap := (if bcap buf \<noteq> 0 then bcap buf * 2 else 2 ^ 8)\<rparr>
                  else buf)
      in buf'\<lparr>bdata := bdata buf' @ [c]\<rparr>)"

definition buffer_wf :: "buffer \<Rightarrow> bool" where
  "buffer_wf buf \<longleftrightarrow> length (bdata buf) \<le> bcap buf"

lemma bufadd_data [simp]: "bdata (bufadd buf c) = bdata buf @ [c]"
  by (simp add: bufadd_def Let_def)

lemma bufadd_wf [inv_intros]: "buffer_wf buf \<Longrightarrow> buffer_wf (bufadd buf c)"
  by (auto simp: bufadd_def buffer_wf_def Let_def Suc_le_eq)

text \<open>
  \<open>bufadd\<close> in a loop appends the characters; the clients below use a buffer as the list
  of its bytes.
\<close>

lemma fold_bufadd_data: "bdata (fold (\<lambda>c b. bufadd b c) cs buf) = bdata buf @ cs"
  by (induction cs arbitrary: buf) simp_all

definition SIZE_MAX :: nat where "SIZE_MAX = 2 ^ 64 - 1"

text \<open>\<open>reallocarray_\<close>: the number of bytes asked for, \<open>None\<close> for \<open>ENOMEM\<close>.\<close>

definition reallocarray :: "nat \<Rightarrow> nat \<Rightarrow> nat option" where
  "reallocarray n m = (if m \<noteq> 0 \<and> n > SIZE_MAX div m then None else Some (n * m))"

lemma reallocarray_no_wrap: "reallocarray n m = Some b \<longleftrightarrow> b = n * m \<and> n * m \<le> SIZE_MAX"
proof (cases "m = 0")
  case False
  then have "n \<le> SIZE_MAX div m \<longleftrightarrow> n * m \<le> SIZE_MAX"
    by (simp add: less_eq_div_iff_mult_less_eq)
  then show ?thesis using False by (auto simp: reallocarray_def)
qed (auto simp: reallocarray_def)

section \<open>Unevaluated strings\<close>

text \<open>\<open>struct evalstring\<close>: a part is a variable reference or a literal.\<close>

datatype evalpart = Var string | Lit string

type_synonym evalstring = "evalpart list"

section \<open>canonpath\<close>

definition NUL :: char where "NUL = CHR 0x00"

definition max_components :: nat where "max_components = 60"

text \<open>The memory, the read cursor \<open>s\<close>, the write cursor \<open>d\<close>.\<close>

type_synonym canon_state = "string \<times> nat \<times> nat"

text \<open>
  \<open>while (*s != '/' && *s != '\0') *d++ = *s++; *d++ = *s++;\<close> The bound on \<open>s\<close> is never
  what ends the loop: the terminator does (lemma \<open>copy_component_run\<close>).
\<close>

function copy_component :: "string \<Rightarrow> nat \<Rightarrow> nat \<Rightarrow> canon_state" where
  "copy_component m s d =
     (if s < length m \<and> m ! s \<noteq> CHR ''/'' \<and> m ! s \<noteq> NUL
      then copy_component (m[d := m ! s]) (s + 1) (d + 1)
      else (m[d := m ! s], s + 1, d + 1))"
  by pat_completeness auto
termination by (relation "measure (\<lambda>(m, s, d). length m - s)") auto

declare copy_component.simps [simp del]

lemma copy_component_progress: "copy_component m s d = (m', s', d') \<Longrightarrow> s < s'"
proof (induction m s d rule: copy_component.induct)
  case (1 m s d)
  show ?case
    using 1(2) 1(1) by (subst (asm) copy_component.simps) (auto split: if_splits)
qed

lemma copy_component_length: "copy_component m s d = (m', s', d') \<Longrightarrow> length m' = length m"
proof (induction m s d rule: copy_component.induct)
  case (1 m s d)
  show ?case
    using 1(2) 1(1) by (subst (asm) copy_component.simps) (auto split: if_splits)
qed

text \<open>
  The main loop. \<open>cps\<close> is the stack \<open>component[0..n-1]\<close>, top first. The branches are the
  cases of the two \<open>switch\<close> statements; the last one is what follows them.
\<close>

function canon_loop ::
  "nat \<Rightarrow> string \<Rightarrow> nat \<Rightarrow> nat \<Rightarrow> nat list \<Rightarrow> samu_error + string \<times> nat" where
  "canon_loop end m s d cps =
     (if \<not> s < end then Inr (m, d)
      else if m ! s = CHR ''/'' then canon_loop end m (s + 1) d cps
      else if m ! s = CHR ''.'' \<and> (m ! (s + 1) = NUL \<or> m ! (s + 1) = CHR ''/'') then
        canon_loop end m (s + 2) d cps
      else if m ! s = CHR ''.'' \<and> m ! (s + 1) = CHR ''.'' \<and>
              (m ! (s + 2) = CHR ''/'' \<or> m ! (s + 2) = NUL) then
        (case cps of
           d' # cps' \<Rightarrow> canon_loop end m (s + 3) d' cps'
         | [] \<Rightarrow> canon_loop end (m[d := m ! s, d + 1 := m ! (s + 1), d + 2 := m ! (s + 2)])
                   (s + 3) (d + 3) cps)
      else if length cps = max_components then Inl (Fatal Too_many_components m)
      else (case copy_component m s d of (m', s', d') \<Rightarrow> canon_loop end m' s' d' (d # cps)))"
  by pat_completeness auto
termination
  by (relation "measure (\<lambda>(end, m, s, d, cps). end - s)")
    (auto dest: copy_component_progress [OF sym])

declare canon_loop.simps [simp del]

text \<open>The string's \<open>n\<close> bytes are followed by a NUL; the result is the first \<open>n'\<close> bytes.\<close>

definition canonpath :: "string \<Rightarrow> samu_error + string" where
  "canonpath path =
     (if path = [] then Inl (Fatal Empty_path [])
      else
        let m = path @ [NUL];
            start = (if m ! 0 = CHR ''/'' then 1 else 0)
        in bindE (canon_loop (length path) m start start [])
             (\<lambda>(m, d).
                if d = 0 then Inr (take 1 (m[0 := CHR ''.'', 1 := NUL]))
                else Inr (take (d - 1) (m[d - 1 := NUL]))))"

section \<open>The reference: a list of components\<close>

function path_split :: "string \<Rightarrow> string list" where
  "path_split r =
     (if r = [] then []
      else takeWhile (\<lambda>c. c \<noteq> CHR ''/'') r # path_split (drop 1 (dropWhile (\<lambda>c. c \<noteq> CHR ''/'') r)))"
  by pat_completeness auto
termination
  by (relation "measure length") (use drop1_dropWhile_less in auto)

declare path_split.simps [simp del]

text \<open>
  The state: how many leading \<open>..\<close> are kept, and the components that a later \<open>..\<close> can
  remove, top first. \<open>None\<close>: too many of them.
\<close>

fun canon_step :: "string \<Rightarrow> nat \<times> string list \<Rightarrow> (nat \<times> string list) option" where
  "canon_step c (k, st) =
     (if c = [] \<or> c = ''.'' then Some (k, st)
      else if c = ''..'' then (case st of [] \<Rightarrow> Some (k + 1, []) | _ # st' \<Rightarrow> Some (k, st'))
      else if length st = max_components then None
      else Some (k, c # st))"

fun canon_steps :: "string list \<Rightarrow> nat \<times> string list \<Rightarrow> (nat \<times> string list) option" where
  "canon_steps [] s = Some s"
| "canon_steps (c # cs) s = Option.bind (canon_step c s) (canon_steps cs)"

definition canon_comps :: "nat \<times> string list \<Rightarrow> string list" where
  "canon_comps s = replicate (fst s) ''..'' @ rev (snd s)"

fun sep_join :: "string list \<Rightarrow> string" where
  "sep_join [] = []"
| "sep_join [c] = c"
| "sep_join (c # cs) = c @ ''/'' @ sep_join cs"

definition canon_render :: "bool \<Rightarrow> string list \<Rightarrow> string" where
  "canon_render absolute cs =
     (if cs = [] then (if absolute then [] else ''.'')
      else (if absolute then ''/'' else []) @ sep_join cs)"

definition is_absolute :: "string \<Rightarrow> bool" where
  "is_absolute path = (take 1 path = ''/'')"

definition canon_ref :: "string \<Rightarrow> string option" where
  "canon_ref path =
     map_option (\<lambda>s. canon_render (is_absolute path) (canon_comps s))
       (canon_steps (path_split (if is_absolute path then drop 1 path else path)) (0, []))"

section \<open>canonpath computes the reference\<close>

lemma copy_component_run:
  assumes "drop s m = c @ x # w" and "d \<le> s" and "x = CHR ''/'' \<or> x = NUL"
    and "CHR ''/'' \<notin> set c" and "NUL \<notin> set c"
  shows "\<exists>m'. copy_component m s d = (m', s + length c + 1, d + length c + 1) \<and>
    length m' = length m \<and> take (d + length c + 1) m' = take d m @ c @ [x] \<and>
    drop (s + length c + 1) m' = w"
  using assms
proof (induction c arbitrary: m s d)
  case Nil
  then have s: "s < length m" "m ! s = x" "drop (Suc s) m = w"
    using drop_eq_ConsD [of s m x w] by simp_all
  then have "copy_component m s d = (m[d := x], s + 1, d + 1)"
    using Nil(3) by (subst copy_component.simps) auto
  moreover have "drop (s + 1) (m[d := x]) = w"
    using s(3) Nil(2) by (simp add: drop_update_cancel)
  moreover have "take (d + 1) (m[d := x]) = take d m @ [x]"
    using s(1) Nil(2) by (simp add: take_Suc_conv_app_nth)
  ultimately show ?case by simp
next
  case (Cons y c)
  then have s: "s < length m" "m ! s = y" "drop (Suc s) m = c @ x # w"
    using drop_eq_ConsD [of s m y "c @ x # w"] by simp_all
  let ?m = "m[d := y]"
  have dr: "drop (Suc s) ?m = c @ x # w" using s(3) Cons.prems(2) by (simp add: drop_update_cancel)
  have tk: "take (Suc d) ?m = take d m @ [y]"
    using s(1) Cons.prems(2) by (simp add: take_Suc_conv_app_nth)
  obtain m' where "copy_component ?m (Suc s) (Suc d) = (m', Suc s + length c + 1, Suc d + length c + 1)"
      "length m' = length ?m" "take (Suc d + length c + 1) m' = take (Suc d) ?m @ c @ [x]"
      "drop (Suc s + length c + 1) m' = w"
    using Cons.IH [OF dr, of "Suc d"] Cons.prems(2-5) by (auto simp del: One_nat_def)
  then show ?case
    using s Cons.prems(4,5) tk by (subst copy_component.simps) auto
qed

definition sepd :: "string list \<Rightarrow> string" where
  "sepd cs = concat (map (\<lambda>c. c @ ''/'') cs)"

lemma sepd_append [simp]: "sepd (xs @ ys) = sepd xs @ sepd ys"
  by (simp add: sepd_def)

lemma sepd_simps [simp]: "sepd [] = []" "sepd [c] = c @ ''/''"
  by (simp_all add: sepd_def)

lemma butlast_sepd: "cs \<noteq> [] \<Longrightarrow> butlast (sepd cs) = sep_join cs"
  by (induction cs rule: sep_join.induct) (auto simp: sepd_def butlast_append)

text \<open>What has been written, and where its removable components start.\<close>

definition written :: "string \<Rightarrow> nat \<Rightarrow> string list \<Rightarrow> string" where
  "written root k st = root @ sepd (canon_comps (k, st))"

lemma written_push: "written root k (c # st) = written root k st @ c @ ''/''"
  by (simp add: written_def canon_comps_def)

lemma written_dots: "written root (Suc k) [] = written root k [] @ ''../''"
  by (simp add: written_def canon_comps_def replicate_append_same [symmetric])

fun starts :: "string \<Rightarrow> nat \<Rightarrow> string list \<Rightarrow> nat list" where
  "starts root k [] = []"
| "starts root k (c # st) = length (written root k st) # starts root k st"

lemma length_starts [simp]: "length (starts root k st) = length st"
  by (induction st) auto

definition canon_inv ::
  "string \<Rightarrow> string \<Rightarrow> string \<Rightarrow> nat \<Rightarrow> nat \<Rightarrow> nat list \<Rightarrow> nat \<Rightarrow> string list \<Rightarrow> bool" where
  "canon_inv path root m s d cps k st \<longleftrightarrow>
     length m = length path + 1 \<and> s \<le> length path + 1 \<and> d \<le> s \<and>
     drop s m = drop s (path @ [NUL]) \<and> cps = starts root k st \<and> d = length (written root k st) \<and>
     take (d - 1) m = butlast (written root k st) \<and>
     (s \<le> length path \<longrightarrow> take d m = written root k st)"

lemma butlast_take_length: "take d m = w \<Longrightarrow> d = length w \<Longrightarrow> take (d - 1) m = butlast w"
  by (metis butlast_conv_take take_take min.absorb1 diff_le_self)

lemma take_shorter: "take d m = u @ v \<Longrightarrow> take (length u) m = u"
  by (metis append_eq_conv_conj take_add min_def nle_le take_all take_take length_append
      le_add1 append_take_drop_id length_take)

lemma drop_further: "drop s m = drop s p \<Longrightarrow> drop (s + j) m = drop (s + j) p"
  by (metis add.commute drop_drop)

text \<open>The next component of what is left to read.\<close>

lemma next_component:
  assumes "r \<noteq> []" and "NUL \<notin> set r"
  obtains c x w where "r @ [NUL] = c @ x # w" and "CHR ''/'' \<notin> set c" and "NUL \<notin> set c"
    and "x = CHR ''/'' \<or> x = NUL" and "x = NUL \<longrightarrow> w = []" and "c = [] \<longrightarrow> x = CHR ''/''"
    and "path_split r = c # path_split (drop (length c + 1) r)"
proof -
  define c where "c = takeWhile (\<lambda>c. c \<noteq> CHR ''/'') r"
  define q where "q = dropWhile (\<lambda>c. c \<noteq> CHR ''/'') r"
  have r: "r = c @ q" by (simp add: c_def q_def)
  have c: "CHR ''/'' \<notin> set c" using set_takeWhileD by (fastforce simp: c_def)
  have n: "NUL \<notin> set c" using assms(2) r by simp
  have "path_split r = takeWhile (\<lambda>c. c \<noteq> CHR ''/'') r
      # path_split (drop 1 (dropWhile (\<lambda>c. c \<noteq> CHR ''/'') r))"
    using assms(1) by (subst path_split.simps) simp
  then have "path_split r = c # path_split (drop 1 q)"
    by (simp only: c_def [symmetric] q_def [symmetric])
  moreover have "drop (length c + 1) r = drop 1 q" by (simp add: r)
  ultimately have ps: "path_split r = c # path_split (drop (length c + 1) r)" by simp
  show thesis
  proof (cases q)
    case Nil
    then show thesis using that [of c NUL "[]"] r c n ps assms(1) by simp
  next
    case (Cons x q')
    then have "x = CHR ''/''" using hd_dropWhile [of "\<lambda>c. c \<noteq> CHR ''/''" r] by (auto simp: q_def)
    then show thesis using that [of c x "q' @ [NUL]"] r c n ps Cons by (simp add: NUL_def)
  qed
qed

definition canon_result ::
  "string \<Rightarrow> string \<Rightarrow> (nat \<times> string list) option \<Rightarrow> samu_error + string \<times> nat \<Rightarrow> bool" where
  "canon_result path root spec res \<longleftrightarrow>
     (case spec of
        None \<Rightarrow> \<exists>m. res = Inl (Fatal Too_many_components m)
      | Some (k, st) \<Rightarrow> \<exists>m. res = Inr (m, length (written root k st)) \<and>
          length m = length path + 1 \<and> length (written root k st) \<le> length path + 1 \<and>
          take (length (written root k st) - 1) m = butlast (written root k st))"

lemma canon_loop_ref:
  assumes "canon_inv path root m s d cps k st" and "NUL \<notin> set path"
  shows "canon_result path root (canon_steps (path_split (drop s path)) (k, st))
    (canon_loop (length path) m s d cps)"
  using assms(1)
proof (induction "length path + 1 - s" arbitrary: m s d cps k st rule: less_induct)
  case less
  have inv: "length m = length path + 1" "s \<le> length path + 1" "d \<le> s"
      "drop s m = drop s (path @ [NUL])" "cps = starts root k st" "d = length (written root k st)"
      "take (d - 1) m = butlast (written root k st)"
      "s \<le> length path \<Longrightarrow> take d m = written root k st"
    using less.prems by (auto simp: canon_inv_def)
  show ?case
  proof (cases "s < length path")
    case False
    then show ?thesis
      using inv by (subst canon_loop.simps) (simp add: path_split.simps canon_result_def)
  next
    case True
    define r where "r = drop s path"
    have "r \<noteq> []" "NUL \<notin> set r" using True assms(2) by (auto simp: r_def dest: in_set_dropD)
    then obtain c x w where cxw: "r @ [NUL] = c @ x # w" "CHR ''/'' \<notin> set c" "NUL \<notin> set c"
        "x = CHR ''/'' \<or> x = NUL" "x = NUL \<longrightarrow> w = []" "c = [] \<longrightarrow> x = CHR ''/''"
        and ps: "path_split r = c # path_split (drop (length c + 1) r)"
      by (rule next_component)
    have dm: "drop s m = c @ x # w" using inv(4) True cxw(1) by (simp add: r_def)
    have rd: "m ! (s + i) = (c @ x # w) ! i" for i
      using nth_drop_append [OF dm, of i] inv(1,2) by simp
    have rd0: "m ! s = (c @ x # w) ! 0" "m ! Suc s = (c @ x # w) ! 1" "m ! Suc (Suc s) = (c @ x # w) ! 2"
      using rd [of 0] rd [of 1] rd [of 2] by simp_all
    have "length (drop s m) = length (c @ x # w)" by (simp only: dm)
    then have len: "s + length c + 1 \<le> length path + 1" using inv(1,2) by simp
    have rest: "drop (length c + 1) r = drop (s + length c + 1) path"
      by (simp add: r_def add.commute add.left_commute)
    have tk: "take d m = written root k st" using inv(8) True by simp
    have wdrop: "drop (s + length c + 1) (path @ [NUL]) = w"
    proof -
      have "drop (s + length c + 1) (path @ [NUL]) = drop (length c + 1) (drop s (path @ [NUL]))"
        by (simp only: drop_drop ac_simps)
      also have "\<dots> = w" using dm by (simp only: inv(4) [symmetric]) simp
      finally show ?thesis .
    qed
    note IH = less.hyps
    have step: "canon_steps (path_split (drop s path)) (k, st) =
        Option.bind (canon_step c (k, st)) (canon_steps (path_split (drop (s + length c + 1) path)))"
      using ps rest by (simp add: r_def)
    consider (skip) "c = [] \<or> c = ''.''" | (up) "c = ''..''" | (name) "c \<noteq> []" "c \<noteq> ''.''" "c \<noteq> ''..''"
      by blast
    then show ?thesis
    proof cases
      case skip
      have "canon_loop (length path) m s d cps = canon_loop (length path) m (s + length c + 1) d cps"
        using skip True rd0 cxw(4,6) by (subst canon_loop.simps) (auto simp: NUL_def)
      moreover have "canon_inv path root m (s + length c + 1) d cps k st"
        using inv len tk drop_further [OF inv(4), of "length c + 1"]
        by (auto simp: canon_inv_def)
      ultimately show ?thesis
        using IH [of "s + length c + 1"] skip step True by auto
    next
      case up
      show ?thesis
      proof (cases st)
        case Nil
        let ?m = "m[d := m ! s, d + 1 := m ! (s + 1), d + 2 := m ! (s + 2)]"
        have run: "canon_loop (length path) m s d cps = canon_loop (length path) ?m (s + 3) (d + 3) cps"
          using up True rd0 cxw(4) inv(5) Nil by (subst canon_loop.simps) (auto simp: NUL_def)
        have three: "?m = m[d := CHR ''.'', d + 1 := CHR ''.'', d + 2 := x]"
          using rd0 up by (simp add: numeral_2_eq_2)
        have tk3: "take (d + 3) ?m = written root k [] @ ''..'' @ [x]"
          unfolding three using inv(1,3) len tk Nil up
          by (simp add: numeral_3_eq_3 numeral_2_eq_2 take_Suc_conv_app_nth)
        have dr3: "drop (s + 3) ?m = drop (s + 3) (path @ [NUL])"
        proof -
          have "drop (s + 3) ?m = drop (s + 3) m" using inv(3) by (simp add: drop_update_cancel)
          then show ?thesis using drop_further [OF inv(4)] by simp
        qed
        have "canon_inv path root ?m (s + 3) (d + 3) cps (Suc k) []"
          using inv len tk3 dr3 Nil up cxw(4,5) wdrop
          by (auto simp: canon_inv_def written_dots butlast_append NUL_def
              dest: butlast_take_length)
        then show ?thesis
          using IH [of "s + 3"] run up step True Nil by (auto simp: eval_nat_numeral)
      next
        case (Cons a st')
        have run: "canon_loop (length path) m s d cps =
            canon_loop (length path) m (s + 3) (length (written root k st')) (starts root k st')"
          using up True rd0 cxw(4) inv(5) Cons by (subst canon_loop.simps) (auto simp: NUL_def)
        have pre: "take (length (written root k st')) m = written root k st'"
          using tk Cons by (simp add: written_push take_shorter)
        have dr3: "drop (s + 3) m = drop (s + 3) (path @ [NUL])"
          by (rule drop_further [OF inv(4)])
        have "canon_inv path root m (s + 3) (length (written root k st')) (starts root k st') k st'"
          using inv len pre dr3 Cons up butlast_take_length [OF pre refl]
          by (auto simp: canon_inv_def written_push)
        then show ?thesis
          using IH [of "s + 3"] run up step True Cons by (auto simp: eval_nat_numeral)
      qed
    next
      case name
      have go: "canon_loop (length path) m s d cps =
          (if length cps = max_components then Inl (Fatal Too_many_components m)
           else case copy_component m s d of (m', s', d') \<Rightarrow>
             canon_loop (length path) m' s' d' (d # cps))"
      proof -
        have n1: "\<not> (m ! s = CHR ''/'')"
          using rd0 name(1) cxw(2) by (cases c) auto
        have n2: "\<not> (m ! s = CHR ''.'' \<and> (m ! (s + 1) = NUL \<or> m ! (s + 1) = CHR ''/''))"
          using rd0 name(1,2) cxw(2,3) by (cases c; cases "tl c") auto
        have n3: "\<not> (m ! s = CHR ''.'' \<and> m ! (s + 1) = CHR ''.'' \<and>
            (m ! (s + 2) = CHR ''/'' \<or> m ! (s + 2) = NUL))"
          using rd0 name cxw(2,3,4) by (cases c; cases "tl c"; cases "tl (tl c)") (auto simp: NUL_def)
        show ?thesis
          by (subst canon_loop.simps) (simp only: n1 n2 n3 True not_True_eq_False if_False)
      qed
      show ?thesis
      proof (cases "length st = max_components")
        case True
        then show ?thesis using go step name inv(5) by (auto simp: canon_result_def)
      next
        case False
        obtain m' where cp: "copy_component m s d = (m', s + length c + 1, d + length c + 1)"
            "length m' = length m" "take (d + length c + 1) m' = take d m @ c @ [x]"
            "drop (s + length c + 1) m' = w"
          using copy_component_run [OF dm inv(3) cxw(4,2,3)] by blast
        have bl: "take (d + length c) m' = butlast (written root k (c # st))"
          using butlast_take_length [OF cp(3)] tk inv(1-3,6) by (simp add: written_push butlast_append)
        have "canon_inv path root m' (s + length c + 1) (d + length c + 1) (d # cps) k (c # st)"
          using inv len cp tk wdrop bl cxw(4,5)
          by (auto simp: canon_inv_def written_push)
        then show ?thesis
          using IH [of "s + length c + 1"] go cp name False step inv(5) \<open>s < length path\<close> by auto
      qed
    qed
  qed
qed

lemma butlast_written:
  "butlast (written root k st) =
     (if canon_comps (k, st) = [] then butlast root else root @ sep_join (canon_comps (k, st)))"
proof (cases "canon_comps (k, st) = []")
  case True
  then show ?thesis by (simp add: written_def)
next
  case False
  then have "sepd (canon_comps (k, st)) \<noteq> []"
    by (cases "canon_comps (k, st)") (auto simp: sepd_def)
  then show ?thesis using False by (simp add: written_def butlast_append butlast_sepd)
qed

lemma canonpath_is_ref:
  assumes "path \<noteq> []" and "NUL \<notin> set path"
  shows "case canon_ref path of
      None \<Rightarrow> \<exists>m. canonpath path = Inl (Fatal Too_many_components m)
    | Some q \<Rightarrow> canonpath path = Inr q"
proof -
  define ab where "ab = is_absolute path"
  define start :: nat where "start = (if ab then 1 else 0)"
  define root where "root = (if ab then ''/'' else [])"
  have hd: "(path ! 0 = CHR ''/'') = ab"
    using assms(1) by (cases path) (auto simp: ab_def is_absolute_def)
  have inv: "canon_inv path root (path @ [NUL]) start start [] 0 []"
    using assms(1) hd
    by (cases path) (auto simp: canon_inv_def root_def start_def written_def canon_comps_def)
  note res = canon_loop_ref [OF inv assms(2)]
  have run: "canonpath path =
      bindE (canon_loop (length path) (path @ [NUL]) start start [])
        (\<lambda>(m, d). if d = 0 then Inr (take 1 (m[0 := CHR ''.'', 1 := NUL]))
                  else Inr (take (d - 1) (m[d - 1 := NUL])))"
    using assms(1) hd by (simp add: canonpath_def start_def Let_def nth_append)
  have ps: "(if is_absolute path then drop 1 path else path) = drop start path"
    by (simp add: start_def ab_def)
  show ?thesis
  proof (cases "canon_steps (path_split (drop start path)) (0, [])")
    case None
    then show ?thesis
      using res by (auto simp: canon_ref_def ps canon_result_def run)
  next
    case (Some kst)
    obtain k st where kst: "kst = (k, st)" by (cases kst)
    then obtain m where m: "canon_loop (length path) (path @ [NUL]) start start [] =
          Inr (m, length (written root k st))" "length m = length path + 1"
        "length (written root k st) \<le> length path + 1"
        "take (length (written root k st) - 1) m = butlast (written root k st)"
      using res Some by (auto simp: canon_result_def)
    have ref: "canon_ref path = Some (canon_render ab (canon_comps (k, st)))"
      using Some kst by (simp add: canon_ref_def ps ab_def)
    have "canonpath path = Inr (canon_render ab (canon_comps (k, st)))"
    proof (cases "written root k st = []")
      case True
      then have "canon_render ab (canon_comps (k, st)) = ''.''"
        by (cases "canon_comps (k, st)")
          (auto simp: written_def canon_render_def root_def sepd_def split: if_splits)
      then show ?thesis using True m assms(1) by (cases m) (auto simp: run)
    next
      case False
      then have "canon_render ab (canon_comps (k, st)) = butlast (written root k st)"
        by (auto simp: butlast_written canon_render_def root_def) (auto simp: written_def root_def)
      then show ?thesis using False m by (simp add: run)
    qed
    then show ?thesis using ref by simp
  qed
qed

text \<open>The result fits: it is never longer than the buffer that \<open>canonpath\<close> was given.\<close>

lemma canonpath_length:
  assumes "NUL \<notin> set path" and "canonpath path = Inr q"
  shows "length q \<le> length path"
proof -
  have ne: "path \<noteq> []" using assms(2) by (auto simp: canonpath_def)
  define start :: nat where "start = (if path ! 0 = CHR ''/'' then 1 else 0)"
  define root where "root = (if path ! 0 = CHR ''/'' then ''/'' else [])"
  have inv: "canon_inv path root (path @ [NUL]) start start [] 0 []"
    using ne
    by (cases path) (auto simp: canon_inv_def root_def start_def written_def canon_comps_def)
  note res = canon_loop_ref [OF inv assms(1)]
  obtain m d where run: "canon_loop (length path) (path @ [NUL]) start start [] = Inr (m, d)"
      and q: "q = (if d = 0 then take 1 (m[0 := CHR ''.'', 1 := NUL]) else take (d - 1) (m[d - 1 := NUL]))"
    using assms(2) ne
    by (auto simp: canonpath_def start_def Let_def nth_append monad_simps split: if_splits)
  have "d \<le> length path + 1"
    using res run by (auto simp: canon_result_def split: option.splits)
  then show ?thesis using ne by (cases path) (auto simp: q)
qed

section \<open>The result is canonical\<close>

text \<open>A component that is kept as such.\<close>

definition name_comp :: "string \<Rightarrow> bool" where
  "name_comp c \<longleftrightarrow> c \<noteq> [] \<and> c \<noteq> ''.'' \<and> c \<noteq> ''..'' \<and> CHR ''/'' \<notin> set c"

definition canon_state_ok :: "nat \<times> string list \<Rightarrow> bool" where
  "canon_state_ok s \<longleftrightarrow> list_all name_comp (snd s) \<and> length (snd s) \<le> max_components"

lemma path_split_no_slash: "c \<in> set (path_split r) \<Longrightarrow> CHR ''/'' \<notin> set c"
proof (induction r rule: path_split.induct)
  case (1 r)
  then show ?case
    by (subst (asm) (2) path_split.simps) (auto split: if_splits dest: set_takeWhileD)
qed

lemma canon_steps_ok:
  "canon_steps cs s = Some t \<Longrightarrow> \<forall>c \<in> set cs. CHR ''/'' \<notin> set c \<Longrightarrow> canon_state_ok s \<Longrightarrow> canon_state_ok t"
proof (induction cs arbitrary: s)
  case (Cons c cs)
  obtain k st where s: "s = (k, st)" by (cases s)
  obtain u where u: "canon_step c s = Some u" "canon_steps cs u = Some t"
    using Cons.prems(1) by (auto simp: bind_eq_Some_conv)
  have "canon_state_ok u"
    using u(1) Cons.prems(2,3) s
    by (auto simp: canon_state_ok_def name_comp_def split: if_splits list.splits)
  then show ?case using Cons u(2) by simp
qed simp

lemma path_split_join:
  "\<forall>c \<in> set cs. c \<noteq> [] \<and> CHR ''/'' \<notin> set c \<Longrightarrow> path_split (sep_join cs) = cs"
proof (induction cs rule: sep_join.induct)
  case 1
  then show ?case by (simp add: path_split.simps)
next
  case (2 c)
  have all: "\<forall>x \<in> set c. x \<noteq> CHR ''/''" using 2 by auto
  then have dw: "dropWhile (\<lambda>x. x \<noteq> CHR ''/'') c = []" by (simp add: dropWhile_eq_Nil_conv)
  have tw: "takeWhile (\<lambda>x. x \<noteq> CHR ''/'') c = c" using all by (simp add: takeWhile_eq_all_conv)
  have "path_split [] = []" by (simp add: path_split.simps)
  then show ?case using 2 by (simp only: sep_join.simps) (subst path_split.simps, simp only: dw tw, simp)
next
  case (3 c d cs)
  let ?p = "\<lambda>x. x \<noteq> CHR ''/''"
  have "takeWhile ?p (c @ ''/'' @ sep_join (d # cs)) = c"
    "dropWhile ?p (c @ ''/'' @ sep_join (d # cs)) = CHR ''/'' # sep_join (d # cs)"
    using 3(2) by (simp_all add: takeWhile_append dropWhile_append)
  then show ?case using 3 by (subst path_split.simps) simp
qed

lemma canon_steps_ups: "canon_steps (replicate n ''..'' @ cs) (k, []) = canon_steps cs (k + n, [])"
  by (induction n arbitrary: k) auto

lemma canon_steps_names:
  "list_all name_comp cs \<Longrightarrow> length cs + length st \<le> max_components \<Longrightarrow>
     canon_steps cs (k, st) = Some (k, rev cs @ st)"
  by (induction cs arbitrary: st) (auto simp: name_comp_def)

lemma sep_join_starts: "cs \<noteq> [] \<Longrightarrow> hd cs \<noteq> [] \<Longrightarrow> take 1 (sep_join cs) = take 1 (hd cs)"
  by (cases cs rule: sep_join.cases; cases "hd cs") auto

lemma canon_comps_shape:
  assumes "canon_state_ok s"
  shows "\<forall>c \<in> set (canon_comps s). c \<noteq> [] \<and> CHR ''/'' \<notin> set c"
proof
  fix c assume "c \<in> set (canon_comps s)"
  then consider "c = ''..''" | "c \<in> set (snd s)" by (auto simp: canon_comps_def)
  then show "c \<noteq> [] \<and> CHR ''/'' \<notin> set c"
    using assms by cases (simp_all add: canon_state_ok_def list_all_iff name_comp_def)
qed

lemma canon_ref_dot: "canon_ref ''.'' = Some ''.''"
  by code_simp

lemma canon_ref_render:
  assumes "canon_state_ok (k, st)" and "q = canon_render ab (canon_comps (k, st))" and "q \<noteq> []"
  shows "canon_ref q = Some q"
proof (cases "canon_comps (k, st) = []")
  case True
  then have "q = ''.''" using assms(2,3) by (auto simp: canon_render_def split: if_splits)
  then show ?thesis using canon_ref_dot by simp
next
  case False
  let ?cs = "canon_comps (k, st)"
  note ne = canon_comps_shape [OF assms(1)]
  have "canon_steps ?cs (0, []) = canon_steps (rev st) (k, [])"
    by (simp add: canon_comps_def canon_steps_ups)
  then have run: "canon_steps ?cs (0, []) = Some (k, st)"
    using canon_steps_names [of "rev st" "[]" k] assms(1)
    by (simp add: canon_state_ok_def)
  have hd: "take 1 (hd ?cs) \<noteq> ''/''"
    using ne False by (cases "hd ?cs") (auto dest: bspec [OF _ hd_in_set])
  have "hd ?cs \<noteq> []" using ne False by simp
  then have ab: "is_absolute q = ab"
    using hd False assms(2) sep_join_starts [OF False]
    by (auto simp: is_absolute_def canon_render_def)
  have "(if ab then drop 1 q else q) = sep_join ?cs"
    using assms(2) False by (simp add: canon_render_def)
  then have "canon_ref q = Some (canon_render ab ?cs)"
    by (simp only: canon_ref_def ab path_split_join [OF ne] run option.map)
  then show ?thesis using assms(2) by simp
qed

lemma canon_ref_idem:
  assumes "canon_ref path = Some q" and "q \<noteq> []" shows "canon_ref q = Some q"
proof -
  obtain k st where run: "canon_steps (path_split (if is_absolute path then drop 1 path else path)) (0, [])
      = Some (k, st)" and q: "q = canon_render (is_absolute path) (canon_comps (k, st))"
    using assms(1) by (auto simp: canon_ref_def)
  note run
  moreover have "canon_state_ok (0, [])" by (simp add: canon_state_ok_def)
  moreover have "\<forall>c \<in> set (path_split r). CHR ''/'' \<notin> set c" for r
    using path_split_no_slash by blast
  ultimately have "canon_state_ok (k, st)" using canon_steps_ok by blast
  then show ?thesis using canon_ref_render q assms(2) by blast
qed

section \<open>Properties\<close>



text \<open>
  a canonical path is a fixed point: \<open>canonpath\<close> applied to its own (non-empty) result
  changes nothing, so two spellings of a path name the same node.
\<close>

theorem canonpath_idempotent:
  assumes "NUL \<notin> set path" and "canonpath path = Inr q" and "q \<noteq> []" and "NUL \<notin> set q"
  shows "canonpath q = Inr q"
proof -
  have "path \<noteq> []" using assms(2) by (auto simp: canonpath_def)
  then have "canon_ref path = Some q"
    using canonpath_is_ref [OF _ assms(1)] assms(2) by (auto split: option.splits)
  then show ?thesis
    using canonpath_is_ref [OF assms(3,4)] canon_ref_idem assms(3) by (auto split: option.splits)
qed

theorem canonpath_idempotent_witness: "canonpath ''x/y'' = Inr ''x/y''"
proof -
  have "canonpath ''x/./z/../y'' = Inr ''x/y''" by code_simp
  then show ?thesis
    using canonpath_idempotent [of "''x/./z/../y''" "''x/y''"] by (simp add: NUL_def)
qed

text \<open>
  the root directory is lost: \<open>canonpath\<close> turns the path \<open>/\<close> (and any absolute path that
  climbs back to the root) into the empty string, on which \<open>canonpath\<close> itself then fails.
\<close>

theorem canonpath_loses_root:
  "canonpath ''/'' = Inr [] \<and> canonpath ''/usr/..'' = Inr [] \<and> canonpath [] = Inl (Fatal Empty_path [])"
proof -
  have "canon_ref ''/'' = Some []" "canon_ref ''/usr/..'' = Some []"
    by code_simp+
  then show ?thesis
    using canonpath_is_ref [of "''/''"] canonpath_is_ref [of "''/usr/..''"]
    by (simp add: NUL_def canonpath_def)
qed

end
