(* ===== verification/Samu_State.thy ===== *)
theory Samu_State
  imports Samu_Htab Samu_Tree Samu_Util
begin

text \<open>
  The data of the build tool (\<open>graph.h\<close>, \<open>env.h\<close>, the static variables of \<open>graph.c\<close>,
  \<open>env.c\<close>, \<open>parse.c\<close>, \<open>build.c\<close>) and the state that all its operations pass on. A pointer to a
  node, edge, environment, rule or pool is its number in the store of such objects, so two
  pointers are equal exactly if the numbers are; the next free number counts the objects
  allocated. The lists linked through \<open>allnext\<close> and \<open>worknext\<close> are lists of numbers.
\<close>

section \<open>Graph\<close>

definition MTIME_UNKNOWN :: int where "MTIME_UNKNOWN = - 1"
definition MTIME_MISSING :: int where "MTIME_MISSING = - 2"

lemmas mtime_defs = MTIME_UNKNOWN_def MTIME_MISSING_def

record node =
  npath :: string
  nshellpath :: "string option"
  nmtime :: int
  nlogmtime :: int
  ngen :: "nat option"
  nuse :: "nat list"
  nhash :: u64
  nid :: int
  ndirty :: bool

text \<open>\<open>flags\<close>: a bit of the source's word per field; \<open>FLAG_DIRTY\<close> is either dirty bit.\<close>

record flags =
  FLAG_WORK :: bool
  FLAG_HASH :: bool
  FLAG_DIRTY_IN :: bool
  FLAG_DIRTY_OUT :: bool
  FLAG_CYCLE :: bool
  FLAG_DEPS :: bool

definition FLAG_DIRTY :: "flags \<Rightarrow> bool" where
  "FLAG_DIRTY f = (FLAG_DIRTY_IN f \<or> FLAG_DIRTY_OUT f)"

definition no_flags :: flags where
  "no_flags = \<lparr>FLAG_WORK = False, FLAG_HASH = False, FLAG_DIRTY_IN = False,
     FLAG_DIRTY_OUT = False, FLAG_CYCLE = False, FLAG_DEPS = False\<rparr>"

record edge =
  erule :: nat
  epool :: "nat option"
  eenv :: nat
  eout :: "nat list"
  ein :: "nat list"
  eoutimpidx :: nat
  einimpidx :: nat
  einorderidx :: nat
  ehash :: u64
  enblock :: u64
  enprune :: u64
  eflags :: flags

section \<open>Environments, rules, pools\<close>

record environment =
  eparent :: "nat option"
  ebindings :: "string treenode"
  erules :: "nat treenode"

record rule =
  rname :: string
  rbindings :: "evalstring treenode"

record pool =
  pname :: string
  pnumjobs :: int
  pmaxjobs :: int
  pwork :: "nat list"

definition phonyrule :: nat where "phonyrule = 0"
definition consolepool :: nat where "consolepool = 0"

section \<open>The state\<close>

record samu =
  nodes_of :: "nat \<Rightarrow> node"
  nnodes :: nat
  allnodes :: "nat hashtable"
  edges_of :: "nat \<Rightarrow> edge"
  nedges :: nat
  alledges :: "nat list"
  envs_of :: "nat \<Rightarrow> environment"
  nenvs :: nat
  rootenv :: nat
  rules_of :: "nat \<Rightarrow> rule"
  nrules :: nat
  pools_of :: "nat \<Rightarrow> pool"
  npools :: nat
  pooltab :: "nat treenode"
  deftarg :: "nat list"
  work :: "nat list"
  nstarted :: nat
  nfinished :: nat
  ntotal :: nat
  consoleused :: bool

definition upd_node :: "nat \<Rightarrow> (node \<Rightarrow> node) \<Rightarrow> samu \<Rightarrow> samu" where
  "upd_node n f s = s\<lparr>nodes_of := (nodes_of s)(n := f (nodes_of s n))\<rparr>"

definition upd_edge :: "nat \<Rightarrow> (edge \<Rightarrow> edge) \<Rightarrow> samu \<Rightarrow> samu" where
  "upd_edge e f s = s\<lparr>edges_of := (edges_of s)(e := f (edges_of s e))\<rparr>"

definition upd_env :: "nat \<Rightarrow> (environment \<Rightarrow> environment) \<Rightarrow> samu \<Rightarrow> samu" where
  "upd_env v f s = s\<lparr>envs_of := (envs_of s)(v := f (envs_of s v))\<rparr>"

definition upd_rule :: "nat \<Rightarrow> (rule \<Rightarrow> rule) \<Rightarrow> samu \<Rightarrow> samu" where
  "upd_rule r f s = s\<lparr>rules_of := (rules_of s)(r := f (rules_of s r))\<rparr>"

definition upd_pool :: "nat \<Rightarrow> (pool \<Rightarrow> pool) \<Rightarrow> samu \<Rightarrow> samu" where
  "upd_pool p f s = s\<lparr>pools_of := (pools_of s)(p := f (pools_of s p))\<rparr>"

definition set_flags :: "nat \<Rightarrow> (flags \<Rightarrow> flags) \<Rightarrow> samu \<Rightarrow> samu" where
  "set_flags e f = upd_edge e (\<lambda>x. x\<lparr>eflags := f (eflags x)\<rparr>)"

text \<open>The static variables before \<open>main\<close> runs; examples are computed from it.\<close>

definition static_samu :: samu where
  "static_samu =
     \<lparr>nodes_of = \<lambda>_. \<lparr>npath = [], nshellpath = None, nmtime = 0, nlogmtime = 0, ngen = None,
                       nuse = [], nhash = 0, nid = 0, ndirty = False\<rparr>,
      nnodes = 0, allnodes = mkhtab 0,
      edges_of = \<lambda>_. \<lparr>erule = 0, epool = None, eenv = 0, eout = [], ein = [], eoutimpidx = 0,
                       einimpidx = 0, einorderidx = 0, ehash = 0, enblock = 0, enprune = 0,
                       eflags = no_flags\<rparr>,
      nedges = 0, alledges = [],
      envs_of = \<lambda>_. \<lparr>eparent = None, ebindings = Tip, erules = Tip\<rparr>, nenvs = 0, rootenv = 0,
      rules_of = \<lambda>_. \<lparr>rname = ''phony'', rbindings = Tip\<rparr>, nrules = 0,
      pools_of = \<lambda>_. \<lparr>pname = ''console'', pnumjobs = 0, pmaxjobs = 1, pwork = []\<rparr>, npools = 0,
      pooltab = Tip, deftarg = [], work = [], nstarted = 0, nfinished = 0, ntotal = 0,
      consoleused = False\<rparr>"

text \<open>What an update of one store leaves alone, and what it does at other numbers.\<close>

lemma upd_node_simps [simp]:
  "nodes_of (upd_node n f s) = (nodes_of s)(n := f (nodes_of s n))"
  "edges_of (upd_node n f s) = edges_of s" "envs_of (upd_node n f s) = envs_of s"
  "rules_of (upd_node n f s) = rules_of s" "pools_of (upd_node n f s) = pools_of s"
  "nnodes (upd_node n f s) = nnodes s" "nedges (upd_node n f s) = nedges s"
  "nenvs (upd_node n f s) = nenvs s" "nrules (upd_node n f s) = nrules s"
  "npools (upd_node n f s) = npools s" "allnodes (upd_node n f s) = allnodes s"
  "alledges (upd_node n f s) = alledges s" "pooltab (upd_node n f s) = pooltab s"
  "work (upd_node n f s) = work s" "rootenv (upd_node n f s) = rootenv s"
  "deftarg (upd_node n f s) = deftarg s" "ntotal (upd_node n f s) = ntotal s"
  by (simp_all add: upd_node_def)

lemma upd_edge_simps [simp]:
  "edges_of (upd_edge n f s) = (edges_of s)(n := f (edges_of s n))"
  "nodes_of (upd_edge n f s) = nodes_of s" "envs_of (upd_edge n f s) = envs_of s"
  "rules_of (upd_edge n f s) = rules_of s" "pools_of (upd_edge n f s) = pools_of s"
  "nnodes (upd_edge n f s) = nnodes s" "nedges (upd_edge n f s) = nedges s"
  "nenvs (upd_edge n f s) = nenvs s" "nrules (upd_edge n f s) = nrules s"
  "npools (upd_edge n f s) = npools s" "allnodes (upd_edge n f s) = allnodes s"
  "alledges (upd_edge n f s) = alledges s" "pooltab (upd_edge n f s) = pooltab s"
  "work (upd_edge n f s) = work s" "rootenv (upd_edge n f s) = rootenv s"
  "deftarg (upd_edge n f s) = deftarg s" "ntotal (upd_edge n f s) = ntotal s"
  by (simp_all add: upd_edge_def)

lemma upd_env_simps [simp]:
  "envs_of (upd_env n f s) = (envs_of s)(n := f (envs_of s n))"
  "nodes_of (upd_env n f s) = nodes_of s" "edges_of (upd_env n f s) = edges_of s"
  "rules_of (upd_env n f s) = rules_of s" "pools_of (upd_env n f s) = pools_of s"
  "nnodes (upd_env n f s) = nnodes s" "nedges (upd_env n f s) = nedges s"
  "nenvs (upd_env n f s) = nenvs s" "nrules (upd_env n f s) = nrules s"
  "npools (upd_env n f s) = npools s" "allnodes (upd_env n f s) = allnodes s"
  "alledges (upd_env n f s) = alledges s" "pooltab (upd_env n f s) = pooltab s"
  "work (upd_env n f s) = work s" "rootenv (upd_env n f s) = rootenv s"
  "deftarg (upd_env n f s) = deftarg s" "ntotal (upd_env n f s) = ntotal s"
  by (simp_all add: upd_env_def)

lemma upd_pool_simps [simp]:
  "pools_of (upd_pool n f s) = (pools_of s)(n := f (pools_of s n))"
  "nodes_of (upd_pool n f s) = nodes_of s" "edges_of (upd_pool n f s) = edges_of s"
  "rules_of (upd_pool n f s) = rules_of s" "envs_of (upd_pool n f s) = envs_of s"
  "nnodes (upd_pool n f s) = nnodes s" "nedges (upd_pool n f s) = nedges s"
  "nenvs (upd_pool n f s) = nenvs s" "nrules (upd_pool n f s) = nrules s"
  "npools (upd_pool n f s) = npools s" "allnodes (upd_pool n f s) = allnodes s"
  "alledges (upd_pool n f s) = alledges s" "pooltab (upd_pool n f s) = pooltab s"
  "work (upd_pool n f s) = work s" "rootenv (upd_pool n f s) = rootenv s"
  "deftarg (upd_pool n f s) = deftarg s" "ntotal (upd_pool n f s) = ntotal s"
  by (simp_all add: upd_pool_def)

lemma upd_rule_simps [simp]:
  "rules_of (upd_rule n f s) = (rules_of s)(n := f (rules_of s n))"
  "nodes_of (upd_rule n f s) = nodes_of s" "edges_of (upd_rule n f s) = edges_of s"
  "pools_of (upd_rule n f s) = pools_of s" "envs_of (upd_rule n f s) = envs_of s"
  "nnodes (upd_rule n f s) = nnodes s" "nedges (upd_rule n f s) = nedges s"
  "nenvs (upd_rule n f s) = nenvs s" "nrules (upd_rule n f s) = nrules s"
  "npools (upd_rule n f s) = npools s" "allnodes (upd_rule n f s) = allnodes s"
  "alledges (upd_rule n f s) = alledges s" "pooltab (upd_rule n f s) = pooltab s"
  "work (upd_rule n f s) = work s" "rootenv (upd_rule n f s) = rootenv s"
  "deftarg (upd_rule n f s) = deftarg s" "ntotal (upd_rule n f s) = ntotal s"
  by (simp_all add: upd_rule_def)

end
