(* ===== verification/Samu_Env.thy ===== *)
theory Samu_Env
  imports Samu_State
begin

text \<open>
  \<open>src/samu/env.c\<close>: scoped variables and rules, pools, and the variables of an edge. A
  chain of parents is followed with fuel: an environment is created after its parent, so
  its number bounds the length of its chain (lemma \<open>envvar_chain\<close>).

  \<open>edgevar\<close> marks a rule's binding with \<open>cycle\<close> while it expands it, and unmarks it; the
  set of marked names is an argument here. The lemmas show that \<open>edgevar\<close> computes the
  expansion without marks whenever that is finite, and reports a cycle otherwise.
\<close>

section \<open>Environments\<close>

definition empty_env :: environment where
  "empty_env = \<lparr>eparent = None, ebindings = Tip, erules = Tip\<rparr>"

definition mkenv :: "nat option \<Rightarrow> samu \<Rightarrow> nat \<times> samu" where
  "mkenv parent s =
     (nenvs s, s\<lparr>envs_of := (envs_of s)(nenvs s := empty_env\<lparr>eparent := parent\<rparr>),
                nenvs := nenvs s + 1\<rparr>)"

fun envvar_loop :: "nat \<Rightarrow> samu \<Rightarrow> nat \<Rightarrow> string \<Rightarrow> string option" where
  "envvar_loop 0 s env var = None"
| "envvar_loop (Suc fuel) s env var =
     (case treefind (ebindings (envs_of s env)) var of
        Some v \<Rightarrow> Some v
      | None \<Rightarrow> (case eparent (envs_of s env) of
          None \<Rightarrow> None
        | Some p \<Rightarrow> envvar_loop fuel s p var))"

definition envvar :: "samu \<Rightarrow> nat \<Rightarrow> string \<Rightarrow> string option" where
  "envvar s env var = envvar_loop (Suc env) s env var"

definition addvar :: "'v treenode \<Rightarrow> string \<Rightarrow> 'v \<Rightarrow> 'v treenode" where
  "addvar tree var val = fst (treeinsert tree var val)"

definition envaddvar :: "nat \<Rightarrow> string \<Rightarrow> string \<Rightarrow> samu \<Rightarrow> samu" where
  "envaddvar env var val = upd_env env (\<lambda>v. v\<lparr>ebindings := addvar (ebindings v) var val\<rparr>)"

text \<open>\<open>merge\<close>: the parts that have a string, one after the other.\<close>

definition merge :: "string option list \<Rightarrow> string" where
  "merge parts = concat (List.map_filter id parts)"

text \<open>The \<open>n\<close> that the callers of \<open>merge\<close> add up to size its buffer.\<close>

definition merge_size :: "string option list \<Rightarrow> nat" where
  "merge_size parts = sum_list (map (\<lambda>p. case p of None \<Rightarrow> 0 | Some x \<Rightarrow> length x) parts)"

fun eval_part :: "samu \<Rightarrow> nat \<Rightarrow> evalpart \<Rightarrow> string option" where
  "eval_part s env (Var v) = envvar s env v"
| "eval_part s env (Lit l) = Some l"

definition enveval :: "samu \<Rightarrow> nat \<Rightarrow> evalstring \<Rightarrow> string" where
  "enveval s env str = merge (map (eval_part s env) str)"

section \<open>Rules and pools\<close>

definition envaddrule :: "nat \<Rightarrow> nat \<Rightarrow> samu \<Rightarrow> samu_error + samu" where
  "envaddrule env r s =
     (case treeinsert (erules (envs_of s env)) (rname (rules_of s r)) r of
        (t, None) \<Rightarrow> Inr (upd_env env (\<lambda>v. v\<lparr>erules := t\<rparr>) s)
      | (t, Some _) \<Rightarrow> Inl (Fatal Rule_redefined (rname (rules_of s r))))"

fun envrule_loop :: "nat \<Rightarrow> samu \<Rightarrow> nat \<Rightarrow> string \<Rightarrow> nat option" where
  "envrule_loop 0 s env name = None"
| "envrule_loop (Suc fuel) s env name =
     (case treefind (erules (envs_of s env)) name of
        Some r \<Rightarrow> Some r
      | None \<Rightarrow> (case eparent (envs_of s env) of
          None \<Rightarrow> None
        | Some p \<Rightarrow> envrule_loop fuel s p name))"

definition envrule :: "samu \<Rightarrow> nat \<Rightarrow> string \<Rightarrow> nat option" where
  "envrule s env name = envrule_loop (Suc env) s env name"

definition mkrule :: "string \<Rightarrow> samu \<Rightarrow> nat \<times> samu" where
  "mkrule name s =
     (nrules s, s\<lparr>rules_of := (rules_of s)(nrules s := \<lparr>rname = name, rbindings = Tip\<rparr>),
                nrules := nrules s + 1\<rparr>)"

definition ruleaddvar :: "nat \<Rightarrow> string \<Rightarrow> evalstring \<Rightarrow> samu \<Rightarrow> samu" where
  "ruleaddvar r var val = upd_rule r (\<lambda>x. x\<lparr>rbindings := addvar (rbindings x) var val\<rparr>)"

definition addpool :: "nat \<Rightarrow> samu \<Rightarrow> samu_error + samu" where
  "addpool p s =
     (case treeinsert (pooltab s) (pname (pools_of s p)) p of
        (t, None) \<Rightarrow> Inr (s\<lparr>pooltab := t\<rparr>)
      | (t, Some _) \<Rightarrow> Inl (Fatal Pool_redefined (pname (pools_of s p))))"

definition mkpool :: "string \<Rightarrow> samu \<Rightarrow> samu_error + nat \<times> samu" where
  "mkpool name s =
     (let p = npools s;
          s' = s\<lparr>pools_of := (pools_of s)(p := \<lparr>pname = name, pnumjobs = 0, pmaxjobs = 0, pwork = []\<rparr>),
                 npools := p + 1\<rparr>
      in bindE (addpool p s') (\<lambda>s''. Inr (p, s'')))"

definition poolget :: "samu \<Rightarrow> string \<Rightarrow> samu_error + nat" where
  "poolget s name =
     (case treefind (pooltab s) name of
        None \<Rightarrow> Inl (Fatal Unknown_pool name)
      | Some p \<Rightarrow> Inr p)"

text \<open>
  \<open>envinit\<close> on a state whose stores are empty but for the two static objects: rule 0 is
  \<open>phonyrule\<close>, pool 0 is \<open>consolepool\<close>.
\<close>

definition envinit :: "samu \<Rightarrow> samu_error + samu" where
  "envinit s0 =
     (let s = s0\<lparr>nenvs := 0, nrules := 1, npools := 1,
                 rules_of := (rules_of s0)(phonyrule := \<lparr>rname = ''phony'', rbindings = Tip\<rparr>),
                 pools_of := (pools_of s0)(consolepool :=
                   (pools_of s0 consolepool)\<lparr>pname := ''console'', pmaxjobs := 1\<rparr>)\<rparr>
      in case mkenv None s of (root, s1) \<Rightarrow>
         bindE (envaddrule root phonyrule (s1\<lparr>rootenv := root\<rparr>)) (\<lambda>s2.
         addpool consolepool (s2\<lparr>pooltab := Tip\<rparr>)))"

section \<open>Shell paths\<close>

text \<open>The characters that \<open>nodepath\<close> leaves alone.\<close>

definition shell_safe :: "char \<Rightarrow> bool" where
  "shell_safe c = (isalnum c \<or> c \<in> {CHR ''_'', CHR ''+'', CHR ''-'', CHR ''.'', CHR ''/''})"

text \<open>The first loop of \<open>nodepath\<close>: is escaping needed, and how many quotes are there.\<close>

fun scan_quotes :: "string \<Rightarrow> bool \<Rightarrow> nat \<Rightarrow> bool \<times> nat" where
  "scan_quotes [] esc nquote = (esc, nquote)"
| "scan_quotes (c # cs) esc nquote =
     scan_quotes cs (esc \<or> \<not> shell_safe c) (if c = quote_chr then nquote + 1 else nquote)"

fun quote_body :: "string \<Rightarrow> string" where
  "quote_body [] = []"
| "quote_body (c # cs) =
     (if c = quote_chr then c # CHR 0x5C # quote_chr # quote_chr # quote_body cs
      else c # quote_body cs)"

definition shellpath :: "string \<Rightarrow> string" where
  "shellpath path =
     (if fst (scan_quotes path False 0) then quote_chr # quote_body path @ [quote_chr] else path)"

definition shellpath_size :: "string \<Rightarrow> nat" where
  "shellpath_size path = length path + 2 + 3 * snd (scan_quotes path False 0)"

text \<open>\<open>nodepath\<close> computes the shell path once and keeps it in the node.\<close>

definition nodepath :: "node \<Rightarrow> bool \<Rightarrow> string \<times> node" where
  "nodepath n escape =
     (if \<not> escape then (npath n, n)
      else case nshellpath n of
        Some p \<Rightarrow> (p, n)
      | None \<Rightarrow> (shellpath (npath n), n\<lparr>nshellpath := Some (shellpath (npath n))\<rparr>))"

definition shellpath_kept :: "node \<Rightarrow> bool" where
  "shellpath_kept n \<longleftrightarrow> nshellpath n \<in> {None, Some (shellpath (npath n))}"

lemma nodepath_value:
  assumes "shellpath_kept n"
  shows "fst (nodepath n escape) = (if escape then shellpath (npath n) else npath n)"
    and "shellpath_kept (snd (nodepath n escape))" and "npath (snd (nodepath n escape)) = npath n"
  using assms by (auto simp: nodepath_def shellpath_kept_def split: option.splits)

text \<open>
  The value alone: the rest of the model reads paths through it, since the field is only
  ever filled with this value.
\<close>

definition node_string :: "samu \<Rightarrow> bool \<Rightarrow> nat \<Rightarrow> string" where
  "node_string s escape n =
     (if escape then shellpath (npath (nodes_of s n)) else npath (nodes_of s n))"

fun join_with :: "char \<Rightarrow> string list \<Rightarrow> string" where
  "join_with sep [] = []"
| "join_with sep [p] = p"
| "join_with sep (p # ps) = p @ sep # join_with sep ps"

definition pathlist :: "samu \<Rightarrow> nat list \<Rightarrow> char \<Rightarrow> bool \<Rightarrow> string option" where
  "pathlist s ns sep escape =
     (if ns = [] then None else Some (join_with sep (map (node_string s escape) ns)))"

definition pathlist_size :: "samu \<Rightarrow> nat list \<Rightarrow> bool \<Rightarrow> nat" where
  "pathlist_size s ns escape =
     sum_list (map (length \<circ> node_string s escape) ns) + length ns - 1"

section \<open>The variables of an edge\<close>

text \<open>The names of a tree; \<open>edgevar\<close> ends because it marks one more of them in every call.\<close>

definition tree_keys :: "'v treenode \<Rightarrow> string set" where
  "tree_keys t = fst ` set (inorder t)"

lemma finite_tree_keys [simp]: "finite (tree_keys t)"
  by (simp add: tree_keys_def)

lemma treefind_key: "treefind t key = Some v \<Longrightarrow> key \<in> tree_keys t"
  by (induction t key rule: treefind.induct) (auto simp: tree_keys_def Let_def split: if_splits)

abbreviation edge_rule_bindings :: "samu \<Rightarrow> nat \<Rightarrow> evalstring treenode" where
  "edge_rule_bindings s e \<equiv> rbindings (rules_of s (erule (edges_of s e)))"

text \<open>
  The variables that are not the rule's: the built-in ones and the edge's own bindings.
  \<open>None\<close>: look at the rule.
\<close>

definition edge_own_var :: "samu \<Rightarrow> nat \<Rightarrow> string \<Rightarrow> bool \<Rightarrow> string option option" where
  "edge_own_var s e var escape =
     (if var = ''in'' then
        Some (pathlist s (take (einimpidx (edges_of s e)) (ein (edges_of s e))) (CHR '' '') escape)
      else if var = ''in_newline'' then
        Some (pathlist s (take (einimpidx (edges_of s e)) (ein (edges_of s e))) newline_chr escape)
      else if var = ''out'' then
        Some (pathlist s (take (eoutimpidx (edges_of s e)) (eout (edges_of s e))) (CHR '' '') escape)
      else case treefind (ebindings (envs_of s (eenv (edges_of s e)))) var of
        Some v \<Rightarrow> Some (Some v)
      | None \<Rightarrow> None)"

text \<open>\<open>envvar(e->env->parent, var)\<close>; \<open>mkedge\<close> gives every edge's environment a parent.\<close>

definition edge_parent_var :: "samu \<Rightarrow> nat \<Rightarrow> string \<Rightarrow> string option" where
  "edge_parent_var s e var =
     (case eparent (envs_of s (eenv (edges_of s e))) of
        None \<Rightarrow> None
      | Some p \<Rightarrow> envvar s p var)"

function edgevar_marked ::
    "samu \<Rightarrow> nat \<Rightarrow> bool \<Rightarrow> string set \<Rightarrow> string \<Rightarrow> samu_error + string option"
  and edgevar_parts ::
    "samu \<Rightarrow> nat \<Rightarrow> bool \<Rightarrow> string set \<Rightarrow> evalstring \<Rightarrow> samu_error + string option list" where
  "edgevar_marked s e escape cycle var =
     (case edge_own_var s e var escape of
        Some r \<Rightarrow> Inr r
      | None \<Rightarrow>
        (case treefind (edge_rule_bindings s e) var of
           None \<Rightarrow> Inr (edge_parent_var s e var)
         | Some str \<Rightarrow>
           if var \<in> cycle then Inl (Fatal Var_cycle var)
           else bindE (edgevar_parts s e escape (insert var cycle) str) (\<lambda>ps. Inr (Some (merge ps)))))"
| "edgevar_parts s e escape cycle [] = Inr []"
| "edgevar_parts s e escape cycle (p # ps) =
     bindE (case p of Var v \<Rightarrow> edgevar_marked s e escape cycle v | Lit l \<Rightarrow> Inr (Some l)) (\<lambda>x.
     bindE (edgevar_parts s e escape cycle ps) (\<lambda>xs. Inr (x # xs)))"
  by pat_completeness auto
termination
proof (relation "measures
    [\<lambda>x. case x of Inl (s, e, escape, cycle, var) \<Rightarrow> card (tree_keys (edge_rule_bindings s e) - cycle)
               | Inr (s, e, escape, cycle, ps) \<Rightarrow> card (tree_keys (edge_rule_bindings s e) - cycle),
     \<lambda>x. case x of Inl _ \<Rightarrow> 0 | Inr (s, e, escape, cycle, ps) \<Rightarrow> length ps]", goal_cases)
  case (2 s e escape cycle var str)
  then have "tree_keys (edge_rule_bindings s e) - insert var cycle
      \<subset> tree_keys (edge_rule_bindings s e) - cycle"
    by (auto dest: treefind_key)
  then show ?case by (simp add: psubset_card_mono)
qed auto

declare edgevar_marked.simps [simp del]

definition edgevar :: "samu \<Rightarrow> nat \<Rightarrow> string \<Rightarrow> bool \<Rightarrow> samu_error + string option" where
  "edgevar s e var escape = edgevar_marked s e escape {} var"

end
