(* ===== verification/Samu_Graph.thy ===== *)
theory Samu_Graph
  imports Samu_Env
begin

text \<open>
  \<open>src/samu/graph.c\<close>: nodes interned by path, edges, the hash of an edge's command and the
  dependencies that are added to an edge after parsing. The lemmas show that a path has one
  node, and that nodes and edges refer to each other consistently.
\<close>

section \<open>Nodes\<close>

definition graphinit :: "samu \<Rightarrow> samu" where
  "graphinit s = s\<lparr>allnodes := mkhtab 1024, nnodes := 0, alledges := [], nedges := 0\<rparr>"

text \<open>\<open>dirty\<close> is not initialized by the code.\<close>

definition new_node :: "string \<Rightarrow> node" where
  "new_node path = \<lparr>npath = path, nshellpath = None, nmtime = MTIME_UNKNOWN,
     nlogmtime = MTIME_MISSING, ngen = None, nuse = [], nhash = 0, nid = - 1, ndirty = False\<rparr>"

definition mknode :: "string \<Rightarrow> samu \<Rightarrow> samu_error + nat \<times> samu" where
  "mknode path s =
     (case htabput (allnodes s) (htabkey path) of
        None \<Rightarrow> Inl Diverges
      | Some (h, i) \<Rightarrow>
        (case hvals h ! i of
           Some n \<Rightarrow> Inr (n, s\<lparr>allnodes := h\<rparr>)
         | None \<Rightarrow>
           let n = nnodes s
           in Inr (n, s\<lparr>allnodes := h\<lparr>hvals := (hvals h)[i := Some n]\<rparr>,
                        nodes_of := (nodes_of s)(n := new_node path), nnodes := n + 1\<rparr>)))"

definition nodeget :: "samu \<Rightarrow> string \<Rightarrow> samu_error + nat option" where
  "nodeget s path =
     (case htabget (allnodes s) (htabkey path) of None \<Rightarrow> Inl Diverges | Some v \<Rightarrow> Inr v)"

text \<open>What \<open>stat\<close> reports: seconds and nanoseconds, \<open>ENOENT\<close>, or another error.\<close>

datatype stat_result = Stat int int | Stat_enoent | Stat_fails

definition nodestat :: "(string \<Rightarrow> stat_result) \<Rightarrow> nat \<Rightarrow> samu \<Rightarrow> samu_error + samu" where
  "nodestat stat n s =
     (case stat (npath (nodes_of s n)) of
        Stat_fails \<Rightarrow> Inl (Fatal Stat_failed (npath (nodes_of s n)))
      | Stat_enoent \<Rightarrow> Inr (upd_node n (\<lambda>x. x\<lparr>nmtime := MTIME_MISSING\<rparr>) s)
      | Stat sec nsec \<Rightarrow> Inr (upd_node n (\<lambda>x. x\<lparr>nmtime := sec * 1000000000 + nsec\<rparr>) s))"

definition nodeuse :: "nat \<Rightarrow> nat \<Rightarrow> samu \<Rightarrow> samu" where
  "nodeuse n e = upd_node n (\<lambda>x. x\<lparr>nuse := nuse x @ [e]\<rparr>)"

section \<open>Edges\<close>

text \<open>The fields that \<open>mkedge\<close> leaves uninitialized are 0 here; every caller sets them.\<close>

definition mkedge :: "nat \<Rightarrow> samu \<Rightarrow> nat \<times> samu" where
  "mkedge parent s =
     (case mkenv (Some parent) s of (env, s1) \<Rightarrow>
        let e = nedges s1
        in (e, s1\<lparr>edges_of := (edges_of s1)(e := \<lparr>erule = 0, epool = None, eenv = env, eout = [],
                    ein = [], eoutimpidx = 0, einimpidx = 0, einorderidx = 0, ehash = 0,
                    enblock = 0, enprune = 0, eflags = no_flags\<rparr>),
                  nedges := e + 1, alledges := e # alledges s1\<rparr>))"

definition hash_text :: "string \<Rightarrow> string option \<Rightarrow> string" where
  "hash_text cmd rsp =
     (case rsp of
        Some r \<Rightarrow> if length r > 0 then cmd @ '';rspfile='' @ r else cmd
      | None \<Rightarrow> cmd)"

definition edgehash :: "nat \<Rightarrow> samu \<Rightarrow> samu_error + samu" where
  "edgehash e s =
     (if FLAG_HASH (eflags (edges_of s e)) then Inr s
      else
        let s1 = set_flags e (\<lambda>f. f\<lparr>FLAG_HASH := True\<rparr>) s
        in bindE (edgevar s1 e ''command'' True) (\<lambda>cmd.
           case cmd of
             None \<Rightarrow> Inl (Fatal Rule_no_command (rname (rules_of s1 (erule (edges_of s1 e)))))
           | Some c \<Rightarrow>
             bindE (edgevar s1 e ''rspfile_content'' True) (\<lambda>rsp.
             Inr (upd_edge e (\<lambda>x. x\<lparr>ehash := murmurhash64a (hash_text c rsp)\<rparr>) s1))))"

definition mkphony :: "nat \<Rightarrow> samu \<Rightarrow> nat \<times> samu" where
  "mkphony n s =
     (case mkedge (rootenv s) s of (e, s1) \<Rightarrow>
        (e, upd_edge e (\<lambda>x. x\<lparr>erule := phonyrule, einimpidx := 0, einorderidx := 0,
                              eoutimpidx := 1, eout := [n]\<rparr>) s1))"

text \<open>The body of the loop of \<open>edgeadddeps\<close>.\<close>

definition edgeadddep :: "nat \<Rightarrow> nat \<Rightarrow> samu \<Rightarrow> samu" where
  "edgeadddep e n s =
     (let s1 = (if ngen (nodes_of s n) = None
                then case mkphony n s of (p, s') \<Rightarrow> upd_node n (\<lambda>x. x\<lparr>ngen := Some p\<rparr>) s'
                else s)
      in nodeuse n e s1)"

text \<open>\<open>memmove\<close> and \<open>memcpy\<close>: the dependencies go before the order-only inputs.\<close>

definition insert_deps :: "nat list \<Rightarrow> edge \<Rightarrow> edge" where
  "insert_deps deps x =
     x\<lparr>ein := take (einorderidx x) (ein x) @ deps @ drop (einorderidx x) (ein x),
       einorderidx := einorderidx x + length deps\<rparr>"

definition edgeadddeps :: "nat \<Rightarrow> nat list \<Rightarrow> samu \<Rightarrow> samu" where
  "edgeadddeps e deps s = upd_edge e (insert_deps deps) (fold (edgeadddep e) deps s)"

section \<open>A path has one node\<close>

text \<open>The table of nodes and the store of nodes describe the same bijection.\<close>

definition nodes_wf :: "samu \<Rightarrow> bool" where
  "nodes_wf s \<longleftrightarrow> htab_wf (allnodes s) \<and>
     (\<forall>n < nnodes s. htab_lookup (allnodes s) (npath (nodes_of s n)) = Some n) \<and>
     (\<forall>path n. htab_lookup (allnodes s) path = Some n \<longrightarrow> n < nnodes s \<and> npath (nodes_of s n) = path)"

lemma graphinit_wf [inv_intros]: "nodes_wf (graphinit s)"
  by (simp add: nodes_wf_def graphinit_def htab_dict.empty_inv htab_dict.lookup_empty)

lemma nodeget_lookup: "nodes_wf s \<Longrightarrow> nodeget s path = Inr (htab_lookup (allnodes s) path)"
  using htab_lookup_eq(2) [of "allnodes s" path]
  by (auto simp: nodeget_def nodes_wf_def htab_lookup_def split: option.splits)

lemma mknode_cases:
  assumes "nodes_wf s"
  obtains (old) n h where "mknode path s = Inr (n, s\<lparr>allnodes := h\<rparr>)" "htab_wf h"
      "htab_lookup (allnodes s) path = Some n" "htab_lookup h = htab_lookup (allnodes s)"
  | (new) h where "mknode path s = Inr (nnodes s, s\<lparr>allnodes := h,
        nodes_of := (nodes_of s)(nnodes s := new_node path), nnodes := nnodes s + 1\<rparr>)"
      "htab_wf h" "htab_lookup (allnodes s) path = None"
      "htab_lookup h = (htab_lookup (allnodes s))(path \<mapsto> nnodes s)"
proof -
  have wf: "htab_wf (allnodes s)" using assms by (simp add: nodes_wf_def)
  obtain h i where put: "htabput (allnodes s) (htabkey path) = Some (h, i)" "htab_wf h"
      "hvals h ! i = htab_lookup (allnodes s) path"
      "map_of (tab_entries h) = (map_of (tab_entries (allnodes s)))(path \<mapsto> htab_lookup (allnodes s) path)"
    using htabput_ok [OF wf] by blast
  show thesis
  proof (cases "htab_lookup (allnodes s) path")
    case (Some n)
    have "htab_lookup h = htab_lookup (allnodes s)"
      using put(4) by (simp add: fun_eq_iff htab_lookup_eq [OF wf] htab_lookup_eq [OF put(2)])
    then show thesis using old [of n h] put Some by (simp add: mknode_def)
  next
    case None
    let ?h = "h\<lparr>hvals := (hvals h)[i := Some (nnodes s)]\<rparr>"
    have "?h = htab_store path (nnodes s) (allnodes s)" using put by (simp add: htab_store_def)
    then have "htab_wf ?h" "htab_lookup ?h = (htab_lookup (allnodes s))(path \<mapsto> nnodes s)"
      using htab_dict.insert_inv [OF wf] htab_dict.lookup_insert [OF wf] by simp_all
    then show thesis using new [of ?h] put None by (simp add: mknode_def Let_def)
  qed
qed

lemma mknode_ok:
  assumes "nodes_wf s"
  shows "\<exists>n s'. mknode path s = Inr (n, s') \<and> nodes_wf s' \<and> n < nnodes s' \<and>
    npath (nodes_of s' n) = path \<and> nnodes s \<le> nnodes s' \<and>
    (\<forall>m < nnodes s. nodes_of s' m = nodes_of s m) \<and>
    (n \<ge> nnodes s \<longrightarrow> n = nnodes s \<and> nnodes s' = Suc n \<and> nodes_of s' n = new_node path) \<and>
    (n < nnodes s \<longrightarrow> nnodes s' = nnodes s \<and> htab_lookup (allnodes s) path = Some n) \<and>
    htab_lookup (allnodes s') = (htab_lookup (allnodes s))(path \<mapsto> n)"
  using assms
proof (cases rule: mknode_cases [of s path])
  case (old n h)
  moreover have "n < nnodes s" "npath (nodes_of s n) = path"
    using assms old(3) by (auto simp: nodes_wf_def)
  moreover have "nodes_wf (s\<lparr>allnodes := h\<rparr>)"
    using assms old(2,4) by (simp add: nodes_wf_def)
  moreover have "htab_lookup (allnodes s) = (htab_lookup (allnodes s))(path \<mapsto> n)"
    using old(3) by auto
  ultimately show ?thesis by simp
next
  case (new h)
  have "nodes_wf (s\<lparr>allnodes := h, nodes_of := (nodes_of s)(nnodes s := new_node path),
      nnodes := nnodes s + 1\<rparr>)"
    using assms new(2,3,4) by (fastforce simp: nodes_wf_def less_Suc_eq new_node_def)
  then show ?thesis using new by (simp add: new_node_def)
qed

section \<open>Frames\<close>

text \<open>The parts of the state that the interning of a path leaves alone.\<close>

lemma mknode_frame:
  assumes "mknode path s = Inr (n, s')"
  shows "edges_of s' = edges_of s" "nedges s' = nedges s" "envs_of s' = envs_of s"
    "nenvs s' = nenvs s" "rules_of s' = rules_of s" "nrules s' = nrules s"
    "pools_of s' = pools_of s" "npools s' = npools s" "pooltab s' = pooltab s"
    "alledges s' = alledges s" "rootenv s' = rootenv s" "deftarg s' = deftarg s"
  using assms by (auto simp: mknode_def Let_def split: option.splits prod.splits)

lemma nodes_wf_cong:
  assumes "allnodes s' = allnodes s" and "nnodes s' = nnodes s"
    and "\<And>n. n < nnodes s \<Longrightarrow> npath (nodes_of s' n) = npath (nodes_of s n)"
    and "nodes_wf s"
  shows "nodes_wf s'"
  using assms unfolding nodes_wf_def by (auto 0 3)

end
