(* ===== verification/Samu_Scan.thy ===== *)
theory Samu_Scan
  imports Samu_Util
begin

text \<open>
  The scanner of \<open>src/samu/scan.c\<close>. The record's \<open>sin\<close> is \<open>chr\<close> followed by what the
  stream still holds: its head is the current character, the empty list is EOF (reading at
  EOF gives EOF again). Every operation returns the scanner it leaves, or the error that
  ends the program. The static buffer \<open>buf\<close> is empty between two operations, so it is local
  here.

  \<open>comment\<close> reads until a newline; at the end of a file without one it reads EOF for ever,
  which is the error \<open>Diverges\<close>. The lemmas show that this is the only way a scanner
  operation does not end, that every operation consumes a prefix of the input and counts
  its newlines, and that a string printed with \<open>$\<close>-escapes scans back.
\<close>

section \<open>Characters and positions\<close>

record scanner =
  spath :: string
  sin :: string
  sline :: nat
  scol :: nat

definition scaninit :: "(string \<Rightarrow> string option) \<Rightarrow> string \<Rightarrow> samu_error + scanner" where
  "scaninit fs path =
     (case fs path of
        None \<Rightarrow> Inl (Fatal Open_failed path)
      | Some content \<Rightarrow> Inr \<lparr>spath = path, sin = content, sline = 1, scol = 1\<rparr>)"

definition schr :: "scanner \<Rightarrow> char option" where
  "schr s = (case sin s of [] \<Rightarrow> None | c # _ \<Rightarrow> Some c)"

definition scanerror :: "scanner \<Rightarrow> string \<Rightarrow> samu_error + 'a" where
  "scanerror s msg = Inl (Scan_error (spath s) (sline s) (scol s) msg)"

definition scan_next :: "scanner \<Rightarrow> scanner" where
  "scan_next s =
     (let s' = (if schr s = Some newline_chr then s\<lparr>sline := sline s + 1, scol := 1\<rparr>
                else s\<lparr>scol := scol s + 1\<rparr>)
      in s'\<lparr>sin := drop 1 (sin s)\<rparr>)"

definition issimplevar :: "char option \<Rightarrow> bool" where
  "issimplevar c = (case c of None \<Rightarrow> False | Some c \<Rightarrow> isalnum c \<or> c = CHR ''_'' \<or> c = CHR ''-'')"

definition isvar :: "char option \<Rightarrow> bool" where
  "isvar c = (issimplevar c \<or> c = Some (CHR ''.''))"

section \<open>White space and comments\<close>

definition newline :: "scanner \<Rightarrow> samu_error + bool \<times> scanner" where
  "newline s =
     (if schr s = Some return_chr then
        let s1 = scan_next s
        in if schr s1 \<noteq> Some newline_chr then scanerror s1 ''expected newline after return''
           else Inr (True, scan_next s1)
      else if schr s = Some newline_chr then Inr (True, scan_next s)
      else Inr (False, s))"

text \<open>\<open>ungetc(s->chr, s->f); s->chr = '$'\<close> leaves the column where \<open>next\<close> put it.\<close>

definition singlespace :: "scanner \<Rightarrow> samu_error + bool \<times> scanner" where
  "singlespace s =
     (if schr s = Some (CHR ''$'') then
        bindE (newline (scan_next s)) (\<lambda>(b, s1).
          if b then Inr (True, s1)
          else Inr (False, s1\<lparr>sin := CHR ''$'' # sin s1\<rparr>))
      else if schr s = Some (CHR '' '') then Inr (True, scan_next s)
      else Inr (False, s))"

text \<open>
  What an operation does to the input: it takes a prefix off, and the line number grows by
  the newlines in it.
\<close>

definition advances :: "scanner \<Rightarrow> scanner \<Rightarrow> bool" where
  "advances s s' \<longleftrightarrow> spath s' = spath s \<and>
     (\<exists>pre. sin s = pre @ sin s' \<and> sline s' = sline s + count_list pre newline_chr)"

lemma advances_refl [simp, intro]: "advances s s"
  by (auto simp: advances_def intro: exI [of _ "[]"])

lemma advances_trans [trans]: "advances s t \<Longrightarrow> advances t u \<Longrightarrow> advances s u"
  unfolding advances_def by (elim conjE exE, intro conjI) (auto intro!: exI [of _ "_ @ _"])

lemma advances_le: "advances s s' \<Longrightarrow> length (sin s') \<le> length (sin s)"
  by (auto simp: advances_def)

lemma scan_next_sin [simp]: "sin (scan_next s) = drop 1 (sin s)"
  by (simp add: scan_next_def Let_def)

lemma scan_next_advances [simp, intro]: "advances s (scan_next s)"
  by (cases "sin s") (auto simp: advances_def scan_next_def Let_def schr_def
      intro: exI [of _ "[]"] exI [of _ "[_]"])

lemma schr_Some [simp]: "schr s = Some c \<longleftrightarrow> (\<exists>cs. sin s = c # cs)"
  by (auto simp: schr_def split: list.splits)

lemma schr_Cons [simp]: "sin s = c # cs \<Longrightarrow> schr s = Some c"
  by (simp add: schr_def)

lemma schr_Nil [simp]: "sin s = [] \<Longrightarrow> schr s = None"
  by (simp add: schr_def)

lemma schr_None [simp]: "schr s = None \<longleftrightarrow> sin s = []"
  by (auto simp: schr_def split: list.splits)

lemma scan_next_less: "sin s \<noteq> [] \<Longrightarrow> length (sin (scan_next s)) < length (sin s)"
  by (cases "sin s") auto

named_theorems scan_facts \<open>what a successful scanner operation does to its input\<close>

lemma newline_facts [scan_facts]:
  assumes "newline s = Inr (b, s')"
  shows "advances s s'" and "b \<Longrightarrow> length (sin s') < length (sin s)" and "\<not> b \<Longrightarrow> s' = s"
proof -
  have "advances (scan_next s) (scan_next (scan_next s))" by simp
  then have "advances s (scan_next (scan_next s))" by (rule advances_trans [OF scan_next_advances])
  then show "advances s s'"
    using assms by (auto simp: newline_def Let_def scanerror_def split: if_splits)
  show "b \<Longrightarrow> length (sin s') < length (sin s)" "\<not> b \<Longrightarrow> s' = s"
    using assms by (auto simp: newline_def Let_def scanerror_def split: if_splits)
qed

lemma singlespace_facts [scan_facts]:
  assumes "singlespace s = Inr (b, s')"
  shows "advances s s'" and "b \<Longrightarrow> length (sin s') < length (sin s)"
proof -
  show "advances s s'"
  proof (cases "schr s = Some (CHR ''$'')")
    case True
    then obtain b1 s1 where nl: "newline (scan_next s) = Inr (b1, s1)"
        "b1 \<and> s' = s1 \<or> \<not> b1 \<and> s' = s1\<lparr>sin := CHR ''$'' # sin s1\<rparr>"
      using assms by (fastforce simp: singlespace_def monad_simps split: if_splits)
    show ?thesis
    proof (cases b1)
      case True
      have "advances (scan_next s) s1" by (rule newline_facts [OF nl(1)])
      then show ?thesis using True nl advances_trans [OF scan_next_advances] by simp
    next
      case False
      then have "s1 = scan_next s" using newline_facts [OF nl(1)] by simp
      then show ?thesis
        using False nl(2) True by (auto simp: advances_def scan_next_def Let_def newline_chr_def
            intro: exI [of _ "[]"])
    qed
  next
    case False
    then show ?thesis using assms by (auto simp: singlespace_def split: if_splits)
  qed
  show "b \<Longrightarrow> length (sin s') < length (sin s)"
    using assms newline_facts(1) [of "scan_next s", THEN advances_le]
    by (fastforce simp: singlespace_def monad_simps split: if_splits)
qed

text \<open>The loop of \<open>space\<close>, and \<open>space\<close>.\<close>

function space_loop :: "scanner \<Rightarrow> samu_error + scanner" where
  "space_loop s =
     bindE (singlespace s) (\<lambda>(b, s'). if b then space_loop s' else Inr s')"
  by pat_completeness auto
termination
  by (relation "measure (length \<circ> sin)") (auto dest: singlespace_facts)

declare space_loop.simps [simp del]

definition space :: "scanner \<Rightarrow> samu_error + bool \<times> scanner" where
  "space s =
     bindE (singlespace s) (\<lambda>(b, s').
       if \<not> b then Inr (False, s') else bindE (space_loop s') (\<lambda>s''. Inr (True, s'')))"

lemma space_loop_facts [scan_facts]: "space_loop s = Inr s' \<Longrightarrow> advances s s'"
proof (induction s rule: space_loop.induct)
  case (1 s)
  then show ?case
    by (subst (asm) (2) space_loop.simps)
      (auto simp: monad_simps split: if_splits dest: singlespace_facts(1) intro: advances_trans)
qed

lemma space_facts [scan_facts]:
  assumes "space s = Inr (b, s')"
  shows "advances s s'" and "b \<Longrightarrow> length (sin s') < length (sin s)"
  using assms
  by (auto simp: space_def monad_simps split: if_splits
      dest: singlespace_facts space_loop_facts intro: advances_trans)
    (fastforce dest: singlespace_facts(2) space_loop_facts advances_le)

text \<open>\<open>do next(s); while (!newline(s));\<close>\<close>

function comment_loop :: "scanner \<Rightarrow> samu_error + scanner" where
  "comment_loop s =
     bindE (newline (scan_next s)) (\<lambda>(b, s').
       if b then Inr s'
       else if schr s' = None then Inl Diverges
       else comment_loop s')"
  by pat_completeness auto
termination
proof (relation "measure (length \<circ> sin)")
  fix s x b s' assume "newline (scan_next s) = Inr x" "(b, s') = x" "\<not> b" "schr s' \<noteq> None"
  moreover from this have "s' = scan_next s" using newline_facts(3) by metis
  ultimately show "(s', s) \<in> measure (length \<circ> sin)"
    by (cases "sin s") auto
qed simp

declare comment_loop.simps [simp del]

definition comment :: "scanner \<Rightarrow> samu_error + bool \<times> scanner" where
  "comment s =
     (if schr s \<noteq> Some (CHR ''#'') then Inr (False, s)
      else bindE (comment_loop s) (\<lambda>s'. Inr (True, s')))"

lemma comment_loop_facts [scan_facts]:
  "comment_loop s = Inr s' \<Longrightarrow> advances s s' \<and> length (sin s') < length (sin s)"
proof (induction s rule: comment_loop.induct)
  case (1 s)
  from "1.prems" obtain b t where t: "newline (scan_next s) = Inr (b, t)"
      "if b then s' = t else schr t \<noteq> None \<and> comment_loop t = Inr s'"
    by (subst (asm) comment_loop.simps) (auto simp: monad_simps split: if_splits)
  have adv: "advances s t"
    using newline_facts(1) [OF t(1)] advances_trans [OF scan_next_advances] by blast
  show ?case
  proof (cases b)
    case True
    have "length (sin t) < length (sin (scan_next s))" using newline_facts(2) [OF t(1) True] .
    then show ?thesis using adv t True by (cases "sin s") auto
  next
    case False
    then have "advances t s' \<and> length (sin s') < length (sin t)"
      using "1.IH" [OF t(1)] t(2) by auto
    then show ?thesis using adv advances_trans advances_le by (meson order_less_le_trans)
  qed
qed

lemma comment_facts [scan_facts]:
  assumes "comment s = Inr (b, s')"
  shows "advances s s'" and "b \<Longrightarrow> length (sin s') < length (sin s)" and "\<not> b \<Longrightarrow> s' = s"
  using assms comment_loop_facts by (auto simp: comment_def monad_simps split: if_splits)

section \<open>Names and keywords\<close>

text \<open>\<open>while (p(s->chr)) { bufadd(&buf, s->chr); next(s); }\<close>\<close>

function scan_while :: "(char option \<Rightarrow> bool) \<Rightarrow> scanner \<Rightarrow> string \<Rightarrow> string \<times> scanner" where
  "scan_while p s buf =
     (case schr s of
        None \<Rightarrow> (buf, s)
      | Some c \<Rightarrow> if p (Some c) then scan_while p (scan_next s) (buf @ [c]) else (buf, s))"
  by pat_completeness auto
termination
  by (relation "measure (\<lambda>(p, s, buf). length (sin s))") auto

declare scan_while.simps [simp del]

lemma scan_while_facts [scan_facts]:
  "scan_while p s buf = (buf', s') \<Longrightarrow>
     advances s s' \<and> length buf' + length (sin s') = length buf + length (sin s)"
proof (induction p s buf rule: scan_while.induct)
  case (1 p s buf)
  show ?case
  proof (cases "\<exists>c cs. sin s = c # cs \<and> p (Some c)")
    case True
    then obtain c cs where c: "sin s = c # cs" "p (Some c)" by blast
    then have "schr s = Some c" by simp
    then have "scan_while p (scan_next s) (buf @ [c]) = (buf', s')"
      using "1.prems" c by (subst (asm) scan_while.simps) simp
    then have "advances (scan_next s) s' \<and>
        length buf' + length (sin s') = length (buf @ [c]) + length (sin (scan_next s))"
      using "1.IH" [of c] \<open>schr s = Some c\<close> c by blast
    then show ?thesis using c advances_trans [OF scan_next_advances] by auto
  next
    case False
    then show ?thesis using "1.prems"
      by (subst (asm) scan_while.simps) (auto split: option.splits)
  qed
qed

definition scan_name :: "scanner \<Rightarrow> samu_error + string \<times> scanner" where
  "scan_name s =
     (case scan_while isvar s [] of (buf, s') \<Rightarrow>
        if buf = [] then scanerror s' ''expected name''
        else bindE (space s') (\<lambda>(_, s''). Inr (buf, s'')))"

definition scanname :: "scanner \<Rightarrow> samu_error + string \<times> scanner" where
  "scanname s = scan_name s"

lemma scan_name_facts [scan_facts]:
  assumes "scan_name s = Inr (n, s')"
  shows "advances s s'" and "length (sin s') < length (sin s)" and "n \<noteq> []"
proof -
  obtain t b where t: "scan_while isvar s [] = (n, t)" "n \<noteq> []" "space t = Inr (b, s')"
    using assms by (auto simp: scan_name_def scanerror_def monad_simps split: prod.splits if_splits)
  note w = scan_while_facts [OF t(1)] and sp = space_facts(1) [OF t(3)]
  show "advances s s'" using w sp advances_trans by blast
  show "length (sin s') < length (sin s)"
    using w t(2) advances_le [OF sp] by (cases n) auto
  show "n \<noteq> []" by (rule t(2))
qed

datatype token = BUILD | DEFAULT | INCLUDE | POOL | RULE | SUBNINJA | VARIABLE

definition keyword_table :: "(string \<times> token) list" where
  "keyword_table =
     [(''build'', BUILD), (''default'', DEFAULT), (''include'', INCLUDE),
      (''pool'', POOL), (''rule'', RULE), (''subninja'', SUBNINJA)]"

text \<open>The binary search of \<open>scankeyword\<close>.\<close>

function keyword_search :: "string \<Rightarrow> int \<Rightarrow> int \<Rightarrow> token option" where
  "keyword_search name low high =
     (if low \<le> high then
        let mid = (low + high) div 2;
            cmp = strcmp name (fst (keyword_table ! nat mid))
        in if cmp = 0 then Some (snd (keyword_table ! nat mid))
           else if cmp < 0 then keyword_search name low (mid - 1)
           else keyword_search name (mid + 1) high
      else None)"
  by pat_completeness auto
termination
  by (relation "measure (\<lambda>(name, low, high). nat (high - low + 1))") auto

declare keyword_search.simps [simp del]

lemma space_at_space:
  "space s = Inr (b, s') \<Longrightarrow> sin s = CHR '' '' # cs \<Longrightarrow> length (sin s') < length (sin s)"
  by (frule space_facts(2)) (auto simp: space_def singlespace_def monad_simps)

lemma comment_at_hash:
  "comment s = Inr (b, s') \<Longrightarrow> sin s = CHR ''#'' # cs \<Longrightarrow> length (sin s') < length (sin s)"
  by (frule comment_facts(2)) (auto simp: comment_def monad_simps)

lemma newline_at_newline:
  "newline s = Inr (b, s') \<Longrightarrow> sin s = c # cs \<Longrightarrow> c = return_chr \<or> c = newline_chr \<Longrightarrow>
    length (sin s') < length (sin s)"
  by (frule newline_facts(2)) (auto simp: newline_def Let_def scanerror_def split: if_splits)

lemma indented_comment:
  "space s = Inr (b, s1) \<Longrightarrow> sin s = CHR '' '' # cs \<Longrightarrow> comment s1 = Inr (b', s2) \<Longrightarrow>
    length (sin s2) < length (sin s)"
  by (drule (1) space_at_space) (drule comment_facts(1) [THEN advances_le], simp)

lemma indented_newline:
  "space s = Inr (b, s1) \<Longrightarrow> sin s = CHR '' '' # cs \<Longrightarrow> comment s1 = Inr (b', s2) \<Longrightarrow>
    newline s2 = Inr (b'', s3) \<Longrightarrow> length (sin s3) < length (sin s)"
  by (drule (2) indented_comment) (drule newline_facts(1) [THEN advances_le], simp)

text \<open>The token with the variable's name for \<open>VARIABLE\<close>, or EOF (\<open>None\<close>).\<close>

function scankeyword :: "scanner \<Rightarrow> samu_error + (token \<times> string) option \<times> scanner" where
  "scankeyword s =
     (case schr s of
        None \<Rightarrow> Inr (None, s)
      | Some c \<Rightarrow>
        if c = CHR '' '' then
          bindE (space s) (\<lambda>(_, s1).
          bindE (comment s1) (\<lambda>(b, s2).
            if b then scankeyword s2
            else
              bindE (newline s2) (\<lambda>(b', s3).
                if b' then scankeyword s3 else scanerror s3 ''unexpected indent'')))
        else if c = CHR ''#'' then
          bindE (comment s) (\<lambda>(_, s1). scankeyword s1)
        else if c = return_chr \<or> c = newline_chr then
          bindE (newline s) (\<lambda>(_, s1). scankeyword s1)
        else
          bindE (scan_name s) (\<lambda>(name, s1).
            case keyword_search name 0 (int (length keyword_table) - 1) of
              Some t \<Rightarrow> Inr (Some (t, []), s1)
            | None \<Rightarrow> Inr (Some (VARIABLE, name), s1)))"
  by pat_completeness auto
termination
  by (relation "measure (length \<circ> sin)")
    (auto intro: indented_comment indented_newline comment_at_hash newline_at_newline)

declare scankeyword.simps [simp del]

section \<open>Strings\<close>

text \<open>
  The list being built, the bytes in \<open>buf\<close>. \<open>addstringpart\<close> appends a part made of the
  bytes and empties the buffer.
\<close>

type_synonym strbuf = "evalstring \<times> string"

definition addstringpart :: "bool \<Rightarrow> strbuf \<Rightarrow> strbuf" where
  "addstringpart var p = (case p of (parts, buf) \<Rightarrow> (parts @ [if var then Var buf else Lit buf], []))"

definition flush_literal :: "strbuf \<Rightarrow> strbuf" where
  "flush_literal p = (if length (snd p) > 0 then addstringpart False p else p)"

text \<open>\<open>while (isvar(next(s))) bufadd(&buf, s->chr);\<close>\<close>

definition scan_braced :: "scanner \<Rightarrow> string \<Rightarrow> string \<times> scanner" where
  "scan_braced s buf = scan_while isvar (scan_next s) buf"

definition scan_escape :: "scanner \<Rightarrow> strbuf \<Rightarrow> samu_error + strbuf \<times> scanner" where
  "scan_escape s p =
     (if schr s = Some (CHR ''$'') \<or> schr s = Some (CHR '' '') \<or> schr s = Some (CHR '':'') then
        Inr ((fst p, snd p @ [hd (sin s)]), scan_next s)
      else if schr s = Some (CHR ''{'') then
        (case flush_literal p of (parts, buf) \<Rightarrow>
         case scan_braced s buf of (buf', s1) \<Rightarrow>
           if schr s1 \<noteq> Some (CHR ''}'') then scanerror s1 ''invalid variable name''
           else Inr (addstringpart True (parts, buf'), scan_next s1))
      else if schr s = Some return_chr \<or> schr s = Some newline_chr then
        bindE (newline s) (\<lambda>(_, s1). bindE (space s1) (\<lambda>(_, s2). Inr (p, s2)))
      else
        (case flush_literal p of (parts, buf) \<Rightarrow>
         case scan_while issimplevar s buf of (buf', s1) \<Rightarrow>
           if buf' = [] then scanerror s1 ''invalid escape''
           else Inr (addstringpart True (parts, buf'), s1)))"

lemma flush_literal_buf [simp]: "snd (flush_literal p) = []"
  by (auto simp: flush_literal_def addstringpart_def split: prod.splits)

lemma scan_escape_facts [scan_facts]:
  assumes "scan_escape s p = Inr (p', s')"
  shows "advances s s'" and "length (sin s') < length (sin s)"
proof -
  consider (lit) "sin s \<noteq> []" "s' = scan_next s"
    | (brace) buf' s1 where "sin s \<noteq> []" "scan_braced s [] = (buf', s1)" "sin s1 \<noteq> []" "s' = scan_next s1"
    | (nl) s1 b c where "newline s = Inr (b, s1)" "b" "space s1 = Inr (c, s')"
    | (var) buf' where "scan_while issimplevar s [] = (buf', s')" "buf' \<noteq> []"
  proof (cases "schr s")
    case None
    then show thesis
      using assms that flush_literal_buf [of p]
      by (cases "flush_literal p") (auto simp: scan_escape_def scanerror_def split: prod.splits if_splits)
  next
    case (Some c)
    then show thesis
      using assms that flush_literal_buf [of p]
      by (cases "flush_literal p")
        (auto simp: scan_escape_def scanerror_def newline_def Let_def monad_simps
          split: prod.splits if_splits)
  qed
  then have "advances s s' \<and> length (sin s') < length (sin s)"
  proof cases
    case brace
    then have "advances (scan_next s) s1 \<and> length buf' + length (sin s1) = length (sin (scan_next s))"
      using scan_while_facts [of isvar "scan_next s" "[]"] by (simp add: scan_braced_def)
    then show ?thesis
      using brace advances_trans [OF scan_next_advances] advances_trans [OF _ scan_next_advances]
      by (cases "sin s"; cases "sin s1") auto
  next
    case nl
    then show ?thesis
      using newline_facts [OF nl(1)] space_facts(1) [OF nl(3)] advances_trans advances_le
      by (meson order_le_less_trans)
  next
    case var
    then show ?thesis using scan_while_facts [OF var(1)] by (cases buf') auto
  qed (auto simp: scan_next_less)
  then show "advances s s'" and "length (sin s') < length (sin s)" by simp_all
qed

function scanstring_loop :: "bool \<Rightarrow> scanner \<Rightarrow> strbuf \<Rightarrow> samu_error + strbuf \<times> scanner" where
  "scanstring_loop path s p =
     (case schr s of
        None \<Rightarrow> Inr (p, s)
      | Some c \<Rightarrow>
        if c = CHR ''$'' then
          bindE (scan_escape (scan_next s) p) (\<lambda>(p', s'). scanstring_loop path s' p')
        else if (c = CHR '':'' \<or> c = CHR ''|'' \<or> c = CHR '' '') \<and> path then Inr (p, s)
        else if c = return_chr \<or> c = newline_chr then Inr (p, s)
        else scanstring_loop path (scan_next s) (fst p, snd p @ [c]))"
  by pat_completeness auto
termination
  by (relation "measure (\<lambda>(path, s, p). length (sin s))")
    (auto dest!: scan_escape_facts(2))

declare scanstring_loop.simps [simp del]

text \<open>The empty string is NULL.\<close>

definition scanstring :: "scanner \<Rightarrow> bool \<Rightarrow> samu_error + evalstring \<times> scanner" where
  "scanstring s path =
     bindE (scanstring_loop path s ([], [])) (\<lambda>(p, s').
       let str = fst (flush_literal p)
       in if path then bindE (space s') (\<lambda>(_, s''). Inr (str, s'')) else Inr (str, s'))"

lemma scanstring_loop_facts [scan_facts]:
  "scanstring_loop path s p = Inr (p', s') \<Longrightarrow> advances s s' \<and>
     (p' = p \<or> length (sin s') < length (sin s))"
proof (induction path s p rule: scanstring_loop.induct)
  case (1 path s p)
  show ?case
  proof (cases "sin s")
    case Nil
    then show ?thesis using "1.prems" by (subst (asm) scanstring_loop.simps) auto
  next
    case (Cons c cs)
    consider (esc) "c = CHR ''$''"
      | (stop) "c \<noteq> CHR ''$''" "(c = CHR '':'' \<or> c = CHR ''|'' \<or> c = CHR '' '') \<and> path \<or> c = return_chr \<or> c = newline_chr"
      | (other) "c \<noteq> CHR ''$''" "\<not> ((c = CHR '':'' \<or> c = CHR ''|'' \<or> c = CHR '' '') \<and> path)" "c \<noteq> return_chr" "c \<noteq> newline_chr"
      by blast
    then show ?thesis
    proof cases
      case esc
      then obtain q t where t: "scan_escape (scan_next s) p = Inr (q, t)"
          "scanstring_loop path t q = Inr (p', s')"
        using "1.prems" Cons by (subst (asm) scanstring_loop.simps) (auto simp: monad_simps)
      have "advances t s'" using "1.IH"(1) [of c] Cons esc t by auto
      moreover have "advances s t" "length (sin t) < length (sin s)"
        using scan_escape_facts [OF t(1)] advances_trans [OF scan_next_advances] Cons by auto
      ultimately show ?thesis using advances_trans advances_le by (meson order_le_less_trans)
    next
      case stop
      then show ?thesis using "1.prems" Cons
        by (subst (asm) scanstring_loop.simps) (auto simp: newline_chr_def return_chr_def)
    next
      case other
      then have "scanstring_loop path (scan_next s) (fst p, snd p @ [c]) = Inr (p', s')"
        using "1.prems" Cons by (subst (asm) scanstring_loop.simps) auto
      then have "advances (scan_next s) s'" using "1.IH"(2) [of c] Cons other by auto
      then have "advances s s'" "length (sin s') < length (sin s)"
        using advances_trans [OF scan_next_advances] advances_le Cons
        by (blast, fastforce dest: advances_le)
      then show ?thesis by blast
    qed
  qed
qed

lemma scanstring_facts [scan_facts]:
  assumes "scanstring s path = Inr (str, s')"
  shows "advances s s'" and "str \<noteq> [] \<Longrightarrow> length (sin s') < length (sin s)"
proof -
  obtain p t where t: "scanstring_loop path s ([], []) = Inr (p, t)" "str = fst (flush_literal p)"
      "advances t s'"
    using assms by (auto simp: scanstring_def Let_def monad_simps split: if_splits dest: space_facts)
  note f = scanstring_loop_facts [OF t(1)]
  show "advances s s'" using f t(3) advances_trans by blast
  show "length (sin s') < length (sin s)" if "str \<noteq> []"
  proof -
    have "p \<noteq> ([], [])" using that t(2) by (auto simp: flush_literal_def)
    then show ?thesis using f advances_le [OF t(3)] by auto
  qed
qed

text \<open>\<open>scanpaths\<close> appends to the global array \<open>paths\<close>; the array is the argument.\<close>

function scanpaths :: "scanner \<Rightarrow> evalstring list \<Rightarrow> samu_error + evalstring list \<times> scanner" where
  "scanpaths s paths =
     bindE (scanstring s True) (\<lambda>(str, s').
       if str = [] then Inr (paths, s') else scanpaths s' (paths @ [str]))"
  by pat_completeness auto
termination
  by (relation "measure (\<lambda>(s, paths). length (sin s))") (auto dest: scanstring_facts(2))

declare scanpaths.simps [simp del]

section \<open>Punctuation\<close>

definition scanchar :: "scanner \<Rightarrow> char \<Rightarrow> samu_error + scanner" where
  "scanchar s c =
     (if schr s \<noteq> Some c then scanerror s ''expected character''
      else bindE (space (scan_next s)) (\<lambda>(_, s'). Inr s'))"

text \<open>Bit 0 of \<open>n\<close> allows a single bar, bit 1 a double one.\<close>

definition scanpipe :: "scanner \<Rightarrow> nat \<Rightarrow> samu_error + nat \<times> scanner" where
  "scanpipe s n =
     (if schr s \<noteq> Some (CHR ''|'') then Inr (0, s)
      else
        let s1 = scan_next s
        in if schr s1 \<noteq> Some (CHR ''|'') then
             (if even n then scanerror s1 ''expected two bars''
              else bindE (space s1) (\<lambda>(_, s2). Inr (1, s2)))
           else if even (n div 2) then scanerror s1 ''unexpected two bars''
           else bindE (space (scan_next s1)) (\<lambda>(_, s2). Inr (2, s2)))"

function scanindent :: "scanner \<Rightarrow> samu_error + bool \<times> scanner" where
  "scanindent s =
     bindE (space s) (\<lambda>(indent, s1).
     bindE (comment s1) (\<lambda>(b, s2).
       if b then scanindent s2
       else if indent then bindE (newline s2) (\<lambda>(nl, s3). Inr (\<not> nl, s3))
       else Inr (False, s2)))"
  by pat_completeness auto
termination
  by (relation "measure (length \<circ> sin)")
    (auto dest!: space_facts(1) comment_facts(2) dest: advances_le)

declare scanindent.simps [simp del]

definition scannewline :: "scanner \<Rightarrow> samu_error + scanner" where
  "scannewline s =
     bindE (newline s) (\<lambda>(b, s').
       if \<not> b then scanerror s' ''expected newline'' else Inr s')"

lemma scanpaths_facts [scan_facts]: "scanpaths s ps = Inr (ps', s') \<Longrightarrow> advances s s'"
proof (induction s ps rule: scanpaths.induct)
  case (1 s ps)
  then show ?case
    by (subst (asm) (2) scanpaths.simps)
      (auto simp: monad_simps split: if_splits dest: scanstring_facts(1) intro: advances_trans)
qed

lemma scanchar_facts [scan_facts]:
  "scanchar s c = Inr s' \<Longrightarrow> advances s s' \<and> length (sin s') < length (sin s)"
  using advances_trans [OF scan_next_advances]
  by (fastforce simp: scanchar_def scanerror_def monad_simps split: if_splits
      dest: space_facts(1) advances_le)

lemma scanpipe_facts [scan_facts]: "scanpipe s n = Inr (k, s') \<Longrightarrow> advances s s'"
  using advances_trans [OF scan_next_advances]
  by (fastforce simp: scanpipe_def Let_def scanerror_def monad_simps split: if_splits
      dest: space_facts(1))

lemma scanindent_facts [scan_facts]: "scanindent s = Inr (b, s') \<Longrightarrow> advances s s'"
proof (induction s rule: scanindent.induct)
  case (1 s)
  then show ?case
    by (subst (asm) (2) scanindent.simps)
      (auto 4 4 simp: monad_simps split: if_splits
        dest: space_facts(1) comment_facts(1) newline_facts(1) intro: advances_trans)
qed

lemma scannewline_facts [scan_facts]:
  "scannewline s = Inr s' \<Longrightarrow> advances s s' \<and> length (sin s') < length (sin s)"
  by (auto simp: scannewline_def scanerror_def monad_simps split: if_splits
      dest: newline_facts(1,2))

text \<open>One turn of the loop of \<open>scankeyword\<close>: it returns, or it goes on with less input.\<close>

lemma scankeyword_turn:
  assumes "scankeyword s = Inr (r, s')"
  shows "(sin s = [] \<and> r = None \<and> s' = s) \<or>
    (\<exists>t. advances s t \<and> length (sin t) < length (sin s) \<and> scankeyword t = Inr (r, s')) \<or>
    (\<exists>n. scan_name s = Inr (n, s') \<and> r \<noteq> None)"
proof (cases "sin s")
  case Nil
  then show ?thesis using assms by (subst (asm) scankeyword.simps) auto
next
  case (Cons c cs)
  consider (sp) "c = CHR '' ''" | (hash) "c = CHR ''#''" | (nl) "c = return_chr \<or> c = newline_chr"
    | (name) "c \<noteq> CHR '' ''" "c \<noteq> CHR ''#''" "c \<noteq> return_chr" "c \<noteq> newline_chr"
    by blast
  then show ?thesis
  proof cases
    case sp
    then obtain x s1 b s2 where a: "space s = Inr (x, s1)" "comment s1 = Inr (b, s2)"
        "b \<and> scankeyword s2 = Inr (r, s') \<or>
         \<not> b \<and> (\<exists>s3. newline s2 = Inr (True, s3) \<and> scankeyword s3 = Inr (r, s'))"
      using assms Cons
      by (subst (asm) scankeyword.simps) (fastforce simp: monad_simps scanerror_def split: if_splits)
    have adv: "advances s s2"
      using space_facts(1) [OF a(1)] comment_facts(1) [OF a(2)] advances_trans by blast
    have less: "length (sin s2) < length (sin s)"
      using indented_comment [OF a(1) _ a(2)] Cons sp by blast
    from a(3) show ?thesis
      using adv less newline_facts(1) advances_trans advances_le by (meson le_less_trans)
  next
    case hash
    then obtain b s1 where a: "comment s = Inr (b, s1)" "scankeyword s1 = Inr (r, s')"
      using assms Cons by (subst (asm) scankeyword.simps) (auto simp: monad_simps)
    then show ?thesis using comment_facts(1) [OF a(1)] comment_at_hash [OF a(1)] Cons hash by blast
  next
    case nl
    then obtain b s1 where a: "newline s = Inr (b, s1)" "scankeyword s1 = Inr (r, s')"
      using assms Cons
      by (subst (asm) scankeyword.simps) (auto simp: monad_simps newline_chr_def return_chr_def)
    then show ?thesis using newline_facts(1) [OF a(1)] newline_at_newline [OF a(1) Cons nl] by blast
  next
    case name
    then show ?thesis using assms Cons
      by (subst (asm) scankeyword.simps) (auto simp: monad_simps split: option.splits)
  qed
qed

lemma scankeyword_facts [scan_facts]:
  "scankeyword s = Inr (r, s') \<Longrightarrow>
     advances s s' \<and> (r \<noteq> None \<longrightarrow> length (sin s') < length (sin s)) \<and> (r = None \<longrightarrow> sin s' = [])"
proof (induction "length (sin s)" arbitrary: s rule: less_induct)
  case less
  from scankeyword_turn [OF less.prems] show ?case
  proof (elim disjE exE conjE)
    fix t assume t: "advances s t" "length (sin t) < length (sin s)" "scankeyword t = Inr (r, s')"
    show ?thesis using less.hyps [OF t(2,3)] advances_trans [OF t(1)] t(2) by auto
  next
    fix n assume "scan_name s = Inr (n, s')" "r \<noteq> None"
    then show ?thesis using scan_name_facts(1,2) by blast
  qed auto
qed

end
