(* ===== verification/Samu_Scan_Laws.thy ===== *)
theory Samu_Scan_Laws
  imports Samu_Scan
begin

text \<open>
  What the scanner of \<open>scan.c\<close> guarantees its caller: when its operations end, that the
  keyword search is a table lookup, and that strings printed with escapes scan back.
\<close>

section \<open>Termination\<close>

lemma newline_ends [simp]: "newline s \<noteq> Inl Diverges"
  by (simp add: newline_def Let_def scanerror_def)

lemma singlespace_ends [simp]: "singlespace s \<noteq> Inl Diverges"
  by (auto simp: singlespace_def monad_simps split: if_splits)

lemma space_loop_ends [simp]: "space_loop s \<noteq> Inl Diverges"
proof (induction s rule: space_loop.induct)
  case (1 s)
  then show ?case
    by (subst space_loop.simps) (auto simp: monad_simps split: if_splits)
qed

lemma space_ends [simp]: "space s \<noteq> Inl Diverges"
  by (auto simp: space_def monad_simps split: if_splits)

lemma scan_name_ends [simp]: "scan_name s \<noteq> Inl Diverges"
  by (auto simp: scan_name_def scanerror_def monad_simps split: prod.splits if_splits)

lemma scan_escape_ends [simp]: "scan_escape s p \<noteq> Inl Diverges"
  by (auto simp: scan_escape_def scanerror_def monad_simps split: prod.splits if_splits)

lemma scanstring_loop_ends [simp]: "scanstring_loop path s p \<noteq> Inl Diverges"
proof (induction path s p rule: scanstring_loop.induct)
  case (1 path s p)
  then show ?case
    by (subst scanstring_loop.simps) (auto simp: monad_simps split: option.splits if_splits)
qed

lemma scanstring_ends [simp]: "scanstring s path \<noteq> Inl Diverges"
  by (auto simp: scanstring_def Let_def monad_simps split: if_splits)

lemma scanpaths_ends [simp]: "scanpaths s ps \<noteq> Inl Diverges"
proof (induction s ps rule: scanpaths.induct)
  case (1 s ps)
  then show ?case
    by (subst scanpaths.simps) (auto simp: monad_simps split: if_splits)
qed

lemma scanchar_ends [simp]: "scanchar s c \<noteq> Inl Diverges"
  by (auto simp: scanchar_def scanerror_def monad_simps split: if_splits)

lemma scanpipe_ends [simp]: "scanpipe s n \<noteq> Inl Diverges"
  by (auto simp: scanpipe_def Let_def scanerror_def monad_simps split: if_splits)

lemma scannewline_ends [simp]: "scannewline s \<noteq> Inl Diverges"
  by (auto simp: scannewline_def scanerror_def monad_simps split: if_splits)

text \<open>A comment ends unless the file does, without a newline or a carriage return.\<close>

lemma comment_loop_hangs_iff:
  "comment_loop s = Inl Diverges \<longleftrightarrow>
     newline_chr \<notin> set (drop 1 (sin s)) \<and> return_chr \<notin> set (drop 1 (sin s))"
proof (induction s rule: comment_loop.induct)
  case (1 s)
  show ?case
  proof (cases "drop 1 (sin s)")
    case Nil
    then have "newline (scan_next s) = Inr (False, scan_next s)" by (simp add: newline_def)
    then show ?thesis using Nil by (subst comment_loop.simps) simp
  next
    case (Cons c cs)
    then have s1: "sin (scan_next s) = c # cs" by simp
    show ?thesis
    proof (cases "c = newline_chr \<or> c = return_chr")
      case True
      have "newline (scan_next s) \<noteq> Inr (False, t)" for t
        using True s1 by (auto simp: newline_def Let_def scanerror_def chr_defs split: if_splits)
      then have "comment_loop s \<noteq> Inl Diverges"
        by (subst comment_loop.simps) (auto simp: monad_simps split: if_splits)
      then show ?thesis using True Cons by auto
    next
      case False
      then have nl: "newline (scan_next s) = Inr (False, scan_next s)"
        using s1 by (simp add: newline_def)
      then have "comment_loop s = comment_loop (scan_next s)"
        using s1 by (subst comment_loop.simps) (simp del: scan_next_sin)
      then show ?thesis using "1.IH" [OF nl refl] False Cons s1 by (auto simp del: scan_next_sin)
    qed
  qed
qed

lemma comment_hangs_iff:
  "comment s = Inl Diverges \<longleftrightarrow>
     (\<exists>cs. sin s = CHR ''#'' # cs \<and> newline_chr \<notin> set cs \<and> return_chr \<notin> set cs)"
  by (auto simp: comment_def monad_simps comment_loop_hangs_iff)

definition ends_with_newline :: "scanner \<Rightarrow> bool" where
  "ends_with_newline s \<longleftrightarrow> sin s = [] \<or> last (sin s) = newline_chr"

lemma ends_with_newline_advances: "ends_with_newline s \<Longrightarrow> advances s s' \<Longrightarrow> ends_with_newline s'"
  by (auto simp: ends_with_newline_def advances_def last_append split: if_splits)

lemma comment_ends: "ends_with_newline s \<Longrightarrow> comment s \<noteq> Inl Diverges"
  using last_in_set by (fastforce simp: comment_hangs_iff ends_with_newline_def newline_chr_def
      split: if_splits)

lemma scanindent_ends: "ends_with_newline s \<Longrightarrow> scanindent s \<noteq> Inl Diverges"
proof (induction s rule: scanindent.induct)
  case (1 s)
  show ?case
  proof
    assume "scanindent s = Inl Diverges"
    then obtain i s1 where a: "space s = Inr (i, s1)" "comment s1 = Inl Diverges \<or>
        (\<exists>s2. comment s1 = Inr (True, s2) \<and> scanindent s2 = Inl Diverges)"
      by (subst (asm) scanindent.simps) (auto simp: monad_simps split: if_splits)
    have e: "ends_with_newline s1"
      using ends_with_newline_advances [OF "1.prems" space_facts(1) [OF a(1)]] .
    then obtain s2 where b: "comment s1 = Inr (True, s2)" "scanindent s2 = Inl Diverges"
      using a(2) comment_ends by blast
    then show False
      using "1.IH" [OF a(1) refl b(1) refl] ends_with_newline_advances [OF e comment_facts(1) [OF b(1)]]
      by simp
  qed
qed

text \<open>One turn of \<open>scankeyword\<close> that does not end.\<close>

lemma scankeyword_hang_turn:
  assumes "scankeyword s = Inl Diverges"
  shows "(\<exists>t. advances s t \<and> length (sin t) < length (sin s) \<and> scankeyword t = Inl Diverges) \<or>
    (\<exists>t. advances s t \<and> comment t = Inl Diverges)"
proof (cases "sin s")
  case Nil
  then show ?thesis using assms by (subst (asm) scankeyword.simps) auto
next
  case (Cons c cs)
  consider (sp) "c = CHR '' ''" | (hash) "c = CHR ''#''" | (nl) "c = return_chr \<or> c = newline_chr"
    | (name) "c \<noteq> CHR '' ''" "c \<noteq> CHR ''#''" "c \<noteq> return_chr" "c \<noteq> newline_chr"
    by blast
  then show ?thesis
  proof cases
    case sp
    then obtain x s1 where a: "space s = Inr (x, s1)" "comment s1 = Inl Diverges \<or>
        (\<exists>s2. comment s1 = Inr (True, s2) \<and> scankeyword s2 = Inl Diverges) \<or>
        (\<exists>s2 s3. comment s1 = Inr (False, s2) \<and> newline s2 = Inr (True, s3) \<and> scankeyword s3 = Inl Diverges)"
      using assms Cons
      by (subst (asm) scankeyword.simps) (fastforce simp: monad_simps scanerror_def split: if_splits)
    note s1 = space_facts(1) [OF a(1)]
    from a(2) show ?thesis
    proof (elim disjE exE conjE)
      fix s2 assume h: "comment s1 = Inr (True, s2)" "scankeyword s2 = Inl Diverges"
      then show ?thesis
        using advances_trans [OF s1 comment_facts(1)] indented_comment [OF a(1)] Cons sp by blast
    next
      fix s2 s3 assume h: "comment s1 = Inr (False, s2)" "newline s2 = Inr (True, s3)"
        "scankeyword s3 = Inl Diverges"
      then show ?thesis
        using advances_trans [OF advances_trans [OF s1 comment_facts(1)] newline_facts(1)]
          indented_newline [OF a(1)] Cons sp by blast
    qed (use s1 in blast)
  next
    case hash
    then have "comment s = Inl Diverges \<or>
        (\<exists>b s1. comment s = Inr (b, s1) \<and> scankeyword s1 = Inl Diverges)"
      using assms Cons by (subst (asm) scankeyword.simps) (auto simp: monad_simps)
    then show ?thesis using comment_facts(1) comment_at_hash Cons hash by blast
  next
    case nl
    then obtain b s1 where "newline s = Inr (b, s1)" "scankeyword s1 = Inl Diverges"
      using assms Cons
      by (subst (asm) scankeyword.simps) (auto simp: monad_simps chr_defs)
    then show ?thesis using newline_facts(1) newline_at_newline [OF _ Cons nl] by blast
  next
    case name
    then show ?thesis using assms Cons
      by (subst (asm) scankeyword.simps) (auto simp: monad_simps split: option.splits)
  qed
qed

lemma scankeyword_ends: "ends_with_newline s \<Longrightarrow> scankeyword s \<noteq> Inl Diverges"
proof (induction "length (sin s)" arbitrary: s rule: less_induct)
  case less
  show ?case
  proof
    assume "scankeyword s = Inl Diverges"
    from scankeyword_hang_turn [OF this] show False
      using less ends_with_newline_advances comment_ends by blast
  qed
qed

section \<open>Keywords\<close>

lemma keyword_search_miss:
  assumes "name \<notin> fst ` set keyword_table" and "0 \<le> low" and "high < int (length keyword_table)"
  shows "keyword_search name low high = None"
  using assms
proof (induction name low high rule: keyword_search.induct)
  case (1 name low high)
  show ?case
  proof (cases "low \<le> high")
    case True
    let ?mid = "(low + high) div 2"
    have "nat ?mid < length keyword_table" using 1 True by auto
    then have "fst (keyword_table ! nat ?mid) \<in> fst ` set keyword_table" by simp
    then have "strcmp name (fst (keyword_table ! nat ?mid)) \<noteq> 0" using "1.prems" by auto
    then show ?thesis
      using 1 True by (subst keyword_search.simps) (auto simp: Let_def)
  qed (subst keyword_search.simps, simp)
qed

lemma keyword_search_hits:
  "\<forall>(name, t) \<in> set keyword_table. keyword_search name 0 (int (length keyword_table) - 1) = Some t"
  by (simp add: keyword_table_def keyword_search.simps strcmp_def)

lemma keyword_search_is_lookup:
  "keyword_search name 0 (int (length keyword_table) - 1) = map_of keyword_table name"
proof (cases "map_of keyword_table name")
  case None
  then have "name \<notin> fst ` set keyword_table" by (simp add: map_of_eq_None_iff)
  then show ?thesis using None by (subst keyword_search_miss) auto
next
  case (Some t)
  then show ?thesis using keyword_search_hits map_of_SomeD [OF Some] by auto
qed

section \<open>Printing and scanning strings\<close>

text \<open>
  How a generator of build files writes a string: variables in braces, and \<open>$\<close> before the
  three characters that \<open>escape\<close> accepts.
\<close>

definition print_char :: "char \<Rightarrow> string" where
  "print_char c = (if c = CHR ''$'' \<or> c = CHR '' '' \<or> c = CHR '':'' then [CHR ''$'', c] else [c])"

fun print_part :: "evalpart \<Rightarrow> string" where
  "print_part (Var v) = ''${'' @ v @ ''}''"
| "print_part (Lit l) = concat (map print_char l)"

definition print_evalstring :: "evalstring \<Rightarrow> string" where
  "print_evalstring str = concat (map print_part str)"

text \<open>
  The strings that have a written form: names of variable characters, literals without line
  ends (and, in paths, without \<open>|\<close>, which has no escape).
\<close>

definition printable_char :: "bool \<Rightarrow> char \<Rightarrow> bool" where
  "printable_char path c \<longleftrightarrow> c \<noteq> newline_chr \<and> c \<noteq> return_chr \<and> (path \<longrightarrow> c \<noteq> CHR ''|'')"

fun printable_part :: "bool \<Rightarrow> evalpart \<Rightarrow> bool" where
  "printable_part path (Var v) = (\<forall>c \<in> set v. isvar (Some c))"
| "printable_part path (Lit l) = (l \<noteq> [] \<and> (\<forall>c \<in> set l. printable_char path c))"

text \<open>The scanner never makes two literals in a row.\<close>

fun separated :: "evalstring \<Rightarrow> bool" where
  "separated (Lit a # Lit b # ps) = False"
| "separated (p # ps) = separated ps"
| "separated [] = True"

definition at_string_end :: "bool \<Rightarrow> string \<Rightarrow> bool" where
  "at_string_end path w \<longleftrightarrow>
     (case w of [] \<Rightarrow> True
      | c # _ \<Rightarrow> c = newline_chr \<or> c = return_chr \<or>
          path \<and> (c = CHR '':'' \<or> c = CHR ''|'' \<or> c = CHR '' ''))"

text \<open>The loop from \<open>s\<close> with \<open>p\<close> goes on as from some scanner at \<open>w\<close> with \<open>p'\<close>.\<close>

definition goes_on :: "bool \<Rightarrow> scanner \<Rightarrow> strbuf \<Rightarrow> string \<Rightarrow> strbuf \<Rightarrow> bool" where
  "goes_on path s p w p' \<longleftrightarrow>
     (\<exists>t. sin t = w \<and> advances s t \<and> scanstring_loop path s p = scanstring_loop path t p')"

lemma goes_on_trans:
  "goes_on path s p w p' \<Longrightarrow> (\<And>t. sin t = w \<Longrightarrow> goes_on path t p' w' p'') \<Longrightarrow> goes_on path s p w' p''"
  unfolding goes_on_def using advances_trans by metis

lemma goes_on_ex:
  assumes "goes_on path s p w p'" and "\<And>t. sin t = w \<Longrightarrow> \<exists>p''. goes_on path t p' w' p'' \<and> Q p''"
  shows "\<exists>p''. goes_on path s p w' p'' \<and> Q p''"
proof -
  obtain t where t: "sin t = w" "advances s t" "scanstring_loop path s p = scanstring_loop path t p'"
    using assms(1) by (auto simp: goes_on_def)
  obtain p'' where "goes_on path t p' w' p''" "Q p''" using assms(2) [OF t(1)] by blast
  then show ?thesis using t advances_trans unfolding goes_on_def by metis
qed

lemma goes_on_refl: "sin s = w \<Longrightarrow> goes_on path s p w p"
  by (auto simp: goes_on_def)

lemma scan_char:
  assumes "sin s = print_char c @ w" and "printable_char path c"
  shows "goes_on path s p w (fst p, snd p @ [c])"
proof (cases "c = CHR ''$'' \<or> c = CHR '' '' \<or> c = CHR '':''")
  case True
  then have s: "sin s = CHR ''$'' # c # w" using assms(1) by (simp add: print_char_def)
  then have "scan_escape (scan_next s) p = Inr ((fst p, snd p @ [c]), scan_next (scan_next s))"
    using True by (auto simp: scan_escape_def)
  then have "scanstring_loop path s p = scanstring_loop path (scan_next (scan_next s)) (fst p, snd p @ [c])"
    using s by (subst scanstring_loop.simps) simp
  moreover have "advances s (scan_next (scan_next s))"
    using advances_trans [OF scan_next_advances scan_next_advances] .
  ultimately show ?thesis
    using s unfolding goes_on_def by (intro exI [of _ "scan_next (scan_next s)"]) simp
next
  case False
  then have s: "sin s = c # w" using assms(1) by (simp add: print_char_def)
  then have "scanstring_loop path s p = scanstring_loop path (scan_next s) (fst p, snd p @ [c])"
    using False assms(2) by (subst scanstring_loop.simps) (auto simp: printable_char_def)
  then show ?thesis
    using s unfolding goes_on_def by (intro exI [of _ "scan_next s"]) simp
qed

lemma scan_literal:
  "sin s = concat (map print_char l) @ w \<Longrightarrow> \<forall>c \<in> set l. printable_char path c \<Longrightarrow>
     goes_on path s p w (fst p, snd p @ l)"
proof (induction l arbitrary: s p)
  case Nil
  then show ?case by (simp add: goes_on_refl)
next
  case (Cons c l)
  have "goes_on path s p (concat (map print_char l) @ w) (fst p, snd p @ [c])"
    using Cons.prems by (intro scan_char) auto
  then show ?case
    by (rule goes_on_trans) (use Cons.IH [of _ "(fst p, snd p @ [c])"] Cons.prems(2) in simp)
qed

lemma scan_while_run:
  assumes "sin s = v @ x # w" and "\<forall>c \<in> set v. q (Some c)" and "\<not> q (Some x)"
  shows "\<exists>t. scan_while q s buf = (buf @ v, t) \<and> sin t = x # w"
  using assms
proof (induction v arbitrary: s buf)
  case Nil
  then show ?case by (subst scan_while.simps) auto
next
  case (Cons c v)
  then obtain t where "scan_while q (scan_next s) (buf @ [c]) = ((buf @ [c]) @ v, t)" "sin t = x # w"
    using Cons.IH [of "scan_next s" "buf @ [c]"] by auto
  then show ?case using Cons.prems by (subst scan_while.simps) auto
qed

lemma scan_variable:
  assumes "sin s = ''${'' @ v @ ''}'' @ w" and "\<forall>c \<in> set v. isvar (Some c)"
  shows "goes_on path s p w (fst (flush_literal p) @ [Var v], [])"
proof -
  obtain parts where fl: "flush_literal p = (parts, [])"
    using flush_literal_buf [of p] by (cases "flush_literal p") simp
  have "\<not> isvar (Some (CHR ''}''))" by (simp add: isvar_def issimplevar_def isalnum_def isalpha_def isdigit_def less_eq_char_def)
  then obtain t where t: "scan_while isvar (scan_next (scan_next s)) [] = (v, t)" "sin t = CHR ''}'' # w"
    using scan_while_run [of "scan_next (scan_next s)" v "CHR ''}''" w isvar "[]"] assms by auto
  then have e: "scan_escape (scan_next s) p = Inr ((parts @ [Var v], []), scan_next t)"
    using assms fl by (simp add: scan_escape_def scan_braced_def addstringpart_def)
  then have "scanstring_loop path s p = scanstring_loop path (scan_next t) (parts @ [Var v], [])"
    using assms by (subst scanstring_loop.simps) simp
  moreover have "advances s (scan_next t)"
    using scan_escape_facts(1) [OF e] advances_trans [OF scan_next_advances] by blast
  ultimately show ?thesis
    using t(2) fl unfolding goes_on_def by (intro exI [of _ "scan_next t"]) simp
qed

text \<open>The parts that the loop's state stands for.\<close>

definition parts_of :: "strbuf \<Rightarrow> evalstring" where
  "parts_of p = fst (flush_literal p)"

lemma scan_parts:
  assumes "sin s = print_evalstring str @ w" and "\<forall>q \<in> set str. printable_part path q"
    and "separated str" and "snd p = [] \<or> (\<forall>l str'. str \<noteq> Lit l # str')"
  shows "\<exists>p'. goes_on path s p w p' \<and> parts_of p' = parts_of p @ str"
  using assms
proof (induction str arbitrary: s p)
  case Nil
  then have "goes_on path s p w p" by (intro goes_on_refl) (simp add: print_evalstring_def)
  then show ?case by (intro exI [of _ p]) simp
next
  case (Cons q str)
  have s: "sin s = print_part q @ print_evalstring str @ w"
    using Cons.prems(1) by (simp add: print_evalstring_def)
  have rest: "\<forall>q \<in> set str. printable_part path q" "separated str"
    using Cons.prems(2,3) by (auto elim: separated.elims)
  show ?case
  proof (cases q)
    case (Var v)
    let ?p = "(fst (flush_literal p) @ [Var v], [])"
    have g: "goes_on path s p (print_evalstring str @ w) ?p"
      using s Cons.prems(2) Var by (intro scan_variable) auto
    have po: "parts_of ?p = parts_of p @ [Var v]" by (simp add: parts_of_def flush_literal_def)
    show ?thesis
    proof (rule goes_on_ex [OF g])
      show "\<exists>p'. goes_on path t ?p w p' \<and> parts_of p' = parts_of p @ q # str"
        if "sin t = print_evalstring str @ w" for t
        using Cons.IH [OF that rest, of ?p] po Var by simp
    qed
  next
    case (Lit l)
    then have buf: "snd p = []" using Cons.prems(4) by auto
    let ?p = "(fst p, l)"
    have g: "goes_on path s p (print_evalstring str @ w) ?p"
      using scan_literal [of s l _ path p] s Cons.prems(2) Lit buf by simp
    have ne: "\<forall>m str'. str \<noteq> Lit m # str'" using Cons.prems(3) Lit by auto
    have po: "parts_of ?p = parts_of p @ [Lit l]"
      using buf Cons.prems(2) Lit by (cases p) (auto simp: parts_of_def flush_literal_def addstringpart_def)
    show ?thesis
    proof (rule goes_on_ex [OF g])
      show "\<exists>p'. goes_on path t ?p w p' \<and> parts_of p' = parts_of p @ q # str"
        if "sin t = print_evalstring str @ w" for t
        using Cons.IH [OF that rest, of ?p] ne po Lit by simp
    qed
  qed
qed

lemma scanstring_loop_print:
  assumes "sin s = print_evalstring str @ w" and "\<forall>q \<in> set str. printable_part path q"
    and "separated str" and "at_string_end path w"
  shows "\<exists>p t. scanstring_loop path s ([], []) = Inr (p, t) \<and> sin t = w \<and> parts_of p = str"
proof -
  obtain p' where g: "goes_on path s ([], []) w p'" "parts_of p' = parts_of ([], []) @ str"
    using scan_parts [OF assms(1-3), of "([], [])"] by auto
  then obtain t where t: "sin t = w" "scanstring_loop path s ([], []) = scanstring_loop path t p'"
    by (auto simp: goes_on_def)
  have "scanstring_loop path t p' = Inr (p', t)"
    using t(1) assms(4)
    by (subst scanstring_loop.simps) (auto simp: at_string_end_def chr_defs split: list.splits)
  then show ?thesis using t g by (auto simp: parts_of_def flush_literal_def)
qed

section \<open>Lists of paths\<close>

lemma space_none:
  assumes "sin s = [] \<or> (hd (sin s) \<noteq> CHR '' '' \<and> hd (sin s) \<noteq> CHR ''$'')"
  shows "space s = Inr (False, s)"
  using assms by (cases "sin s") (auto simp: space_def singlespace_def)

lemma space_loop_stops:
  assumes "sin s = [] \<or> hd (sin s) \<noteq> CHR '' ''"
    and "\<And>x. sin s = CHR ''$'' # x \<Longrightarrow> x = [] \<or> (hd x \<noteq> newline_chr \<and> hd x \<noteq> return_chr)"
  shows "\<exists>t. space_loop s = Inr t \<and> sin t = sin s"
proof (cases "\<exists>x. sin s = CHR ''$'' # x")
  case True
  then obtain x where x: "sin s = CHR ''$'' # x" by blast
  have "newline (scan_next s) = Inr (False, scan_next s)"
    using x assms(2) [OF x] by (cases x) (auto simp: newline_def)
  then have "singlespace s = Inr (False, (scan_next s)\<lparr>sin := CHR ''$'' # x\<rparr>)"
    using x by (simp add: singlespace_def)
  then show ?thesis using x by (subst space_loop.simps) simp
next
  case False
  then have "singlespace s = Inr (False, s)"
    using assms(1) by (cases "sin s") (auto simp: singlespace_def)
  then show ?thesis by (subst space_loop.simps) simp
qed

lemma space_one:
  assumes "sin s = CHR '' '' # y" and "y = [] \<or> hd y \<noteq> CHR '' ''"
    and "\<And>x. y = CHR ''$'' # x \<Longrightarrow> x = [] \<or> (hd x \<noteq> newline_chr \<and> hd x \<noteq> return_chr)"
  shows "\<exists>t. space s = Inr (True, t) \<and> sin t = y"
proof -
  have "\<exists>t. space_loop (scan_next s) = Inr t \<and> sin t = sin (scan_next s)"
    using assms by (intro space_loop_stops) auto
  then show ?thesis using assms(1) by (auto simp: space_def singlespace_def)
qed

fun print_paths :: "evalstring list \<Rightarrow> string" where
  "print_paths [] = []"
| "print_paths [p] = print_evalstring p"
| "print_paths (p # q # ps) = print_evalstring p @ CHR '' '' # print_paths (q # ps)"

definition printable_path :: "evalstring \<Rightarrow> bool" where
  "printable_path p \<longleftrightarrow> p \<noteq> [] \<and> (\<forall>q \<in> set p. printable_part True q) \<and> separated p"

lemma print_starts:
  assumes "printable_path p"
  shows "\<exists>c x. print_evalstring p @ w = c # x \<and> c \<noteq> CHR '' '' \<and>
    (c = CHR ''$'' \<longrightarrow> (\<exists>d y. x = d # y \<and> d \<noteq> newline_chr \<and> d \<noteq> return_chr))"
proof -
  obtain q p' where p: "p = q # p'" and q: "printable_part True q"
    using assms by (cases p) (auto simp: printable_path_def)
  show ?thesis
  proof (cases q)
    case (Var v)
    then show ?thesis by (simp add: p print_evalstring_def chr_defs)
  next
    case (Lit l)
    then obtain c l' where "l = c # l'" "printable_char True c" using q by (cases l) auto
    then show ?thesis
      using Lit by (auto simp: p print_evalstring_def print_char_def printable_char_def)
  qed
qed

lemma scanpaths_end:
  assumes "at_string_end True w" and "w = [] \<or> hd w \<noteq> CHR '' ''" and "sin s = w"
  shows "scanpaths s ps = Inr (ps, s)"
proof -
  have "scanstring_loop True s ([], []) = Inr (([], []), s)"
    using assms by (subst scanstring_loop.simps) (auto simp: at_string_end_def chr_defs split: list.splits)
  moreover have "space s = Inr (False, s)"
    using assms by (intro space_none) (auto simp: at_string_end_def chr_defs split: list.splits)
  ultimately have "scanstring s True = Inr ([], s)"
    by (simp add: scanstring_def flush_literal_def)
  then show ?thesis by (subst scanpaths.simps) simp
qed

lemma scanpaths_print_lemma:
  assumes "\<forall>p \<in> set paths. printable_path p" and "sin s = print_paths paths @ w"
    and "at_string_end True w" and "w = [] \<or> hd w \<noteq> CHR '' ''"
  shows "\<exists>t. scanpaths s ps = Inr (ps @ paths, t) \<and> sin t = w"
  using assms(1,2)
proof (induction paths arbitrary: s ps rule: print_paths.induct)
  case 1
  then show ?case using scanpaths_end [OF assms(3,4), of s ps] by auto
next
  case (2 p)
  then obtain q t where t: "scanstring_loop True s ([], []) = Inr (q, t)" "sin t = w" "parts_of q = p"
    using scanstring_loop_print [of s p w True] assms(3) by (auto simp: printable_path_def)
  moreover have "space t = Inr (False, t)"
    using t(2) assms(3,4) by (intro space_none) (auto simp: at_string_end_def chr_defs split: list.splits)
  ultimately have "scanstring s True = Inr (p, t)" by (simp add: scanstring_def parts_of_def)
  moreover have "scanpaths t (ps @ [p]) = Inr (ps @ [p], t)"
    using scanpaths_end [OF assms(3,4) t(2)] .
  ultimately show ?case
    using 2 t(2) by (subst scanpaths.simps) (auto simp: printable_path_def)
next
  case (3 p p' paths)
  let ?w = "CHR '' '' # print_paths (p' # paths) @ w"
  obtain q t where t: "scanstring_loop True s ([], []) = Inr (q, t)" "sin t = ?w" "parts_of q = p"
    using scanstring_loop_print [of s p ?w True] 3(2,3)
    by (auto simp: printable_path_def at_string_end_def)
  obtain v where v: "print_paths (p' # paths) @ w = print_evalstring p' @ v"
    by (cases paths) auto
  obtain c x where cx: "print_paths (p' # paths) @ w = c # x" "c \<noteq> CHR '' ''"
      "c = CHR ''$'' \<longrightarrow> (\<exists>d y. x = d # y \<and> d \<noteq> newline_chr \<and> d \<noteq> return_chr)"
    using print_starts [of p' v] 3(2) v by auto
  obtain u where u: "space t = Inr (True, u)" "sin u = print_paths (p' # paths) @ w"
    using space_one [of t "print_paths (p' # paths) @ w"] t(2) cx by auto
  have "scanstring s True = Inr (p, u)" using t u by (simp add: scanstring_def parts_of_def)
  then have "scanpaths s ps = scanpaths u (ps @ [p])"
    using 3(2) by (subst scanpaths.simps) (simp add: printable_path_def)
  then show ?case using "3.IH" [of u "ps @ [p]"] 3(2) u(2) by auto
qed

section \<open>Properties\<close>

text \<open>
  a comment that the input does not close with a line end makes the scanner read EOF for
  ever; that is the only case in which \<open>comment\<close> does not return.
\<close>

theorem comment_diverges_iff:
  "comment s = Inl Diverges \<longleftrightarrow>
     (\<exists>cs. sin s = CHR ''#'' # cs \<and> newline_chr \<notin> set cs \<and> return_chr \<notin> set cs)"
  by (rule comment_hangs_iff)

text \<open>
  C20: on a file that ends with a newline, the loops that skip blank and comment lines, the ones
  of \<open>scankeyword\<close> and \<open>scanindent\<close>, return.
\<close>

theorem scanner_returns:
  assumes "ends_with_newline s"
  shows "comment s \<noteq> Inl Diverges \<and> scanindent s \<noteq> Inl Diverges \<and> scankeyword s \<noteq> Inl Diverges"
  using assms comment_ends scanindent_ends scankeyword_ends by blast

theorem scanner_returns_witness:
  "scankeyword \<lparr>spath = ''build.ninja'', sin = ''# c'' @ [newline_chr], sline = 1, scol = 1\<rparr> \<noteq> Inl Diverges"
  using scanner_returns [of "\<lparr>spath = ''build.ninja'', sin = ''# c'' @ [newline_chr], sline = 1, scol = 1\<rparr>"]
  by (simp add: ends_with_newline_def)

text \<open>
  the scanner takes a prefix off its input, never skips back, and its line number grows by
  exactly the newlines it has passed; a keyword, a line end, a path always consumes something,
  which is why the parser's loops over them end.
\<close>

theorem scanner_counts_lines:
  "(scankeyword s = Inr (r, s1) \<longrightarrow> advances s s1 \<and> (r \<noteq> None \<longrightarrow> length (sin s1) < length (sin s)) \<and>
      (r = None \<longrightarrow> sin s1 = [])) \<and>
   (scanstring s path = Inr (str, s2) \<longrightarrow> advances s s2 \<and> (str \<noteq> [] \<longrightarrow> length (sin s2) < length (sin s))) \<and>
   (scanpaths s ps = Inr (ps', s3) \<longrightarrow> advances s s3) \<and>
   (scanindent s = Inr (b, s4) \<longrightarrow> advances s s4) \<and>
   (scannewline s = Inr s5 \<longrightarrow> advances s s5 \<and> length (sin s5) < length (sin s))"
  using scankeyword_facts [of s r s1] scanstring_facts [of s path str s2]
    scanpaths_facts [of s ps ps' s3] scanindent_facts [of s b s4] scannewline_facts [of s s5]
  by simp

definition sample_scanner :: "string \<Rightarrow> scanner" where
  "sample_scanner w = \<lparr>spath = ''build.ninja'', sin = w, sline = 1, scol = 1\<rparr>"

theorem scanner_counts_lines_witness:
  "\<exists>s'. scannewline (sample_scanner [newline_chr, CHR ''x'']) = Inr s' \<and>
     advances (sample_scanner [newline_chr, CHR ''x'']) s' \<and> length (sin s') < 2"
proof -
  let ?s = "sample_scanner [newline_chr, CHR ''x'']"
  obtain s' where s': "scannewline ?s = Inr s'"
    by (simp add: scannewline_def newline_def sample_scanner_def schr_def chr_defs)
  then have "advances ?s s' \<and> length (sin s') < length (sin ?s)"
    using scanner_counts_lines [of ?s] by blast
  then show ?thesis using s' by (simp add: sample_scanner_def)
qed

text \<open>
  the binary search of \<open>scankeyword\<close> over its table finds exactly the keywords of the table.
\<close>

theorem keyword_search_correct:
  "keyword_search name 0 (int (length keyword_table) - 1) = map_of keyword_table name"
  by (rule keyword_search_is_lookup)

text \<open>
  C17: a list of paths written with \<open>$\<close>-escapes, separated by single spaces, and followed by a
  colon, a bar or a line end, is scanned back part by part: \<open>scanpaths\<close> inverts the printer.
\<close>

theorem scanpaths_print:
  assumes "\<forall>p \<in> set paths. printable_path p" and "sin s = print_paths paths @ w"
    and "at_string_end True w" and "w = [] \<or> hd w \<noteq> CHR '' ''"
  shows "\<exists>t. scanpaths s ps = Inr (ps @ paths, t) \<and> sin t = w"
  by (rule scanpaths_print_lemma [OF assms])

theorem scanpaths_print_witness:
  "\<exists>t. scanpaths (sample_scanner ''${dir}/a$ b.o c$:d: cc'') [] =
     Inr ([[Var ''dir'', Lit ''/a b.o''], [Lit ''c:d'']], t) \<and> sin t = '': cc''"
proof -
  let ?ps = "[[Var ''dir'', Lit ''/a b.o''], [Lit ''c:d'']]"
  have "sin (sample_scanner ''${dir}/a$ b.o c$:d: cc'') = print_paths ?ps @ '': cc''"
    by (simp add: sample_scanner_def print_evalstring_def print_char_def)
  then show ?thesis
    using scanpaths_print [of ?ps "sample_scanner ''${dir}/a$ b.o c$:d: cc''" "'': cc''" "[]"]
    by (simp add: printable_path_def printable_char_def isvar_def issimplevar_def isalnum_def
        isalpha_def isdigit_def at_string_end_def chr_defs)
qed

end
