(* ===== verification/Samu_Parse.thy ===== *)
theory Samu_Parse
  imports Samu_Graph Samu_Scan_Laws
begin

text \<open>
  \<open>src/samu/parse.c\<close>: the parser of build files. A statement takes the scanner and the state
  and gives them back, or the error that ends the program. \<open>fopen\<close> is the parameter \<open>fs\<close>,
  from file names to contents. The array \<open>paths\<close> is empty between two statements, so it is a
  list passed along within a statement.
\<close>

section \<open>Statements\<close>

definition parseinit :: "samu \<Rightarrow> samu" where
  "parseinit st = st\<lparr>deftarg := []\<rparr>"

definition parselet :: "scanner \<Rightarrow> samu_error + evalstring \<times> scanner" where
  "parselet s =
     bindE (scanchar s (CHR ''='')) (\<lambda>s1.
     bindE (scanstring s1 False) (\<lambda>(val, s2).
     bindE (scannewline s2) (\<lambda>s3. Inr (val, s3))))"

lemma parselet_facts [scan_facts]:
  assumes "parselet s = Inr (val, s')"
  shows "advances s s'" and "length (sin s') < length (sin s)"
proof -
  obtain s1 s2 where "scanchar s (CHR ''='') = Inr s1" "scanstring s1 False = Inr (val, s2)"
      "scannewline s2 = Inr s'"
    using assms by (auto simp: parselet_def monad_simps)
  then have "advances s s1 \<and> length (sin s1) < length (sin s)" "advances s1 s2" "advances s2 s'"
    using scanchar_facts scanstring_facts(1) scannewline_facts by blast+
  then show "advances s s'" and "length (sin s') < length (sin s)"
    using advances_trans advances_le by (blast, meson order_le_less_trans)
qed

text \<open>The indented \<open>name = string\<close> that the three loops below read: \<open>None\<close> at the end.\<close>

definition scan_binding :: "scanner \<Rightarrow> samu_error + (string \<times> evalstring) option \<times> scanner" where
  "scan_binding s =
     bindE (scanindent s) (\<lambda>(b, s1).
       if \<not> b then Inr (None, s1)
       else bindE (scanname s1) (\<lambda>(var, s2).
            bindE (parselet s2) (\<lambda>(val, s3). Inr (Some (var, val), s3))))"

lemma scan_binding_facts [scan_facts]:
  assumes "scan_binding s = Inr (r, s')"
  shows "advances s s'" and "r \<noteq> None \<Longrightarrow> length (sin s') < length (sin s)"
proof -
  obtain b s1 where s1: "scanindent s = Inr (b, s1)" "advances s s1"
      "\<not> b \<and> r = None \<and> s' = s1 \<or>
       (\<exists>var val s2. scan_name s1 = Inr (var, s2) \<and> parselet s2 = Inr (val, s') \<and> r = Some (var, val))"
    using assms by (fastforce simp: scan_binding_def scanname_def monad_simps split: if_splits
        dest: scanindent_facts)
  have "advances s s' \<and> (r \<noteq> None \<longrightarrow> length (sin s') < length (sin s))"
    using s1(3)
  proof (elim disjE exE conjE)
    fix var val s2 assume "scan_name s1 = Inr (var, s2)" "parselet s2 = Inr (val, s')"
    then have "advances s1 s2" "length (sin s2) < length (sin s1)" "advances s2 s'"
      using scan_name_facts(1,2) parselet_facts(1) by blast+
    then show ?thesis using s1(2) advances_trans advances_le
      by (meson order_le_less_trans order_less_le_trans)
  qed (use s1(2) in simp)
  then show "advances s s'" and "r \<noteq> None \<Longrightarrow> length (sin s') < length (sin s)" by auto
qed

text \<open>\<open>hascommand\<close>, \<open>hasrspfile\<close>, \<open>hasrspcontent\<close>.\<close>

type_synonym rule_seen = "bool \<times> bool \<times> bool"

definition rule_seen :: "string \<Rightarrow> evalstring \<Rightarrow> rule_seen \<Rightarrow> rule_seen" where
  "rule_seen var val seen =
     (case seen of (command, rspfile, rspcontent) \<Rightarrow>
        if val = [] then seen
        else if var = ''command'' then (True, rspfile, rspcontent)
        else if var = ''rspfile'' then (command, True, rspcontent)
        else if var = ''rspfile_content'' then (command, rspfile, True)
        else seen)"

function rule_bindings :: "nat \<Rightarrow> scanner \<Rightarrow> rule_seen \<Rightarrow> samu \<Rightarrow>
    samu_error + scanner \<times> rule_seen \<times> samu" where
  "rule_bindings r s seen st =
     bindE (scan_binding s) (\<lambda>(b, s1).
       case b of
         None \<Rightarrow> Inr (s1, seen, st)
       | Some (var, val) \<Rightarrow> rule_bindings r s1 (rule_seen var val seen) (ruleaddvar r var val st))"
  by pat_completeness auto
termination
  by (relation "measure (\<lambda>(r, s, seen, st). length (sin s))") (auto dest: scan_binding_facts(2))

declare rule_bindings.simps [simp del]

definition parserule :: "scanner \<Rightarrow> nat \<Rightarrow> samu \<Rightarrow> samu_error + scanner \<times> samu" where
  "parserule s env st =
     bindE (scanname s) (\<lambda>(name, s1).
     case mkrule name st of (r, st1) \<Rightarrow>
     bindE (scannewline s1) (\<lambda>s2.
     bindE (rule_bindings r s2 (False, False, False) st1) (\<lambda>(s3, (command, rspfile, rspcontent), st2).
       if \<not> command then Inl (Fatal Rule_no_command name)
       else if rspfile \<noteq> rspcontent then Inl (Fatal Rule_rsp_mismatch name)
       else bindE (envaddrule env r st2) (\<lambda>st3. Inr (s3, st3)))))"

section \<open>Edges\<close>

text \<open>The bindings of an edge are evaluated in the scope of the statement.\<close>

function edge_bindings :: "nat \<Rightarrow> nat \<Rightarrow> scanner \<Rightarrow> samu \<Rightarrow> samu_error + scanner \<times> samu" where
  "edge_bindings env own s st =
     bindE (scan_binding s) (\<lambda>(b, s1).
       case b of
         None \<Rightarrow> Inr (s1, st)
       | Some (name, str) \<Rightarrow> edge_bindings env own s1 (envaddvar own name (enveval st env str) st))"
  by pat_completeness auto
termination
  by (relation "measure (\<lambda>(env, own, s, st). length (sin s))") (auto dest: scan_binding_facts(2))

declare edge_bindings.simps [simp del]

text \<open>
  What the header line of a build statement gives: the rule's name, the path strings, and
  \<open>outimpidx\<close>, \<open>nout\<close>, \<open>inimpidx\<close>, \<open>inorderidx\<close>.
\<close>

record edge_header =
  hrule :: string
  hpaths :: "evalstring list"
  houtimpidx :: nat
  hnout :: nat
  hinimpidx :: nat
  hinorderidx :: nat

text \<open>The outputs: \<open>outimpidx\<close>, \<open>nout\<close> and the paths.\<close>

definition scan_outs :: "scanner \<Rightarrow> samu_error + (nat \<times> evalstring list) \<times> scanner" where
  "scan_outs s =
     bindE (scanpaths s []) (\<lambda>(ps1, s1).
     bindE (scanpipe s1 1) (\<lambda>(p, s2).
     bindE (if p \<noteq> 0 then scanpaths s2 ps1 else Inr (ps1, s2)) (\<lambda>(ps2, s3).
       if length ps2 = 0 then scanerror s3 ''expected output path''
       else Inr ((length ps1, ps2), s3))))"

text \<open>The inputs: \<open>inimpidx\<close>, \<open>inorderidx\<close> (with \<open>nout\<close> still added) and all the paths.\<close>

definition scan_ins :: "scanner \<Rightarrow> evalstring list \<Rightarrow> samu_error + (nat \<times> nat \<times> evalstring list) \<times> scanner" where
  "scan_ins s ps =
     bindE (scanpaths s ps) (\<lambda>(ps1, s1).
     bindE (scanpipe s1 3) (\<lambda>(p, s2).
     bindE (if p = 1 then bindE (scanpaths s2 ps1) (\<lambda>(ps2, s3).
                          bindE (scanpipe s3 2) (\<lambda>(p', s4). Inr (ps2, p', s4)))
            else Inr (ps1, p, s2)) (\<lambda>(ps2, p', s4).
     bindE (if p' = 2 then scanpaths s4 ps2 else Inr (ps2, s4)) (\<lambda>(ps3, s5).
     Inr ((length ps1, length ps2, ps3), s5)))))"

definition scan_header :: "scanner \<Rightarrow> nat \<Rightarrow> samu \<Rightarrow> samu_error + (nat \<times> edge_header) \<times> scanner" where
  "scan_header s env st =
     bindE (scan_outs s) (\<lambda>((outimp, outs), s1).
     bindE (scanchar s1 (CHR '':'')) (\<lambda>s2.
     bindE (scanname s2) (\<lambda>(name, s3).
     case envrule st env name of
       None \<Rightarrow> Inl (Fatal Undefined_rule name)
     | Some r \<Rightarrow>
       bindE (scan_ins s3 outs) (\<lambda>((inimp, inorder, ps), s4).
       bindE (scannewline s4) (\<lambda>s5.
       Inr ((r, \<lparr>hrule = name, hpaths = ps, houtimpidx = outimp, hnout = length outs,
                 hinimpidx = inimp - length outs, hinorderidx = inorder - length outs\<rparr>), s5))))))"

text \<open>\<open>path\<close> is evaluated in the edge's own scope, made canonical and interned.\<close>

definition edge_node :: "nat \<Rightarrow> evalstring \<Rightarrow> samu \<Rightarrow> samu_error + nat \<times> samu" where
  "edge_node e path st =
     bindE (canonpath (enveval st (eenv (edges_of st e)) path)) (\<lambda>val. mknode val st)"

text \<open>
  The loop over the outputs, where \<open>i\<close> is the number of outputs so far. \<open>dupwarn\<close> is
  \<open>parseopts.dupbuildwarn\<close>.
\<close>

fun parse_outs :: "bool \<Rightarrow> nat \<Rightarrow> evalstring list \<Rightarrow> samu \<Rightarrow> samu_error + samu" where
  "parse_outs dupwarn e [] st = Inr st"
| "parse_outs dupwarn e (path # paths) st =
     bindE (edge_node e path st) (\<lambda>(n, st1).
       if ngen (nodes_of st1 n) \<noteq> None then
         if \<not> dupwarn then Inl (Fatal Multiple_rules (npath (nodes_of st1 n)))
         else parse_outs dupwarn e paths
           (if length (eout (edges_of st1 e)) < eoutimpidx (edges_of st1 e)
            then upd_edge e (\<lambda>x. x\<lparr>eoutimpidx := eoutimpidx x - 1\<rparr>) st1 else st1)
       else parse_outs dupwarn e paths
         (upd_edge e (\<lambda>x. x\<lparr>eout := eout x @ [n]\<rparr>) (upd_node n (\<lambda>x. x\<lparr>ngen := Some e\<rparr>) st1)))"

fun parse_ins :: "nat \<Rightarrow> evalstring list \<Rightarrow> samu \<Rightarrow> samu_error + samu" where
  "parse_ins e [] st = Inr st"
| "parse_ins e (path # paths) st =
     bindE (edge_node e path st) (\<lambda>(n, st1).
       parse_ins e paths (nodeuse n e (upd_edge e (\<lambda>x. x\<lparr>ein := ein x @ [n]\<rparr>) st1)))"

definition set_header :: "nat \<Rightarrow> edge_header \<Rightarrow> edge \<Rightarrow> edge" where
  "set_header r h x = x\<lparr>erule := r, eoutimpidx := houtimpidx h, einimpidx := hinimpidx h,
     einorderidx := hinorderidx h\<rparr>"

definition edge_set_pool :: "nat \<Rightarrow> samu \<Rightarrow> samu_error + samu" where
  "edge_set_pool e st =
     bindE (edgevar st e ''pool'' True) (\<lambda>val.
       case val of
         None \<Rightarrow> Inr st
       | Some name \<Rightarrow> bindE (poolget st name) (\<lambda>p. Inr (upd_edge e (\<lambda>x. x\<lparr>epool := Some p\<rparr>) st)))"

definition parseedge :: "bool \<Rightarrow> scanner \<Rightarrow> nat \<Rightarrow> samu \<Rightarrow> samu_error + scanner \<times> samu" where
  "parseedge dupwarn s env st =
     (case mkedge env st of (e, st1) \<Rightarrow>
        bindE (scan_header s env st1) (\<lambda>((r, h), s1).
        bindE (edge_bindings env (eenv (edges_of st1 e)) s1 (upd_edge e (set_header r h) st1)) (\<lambda>(s2, st2).
        bindE (parse_outs dupwarn e (take (hnout h) (hpaths h)) st2) (\<lambda>st3.
        bindE (parse_ins e (drop (hnout h) (hpaths h)) st3) (\<lambda>st4.
        bindE (edge_set_pool e st4) (\<lambda>st5. Inr (s2, st5)))))))"

section \<open>The other statements\<close>

text \<open>\<open>inc\<close> parses the included file.\<close>

definition parseinclude ::
    "(string \<Rightarrow> nat \<Rightarrow> samu \<Rightarrow> samu_error + samu) \<Rightarrow> scanner \<Rightarrow> nat \<Rightarrow> bool \<Rightarrow> samu \<Rightarrow>
     samu_error + scanner \<times> samu" where
  "parseinclude inc s env newscope st =
     bindE (scanstring s True) (\<lambda>(str, s1).
       if str = [] then scanerror s1 ''expected include path''
       else bindE (scannewline s1) (\<lambda>s2.
         let path = enveval st env str;
             (env', st1) = (if newscope then mkenv (Some env) st else (env, st))
         in bindE (inc path env' st1) (\<lambda>st2. Inr (s2, st2))))"

definition default_target :: "nat \<Rightarrow> evalstring \<Rightarrow> samu \<Rightarrow> samu_error + samu" where
  "default_target env path st =
     bindE (canonpath (enveval st env path)) (\<lambda>p.
     bindE (nodeget st p) (\<lambda>r.
       case r of
         None \<Rightarrow> Inl (Fatal Unknown_target p)
       | Some n \<Rightarrow> Inr (st\<lparr>deftarg := deftarg st @ [n]\<rparr>)))"

definition parsedefault :: "scanner \<Rightarrow> nat \<Rightarrow> samu \<Rightarrow> samu_error + scanner \<times> samu" where
  "parsedefault s env st =
     bindE (scanpaths s []) (\<lambda>(paths, s1).
     bindE (foldE (default_target env) paths st) (\<lambda>st1.
     bindE (scannewline s1) (\<lambda>s2. Inr (s2, st1))))"

function pool_bindings :: "nat \<Rightarrow> nat \<Rightarrow> scanner \<Rightarrow> samu \<Rightarrow> samu_error + scanner \<times> samu" where
  "pool_bindings env p s st =
     bindE (scan_binding s) (\<lambda>(b, s1).
       case b of
         None \<Rightarrow> Inr (s1, st)
       | Some (var, val) \<Rightarrow>
         if var = ''depth'' then
           (case strtol10 (enveval st env val) of (d, rest) \<Rightarrow>
              if rest \<noteq> [] then Inl (Fatal Pool_invalid_depth (enveval st env val))
              else pool_bindings env p s1 (upd_pool p (\<lambda>x. x\<lparr>pmaxjobs := to_int32 d\<rparr>) st))
         else Inl (Fatal Pool_unexpected_var var))"
  by pat_completeness auto
termination
  by (relation "measure (\<lambda>(env, p, s, st). length (sin s))") (auto dest: scan_binding_facts(2))

declare pool_bindings.simps [simp del]

definition parsepool :: "scanner \<Rightarrow> nat \<Rightarrow> samu \<Rightarrow> samu_error + scanner \<times> samu" where
  "parsepool s env st =
     bindE (scanname s) (\<lambda>(name, s1).
     bindE (mkpool name st) (\<lambda>(p, st1).
     bindE (scannewline s1) (\<lambda>s2.
     bindE (pool_bindings env p s2 st1) (\<lambda>(s3, st2).
       if pmaxjobs (pools_of st2 p) = 0 then Inl (Fatal Pool_no_depth name) else Inr (s3, st2)))))"

definition ninjamajor :: int where "ninjamajor = 1"
definition ninjaminor :: int where "ninjaminor = 9"

text \<open>\<open>sscanf(ver, "%d.%d", &major, &minor)\<close>, and the comparison.\<close>

definition checkversion :: "string \<Rightarrow> samu_error + unit" where
  "checkversion ver =
     (case scan_decimal ver of
        None \<Rightarrow> Inl (Fatal Version_invalid ver)
      | Some (major, rest) \<Rightarrow>
        let minor = (if take 1 rest = ''.''
                     then (case scan_decimal (drop 1 rest) of None \<Rightarrow> 0 | Some (m, _) \<Rightarrow> m)
                     else 0)
        in if major > ninjamajor \<or> (major = ninjamajor \<and> minor > ninjaminor)
           then Inl (Fatal Version_too_new ver) else Inr ())"

definition parsevariable :: "string \<Rightarrow> scanner \<Rightarrow> nat \<Rightarrow> samu \<Rightarrow> samu_error + scanner \<times> samu" where
  "parsevariable var s env st =
     bindE (parselet s) (\<lambda>(str, s1).
       let val = enveval st env str
       in bindE (if var = ''ninja_required_version'' then checkversion val else Inr ()) (\<lambda>_.
          Inr (s1, envaddvar env var val st)))"

definition parse_statement ::
    "bool \<Rightarrow> (string \<Rightarrow> nat \<Rightarrow> samu \<Rightarrow> samu_error + samu) \<Rightarrow> token \<Rightarrow> string \<Rightarrow> scanner \<Rightarrow> nat \<Rightarrow> samu \<Rightarrow>
     samu_error + scanner \<times> samu" where
  "parse_statement dupwarn inc tok var s env st =
     (case tok of
        RULE \<Rightarrow> parserule s env st
      | BUILD \<Rightarrow> parseedge dupwarn s env st
      | INCLUDE \<Rightarrow> parseinclude inc s env False st
      | SUBNINJA \<Rightarrow> parseinclude inc s env True st
      | DEFAULT \<Rightarrow> parsedefault s env st
      | POOL \<Rightarrow> parsepool s env st
      | VARIABLE \<Rightarrow> parsevariable var s env st)"

section \<open>Every statement goes forward in the file\<close>

lemma rule_bindings_facts [scan_facts]:
  "rule_bindings r s seen st = Inr (s', seen', st') \<Longrightarrow> advances s s'"
proof (induction "length (sin s)" arbitrary: s seen st rule: less_induct)
  case less
  obtain b s1 where b: "scan_binding s = Inr (b, s1)"
    using less.prems by (auto simp: rule_bindings.simps [of r s seen st] monad_simps)
  note turn = less.prems [unfolded rule_bindings.simps [of r s seen st] b bindE.simps prod.case]
  show ?case
  proof (cases b)
    case None
    then show ?thesis using turn scan_binding_facts(1) [OF b] by simp
  next
    case (Some x)
    then have "length (sin s1) < length (sin s)" using scan_binding_facts(2) [OF b] by simp
    then have "advances s1 s'"
      using turn Some less.hyps [of s1] by (auto split: prod.splits if_splits)
    then show ?thesis using scan_binding_facts(1) [OF b] advances_trans by blast
  qed
qed

lemma edge_bindings_facts [scan_facts]:
  "edge_bindings env own s st = Inr (s', st') \<Longrightarrow> advances s s'"
proof (induction "length (sin s)" arbitrary: s st rule: less_induct)
  case less
  obtain b s1 where b: "scan_binding s = Inr (b, s1)"
    using less.prems by (auto simp: edge_bindings.simps [of env own s st] monad_simps)
  note turn = less.prems [unfolded edge_bindings.simps [of env own s st] b bindE.simps prod.case]
  show ?case
  proof (cases b)
    case None
    then show ?thesis using turn scan_binding_facts(1) [OF b] by simp
  next
    case (Some x)
    then have "length (sin s1) < length (sin s)" using scan_binding_facts(2) [OF b] by simp
    then have "advances s1 s'"
      using turn Some less.hyps [of s1] by (auto split: prod.splits if_splits)
    then show ?thesis using scan_binding_facts(1) [OF b] advances_trans by blast
  qed
qed

lemma pool_bindings_facts [scan_facts]:
  "pool_bindings env p s st = Inr (s', st') \<Longrightarrow> advances s s'"
proof (induction "length (sin s)" arbitrary: s st rule: less_induct)
  case less
  obtain b s1 where b: "scan_binding s = Inr (b, s1)"
    using less.prems by (auto simp: pool_bindings.simps [of env p s st] monad_simps)
  note turn = less.prems [unfolded pool_bindings.simps [of env p s st] b bindE.simps prod.case]
  show ?case
  proof (cases b)
    case None
    then show ?thesis using turn scan_binding_facts(1) [OF b] by simp
  next
    case (Some x)
    then have "length (sin s1) < length (sin s)" using scan_binding_facts(2) [OF b] by simp
    then have "advances s1 s'"
      using turn Some less.hyps [of s1] by (auto split: prod.splits if_splits)
    then show ?thesis using scan_binding_facts(1) [OF b] advances_trans by blast
  qed
qed

text \<open>Chains of steps are followed with transitivity.\<close>

lemmas scan_step_facts = scan_name_facts(1) scannewline_facts scanpaths_facts
  scanpipe_facts scanchar_facts parselet_facts(1) scanstring_facts(1) rule_bindings_facts
  edge_bindings_facts pool_bindings_facts

lemma parserule_facts [scan_facts]: "parserule s env st = Inr (s', st') \<Longrightarrow> advances s s'"
  by (auto simp: parserule_def scanname_def mkrule_def monad_simps split: if_splits
      dest!: scan_step_facts; meson advances_trans)

lemma scan_outs_facts [scan_facts]: "scan_outs s = Inr (r, s') \<Longrightarrow> advances s s'"
  by (auto simp: scan_outs_def monad_simps scanerror_def split: if_splits
      dest!: scan_step_facts; meson advances_trans)

lemma scan_ins_facts [scan_facts]:
  assumes "scan_ins s ps = Inr (r, s')" shows "advances s s'"
proof -
  obtain ps1 s1 p s2 ps2 p' s4 ps3 where a: "scanpaths s ps = Inr (ps1, s1)" "scanpipe s1 3 = Inr (p, s2)"
      "(if p = 1 then bindE (scanpaths s2 ps1) (\<lambda>(ps2, s3).
                          bindE (scanpipe s3 2) (\<lambda>(p', s4). Inr (ps2, p', s4)))
            else Inr (ps1, p, s2)) = Inr (ps2, p', s4)"
      "(if p' = 2 then scanpaths s4 ps2 else Inr (ps2, s4)) = Inr (ps3, s')"
    using assms unfolding scan_ins_def bindE_Inr_iff by (elim exE conjE) (auto simp: monad_simps)
  have "advances s s1" "advances s1 s2" using a(1,2) scanpaths_facts scanpipe_facts by blast+
  moreover have "advances s2 s4"
    using a(3) scanpaths_facts scanpipe_facts advances_trans
    by (auto simp: monad_simps split: if_splits) blast
  moreover have "advances s4 s'" using a(4) scanpaths_facts by (auto split: if_splits)
  ultimately show ?thesis using advances_trans by blast
qed

lemma scan_header_facts [scan_facts]: "scan_header s env st = Inr (r, s') \<Longrightarrow> advances s s'"
  by (auto simp: scan_header_def scanname_def monad_simps split: option.splits
      dest!: scan_outs_facts scan_ins_facts scan_step_facts; meson advances_trans)

lemma parseedge_facts [scan_facts]: "parseedge w s env st = Inr (s', st') \<Longrightarrow> advances s s'"
  by (auto simp: parseedge_def mkedge_def mkenv_def Let_def monad_simps
      dest!: scan_header_facts scan_step_facts; meson advances_trans)

lemma parseinclude_facts [scan_facts]: "parseinclude inc s env b st = Inr (s', st') \<Longrightarrow> advances s s'"
  by (auto simp: parseinclude_def mkenv_def Let_def monad_simps scanerror_def split: if_splits
      dest!: scan_step_facts; meson advances_trans)

lemma parsedefault_facts [scan_facts]: "parsedefault s env st = Inr (s', st') \<Longrightarrow> advances s s'"
  by (auto simp: parsedefault_def monad_simps
      dest!: scan_step_facts; meson advances_trans)

lemma parsepool_facts [scan_facts]: "parsepool s env st = Inr (s', st') \<Longrightarrow> advances s s'"
  by (auto simp: parsepool_def scanname_def monad_simps split: if_splits
      dest!: scan_step_facts; meson advances_trans)

lemma parsevariable_facts [scan_facts]: "parsevariable var s env st = Inr (s', st') \<Longrightarrow> advances s s'"
  by (auto simp: parsevariable_def Let_def monad_simps dest!: scan_step_facts)

lemma parse_statement_facts [scan_facts]:
  "parse_statement w inc tok var s env st = Inr (s', st') \<Longrightarrow> advances s s'"
  by (cases tok) (auto simp: parse_statement_def dest: scan_facts)

section \<open>Files\<close>

function parse_loop ::
    "bool \<Rightarrow> (string \<Rightarrow> nat \<Rightarrow> samu \<Rightarrow> samu_error + samu) \<Rightarrow> scanner \<Rightarrow> nat \<Rightarrow> samu \<Rightarrow> samu_error + samu" where
  "parse_loop dupwarn inc s env st =
     bindE (scankeyword s) (\<lambda>(tok, s1).
       case tok of
         None \<Rightarrow> Inr st
       | Some (t, var) \<Rightarrow>
         bindE (parse_statement dupwarn inc t var s1 env st) (\<lambda>(s2, st2).
         parse_loop dupwarn inc s2 env st2))"
  by pat_completeness auto
termination
proof (relation "measure (\<lambda>(dupwarn, inc, s, env, st). length (sin s))", goal_cases)
  case (2 dupwarn inc s env st x tok s1 tv t var y s2 st2)
  then have "length (sin s1) < length (sin s)" using scankeyword_facts [of s tok s1] by auto
  moreover have "advances s1 s2" using 2 parse_statement_facts by metis
  ultimately show ?case using advances_le by fastforce
qed simp

declare parse_loop.simps [simp del]

text \<open>
  \<open>parse\<close>: the fuel is the depth of nested \<open>include\<close> and \<open>subninja\<close> statements.
\<close>

fun parse :: "(string \<Rightarrow> string option) \<Rightarrow> bool \<Rightarrow> nat \<Rightarrow> string \<Rightarrow> nat \<Rightarrow> samu \<Rightarrow> samu_error + samu" where
  "parse fs dupwarn 0 name env st = Inl Diverges"
| "parse fs dupwarn (Suc fuel) name env st =
     bindE (scaninit fs name) (\<lambda>s. parse_loop dupwarn (parse fs dupwarn fuel) s env st)"

text \<open>The nodes on which \<open>defaultnodes\<close> calls its argument, in order.\<close>

definition defaultnodes :: "samu \<Rightarrow> nat list" where
  "defaultnodes st =
     (if length (deftarg st) > 0 then deftarg st
      else concat (map (\<lambda>e. filter (\<lambda>n. nuse (nodes_of st n) = []) (eout (edges_of st e)))
             (alledges st)))"

end
