(* ===== verification/Samu_Env_Laws.thy ===== *)
theory Samu_Env_Laws
  imports Samu_Env
begin

text \<open>
  What \<open>env.c\<close> and \<open>nodepath\<close> guarantee: scoped lookup after an assignment, shell quoting that
  a POSIX shell reads back, buffers of exactly the size that was computed for them, and
  \<open>edgevar\<close> as the expansion of rule variables with its cycle check.
\<close>

section \<open>Scopes\<close>

definition env_wf :: "environment \<Rightarrow> bool" where
  "env_wf v \<longleftrightarrow> tree_wf (ebindings v) \<and> tree_wf (erules v)"

text \<open>A parent is older than its children; the trees are well-formed.\<close>

definition envs_wf :: "samu \<Rightarrow> bool" where
  "envs_wf s \<longleftrightarrow> (\<forall>v < nenvs s. env_wf (envs_of s v) \<and>
     (case eparent (envs_of s v) of None \<Rightarrow> True | Some p \<Rightarrow> p < v))"

lemma envs_wfD:
  assumes "envs_wf s" and "v < nenvs s"
  shows "env_wf (envs_of s v)" and "eparent (envs_of s v) = Some p \<Longrightarrow> p < v \<and> p < nenvs s"
  using assms by (auto simp: envs_wf_def split: option.splits)

lemma empty_env_wf [simp]: "env_wf (empty_env\<lparr>eparent := p\<rparr>)" "env_wf empty_env"
  by (simp_all add: env_wf_def empty_env_def tree_dict.empty_inv)

lemma mkenv_wf [inv_intros]:
  assumes "envs_wf s" and "case parent of None \<Rightarrow> True | Some p \<Rightarrow> p < nenvs s"
  shows "envs_wf (snd (mkenv parent s))"
  using assms by (auto simp: envs_wf_def mkenv_def less_Suc_eq split: option.splits)

lemma envaddvar_wf [inv_intros]: "envs_wf s \<Longrightarrow> envs_wf (envaddvar env var val s)"
  by (auto simp: envs_wf_def envaddvar_def env_wf_def addvar_def treeinsert_wf split: option.splits)

lemma envaddrule_wf [inv_intros]:
  assumes "envs_wf s" and "envaddrule env r s = Inr s'" shows "envs_wf s'"
proof -
  let ?t = "treeinsert (erules (envs_of s env)) (rname (rules_of s r)) r"
  have s': "s' = upd_env env (\<lambda>v. v\<lparr>erules := fst ?t\<rparr>) s"
    using assms(2) by (auto simp: envaddrule_def split: prod.splits option.splits)
  have "tree_wf (fst ?t)" if "env < nenvs s"
    using envs_wfD(1) [OF assms(1) that]
    by (intro treeinsert_wf) (simp add: env_wf_def)
  then show ?thesis
    using assms(1) by (auto simp: s' envs_wf_def env_wf_def split: option.splits)
qed

text \<open>The environments that a lookup visits, innermost first.\<close>

fun env_chain_loop :: "nat \<Rightarrow> samu \<Rightarrow> nat \<Rightarrow> nat list" where
  "env_chain_loop 0 s env = []"
| "env_chain_loop (Suc fuel) s env =
     env # (case eparent (envs_of s env) of None \<Rightarrow> [] | Some p \<Rightarrow> env_chain_loop fuel s p)"

definition env_chain :: "samu \<Rightarrow> nat \<Rightarrow> nat list" where
  "env_chain s env = env_chain_loop (Suc env) s env"

lemma env_chain_loop_fuel:
  "envs_wf s \<Longrightarrow> env < nenvs s \<Longrightarrow> env < fuel \<Longrightarrow> env_chain_loop fuel s env = env_chain s env"
proof (induction fuel arbitrary: env rule: less_induct)
  case (less fuel)
  obtain f where f: "fuel = Suc f" using less.prems(3) by (cases fuel) auto
  show ?case
  proof (cases "eparent (envs_of s env)")
    case None
    then show ?thesis by (simp add: f env_chain_def)
  next
    case (Some p)
    note p = envs_wfD(2) [OF less.prems(1,2) Some]
    have "env_chain_loop f s p = env_chain s p"
      using less.IH [of f p] less.prems p f by simp
    moreover have "env_chain_loop env s p = env_chain s p"
    proof (cases "env < fuel - 1")
      case True
      then show ?thesis using less.IH [of env p] less.prems p f by simp
    next
      case False
      then show ?thesis using less.IH [of env p] less.prems p f by simp
    qed
    ultimately show ?thesis using Some f by (simp add: env_chain_def)
  qed
qed

lemma env_chain_rec:
  assumes "envs_wf s" and "env < nenvs s"
  shows "env_chain s env =
    env # (case eparent (envs_of s env) of None \<Rightarrow> [] | Some p \<Rightarrow> env_chain s p)"
proof (cases "eparent (envs_of s env)")
  case None
  then show ?thesis by (simp add: env_chain_def)
next
  case (Some p)
  then have "env_chain_loop env s p = env_chain s p"
    using envs_wfD(2) [OF assms Some] env_chain_loop_fuel [OF assms(1)] by blast
  then show ?thesis using Some by (simp add: env_chain_def [of s env])
qed

text \<open>The first hit along a list of scopes.\<close>

fun first_hit :: "(nat \<Rightarrow> 'v option) \<Rightarrow> nat list \<Rightarrow> 'v option" where
  "first_hit f [] = None"
| "first_hit f (v # vs) = (case f v of Some x \<Rightarrow> Some x | None \<Rightarrow> first_hit f vs)"

abbreviation binding :: "samu \<Rightarrow> string \<Rightarrow> nat \<Rightarrow> string option" where
  "binding s var \<equiv> \<lambda>v. treefind (ebindings (envs_of s v)) var"

lemma envvar_loop_chain: "envvar_loop fuel s env var = first_hit (binding s var) (env_chain_loop fuel s env)"
  by (induction fuel arbitrary: env) (auto split: option.splits)

lemma envvar_chain: "envvar s env var = first_hit (binding s var) (env_chain s env)"
  by (simp only: envvar_def env_chain_def envvar_loop_chain)

lemma envrule_loop_chain:
  "envrule_loop fuel s env name =
     first_hit (\<lambda>v. treefind (erules (envs_of s v)) name) (env_chain_loop fuel s env)"
  by (induction fuel arbitrary: env) (auto split: option.splits)

lemma envrule_chain:
  "envrule s env name = first_hit (\<lambda>v. treefind (erules (envs_of s v)) name) (env_chain s env)"
  by (simp only: envrule_def env_chain_def envrule_loop_chain)

lemma envaddvar_chain [simp]: "env_chain (envaddvar e var val s) env = env_chain s env"
proof -
  have "env_chain_loop fuel (envaddvar e var val s) env = env_chain_loop fuel s env" for fuel
    by (induction fuel arbitrary: env) (auto simp: envaddvar_def split: option.splits)
  then show ?thesis by (simp only: env_chain_def)
qed

lemma envaddvar_binding:
  assumes "tree_wf (ebindings (envs_of s e))"
  shows "binding (envaddvar e var val s) var' v =
    (if v = e \<and> var' = var then Some val else binding s var' v)"
  using treefind_treeinsert [OF assms, of var val] by (simp add: envaddvar_def addvar_def)

lemma first_hit_cong: "(\<And>v. v \<in> set vs \<Longrightarrow> f v = g v) \<Longrightarrow> first_hit f vs = first_hit g vs"
  by (induction vs) (auto split: option.splits)

lemma first_hit_update:
  "first_hit (\<lambda>v. if v = e then Some x else f v) vs =
     (if e \<in> set (takeWhile (\<lambda>v. v = e \<or> f v = None) vs) then Some x else first_hit f vs)"
  by (induction vs) (auto split: option.splits)

section \<open>Shell words\<close>

text \<open>
  How a POSIX shell reads a word made of quoted and literal parts: \<open>None\<close> where the shell
  would split, expand or stop.
\<close>

fun sh_read :: "bool \<Rightarrow> string \<Rightarrow> string option" where
  "sh_read quoted [] = (if quoted then None else Some [])"
| "sh_read quoted (c # cs) =
     (if quoted then
        (if c = quote_chr then sh_read False cs else map_option ((#) c) (sh_read True cs))
      else if c = quote_chr then sh_read True cs
      else if c = CHR 0x5C then
        (case cs of [] \<Rightarrow> None | d # ds \<Rightarrow> map_option ((#) d) (sh_read False ds))
      else if shell_safe c then map_option ((#) c) (sh_read False cs)
      else None)"

lemma sh_read_quote_body: "sh_read True (quote_body p @ quote_chr # r) = map_option ((@) p) (sh_read False r)"
proof (induction p)
  case Nil
  show ?case by (cases "sh_read False r") (simp_all add: quote_chr_def)
next
  case (Cons c p)
  then show ?case
    by (cases "sh_read False r") (simp_all add: quote_chr_def)
qed

lemma scan_quotes_spec:
  "scan_quotes p esc n = (esc \<or> (\<exists>c \<in> set p. \<not> shell_safe c), n + count_list p quote_chr)"
  by (induction p arbitrary: esc n) auto

lemma sh_read_safe: "\<forall>c \<in> set p. shell_safe c \<Longrightarrow> sh_read False p = Some p"
  by (induction p) (auto simp: shell_safe_def isalnum_def isalpha_def isdigit_def quote_chr_def)

lemma quote_body_length: "length (quote_body p) = length p + 3 * count_list p quote_chr"
  by (induction p) auto

lemma not_safe_quote [simp]: "\<not> shell_safe quote_chr"
  by (simp add: shell_safe_def isalnum_def isalpha_def isdigit_def quote_chr_def)

lemma join_with_length:
  "ps \<noteq> [] \<Longrightarrow> length (join_with sep ps) + 1 = sum_list (map length ps) + length ps"
  by (induction sep ps rule: join_with.induct) auto

lemma merge_length: "length (merge ps) = merge_size ps"
proof -
  have "length (concat (List.map_filter id ps)) = merge_size ps"
    by (induction ps) (auto simp: merge_size_def map_filter_simps split: option.splits)
  then show ?thesis by (simp add: merge_def)
qed

section \<open>Expansion without marks\<close>

text \<open>
  The value of a variable of an edge by plain recursion: \<open>None\<close> while the fuel is too small,
  which stays so for a variable that depends on itself.
\<close>

fun edgevar_ref :: "nat \<Rightarrow> samu \<Rightarrow> nat \<Rightarrow> bool \<Rightarrow> string \<Rightarrow> string option option" where
  "edgevar_ref 0 s e escape var = None"
| "edgevar_ref (Suc n) s e escape var =
     (case edge_own_var s e var escape of
        Some r \<Rightarrow> Some r
      | None \<Rightarrow>
        (case treefind (edge_rule_bindings s e) var of
           None \<Rightarrow> Some (edge_parent_var s e var)
         | Some str \<Rightarrow>
           map_option (\<lambda>ps. Some (merge ps))
             (those (map (\<lambda>p. case p of Var v \<Rightarrow> edgevar_ref n s e escape v | Lit l \<Rightarrow> Some (Some l)) str))))"

abbreviation part_ref :: "nat \<Rightarrow> samu \<Rightarrow> nat \<Rightarrow> bool \<Rightarrow> evalpart \<Rightarrow> string option option" where
  "part_ref n s e escape p \<equiv> (case p of Var v \<Rightarrow> edgevar_ref n s e escape v | Lit l \<Rightarrow> Some (Some l))"

lemma those_mono:
  "those (map f xs) = Some ys \<Longrightarrow> (\<And>x y. x \<in> set xs \<Longrightarrow> f x = Some y \<Longrightarrow> g x = Some y) \<Longrightarrow>
     those (map g xs) = Some ys"
  by (induction xs arbitrary: ys) (auto split: option.splits)

lemma edgevar_ref_Suc: "edgevar_ref n s e escape var = Some r \<Longrightarrow> edgevar_ref (Suc n) s e escape var = Some r"
proof (induction n arbitrary: var r)
  case (Suc n)
  show ?case
  proof (cases "edge_own_var s e var escape")
    case None
    show ?thesis
    proof (cases "treefind (edge_rule_bindings s e) var")
      case (Some str)
      obtain ps where ps: "those (map (part_ref n s e escape) str) = Some ps" "r = Some (merge ps)"
        using Suc.prems None Some by (auto simp del: edgevar_ref.simps(1) simp: map_option_eq_Some)
      have "those (map (part_ref (Suc n) s e escape) str) = Some ps"
        by (rule those_mono [OF ps(1)]) (auto split: evalpart.splits simp del: edgevar_ref.simps intro: Suc.IH)
      then show ?thesis
        using None Some ps(2) by (simp add: edgevar_ref.simps(2) [of "Suc n"] del: edgevar_ref.simps)
    qed (use Suc.prems None in simp)
  qed (use Suc.prems in simp)
qed simp

lemma edgevar_ref_mono:
  "n \<le> m \<Longrightarrow> edgevar_ref n s e escape var = Some r \<Longrightarrow> edgevar_ref m s e escape var = Some r"
  by (induction m rule: dec_induct) (auto intro: edgevar_ref_Suc simp del: edgevar_ref.simps)

lemma part_ref_mono: "n \<le> m \<Longrightarrow> part_ref n s e escape p = Some x \<Longrightarrow> part_ref m s e escape p = Some x"
  by (cases p) (auto intro: edgevar_ref_mono simp del: edgevar_ref.simps)

text \<open>What \<open>edgevar\<close> returns is the expansion.\<close>

lemma edgevar_marked_sound:
  "edgevar_marked s e escape cycle var = Inr r \<Longrightarrow> \<exists>n. edgevar_ref n s e escape var = Some r"
  "edgevar_parts s e escape cycle ps = Inr xs \<Longrightarrow>
     \<exists>n. those (map (part_ref n s e escape) ps) = Some xs"
proof (induction s e escape cycle var and s e escape cycle ps arbitrary: r and xs
    rule: edgevar_marked_edgevar_parts.induct)
  case (1 s e escape cycle var)
  show ?case
  proof (cases "edge_own_var s e var escape")
    case (Some x)
    then have "edgevar_ref 1 s e escape var = Some r" using "1.prems" by (simp add: edgevar_marked.simps)
    then show ?thesis by blast
  next
    case own: None
    show ?thesis
    proof (cases "treefind (edge_rule_bindings s e) var")
      case None
      then have "edgevar_ref 1 s e escape var = Some r"
        using "1.prems" own by (simp add: edgevar_marked.simps)
      then show ?thesis by blast
    next
      case (Some str)
      then obtain ps where ps: "var \<notin> cycle" "edgevar_parts s e escape (insert var cycle) str = Inr ps"
          "r = Some (merge ps)"
        using "1.prems" own by (auto simp: edgevar_marked.simps monad_simps split: if_splits)
      obtain n where "those (map (part_ref n s e escape) str) = Some ps"
        using "1.IH" [OF own Some ps(1,2)] by blast
      then have "edgevar_ref (Suc n) s e escape var = Some r" using own Some ps(3) by simp
      then show ?thesis by blast
    qed
  qed
next
  case (3 s e escape cycle p ps)
  obtain x ys where x: "(case p of Var v \<Rightarrow> edgevar_marked s e escape cycle v | Lit l \<Rightarrow> Inr (Some l)) = Inr x"
      and ys: "edgevar_parts s e escape cycle ps = Inr ys" and xs: "xs = x # ys"
    using "3.prems" by (auto simp: monad_simps)
  obtain n1 where n1: "part_ref n1 s e escape p = Some x"
  proof (cases p)
    case (Var v)
    then show ?thesis using "3.IH"(1) [OF Var] x that by auto
  next
    case (Lit l)
    then show ?thesis using x that [of 0] by simp
  qed
  obtain n2 where n2: "those (map (part_ref n2 s e escape) ps) = Some ys"
    using "3.IH"(2) [OF x ys] by blast
  have "those (map (part_ref (max n1 n2) s e escape) ps) = Some ys"
    by (rule those_mono [OF n2]) (rule part_ref_mono [of n2], simp_all)
  then have "those (map (part_ref (max n1 n2) s e escape) (p # ps)) = Some xs"
    using part_ref_mono [of n1 "max n1 n2", OF _ n1] xs by simp
  then show ?case by blast
qed simp

text \<open>
  The marks never get in the way of an expansion that is finite: every marked variable needs
  more fuel than the variable being expanded.
\<close>

lemma edgevar_marked_complete:
  assumes "edgevar_ref n s e escape var = Some r" and "\<forall>c \<in> cycle. edgevar_ref n s e escape c = None"
  shows "edgevar_marked s e escape cycle var = Inr r"
  using assms
proof (induction n arbitrary: var r cycle)
  case (Suc n)
  have below: "\<forall>c \<in> cycle. edgevar_ref n s e escape c = None"
    using Suc.prems(2) edgevar_ref_Suc by (metis not_Some_eq)
  show ?case
  proof (cases "edgevar_ref n s e escape var")
    case (Some r')
    then have "r' = r" using edgevar_ref_Suc [OF Some] Suc.prems(1) by simp
    then show ?thesis using Suc.IH [OF Some below] by simp
  next
    case least: None
    show ?thesis
    proof (cases "edge_own_var s e var escape")
      case (Some x)
      then show ?thesis using Suc.prems(1) by (simp add: edgevar_marked.simps)
    next
      case own: None
      show ?thesis
      proof (cases "treefind (edge_rule_bindings s e) var")
        case None
        then show ?thesis using Suc.prems(1) own by (simp add: edgevar_marked.simps)
      next
        case (Some str)
        obtain ps where ps: "those (map (part_ref n s e escape) str) = Some ps" "r = Some (merge ps)"
          using Suc.prems(1) own Some by (auto simp: map_option_eq_Some)
        have marks: "\<forall>c \<in> insert var cycle. edgevar_ref n s e escape c = None"
          using below least by blast
        have "those (map (part_ref n s e escape) qs) = Some xs \<Longrightarrow>
            edgevar_parts s e escape (insert var cycle) qs = Inr xs" for qs xs
        proof (induction qs arbitrary: xs)
          case (Cons q qs)
          obtain x ys where "part_ref n s e escape q = Some x" "xs = x # ys"
              "those (map (part_ref n s e escape) qs) = Some ys"
            using Cons.prems by (auto split: option.splits)
          then show ?case
            using Cons.IH Suc.IH [OF _ marks] by (cases q) auto
        qed simp
        then have "edgevar_parts s e escape (insert var cycle) str = Inr ps" using ps(1) by blast
        moreover have "var \<notin> cycle" using Suc.prems by auto
        ultimately show ?thesis using own Some ps(2) by (simp add: edgevar_marked.simps)
      qed
    qed
  qed
qed simp

lemma edgevar_marked_error:
  "edgevar_marked s e escape cycle var = Inl err \<Longrightarrow> \<exists>v. err = Fatal Var_cycle v"
  "edgevar_parts s e escape cycle ps = Inl err \<Longrightarrow> \<exists>v. err = Fatal Var_cycle v"
proof (induction s e escape cycle var and s e escape cycle ps rule: edgevar_marked_edgevar_parts.induct)
  case (1 s e escape cycle var)
  then show ?case
    by (auto simp: edgevar_marked.simps [of s e escape cycle var] monad_simps
        split: option.splits if_splits)
next
  case (3 s e escape cycle p ps)
  then show ?case by (auto simp: monad_simps split: evalpart.splits)
qed simp

section \<open>Properties\<close>

text \<open>
  scoping. After \<open>envaddvar\<close> a lookup from any environment gives the new value exactly if
  the variable is the one assigned and no environment between the reader and the assigned one
  has a binding of its own; every other lookup is as before. The invariant of the environments
  is kept.
\<close>

theorem envaddvar_scoped:
  assumes "envs_wf s" and "e < nenvs s"
  shows "envs_wf (envaddvar e var val s) \<and>
    envvar (envaddvar e var val s) env var' =
     (if var' = var \<and> e \<in> set (takeWhile (\<lambda>v. v = e \<or> binding s var v = None) (env_chain s env))
      then Some val else envvar s env var')"
proof -
  have wf: "tree_wf (ebindings (envs_of s e))" using envs_wfD(1) [OF assms] by (simp add: env_wf_def)
  note b = envaddvar_binding [OF wf, where var = var and val = val and var' = var']
  have "envvar (envaddvar e var val s) env var' =
      first_hit (\<lambda>v. if v = e \<and> var' = var then Some val else binding s var' v) (env_chain s env)"
    by (simp add: envvar_chain b)
  then show ?thesis
    using assms(1)
    by (cases "var' = var") (simp_all add: first_hit_update envvar_chain envaddvar_wf)
qed

definition sample_envs :: samu where
  "sample_envs = snd (mkenv (Some 0) (snd (mkenv None static_samu)))"

theorem envaddvar_scoped_witness:
  "envvar (envaddvar 0 ''cflags'' ''-O2'' sample_envs) 1 ''cflags'' = Some ''-O2''"
proof -
  have "envs_wf sample_envs" by (simp add: static_samu_def sample_envs_def envs_wf_def mkenv_def less_Suc_eq)
  moreover have "env_chain sample_envs 1 = [1, 0]"
    by (simp add: env_chain_def static_samu_def sample_envs_def mkenv_def empty_env_def)
  ultimately show ?thesis
    using envaddvar_scoped [of sample_envs 0 "''cflags''" "''-O2''" 1 "''cflags''"]
    by (simp add: static_samu_def sample_envs_def mkenv_def empty_env_def)
qed


text \<open>
  the strings that \<open>merge\<close> and \<open>pathlist\<close> fill have exactly the sizes that their callers
  have added up.
\<close>

theorem env_buffers_exact:
  "length (merge parts) = merge_size parts \<and>
   map_option length (pathlist s ns sep escape) =
     (if ns = [] then None else Some (pathlist_size s ns escape))"
proof (cases "ns = []")
  case False
  then have "length (join_with sep (map (node_string s escape) ns)) + 1 =
      sum_list (map (length \<circ> node_string s escape) ns) + length ns"
    using join_with_length [of "map (node_string s escape) ns" sep] by (simp add: comp_def)
  then show ?thesis using False by (simp add: merge_length pathlist_def pathlist_size_def)
qed (simp add: merge_length pathlist_def)

text \<open>
  C16: \<open>edgevar\<close>, which marks the rule's bindings it is expanding, returns a value exactly if the
  unmarked recursive expansion is finite, and the same one; otherwise it stops with the error
  that reports the cycle.
\<close>

theorem edgevar_expands:
  "(edgevar s e var escape = Inr r \<longleftrightarrow> (\<exists>n. edgevar_ref n s e escape var = Some r)) \<and>
   ((\<forall>n. edgevar_ref n s e escape var = None) \<longleftrightarrow>
      (\<exists>v. edgevar s e var escape = Inl (Fatal Var_cycle v)))"
proof -
  have iff: "edgevar s e var escape = Inr r \<longleftrightarrow> (\<exists>n. edgevar_ref n s e escape var = Some r)" for r
    using edgevar_marked_sound(1) edgevar_marked_complete [where cycle = "{}"]
    unfolding edgevar_def by blast
  have "(\<forall>n. edgevar_ref n s e escape var = None) \<longleftrightarrow> (\<forall>r. edgevar s e var escape \<noteq> Inr r)"
    using iff by (metis not_None_eq)
  also have "\<dots> \<longleftrightarrow> (\<exists>v. edgevar s e var escape = Inl (Fatal Var_cycle v))"
    using edgevar_marked_error(1) unfolding edgevar_def
    by (cases "edgevar_marked s e escape {} var") auto
  finally show ?thesis using iff by blast
qed

end
