(* ===== verification/Samu_Graph_Laws.thy ===== *)
theory Samu_Graph_Laws
  imports Samu_Graph Samu_Env_Laws
begin

text \<open>
  The invariant of the build graph of \<open>graph.c\<close>: nodes and edges name each other, and every
  operation that builds the graph keeps it so. While \<open>edgeadddeps\<close> runs, the new dependencies
  are already recorded as uses but are not yet inputs; they are the argument \<open>pend\<close>.
\<close>

section \<open>The invariant\<close>

text \<open>
  The fields of a node list exactly the edges that have it as an input (with multiplicity)
  and the edge that has it as an output; the number of uses pending for \<open>e\<close> and \<open>n\<close> is
  \<open>pend e n\<close>.
\<close>

definition linked :: "(nat \<Rightarrow> nat \<Rightarrow> nat) \<Rightarrow> samu \<Rightarrow> bool" where
  "linked pend s \<longleftrightarrow>
     (\<forall>n < nnodes s. \<forall>e. count_list (nuse (nodes_of s n)) e =
        (if e < nedges s then count_list (ein (edges_of s e)) n else 0) + pend e n) \<and>
     (\<forall>n < nnodes s. \<forall>e. ngen (nodes_of s n) = Some e \<longleftrightarrow> e < nedges s \<and> n \<in> set (eout (edges_of s e))) \<and>
     (\<forall>e < nedges s. set (ein (edges_of s e)) \<union> set (eout (edges_of s e)) \<subseteq> {..<nnodes s} \<and>
        distinct (eout (edges_of s e)))"

definition edge_envs_ok :: "samu \<Rightarrow> bool" where
  "edge_envs_ok s \<longleftrightarrow> envs_wf s \<and> rootenv s < nenvs s \<and>
     (\<forall>e < nedges s. eenv (edges_of s e) < nenvs s \<and> eparent (envs_of s (eenv (edges_of s e))) \<noteq> None) \<and>
     alledges s = rev [0..<nedges s]"

definition graph_wf :: "samu \<Rightarrow> bool" where
  "graph_wf s \<longleftrightarrow> nodes_wf s \<and> linked (\<lambda>_ _. 0) s \<and> edge_envs_ok s"

text \<open>The indices that split an edge's outputs and inputs into their kinds.\<close>

definition edge_idx :: "edge \<Rightarrow> bool" where
  "edge_idx x \<longleftrightarrow> eoutimpidx x \<le> length (eout x) \<and> einimpidx x \<le> einorderidx x \<and>
     einorderidx x \<le> length (ein x)"

definition explicit_ins :: "edge \<Rightarrow> nat list" where
  "explicit_ins x = take (einimpidx x) (ein x)"

definition implicit_ins :: "edge \<Rightarrow> nat list" where
  "implicit_ins x = take (einorderidx x - einimpidx x) (drop (einimpidx x) (ein x))"

definition order_ins :: "edge \<Rightarrow> nat list" where
  "order_ins x = drop (einorderidx x) (ein x)"

section \<open>Updates that leave the links alone\<close>

lemma linked_cong:
  assumes "linked pend s" and "nnodes s' = nnodes s" and "nedges s' = nedges s"
    and "\<And>n. n < nnodes s \<Longrightarrow> nuse (nodes_of s' n) = nuse (nodes_of s n) \<and> ngen (nodes_of s' n) = ngen (nodes_of s n)"
    and "\<And>e. e < nedges s \<Longrightarrow> ein (edges_of s' e) = ein (edges_of s e) \<and> eout (edges_of s' e) = eout (edges_of s e)"
  shows "linked pend s'"
  using assms unfolding linked_def by (intro conjI) (force, force, force)

lemma edge_envs_ok_cong:
  assumes "edge_envs_ok s" and "nedges s' = nedges s" and "alledges s' = alledges s"
    and "rootenv s' = rootenv s" and "nenvs s' = nenvs s" and "envs_of s' = envs_of s"
    and "\<And>e. e < nedges s \<Longrightarrow> eenv (edges_of s' e) = eenv (edges_of s e)"
  shows "edge_envs_ok s'"
  using assms unfolding edge_envs_ok_def envs_wf_def by simp

text \<open>An update of an edge's other fields.\<close>

lemma upd_edge_keeps [inv_intros]:
  assumes "\<And>x. ein (f x) = ein x" and "\<And>x. eout (f x) = eout x" and "\<And>x. eenv (f x) = eenv x"
  shows "linked pend s \<Longrightarrow> linked pend (upd_edge e f s)"
    and "edge_envs_ok s \<Longrightarrow> edge_envs_ok (upd_edge e f s)"
    and "nodes_wf s \<Longrightarrow> nodes_wf (upd_edge e f s)"
    and "graph_wf s \<Longrightarrow> graph_wf (upd_edge e f s)"
proof -
  show l: "linked pend s \<Longrightarrow> linked pend (upd_edge e f s)" for pend
    by (erule linked_cong) (simp_all add: assms)
  show o: "edge_envs_ok s \<Longrightarrow> edge_envs_ok (upd_edge e f s)"
    by (erule edge_envs_ok_cong) (simp_all add: assms)
  show n: "nodes_wf s \<Longrightarrow> nodes_wf (upd_edge e f s)"
    by (rule nodes_wf_cong) simp_all
  show "graph_wf s \<Longrightarrow> graph_wf (upd_edge e f s)" using l o n by (simp add: graph_wf_def)
qed

lemma upd_edge_nodes_wf [inv_intros]: "nodes_wf s \<Longrightarrow> nodes_wf (upd_edge e f s)"
  by (rule nodes_wf_cong) simp_all

lemma upd_node_nodes_wf [inv_intros]:
  "(\<And>x. npath (f x) = npath x) \<Longrightarrow> nodes_wf s \<Longrightarrow> nodes_wf (upd_node n f s)"
  by (rule nodes_wf_cong) simp_all

lemma upd_node_edge_envs_ok [inv_intros]: "edge_envs_ok s \<Longrightarrow> edge_envs_ok (upd_node n f s)"
  by (erule edge_envs_ok_cong) simp_all

section \<open>New edges, outputs and inputs\<close>

lemma mkedge_fields:
  assumes "mkedge parent s = (e, s')"
  shows "e = nedges s" "nedges s' = Suc (nedges s)" "alledges s' = nedges s # alledges s"
    "nodes_of s' = nodes_of s" "nnodes s' = nnodes s" "allnodes s' = allnodes s"
    "rootenv s' = rootenv s" "nenvs s' = Suc (nenvs s)" "rules_of s' = rules_of s"
    "envs_of s' = (envs_of s)(nenvs s := empty_env\<lparr>eparent := Some parent\<rparr>)"
    "\<And>d. d \<noteq> nedges s \<Longrightarrow> edges_of s' d = edges_of s d"
    "ein (edges_of s' (nedges s)) = []" "eout (edges_of s' (nedges s)) = []"
    "eenv (edges_of s' (nedges s)) = nenvs s"
    "nrules s' = nrules s" "pools_of s' = pools_of s" "npools s' = npools s" "pooltab s' = pooltab s"
    "deftarg s' = deftarg s"
  using assms by (auto simp: mkedge_def mkenv_def Let_def)

lemma mkedge_linked:
  assumes "mkedge parent s = (e, s')" and "linked pend s" shows "linked pend s'"
proof -
  note f = mkedge_fields [OF assms(1)]
  have "count_list (nuse (nodes_of s n)) d =
      (if d < Suc (nedges s) then count_list (ein (edges_of s' d)) n else 0) + pend d n"
    if "n < nnodes s" for n d
    using assms(2) that f by (cases "d = nedges s") (auto simp: linked_def)
  moreover have "ngen (nodes_of s n) = Some d \<longleftrightarrow> d < Suc (nedges s) \<and> n \<in> set (eout (edges_of s' d))"
    if "n < nnodes s" for n d
    using assms(2) that f by (cases "d = nedges s") (auto simp: linked_def)
  moreover have "set (ein (edges_of s' d)) \<union> set (eout (edges_of s' d)) \<subseteq> {..<nnodes s} \<and>
      distinct (eout (edges_of s' d))" if "d < Suc (nedges s)" for d
    using assms(2) that f by (cases "d = nedges s") (auto simp: linked_def less_Suc_eq)
  ultimately show ?thesis by (simp add: linked_def f)
qed

lemma mkedge_envs_ok:
  assumes "mkedge parent s = (e, s')" and "edge_envs_ok s" and "parent < nenvs s"
  shows "edge_envs_ok s'"
proof -
  note f = mkedge_fields [OF assms(1)]
  have "envs_wf s'" using assms(2,3)
    by (auto simp: edge_envs_ok_def envs_wf_def f less_Suc_eq split: option.splits)
  moreover have "eenv (edges_of s' d) < nenvs s' \<and> eparent (envs_of s' (eenv (edges_of s' d))) \<noteq> None"
    if "d < nedges s'" for d
    using assms(2) that f by (cases "d = nedges s") (auto simp: edge_envs_ok_def less_Suc_eq)
  ultimately show ?thesis using assms(2) f by (simp add: edge_envs_ok_def)
qed

lemma mkedge_nodes_wf: "mkedge parent s = (e, s') \<Longrightarrow> nodes_wf s \<Longrightarrow> nodes_wf s'"
  by (rule nodes_wf_cong [where s = s]) (simp_all add: mkedge_fields)

lemma add_out_linked:
  assumes "linked pend s" and "n < nnodes s" and "e < nedges s" and "ngen (nodes_of s n) = None"
  shows "linked pend (upd_edge e (\<lambda>x. x\<lparr>eout := eout x @ [n]\<rparr>) (upd_node n (\<lambda>x. x\<lparr>ngen := Some e\<rparr>) s))"
proof -
  have "n \<notin> set (eout (edges_of s d))" if "d < nedges s" for d
    using assms that by (auto simp: linked_def)
  then show ?thesis using assms unfolding linked_def by (intro conjI) (simp, force, force)
qed

lemma count_list_snoc [simp]: "count_list (xs @ [x]) y = count_list xs y + (if x = y then 1 else 0)"
  by (induction xs) auto

lemma nodeuse_linked:
  assumes "linked pend s" and "n < nnodes s"
  shows "linked (\<lambda>d m. pend d m + (if d = e \<and> m = n then 1 else 0)) (nodeuse n e s)"
  using assms by (auto simp: linked_def nodeuse_def)

lemma add_in_linked:
  assumes "linked (\<lambda>d m. 0) s" and "n < nnodes s" and "e < nedges s"
  shows "linked (\<lambda>d m. 0) (nodeuse n e (upd_edge e (\<lambda>x. x\<lparr>ein := ein x @ [n]\<rparr>) s))"
  using assms by (auto simp: linked_def nodeuse_def subset_iff)

text \<open>Interning a path keeps the whole invariant.\<close>

lemma mknode_graph_wf:
  assumes "graph_wf s" and "mknode path s = Inr (n, s')"
  shows "graph_wf s'" and "n < nnodes s'" and "npath (nodes_of s' n) = path"
    and "nnodes s \<le> nnodes s'" and "htab_lookup (allnodes s') = (htab_lookup (allnodes s))(path \<mapsto> n)"
proof -
  have wf: "nodes_wf s" using assms(1) by (simp add: graph_wf_def)
  have l: "linked (\<lambda>_ _. 0) s" using assms(1) by (simp add: graph_wf_def)
  have m: "nodes_wf s'" "n < nnodes s'" "npath (nodes_of s' n) = path" "nnodes s \<le> nnodes s'"
      "\<forall>m < nnodes s. nodes_of s' m = nodes_of s m"
      "n \<ge> nnodes s \<longrightarrow> n = nnodes s \<and> nnodes s' = Suc n \<and> nodes_of s' n = new_node path"
      "n < nnodes s \<longrightarrow> nnodes s' = nnodes s"
      "htab_lookup (allnodes s') = (htab_lookup (allnodes s))(path \<mapsto> n)"
    using mknode_ok [OF wf, of path] assms(2) by auto
  note fr = mknode_frame [OF assms(2)]
  have "linked (\<lambda>_ _. 0) s'"
  proof (cases "n < nnodes s")
    case True
    show ?thesis by (rule linked_cong [OF l]) (use True m(5,7) fr(1,2) in auto)
  next
    case False
    then have new: "n = nnodes s" "nnodes s' = Suc (nnodes s)" "nodes_of s' (nnodes s) = new_node path"
      using m(6) by auto
    have out: "nnodes s \<notin> set (ein (edges_of s e))" "nnodes s \<notin> set (eout (edges_of s e))"
      if "e < nedges s" for e
      using l that by (auto simp: linked_def)
    have uses: "count_list (nuse (nodes_of s' k)) e =
        (if e < nedges s' then count_list (ein (edges_of s' e)) k else 0) + 0" if "k < nnodes s'" for k e
      using l that m(5) out(1) by (cases "k = nnodes s")
        (auto simp: linked_def new fr new_node_def less_Suc_eq count_list_0_iff)
    have gens: "ngen (nodes_of s' k) = Some e \<longleftrightarrow> e < nedges s' \<and> k \<in> set (eout (edges_of s' e))"
      if "k < nnodes s'" for k e
      using l that m(5) out(2) by (cases "k = nnodes s")
        (auto simp: linked_def new fr new_node_def less_Suc_eq)
    have "set (ein (edges_of s' e)) \<union> set (eout (edges_of s' e)) \<subseteq> {..<nnodes s'} \<and>
        distinct (eout (edges_of s' e))" if "e < nedges s'" for e
      using l that by (force simp: linked_def new fr)
    then show ?thesis using uses gens by (simp add: linked_def)
  qed
  moreover have "edge_envs_ok s'"
    using assms(1) by (auto simp: graph_wf_def fr intro: edge_envs_ok_cong [of s])
  ultimately show "graph_wf s'" using m(1) by (simp add: graph_wf_def)
qed (use mknode_ok [of s path] assms in \<open>auto simp: graph_wf_def\<close>)

lemma graph_wf_out:
  assumes "graph_wf s" and "e < nedges s" and "n \<in> set (eout (edges_of s e))"
  shows "n < nnodes s" and "ngen (nodes_of s n) = Some e"
proof -
  have l: "linked (\<lambda>_ _. 0) s" using assms(1) by (simp add: graph_wf_def)
  then show n: "n < nnodes s" using assms(2,3) by (auto simp: linked_def)
  have "ngen (nodes_of s n) = Some e \<longleftrightarrow> e < nedges s \<and> n \<in> set (eout (edges_of s e))"
    using l n unfolding linked_def by blast
  then show "ngen (nodes_of s n) = Some e" using assms(2,3) by simp
qed

lemma graph_wf_in: "graph_wf s \<Longrightarrow> e < nedges s \<Longrightarrow> n \<in> set (ein (edges_of s e)) \<Longrightarrow> n < nnodes s"
  by (auto simp: graph_wf_def linked_def)

lemma graph_wf_alledges: "graph_wf s \<Longrightarrow> e \<in> set (alledges s) \<longleftrightarrow> e < nedges s"
  by (auto simp: graph_wf_def edge_envs_ok_def)

text \<open>An update of a node's fields other than its path and its edges.\<close>

lemma upd_node_graph_wf [inv_intros]:
  assumes "graph_wf s" and "\<And>x. npath (f x) = npath x" and "\<And>x. nuse (f x) = nuse x"
    and "\<And>x. ngen (f x) = ngen x"
  shows "graph_wf (upd_node n f s)"
proof -
  have "linked (\<lambda>_ _. 0) (upd_node n f s)"
    by (rule linked_cong [of _ s]) (use assms in \<open>auto simp: graph_wf_def\<close>)
  then show ?thesis
    using assms(1,2) by (auto simp: graph_wf_def intro: upd_node_nodes_wf upd_node_edge_envs_ok)
qed

section \<open>Dependencies added later\<close>

lemma phony_gen_ok:
  assumes "linked pend s" and "n < nnodes s" and "ngen (nodes_of s n) = None" and "mkphony n s = (p, s')"
  shows "linked pend (upd_node n (\<lambda>x. x\<lparr>ngen := Some p\<rparr>) s')"
proof -
  obtain t where t: "mkedge (rootenv s) s = (p, t)"
      "s' = upd_edge p (\<lambda>x. x\<lparr>erule := phonyrule, einimpidx := 0, einorderidx := 0,
                              eoutimpidx := 1, eout := [n]\<rparr>) t"
    using assms(4) by (auto simp: mkphony_def split: prod.splits)
  note f = mkedge_fields [OF t(1)]
  have "linked pend (upd_edge p (\<lambda>x. x\<lparr>eout := eout x @ [n]\<rparr>) (upd_node n (\<lambda>x. x\<lparr>ngen := Some p\<rparr>) t))"
    using mkedge_linked [OF t(1) assms(1)] assms(2,3) f by (intro add_out_linked) simp_all
  then show ?thesis
    by (rule linked_cong) (simp_all add: t(2) f)
qed

lemma edgeadddep_ok:
  fixes e :: nat
  assumes "linked pend s" and "n < nnodes s" and "edge_envs_ok s" and "nodes_wf s"
  defines "s' \<equiv> edgeadddep e n s"
  shows "linked (\<lambda>d m. pend d m + (if d = e \<and> m = n then 1 else 0)) s'"
    and "edge_envs_ok s'" and "nodes_wf s'" and "nnodes s' = nnodes s" and "nedges s \<le> nedges s'"
    and "\<forall>d < nedges s. edges_of s' d = edges_of s d"
    and "ngen (nodes_of s' n) \<noteq> None"
    and "\<forall>m. ngen (nodes_of s m) \<noteq> None \<longrightarrow> ngen (nodes_of s' m) = ngen (nodes_of s m)"
proof -
  obtain p t where t: "mkphony n s = (p, t)" by (cases "mkphony n s")
  obtain u where u: "mkedge (rootenv s) s = (p, u)"
      "t = upd_edge p (\<lambda>x. x\<lparr>erule := phonyrule, einimpidx := 0, einorderidx := 0,
                              eoutimpidx := 1, eout := [n]\<rparr>) u"
    using t by (auto simp: mkphony_def split: prod.splits)
  note f = mkedge_fields [OF u(1)]
  define s1 where "s1 = (if ngen (nodes_of s n) = None
      then upd_node n (\<lambda>x. x\<lparr>ngen := Some p\<rparr>) t else s)"
  have s': "s' = nodeuse n e s1" by (simp add: s'_def edgeadddep_def s1_def t)
  have l: "linked pend s1" using phony_gen_ok [OF assms(1,2) _ t] assms(1) by (simp add: s1_def)
  have rest: "nnodes s1 = nnodes s" "nedges s \<le> nedges s1" "ngen (nodes_of s1 n) \<noteq> None"
      "\<forall>d < nedges s. edges_of s1 d = edges_of s d"
      "\<forall>m. ngen (nodes_of s m) \<noteq> None \<longrightarrow> ngen (nodes_of s1 m) = ngen (nodes_of s m)"
    by (auto simp: s1_def u f)
  have "edge_envs_ok u" using mkedge_envs_ok [OF u(1) assms(3)] assms(3) by (simp add: edge_envs_ok_def)
  then have o: "edge_envs_ok s1" using assms(3) by (auto simp: s1_def u(2) intro!: upd_node_edge_envs_ok intro: edge_envs_ok_cong [of u])
  have w: "nodes_wf s1"
    using assms(4) mkedge_nodes_wf [OF u(1)] by (auto simp: s1_def u(2) intro!: inv_intros)
  show "linked (\<lambda>d m. pend d m + (if d = e \<and> m = n then 1 else 0)) s'"
    using nodeuse_linked [OF l, of n e] assms(2) rest(1) by (simp add: s')
  show "edge_envs_ok s'" using upd_node_edge_envs_ok [OF o] by (simp add: s' nodeuse_def)
  show "nodes_wf s'" using upd_node_nodes_wf [OF _ w] by (simp add: s' nodeuse_def)
  show "nnodes s' = nnodes s" "nedges s \<le> nedges s'" "\<forall>d < nedges s. edges_of s' d = edges_of s d"
      "ngen (nodes_of s' n) \<noteq> None"
      "\<forall>m. ngen (nodes_of s m) \<noteq> None \<longrightarrow> ngen (nodes_of s' m) = ngen (nodes_of s m)"
    using rest by (auto simp: s' nodeuse_def)
qed

lemma fold_edgeadddep_ok:
  fixes e :: nat
  assumes "linked pend s" and "set deps \<subseteq> {..<nnodes s}" and "edge_envs_ok s" and "nodes_wf s"
  defines "s' \<equiv> fold (edgeadddep e) deps s"
  shows "linked (\<lambda>d m. pend d m + (if d = e then count_list deps m else 0)) s' \<and>
    edge_envs_ok s' \<and> nodes_wf s' \<and> nnodes s' = nnodes s \<and> nedges s \<le> nedges s' \<and>
    (\<forall>d < nedges s. edges_of s' d = edges_of s d) \<and>
    (\<forall>n \<in> set deps. ngen (nodes_of s' n) \<noteq> None) \<and>
    (\<forall>m. ngen (nodes_of s m) \<noteq> None \<longrightarrow> ngen (nodes_of s' m) = ngen (nodes_of s m))"
  using assms(1-4) unfolding s'_def
proof (induction deps arbitrary: s pend)
  case (Cons n deps)
  have n: "n < nnodes s" "set deps \<subseteq> {..<nnodes s}" using Cons.prems(2) by auto
  note st = edgeadddep_ok [OF Cons.prems(1) n(1) Cons.prems(3,4), where e = e]
  have sub: "set deps \<subseteq> {..<nnodes (edgeadddep e n s)}" using n(2) st(4) by simp
  note IH = Cons.IH [OF st(1) sub st(2,3)]
  have eq: "(\<lambda>d m. pend d m + (if d = e \<and> m = n then 1 else 0) + (if d = e then count_list deps m else 0)) =
      (\<lambda>d m. pend d m + (if d = e then count_list (n # deps) m else 0))"
    by (auto simp: fun_eq_iff)
  show ?case using IH st unfolding eq by auto
next
  case Nil
  have "(\<lambda>d m. pend d m + (if d = e then count_list [] m else 0)) = pend" by (auto simp: fun_eq_iff)
  then show ?case using Nil by simp
qed

lemma count_list_insert: "count_list (take k xs @ deps @ drop k xs) n = count_list xs n + count_list deps n"
proof -
  have "count_list xs n = count_list (take k xs @ drop k xs) n" by simp
  then show ?thesis by (simp only: count_list_append)
qed

lemma insert_deps_fields:
  "eout (insert_deps deps x) = eout x" "eenv (insert_deps deps x) = eenv x"
  "count_list (ein (insert_deps deps x)) n = count_list (ein x) n + count_list deps n"
  using count_list_insert [of "einorderidx x" "ein x"] by (simp_all add: insert_deps_def)

lemma insert_deps_parts:
  assumes "edge_idx x"
  shows "edge_idx (insert_deps deps x)"
    and "explicit_ins (insert_deps deps x) = explicit_ins x"
    and "implicit_ins (insert_deps deps x) = implicit_ins x @ deps"
    and "order_ins (insert_deps deps x) = order_ins x"
proof -
  let ?a = "take (einorderidx x - einimpidx x) (drop (einimpidx x) (ein x))"
  let ?r = "drop (einorderidx x) (ein x)"
  have b: "einimpidx x \<le> einorderidx x" "einorderidx x \<le> length (ein x)"
    using assms by (simp_all add: edge_idx_def)
  have "drop (einimpidx x) (ein (insert_deps deps x)) = ?a @ deps @ ?r"
    using b by (simp add: insert_deps_def drop_take)
  moreover have "einorderidx (insert_deps deps x) - einimpidx x = length (?a @ deps)"
    using b by (simp add: insert_deps_def)
  ultimately show "implicit_ins (insert_deps deps x) = implicit_ins x @ deps"
    by (simp add: implicit_ins_def insert_deps_def)
qed (use assms in \<open>auto simp: edge_idx_def insert_deps_def explicit_ins_def order_ins_def\<close>)

section \<open>Properties\<close>

text \<open>
  C19: nodes are interned. On a well-formed graph \<open>mknode\<close> returns (its hash probe ends), the
  node it returns carries the path, the graph stays well-formed, afterwards \<open>nodeget\<close> finds
  that node, the node found before for the path is the same one, and no other path's answer
  changes.
\<close>

theorem mknode_interns:
  assumes "graph_wf s"
  shows "\<exists>n s'. mknode path s = Inr (n, s') \<and> graph_wf s' \<and> n < nnodes s' \<and> npath (nodes_of s' n) = path \<and>
    nodeget s' path = Inr (Some n) \<and>
    (\<forall>m. nodeget s path = Inr (Some m) \<longrightarrow> m = n \<and> nnodes s' = nnodes s) \<and>
    (\<forall>q. q \<noteq> path \<longrightarrow> nodeget s' q = nodeget s q)"
proof -
  have wf: "nodes_wf s" using assms by (simp add: graph_wf_def)
  obtain n s' where m: "mknode path s = Inr (n, s')" "nodes_wf s'"
      "n < nnodes s \<longrightarrow> nnodes s' = nnodes s \<and> htab_lookup (allnodes s) path = Some n"
      "htab_lookup (allnodes s') = (htab_lookup (allnodes s))(path \<mapsto> n)"
      "n \<ge> nnodes s \<longrightarrow> n = nnodes s"
    using mknode_ok [OF wf, of path] by blast
  note g = mknode_graph_wf [OF assms m(1)]
  have "m = n \<and> nnodes s' = nnodes s" if h: "htab_lookup (allnodes s) path = Some m" for m
  proof -
    have "m < nnodes s" using wf h by (simp add: nodes_wf_def)
    show ?thesis
    proof (cases "n < nnodes s")
      case True
      then show ?thesis using m(3) h by simp
    next
      case False
      obtain h' where "htab_lookup (allnodes s) path = None \<or> n = m"
        using mknode_cases [OF wf, of path] m(1) h by (metis Inr_inject Pair_inject option.inject)
      then show ?thesis using h \<open>m < nnodes s\<close> False by simp
    qed
  qed
  then show ?thesis using m g by (auto simp: nodeget_lookup [OF wf] nodeget_lookup [OF m(2)])
qed

definition empty_graph :: samu where
  "empty_graph = graphinit (sample_envs\<lparr>rootenv := 0\<rparr>)"

lemma empty_graph_wf: "graph_wf empty_graph"
proof -
  have "nodes_wf empty_graph" unfolding empty_graph_def by (rule graphinit_wf)
  moreover have "envs_wf empty_graph"
    by (simp add: empty_graph_def graphinit_def static_samu_def sample_envs_def envs_wf_def mkenv_def less_Suc_eq)
  ultimately show ?thesis
    by (simp add: graph_wf_def linked_def edge_envs_ok_def)
      (simp add: empty_graph_def graphinit_def static_samu_def sample_envs_def mkenv_def)
qed

text \<open>A graph with one edge and its output, for examples.\<close>

definition sample_graph :: samu where
  "sample_graph =
     (case mkedge 0 empty_graph of (e, s1) \<Rightarrow>
      case mknode ''a.o'' s1 of
        Inl _ \<Rightarrow> s1
      | Inr (n, s2) \<Rightarrow>
        upd_node n (\<lambda>x. x\<lparr>nhash := 5, nlogmtime := 7\<rparr>)
          (upd_edge e (\<lambda>x. x\<lparr>eout := eout x @ [n]\<rparr>) (upd_node n (\<lambda>x. x\<lparr>ngen := Some e\<rparr>) s2)))"

lemma sample_graph_ok:
  "graph_wf sample_graph" "nedges sample_graph = 1" "nnodes sample_graph = 1"
  "alledges sample_graph = [0]" "eout (edges_of sample_graph 0) = [0]"
  "ein (edges_of sample_graph 0) = []"
  "nodes_of sample_graph 0 = (new_node ''a.o'')\<lparr>ngen := Some 0, nhash := 5, nlogmtime := 7\<rparr>"
proof -
  obtain e t where t: "mkedge 0 empty_graph = (e, t)" by (cases "mkedge 0 empty_graph")
  note f = mkedge_fields [OF t]
  have inv: "linked (\<lambda>_ _. 0) empty_graph" "edge_envs_ok empty_graph" "nodes_wf empty_graph"
    using empty_graph_wf by (auto simp: graph_wf_def)
  have "0 < nenvs empty_graph" using inv(2) by (auto simp: edge_envs_ok_def)
  then have wt: "graph_wf t"
    using mkedge_linked [OF t inv(1)] mkedge_envs_ok [OF t inv(2)] mkedge_nodes_wf [OF t inv(3)]
    by (simp add: graph_wf_def)
  have z: "nnodes t = 0" "nedges t = 1" "e = 0" "alledges t = [0]"
    using f by (auto simp: empty_graph_def graphinit_def)
  obtain n s2 where n: "mknode ''a.o'' t = Inr (n, s2)" "n = 0" "nnodes s2 = 1" "nodes_of s2 0 = new_node ''a.o''"
    using mknode_ok [of t "''a.o''"] wt z(1) by (auto simp: graph_wf_def)
  note m = mknode_graph_wf [OF wt n(1)] and fr = mknode_frame [OF n(1)]
  have s: "sample_graph = upd_node 0 (\<lambda>x. x\<lparr>nhash := 5, nlogmtime := 7\<rparr>)
      (upd_edge 0 (\<lambda>x. x\<lparr>eout := eout x @ [0]\<rparr>) (upd_node 0 (\<lambda>x. x\<lparr>ngen := Some 0\<rparr>) s2))"
    using t n z(3) by (simp add: sample_graph_def)
  let ?u = "upd_edge 0 (\<lambda>x. x\<lparr>eout := eout x @ [0]\<rparr>) (upd_node 0 (\<lambda>x. x\<lparr>ngen := Some 0\<rparr>) s2)"
  have "linked (\<lambda>_ _. 0) ?u"
    by (rule add_out_linked) (use m(1) n(3,4) fr(2) z(2) in \<open>auto simp: graph_wf_def new_node_def\<close>)
  then have "graph_wf ?u"
    using m(1) by (auto simp: graph_wf_def intro!: upd_node_nodes_wf upd_edge_nodes_wf
        intro: edge_envs_ok_cong [of s2])
  then show "graph_wf sample_graph" unfolding s by (rule upd_node_graph_wf) simp_all
  have "ein (edges_of t 0) = []" "eout (edges_of t 0) = []"
    using f z(3) by auto
  then show "nedges sample_graph = 1" "nnodes sample_graph = 1" "alledges sample_graph = [0]"
    "eout (edges_of sample_graph 0) = [0]" "ein (edges_of sample_graph 0) = []"
    "nodes_of sample_graph 0 = (new_node ''a.o'')\<lparr>ngen := Some 0, nhash := 5, nlogmtime := 7\<rparr>"
    using n(2-4) fr z by (simp_all add: s)
qed

theorem mknode_interns_witness:
  "\<exists>n s'. mknode ''a.o'' empty_graph = Inr (n, s') \<and> nodeget s' ''a.o'' = Inr (Some n)"
  using mknode_interns [OF empty_graph_wf, of "''a.o''"] by blast

text \<open>
  C11: \<open>edgeadddeps\<close> adds the dependencies as implicit inputs, after the implicit inputs that
  were there; the explicit and the order-only inputs stay as they are, every dependency gets
  the edge among its uses and a generating edge (a phony one if it had none), and the links
  between nodes and edges stay consistent.
\<close>

theorem edgeadddeps_partition:
  assumes "graph_wf s" and "e < nedges s" and "set deps \<subseteq> {..<nnodes s}" and "edge_idx (edges_of s e)"
  shows "graph_wf (edgeadddeps e deps s) \<and> edge_idx (edges_of (edgeadddeps e deps s) e) \<and>
    explicit_ins (edges_of (edgeadddeps e deps s) e) = explicit_ins (edges_of s e) \<and>
    implicit_ins (edges_of (edgeadddeps e deps s) e) = implicit_ins (edges_of s e) @ deps \<and>
    order_ins (edges_of (edgeadddeps e deps s) e) = order_ins (edges_of s e) \<and>
    (\<forall>n \<in> set deps. ngen (nodes_of (edgeadddeps e deps s) n) \<noteq> None)"
proof -
  let ?f = "fold (edgeadddep e) deps s"
  have inv: "linked (\<lambda>_ _. 0) s" "edge_envs_ok s" "nodes_wf s" using assms(1) by (auto simp: graph_wf_def)
  note f = fold_edgeadddep_ok [OF inv(1) assms(3) inv(2,3), of e, simplified]
  have x: "edges_of ?f e = edges_of s e" "e < nedges ?f" using f assms(2) by auto
  note p = insert_deps_parts [OF assms(4)] and q = insert_deps_fields
  have o: "set (eout (edges_of s e)) \<subseteq> {..<nnodes s}" "distinct (eout (edges_of s e))"
    using inv(1) assms(2) by (auto simp: linked_def)
  have i: "set (ein (insert_deps deps (edges_of s e))) \<subseteq> {..<nnodes s}"
    using assms(2,3) inv(1) by (auto simp: insert_deps_def linked_def dest!: in_set_takeD in_set_dropD)
  have "linked (\<lambda>_ _. 0) (edgeadddeps e deps s)"
  proof -
    have "linked (\<lambda>d m. if d = e then count_list deps m else 0) ?f" "nnodes ?f = nnodes s" using f by auto
    then show ?thesis
      using x q(1,3) o i unfolding linked_def edgeadddeps_def by (intro conjI) (simp, simp, auto)
  qed
  moreover have "edge_envs_ok (edgeadddeps e deps s)"
    using f x q(2) by (auto simp: edgeadddeps_def intro: edge_envs_ok_cong [of ?f])
  moreover have "nodes_wf (edgeadddeps e deps s)"
    using f by (auto simp: edgeadddeps_def intro: upd_edge_nodes_wf)
  ultimately show ?thesis using p f x by (simp add: graph_wf_def edgeadddeps_def)
qed

theorem edgeadddeps_partition_witness:
  "\<exists>s n. npath (nodes_of s n) = ''a.h'' \<and> graph_wf (edgeadddeps 0 [n] s) \<and>
     implicit_ins (edges_of (edgeadddeps 0 [n] s) 0) = [n]"
proof -
  obtain e t where t: "mkedge 0 empty_graph = (e, t)" by (cases "mkedge 0 empty_graph")
  note f = mkedge_fields [OF t]
  have inv: "linked (\<lambda>_ _. 0) empty_graph" "edge_envs_ok empty_graph" "nodes_wf empty_graph"
    using empty_graph_wf by (auto simp: graph_wf_def)
  have "0 < nenvs empty_graph" using inv(2) by (auto simp: edge_envs_ok_def)
  then have "graph_wf t"
    using mkedge_linked [OF t inv(1)] mkedge_envs_ok [OF t inv(2)] mkedge_nodes_wf [OF t inv(3)]
    by (simp add: graph_wf_def)
  then obtain n s where n: "mknode ''a.h'' t = Inr (n, s)"
    using mknode_ok [of t "''a.h''"] by (auto simp: graph_wf_def)
  note m = mknode_graph_wf [OF \<open>graph_wf t\<close> n]
  have e: "e = 0" "nedges t = Suc 0" using f(1,2) by (auto simp: empty_graph_def graphinit_def)
  have s: "edges_of s = edges_of t" "nedges s = Suc 0" using mknode_frame(1,2) [OF n] e by auto
  have x: "edge_idx (edges_of s 0)" "implicit_ins (edges_of s 0) = []"
    using t by (auto simp: s e(1) edge_idx_def implicit_ins_def mkedge_def mkenv_def Let_def)
  show ?thesis
    using edgeadddeps_partition [OF m(1) _ _ x(1), of "[n]"] m(2,3) s(2) x(2) by auto
qed

end
