(* ===== verification/Samu_Parse_Laws.thy ===== *)
theory Samu_Parse_Laws
  imports Samu_Parse Samu_Graph_Laws
begin

text \<open>
  What holds of the state after a build file has been parsed: the graph is linked, every
  edge's rule is the phony rule or has a command, pools and default targets exist, and the
  indices that split an edge's paths are in bounds.
\<close>

section \<open>The invariant\<close>

definition rule_runs :: "samu \<Rightarrow> nat \<Rightarrow> bool" where
  "rule_runs st r \<longleftrightarrow> r < nrules st \<and>
     (r = phonyrule \<or> treefind (rbindings (rules_of st r)) ''command'' \<noteq> None)"

definition rules_ok :: "samu \<Rightarrow> bool" where
  "rules_ok st \<longleftrightarrow> (\<forall>r < nrules st. tree_wf (rbindings (rules_of st r))) \<and> phonyrule < nrules st \<and>
     (\<forall>v < nenvs st. \<forall>name r. treefind (erules (envs_of st v)) name = Some r \<longrightarrow> rule_runs st r) \<and>
     (\<forall>e < nedges st. rule_runs st (erule (edges_of st e)))"

definition pools_ok :: "samu \<Rightarrow> bool" where
  "pools_ok st \<longleftrightarrow> tree_wf (pooltab st) \<and>
     (\<forall>name p. treefind (pooltab st) name = Some p \<longrightarrow> p < npools st) \<and>
     (\<forall>e < nedges st. \<forall>p. epool (edges_of st e) = Some p \<longrightarrow> p < npools st)"

definition depths_ok :: "samu \<Rightarrow> bool" where
  "depths_ok st \<longleftrightarrow> (\<forall>p < npools st. pmaxjobs (pools_of st p) \<noteq> 0)"

text \<open>
  The indices; the edge \<open>e\<close> may still get \<open>ro\<close> outputs and \<open>ri\<close> inputs.
\<close>

definition idx_ok :: "nat \<Rightarrow> nat \<Rightarrow> nat \<Rightarrow> samu \<Rightarrow> bool" where
  "idx_ok e ro ri st \<longleftrightarrow> (\<forall>d < nedges st. d \<noteq> e \<longrightarrow> edge_idx (edges_of st d)) \<and>
     (e < nedges st \<longrightarrow>
        eoutimpidx (edges_of st e) \<le> length (eout (edges_of st e)) + ro \<and>
        einimpidx (edges_of st e) \<le> einorderidx (edges_of st e) \<and>
        einorderidx (edges_of st e) \<le> length (ein (edges_of st e)) + ri)"

lemma idx_ok_done: "idx_ok e 0 0 st \<longleftrightarrow> (\<forall>d < nedges st. edge_idx (edges_of st d))"
  by (auto simp: idx_ok_def edge_idx_def)

definition parse_inv :: "nat \<Rightarrow> nat \<Rightarrow> nat \<Rightarrow> samu \<Rightarrow> bool" where
  "parse_inv e ro ri st \<longleftrightarrow> graph_wf st \<and> rules_ok st \<and> pools_ok st \<and> idx_ok e ro ri st \<and>
     set (deftarg st) \<subseteq> {..<nnodes st}"

definition parse_wf :: "samu \<Rightarrow> bool" where
  "parse_wf st \<longleftrightarrow> parse_inv 0 0 0 st \<and> depths_ok st"

lemma parse_inv_done: "parse_inv e 0 0 st \<longleftrightarrow> parse_inv 0 0 0 st"
  by (simp add: parse_inv_def idx_ok_done)

lemma parse_invD:
  assumes "parse_inv e ro ri st"
  shows "graph_wf st" and "nodes_wf st" and "linked (\<lambda>_ _. 0) st" and "edge_envs_ok st"
    and "envs_wf st" and "rootenv st < nenvs st" and "rules_ok st" and "pools_ok st"
    and "idx_ok e ro ri st" and "set (deftarg st) \<subseteq> {..<nnodes st}"
  using assms by (auto simp: parse_inv_def graph_wf_def edge_envs_ok_def)

section \<open>What the helpers keep\<close>

text \<open>An edge's environment: new bindings only.\<close>

lemma envaddvar_fields [simp]:
  "nodes_of (envaddvar v var val st) = nodes_of st" "nnodes (envaddvar v var val st) = nnodes st"
  "edges_of (envaddvar v var val st) = edges_of st" "nedges (envaddvar v var val st) = nedges st"
  "nenvs (envaddvar v var val st) = nenvs st" "rules_of (envaddvar v var val st) = rules_of st"
  "nrules (envaddvar v var val st) = nrules st" "pools_of (envaddvar v var val st) = pools_of st"
  "npools (envaddvar v var val st) = npools st" "pooltab (envaddvar v var val st) = pooltab st"
  "deftarg (envaddvar v var val st) = deftarg st" "allnodes (envaddvar v var val st) = allnodes st"
  "alledges (envaddvar v var val st) = alledges st" "rootenv (envaddvar v var val st) = rootenv st"
  "eparent (envs_of (envaddvar v var val st) u) = eparent (envs_of st u)"
  "erules (envs_of (envaddvar v var val st) u) = erules (envs_of st u)"
  by (simp_all add: envaddvar_def)

lemma rule_runs_cong:
  "rule_runs st r \<Longrightarrow> rules_of st' = rules_of st \<Longrightarrow> nrules st \<le> nrules st' \<Longrightarrow> rule_runs st' r"
  by (auto simp: rule_runs_def)

lemma envaddvar_inv [inv_intros]:
  assumes "parse_inv e ro ri st" shows "parse_inv e ro ri (envaddvar v var val st)"
proof -
  note d = parse_invD [OF assms]
  have "nodes_wf (envaddvar v var val st)" by (rule nodes_wf_cong [OF _ _ _ d(2)]) simp_all
  moreover have "linked (\<lambda>_ _. 0) (envaddvar v var val st)" by (rule linked_cong [OF d(3)]) simp_all
  moreover have "edge_envs_ok (envaddvar v var val st)"
    using d(4) envaddvar_wf [of st] by (simp add: edge_envs_ok_def)
  moreover have "rules_ok (envaddvar v var val st)"
    using d(7) by (simp add: rules_ok_def rule_runs_def)
  ultimately show ?thesis
    using d(8-10) by (simp add: parse_inv_def graph_wf_def pools_ok_def idx_ok_def)
qed

lemma mkenv_inv [inv_intros]:
  assumes "parse_inv e ro ri st" and "p < nenvs st" and "mkenv (Some p) st = (v, st')"
  shows "parse_inv e ro ri st'" and "v < nenvs st'" and "nenvs st' = Suc (nenvs st)"
    and "pools_of st' = pools_of st" and "npools st' = npools st"
proof -
  note d = parse_invD [OF assms(1)]
  have st': "v = nenvs st" "st' = st\<lparr>envs_of := (envs_of st)(nenvs st := empty_env\<lparr>eparent := Some p\<rparr>),
      nenvs := nenvs st + 1\<rparr>"
    using assms(3) by (auto simp: mkenv_def)
  have "envs_wf st'" using mkenv_wf [OF d(5), of "Some p"] assms(2,3) by simp
  then have "edge_envs_ok st'" using d(4) by (auto simp: edge_envs_ok_def st')
  moreover have "nodes_wf st'" by (rule nodes_wf_cong [OF _ _ _ d(2)]) (simp_all add: st')
  moreover have "linked (\<lambda>_ _. 0) st'" by (rule linked_cong [OF d(3)]) (simp_all add: st')
  moreover have "rules_ok st'"
    using d(7) by (auto simp: rules_ok_def rule_runs_def st' empty_env_def less_Suc_eq)
  ultimately show "parse_inv e ro ri st'"
    using d(8-10) by (simp add: parse_inv_def graph_wf_def pools_ok_def idx_ok_def st')
qed (use assms(3) in \<open>auto simp: mkenv_def\<close>)

lemma mkedge_inv:
  assumes "parse_inv 0 0 0 st" and "p < nenvs st" and "mkedge p st = (e, st')"
  shows "parse_inv e 0 0 st'" and "e < nedges st'" and "eenv (edges_of st' e) < nenvs st'"
    and "nenvs st' = Suc (nenvs st)" and "eout (edges_of st' e) = []" and "ein (edges_of st' e) = []"
    and "depths_ok st' = depths_ok st"
proof -
  note d = parse_invD [OF assms(1)]
  note f = mkedge_fields [OF assms(3)]
  have new: "erule (edges_of st' e) = 0" "epool (edges_of st' e) = None" "edge_idx (edges_of st' e)"
    using assms(3) by (auto simp: mkedge_def mkenv_def Let_def edge_idx_def)
  have "graph_wf st'"
    using mkedge_nodes_wf [OF assms(3) d(2)] mkedge_linked [OF assms(3) d(3)]
      mkedge_envs_ok [OF assms(3) d(4) assms(2)] by (simp add: graph_wf_def)
  moreover have "rules_ok st'"
  proof -
    have "rule_runs st' (erule (edges_of st' k))" if "k < nedges st'" for k
      using that d(7) new f by (cases "k = nedges st") (auto simp: rules_ok_def rule_runs_def phonyrule_def)
    then show ?thesis
      using d(7) f by (auto simp: rules_ok_def rule_runs_def empty_env_def less_Suc_eq)
  qed
  moreover have "pools_ok st'"
  proof -
    have "q < npools st'" if "k < nedges st'" "epool (edges_of st' k) = Some q" for k q
      using that d(8) new f by (cases "k = nedges st") (auto simp: pools_ok_def less_Suc_eq)
    then show ?thesis using d(8) f by (auto simp: pools_ok_def)
  qed
  moreover have "idx_ok e 0 0 st'"
    using d(9) new f by (auto simp: idx_ok_done less_Suc_eq)
  ultimately show "parse_inv e 0 0 st'"
    using d(10) f by (simp add: parse_inv_def)
qed (use mkedge_fields [OF assms(3)] in \<open>auto simp: depths_ok_def\<close>)

lemma mknode_inv:
  assumes "parse_inv e ro ri st" and "mknode path st = Inr (n, st')"
  shows "parse_inv e ro ri st'" and "n < nnodes st'" and "nenvs st' = nenvs st"
    and "edges_of st' = edges_of st" and "nedges st' = nedges st" and "depths_ok st' = depths_ok st"
proof -
  note d = parse_invD [OF assms(1)]
  note fr = mknode_frame [OF assms(2)] and m = mknode_graph_wf [OF d(1) assms(2)]
  show "parse_inv e ro ri st'"
    using m(1,4) d(7-10) fr by (auto simp: parse_inv_def rules_ok_def rule_runs_def pools_ok_def idx_ok_def)
  show "n < nnodes st'" "nenvs st' = nenvs st" "edges_of st' = edges_of st" "nedges st' = nedges st"
      "depths_ok st' = depths_ok st"
    using m(2) fr by (simp_all add: depths_ok_def)
qed

lemma edge_node_inv:
  assumes "parse_inv e ro ri st" and "edge_node k path st = Inr (n, st')"
  shows "parse_inv e ro ri st'" and "n < nnodes st'" and "nenvs st' = nenvs st"
    and "edges_of st' = edges_of st" and "nedges st' = nedges st" and "depths_ok st' = depths_ok st"
  using assms mknode_inv [OF assms(1)] by (auto simp: edge_node_def monad_simps)

text \<open>An update of an edge's fields other than its ends and its environment.\<close>

lemma upd_edge_inv:
  assumes "parse_inv e ro ri st"
    and "\<And>x. ein (f x) = ein x" "\<And>x. eout (f x) = eout x" "\<And>x. eenv (f x) = eenv x"
    and "rule_runs st (erule (f (edges_of st e)))"
    and "\<And>p. epool (f (edges_of st e)) = Some p \<Longrightarrow> p < npools st"
    and "idx_ok e ro' ri' (upd_edge e f st)"
  shows "parse_inv e ro' ri' (upd_edge e f st)"
proof -
  note d = parse_invD [OF assms(1)]
  have "graph_wf (upd_edge e f st)" using upd_edge_keeps(4) [OF assms(2-4) d(1)] .
  then show ?thesis
    using d(7,8,10) assms(5-7) by (auto simp: parse_inv_def rules_ok_def rule_runs_def pools_ok_def)
qed

lemma add_out_inv:
  assumes "parse_inv e (Suc ro) ri st" and "n < nnodes st" and "e < nedges st"
    and "ngen (nodes_of st n) = None"
  shows "parse_inv e ro ri
    (upd_edge e (\<lambda>x. x\<lparr>eout := eout x @ [n]\<rparr>) (upd_node n (\<lambda>x. x\<lparr>ngen := Some e\<rparr>) st))"
    (is "parse_inv e ro ri ?t")
proof -
  note d = parse_invD [OF assms(1)]
  have "graph_wf ?t"
    using add_out_linked [OF d(3) assms(2,3,4)] d(2,4)
    by (auto simp: graph_wf_def intro!: upd_node_nodes_wf upd_edge_nodes_wf intro: edge_envs_ok_cong [of st])
  then show ?thesis
    using d(7-10) by (auto simp: parse_inv_def rules_ok_def rule_runs_def pools_ok_def idx_ok_def)
qed

lemma add_in_inv:
  assumes "parse_inv e 0 (Suc ri) st" and "n < nnodes st" and "e < nedges st"
  shows "parse_inv e 0 ri (nodeuse n e (upd_edge e (\<lambda>x. x\<lparr>ein := ein x @ [n]\<rparr>) st))"
    (is "parse_inv e 0 ri ?t")
proof -
  note d = parse_invD [OF assms(1)]
  have "graph_wf ?t"
    using add_in_linked [OF d(3) assms(2,3)] d(2,4)
    by (auto simp: graph_wf_def nodeuse_def intro!: upd_node_nodes_wf upd_edge_nodes_wf
        intro: edge_envs_ok_cong [of st])
  then show ?thesis
    using d(7-10) by (auto simp: parse_inv_def rules_ok_def rule_runs_def pools_ok_def idx_ok_def nodeuse_def)
qed

section \<open>Edges\<close>

text \<open>The invariant, the edge under construction, and what does not change in its loops.\<close>

definition in_edge :: "nat \<Rightarrow> nat \<Rightarrow> nat \<Rightarrow> samu \<Rightarrow> samu \<Rightarrow> bool" where
  "in_edge e ro ri st0 st \<longleftrightarrow> parse_inv e ro ri st \<and> e < nedges st \<and> nenvs st = nenvs st0 \<and>
     depths_ok st = depths_ok st0"

lemma parse_outs_inv:
  "parse_outs w e paths st = Inr st' \<Longrightarrow> in_edge e (length paths) ri st0 st \<Longrightarrow> in_edge e 0 ri st0 st'"
proof (induction paths arbitrary: st)
  case (Cons path paths)
  obtain n st1 where n: "edge_node e path st = Inr (n, st1)"
      and rest: "(if ngen (nodes_of st1 n) \<noteq> None then
         if \<not> w then Inl (Fatal Multiple_rules (npath (nodes_of st1 n)))
         else parse_outs w e paths
           (if length (eout (edges_of st1 e)) < eoutimpidx (edges_of st1 e)
            then upd_edge e (\<lambda>x. x\<lparr>eoutimpidx := eoutimpidx x - 1\<rparr>) st1 else st1)
       else parse_outs w e paths
         (upd_edge e (\<lambda>x. x\<lparr>eout := eout x @ [n]\<rparr>) (upd_node n (\<lambda>x. x\<lparr>ngen := Some e\<rparr>) st1))) = Inr st'"
    using Cons.prems(1) by (auto simp: monad_simps)
  have inv: "parse_inv e (Suc (length paths)) ri st"
    using Cons.prems(2) by (simp add: in_edge_def)
  note m = edge_node_inv [OF inv n]
  have e: "e < nedges st1" "nenvs st1 = nenvs st0" "depths_ok st1 = depths_ok st0"
    using Cons.prems(2) m by (simp_all add: in_edge_def)
  show ?case
  proof (cases "ngen (nodes_of st1 n)")
    case None
    have "in_edge e (length paths) ri st0 (upd_edge e (\<lambda>x. x\<lparr>eout := eout x @ [n]\<rparr>)
        (upd_node n (\<lambda>x. x\<lparr>ngen := Some e\<rparr>) st1))"
      using add_out_inv [OF m(1,2) e(1) None] e by (simp add: in_edge_def depths_ok_def)
    then show ?thesis using Cons.IH rest None by simp
  next
    case (Some g)
    let ?t = "if length (eout (edges_of st1 e)) < eoutimpidx (edges_of st1 e)
            then upd_edge e (\<lambda>x. x\<lparr>eoutimpidx := eoutimpidx x - 1\<rparr>) st1 else st1"
    note d = parse_invD [OF m(1)]
    have "parse_inv e (length paths) ri ?t"
    proof (cases "length (eout (edges_of st1 e)) < eoutimpidx (edges_of st1 e)")
      case True
      have "parse_inv e (length paths) ri (upd_edge e (\<lambda>x. x\<lparr>eoutimpidx := eoutimpidx x - 1\<rparr>) st1)"
        by (rule upd_edge_inv [OF m(1)])
          (use d(7-9) e(1) in \<open>auto simp: rules_ok_def pools_ok_def idx_ok_def\<close>)
      then show ?thesis using True by simp
    next
      case False
      then show ?thesis using m(1) by (auto simp: parse_inv_def idx_ok_def)
    qed
    then have "in_edge e (length paths) ri st0 ?t" using e by (simp add: in_edge_def depths_ok_def)
    then show ?thesis using Cons.IH rest Some by (auto split: if_splits)
  qed
qed simp

lemma parse_ins_inv:
  "parse_ins e paths st = Inr st' \<Longrightarrow> in_edge e 0 (length paths) st0 st \<Longrightarrow> in_edge e 0 0 st0 st'"
proof (induction paths arbitrary: st)
  case (Cons path paths)
  obtain n st1 where n: "edge_node e path st = Inr (n, st1)"
      and rest: "parse_ins e paths (nodeuse n e (upd_edge e (\<lambda>x. x\<lparr>ein := ein x @ [n]\<rparr>) st1)) = Inr st'"
    using Cons.prems(1) by (auto simp: monad_simps)
  have inv: "parse_inv e 0 (Suc (length paths)) st" using Cons.prems(2) by (simp add: in_edge_def)
  note m = edge_node_inv [OF inv n]
  have "e < nedges st1" using Cons.prems(2) m by (simp add: in_edge_def)
  then have "in_edge e 0 (length paths) st0 (nodeuse n e (upd_edge e (\<lambda>x. x\<lparr>ein := ein x @ [n]\<rparr>) st1))"
    using add_in_inv [OF m(1,2)] Cons.prems(2) m by (simp add: in_edge_def nodeuse_def depths_ok_def)
  then show ?case using Cons.IH rest by blast
qed simp

lemma edge_set_pool_inv:
  assumes "edge_set_pool e st = Inr st'" and "in_edge e 0 0 st0 st"
  shows "in_edge e 0 0 st0 st'"
proof -
  have inv: "parse_inv e 0 0 st" "e < nedges st" using assms(2) by (auto simp: in_edge_def)
  note d = parse_invD [OF inv(1)]
  obtain v where v: "edgevar st e ''pool'' True = Inr v"
      "(case v of None \<Rightarrow> Inr st | Some name \<Rightarrow>
         bindE (poolget st name) (\<lambda>p. Inr (upd_edge e (\<lambda>x. x\<lparr>epool := Some p\<rparr>) st))) = Inr st'"
    using assms(1) by (auto simp: edge_set_pool_def monad_simps)
  show ?thesis
  proof (cases v)
    case None
    then show ?thesis using v(2) assms(2) by simp
  next
    case (Some name)
    then obtain p where p: "treefind (pooltab st) name = Some p"
        "st' = upd_edge e (\<lambda>x. x\<lparr>epool := Some p\<rparr>) st"
      using v(2) by (auto simp: monad_simps poolget_def split: option.splits)
    have "parse_inv e 0 0 st'"
      unfolding p(2) by (rule upd_edge_inv [OF inv(1)])
        (use d(7-9) p(1) inv(2) in \<open>auto simp: rules_ok_def pools_ok_def idx_ok_def edge_idx_def\<close>)
    then show ?thesis using assms(2) by (simp add: in_edge_def p(2) depths_ok_def)
  qed
qed

lemma edge_bindings_inv:
  "edge_bindings env own s st = Inr (s', st') \<Longrightarrow> in_edge e ro ri st0 st \<Longrightarrow> in_edge e ro ri st0 st'"
proof (induction "length (sin s)" arbitrary: s st rule: less_induct)
  case less
  obtain b s1 where b: "scan_binding s = Inr (b, s1)"
    using less.prems(1) by (auto simp: edge_bindings.simps [of env own s st] monad_simps)
  note turn = less.prems(1) [unfolded edge_bindings.simps [of env own s st] b bindE.simps prod.case]
  show ?case
  proof (cases b)
    case (Some x)
    obtain var str where x: "x = (var, str)" by (cases x)
    have "length (sin s1) < length (sin s)" using scan_binding_facts(2) [OF b] Some by simp
    moreover have "in_edge e ro ri st0 (envaddvar own var (enveval st env str) st)"
      using less.prems(2) by (auto simp: in_edge_def depths_ok_def intro: envaddvar_inv)
    ultimately show ?thesis using less.hyps turn Some x by simp
  qed (use turn less.prems in simp)
qed

lemma scanpaths_extends: "scanpaths s ps = Inr (ps', s') \<Longrightarrow> length ps \<le> length ps' \<and> take (length ps) ps' = ps"
proof (induction "length (sin s)" arbitrary: s ps rule: less_induct)
  case less
  obtain str s1 where t: "scanstring s True = Inr (str, s1)"
      "if str = [] then ps' = ps \<and> s' = s1 else scanpaths s1 (ps @ [str]) = Inr (ps', s')"
    using less.prems by (auto simp: scanpaths.simps [of s ps] monad_simps split: if_splits)
  show ?case
  proof (cases "str = []")
    case False
    then have "length (ps @ [str]) \<le> length ps' \<and> take (length (ps @ [str])) ps' = ps @ [str]"
      using t less.hyps [OF scanstring_facts(2) [OF t(1)], of "ps @ [str]"] by simp
    then show ?thesis by (auto dest: arg_cong [where f = "take (length ps)"] simp: min_def)
  qed (use t in simp)
qed

lemma scan_header_idx:
  assumes "scan_header s env st = Inr ((r, h), s')"
  shows "houtimpidx h \<le> hnout h" and "hinimpidx h \<le> hinorderidx h"
    and "hinorderidx h \<le> length (hpaths h) - hnout h" and "hnout h \<le> length (hpaths h)"
    and "0 < hnout h"
    and "\<exists>name. envrule st env name = Some r"
proof -
  obtain outimp outs s1 s2 name s3 inimp inorder ps s4 where
      o: "scan_outs s = Inr ((outimp, outs), s1)" and r: "envrule st env name = Some r"
      and i: "scan_ins s3 outs = Inr ((inimp, inorder, ps), s4)"
      and h: "h = \<lparr>hrule = name, hpaths = ps, houtimpidx = outimp, hnout = length outs,
                 hinimpidx = inimp - length outs, hinorderidx = inorder - length outs\<rparr>"
    using assms by (auto simp: scan_header_def monad_simps split: option.splits)
  have a: "outimp \<le> length outs \<and> outs \<noteq> []"
    using o scanpaths_extends by (fastforce simp: scan_outs_def monad_simps scanerror_def split: if_splits)
  have b: "length outs \<le> inimp \<and> inimp \<le> inorder \<and> inorder \<le> length ps"
    using i scanpaths_extends by (fastforce simp: scan_ins_def monad_simps split: if_splits)
  show "houtimpidx h \<le> hnout h" "hinimpidx h \<le> hinorderidx h"
      "hinorderidx h \<le> length (hpaths h) - hnout h" "hnout h \<le> length (hpaths h)" "0 < hnout h"
      "\<exists>name. envrule st env name = Some r"
    using a b r by (auto simp: h)
qed

lemma envrule_runs:
  assumes "rules_ok st" and "envs_wf st" and "env < nenvs st" and "envrule st env name = Some r"
  shows "rule_runs st r"
proof -
  have "envrule_loop fuel st v name = Some r \<Longrightarrow> v < nenvs st \<Longrightarrow> rule_runs st r" for fuel v
  proof (induction fuel arbitrary: v)
    case (Suc fuel)
    then show ?case
      using assms(1) envs_wfD(2) [OF assms(2) Suc.prems(2)]
      by (auto simp: rules_ok_def split: option.splits)
  qed simp
  then show ?thesis using assms(3,4) by (auto simp: envrule_def simp del: envrule_loop.simps)
qed

text \<open>What a statement does: it keeps the invariant, and no environment goes away.\<close>

definition steps_to :: "samu \<Rightarrow> samu \<Rightarrow> bool" where
  "steps_to st st' \<longleftrightarrow> parse_wf st' \<and> nenvs st \<le> nenvs st'"

lemma parseedge_inv:
  assumes "parse_wf st" and "env < nenvs st" and "parseedge w s env st = Inr (s', st')"
  shows "steps_to st st'"
proof -
  obtain e st1 where e: "mkedge env st = (e, st1)" by (cases "mkedge env st")
  obtain r h s1 st2 st3 st4 where
      h: "scan_header s env st1 = Inr ((r, h), s1)" and
      b: "edge_bindings env (eenv (edges_of st1 e)) s1 (upd_edge e (set_header r h) st1) = Inr (s', st2)" and
      o: "parse_outs w e (take (hnout h) (hpaths h)) st2 = Inr st3" and
      i: "parse_ins e (drop (hnout h) (hpaths h)) st3 = Inr st4" and
      p: "edge_set_pool e st4 = Inr st'"
    using assms(3) by (auto simp: parseedge_def e monad_simps)
  have inv: "parse_inv 0 0 0 st" using assms(1) by (simp add: parse_wf_def)
  note m = mkedge_inv [OF inv assms(2) e] and x = scan_header_idx [OF h]
  note d = parse_invD [OF m(1)]
  obtain name where "envrule st1 env name = Some r" using x(6) by blast
  then have run: "rule_runs st1 r"
    by (rule envrule_runs [OF d(7,5), rotated]) (use assms(2) m(4) in simp)
  let ?ro = "hnout h" and ?ri = "length (hpaths h) - hnout h"
  have "parse_inv e ?ro ?ri (upd_edge e (set_header r h) st1)"
    by (rule upd_edge_inv [OF m(1)])
      (use d(8,9) m(2) run x in \<open>auto simp: set_header_def pools_ok_def idx_ok_def m(5,6)\<close>)
  then have "in_edge e ?ro ?ri st1 (upd_edge e (set_header r h) st1)"
    using m(2) by (simp add: in_edge_def depths_ok_def)
  then have "in_edge e ?ro ?ri st1 st2" using edge_bindings_inv [OF b] by blast
  moreover have "length (take (hnout h) (hpaths h)) = ?ro" using x(4) by simp
  ultimately have "in_edge e 0 ?ri st1 st3"
    using parse_outs_inv [OF o] by (simp only:)
  then have "in_edge e 0 0 st1 st4" using parse_ins_inv [OF i] by simp
  then have "in_edge e 0 0 st1 st'" using edge_set_pool_inv [OF p] by blast
  then show ?thesis
    using assms(1) m(4,7) parse_inv_done by (auto simp: steps_to_def parse_wf_def in_edge_def)
qed

section \<open>Rules and pools\<close>

lemma ruleaddvar_fields [simp]:
  "nodes_of (ruleaddvar r var val st) = nodes_of st" "nnodes (ruleaddvar r var val st) = nnodes st"
  "edges_of (ruleaddvar r var val st) = edges_of st" "nedges (ruleaddvar r var val st) = nedges st"
  "nenvs (ruleaddvar r var val st) = nenvs st" "envs_of (ruleaddvar r var val st) = envs_of st"
  "nrules (ruleaddvar r var val st) = nrules st" "pools_of (ruleaddvar r var val st) = pools_of st"
  "npools (ruleaddvar r var val st) = npools st" "pooltab (ruleaddvar r var val st) = pooltab st"
  "deftarg (ruleaddvar r var val st) = deftarg st" "allnodes (ruleaddvar r var val st) = allnodes st"
  "alledges (ruleaddvar r var val st) = alledges st" "rootenv (ruleaddvar r var val st) = rootenv st"
  by (simp_all add: ruleaddvar_def)

text \<open>Updates of the rules alone: bound variables stay bound.\<close>

lemma rules_change_inv:
  assumes "parse_wf st" and "rules_ok st'"
    and "nodes_of st' = nodes_of st" "nnodes st' = nnodes st" "edges_of st' = edges_of st"
      "nedges st' = nedges st" "nenvs st' = nenvs st" "envs_of st' = envs_of st"
      "pools_of st' = pools_of st" "npools st' = npools st" "pooltab st' = pooltab st"
      "deftarg st' = deftarg st" "allnodes st' = allnodes st" "alledges st' = alledges st"
      "rootenv st' = rootenv st"
  shows "parse_wf st'"
proof -
  have inv: "parse_inv 0 0 0 st" using assms(1) by (simp add: parse_wf_def)
  note d = parse_invD [OF inv]
  have "nodes_wf st'" by (rule nodes_wf_cong [OF _ _ _ d(2)]) (simp_all add: assms)
  moreover have "linked (\<lambda>_ _. 0) st'" by (rule linked_cong [OF d(3)]) (simp_all add: assms)
  moreover have "edge_envs_ok st'" by (rule edge_envs_ok_cong [OF d(4)]) (simp_all add: assms)
  ultimately show ?thesis
    using d assms(1) by (simp add: parse_wf_def parse_inv_def graph_wf_def pools_ok_def idx_ok_def
        depths_ok_def assms)
qed

lemma ruleaddvar_bound:
  assumes "rules_ok st" and "r < nrules st"
  shows "treefind (rbindings (rules_of (ruleaddvar r var val st) k)) name =
    (if k = r \<and> name = var then Some val else treefind (rbindings (rules_of st k)) name)"
  using assms treefind_treeinsert [of "rbindings (rules_of st r)" var val]
  by (simp add: ruleaddvar_def addvar_def rules_ok_def)

lemma ruleaddvar_rules_ok:
  assumes "rules_ok st" and "r < nrules st" shows "rules_ok (ruleaddvar r var val st)"
proof -
  have "tree_wf (rbindings (rules_of (ruleaddvar r var val st) k))" if "k < nrules st" for k
    using assms that by (simp add: ruleaddvar_def addvar_def rules_ok_def treeinsert_wf)
  moreover have "rule_runs (ruleaddvar r var val st) k" if "rule_runs st k" for k
    using that by (auto simp: rule_runs_def ruleaddvar_bound [OF assms])
  ultimately show ?thesis using assms(1) by (simp add: rules_ok_def)
qed

lemma rule_bindings_inv:
  "rule_bindings r s seen st = Inr (s', seen', st') \<Longrightarrow> parse_wf st \<Longrightarrow> r < nrules st \<Longrightarrow>
     (fst seen \<longrightarrow> treefind (rbindings (rules_of st r)) ''command'' \<noteq> None) \<Longrightarrow>
     parse_wf st' \<and> nenvs st' = nenvs st \<and> nrules st' = nrules st \<and>
     (fst seen' \<longrightarrow> treefind (rbindings (rules_of st' r)) ''command'' \<noteq> None)"
proof (induction "length (sin s)" arbitrary: s seen st rule: less_induct)
  case less
  obtain b s1 where b: "scan_binding s = Inr (b, s1)"
    using less.prems(1) by (auto simp: rule_bindings.simps [of r s seen st] monad_simps)
  note turn = less.prems(1) [unfolded rule_bindings.simps [of r s seen st] b bindE.simps prod.case]
  show ?case
  proof (cases b)
    case (Some x)
    obtain var val where x: "x = (var, val)" by (cases x)
    have "length (sin s1) < length (sin s)" using scan_binding_facts(2) [OF b] Some by simp
    moreover have ok: "rules_ok st" using less.prems(2) by (simp add: parse_wf_def parse_inv_def)
    moreover have "parse_wf (ruleaddvar r var val st)"
      by (rule rules_change_inv [OF less.prems(2)]) (simp_all add: ruleaddvar_rules_ok [OF ok less.prems(3)])
    moreover have "fst (rule_seen var val seen) \<longrightarrow>
        treefind (rbindings (rules_of (ruleaddvar r var val st) r)) ''command'' \<noteq> None"
      using less.prems(4)
      by (auto simp: ruleaddvar_bound [OF ok less.prems(3)] rule_seen_def split: prod.splits if_splits)
    moreover have "rule_bindings r s1 (rule_seen var val seen) (ruleaddvar r var val st) = Inr (s', seen', st')"
      using turn Some x by simp
    ultimately show ?thesis
      using less.hyps [of s1 "rule_seen var val seen" "ruleaddvar r var val st"] less.prems(3) by simp
  qed (use turn less.prems in simp)
qed

lemma envaddrule_inv:
  assumes "parse_wf st" and "rule_runs st r" and "env < nenvs st" and "envaddrule env r st = Inr st'"
  shows "steps_to st st'"
proof -
  let ?t = "treeinsert (erules (envs_of st env)) (rname (rules_of st r)) r"
  have st': "st' = upd_env env (\<lambda>v. v\<lparr>erules := fst ?t\<rparr>) st"
    using assms(4) by (auto simp: envaddrule_def split: prod.splits option.splits)
  have inv: "parse_inv 0 0 0 st" using assms(1) by (simp add: parse_wf_def)
  note d = parse_invD [OF inv]
  have w: "envs_wf st'" using envaddrule_wf [OF d(5) assms(4)] .
  have "tree_wf (erules (envs_of st env))" using envs_wfD(1) [OF d(5) assms(3)] by (simp add: env_wf_def)
  then have look: "treefind (fst ?t) = (treefind (erules (envs_of st env)))(rname (rules_of st r) \<mapsto> r)"
    by (rule treefind_treeinsert)
  have "nodes_wf st'" by (rule nodes_wf_cong [OF _ _ _ d(2)]) (simp_all add: st')
  moreover have "linked (\<lambda>_ _. 0) st'" by (rule linked_cong [OF d(3)]) (simp_all add: st')
  moreover have "edge_envs_ok st'" using d(4) w by (auto simp: edge_envs_ok_def st')
  moreover have "rules_ok st'"
    using d(7) assms(2,3) look by (auto simp: rules_ok_def rule_runs_def st' split: if_splits)
  ultimately show ?thesis
    using d assms(1) by (simp add: steps_to_def parse_wf_def parse_inv_def graph_wf_def pools_ok_def
        idx_ok_def depths_ok_def st')
qed

lemma parserule_inv:
  assumes "parse_wf st" and "env < nenvs st" and "parserule s env st = Inr (s', st')"
  shows "steps_to st st'"
proof -
  obtain name s1 s2 seen st2 where
      b: "rule_bindings (nrules st) s2 (False, False, False) (snd (mkrule name st)) = Inr (s', seen, st2)"
      "fst seen" and r: "envaddrule env (nrules st) st2 = Inr st'"
    using assms(3) by (auto simp: parserule_def mkrule_def monad_simps split: if_splits)
  have inv: "parse_inv 0 0 0 st" using assms(1) by (simp add: parse_wf_def)
  let ?st = "snd (mkrule name st)"
  have "rules_ok st" using parse_invD(7) [OF inv] .
  then have "rules_ok ?st"
    by (auto simp: rules_ok_def rule_runs_def mkrule_def less_Suc_eq tree_dict.empty_inv)
  then have "parse_wf ?st" by (rule rules_change_inv [OF assms(1)]) (simp_all add: mkrule_def)
  moreover have "nrules ?st = Suc (nrules st)" "nenvs ?st = nenvs st" by (simp_all add: mkrule_def)
  ultimately have "parse_wf st2 \<and> nenvs st2 = nenvs st \<and> nrules st2 = Suc (nrules st) \<and>
     treefind (rbindings (rules_of st2 (nrules st))) ''command'' \<noteq> None"
    using rule_bindings_inv [OF b(1)] b(2) by simp
  then show ?thesis
    using envaddrule_inv [of st2 "nrules st" env st'] r assms(2) by (simp add: rule_runs_def steps_to_def)
qed

text \<open>A pool's depth may be 0 only while its block is being read.\<close>

definition pool_inv :: "nat \<Rightarrow> samu \<Rightarrow> bool" where
  "pool_inv p st \<longleftrightarrow> parse_inv 0 0 0 st \<and> p < npools st \<and>
     (\<forall>q < npools st. q \<noteq> p \<longrightarrow> pmaxjobs (pools_of st q) \<noteq> 0)"

lemma pools_change_inv:
  assumes "parse_inv 0 0 0 st" and "pools_ok st'"
    and "nodes_of st' = nodes_of st" "nnodes st' = nnodes st" "edges_of st' = edges_of st"
      "nedges st' = nedges st" "nenvs st' = nenvs st" "envs_of st' = envs_of st"
      "rules_of st' = rules_of st" "nrules st' = nrules st"
      "deftarg st' = deftarg st" "allnodes st' = allnodes st" "alledges st' = alledges st"
      "rootenv st' = rootenv st"
  shows "parse_inv 0 0 0 st'"
proof -
  note d = parse_invD [OF assms(1)]
  have "nodes_wf st'" by (rule nodes_wf_cong [OF _ _ _ d(2)]) (simp_all add: assms)
  moreover have "linked (\<lambda>_ _. 0) st'" by (rule linked_cong [OF d(3)]) (simp_all add: assms)
  moreover have "edge_envs_ok st'" by (rule edge_envs_ok_cong [OF d(4)]) (simp_all add: assms)
  ultimately show ?thesis
    using d assms(2) by (simp add: parse_inv_def graph_wf_def rules_ok_def rule_runs_def idx_ok_def assms)
qed

lemma pool_bindings_inv:
  "pool_bindings env p s st = Inr (s', st') \<Longrightarrow> pool_inv p st \<Longrightarrow> pool_inv p st' \<and> nenvs st' = nenvs st"
proof (induction "length (sin s)" arbitrary: s st rule: less_induct)
  case less
  obtain b s1 where b: "scan_binding s = Inr (b, s1)"
    using less.prems(1) by (auto simp: pool_bindings.simps [of env p s st] monad_simps)
  note turn = less.prems(1) [unfolded pool_bindings.simps [of env p s st] b bindE.simps prod.case]
  show ?case
  proof (cases b)
    case (Some x)
    then have len: "length (sin s1) < length (sin s)" using scan_binding_facts(2) [OF b] by simp
    obtain d where d: "pool_bindings env p s1 (upd_pool p (\<lambda>x. x\<lparr>pmaxjobs := d\<rparr>) st) = Inr (s', st')"
      using turn Some by (auto split: prod.splits if_splits)
    have "pools_ok st" using less.prems(2) by (simp add: pool_inv_def parse_inv_def)
    then have "pools_ok (upd_pool p (\<lambda>x. x\<lparr>pmaxjobs := d\<rparr>) st)" by (simp add: pools_ok_def)
    then have "parse_inv 0 0 0 (upd_pool p (\<lambda>x. x\<lparr>pmaxjobs := d\<rparr>) st)"
      using less.prems(2) by (auto simp: pool_inv_def intro: pools_change_inv [of st])
    then have "pool_inv p (upd_pool p (\<lambda>x. x\<lparr>pmaxjobs := d\<rparr>) st)"
      using less.prems(2) by (simp add: pool_inv_def)
    then show ?thesis using less.hyps [OF len d] by simp
  qed (use turn less.prems in simp)
qed

lemma mkpool_inv:
  assumes "parse_wf st" and "mkpool name st = Inr (p, st')"
  shows "pool_inv p st' \<and> nenvs st' = nenvs st"
proof -
  let ?n = "npools st"
  have inv: "parse_inv 0 0 0 st" using assms(1) by (simp add: parse_wf_def)
  have ok: "pools_ok st" using inv by (simp add: parse_inv_def)
  let ?t = "fst (treeinsert (pooltab st) name ?n)"
  have st': "p = ?n" "st' = st\<lparr>pools_of := (pools_of st)(?n := \<lparr>pname = name, pnumjobs = 0, pmaxjobs = 0, pwork = []\<rparr>),
      npools := ?n + 1, pooltab := ?t\<rparr>"
    using assms(2) by (auto simp: mkpool_def Let_def addpool_def monad_simps split: prod.splits option.splits)
  have "treefind ?t = (treefind (pooltab st))(name \<mapsto> ?n)"
    using ok by (intro treefind_treeinsert) (simp add: pools_ok_def)
  then have "pools_ok st'"
    using ok by (auto simp: pools_ok_def st' treeinsert_wf less_Suc_eq split: if_splits)
  then have "parse_inv 0 0 0 st'" by (intro pools_change_inv [OF inv]) (simp_all add: st')
  then show ?thesis using assms(1) by (auto simp: pool_inv_def st' parse_wf_def depths_ok_def less_Suc_eq)
qed

lemma parsepool_inv:
  assumes "parse_wf st" and "parsepool s env st = Inr (s', st')" shows "steps_to st st'"
proof -
  obtain name p st1 s2 where a: "mkpool name st = Inr (p, st1)" "pool_bindings env p s2 st1 = Inr (s', st')"
      "pmaxjobs (pools_of st' p) \<noteq> 0"
    using assms(2) by (auto simp: parsepool_def monad_simps split: if_splits)
  have "pool_inv p st' \<and> nenvs st' = nenvs st"
    using mkpool_inv [OF assms(1) a(1)] pool_bindings_inv [OF a(2)] by simp
  then show ?thesis using a(3) by (auto simp: steps_to_def parse_wf_def pool_inv_def depths_ok_def)
qed

section \<open>Files\<close>

definition keeps :: "(string \<Rightarrow> nat \<Rightarrow> samu \<Rightarrow> samu_error + samu) \<Rightarrow> bool" where
  "keeps inc \<longleftrightarrow> (\<forall>path env st st'. parse_wf st \<longrightarrow> env < nenvs st \<longrightarrow> inc path env st = Inr st' \<longrightarrow> steps_to st st')"

lemma steps_to_trans: "steps_to a b \<Longrightarrow> steps_to b c \<Longrightarrow> steps_to a c"
  by (auto simp: steps_to_def)

lemma parseinclude_inv:
  assumes "parse_wf st" and "env < nenvs st" and "keeps inc"
    and "parseinclude inc s env newscope st = Inr (s', st')"
  shows "steps_to st st'"
proof -
  obtain path env1 st1 where a: "inc path env1 st1 = Inr st'"
      "if newscope then mkenv (Some env) st = (env1, st1) else env1 = env \<and> st1 = st"
    using assms(4)
    by (cases "mkenv (Some env) st")
      (auto simp: parseinclude_def Let_def monad_simps scanerror_def split: if_splits)
  have "parse_wf st1 \<and> env1 < nenvs st1 \<and> nenvs st \<le> nenvs st1"
  proof (cases newscope)
    case True
    have "parse_inv 0 0 0 st" using assms(1) by (simp add: parse_wf_def)
    then show ?thesis
      using mkenv_inv [of 0 0 0 st env env1 st1] a(2) True assms(1,2) by (auto simp: parse_wf_def depths_ok_def)
  qed (use a(2) assms(1,2) in simp)
  then show ?thesis using assms(3) a(1) by (fastforce simp: keeps_def steps_to_def)
qed

lemma default_target_inv:
  assumes "parse_wf st" and "default_target env path st = Inr st'" shows "steps_to st st'"
proof -
  obtain n p where n: "nodeget st p = Inr (Some n)" "st' = st\<lparr>deftarg := deftarg st @ [n]\<rparr>"
    using assms(2) by (auto simp: default_target_def monad_simps split: option.splits)
  have inv: "parse_inv 0 0 0 st" using assms(1) by (simp add: parse_wf_def)
  note d = parse_invD [OF inv]
  have "n < nnodes st" using n(1) d(2) by (simp add: nodeget_lookup [OF d(2)]) (simp add: nodes_wf_def)
  moreover have "nodes_wf st'" by (rule nodes_wf_cong [OF _ _ _ d(2)]) (simp_all add: n)
  moreover have "linked (\<lambda>_ _. 0) st'" by (rule linked_cong [OF d(3)]) (simp_all add: n)
  moreover have "edge_envs_ok st'" by (rule edge_envs_ok_cong [OF d(4)]) (simp_all add: n)
  ultimately show ?thesis
    using d assms(1) by (simp add: steps_to_def parse_wf_def parse_inv_def graph_wf_def rules_ok_def
        rule_runs_def pools_ok_def idx_ok_def depths_ok_def n)
qed

lemma default_targets_inv:
  "foldE (default_target env) paths st = Inr st' \<Longrightarrow> parse_wf st \<Longrightarrow> steps_to st st'"
proof (induction paths arbitrary: st)
  case (Cons p paths)
  then obtain st1 where "default_target env p st = Inr st1" "foldE (default_target env) paths st1 = Inr st'"
    by (auto simp: monad_simps)
  moreover from this have st1: "steps_to st st1" using default_target_inv Cons.prems(2) by blast
  moreover from st1 have "parse_wf st1" by (simp add: steps_to_def)
  ultimately show ?case using Cons.IH [of st1] steps_to_trans [OF st1] by blast
qed (simp add: steps_to_def)

lemma envaddvar_wf_step: "parse_wf st \<Longrightarrow> steps_to st (envaddvar v var val st)"
  by (simp add: steps_to_def parse_wf_def envaddvar_inv depths_ok_def)

lemma parse_statement_inv:
  assumes "parse_wf st" and "env < nenvs st" and "keeps inc"
    and "parse_statement w inc tok var s env st = Inr (s', st')"
  shows "steps_to st st'"
proof (cases tok)
  case DEFAULT
  then show ?thesis
    using assms(1,4) default_targets_inv
    by (fastforce simp: parse_statement_def parsedefault_def monad_simps)
next
  case VARIABLE
  then show ?thesis
    using assms(1,4) envaddvar_wf_step
    by (auto simp: parse_statement_def parsevariable_def Let_def monad_simps)
qed (use assms in \<open>auto simp: parse_statement_def intro: parserule_inv parseedge_inv parsepool_inv parseinclude_inv\<close>)

lemma parse_loop_inv:
  "keeps inc \<Longrightarrow> parse_loop w inc s env st = Inr st' \<Longrightarrow> parse_wf st \<Longrightarrow> env < nenvs st \<Longrightarrow> steps_to st st'"
proof (induction "length (sin s)" arbitrary: s st rule: less_induct)
  case less
  obtain tok s1 where t: "scankeyword s = Inr (tok, s1)"
    using less.prems(2) by (auto simp: parse_loop.simps [of w inc s env st] monad_simps)
  note turn = less.prems(2) [unfolded parse_loop.simps [of w inc s env st] t bindE.simps prod.case]
  show ?case
  proof (cases tok)
    case None
    then show ?thesis using turn less.prems(3) by (simp add: steps_to_def)
  next
    case (Some x)
    obtain t1 var where x: "x = (t1, var)" by (cases x)
    obtain s2 st2 where p: "parse_statement w inc t1 var s1 env st = Inr (s2, st2)"
        "parse_loop w inc s2 env st2 = Inr st'"
      using turn Some x by (auto simp: monad_simps)
    have "steps_to st st2" by (rule parse_statement_inv [OF less.prems(3,4,1) p(1)])
    moreover have "length (sin s2) < length (sin s)"
      using scankeyword_facts [OF t] Some advances_le [OF parse_statement_facts [OF p(1)]] by simp
    ultimately show ?thesis
      using less.hyps [OF _ less.prems(1) p(2)] less.prems(4) by (auto simp: steps_to_def)
  qed
qed

lemma parse_keeps: "keeps (parse fs w fuel)"
proof (induction fuel)
  case 0
  then show ?case by (simp add: keeps_def)
next
  case (Suc fuel)
  show ?case unfolding keeps_def
  proof (intro allI impI)
    fix path env st st' assume a: "parse_wf st" "env < nenvs st" "parse fs w (Suc fuel) path env st = Inr st'"
    then obtain s where "parse_loop w (parse fs w fuel) s env st = Inr st'" by (auto simp: monad_simps)
    then show "steps_to st st'" using parse_loop_inv [OF Suc] a by blast
  qed
qed

text \<open>The state \<open>main\<close> starts to parse in.\<close>

definition parse_start :: "samu \<Rightarrow> samu_error + samu" where
  "parse_start s0 = bindE (envinit (graphinit s0)) (\<lambda>s. Inr (parseinit s))"

lemma parse_start_ok:
  assumes "parse_start s0 = Inr st" shows "parse_wf st" and "rootenv st < nenvs st"
proof -
  obtain t where t: "envinit (graphinit s0) = Inr t" "st = parseinit t"
    using assms by (auto simp: parse_start_def monad_simps)
  have st: "st = (graphinit s0)\<lparr>nenvs := 1, nrules := 1, npools := 1, rootenv := 0,
      rules_of := (rules_of s0)(0 := \<lparr>rname = ''phony'', rbindings = Tip\<rparr>),
      pools_of := (pools_of s0)(0 := (pools_of s0 0)\<lparr>pname := ''console'', pmaxjobs := 1\<rparr>),
      envs_of := (envs_of s0)(0 := empty_env\<lparr>erules := Node ''phony'' 0 Tip Tip 1\<rparr>),
      pooltab := Node ''console'' 0 Tip Tip 1, deftarg := []\<rparr>"
    using t by (auto simp: envinit_def mkenv_def Let_def envaddrule_def addpool_def treeinsert_def
        parseinit_def graphinit_def phonyrule_def consolepool_def monad_simps empty_env_def upd_env_def)
  have tree: "tree_wf (Node k v Tip Tip (Suc 0))" for k and v :: nat by (simp add: tree_wf_def ordered_def)
  have "nodes_wf st" by (rule nodes_wf_cong [OF _ _ _ graphinit_wf [of s0]]) (simp_all add: st)
  moreover have "linked (\<lambda>_ _. 0) st" by (simp add: linked_def st graphinit_def)
  moreover have "edge_envs_ok st"
    by (simp add: edge_envs_ok_def st graphinit_def envs_wf_def env_wf_def empty_env_def tree
        tree_dict.empty_inv)
  moreover have "rules_ok st"
    by (auto simp: rules_ok_def rule_runs_def st graphinit_def phonyrule_def tree_dict.empty_inv Let_def
        empty_env_def split: if_splits)
  moreover have "pools_ok st"
    by (auto simp: pools_ok_def st graphinit_def tree Let_def split: if_splits)
  moreover have "depths_ok st" "idx_ok 0 0 0 st" "set (deftarg st) \<subseteq> {..<nnodes st}"
    by (simp_all add: depths_ok_def idx_ok_def st graphinit_def)
  ultimately show "parse_wf st" by (simp add: parse_wf_def parse_inv_def graph_wf_def)
  show "rootenv st < nenvs st" by (simp add: st)
qed

section \<open>Fuel\<close>

text \<open>\<open>inc'\<close> answers as \<open>inc\<close> does wherever \<open>inc\<close> has an answer.\<close>

definition extends :: "(string \<Rightarrow> nat \<Rightarrow> samu \<Rightarrow> samu_error + samu) \<Rightarrow> (string \<Rightarrow> nat \<Rightarrow> samu \<Rightarrow> samu_error + samu) \<Rightarrow> bool" where
  "extends inc inc' \<longleftrightarrow> (\<forall>path env st. inc path env st \<noteq> Inl Diverges \<longrightarrow> inc' path env st = inc path env st)"

lemma bindE_extends:
  "bindE m f \<noteq> Inl Diverges \<Longrightarrow> (\<And>x. m = Inr x \<Longrightarrow> f x \<noteq> Inl Diverges \<Longrightarrow> g x = f x) \<Longrightarrow> bindE m g = bindE m f"
  by (cases m) auto

lemma parse_statement_extends:
  assumes "extends inc inc'" and "parse_statement w inc tok var s env st \<noteq> Inl Diverges"
  shows "parse_statement w inc' tok var s env st = parse_statement w inc tok var s env st"
proof -
  have "parseinclude inc' s env b st = parseinclude inc s env b st"
    if ne: "parseinclude inc s env b st \<noteq> Inl Diverges" for b
  proof -
    obtain env1 st1 where m: "(if b then mkenv (Some env) st else (env, st)) = (env1, st1)"
      by (cases "if b then mkenv (Some env) st else (env, st)") blast
    have "bindE (inc' path env1 st1) f = bindE (inc path env1 st1) f"
      if "bindE (inc path env1 st1) f \<noteq> Inl Diverges" for path and f :: "samu \<Rightarrow> samu_error + scanner \<times> samu"
      using assms(1) that by (cases "inc path env1 st1 = Inl Diverges") (auto simp: extends_def)
    then show ?thesis
      using ne unfolding parseinclude_def Let_def m
      by (auto intro!: bindE_extends split: prod.splits)
  qed
  then show ?thesis using assms(2) by (cases tok) (simp_all add: parse_statement_def)
qed

lemma parse_loop_extends:
  "extends inc inc' \<Longrightarrow> parse_loop w inc s env st \<noteq> Inl Diverges \<Longrightarrow>
     parse_loop w inc' s env st = parse_loop w inc s env st"
proof (induction "length (sin s)" arbitrary: s st rule: less_induct)
  case less
  show ?case
  proof (cases "scankeyword s")
    case (Inr r)
    obtain tok s1 where t: "scankeyword s = Inr (tok, s1)" using Inr by (cases r) simp
    note u = parse_loop.simps [of w _ s env st, unfolded t bindE.simps prod.case]
    show ?thesis
    proof (cases tok)
      case (Some x)
      obtain t1 var where x: "tok = Some (t1, var)" using Some by (cases x) simp
      have ne: "bindE (parse_statement w inc t1 var s1 env st) (\<lambda>(s2, st2). parse_loop w inc s2 env st2)
          \<noteq> Inl Diverges"
        using less.prems(2) by (simp add: u x)
      then have st: "parse_statement w inc' t1 var s1 env st = parse_statement w inc t1 var s1 env st"
        using parse_statement_extends [OF less.prems(1)] by force
      have "parse_loop w inc' s2 env st2 = parse_loop w inc s2 env st2"
        if p: "parse_statement w inc t1 var s1 env st = Inr (s2, st2)" for s2 st2
      proof (rule less.hyps [OF _ less.prems(1)])
        show "length (sin s2) < length (sin s)"
          using scankeyword_facts [OF t] x advances_le [OF parse_statement_facts [OF p]] by simp
        show "parse_loop w inc s2 env st2 \<noteq> Inl Diverges" using ne p by simp
      qed
      then show ?thesis
        by (cases "parse_statement w inc t1 var s1 env st") (auto simp: u x st)
    qed (simp add: u)
  qed (simp add: parse_loop.simps [of w _ s env st])
qed

lemma parse_extends: "extends (parse fs w n) (parse fs w (Suc n))"
proof (induction n)
  case (Suc n)
  show ?case unfolding extends_def
  proof (intro allI impI)
    fix path env st assume a: "parse fs w (Suc n) path env st \<noteq> Inl Diverges"
    show "parse fs w (Suc (Suc n)) path env st = parse fs w (Suc n) path env st"
      unfolding parse.simps(2)
      by (rule bindE_extends)
        (use a parse_loop_extends [OF Suc] in \<open>simp_all del: parse.simps(1) add: parse.simps(2)\<close>)
  qed
qed (simp add: extends_def)

section \<open>Properties\<close>

text \<open>
  C1: the state after \<open>parse\<close> is well-formed, whatever the build files say and however they
  include each other: nodes are interned by path, a node's uses are exactly the edges that have
  it as an input and its generator is the one edge that has it as an output, the indices of the
  explicit, implicit and order-only paths are in bounds, every edge's rule has a command or is
  \<open>phony\<close>, every pool an edge names exists with a depth other than 0, and default targets are
  nodes.
\<close>

theorem parse_well_formed:
  assumes "parse_start s0 = Inr st0" and "parse fs dupwarn fuel path (rootenv st0) st0 = Inr st"
  shows "parse_wf st"
  using parse_keeps [of fs dupwarn fuel] parse_start_ok [OF assms(1)] assms(2)
  by (auto simp: keeps_def steps_to_def)

definition sample_build_file :: string where
  "sample_build_file = ''pool p'' @ [newline_chr] @ ''  depth = 2'' @ [newline_chr] @
     ''rule cc'' @ [newline_chr] @ ''  command = cc $in'' @ [newline_chr]"

theorem parse_well_formed_witness:
  "\<exists>st0 st. parse_start sample_envs = Inr st0 \<and>
     parse (\<lambda>_. Some sample_build_file) False 1 ''build.ninja'' (rootenv st0) st0 = Inr st \<and> parse_wf st"
proof -
  have "(case parse_start sample_envs of
      Inl _ \<Rightarrow> False
    | Inr st0 \<Rightarrow> (case parse (\<lambda>_. Some sample_build_file) False 1 ''build.ninja'' (rootenv st0) st0 of
        Inl _ \<Rightarrow> False | Inr _ \<Rightarrow> True))"
    by code_simp
  then obtain st0 st where "parse_start sample_envs = Inr st0"
      "parse (\<lambda>_. Some sample_build_file) False 1 ''build.ninja'' (rootenv st0) st0 = Inr st"
    by (auto split: sum.splits)
  then show ?thesis using parse_well_formed by blast
qed

text \<open>
  the fuel of \<open>parse\<close> only bounds the depth of nested includes: once it is enough for an
  answer (a state or an error message), more of it gives the same answer.
\<close>

theorem parse_fuel_stable:
  assumes "parse fs dupwarn n path env st \<noteq> Inl Diverges" and "n \<le> m"
  shows "parse fs dupwarn m path env st = parse fs dupwarn n path env st"
  using assms(2)
proof (induction m rule: dec_induct)
  case (step m)
  then show ?case using parse_extends [of fs dupwarn m] assms(1) by (simp add: extends_def del: parse.simps)
qed simp

theorem parse_fuel_stable_witness:
  "parse (\<lambda>_. Some ''x = 1'') False 9 ''build.ninja'' 0 sample_envs =
   Inl (Scan_error ''build.ninja'' 1 6 ''expected newline'')"
proof -
  have *: "(case parse (\<lambda>_. Some ''x = 1'') False 1 ''build.ninja'' 0 sample_envs of
      Inl e \<Rightarrow> e = Scan_error ''build.ninja'' 1 6 ''expected newline'' | Inr _ \<Rightarrow> False)"
    by code_simp
  then have "parse (\<lambda>_. Some ''x = 1'') False 1 ''build.ninja'' 0 sample_envs =
      Inl (Scan_error ''build.ninja'' 1 6 ''expected newline'')"
    by (auto split: sum.splits)
  then show ?thesis
    using parse_fuel_stable [of "\<lambda>_. Some ''x = 1''" False 1 "''build.ninja''" 0 sample_envs 9] by simp
qed

end
