(* ===== verification/Bootsh_Numbers.thy ===== *)
theory Bootsh_Numbers
  imports Bootsh_Prelude
begin

text \<open>
  Numbers as text and as bytes: what \<open>printf\<close> writes for \<open>%d\<close>, \<open>%u\<close> and \<open>%x\<close>, what \<open>strtol\<close> and
  \<open>strtoull\<close> read, and little-endian 32-bit integers. The lemmas are the round trips.
\<close>

section \<open>Printing\<close>

definition digit_chr :: "nat \<Rightarrow> char" where
  "digit_chr d = ''0123456789abcdef'' ! d"

fun print_base :: "nat \<Rightarrow> nat \<Rightarrow> string" where
  "print_base b n =
     (if n < b \<or> b \<le> 1 then [digit_chr n] else print_base b (n div b) @ [digit_chr (n mod b)])"

declare print_base.simps [simp del]

definition print_int :: "int \<Rightarrow> string" where
  "print_int n = (if n < 0 then CHR ''-'' # print_base 10 (nat (- n)) else print_base 10 (nat n))"

definition print_hex :: "nat \<Rightarrow> string" where
  "print_hex n = print_base 16 n"

section \<open>Reading\<close>

definition hex_value :: "char \<Rightarrow> nat" where
  "hex_value c =
     (if isdigit c then byte_of c - 48
      else if CHR ''a'' \<le> c \<and> c \<le> CHR ''f'' then byte_of c - 87
      else byte_of c - 55)"

definition isxdigit :: "char \<Rightarrow> bool" where
  "isxdigit c = (isdigit c \<or> (CHR ''a'' \<le> c \<and> c \<le> CHR ''f'') \<or> (CHR ''A'' \<le> c \<and> c \<le> CHR ''F''))"

definition hexadecimal :: "string \<Rightarrow> nat" where
  "hexadecimal ds = foldl (\<lambda>n c. n * 16 + hex_value c) 0 ds"

definition ULLONG_MAX :: nat where "ULLONG_MAX = 2 ^ 64 - 1"

text \<open>
  \<open>strtoull(s, &end, 16)\<close>: white space, a sign, an optional \<open>0x\<close> that a digit follows,
  digits. The result saturates; a minus sign negates it modulo 2^64.
\<close>

definition strtoull16 :: "string \<Rightarrow> 64 word \<times> string" where
  "strtoull16 s =
     (let t = dropWhile isspace s;
          neg = (take 1 t = ''-'');
          u = (if take 1 t = ''-'' \<or> take 1 t = ''+'' then drop 1 t else t);
          v = (if (take 2 u = ''0x'' \<or> take 2 u = ''0X'') \<and> (\<exists>c r. drop 2 u = c # r \<and> isxdigit c)
               then drop 2 u else u);
          ds = takeWhile isxdigit v;
          n = hexadecimal ds
      in if ds = [] then (0, s)
         else (if n > ULLONG_MAX then - 1 else if neg then - of_nat n else of_nat n,
               dropWhile isxdigit v))"

section \<open>Round trips\<close>

lemma digit_chr_facts:
  assumes "d < 16"
  shows "isxdigit (digit_chr d)" and "hex_value (digit_chr d) = d" and "\<not> isspace (digit_chr d)"
    and "digit_chr d \<noteq> CHR ''-''" and "digit_chr d \<noteq> CHR ''+''"
    and "digit_chr d \<noteq> CHR ''x'' \<and> digit_chr d \<noteq> CHR ''X''"
    and "digit_chr d \<noteq> newline_chr \<and> digit_chr d \<noteq> tab_chr"
proof -
  have *: "\<forall>d \<in> set [0..<16]. isxdigit (digit_chr d) \<and> hex_value (digit_chr d) = d \<and>
      \<not> isspace (digit_chr d) \<and> digit_chr d \<noteq> CHR ''-'' \<and> digit_chr d \<noteq> CHR ''+'' \<and>
      digit_chr d \<noteq> CHR ''x'' \<and> digit_chr d \<noteq> CHR ''X'' \<and>
      digit_chr d \<noteq> newline_chr \<and> digit_chr d \<noteq> tab_chr"
    by code_simp
  have "d \<in> set [0..<16]" using assms by simp
  then show "isxdigit (digit_chr d)" "hex_value (digit_chr d) = d" "\<not> isspace (digit_chr d)"
      "digit_chr d \<noteq> CHR ''-''" "digit_chr d \<noteq> CHR ''+''"
      "digit_chr d \<noteq> CHR ''x'' \<and> digit_chr d \<noteq> CHR ''X''"
      "digit_chr d \<noteq> newline_chr \<and> digit_chr d \<noteq> tab_chr"
    using bspec [OF *] by blast+
qed

lemma digit_chr_decimal:
  assumes "d < 10" shows "isdigit (digit_chr d)" and "digit_value (digit_chr d) = int d"
proof -
  have *: "\<forall>d \<in> set [0..<10]. isdigit (digit_chr d) \<and> digit_value (digit_chr d) = int d"
    by code_simp
  have "d \<in> set [0..<10]" using assms by simp
  then show "isdigit (digit_chr d)" "digit_value (digit_chr d) = int d" using bspec [OF *] by blast+
qed

lemma print_base_digits: "2 \<le> b \<Longrightarrow> c \<in> set (print_base b n) \<Longrightarrow> \<exists>d<b. c = digit_chr d"
proof (induction b n rule: print_base.induct)
  case (1 b n)
  show ?case
  proof (cases "n < b")
    case False
    then have "c \<in> set (print_base b (n div b)) \<or> c = digit_chr (n mod b)"
      using 1(2,3) by (auto simp: print_base.simps [of b n])
    then show ?thesis using 1 False by (auto intro: exI [of _ "n mod b"])
  qed (use 1(2,3) in \<open>auto simp: print_base.simps [of b n]\<close>)
qed

lemma print_base_not_Nil [simp]: "print_base b n \<noteq> []"
  by (subst print_base.simps) simp

lemma decimal_print: "decimal (print_base 10 n) = int n"
proof (induction "10::nat" n rule: print_base.induct)
  case (1 n)
  show ?case
  proof (cases "n < 10")
    case True
    then show ?thesis by (subst print_base.simps) (simp add: decimal_def digit_chr_decimal)
  next
    case False
    then have "decimal (print_base 10 n) = decimal (print_base 10 (n div 10)) * 10 + int (n mod 10)"
      by (subst print_base.simps) (simp add: decimal_def digit_chr_decimal)
    also have "\<dots> = int (n div 10) * 10 + int (n mod 10)" using 1 False by simp
    also have "\<dots> = int n" by (metis div_mult_mod_eq of_nat_add of_nat_mult of_nat_numeral)
    finally show ?thesis .
  qed
qed

lemma hexadecimal_print: "hexadecimal (print_base 16 n) = n"
proof (induction "16::nat" n rule: print_base.induct)
  case (1 n)
  show ?case
  proof (cases "n < 16")
    case True
    then show ?thesis by (subst print_base.simps) (simp add: hexadecimal_def digit_chr_facts)
  next
    case False
    then have "hexadecimal (print_base 16 n) = hexadecimal (print_base 16 (n div 16)) * 16 + n mod 16"
      by (subst print_base.simps) (simp add: hexadecimal_def digit_chr_facts)
    then show ?thesis using 1 False by simp
  qed
qed

lemma takeWhile_stop: "\<forall>x \<in> set xs. P x \<Longrightarrow> r = [] \<or> \<not> P (hd r) \<Longrightarrow> takeWhile P (xs @ r) = xs"
  by (induction xs) (cases r, auto)

lemma dropWhile_stop: "\<forall>x \<in> set xs. P x \<Longrightarrow> r = [] \<or> \<not> P (hd r) \<Longrightarrow> dropWhile P (xs @ r) = r"
  by (induction xs) (cases r, auto)

lemma scan_decimal_print:
  assumes "r = [] \<or> \<not> isdigit (hd r)"
  shows "scan_decimal (print_int n @ r) = Some (n, r)"
proof -
  define m where "m = nat \<bar>n\<bar>"
  let ?ds = "print_base 10 m"
  have dig: "\<forall>c \<in> set ?ds. isdigit c"
    using print_base_digits [of 10 _ m] digit_chr_decimal(1) by fastforce
  have plain: "c \<noteq> CHR ''-'' \<and> c \<noteq> CHR ''+'' \<and> \<not> isspace c" if "c \<in> set ?ds" for c
    using print_base_digits [of 10 c m] that digit_chr_facts by fastforce
  obtain c ds where c: "?ds = c # ds" by (cases ?ds) auto
  have tw: "takeWhile isdigit (?ds @ r) = ?ds" "dropWhile isdigit (?ds @ r) = r"
    using takeWhile_stop [OF dig assms] dropWhile_stop [OF dig assms] by simp_all
  show ?thesis
  proof (cases "n < 0")
    case True
    then have "print_int n = CHR ''-'' # ?ds" "int m = - n" by (simp_all add: print_int_def m_def)
    then show ?thesis using tw decimal_print [of m]
      by (simp add: scan_decimal_def Let_def isspace_def chr_defs)
  next
    case False
    then have "print_int n = ?ds" "int m = n" by (simp_all add: print_int_def m_def)
    moreover have "dropWhile isspace (?ds @ r) = ?ds @ r" "take 1 (?ds @ r) \<noteq> ''-''" "take 1 (?ds @ r) \<noteq> ''+''"
      using plain [of c] c by simp_all
    ultimately show ?thesis using tw decimal_print [of m] by (simp add: scan_decimal_def Let_def)
  qed
qed

lemma strtol10_print:
  assumes "LONG_MIN \<le> n" and "n \<le> LONG_MAX" and "r = [] \<or> \<not> isdigit (hd r)"
  shows "strtol10 (print_int n @ r) = (n, r)"
  using scan_decimal_print [OF assms(3)] assms(1,2) by (simp add: strtol10_def)

lemma strtoull16_print:
  assumes "n \<le> ULLONG_MAX" and "r = [] \<or> \<not> isxdigit (hd r)" and "r = [] \<or> hd r \<noteq> CHR ''x'' \<and> hd r \<noteq> CHR ''X''"
  shows "strtoull16 (print_hex n @ r) = (of_nat n, r)"
proof -
  let ?ds = "print_base 16 n"
  have dig: "\<forall>c \<in> set ?ds. isxdigit c"
    using print_base_digits [of 16 _ n] digit_chr_facts(1) by fastforce
  have plain: "c \<noteq> CHR ''-'' \<and> c \<noteq> CHR ''+'' \<and> \<not> isspace c \<and> c \<noteq> CHR ''x'' \<and> c \<noteq> CHR ''X''"
    if "c \<in> set ?ds" for c
    using print_base_digits [of 16 c n] that digit_chr_facts by fastforce
  obtain c ds where c: "?ds = c # ds" by (cases ?ds) auto
  have tw: "takeWhile isxdigit (?ds @ r) = ?ds" "dropWhile isxdigit (?ds @ r) = r"
    using takeWhile_stop [OF dig assms(2)] dropWhile_stop [OF dig assms(2)] by simp_all
  have "dropWhile isspace (?ds @ r) = ?ds @ r" "take 1 (?ds @ r) \<noteq> ''-''" "take 1 (?ds @ r) \<noteq> ''+''"
    using plain [of c] c by simp_all
  moreover have "take 2 (?ds @ r) \<noteq> ''0x'' \<and> take 2 (?ds @ r) \<noteq> ''0X''"
  proof (cases ds)
    case Nil
    then show ?thesis using c assms(3) by (cases r) auto
  next
    case (Cons d ds')
    then show ?thesis using c plain [of d] by simp
  qed
  ultimately show ?thesis
    using tw hexadecimal_print [of n] assms(1) by (simp add: strtoull16_def Let_def print_hex_def)
qed

section \<open>Little-endian 32-bit integers\<close>

definition le32 :: "nat \<Rightarrow> string" where
  "le32 n = map (\<lambda>i. char_of (n div 256 ^ i mod 256)) [0..<4]"

definition de32 :: "string \<Rightarrow> nat" where
  "de32 bs = byte_of (bs ! 0) + 256 * byte_of (bs ! 1) + 65536 * byte_of (bs ! 2) +
     16777216 * byte_of (bs ! 3)"

lemma le32_length [simp]: "length (le32 n) = 4"
  by (simp add: le32_def)

lemma le32_ex: "\<exists>a b c d. le32 n = [a, b, c, d]"
  by (simp add: le32_def upt_rec)

lemma byte_of_char_of [simp]: "byte_of (char_of (n::nat)) = n mod 256"
  by (simp add: byte_of_def)

lemma de32_le32: "n < 2 ^ 32 \<Longrightarrow> de32 (le32 n @ r) = n"
proof -
  assume "n < 2 ^ 32"
  then have d: "n div 16777216 < 256" by auto
  define a where "a = n div 256"
  define b where "b = a div 256"
  have s: "n div 65536 = b" "n div 16777216 = b div 256"
    by (simp_all add: a_def b_def div_mult2_eq [symmetric])
  have "n = 256 * a + n mod 256" "a = 256 * b + a mod 256" "b = 256 * (b div 256) + b mod 256"
    by (simp_all add: a_def b_def)
  then have "n mod 256 + 256 * (a mod 256) + 65536 * (b mod 256) + 16777216 * (b div 256) = n"
    by linarith
  then show ?thesis using d s by (simp add: de32_def le32_def upt_rec nth_append a_def)
qed

end
