(* ===== verification/Samu_Log.thy ===== *)
theory Samu_Log
  imports Samu_Graph_Laws Bootsh_Numbers
begin

text \<open>
  \<open>src/samu/log.c\<close>: the build log, a text file with a line per output: times, path and the
  hash of the command that built it. The file is its content; \<open>loginit\<close> gives the content
  that later records are appended to. Not modelled: failing reads, writes and renames, the
  directory prefix of the file name, and a last line without a newline that fills the read
  buffer to the byte. The lemmas show that a written log reads back.
\<close>

section \<open>Reading\<close>

definition logver :: int where "logver = 5"

text \<open>\<open>None\<close>: missing field. The field ends at a tab or a newline, which is skipped.\<close>

definition nextfield :: "string \<Rightarrow> (string \<times> string) option" where
  "nextfield p =
     (if p = [] then None
      else Some (takeWhile (\<lambda>c. c \<noteq> tab_chr \<and> c \<noteq> newline_chr) p,
                 drop 1 (dropWhile (\<lambda>c. c \<noteq> tab_chr \<and> c \<noteq> newline_chr) p)))"

text \<open>The lines \<open>fgets\<close> gives.\<close>

function file_lines :: "string \<Rightarrow> string list" where
  "file_lines s =
     (if s = [] then []
      else if dropWhile (\<lambda>c. c \<noteq> newline_chr) s = [] then [s]
      else (takeWhile (\<lambda>c. c \<noteq> newline_chr) s @ [newline_chr]) #
           file_lines (drop 1 (dropWhile (\<lambda>c. c \<noteq> newline_chr) s)))"
  by pat_completeness auto
termination
  by (relation "measure length") (use drop1_dropWhile_less in auto)

declare file_lines.simps [simp del]

text \<open>
  The body of the loop of \<open>loginit\<close> on a line; the number counts the outputs found
  (\<open>nentry\<close>). Every \<open>continue\<close> leaves the state as it is at that point.
\<close>

definition log_line :: "string \<Rightarrow> samu \<times> nat \<Rightarrow> samu_error + samu \<times> nat" where
  "log_line line = (\<lambda>(st, nentry).
     case nextfield line of None \<Rightarrow> Inr (st, nentry) | Some (_, p1) \<Rightarrow>
     case nextfield p1 of None \<Rightarrow> Inr (st, nentry) | Some (_, p2) \<Rightarrow>
     case nextfield p2 of None \<Rightarrow> Inr (st, nentry) | Some (s, p3) \<Rightarrow>
     case strtol10 s of (mtime, rest) \<Rightarrow>
       if rest \<noteq> [] then Inr (st, nentry)
       else case nextfield p3 of None \<Rightarrow> Inr (st, nentry) | Some (path, p4) \<Rightarrow>
         bindE (nodeget st path) (\<lambda>r.
           case r of None \<Rightarrow> Inr (st, nentry) | Some n \<Rightarrow>
           if ngen (nodes_of st n) = None then Inr (st, nentry)
           else
             let nentry' = (if nlogmtime (nodes_of st n) = MTIME_MISSING then nentry + 1 else nentry);
                 st1 = upd_node n (\<lambda>x. x\<lparr>nlogmtime := mtime\<rparr>) st
             in case nextfield p4 of None \<Rightarrow> Inr (st1, nentry') | Some (h, _) \<Rightarrow>
                Inr (upd_node n (\<lambda>x. x\<lparr>nhash := fst (strtoull16 h)\<rparr>) st1, nentry')))"

text \<open>
  \<open>fscanf(logfile, "# ninja log v%d\n", &ver)\<close>: white space in the format matches any amount.
\<close>

fun scanf_literal :: "string \<Rightarrow> string \<Rightarrow> string option" where
  "scanf_literal [] s = Some s"
| "scanf_literal (f # fs) s =
     (if isspace f then scanf_literal fs (dropWhile isspace s)
      else case s of [] \<Rightarrow> None | c # cs \<Rightarrow> if c = f then scanf_literal fs cs else None)"

definition log_header :: "string \<Rightarrow> (int \<times> string) option" where
  "log_header s =
     (case scanf_literal ''# ninja log v'' s of
        None \<Rightarrow> None
      | Some r \<Rightarrow> map_option (\<lambda>(ver, r'). (ver, dropWhile isspace r')) (scan_decimal r))"

section \<open>Writing\<close>

definition logrecord :: "node \<Rightarrow> string" where
  "logrecord n = ''0'' @ [tab_chr] @ ''0'' @ [tab_chr] @ print_int (nlogmtime n) @ [tab_chr] @
     npath n @ [tab_chr] @ print_hex (unat (nhash n)) @ [newline_chr]"

text \<open>The outputs that the rewritten log lists, in the order of \<open>alledges\<close>.\<close>

definition logged_nodes :: "samu \<Rightarrow> nat list" where
  "logged_nodes st =
     filter (\<lambda>n. nhash (nodes_of st n) \<noteq> 0) (concat (map (\<lambda>e. eout (edges_of st e)) (alledges st)))"

definition log_rewrite :: "samu \<Rightarrow> nat \<Rightarrow> string" where
  "log_rewrite st nentry =
     ''# ninja log v'' @ print_int logver @ [newline_chr] @
     (if nentry > 0 then concat (map (\<lambda>n. logrecord (nodes_of st n)) (logged_nodes st)) else [])"

definition loginit :: "file_result \<Rightarrow> samu \<Rightarrow> samu_error + samu \<times> string" where
  "loginit file st =
     (case file of
        Unreadable \<Rightarrow> Inl (Fatal Open_failed ''.ninja_log'')
      | Missing \<Rightarrow> Inr (st, log_rewrite st 0)
      | File s \<Rightarrow>
        (case log_header s of
           None \<Rightarrow> Inr (st, log_rewrite st 0)
         | Some (ver, body) \<Rightarrow>
           if ver \<noteq> logver then Inr (st, log_rewrite st 0)
           else
             bindE (foldE log_line (file_lines body) (st, 0)) (\<lambda>(st', nentry).
               let nline = length (file_lines body)
               in if nline \<le> 100 \<or> nline \<le> 3 * nentry then Inr (st', s)
                  else Inr (st', log_rewrite st' nentry))))"

section \<open>A written log reads back\<close>

text \<open>Paths that the format can represent.\<close>

definition loggable :: "node \<Rightarrow> bool" where
  "loggable x \<longleftrightarrow> tab_chr \<notin> set (npath x) \<and> newline_chr \<notin> set (npath x) \<and>
     LONG_MIN \<le> nlogmtime x \<and> nlogmtime x \<le> LONG_MAX"

lemma nextfield_print:
  assumes "tab_chr \<notin> set f" and "newline_chr \<notin> set f" and "c = tab_chr \<or> c = newline_chr"
  shows "nextfield (f @ c # r) = Some (f, r)"
proof -
  let ?P = "\<lambda>c. c \<noteq> tab_chr \<and> c \<noteq> newline_chr"
  have "\<forall>x \<in> set f. ?P x" using assms(1,2) by auto
  then have "takeWhile ?P (f @ c # r) = f" "dropWhile ?P (f @ c # r) = c # r"
    using takeWhile_stop [of f ?P "c # r"] dropWhile_stop [of f ?P "c # r"] assms(3) by auto
  then show ?thesis by (simp add: nextfield_def)
qed

lemma print_base_plain:
  "2 \<le> b \<Longrightarrow> b \<le> 16 \<Longrightarrow> tab_chr \<notin> set (print_base b n) \<and> newline_chr \<notin> set (print_base b n)"
proof -
  assume b: "2 \<le> b" "b \<le> 16"
  have "c \<noteq> tab_chr \<and> c \<noteq> newline_chr" if "c \<in> set (print_base b n)" for c
    using print_base_digits [OF b(1) that] b(2) digit_chr_facts(7) by (metis order_less_le_trans)
  then show ?thesis by blast
qed

lemma print_int_plain: "tab_chr \<notin> set (print_int n) \<and> newline_chr \<notin> set (print_int n)"
  using print_base_plain [of 10] by (auto simp: print_int_def chr_defs)

lemma unat_le_ULLONG_MAX: "unat (h :: 64 word) \<le> ULLONG_MAX"
  using unsigned_less [of h, where ?'a = nat] by (simp add: ULLONG_MAX_def)

text \<open>The state after the record of a node \<open>x\<close> with the path of node \<open>n\<close>.\<close>

definition log_entry :: "nat \<Rightarrow> node \<Rightarrow> samu \<times> nat \<Rightarrow> samu \<times> nat" where
  "log_entry n x = (\<lambda>(st, k).
     (upd_node n (\<lambda>y. y\<lparr>nlogmtime := nlogmtime x, nhash := nhash x\<rparr>) st,
      if nlogmtime (nodes_of st n) = MTIME_MISSING then k + 1 else k))"

lemma log_line_record:
  assumes "nodes_wf st" and "n < nnodes st" and "ngen (nodes_of st n) \<noteq> None"
    and "npath x = npath (nodes_of st n)" and "loggable x"
  shows "log_line (logrecord x) (st, k) = Inr (log_entry n x (st, k))"
proof -
  let ?hex = "print_hex (unat (nhash x))"
  obtain g where g: "ngen (nodes_of st n) = Some g" using assms(3) by blast
  have path: "nodeget st (npath x) = Inr (Some n)"
    using assms(1,2,4) by (simp add: nodeget_lookup) (simp add: nodes_wf_def)
  have f1: "nextfield (logrecord x) = Some (''0'', ''0'' @ tab_chr # print_int (nlogmtime x) @ tab_chr #
      npath x @ tab_chr # ?hex @ [newline_chr])"
    using nextfield_print [of "''0''" tab_chr] by (simp add: logrecord_def chr_defs)
  have f2: "nextfield (''0'' @ tab_chr # print_int (nlogmtime x) @ tab_chr # npath x @ tab_chr # ?hex @ [newline_chr]) =
      Some (''0'', print_int (nlogmtime x) @ tab_chr # npath x @ tab_chr # ?hex @ [newline_chr])"
    by (rule nextfield_print) (simp_all add: chr_defs)
  have f3: "nextfield (print_int (nlogmtime x) @ tab_chr # npath x @ tab_chr # ?hex @ [newline_chr]) =
      Some (print_int (nlogmtime x), npath x @ tab_chr # ?hex @ [newline_chr])"
    by (rule nextfield_print) (simp_all add: print_int_plain)
  have f4: "nextfield (npath x @ tab_chr # ?hex @ [newline_chr]) = Some (npath x, ?hex @ [newline_chr])"
    by (rule nextfield_print) (use assms(5) in \<open>simp_all add: loggable_def\<close>)
  have f5: "nextfield (?hex @ [newline_chr]) = Some (?hex, [])"
    by (rule nextfield_print) (simp_all add: print_base_plain print_hex_def)
  have "strtol10 (print_int (nlogmtime x)) = (nlogmtime x, [])"
    using strtol10_print [of "nlogmtime x" "[]"] assms(5) by (simp add: loggable_def)
  moreover have "strtoull16 ?hex = (nhash x, [])"
    using strtoull16_print [OF unat_le_ULLONG_MAX, of "[]" "nhash x"] by simp
  ultimately show ?thesis
    using g f1 f2 f3 f4 f5 path
    by (simp add: log_line_def log_entry_def upd_node_def fun_upd_def Let_def fun_eq_iff)
qed

lemma file_lines_line:
  assumes "newline_chr \<notin> set l"
  shows "file_lines ((l @ [newline_chr]) @ r) = (l @ [newline_chr]) # file_lines r"
proof -
  let ?P = "\<lambda>c. c \<noteq> newline_chr"
  have all: "\<forall>x \<in> set l. ?P x" using assms by auto
  have "takeWhile ?P (l @ newline_chr # r) = l" "dropWhile ?P (l @ newline_chr # r) = newline_chr # r"
    using takeWhile_stop [OF all, of "newline_chr # r"] dropWhile_stop [OF all, of "newline_chr # r"] by auto
  then show ?thesis by (subst file_lines.simps) simp
qed

lemma logrecord_line:
  "loggable x \<Longrightarrow> \<exists>l. logrecord x = l @ [newline_chr] \<and> newline_chr \<notin> set l"
  using print_int_plain [of "nlogmtime x"] print_base_plain [of 16 "unat (nhash x)"]
  by (auto simp: logrecord_def loggable_def print_hex_def chr_defs)

lemma file_lines_records:
  "\<forall>x \<in> set xs. loggable x \<Longrightarrow> file_lines (concat (map logrecord xs)) = map logrecord xs"
proof (induction xs)
  case Nil
  then show ?case by (simp add: file_lines.simps)
next
  case (Cons x xs)
  obtain l where l: "logrecord x = l @ [newline_chr]" "newline_chr \<notin> set l"
    using logrecord_line Cons.prems by auto
  show ?case using Cons file_lines_line [OF l(2), of "concat (map logrecord xs)"] l(1) by simp
qed

text \<open>Two states with the same nodes, up to what the log holds.\<close>

definition same_nodes :: "samu \<Rightarrow> samu \<Rightarrow> bool" where
  "same_nodes s t \<longleftrightarrow> allnodes t = allnodes s \<and> nnodes t = nnodes s \<and>
     (\<forall>n < nnodes s. npath (nodes_of t n) = npath (nodes_of s n) \<and> ngen (nodes_of t n) = ngen (nodes_of s n))"

lemma same_nodes_wf: "same_nodes s t \<Longrightarrow> nodes_wf s \<Longrightarrow> nodes_wf t"
  by (rule nodes_wf_cong [of _ s]) (auto simp: same_nodes_def)

lemma read_records:
  assumes "nodes_wf s" and "same_nodes s t" and "\<forall>n \<in> set ns. n < nnodes s \<and> ngen (nodes_of s n) \<noteq> None"
    and "\<forall>n \<in> set ns. loggable (nodes_of s n)"
  shows "\<exists>t' k'. foldE log_line (map (\<lambda>n. logrecord (nodes_of s n)) ns) (t, k) = Inr (t', k') \<and>
    same_nodes s t' \<and>
    (\<forall>m. nlogmtime (nodes_of t' m) = (if m \<in> set ns then nlogmtime (nodes_of s m) else nlogmtime (nodes_of t m)) \<and>
         nhash (nodes_of t' m) = (if m \<in> set ns then nhash (nodes_of s m) else nhash (nodes_of t m)))"
  using assms(2-4)
proof (induction ns arbitrary: t k)
  case (Cons n ns)
  obtain t1 k1 where e: "log_entry n (nodes_of s n) (t, k) = (t1, k1)"
    by (cases "log_entry n (nodes_of s n) (t, k)") simp
  then have t1: "t1 = upd_node n (\<lambda>y. y\<lparr>nlogmtime := nlogmtime (nodes_of s n), nhash := nhash (nodes_of s n)\<rparr>) t"
    by (simp add: log_entry_def)
  have "log_line (logrecord (nodes_of s n)) (t, k) = Inr (t1, k1)"
    using Cons.prems same_nodes_wf [OF Cons.prems(1) assms(1)]
    by (subst log_line_record) (auto simp: same_nodes_def e)
  moreover have same: "same_nodes s t1" using Cons.prems(1) by (simp add: same_nodes_def t1)
  moreover from same obtain t' k' where i: "foldE log_line (map (\<lambda>n. logrecord (nodes_of s n)) ns) (t1, k1) = Inr (t', k')"
      "same_nodes s t'"
      "\<forall>m. nlogmtime (nodes_of t' m) = (if m \<in> set ns then nlogmtime (nodes_of s m) else nlogmtime (nodes_of t1 m)) \<and>
         nhash (nodes_of t' m) = (if m \<in> set ns then nhash (nodes_of s m) else nhash (nodes_of t1 m))"
    using Cons.IH [of t1 k1] Cons.prems(2,3) by (auto simp del: fun_upd_apply)
  moreover have "\<forall>m. nlogmtime (nodes_of t' m) = (if m \<in> set (n # ns) then nlogmtime (nodes_of s m) else nlogmtime (nodes_of t m)) \<and>
         nhash (nodes_of t' m) = (if m \<in> set (n # ns) then nhash (nodes_of s m) else nhash (nodes_of t m))"
    using i(3) by (simp add: t1)
  ultimately show ?case by simp
qed simp

section \<open>Properties\<close>

text \<open>
  C21: the build log round trip. Rewriting the log and reading the new file into a state with
  the same graph gives every logged output the recorded time and command hash it had, and
  leaves all other nodes as they were.
\<close>

theorem log_reads_back:
  assumes "graph_wf s" and "same_nodes s t" and "\<forall>n \<in> set (logged_nodes s). loggable (nodes_of s n)"
    and "0 < k"
  shows "\<exists>t' text. loginit (File (log_rewrite s k)) t = Inr (t', text) \<and> same_nodes s t' \<and>
    (\<forall>m. nlogmtime (nodes_of t' m) = (if m \<in> set (logged_nodes s) then nlogmtime (nodes_of s m) else nlogmtime (nodes_of t m)) \<and>
         nhash (nodes_of t' m) = (if m \<in> set (logged_nodes s) then nhash (nodes_of s m) else nhash (nodes_of t m)))"
proof -
  let ?ns = "logged_nodes s" and ?recs = "map (\<lambda>n. logrecord (nodes_of s n)) (logged_nodes s)"
  have wf: "nodes_wf s" using assms(1) by (simp add: graph_wf_def)
  have ns: "\<forall>n \<in> set ?ns. n < nnodes s \<and> ngen (nodes_of s n) \<noteq> None"
  proof
    fix n assume "n \<in> set ?ns"
    then obtain e where e: "e \<in> set (alledges s)" "n \<in> set (eout (edges_of s e))"
      by (auto simp: logged_nodes_def)
    then have "e < nedges s" using graph_wf_alledges [OF assms(1)] by blast
    then have "n < nnodes s" "ngen (nodes_of s n) = Some e"
      using graph_wf_out [OF assms(1) _ e(2)] by blast+
    then show "n < nnodes s \<and> ngen (nodes_of s n) \<noteq> None" by simp
  qed
  obtain t' k' where r: "foldE log_line ?recs (t, 0) = Inr (t', k')" "same_nodes s t'"
      "\<forall>m. nlogmtime (nodes_of t' m) = (if m \<in> set ?ns then nlogmtime (nodes_of s m) else nlogmtime (nodes_of t m)) \<and>
         nhash (nodes_of t' m) = (if m \<in> set ?ns then nhash (nodes_of s m) else nhash (nodes_of t m))"
    using read_records [OF wf assms(2) ns assms(3), of 0] by blast
  have lines: "file_lines (concat ?recs) = ?recs"
    using file_lines_records [of "map (nodes_of s) ?ns"] assms(3) by (simp add: comp_def)
  have "log_header (log_rewrite s k) = Some (logver, dropWhile isspace (newline_chr # concat ?recs))"
  proof -
    have "scanf_literal ''# ninja log v'' (''# ninja log v'' @ print_int logver @ newline_chr # concat ?recs) =
        Some (print_int logver @ newline_chr # concat ?recs)"
      by (simp add: isspace_def chr_defs logver_def print_int_def print_base.simps digit_chr_def)
    moreover have "scan_decimal (print_int logver @ newline_chr # concat ?recs) = Some (logver, newline_chr # concat ?recs)"
      by (rule scan_decimal_print) (simp add: isdigit_def chr_defs less_eq_char_def)
    ultimately show ?thesis using assms(4) by (simp add: log_header_def log_rewrite_def)
  qed
  moreover have "dropWhile isspace (newline_chr # concat ?recs) = concat ?recs"
    by (cases ?ns) (simp_all add: isspace_def chr_defs logrecord_def)
  ultimately show ?thesis
    using r by (simp add: loginit_def lines Let_def split: prod.splits)
qed

theorem log_reads_back_witness:
  "\<exists>t' text. loginit (File (log_rewrite sample_graph 1))
       (upd_node 0 (\<lambda>x. x\<lparr>nlogmtime := MTIME_MISSING, nhash := 0\<rparr>) sample_graph) = Inr (t', text) \<and>
     nlogmtime (nodes_of t' 0) = 7 \<and> nhash (nodes_of t' 0) = 5"
proof -
  let ?t = "upd_node 0 (\<lambda>x. x\<lparr>nlogmtime := MTIME_MISSING, nhash := 0\<rparr>) sample_graph"
  note g = sample_graph_ok
  have ns: "logged_nodes sample_graph = [0]" using g by (simp add: logged_nodes_def)
  have "same_nodes sample_graph ?t" by (simp add: same_nodes_def)
  moreover have "loggable (nodes_of sample_graph 0)"
    using g by (simp add: loggable_def new_node_def chr_defs LONG_MIN_def LONG_MAX_def)
  ultimately show ?thesis
    using log_reads_back [OF g(1), of ?t 1] ns g(7) by auto
qed

end
