(* ===== verification/Samu_Deps.thy ===== *)
theory Samu_Deps
  imports Samu_Graph Bootsh_Numbers
begin

text \<open>
  \<open>src/samu/deps.c\<close>: the binary log of dependencies and the parser of depfiles. Files are
  strings of bytes; the log that is open for appending is the field \<open>dfile\<close>. A slot of the
  array \<open>entries\<close> that \<open>xreallocarray\<close> has made and nothing has written is \<open>None\<close>, and so is
  an unwritten pointer of an array of dependencies; using one is \<open>Bad_access\<close>. Not modelled:
  failing writes and renames, the directory prefix of the file name, and messages.
\<close>

section \<open>Data\<close>

record dentry =
  dnode :: nat
  ddeps :: "nat option list"
  dmtime :: int

record depslog =
  dentries :: "dentry option list"
  dlen :: nat
  dfile :: string
  dremoved :: "string list"

definition MAX_RECORD_SIZE :: nat where "MAX_RECORD_SIZE = 2 ^ 19"
definition INT32_MAX :: nat where "INT32_MAX = 2 ^ 31 - 1"
definition depsheader :: string where "depsheader = ''# ninjadeps'' @ [newline_chr]"
definition depsver :: nat where "depsver = 4"

definition depswrite :: "string \<Rightarrow> depslog \<Rightarrow> depslog" where
  "depswrite p d = d\<lparr>dfile := dfile d @ p\<rparr>"

text \<open>The entry at an index; \<open>None\<close> if there is none to read.\<close>

definition dentry_at :: "depslog \<Rightarrow> nat \<Rightarrow> dentry option" where
  "dentry_at d i = (if i < length (dentries d) then dentries d ! i else None)"

section \<open>Writing records\<close>

text \<open>\<open>sz\<close> is a \<open>uint32_t\<close>.\<close>

definition id_record_size :: "string \<Rightarrow> nat" where
  "id_record_size path = ((length path + 7) div 4 * 4) mod 2 ^ 32"

definition id_record :: "nat \<Rightarrow> string \<Rightarrow> string" where
  "id_record i path =
     le32 (id_record_size path) @ path @ replicate (id_record_size path - length path - 4) (CHR 0x00) @
     le32 (2 ^ 32 - 1 - i)"

definition recordid :: "nat \<Rightarrow> samu \<times> depslog \<Rightarrow> samu_error + bool \<times> samu \<times> depslog" where
  "recordid n = (\<lambda>(st, d).
     if nid (nodes_of st n) \<noteq> - 1 then Inr (False, st, d)
     else if dlen d = INT32_MAX then Inl (Fatal Too_many_nodes [])
     else
       let path = npath (nodes_of st n)
       in if (id_record_size path + 4) mod 2 ^ 32 \<ge> MAX_RECORD_SIZE then Inl (Fatal Record_too_large path)
          else Inr (True, upd_node n (\<lambda>x. x\<lparr>nid := int (dlen d)\<rparr>) st,
                    depswrite (id_record (dlen d) path) (d\<lparr>dlen := dlen d + 1\<rparr>)))"

text \<open>An \<open>int32_t\<close> or half of an \<open>int64_t\<close>, as the bytes of a \<open>uint32_t\<close>.\<close>

definition u32 :: "int \<Rightarrow> nat" where
  "u32 n = nat (n mod 2 ^ 32)"

definition deps_record_size :: "nat \<Rightarrow> nat" where
  "deps_record_size n = (12 + n * 4) mod 2 ^ 32"

definition deps_record :: "int \<Rightarrow> int \<Rightarrow> int list \<Rightarrow> string" where
  "deps_record i mtime ids =
     le32 (deps_record_size (length ids) + 2 ^ 31) @ le32 (u32 i) @
     le32 (u32 mtime) @ le32 (u32 (mtime div 2 ^ 32)) @ concat (map (le32 \<circ> u32) ids)"

definition recorddeps :: "nat \<Rightarrow> nat list \<Rightarrow> int \<Rightarrow> samu \<times> depslog \<Rightarrow> samu_error + depslog" where
  "recorddeps out deps mtime = (\<lambda>(st, d).
     if (deps_record_size (length deps) + 4) mod 2 ^ 32 \<ge> MAX_RECORD_SIZE
     then Inl (Fatal Record_too_large (npath (nodes_of st out)))
     else Inr (depswrite
       (deps_record (nid (nodes_of st out)) mtime (map (\<lambda>n. nid (nodes_of st n)) deps)) d))"

section \<open>Reading the log\<close>

text \<open>\<open>buf[i]\<close>\<close>

definition word_at :: "string \<Rightarrow> nat \<Rightarrow> nat" where
  "word_at buf i = de32 (drop (4 * i) buf)"

definition to_int64 :: "int \<Rightarrow> int" where
  "to_int64 n = (n + 2 ^ 63) mod 2 ^ 64 - 2 ^ 63"

text \<open>
  A dependency record; \<open>False\<close> is \<open>goto rewrite\<close>. When an ID is invalid, the rest of the new
  array has not been written.
\<close>

definition read_deps :: "string \<Rightarrow> samu \<Rightarrow> depslog \<Rightarrow> samu_error + bool \<times> depslog" where
  "read_deps buf st d =
     (if length buf < 12 then Inr (False, d)
      else if word_at buf 0 \<ge> dlen d then Inr (False, d)
      else
        let i = word_at buf 0 in
        case dentry_at d i of
          None \<Rightarrow> Inl Bad_access
        | Some en \<Rightarrow>
          let en1 = en\<lparr>dmtime := to_int64 (int (word_at buf 2) * 2 ^ 32 + int (word_at buf 1))\<rparr>;
              d1 = d\<lparr>dentries := (dentries d)[i := Some en1]\<rparr>
          in case ngen (nodes_of st (dnode en)) of
               None \<Rightarrow> Inr (True, d1)
             | Some e \<Rightarrow>
               bindE (edgevar st e ''deps'' True) (\<lambda>v.
                 if v = None then Inr (True, d1)
                 else
                   let n = (length buf - 12) div 4;
                       ids = map (\<lambda>j. word_at buf (3 + j)) [0..<n];
                       good = takeWhile (\<lambda>k. k < dlen d) ids;
                       ptrs = map (\<lambda>k. map_option dnode (dentry_at d1 k)) good
                   in Inr (length good = n,
                        d1\<lparr>dentries := (dentries d1)[i := Some (en1\<lparr>ddeps := ptrs @ replicate (n - length good) None\<rparr>)]\<rparr>)))"

definition strip_NULs :: "string \<Rightarrow> string" where
  "strip_NULs p = rev (dropWhile (\<lambda>c. c = CHR 0x00) (rev p))"

definition grow_entries :: "depslog \<Rightarrow> depslog" where
  "grow_entries d =
     (if dlen d \<ge> length (dentries d) then
        let cap = (if length (dentries d) \<noteq> 0 then length (dentries d) * 2 else 1024)
        in d\<lparr>dentries := dentries d @ replicate (cap - length (dentries d)) None\<rparr>
      else d)"

text \<open>A node record. A path of NULs only makes the loop that strips them leave the buffer.\<close>

definition read_id :: "string \<Rightarrow> samu \<Rightarrow> depslog \<Rightarrow> samu_error + bool \<times> samu \<times> depslog" where
  "read_id buf st d =
     (if length buf \<le> 4 then Inr (False, st, d)
      else if dlen d \<noteq> 2 ^ 32 - 1 - word_at buf (length buf div 4 - 1) then Inr (False, st, d)
      else if dlen d = INT32_MAX then Inr (False, st, d)
      else
        let path = strip_NULs (take (length buf - 4) buf)
        in if path = [] then Inl Bad_access
           else bindE (mknode path st) (\<lambda>(n, st1).
             let d1 = grow_entries d
             in Inr (True, upd_node n (\<lambda>x. x\<lparr>nid := int (dlen d)\<rparr>) st1,
                  d1\<lparr>dentries := (dentries d1)[dlen d := Some \<lparr>dnode = n, ddeps = [], dmtime = 0\<rparr>],
                     dlen := dlen d + 1\<rparr>)))"

text \<open>The loop over the records: did it get to the end of the file, and \<open>nrecord\<close>.\<close>

function deps_read :: "string \<Rightarrow> nat \<Rightarrow> samu \<Rightarrow> depslog \<Rightarrow> samu_error + bool \<times> nat \<times> samu \<times> depslog" where
  "deps_read bs k st d =
     (if length bs < 4 then Inr (True, k, st, d)
      else
        let isdep = de32 bs \<ge> 2 ^ 31;
            sz = de32 bs mod 2 ^ 31;
            body = drop 4 bs
        in if sz > MAX_RECORD_SIZE \<or> sz = 0 \<or> length body < sz \<or> sz mod 4 \<noteq> 0 then Inr (False, k, st, d)
           else if isdep then
             bindE (read_deps (take sz body) st d) (\<lambda>(good, d1).
               if good then deps_read (drop sz body) (k + 1) st d1 else Inr (False, k, st, d1))
           else
             bindE (read_id (take sz body) st d) (\<lambda>(good, st1, d1).
               if good then deps_read (drop sz body) (k + 1) st1 d1 else Inr (False, k, st1, d1)))"
  by pat_completeness auto
termination
  by (relation "measure (\<lambda>(bs, k, st, d). length bs)") auto

declare deps_read.simps [simp del]

section \<open>Rewriting the log\<close>

text \<open>An entry with dependencies is written again, with new IDs in order of first use.\<close>

definition rewrite_entry :: "dentry option \<Rightarrow> samu \<times> depslog \<Rightarrow> samu_error + samu \<times> depslog" where
  "rewrite_entry old = (\<lambda>(st, d).
     case old of
       None \<Rightarrow> Inl Bad_access
     | Some en \<Rightarrow>
       if ddeps en = [] then Inr (st, d)
       else
         bindE (recordid (dnode en) (st, d)) (\<lambda>(_, st1, d1).
         let i = nat (nid (nodes_of st1 (dnode en))) in
         if i \<ge> length (dentries d1) then Inl Bad_access
         else
           bindE (foldE (\<lambda>p (st, d). case p of
                     None \<Rightarrow> Inl Bad_access
                   | Some n \<Rightarrow> bindE (recordid n (st, d)) (\<lambda>(_, st', d'). Inr (st', d')))
                   (ddeps en) (st1, d1\<lparr>dentries := (dentries d1)[i := Some en]\<rparr>)) (\<lambda>(st2, d2).
           bindE (recorddeps (dnode en) (map the (ddeps en)) (dmtime en) (st2, d2)) (\<lambda>d3.
           Inr (st2, d3)))))"

definition reset_ids :: "dentry option list \<Rightarrow> samu \<Rightarrow> samu" where
  "reset_ids ens st =
     fold (\<lambda>en st. case en of None \<Rightarrow> st | Some x \<Rightarrow> upd_node (dnode x) (\<lambda>y. y\<lparr>nid := - 1\<rparr>) st) ens st"

definition deps_rewrite :: "samu \<Rightarrow> depslog \<Rightarrow> samu_error + samu \<times> depslog" where
  "deps_rewrite st d =
     (let old = take (dlen d) (dentries d);
          d1 = d\<lparr>dfile := depsheader @ le32 depsver, dlen := 0\<rparr>
      in foldE rewrite_entry old (reset_ids old st, d1))"

definition depsinit :: "file_result \<Rightarrow> samu \<Rightarrow> depslog \<Rightarrow> samu_error + samu \<times> depslog" where
  "depsinit file st d0 =
     (let d = d0\<lparr>dlen := 0\<rparr>
      in case file of
           Unreadable \<Rightarrow> Inl (Fatal Open_failed ''.ninja_deps'')
         | Missing \<Rightarrow> deps_rewrite st d
         | File s \<Rightarrow>
           if take 12 s \<noteq> depsheader then deps_rewrite st d
           else if length s < 16 \<or> de32 (drop 12 s) \<noteq> depsver then deps_rewrite st d
           else
             bindE (deps_read (drop 16 s) 0 st d) (\<lambda>(good, nrecord, st1, d1).
               if good \<and> (nrecord \<le> 1000 \<or> nrecord < 3 * dlen d1) then Inr (st1, d1\<lparr>dfile := s\<rparr>)
               else deps_rewrite st1 d1))"

section \<open>Depfiles\<close>

text \<open>\<open>strchr\<close> also finds the NUL that ends its string.\<close>

definition dep_char :: "char \<Rightarrow> bool" where
  "dep_char c = (isalnum c \<or> c \<in> set ''$+,-./@_'' \<or> c = CHR 0x5C \<or> c = CHR 0x00)"

text \<open>
  The \<open>do\<close> loop over a run of backslashes, from the first one: \<open>n\<close>, the buffer, and the input
  after the run.
\<close>

fun dep_slashes :: "string \<Rightarrow> nat \<Rightarrow> string \<Rightarrow> nat \<times> string \<times> string" where
  "dep_slashes [] n buf = (n, buf, [])"
| "dep_slashes (c # cs) n buf =
     (let n' = n + 1;
          buf' = (if even n' then buf @ [CHR 0x5C] else buf)
      in if take 1 cs = [CHR 0x5C] then dep_slashes cs n' buf' else (n', buf', cs))"

lemma dep_slashes_length:
  "dep_slashes cs n buf = (n', buf', r) \<Longrightarrow> cs \<noteq> [] \<Longrightarrow> length r < length cs"
  by (induction cs n buf rule: dep_slashes.induct) (fastforce simp: Let_def split: if_splits)+

text \<open>The loop over the characters of a path; \<open>None\<close> is \<open>goto err\<close>.\<close>

function dep_word :: "string \<Rightarrow> string \<Rightarrow> (string \<times> string) option" where
  "dep_word [] buf = Some ([], buf)"
| "dep_word (c # cs) buf =
     (if \<not> dep_char c then Some (c # cs, buf)
      else if c = CHR 0x5C then
        (case dep_slashes (c # cs) 0 buf of (n, buf1, r) \<Rightarrow>
           let buf2 = buf1 @ replicate ((n - 1) div 2) (CHR 0x5C)
           in case r of
                [] \<Rightarrow> Some ([], buf2 @ [CHR 0x5C])
              | x # r' \<Rightarrow>
                if (x = CHR '' '' \<or> x = tab_chr) \<and> odd n then dep_word r' (buf1 @ [x])
                else if x = CHR ''#'' then dep_word r' (buf2 @ [x])
                else if x = newline_chr then dep_word (CHR '' '' # r') buf2
                else dep_word r (buf2 @ [CHR 0x5C]))
      else if c = CHR ''$'' then
        (case cs of [] \<Rightarrow> None | x # r \<Rightarrow> if x = CHR ''$'' then dep_word r (buf @ [x]) else None)
      else dep_word cs (buf @ [c]))"
  by pat_completeness auto
termination
  by (relation "measure (length \<circ> fst)")
    (auto simp del: dep_slashes.simps dest!: dep_slashes_length [OF sym])

declare dep_word.simps [simp del]

text \<open>Blanks and escaped newlines between words.\<close>

fun dep_gap :: "string \<Rightarrow> string option" where
  "dep_gap [] = Some []"
| "dep_gap (c # cs) =
     (if c = CHR 0x5C then
        (case cs of [] \<Rightarrow> None | x # r \<Rightarrow> if x = newline_chr then dep_gap r else None)
      else if isblank c then dep_gap cs
      else Some (c # cs))"

text \<open>
  The outer loop. A turn that ends where it began, after the colon, with nothing in the
  buffer, goes on for ever.
\<close>

function depsparse_loop ::
    "string \<Rightarrow> bool \<Rightarrow> string option \<Rightarrow> nat list \<Rightarrow> samu \<Rightarrow> samu_error + nat list option \<times> samu" where
  "depsparse_loop cs sawcolon out deps st =
     (case dep_word cs [] of
        None \<Rightarrow> Inr (None, st)
      | Some (cs1, buf) \<Rightarrow>
        if sawcolon then
          (if cs1 \<noteq> [] \<and> \<not> isspace (hd cs1) then Inr (None, st)
           else
             bindE (if length buf > 0
                    then bindE (mknode buf st) (\<lambda>(n, st1). Inr (deps @ [n], st1))
                    else Inr (deps, st)) (\<lambda>(deps1, st1).
             let nl = (cs1 \<noteq> [] \<and> hd cs1 = newline_chr);
                 cs2 = (if nl then dropWhile (\<lambda>c. c = newline_chr) cs1 else cs1)
             in if cs2 = [] then Inr (Some deps1, st1)
                else (case dep_gap cs2 of
                        None \<Rightarrow> Inr (None, st1)
                      | Some cs3 \<Rightarrow>
                        if length cs3 < length cs then depsparse_loop cs3 (\<not> nl) out deps1 st1
                        else Inl Diverges)))
        else
          (let cs2 = dropWhile isblank cs1
           in if cs2 = [] then Inr (Some deps, st)
              else if hd cs2 \<noteq> CHR '':'' then Inr (None, st)
              else if out \<noteq> None \<and> out \<noteq> Some buf then Inr (None, st)
              else (case dep_gap (tl cs2) of
                      None \<Rightarrow> Inr (None, st)
                    | Some cs3 \<Rightarrow>
                      if length cs3 < length cs then depsparse_loop cs3 True (Some buf) deps st
                      else Inl Diverges)))"
  by pat_completeness auto
termination
  by (relation "measure (\<lambda>(cs, sawcolon, out, deps, st). length cs)") auto

declare depsparse_loop.simps [simp del]

text \<open>\<open>None\<close> is NULL.\<close>

definition depsparse :: "file_result \<Rightarrow> bool \<Rightarrow> samu \<Rightarrow> samu_error + nat list option \<times> samu" where
  "depsparse file allowmissing st =
     (case file of
        Missing \<Rightarrow> Inr (if allowmissing then Some [] else None, st)
      | Unreadable \<Rightarrow> Inr (None, st)
      | File s \<Rightarrow> depsparse_loop s False None [] st)"

section \<open>Loading and recording an edge's dependencies\<close>

text \<open>The end of \<open>depsload\<close>: \<open>deps\<close> is NULL or an array of pointers.\<close>

definition deps_loaded :: "nat \<Rightarrow> nat \<Rightarrow> nat option list option \<Rightarrow> samu \<Rightarrow> samu_error + samu" where
  "deps_loaded e n deps st =
     (case deps of
        None \<Rightarrow> Inr (set_flags e (\<lambda>f. f\<lparr>FLAG_DIRTY_OUT := True\<rparr>) (upd_node n (\<lambda>x. x\<lparr>ndirty := True\<rparr>) st))
      | Some ptrs \<Rightarrow>
        if None \<in> set ptrs then Inl Bad_access else Inr (edgeadddeps e (map the ptrs) st))"

definition depsload :: "(string \<Rightarrow> file_result) \<Rightarrow> nat \<Rightarrow> depslog \<Rightarrow> samu \<Rightarrow> samu_error + samu" where
  "depsload fs e d st =
     (if FLAG_DEPS (eflags (edges_of st e)) then Inr st
      else
        let st1 = set_flags e (\<lambda>f. f\<lparr>FLAG_DEPS := True\<rparr>) st
        in case eout (edges_of st1 e) of
             [] \<Rightarrow> Inl Bad_access
           | n # _ \<Rightarrow>
             bindE (edgevar st1 e ''deps'' True) (\<lambda>deptype.
               if deptype \<noteq> None then
                 (if nid (nodes_of st1 n) = - 1 then deps_loaded e n None st1
                  else case dentry_at d (nat (nid (nodes_of st1 n))) of
                         None \<Rightarrow> Inl Bad_access
                       | Some en \<Rightarrow>
                         deps_loaded e n
                           (if nmtime (nodes_of st1 n) \<le> dmtime en then Some (ddeps en) else None) st1)
               else
                 bindE (edgevar st1 e ''depfile'' False) (\<lambda>depfile.
                   case depfile of
                     None \<Rightarrow> Inr st1
                   | Some name \<Rightarrow>
                     bindE (depsparse (fs name) False st1) (\<lambda>(deps, st2).
                     deps_loaded e n (map_option (map Some) deps) st2))))"

text \<open>
  Does the record of \<open>out\<close> differ from what was found? The comparison of the dependencies stops
  at the first difference.
\<close>

definition deps_differ :: "dentry \<Rightarrow> int \<Rightarrow> nat list \<Rightarrow> bool" where
  "deps_differ en mtime deps =
     (dmtime en \<noteq> mtime \<or> length (ddeps en) \<noteq> length deps \<or> ddeps en \<noteq> map Some deps)"

definition record_ids :: "nat list \<Rightarrow> bool \<times> samu \<times> depslog \<Rightarrow> samu_error + bool \<times> samu \<times> depslog" where
  "record_ids deps s0 =
     foldE (\<lambda>n (update, st, d).
       bindE (recordid n (st, d)) (\<lambda>(new, st1, d1). Inr (update \<or> new, st1, d1))) deps s0"

text \<open>The end of \<open>depsrecord\<close>: the IDs, and a dependency record if something is new.\<close>

definition depsupdate :: "nat \<Rightarrow> nat list \<Rightarrow> samu \<times> depslog \<Rightarrow> samu_error + samu \<times> depslog" where
  "depsupdate out deps = (\<lambda>(st1, d1).
     bindE (recordid out (st1, d1)) (\<lambda>(new, st2, d2).
     bindE (if new then Inr True
            else case dentry_at d2 (nat (nid (nodes_of st2 out))) of
                   None \<Rightarrow> Inl Bad_access
                 | Some en \<Rightarrow> Inr (deps_differ en (nmtime (nodes_of st2 out)) deps)) (\<lambda>update.
     bindE (record_ids deps (update, st2, d2)) (\<lambda>(update', st3, d3).
       if update' then
         bindE (recorddeps out deps (nmtime (nodes_of st3 out)) (st3, d3)) (\<lambda>d4. Inr (st3, d4))
       else Inr (st3, d3)))))"

text \<open>\<open>remove(depfile)\<close> appends to \<open>dremoved\<close>. \<open>keep\<close> is \<open>buildopts.keepdepfile\<close>.\<close>

definition depsrecord ::
    "(string \<Rightarrow> file_result) \<Rightarrow> bool \<Rightarrow> nat \<Rightarrow> samu \<times> depslog \<Rightarrow> samu_error + samu \<times> depslog" where
  "depsrecord fs keep e = (\<lambda>(st, d).
     bindE (edgevar st e ''deps'' True) (\<lambda>deptype.
     if deptype = None \<or> deptype = Some [] then Inr (st, d)
     else if deptype \<noteq> Some ''gcc'' then Inr (st, d)
     else
       bindE (edgevar st e ''depfile'' False) (\<lambda>depfile.
       case depfile of
         None \<Rightarrow> Inr (st, d)
       | Some name \<Rightarrow>
         if name = [] then Inr (st, d)
         else
           case eout (edges_of st e) of
             [] \<Rightarrow> Inl Bad_access
           | out # _ \<Rightarrow>
             bindE (depsparse (fs name) True st) (\<lambda>(r, st1).
             let d1 = (if keep then d else d\<lparr>dremoved := dremoved d @ [name]\<rparr>)
             in case r of
                  None \<Rightarrow> Inr (st1, d1)
                | Some deps \<Rightarrow>
                  depsupdate out deps (st1, d1)))))"

end
