(* ===== verification/Samu_Deps_Laws.thy ===== *)
theory Samu_Deps_Laws
  imports Samu_Deps Samu_Graph_Laws
begin

text \<open>
  What holds of the dependency log and of depfiles (\<open>deps.c\<close>): reading inverts writing, a
  rewritten log is well-formed, a plain depfile gives its dependencies, and three states in
  which the code goes wrong.
\<close>

section \<open>The log as a list of records\<close>

text \<open>A node record, and the dependencies (by ID) of the node with an ID, with its time.\<close>

datatype dep_op = Op_id string | Op_deps nat int "nat list"

fun encode_ops :: "nat \<Rightarrow> dep_op list \<Rightarrow> string" where
  "encode_ops k [] = []"
| "encode_ops k (Op_id p # ops) = id_record k p @ encode_ops (k + 1) ops"
| "encode_ops k (Op_deps i m ids # ops) = deps_record (int i) m (map int ids) @ encode_ops k ops"

fun count_ids :: "dep_op list \<Rightarrow> nat" where
  "count_ids [] = 0"
| "count_ids (Op_id p # ops) = count_ids ops + 1"
| "count_ids (Op_deps i m ids # ops) = count_ids ops"

definition path_ok :: "string \<Rightarrow> bool" where
  "path_ok p \<longleftrightarrow> p \<noteq> [] \<and> last p \<noteq> CHR 0x00"

fun valid_ops :: "nat \<Rightarrow> dep_op list \<Rightarrow> bool" where
  "valid_ops k [] = True"
| "valid_ops k (Op_id p # ops) =
     (path_ok p \<and> length p + 8 < MAX_RECORD_SIZE \<and> k < INT32_MAX \<and> valid_ops (k + 1) ops)"
| "valid_ops k (Op_deps i m ids # ops) =
     (i < k \<and> k \<le> INT32_MAX \<and> (\<forall>j \<in> set ids. j < k) \<and> 16 + length ids * 4 < MAX_RECORD_SIZE \<and>
      - (2 ^ 63) \<le> m \<and> m < 2 ^ 63 \<and> valid_ops k ops)"

text \<open>What the records mean: what \<open>depsinit\<close> does with each, without the bytes.\<close>

definition replay_id :: "string \<Rightarrow> samu \<Rightarrow> depslog \<Rightarrow> samu_error + samu \<times> depslog" where
  "replay_id p st d =
     bindE (mknode p st) (\<lambda>(n, st1).
       Inr (upd_node n (\<lambda>x. x\<lparr>nid := int (dlen d)\<rparr>) st1,
            (grow_entries d)\<lparr>dentries := (dentries (grow_entries d))[dlen d := Some \<lparr>dnode = n, ddeps = [], dmtime = 0\<rparr>],
                             dlen := dlen d + 1\<rparr>))"

definition replay_deps :: "nat \<Rightarrow> int \<Rightarrow> nat list \<Rightarrow> samu \<Rightarrow> depslog \<Rightarrow> samu_error + depslog" where
  "replay_deps i m ids st d =
     (case dentry_at d i of
        None \<Rightarrow> Inl Bad_access
      | Some en \<Rightarrow>
        let d1 = d\<lparr>dentries := (dentries d)[i := Some (en\<lparr>dmtime := m\<rparr>)]\<rparr>
        in case ngen (nodes_of st (dnode en)) of
             None \<Rightarrow> Inr d1
           | Some e \<Rightarrow>
             bindE (edgevar st e ''deps'' True) (\<lambda>v.
               Inr (if v = None then d1
                    else d1\<lparr>dentries := (dentries d1)[i := Some (en\<lparr>dmtime := m,
                       ddeps := map (\<lambda>j. map_option dnode (dentry_at d1 j)) ids\<rparr>)]\<rparr>)))"

fun replay :: "dep_op list \<Rightarrow> samu \<Rightarrow> depslog \<Rightarrow> samu_error + samu \<times> depslog" where
  "replay [] st d = Inr (st, d)"
| "replay (Op_id p # ops) st d = bindE (replay_id p st d) (\<lambda>(st1, d1). replay ops st1 d1)"
| "replay (Op_deps i m ids # ops) st d = bindE (replay_deps i m ids st d) (\<lambda>d1. replay ops st d1)"

section \<open>Bytes\<close>

lemma de32_take: "4 \<le> n \<Longrightarrow> de32 (take n bs) = de32 bs"
  by (simp add: de32_def)

lemma de32_app: "length w = 4 \<Longrightarrow> de32 (w @ r) = de32 w"
  by (simp add: de32_def nth_append)

lemma u32_bound: "u32 n < 2 ^ 32"
  by (simp add: u32_def nat_less_iff)

lemma id_size:
  assumes "length p + 8 < MAX_RECORD_SIZE"
  shows "id_record_size p = (length p + 7) div 4 * 4" and "length p + 4 \<le> id_record_size p"
    and "id_record_size p \<le> length p + 7" and "id_record_size p mod 4 = 0"
    and "id_record_size p < MAX_RECORD_SIZE"
proof -
  have "(length p + 7) div 4 * 4 \<le> length p + 7" by simp
  then have "(length p + 7) div 4 * 4 < 2 ^ 32" using assms by (simp add: MAX_RECORD_SIZE_def)
  then show e: "id_record_size p = (length p + 7) div 4 * 4" by (simp add: id_record_size_def)
  show "length p + 4 \<le> id_record_size p" "id_record_size p \<le> length p + 7" "id_record_size p mod 4 = 0"
    unfolding e by presburger+
  then show "id_record_size p < MAX_RECORD_SIZE" using assms by simp
qed

lemma id_record_parts:
  assumes "length p + 8 < MAX_RECORD_SIZE" and "k < INT32_MAX"
  defines "buf \<equiv> drop 4 (id_record k p)"
  shows "id_record k p = le32 (id_record_size p) @ buf" and "length buf = id_record_size p"
    and "word_at buf (length buf div 4 - 1) = 2 ^ 32 - 1 - k"
    and "take (length buf - 4) buf = p @ replicate (id_record_size p - length p - 4) (CHR 0x00)"
proof -
  note s = id_size [OF assms(1)]
  let ?pad = "replicate (id_record_size p - length p - 4) (CHR 0x00)"
  have buf: "buf = (p @ ?pad) @ le32 (2 ^ 32 - 1 - k)" by (simp add: buf_def id_record_def)
  show "id_record k p = le32 (id_record_size p) @ buf" by (simp add: buf_def id_record_def)
  show len: "length buf = id_record_size p" using s(2) by (simp add: buf)
  have pos: "4 * (length buf div 4 - 1) = length (p @ ?pad)"
  proof -
    obtain q where q: "id_record_size p = q * 4" using s(1) by blast
    then show ?thesis using s(2) by (simp add: len q)
  qed
  have "drop (4 * (length buf div 4 - 1)) buf = le32 (2 ^ 32 - 1 - k)"
    unfolding pos by (subst buf) simp
  then show "word_at buf (length buf div 4 - 1) = 2 ^ 32 - 1 - k"
    using de32_le32 [of "2 ^ 32 - 1 - k" "[]"] by (simp add: word_at_def)
  show "take (length buf - 4) buf = p @ ?pad" by (subst buf, subst buf) simp
qed

lemma strip_pad: "path_ok p \<Longrightarrow> strip_NULs (p @ replicate n (CHR 0x00)) = p"
proof -
  assume "path_ok p"
  then obtain q c where p: "p = q @ [c]" "c \<noteq> CHR 0x00"
    by (cases p rule: rev_cases) (auto simp: path_ok_def)
  have "dropWhile (\<lambda>c. c = CHR 0x00) (replicate n (CHR 0x00) @ c # rev q) = c # rev q"
    using p(2) by (induction n) auto
  then show ?thesis by (simp add: strip_NULs_def p)
qed

lemma read_id_record:
  assumes "path_ok p" and "length p + 8 < MAX_RECORD_SIZE" and "dlen d < INT32_MAX"
  shows "read_id (drop 4 (id_record (dlen d) p)) st d =
    bindE (replay_id p st d) (\<lambda>(st1, d1). Inr (True, st1, d1))"
proof -
  let ?buf = "drop 4 (id_record (dlen d) p)"
  note r = id_record_parts [OF assms(2,3)] and s = id_size [OF assms(2)]
  have "\<not> length ?buf \<le> 4" using r(2) s(2) assms(1) by (cases p) (auto simp: path_ok_def)
  moreover have "dlen d = 2 ^ 32 - 1 - word_at ?buf (length ?buf div 4 - 1)"
    using assms(3) by (simp only: r(3)) (simp add: INT32_MAX_def)
  moreover have "strip_NULs (take (length ?buf - 4) ?buf) = p"
    by (simp only: r(4) strip_pad [OF assms(1)])
  moreover have "dlen d \<noteq> INT32_MAX" "p \<noteq> []" using assms by (auto simp: path_ok_def)
  ultimately show ?thesis
    by (cases "mknode p st") (auto simp: read_id_def replay_id_def Let_def)
qed

lemma words_concat:
  "j < length ws \<Longrightarrow> (\<And>w. w \<in> set ws \<Longrightarrow> w < 2 ^ 32) \<Longrightarrow> word_at (concat (map le32 ws)) j = ws ! j"
proof (induction ws arbitrary: j)
  case (Cons w ws)
  show ?case
  proof (cases j)
    case 0
    then show ?thesis using Cons.prems(2) [of w] by (simp add: word_at_def de32_le32)
  next
    case (Suc i)
    then have "word_at (concat (map le32 (w # ws))) j = word_at (concat (map le32 ws)) i"
      by (simp add: word_at_def)
    then show ?thesis using Cons Suc by simp
  qed
qed simp

lemma le32_concat_length: "length (concat (map le32 ws)) = 4 * length ws"
  by (induction ws) simp_all

definition deps_words :: "int \<Rightarrow> int \<Rightarrow> int list \<Rightarrow> nat list" where
  "deps_words i m ids = u32 i # u32 m # u32 (m div 2 ^ 32) # map u32 ids"

lemma deps_record_words:
  "deps_record i m ids = le32 (deps_record_size (length ids) + 2 ^ 31) @ concat (map le32 (deps_words i m ids))"
  by (simp add: deps_record_def deps_words_def comp_def)

lemma u32_small: "n < 2 ^ 32 \<Longrightarrow> u32 (int n) = n"
  by (simp add: u32_def)

lemma mtime_halves:
  assumes "- (2 ^ 63) \<le> m" and "m < 2 ^ 63"
  shows "to_int64 (int (u32 (m div 2 ^ 32)) * 2 ^ 32 + int (u32 m)) = m"
proof -
  have "(m div 2 ^ 32 mod 2 ^ 32) * 2 ^ 32 + m mod 2 ^ 32 = m mod 2 ^ 64"
    using zmod_zmult2_eq [of "2 ^ 32" m "2 ^ 32"] by (simp add: mult.commute)
  then have *: "int (u32 (m div 2 ^ 32)) * 2 ^ 32 + int (u32 m) = m mod 2 ^ 64"
    by (simp add: u32_def)
  have "(m mod 2 ^ 64 + 2 ^ 63) mod 2 ^ 64 = (m + 2 ^ 63) mod 2 ^ 64" by (rule mod_add_left_eq)
  also have "\<dots> = m + 2 ^ 63" using assms by (intro mod_pos_pos_trivial) simp_all
  finally show ?thesis unfolding * by (simp add: to_int64_def)
qed

lemma read_deps_record:
  assumes "i < dlen d" and "dlen d \<le> INT32_MAX" and "\<forall>j \<in> set ids. j < dlen d"
    and "- (2 ^ 63) \<le> m" and "m < 2 ^ 63"
  shows "read_deps (concat (map le32 (deps_words (int i) m (map int ids)))) st d =
    bindE (replay_deps i m ids st d) (\<lambda>d1. Inr (True, d1))"
proof -
  let ?ws = "deps_words (int i) m (map int ids)"
  let ?buf = "concat (map le32 ?ws)"
  have small: "j < 2 ^ 32" if "j < dlen d" for j using that assms(2) by (simp add: INT32_MAX_def)
  have all: "w < 2 ^ 32" if "w \<in> set ?ws" for w using that u32_bound by (auto simp: deps_words_def)
  have w: "word_at ?buf j = ?ws ! j" if "j < length ids + 3" for j
  proof (rule words_concat)
    show "j < length ?ws" using that by (simp add: deps_words_def)
  qed (rule all)
  have len: "length ?buf = 12 + 4 * length ids"
    by (simp only: le32_concat_length) (simp add: deps_words_def)
  have w0: "word_at ?buf 0 = i"
    using w [of 0] u32_small [OF small [OF assms(1)]] by (simp add: deps_words_def)
  have w12: "word_at ?buf 1 = u32 m" "word_at ?buf 2 = u32 (m div 2 ^ 32)"
    using w [of 1] w [of 2] by (simp_all add: deps_words_def)
  have t: "to_int64 (int (word_at ?buf 2) * 2 ^ 32 + int (word_at ?buf 1)) = m"
    unfolding w12 by (rule mtime_halves [OF assms(4,5)])
  have "word_at ?buf (3 + j) = ids ! j" if "j < length ids" for j
  proof -
    have "?ws ! (3 + j) = u32 (int (ids ! j))" using that by (simp add: deps_words_def numeral_3_eq_3)
    then show ?thesis using w [of "3 + j"] that small assms(3) by (simp add: u32_small)
  qed
  then have ids: "map (\<lambda>j. word_at ?buf (3 + j)) [0..<length ids] = ids"
    by (intro nth_equalityI) simp_all
  have good: "takeWhile (\<lambda>k. k < dlen d) ids = ids" using assms(3) by (simp add: takeWhile_eq_all_conv)
  have ge: "\<not> length ?buf < 12" "\<not> i \<ge> dlen d" using len assms(1) by simp_all
  have n: "(length ?buf - 12) div 4 = length ids" using len by simp
  show ?thesis
  proof (cases "dentry_at d i")
    case None
    then show ?thesis unfolding read_deps_def replay_deps_def w0 Let_def using ge by simp
  next
    case (Some en)
    show ?thesis
    proof (cases "ngen (nodes_of st (dnode en))")
      case None
      then show ?thesis
        unfolding read_deps_def replay_deps_def w0 t Let_def using ge Some by simp
    next
      case (Some e)
      then show ?thesis
        unfolding read_deps_def replay_deps_def w0 t Let_def n ids good
        using ge \<open>dentry_at d i = Some en\<close>
        by (cases "edgevar st e ''deps'' True") simp_all
    qed
  qed
qed

text \<open>One record at the head of the input.\<close>

lemma deps_read_step:
  assumes "bs = le32 (sz + (if dep then 2 ^ 31 else 0)) @ buf @ rest" and "length buf = sz"
    and "0 < sz" and "sz \<le> MAX_RECORD_SIZE" and "sz mod 4 = 0"
  shows "deps_read bs k st d =
    (if dep then
       bindE (read_deps buf st d) (\<lambda>(good, d1).
         if good then deps_read rest (k + 1) st d1 else Inr (False, k, st, d1))
     else
       bindE (read_id buf st d) (\<lambda>(good, st1, d1).
         if good then deps_read rest (k + 1) st1 d1 else Inr (False, k, st1, d1)))"
proof -
  have "sz + (if dep then 2 ^ 31 else 0) < 2 ^ 32" using assms(4) by (simp add: MAX_RECORD_SIZE_def)
  then have w: "de32 bs = sz + (if dep then 2 ^ 31 else 0)" using de32_le32 assms(1) by blast
  have sz: "de32 bs mod 2 ^ 31 = sz" "(de32 bs \<ge> 2 ^ 31) = dep"
    using assms(4) by (auto simp: w MAX_RECORD_SIZE_def)
  have body: "drop 4 bs = buf @ rest" "4 \<le> length bs" using assms(1) by simp_all
  have ok: "\<not> (sz > MAX_RECORD_SIZE \<or> sz = 0 \<or> length (buf @ rest) < sz \<or> sz mod 4 \<noteq> 0)"
    using assms(2-5) by simp
  have parts: "take sz (buf @ rest) = buf" "drop sz (buf @ rest) = rest" using assms(2) by simp_all
  show ?thesis
    by (subst deps_read.simps)
      (simp only: sz body parts ok Let_def not_less [THEN iffD2] if_False if_True not_less body(2))
qed

lemma replay_id_len: "replay_id p st d = Inr (st1, d1) \<Longrightarrow> dlen d1 = dlen d + 1"
  by (auto simp: replay_id_def monad_simps)

lemma replay_deps_len: "replay_deps i m ids st d = Inr d1 \<Longrightarrow> dlen d1 = dlen d"
  by (auto simp: replay_deps_def Let_def monad_simps split: option.splits)

lemma deps_read_encoded:
  "valid_ops (dlen d) ops \<Longrightarrow> length rest < 4 \<Longrightarrow>
     deps_read (encode_ops (dlen d) ops @ rest) k st d =
       bindE (replay ops st d) (\<lambda>(st1, d1). Inr (True, k + length ops, st1, d1))"
proof (induction ops arbitrary: st d k)
  case Nil
  then show ?case by (subst deps_read.simps) simp
next
  case (Cons x ops)
  show ?case
  proof (cases x)
    case (Op_id p)
    then have v: "path_ok p" "length p + 8 < MAX_RECORD_SIZE" "dlen d < INT32_MAX" "valid_ops (dlen d + 1) ops"
      using Cons.prems by simp_all
    let ?buf = "drop 4 (id_record (dlen d) p)"
    note r = id_record_parts [OF v(2,3)] and s = id_size [OF v(2)]
    have "id_record (dlen d) p @ y = le32 (id_record_size p) @ ?buf @ y" for y
      using arg_cong [OF r(1), of "\<lambda>z. z @ y"] by simp
    then have e: "encode_ops (dlen d) (x # ops) @ rest =
        le32 (id_record_size p + (if False then 2 ^ 31 else 0)) @ ?buf @ encode_ops (dlen d + 1) ops @ rest"
      by (simp add: Op_id)
    have pos: "0 < id_record_size p" using s(2) by simp
    have "deps_read (encode_ops (dlen d) (x # ops) @ rest) k st d =
        bindE (read_id ?buf st d) (\<lambda>(good, st1, d1).
          if good then deps_read (encode_ops (dlen d + 1) ops @ rest) (k + 1) st1 d1 else Inr (False, k, st1, d1))"
      using deps_read_step [OF e r(2) pos less_imp_le [OF s(5)] s(4)] by (simp only: if_False)
    also have "\<dots> = bindE (replay (x # ops) st d) (\<lambda>(st1, d1). Inr (True, k + length (x # ops), st1, d1))"
    proof (cases "replay_id p st d")
      case (Inr y)
      obtain st1 d1 where y: "y = (st1, d1)" by (cases y)
      have l: "dlen d1 = dlen d + 1" using replay_id_len Inr y by blast
      show ?thesis unfolding read_id_record [OF v(1-3)] Inr y Op_id
        using Cons.IH [of d1 "k + 1" st1] v(4) Cons.prems(2) Inr y by (simp add: l case_prod_unfold)
    qed (simp add: read_id_record [OF v(1-3)] Op_id)
    finally show ?thesis .
  next
    case (Op_deps i m ids)
    then have v: "i < dlen d" "dlen d \<le> INT32_MAX" "\<forall>j \<in> set ids. j < dlen d"
        "16 + length ids * 4 < MAX_RECORD_SIZE" "- (2 ^ 63) \<le> m" "m < 2 ^ 63" "valid_ops (dlen d) ops"
      using Cons.prems by simp_all
    let ?buf = "concat (map le32 (deps_words (int i) m (map int ids)))"
    have sz: "deps_record_size (length ids) = 12 + length ids * 4"
      using v(4) by (simp add: deps_record_size_def MAX_RECORD_SIZE_def)
    have len: "length ?buf = 12 + length ids * 4"
      by (simp only: le32_concat_length) (simp add: deps_words_def)
    have e: "encode_ops (dlen d) (x # ops) @ rest =
        le32 (12 + length ids * 4 + (if True then 2 ^ 31 else 0)) @ ?buf @ encode_ops (dlen d) ops @ rest"
      by (simp add: Op_deps deps_record_words sz)
    have pos: "0 < 12 + length ids * 4" "12 + length ids * 4 \<le> MAX_RECORD_SIZE" "(12 + length ids * 4) mod 4 = 0"
      using v(4) by (simp, linarith, presburger)
    have "deps_read (encode_ops (dlen d) (x # ops) @ rest) k st d =
        bindE (read_deps ?buf st d) (\<lambda>(good, d1).
          if good then deps_read (encode_ops (dlen d) ops @ rest) (k + 1) st d1 else Inr (False, k, st, d1))"
      using deps_read_step [OF e len pos] by (simp only: if_True)
    also have "\<dots> = bindE (replay (x # ops) st d) (\<lambda>(st1, d1). Inr (True, k + length (x # ops), st1, d1))"
    proof (cases "replay_deps i m ids st d")
      case (Inr d1)
      have l: "dlen d1 = dlen d" using replay_deps_len Inr by blast
      show ?thesis unfolding read_deps_record [OF v(1-3,5,6)] Inr Op_deps
        using Cons.IH [of d1 "k + 1" st] v(7) Cons.prems(2) Inr by (simp add: l case_prod_unfold)
    qed (simp add: read_deps_record [OF v(1-3,5,6)] Op_deps)
    finally show ?thesis .
  qed
qed

section \<open>Depfiles\<close>

text \<open>A target as gcc writes it: blanks and \<open>#\<close> after a backslash, \<open>$\<close> doubled.\<close>

definition dep_plain :: "char \<Rightarrow> bool" where
  "dep_plain c \<longleftrightarrow> (dep_char c \<and> c \<noteq> CHR 0x5C) \<or> c = CHR '' '' \<or> c = CHR ''#''"

fun dep_escape :: "string \<Rightarrow> string" where
  "dep_escape [] = []"
| "dep_escape (c # cs) =
     (if c = CHR '' '' \<or> c = CHR ''#'' then [CHR 0x5C, c]
      else if c = CHR ''$'' then [c, c] else [c]) @ dep_escape cs"

lemma dep_chars [simp]:
  "\<not> dep_char (CHR '' '')" "\<not> dep_char (CHR ''#'')" "\<not> dep_char (CHR '':'')" "\<not> dep_char newline_chr"
  "\<not> dep_char return_chr" "dep_char (CHR ''$'')" "dep_char (CHR 0x5C)"
  by (simp_all add: dep_char_def isalnum_def isalpha_def isdigit_def chr_defs less_eq_char_def)

lemma dep_word_escape:
  assumes "list_all dep_plain p" and "r \<noteq> [] \<longrightarrow> \<not> dep_char (hd r)"
  shows "dep_word (dep_escape p @ r) buf = Some (r, buf @ p)"
  using assms(1)
proof (induction p arbitrary: buf)
  case Nil
  then show ?case using assms(2) by (cases r) (simp_all add: dep_word.simps)
next
  case (Cons c p)
  then have ih: "dep_word (dep_escape p @ r) (buf @ [c]) = Some (r, buf @ c # p)" by simp
  have c: "dep_plain c" using Cons.prems by simp
  show ?case
  proof (cases "c = CHR '' '' \<or> c = CHR ''#''")
    case True
    then have "dep_slashes (CHR 0x5C # c # dep_escape p @ r) 0 buf = (1, buf, c # dep_escape p @ r)" by auto
    then have "dep_word (CHR 0x5C # c # dep_escape p @ r) buf = dep_word (dep_escape p @ r) (buf @ [c])"
      using True by (subst dep_word.simps) (auto simp: tab_chr_def simp del: dep_slashes.simps)
    then show ?thesis using ih True by simp
  next
    case False
    then have "dep_char c" "c \<noteq> CHR 0x5C" using c by (auto simp: dep_plain_def)
    then show ?thesis using ih False by (auto simp: dep_word.simps(2))
  qed
qed

text \<open>The nodes of a list of paths, made from left to right.\<close>

definition mknodes :: "string list \<Rightarrow> nat list \<times> samu \<Rightarrow> samu_error + nat list \<times> samu" where
  "mknodes = foldE (\<lambda>p (ns, st). bindE (mknode p st) (\<lambda>(n, st1). Inr (ns @ [n], st1)))"

definition depfile_rest :: "string list \<Rightarrow> string" where
  "depfile_rest ps = concat (map (\<lambda>p. CHR '' '' # dep_escape p) ps) @ [newline_chr]"

definition depfile :: "string \<Rightarrow> string list \<Rightarrow> string" where
  "depfile out ps = dep_escape out @ CHR '':'' # depfile_rest ps"

definition dep_path :: "string \<Rightarrow> bool" where
  "dep_path p \<longleftrightarrow> p \<noteq> [] \<and> list_all dep_plain p \<and> hd p \<noteq> CHR '' '' \<and> hd p \<noteq> CHR ''#''"

lemma depfile_rest_simps [simp]:
  "depfile_rest [] = [newline_chr]"
  "depfile_rest (p # ps) = CHR '' '' # dep_escape p @ depfile_rest ps"
  by (simp_all add: depfile_rest_def)

lemma depfile_rest_hd: "depfile_rest ps \<noteq> [] \<and> \<not> dep_char (hd (depfile_rest ps)) \<and> isspace (hd (depfile_rest ps))"
  by (cases ps) (simp_all add: isspace_def)

lemma depfile_target:
  assumes "dep_word cs [] = Some (CHR '':'' # r, out)" and "dep_gap r = Some cs3" and "length cs3 < length cs"
  shows "depsparse (File cs) am st = depsparse_loop cs3 True (Some out) [] st"
  using assms by (simp add: depsparse_def depsparse_loop.simps [of cs] isblank_def tab_chr_def)

lemma dep_gap_escape: "dep_path p \<Longrightarrow> dep_gap (dep_escape p @ r) = Some (dep_escape p @ r)"
  by (cases p) (auto simp: dep_path_def dep_plain_def isblank_def dep_char_def chr_defs
      isalnum_def isalpha_def isdigit_def less_eq_char_def)

lemma dep_escape_nonempty: "dep_path p \<Longrightarrow> dep_escape p \<noteq> []"
  by (cases p) (auto simp: dep_path_def)

lemma mknodes_simps:
  "mknodes [] s = Inr s"
  "mknodes (p # ps) (ns, st) = bindE (mknode p st) (\<lambda>(n, st1). mknodes ps (ns @ [n], st1))"
  by (simp_all add: mknodes_def bindE_assoc) (auto simp: case_prod_unfold intro!: bindE_cong)

lemma depfile_words:
  "dep_path p \<Longrightarrow> list_all dep_path ps \<Longrightarrow>
     depsparse_loop (dep_escape p @ depfile_rest ps) True out ns st =
       bindE (mknodes (p # ps) (ns, st)) (\<lambda>(ns1, st1). Inr (Some ns1, st1))"
proof (induction ps arbitrary: p ns st)
  case Nil
  have "dep_word (dep_escape p @ depfile_rest []) [] = Some (depfile_rest [], p)"
    using dep_word_escape [of p "depfile_rest []" "[]"] depfile_rest_hd [of "[]"] Nil.prems(1)
    by (simp add: dep_path_def)
  then show ?case using Nil.prems
    by (subst depsparse_loop.simps)
      (simp add: mknodes_simps isspace_def bindE_assoc case_prod_unfold dep_path_def)
next
  case (Cons q ps)
  have q: "dep_path q" "list_all dep_path ps" using Cons.prems(2) by simp_all
  have w: "dep_word (dep_escape p @ depfile_rest (q # ps)) [] = Some (depfile_rest (q # ps), p)"
    using dep_word_escape [of p "depfile_rest (q # ps)" "[]"] depfile_rest_hd [of "q # ps"] Cons.prems(1)
    by (simp add: dep_path_def)
  have g: "dep_gap (CHR '' '' # dep_escape q @ depfile_rest ps) = Some (dep_escape q @ depfile_rest ps)"
    using dep_gap_escape [OF q(1)] by (simp add: isblank_def)
  have p: "p \<noteq> []" "dep_escape p \<noteq> []" using Cons.prems(1) dep_escape_nonempty by (auto simp: dep_path_def)
  show ?case
    using w g p Cons.IH [OF q]
    by (subst depsparse_loop.simps)
      (simp add: mknodes_simps isspace_def newline_chr_def bindE_assoc case_prod_unfold del: dep_gap.simps)
qed

section \<open>The log that is written\<close>

text \<open>
  The open log is the header and a valid list of records, with as many node records as IDs
  have been given; no node has an ID that is not in it. Sizes stay below what \<open>uint32_t\<close>
  holds, and no path ends with a NUL.
\<close>

definition deps_node_ok :: "depslog \<Rightarrow> node \<Rightarrow> bool" where
  "deps_node_ok d x \<longleftrightarrow> path_ok (npath x) \<and> length (npath x) < 2 ^ 31 \<and>
     - (2 ^ 63) \<le> nmtime x \<and> nmtime x < 2 ^ 63 \<and> - 1 \<le> nid x \<and> nid x < int (dlen d)"

definition deps_log_ok :: "samu \<Rightarrow> depslog \<Rightarrow> bool" where
  "deps_log_ok st d \<longleftrightarrow> nodes_wf st \<and> (\<forall>n < nnodes st. deps_node_ok d (nodes_of st n)) \<and>
     (\<exists>ops. dfile d = depsheader @ le32 depsver @ encode_ops 0 ops \<and> valid_ops 0 ops \<and>
        count_ids ops = dlen d) \<and> dlen d \<le> INT32_MAX"

lemma encode_ops_append: "encode_ops k (ops @ ops') = encode_ops k ops @ encode_ops (k + count_ids ops) ops'"
  by (induction k ops rule: encode_ops.induct) simp_all

lemma valid_ops_append: "valid_ops k (ops @ ops') \<longleftrightarrow> valid_ops k ops \<and> valid_ops (k + count_ids ops) ops'"
  by (induction k ops rule: valid_ops.induct) auto

lemma count_ids_append: "count_ids (ops @ ops') = count_ids ops + count_ids ops'"
  by (induction ops rule: count_ids.induct) simp_all

text \<open>A record appended to the file.\<close>

lemma log_grows:
  assumes "deps_log_ok st d" and "valid_ops (dlen d) [x]" and "count_ids [x] = dlen d1 - dlen d"
    and "dlen d \<le> dlen d1" and "dfile d1 = dfile d @ encode_ops (dlen d) [x]"
  shows "\<exists>ops. dfile d1 = depsheader @ le32 depsver @ encode_ops 0 ops \<and> valid_ops 0 ops \<and> count_ids ops = dlen d1"
proof -
  obtain ops where o: "dfile d = depsheader @ le32 depsver @ encode_ops 0 ops" "valid_ops 0 ops" "count_ids ops = dlen d"
    using assms(1) by (auto simp: deps_log_ok_def)
  show ?thesis
    using assms(2-5) o by (intro exI [of _ "ops @ [x]"])
      (simp del: encode_ops.simps valid_ops.simps count_ids.simps
        add: encode_ops_append valid_ops_append count_ids_append)
qed

lemma recordid_log_ok:
  assumes ok: "deps_log_ok st d" and n: "n < nnodes st" and r: "recordid n (st, d) = Inr (b, st1, d1)"
  shows "deps_log_ok st1 d1 \<and> nnodes st1 = nnodes st \<and> nid (nodes_of st1 n) \<noteq> - 1 \<and>
    (\<forall>m. nid (nodes_of st m) \<noteq> - 1 \<longrightarrow> nid (nodes_of st1 m) \<noteq> - 1) \<and>
    (\<forall>m. npath (nodes_of st1 m) = npath (nodes_of st m) \<and> nmtime (nodes_of st1 m) = nmtime (nodes_of st m))"
proof (cases "nid (nodes_of st n) = - 1")
  case True
  let ?p = "npath (nodes_of st n)"
  have x: "deps_node_ok d (nodes_of st n)" using ok n by (simp add: deps_log_ok_def)
  have len: "dlen d \<noteq> INT32_MAX" using r True by (auto simp: recordid_def split: if_splits)
  have sz: "(id_record_size ?p + 4) mod 2 ^ 32 < MAX_RECORD_SIZE"
    using r True len by (auto simp: recordid_def Let_def not_le split: if_splits)
  have st1: "st1 = upd_node n (\<lambda>x. x\<lparr>nid := int (dlen d)\<rparr>) st"
    and d1: "d1 = depswrite (id_record (dlen d) ?p) (d\<lparr>dlen := dlen d + 1\<rparr>)"
    using r True len sz by (auto simp: recordid_def Let_def)
  have lt: "dlen d < INT32_MAX" using ok len by (simp add: deps_log_ok_def)
  have small: "length ?p < 2 ^ 31" using x by (simp add: deps_node_ok_def)
  have "(length ?p + 7) div 4 * 4 \<le> length ?p + 7" by simp
  then have e: "id_record_size ?p = (length ?p + 7) div 4 * 4" "id_record_size ?p + 4 < 2 ^ 32"
    using small by (simp_all add: id_record_size_def)
  have "length ?p + 4 \<le> (length ?p + 7) div 4 * 4" by presburger
  then have fits: "length ?p + 8 < MAX_RECORD_SIZE" using sz e by simp
  have "\<exists>ops. dfile d1 = depsheader @ le32 depsver @ encode_ops 0 ops \<and> valid_ops 0 ops \<and> count_ids ops = dlen d1"
    by (rule log_grows [OF ok, of "Op_id ?p"]) (use x lt fits in \<open>simp_all add: d1 depswrite_def deps_node_ok_def\<close>)
  moreover have "nodes_wf st1" using ok by (auto simp: st1 deps_log_ok_def intro: upd_node_nodes_wf)
  moreover have "deps_node_ok d1 (nodes_of st1 m)" if "m < nnodes st" for m
  proof -
    have "deps_node_ok d (nodes_of st m)" using ok that by (simp add: deps_log_ok_def)
    then show ?thesis by (auto simp: st1 d1 depswrite_def deps_node_ok_def)
  qed
  moreover have "dlen d1 \<le> INT32_MAX" using lt by (simp add: d1 depswrite_def)
  ultimately show ?thesis by (simp add: deps_log_ok_def) (simp add: st1)
next
  case False
  then have "st1 = st" "d1 = d" using r by (auto simp: recordid_def)
  then show ?thesis using ok False by simp
qed

lemma record_ids_log_ok:
  assumes "deps_log_ok st d" and "\<forall>n \<in> set ns. n < nnodes st" and "record_ids ns (b, st, d) = Inr (b1, st1, d1)"
  shows "deps_log_ok st1 d1 \<and> nnodes st1 = nnodes st \<and> (\<forall>n \<in> set ns. nid (nodes_of st1 n) \<noteq> - 1) \<and>
    (\<forall>m. nid (nodes_of st m) \<noteq> - 1 \<longrightarrow> nid (nodes_of st1 m) \<noteq> - 1)"
  using assms
proof (induction ns arbitrary: b st d)
  case Nil
  then show ?case by (simp add: record_ids_def)
next
  case (Cons n ns)
  obtain new st2 d2 where r: "recordid n (st, d) = Inr (new, st2, d2)"
      "record_ids ns (b \<or> new, st2, d2) = Inr (b1, st1, d1)"
    using Cons.prems(3) by (auto simp: record_ids_def monad_simps)
  have "n < nnodes st" using Cons.prems(2) by simp
  note k = recordid_log_ok [OF Cons.prems(1) this r(1)]
  then have "deps_log_ok st1 d1 \<and> nnodes st1 = nnodes st2 \<and> (\<forall>n \<in> set ns. nid (nodes_of st1 n) \<noteq> - 1) \<and>
    (\<forall>m. nid (nodes_of st2 m) \<noteq> - 1 \<longrightarrow> nid (nodes_of st1 m) \<noteq> - 1)"
    using Cons.IH [OF _ _ r(2)] Cons.prems(2) by simp
  then show ?case using k by simp
qed

lemma recorddeps_log_ok:
  assumes ok: "deps_log_ok st d" and n: "n < nnodes st" "nid (nodes_of st n) \<noteq> - 1"
    and ns: "\<forall>m \<in> set ns. m < nnodes st \<and> nid (nodes_of st m) \<noteq> - 1" "length ns < 2 ^ 28"
    and r: "recorddeps n ns (nmtime (nodes_of st n)) (st, d) = Inr d1"
  shows "deps_log_ok st d1"
proof -
  let ?id = "\<lambda>m. nat (nid (nodes_of st m))" and ?m = "nmtime (nodes_of st n)"
  have node: "deps_node_ok d (nodes_of st m)" if "m < nnodes st" for m
    using ok that by (simp add: deps_log_ok_def)
  have id: "int (?id m) = nid (nodes_of st m)" "?id m < dlen d"
    if "m < nnodes st" "nid (nodes_of st m) \<noteq> - 1" for m
    using node [OF that(1)] that(2) by (auto simp: deps_node_ok_def)
  have m: "- (2 ^ 63) \<le> ?m" "?m < 2 ^ 63" using node [OF n(1)] by (simp_all add: deps_node_ok_def)
  have sz: "16 + length ns * 4 < MAX_RECORD_SIZE"
    using r ns(2) by (auto simp: recorddeps_def deps_record_size_def not_le split: if_splits)
  have ids: "map int (map ?id ns) = map (\<lambda>m. nid (nodes_of st m)) ns"
    using id(1) ns(1) by simp
  have d1: "d1 = depswrite (encode_ops (dlen d) [Op_deps (?id n) ?m (map ?id ns)]) d"
    using r by (simp only: encode_ops.simps ids id(1) [OF n] append_Nil2)
      (simp add: recorddeps_def split: if_splits)
  have "dlen d \<le> INT32_MAX" using ok by (simp add: deps_log_ok_def)
  then have "\<exists>ops. dfile d1 = depsheader @ le32 depsver @ encode_ops 0 ops \<and> valid_ops 0 ops \<and> count_ids ops = dlen d1"
    using id(2) n ns(1) m sz
    by (intro log_grows [OF ok, of "Op_deps (?id n) ?m (map ?id ns)"]) (simp_all add: d1 depswrite_def)
  then show ?thesis using ok by (simp add: deps_log_ok_def deps_node_ok_def d1 depswrite_def)
qed

lemma dep_slashes_facts:
  "dep_slashes cs n buf = (n', buf', r) \<Longrightarrow> cs \<noteq> [] \<Longrightarrow>
     n' = n + (length cs - length r) \<and> length buf' + n div 2 = length buf + n' div 2 \<and> length r < length cs \<and>
     set r \<subseteq> set cs \<and> set buf' \<subseteq> insert (CHR 0x5C) (set buf)"
proof (induction cs n buf rule: dep_slashes.induct)
  case (2 c cs n buf)
  let ?buf = "if even (n + 1) then buf @ [CHR 0x5C] else buf"
  have len: "length ?buf + n div 2 = length buf + (n + 1) div 2" by auto
  show ?case
  proof (cases "take 1 cs = [CHR 0x5C]")
    case True
    then have "cs \<noteq> []" by auto
    moreover have "dep_slashes cs (n + 1) ?buf = (n', buf', r)"
      using "2.prems"(1) True by (simp add: Let_def)
    ultimately have "n' = n + 1 + (length cs - length r) \<and>
        length buf' + (n + 1) div 2 = length ?buf + n' div 2 \<and> length r < length cs \<and>
        set r \<subseteq> set cs \<and> set buf' \<subseteq> insert (CHR 0x5C) (set ?buf)"
      using "2.IH" [OF refl refl True] by blast
    then show ?thesis using len by (auto split: if_splits)
  next
    case False
    then have "n' = n + 1" "buf' = ?buf" "r = cs" using "2.prems"(1) by (auto simp: Let_def)
    then show ?thesis using len by auto
  qed
qed simp

lemma dep_word_facts:
  "dep_word cs buf = Some (r, buf') \<Longrightarrow> CHR 0x00 \<notin> set cs \<union> set buf \<Longrightarrow>
     length r + length buf' \<le> length cs + length buf \<and> CHR 0x00 \<notin> set r \<union> set buf'"
proof (induction cs arbitrary: buf rule: measure_induct_rule [of length])
  case (less cs)
  show ?case
  proof (cases cs)
    case Nil
    then show ?thesis using less.prems by (auto simp: dep_word.simps)
  next
    case (Cons c cs')
    note ih = less.IH [unfolded Cons]
    show ?thesis
    proof (cases "dep_char c \<and> c = CHR 0x5C")
      case True
      obtain n buf1 q where q: "dep_slashes (c # cs') 0 buf = (n, buf1, q)" by (metis prod_cases3)
      define buf2 where "buf2 = buf1 @ replicate ((n - 1) div 2) (CHR 0x5C)"
      note f = dep_slashes_facts [OF q list.distinct(2)]
      have n: "0 < n" "n = length (c # cs') - length q" "length q < length (c # cs')" using f by auto
      have len: "length buf2 + 1 + length q \<le> length (c # cs') + length buf"
        "odd n \<Longrightarrow> length buf1 + 1 + length q \<le> length (c # cs') + length buf"
        using f n by (auto simp: buf2_def)
      have nul: "CHR 0x00 \<notin> set buf2" "CHR 0x00 \<notin> set buf1" "CHR 0x00 \<notin> set q"
        using f less.prems(2) by (auto simp: buf2_def Cons)
      show ?thesis
      proof (cases q)
        case Nil
        have "dep_word (c # cs') buf = Some ([], buf2 @ [CHR 0x5C])"
          using True q by (simp add: dep_word.simps(2) [of "CHR 0x5C"] buf2_def Nil del: dep_slashes.simps)
        then show ?thesis using less.prems(1) len nul by (auto simp: Cons Nil)
      next
        case (Cons x q')
        have step: "dep_word (c # cs') buf =
           (if (x = CHR '' '' \<or> x = tab_chr) \<and> odd n then dep_word q' (buf1 @ [x])
            else if x = CHR ''#'' then dep_word q' (buf2 @ [x])
            else if x = newline_chr then dep_word (CHR '' '' # q') buf2
            else dep_word (x # q') (buf2 @ [CHR 0x5C]))"
          using True q by (simp add: dep_word.simps(2) [of "CHR 0x5C"] buf2_def Cons del: dep_slashes.simps)
        then have "dep_word (c # cs') buf \<in> {dep_word (CHR '' '' # q') buf2, dep_word q' (buf2 @ [x]),
            dep_word (x # q') (buf2 @ [CHR 0x5C])} \<union> (if odd n then {dep_word q' (buf1 @ [x])} else {})"
          by auto
        then show ?thesis
          using less.prems(1) len nul n(3) ih [of "CHR '' '' # q'" buf2] ih [of q' "buf2 @ [x]"]
            ih [of "x # q'" "buf2 @ [CHR 0x5C]"] ih [of q' "buf1 @ [x]"]
          by (auto simp: Cons \<open>cs = c # cs'\<close> simp del: dep_slashes.simps split: if_splits)
      qed
    next
      case False
      then show ?thesis
        using less.prems ih [of cs' "buf @ [c]"] ih [of "tl cs'" "buf @ [hd cs']"]
        by (auto simp: dep_word.simps(2) [of c] Cons split: if_splits list.splits)
    qed
  qed
qed

lemma dep_gap_facts: "dep_gap cs = Some r \<Longrightarrow> length r \<le> length cs \<and> set r \<subseteq> set cs"
proof (induction cs rule: dep_gap.induct)
  case (2 c cs)
  then show ?case by (cases cs) (auto split: if_splits)
qed simp

lemma mknode_log_ok:
  assumes "deps_log_ok st d" and "p \<noteq> []" and "CHR 0x00 \<notin> set p" and "length p < 2 ^ 31"
    and "mknode p st = Inr (n, st1)"
  shows "deps_log_ok st1 d \<and> n < nnodes st1 \<and> nnodes st \<le> nnodes st1 \<and> edges_of st1 = edges_of st"
proof -
  have wf: "nodes_wf st" using assms(1) by (simp add: deps_log_ok_def)
  have m: "nodes_wf st1" "n < nnodes st1" "nnodes st \<le> nnodes st1"
      "\<forall>m < nnodes st. nodes_of st1 m = nodes_of st m"
      "n \<ge> nnodes st \<longrightarrow> n = nnodes st \<and> nnodes st1 = Suc n \<and> nodes_of st1 n = new_node p"
      "n < nnodes st \<longrightarrow> nnodes st1 = nnodes st"
    using mknode_ok [OF wf, of p] assms(5) by auto
  have "last p \<noteq> CHR 0x00" using last_in_set [OF assms(2)] assms(3) by metis
  then have new: "deps_node_ok d (new_node p)"
    using assms(2-4) by (auto simp: deps_node_ok_def path_ok_def new_node_def mtime_defs)
  have "deps_node_ok d (nodes_of st1 k)" if "k < nnodes st1" for k
  proof (cases "k < nnodes st")
    case True
    then show ?thesis using assms(1) m(4) by (simp add: deps_log_ok_def)
  next
    case False
    then have "k = n" "nodes_of st1 n = new_node p" using that m(2,5,6) by auto
    then show ?thesis using new by simp
  qed
  then show ?thesis using assms(1) m(1-3) mknode_frame(1) [OF assms(5)] by (simp add: deps_log_ok_def)
qed

lemma add_dep_ok:
  assumes "(if length buf > 0 then bindE (mknode buf st) (\<lambda>(n, st1). Inr (deps @ [n], st1))
            else Inr (deps, st)) = Inr (deps1, st1)"
    and "deps_log_ok st d" and "set deps \<subseteq> {..<nnodes st}" and "CHR 0x00 \<notin> set buf" and "length buf < 2 ^ 31"
  shows "deps_log_ok st1 d \<and> nnodes st \<le> nnodes st1 \<and> edges_of st1 = edges_of st \<and>
    set deps1 \<subseteq> {..<nnodes st1} \<and> length deps1 \<le> length deps + length buf"
proof (cases "buf = []")
  case False
  then obtain n where n: "mknode buf st = Inr (n, st1)" "deps1 = deps @ [n]"
    using assms(1) by (auto simp: monad_simps)
  have "1 \<le> length buf" using False by (simp add: Suc_leI)
  then show ?thesis using mknode_log_ok [OF assms(2) False assms(4,5) n(1)] assms(3) n(2) by auto
qed (use assms in auto)

lemma depsparse_loop_ok:
  assumes "depsparse_loop cs saw out deps st = Inr (res, st1)" and "deps_log_ok st d"
    and "set deps \<subseteq> {..<nnodes st}" and "CHR 0x00 \<notin> set cs" and "length cs < 2 ^ 31"
  shows "deps_log_ok st1 d \<and> nnodes st \<le> nnodes st1 \<and> edges_of st1 = edges_of st \<and>
    (\<forall>ds. res = Some ds \<longrightarrow> set ds \<subseteq> {..<nnodes st1} \<and> length ds \<le> length deps + length cs)"
  using assms
proof (induction cs arbitrary: saw out deps st rule: measure_induct_rule [of length])
  case (less cs)
  note turn = less.prems(1) [unfolded depsparse_loop.simps [of cs]]
  show ?case
  proof (cases "dep_word cs []")
    case None
    then show ?thesis using turn less.prems by auto
  next
    case (Some w)
    obtain cs1 buf where w: "dep_word cs [] = Some (cs1, buf)" using Some by (cases w) auto
    have f: "length cs1 + length buf \<le> length cs" "CHR 0x00 \<notin> set cs1" "CHR 0x00 \<notin> set buf"
      using dep_word_facts [OF w] less.prems(4) by auto
    show ?thesis
    proof (cases "saw \<and> \<not> (cs1 \<noteq> [] \<and> \<not> isspace (hd cs1))")
      case True
      define cs2 where "cs2 = (if cs1 \<noteq> [] \<and> hd cs1 = newline_chr then dropWhile (\<lambda>c. c = newline_chr) cs1 else cs1)"
      have cs2: "length cs2 \<le> length cs1" "set cs2 \<subseteq> set cs1"
        by (auto simp: cs2_def length_dropWhile_le dest: set_dropWhileD split: if_splits)
      obtain deps1 st2 where a: "(if length buf > 0 then bindE (mknode buf st) (\<lambda>(n, st1). Inr (deps @ [n], st1))
            else Inr (deps, st)) = Inr (deps1, st2)"
          "(if cs2 = [] then Inr (Some deps1, st2)
                else (case dep_gap cs2 of
                        None \<Rightarrow> Inr (None, st2)
                      | Some cs3 \<Rightarrow>
                        if length cs3 < length cs
                        then depsparse_loop cs3 (\<not> (cs1 \<noteq> [] \<and> hd cs1 = newline_chr)) out deps1 st2
                        else Inl Diverges)) = Inr (res, st1)"
        using turn True unfolding w Let_def cs2_def by (auto simp: monad_simps simp del: length_greater_0_conv)
      have "length buf < 2 ^ 31" using f(1) less.prems(5) by simp
      note d = add_dep_ok [OF a(1) less.prems(2,3) f(3) this]
      show ?thesis
      proof (cases "dep_gap cs2")
        case None
        then show ?thesis using a(2) d f(1) by (auto split: if_splits)
      next
        case (Some cs3)
        note g = dep_gap_facts [OF Some]
        show ?thesis
        proof (cases "cs2 = []")
          case False
          then have r: "length cs3 < length cs"
              "depsparse_loop cs3 (\<not> (cs1 \<noteq> [] \<and> hd cs1 = newline_chr)) out deps1 st2 = Inr (res, st1)"
            using a(2) Some by (auto split: if_splits)
          have "CHR 0x00 \<notin> set cs3" "length cs3 < 2 ^ 31" using g cs2 f less.prems(5) by auto
          then show ?thesis using less.IH [OF r] d g cs2(1) f(1) by fastforce
        qed (use a(2) d f(1) in auto)
      qed
    next
      case False
      show ?thesis
      proof (cases saw)
        case True
        then show ?thesis using turn False w less.prems(2,3) by (auto split: if_splits)
      next
        case False
        let ?cs2 = "dropWhile isblank cs1"
        have cs2: "length ?cs2 \<le> length cs1" "set ?cs2 \<subseteq> set cs1"
          by (auto simp: length_dropWhile_le dest: set_dropWhileD)
        show ?thesis
        proof (cases "?cs2 = [] \<or> hd ?cs2 \<noteq> CHR '':'' \<or> (out \<noteq> None \<and> out \<noteq> Some buf) \<or> dep_gap (tl ?cs2) = None")
          case True
          then show ?thesis using turn False w less.prems(2,3) by (auto simp: Let_def split: if_splits)
        next
          case go: False
          then obtain cs3 where g: "dep_gap (tl ?cs2) = Some cs3" by auto
          then have r: "length cs3 < length cs" "depsparse_loop cs3 True (Some buf) deps st = Inr (res, st1)"
            using turn False go unfolding w Let_def by (auto split: if_splits)
          have "set (tl ?cs2) \<subseteq> set cs1" using cs2(2) go list.set_sel(2) [of ?cs2] by blast
          then have "CHR 0x00 \<notin> set cs3" "length cs3 < 2 ^ 31" using dep_gap_facts [OF g] f r(1) less.prems(5) by auto
          then show ?thesis using less.IH [OF r less.prems(2,3)] r(1) by fastforce
        qed
      qed
    qed
  qed
qed

text \<open>What \<open>depsrecord\<close> finds in a depfile.\<close>

lemma depsparse_ok:
  assumes "depsparse fr am st = Inr (res, st1)" and "deps_log_ok st d"
    and "\<And>s. fr = File s \<Longrightarrow> CHR 0x00 \<notin> set s \<and> length s < 2 ^ 28"
  shows "deps_log_ok st1 d \<and> nnodes st \<le> nnodes st1 \<and> edges_of st1 = edges_of st \<and>
    (\<forall>ds. res = Some ds \<longrightarrow> set ds \<subseteq> {..<nnodes st1} \<and> length ds < 2 ^ 28)"
proof (cases fr)
  case (File s)
  then have s: "CHR 0x00 \<notin> set s" "length s < 2 ^ 28" using assms(3) by auto
  have "depsparse_loop s False None [] st = Inr (res, st1)" using assms(1) by (simp add: depsparse_def File)
  from depsparse_loop_ok [OF this assms(2)] s show ?thesis by auto
qed (use assms(1,2) in \<open>auto simp: depsparse_def split: if_splits\<close>)

lemma depsupdate_log_ok:
  assumes "deps_log_ok st d" and "n < nnodes st" and "\<forall>m \<in> set deps. m < nnodes st" and "length deps < 2 ^ 28"
    and "depsupdate n deps (st, d) = Inr (st1, d1)"
  shows "deps_log_ok st1 d1"
proof -
  define upd where "upd new st3 d3 = (if new then Inr True
            else case dentry_at d3 (nat (nid (nodes_of st3 n))) of
                   None \<Rightarrow> Inl Bad_access
                 | Some en \<Rightarrow> Inr (deps_differ en (nmtime (nodes_of st3 n)) deps))"
    for new and st3 :: samu and d3
  note run = assms(5) [unfolded depsupdate_def prod.case, folded upd_def, unfolded bindE_Inr_iff]
  then obtain new st3 d3 where 1: "recordid n (st, d) = Inr (new, st3, d3)"
      "\<exists>x. upd new st3 d3 = Inr x \<and> bindE (record_ids deps (x, st3, d3)) (\<lambda>(update', st3, d3).
       if update' then
         bindE (recorddeps n deps (nmtime (nodes_of st3 n)) (st3, d3)) (\<lambda>d4. Inr (st3, d4))
       else Inr (st3, d3)) = Inr (st1, d1)"
    by (auto simp: bindE_Inr_iff)
  then obtain u where "bindE (record_ids deps (u, st3, d3)) (\<lambda>(update', st3, d3).
       if update' then
         bindE (recorddeps n deps (nmtime (nodes_of st3 n)) (st3, d3)) (\<lambda>d4. Inr (st3, d4))
       else Inr (st3, d3)) = Inr (st1, d1)" by blast
  then obtain upd' st4 d4 where s: "recordid n (st, d) = Inr (new, st3, d3)"
      "record_ids deps (u, st3, d3) = Inr (upd', st4, d4)"
      "(if upd' then bindE (recorddeps n deps (nmtime (nodes_of st4 n)) (st4, d4)) (\<lambda>d5. Inr (st4, d5))
          else Inr (st4, d4)) = Inr (st1, d1)"
    using 1(1) by (auto simp: bindE_Inr_iff)
  note a = recordid_log_ok [OF assms(1,2) s(1)]
  have b: "deps_log_ok st4 d4" "nnodes st4 = nnodes st" "nid (nodes_of st4 n) \<noteq> - 1"
      "\<forall>m \<in> set deps. nid (nodes_of st4 m) \<noteq> - 1"
  proof -
    have "\<forall>m \<in> set deps. m < nnodes st3" using a assms(3) by simp
    note b = record_ids_log_ok [OF a [THEN conjunct1] this s(2)]
    have "nnodes st3 = nnodes st" "nid (nodes_of st3 n) \<noteq> - 1" using a by blast+
    then show "deps_log_ok st4 d4" "nnodes st4 = nnodes st" "nid (nodes_of st4 n) \<noteq> - 1"
      "\<forall>m \<in> set deps. nid (nodes_of st4 m) \<noteq> - 1" using b by simp_all
  qed
  show ?thesis
  proof (cases upd')
    case True
    show ?thesis
    proof (cases "recorddeps n deps (nmtime (nodes_of st4 n)) (st4, d4)")
      case (Inr d5)
      then have "st1 = st4" "d1 = d5" using s(3) True by simp_all
      then show ?thesis using recorddeps_log_ok [OF b(1) _ b(3) _ assms(4) Inr] assms(2,3) b(2,4) by simp
    qed (use s(3) True in simp)
  qed (use s(3) b(1) in simp)
qed

text \<open>A log without records.\<close>

definition empty_log :: depslog where
  "empty_log = \<lparr>dentries = [], dlen = 0, dfile = depsheader @ le32 depsver, dremoved = []\<rparr>"

section \<open>Properties\<close>

text \<open>
  C22: reading inverts writing. A log that consists of the header and of at most 1000 valid
  records, followed by at most three stray bytes, is read to its end and kept: the nodes,
  IDs, times and dependencies are those that the records say, in their order, and later
  records are appended to the same file.
\<close>

theorem deps_log_reads_back:
  assumes "valid_ops 0 ops" and "length ops \<le> 1000" and "length rest < 4"
  shows "depsinit (File (depsheader @ le32 depsver @ encode_ops 0 ops @ rest)) st d =
    bindE (replay ops st (d\<lparr>dlen := 0\<rparr>)) (\<lambda>(st1, d1).
      Inr (st1, d1\<lparr>dfile := depsheader @ le32 depsver @ encode_ops 0 ops @ rest\<rparr>))"
proof -
  let ?s = "depsheader @ le32 depsver @ encode_ops 0 ops @ rest"
  have h: "length depsheader = 12" by (simp add: depsheader_def)
  have "take 12 ?s = depsheader" "drop 12 ?s = le32 depsver @ encode_ops 0 ops @ rest"
    "drop 16 ?s = encode_ops 0 ops @ rest" "16 \<le> length ?s"
    using h by simp_all
  moreover have "de32 (le32 depsver @ encode_ops 0 ops @ rest) = depsver"
    by (rule de32_le32) (simp add: depsver_def)
  moreover have "deps_read (encode_ops 0 ops @ rest) 0 st (d\<lparr>dlen := 0\<rparr>) =
      bindE (replay ops st (d\<lparr>dlen := 0\<rparr>)) (\<lambda>(st1, d1). Inr (True, length ops, st1, d1))"
    using deps_read_encoded [of "d\<lparr>dlen := 0\<rparr>" ops rest 0 st] assms by simp
  ultimately show ?thesis
    using assms(2) by (cases "replay ops st (d\<lparr>dlen := 0\<rparr>)")
      (simp_all add: depsinit_def Let_def not_less case_prod_unfold del: append_assoc)
qed

theorem deps_log_reads_back_witness:
  "depsinit (File (depsheader @ le32 depsver @ encode_ops 0 [Op_id ''a.o'', Op_id ''a.h'', Op_deps 0 7 [1]] @ ''x'')) empty_graph empty_log =
    bindE (replay [Op_id ''a.o'', Op_id ''a.h'', Op_deps 0 7 [1]] empty_graph (empty_log\<lparr>dlen := 0\<rparr>)) (\<lambda>(st1, d1).
      Inr (st1, d1\<lparr>dfile := depsheader @ le32 depsver @ encode_ops 0 [Op_id ''a.o'', Op_id ''a.h'', Op_deps 0 7 [1]] @ ''x''\<rparr>))"
  by (rule deps_log_reads_back) (simp_all add: path_ok_def MAX_RECORD_SIZE_def INT32_MAX_def)

text \<open>
  a depfile with one rule, written the way gcc escapes paths, gives the dependencies it
  lists, in their order, each as the node of its path; blanks, \<open>#\<close> and \<open>$\<close> in paths come back.
\<close>

theorem depfile_reads_back:
  assumes "list_all dep_plain out" and "list_all dep_path ps"
  shows "depsparse (File (depfile out ps)) am st =
    bindE (mknodes ps ([], st)) (\<lambda>(ns, st1). Inr (Some ns, st1))"
proof -
  have w: "dep_word (depfile out ps) [] = Some (CHR '':'' # depfile_rest ps, out)"
    using dep_word_escape [OF assms(1), of "CHR '':'' # depfile_rest ps" "[]"] by (simp add: depfile_def)
  have l: "length (depfile_rest ps) < length (depfile out ps)" by (simp add: depfile_def)
  show ?thesis
  proof (cases ps)
    case Nil
    have "dep_gap (depfile_rest ps) = Some [newline_chr]" by (simp add: Nil isblank_def chr_defs)
    moreover have "depsparse_loop [newline_chr] True (Some out) [] st = Inr (Some [], st)"
      by (subst depsparse_loop.simps) (simp add: dep_word.simps isspace_def)
    ultimately show ?thesis using depfile_target [OF w] l by (simp add: mknodes_simps Nil)
  next
    case (Cons p qs)
    have p: "dep_path p" "list_all dep_path qs" using assms(2) Cons by simp_all
    have "dep_gap (depfile_rest ps) = Some (dep_escape p @ depfile_rest qs)"
      using dep_gap_escape [OF p(1)] by (simp add: Cons isblank_def)
    then show ?thesis using depfile_target [OF w] depfile_words [OF p] l by (simp add: Cons depfile_def)
  qed
qed

theorem depfile_reads_back_witness:
  "\<exists>ns st'. depsparse (File (depfile ''a b.o'' [''x$.c'', ''a b.h''])) False empty_graph = Inr (Some ns, st') \<and>
     map (\<lambda>n. npath (nodes_of st' n)) ns = [''x$.c'', ''a b.h'']"
proof -
  obtain n s where n: "mknode ''x$.c'' empty_graph = Inr (n, s)" "nodes_wf s" "n < nnodes s"
      "npath (nodes_of s n) = ''x$.c''"
    using mknode_ok [of empty_graph "''x$.c''"] empty_graph_wf by (auto simp: graph_wf_def)
  obtain m t where m: "mknode ''a b.h'' s = Inr (m, t)" "npath (nodes_of t m) = ''a b.h''"
      "nodes_of t n = nodes_of s n"
    using mknode_ok [OF n(2), of "''a b.h''"] n(3) by auto
  have "depsparse (File (depfile ''a b.o'' [''x$.c'', ''a b.h''])) False empty_graph = Inr (Some [n, m], t)"
    using n(1) m(1)
    by (subst depfile_reads_back) (simp_all add: mknodes_simps dep_plain_def dep_path_def dep_char_def
        isalnum_def isalpha_def isdigit_def less_eq_char_def)
  then show ?thesis using n(4) m(2,3) by auto
qed

text \<open>
  C24: a carriage return, form feed or vertical tab after the colon of a rule stops the
  depfile parser for ever: the character ends a word, is no newline, and no loop skips it.
  Depfiles with CRLF line ends are such files.
\<close>

theorem depfile_carriage_return_diverges:
  "depsparse_loop (return_chr # cs) True out deps st = Inl Diverges \<and>
   depsparse_loop (CHR 0x0B # cs) True out deps st = Inl Diverges \<and>
   depsparse_loop (CHR 0x0C # cs) True out deps st = Inl Diverges \<and>
   depsparse (File (''a: b'' @ [return_chr, newline_chr])) am st =
     bindE (mknode ''b'' st) (\<lambda>_. Inl Diverges)"
proof -
  have blank: "\<not> isblank return_chr" "\<not> isblank (CHR 0x0B)" "\<not> isblank (CHR 0x0C)"
    by (simp_all add: isblank_def chr_defs)
  have stuck: "depsparse_loop (c # cs) True out deps st = Inl Diverges"
    if "c \<in> {return_chr, CHR 0x0B, CHR 0x0C}" for c cs out deps st
    using that blank by (subst depsparse_loop.simps)
      (auto simp: dep_word.simps dep_char_def isalnum_def isalpha_def isdigit_def chr_defs
        less_eq_char_def isspace_def)
  have w: "dep_word (''a: b'' @ [return_chr, newline_chr]) [] = Some ('': b'' @ [return_chr, newline_chr], ''a'')"
      "dep_word (''b'' @ [return_chr, newline_chr]) [] = Some ([return_chr, newline_chr], ''b'')"
    by (simp_all add: dep_word.simps dep_char_def isalnum_def isalpha_def isdigit_def chr_defs less_eq_char_def)
  have g: "dep_gap ('' b'' @ [return_chr, newline_chr]) = Some (''b'' @ [return_chr, newline_chr])"
      "dep_gap [return_chr, newline_chr] = Some [return_chr, newline_chr]"
    by (simp_all add: isblank_def chr_defs)
  have "depsparse_loop (''b'' @ [return_chr, newline_chr]) True (Some ''a'') [] st =
      bindE (mknode ''b'' st) (\<lambda>_. Inl Diverges)"
    using w(2) g(2) stuck [of return_chr]
    by (subst depsparse_loop.simps) (simp add: isspace_def chr_defs bindE_assoc case_prod_unfold)
  then have "depsparse (File (''a: b'' @ [return_chr, newline_chr])) am st = bindE (mknode ''b'' st) (\<lambda>_. Inl Diverges)"
    using depfile_target [of "''a: b'' @ [return_chr, newline_chr]"] w(1) g(1) by simp
  then show ?thesis using stuck by blast
qed


text \<open>An edge with dependencies in a depfile, for examples.\<close>

definition deps_graph :: samu where
  "deps_graph = upd_env (eenv (edges_of sample_graph 0))
     (\<lambda>v. v\<lparr>ebindings := addvar (addvar Tip ''deps'' ''gcc'') ''depfile'' ''a.d''\<rparr>) sample_graph"

lemma deps_graph_vars:
  "edgevar deps_graph 0 ''deps'' True = Inr (Some ''gcc'')"
  "edgevar deps_graph 0 ''depfile'' False = Inr (Some ''a.d'')"
proof -
  have "treefind (addvar (addvar Tip ''deps'' ''gcc'') ''depfile'' ''a.d'') ''deps'' = Some ''gcc''"
    "treefind (addvar (addvar Tip ''deps'' ''gcc'') ''depfile'' ''a.d'') ''depfile'' = Some ''a.d''"
    by code_simp+
  then show "edgevar deps_graph 0 ''deps'' True = Inr (Some ''gcc'')"
    "edgevar deps_graph 0 ''depfile'' False = Inr (Some ''a.d'')"
    by (simp_all add: edgevar_def edgevar_marked.simps edge_own_var_def deps_graph_def)
qed

lemma deps_graph_ok: "deps_log_ok deps_graph empty_log" "nid (nodes_of deps_graph 0) = - 1"
  "eout (edges_of deps_graph 0) = [0]" "npath (nodes_of deps_graph 0) = ''a.o''" "nnodes deps_graph = 1"
proof -
  note g = sample_graph_ok
  have "nodes_wf deps_graph"
    by (rule nodes_wf_cong [of _ sample_graph]) (use g(1) in \<open>simp_all add: deps_graph_def graph_wf_def\<close>)
  then show "deps_log_ok deps_graph empty_log"
    using g by (auto simp: deps_log_ok_def deps_graph_def empty_log_def deps_node_ok_def path_ok_def
        new_node_def mtime_defs INT32_MAX_def intro!: exI [of _ "[]"])
  show "nid (nodes_of deps_graph 0) = - 1" "npath (nodes_of deps_graph 0) = ''a.o''"
    "eout (edges_of deps_graph 0) = [0]" "nnodes deps_graph = 1"
    using g by (simp_all add: deps_graph_def new_node_def)
qed

lemma depsrecord_sample:
  "\<exists>st1 d1. depsrecord (\<lambda>_. File (depfile ''a.o'' [])) True 0 (deps_graph, empty_log) = Inr (st1, d1) \<and>
     dlen d1 = 1 \<and> recordid 0 (deps_graph, empty_log) = Inr (True, st1, d1\<lparr>dfile := dfile empty_log @ id_record 0 ''a.o''\<rparr>)"
proof -
  note v = deps_graph_vars and g = deps_graph_ok
  have "depsparse (File (depfile ''a.o'' [])) True deps_graph = Inr (Some [], deps_graph)"
    by (subst depfile_reads_back) (simp_all add: mknodes_simps dep_plain_def dep_char_def
        isalnum_def isalpha_def isdigit_def less_eq_char_def)
  moreover have "(id_record_size ''a.o'' + 4) mod 2 ^ 32 < MAX_RECORD_SIZE" "(deps_record_size 0 + 4) mod 2 ^ 32 < MAX_RECORD_SIZE"
    by (simp_all add: id_record_size_def deps_record_size_def MAX_RECORD_SIZE_def)
  ultimately show ?thesis using v g(2-4)
    by (simp add: depsrecord_def depsupdate_def recordid_def record_ids_def recorddeps_def Let_def not_le
        empty_log_def INT32_MAX_def depswrite_def)
qed


text \<open>
  an ID that is given while the log is written has no entry in memory. The next record of
  the same node (the output of a later edge that an earlier one had as a dependency) reads the
  entry all the same: memory that was never written, or that lies behind the array.
\<close>

theorem recorded_id_has_no_entry:
  assumes "recordid n (st, d) = Inr (True, st1, d1)" and "dentry_at d (dlen d) = None"
  shows "depsupdate n deps (st1, d1) = Inl Bad_access"
proof -
  have "nid (nodes_of st1 n) = int (dlen d)" "dentries d1 = dentries d"
    using assms(1) by (auto simp: recordid_def depswrite_def Let_def split: if_splits)
  then show ?thesis using assms(2)
    by (simp add: depsupdate_def recordid_def dentry_at_def split: if_splits)
qed

theorem recorded_id_has_no_entry_witness:
  "\<exists>st1 d1. depsrecord (\<lambda>_. File (depfile ''a.o'' [])) True 0 (deps_graph, empty_log) = Inr (st1, d1) \<and>
     depsupdate 0 [] (st1, d1\<lparr>dfile := dfile empty_log @ id_record 0 ''a.o''\<rparr>) = Inl Bad_access"
proof -
  obtain st1 d1 where r: "depsrecord (\<lambda>_. File (depfile ''a.o'' [])) True 0 (deps_graph, empty_log) = Inr (st1, d1)"
      "recordid 0 (deps_graph, empty_log) = Inr (True, st1, d1\<lparr>dfile := dfile empty_log @ id_record 0 ''a.o''\<rparr>)"
    using depsrecord_sample by blast
  have "dentry_at empty_log (dlen empty_log) = None" by (simp add: dentry_at_def empty_log_def)
  from recorded_id_has_no_entry [OF r(2) this, of "[]"] r(1) show ?thesis by blast
qed

end
