(* ===== verification/Samu_Build.thy ===== *)
theory Samu_Build
  imports Samu_Deps Samu_Log
begin

text \<open>
  \<open>src/samu/build.c\<close>: which edges are out of date, the queue of work, pools, what a finished
  edge releases, jobs, the status line and the main loop. The disk as one call sees it is an
  argument (what \<open>stat\<close> and reading a depfile give); so is what a started process does. The
  recursions of \<open>buildadd\<close> and \<open>nodedone\<close> take a bound on their depth; an exhausted bound is
  \<open>Diverges\<close>. Not modelled: messages, the output of jobs, response files on disk and signals.
\<close>

section \<open>Options and the disk\<close>

record buildopts =
  maxjobs :: nat
  maxfail :: nat
  verbose :: bool
  keepdepfile :: bool
  dryrun :: bool
  statusfmt :: string
  loadlimit :: bool

record disk =
  dstat :: "string \<Rightarrow> stat_result"
  dread :: "string \<Rightarrow> file_result"

section \<open>Out of date\<close>

definition buildreset :: "samu \<Rightarrow> samu" where
  "buildreset st = fold (\<lambda>e. set_flags e (\<lambda>f. f\<lparr>FLAG_WORK := False\<rparr>)) (alledges st) st"

definition isnewer :: "samu \<Rightarrow> nat option \<Rightarrow> nat \<Rightarrow> bool" where
  "isnewer st n1 n2 = (case n1 of None \<Rightarrow> False | Some n \<Rightarrow> nmtime (nodes_of st n) > nmtime (nodes_of st n2))"

definition isdirty :: "nat \<Rightarrow> nat option \<Rightarrow> bool \<Rightarrow> bool \<Rightarrow> samu \<Rightarrow> samu_error + bool \<times> samu" where
  "isdirty n newest generator restat st =
     (let x = nodes_of st n
      in case ngen x of
           None \<Rightarrow> Inl Bad_access
         | Some e \<Rightarrow>
           if erule (edges_of st e) = phonyrule then
             Inr (\<not> (ein (edges_of st e) \<noteq> [] \<or> nmtime x \<noteq> MTIME_MISSING), st)
           else if nmtime x = MTIME_MISSING then Inr (True, st)
           else if isnewer st newest n \<and> (\<not> restat \<or> nlogmtime x = MTIME_MISSING) then Inr (True, st)
           else if nlogmtime x = MTIME_MISSING \<and> \<not> generator then Inr (True, st)
           else if nlogmtime x \<noteq> MTIME_MISSING \<and>
                   (case newest of None \<Rightarrow> False | Some m \<Rightarrow> nlogmtime x < nmtime (nodes_of st m))
           then Inr (True, st)
           else if generator then Inr (False, st)
           else bindE (edgehash e st) (\<lambda>st1. Inr (ehash (edges_of st1 e) \<noteq> nhash (nodes_of st1 n), st1)))"

section \<open>The queue\<close>

definition queue :: "nat \<Rightarrow> samu \<Rightarrow> samu" where
  "queue e st =
     (case epool (edges_of st e) of
        Some p \<Rightarrow>
          if erule (edges_of st e) \<noteq> phonyrule then
            (if pnumjobs (pools_of st p) = pmaxjobs (pools_of st p)
             then upd_pool p (\<lambda>x. x\<lparr>pwork := e # pwork x\<rparr>) st
             else (upd_pool p (\<lambda>x. x\<lparr>pnumjobs := pnumjobs x + 1\<rparr>) st)\<lparr>work := e # work st\<rparr>)
          else st\<lparr>work := e # work st\<rparr>
      | None \<Rightarrow> st\<lparr>work := e # work st\<rparr>)"

definition size_dec :: "nat \<Rightarrow> nat" where
  "size_dec n = (if n = 0 then 2 ^ 64 - 1 else n - 1)"

section \<open>Scheduling a target\<close>

definition stat_unknown :: "disk \<Rightarrow> nat \<Rightarrow> samu \<Rightarrow> samu_error + samu" where
  "stat_unknown w n st =
     (if nmtime (nodes_of st n) = MTIME_UNKNOWN then nodestat (dstat w) n st else Inr st)"

text \<open>An input of \<open>e\<close>; the pair is its index and node, \<open>visit\<close> the recursive call.\<close>

definition add_input ::
    "(nat \<Rightarrow> samu \<Rightarrow> samu_error + samu) \<Rightarrow> nat \<Rightarrow> nat \<times> nat \<Rightarrow> samu \<times> nat option \<Rightarrow> samu_error + samu \<times> nat option" where
  "add_input visit e = (\<lambda>(i, n) (st, newest).
     bindE (visit n st) (\<lambda>st1.
       let x = nodes_of st1 n;
           early = (i < einorderidx (edges_of st1 e));
           st2 = (if early \<and> ndirty x then set_flags e (\<lambda>f. f\<lparr>FLAG_DIRTY_IN := True\<rparr>) st1 else st1);
           newest' = (if early \<and> nmtime x \<noteq> MTIME_MISSING \<and> \<not> isnewer st1 newest n then Some n else newest);
           blocks = (ndirty x \<or> (case ngen x of None \<Rightarrow> False | Some g \<Rightarrow> enblock (edges_of st2 g) > 0))
       in Inr (if blocks then upd_edge e (\<lambda>y. y\<lparr>enblock := enblock y + 1\<rparr>) st2 else st2, newest')))"

definition add_output :: "nat \<Rightarrow> nat option \<Rightarrow> bool \<Rightarrow> bool \<Rightarrow> nat \<Rightarrow> samu \<Rightarrow> samu_error + samu" where
  "add_output e newest generator restat n st =
     (if FLAG_DIRTY_OUT (eflags (edges_of st e)) then Inr st
      else bindE (isdirty n newest generator restat st) (\<lambda>(dirty, st1).
        Inr (if dirty
             then set_flags e (\<lambda>f. f\<lparr>FLAG_DIRTY_OUT := True\<rparr>) (upd_node n (\<lambda>x. x\<lparr>ndirty := True\<rparr>) st1)
             else st1)))"

text \<open>The end of \<open>buildadd\<close>: dirty outputs, \<open>nprune\<close>, the queue.\<close>

definition add_finish :: "nat \<Rightarrow> samu \<Rightarrow> samu" where
  "add_finish e st =
     (let f = eflags (edges_of st e);
          st1 = (if FLAG_DIRTY f then fold (\<lambda>n. upd_node n (\<lambda>x. x\<lparr>ndirty := True\<rparr>)) (eout (edges_of st e)) st else st);
          st2 = (if \<not> FLAG_DIRTY_OUT f then upd_edge e (\<lambda>y. y\<lparr>enprune := enblock y\<rparr>) st1 else st1);
          st3 = (if FLAG_DIRTY f \<and> enblock (edges_of st2 e) = 0 then queue e st2 else st2);
          st4 = (if FLAG_DIRTY f \<and> erule (edges_of st3 e) \<noteq> phonyrule then st3\<lparr>ntotal := ntotal st3 + 1\<rparr> else st3)
      in set_flags e (\<lambda>f. f\<lparr>FLAG_CYCLE := False\<rparr>) st4)"

primrec buildadd :: "nat \<Rightarrow> disk \<Rightarrow> depslog \<Rightarrow> nat \<Rightarrow> samu \<Rightarrow> samu_error + samu" where
  "buildadd 0 w d n st = Inl Diverges"
| "buildadd (Suc k) w d n st =
     (case ngen (nodes_of st n) of
        None \<Rightarrow>
          bindE (stat_unknown w n st) (\<lambda>st1.
            if nmtime (nodes_of st1 n) = MTIME_MISSING
            then Inl (Fatal Missing_file (npath (nodes_of st1 n)))
            else Inr (upd_node n (\<lambda>x. x\<lparr>ndirty := False\<rparr>) st1))
      | Some e \<Rightarrow>
        if FLAG_CYCLE (eflags (edges_of st e)) then Inl (Fatal Dependency_cycle (npath (nodes_of st n)))
        else if FLAG_WORK (eflags (edges_of st e)) then Inr st
        else
          bindE (foldE (\<lambda>m st. stat_unknown w m (upd_node m (\<lambda>x. x\<lparr>ndirty := False\<rparr>) st)) (eout (edges_of st e))
                  (set_flags e (\<lambda>f. f\<lparr>FLAG_CYCLE := True, FLAG_WORK := True\<rparr>) st)) (\<lambda>st1.
          bindE (depsload (dread w) e d st1) (\<lambda>st2.
          bindE (foldE (add_input (buildadd k w d) e) (enumerate 0 (ein (edges_of st2 e)))
                  (upd_edge e (\<lambda>y. y\<lparr>enblock := 0\<rparr>) st2, None)) (\<lambda>(st3, newest).
          bindE (edgevar st3 e ''generator'' True) (\<lambda>generator.
          bindE (edgevar st3 e ''restat'' True) (\<lambda>restat.
          bindE (foldE (add_output e newest (generator \<noteq> None) (restat \<noteq> None)) (eout (edges_of st3 e)) st3) (\<lambda>st4.
          Inr (add_finish e st4))))))))"

section \<open>The status line\<close>

text \<open>
  What a placeholder prints; \<open>clk\<close> gives the texts of \<open>%o\<close> and \<open>%e\<close>, which depend on the
  clock (\<open>None\<close>: reading it failed). \<open>size_t\<close> differences and products wrap around.
\<close>

definition pad3 :: "string \<Rightarrow> string" where
  "pad3 s = replicate (3 - length s) (CHR '' '') @ s"

definition status_piece :: "(char \<Rightarrow> string option) \<Rightarrow> samu \<Rightarrow> char \<Rightarrow> samu_error + string" where
  "status_piece clk st c =
     (if c = CHR ''s'' then Inr (print_base 10 (nstarted st))
      else if c = CHR ''f'' then Inr (print_base 10 (nfinished st))
      else if c = CHR ''t'' then Inr (print_base 10 (ntotal st))
      else if c = CHR ''r'' then Inr (print_base 10 (nat ((int (nstarted st) - int (nfinished st)) mod 2 ^ 64)))
      else if c = CHR ''u'' then Inr (print_base 10 (nat ((int (ntotal st) - int (nstarted st)) mod 2 ^ 64)))
      else if c = CHR ''p'' then
        (if ntotal st = 0 then Inl Div_by_zero
         else Inr (pad3 (print_base 10 ((100 * nfinished st) mod 2 ^ 64 div ntotal st)) @ ''%''))
      else if c = CHR ''o'' \<or> c = CHR ''e'' then Inr (case clk c of None \<Rightarrow> [] | Some t \<Rightarrow> t)
      else Inl (Fatal Bad_placeholder [c]))"

text \<open>
  The buffer up to the cursor and the room behind it. \<open>snprintf\<close> ends with a NUL, which the
  next piece overwrites unless the room is used up.
\<close>

definition status_char :: "char \<Rightarrow> string \<times> nat \<Rightarrow> string \<times> nat" where
  "status_char c = (\<lambda>(buf, len). if len > 1 then (buf @ [c], len - 1) else (buf, len))"

definition status_text :: "string \<Rightarrow> string \<times> nat \<Rightarrow> string \<times> nat" where
  "status_text t = (\<lambda>(buf, len).
     if length t < len then (buf @ t, len - length t)
     else if len = 0 then (buf, 0)
     else (buf @ take (len - 1) t @ [NUL], 0))"

fun formatstatus_loop ::
    "(char \<Rightarrow> string option) \<Rightarrow> samu \<Rightarrow> string \<Rightarrow> nat \<Rightarrow> string \<times> nat \<Rightarrow> samu_error + nat \<times> string \<times> nat" where
  "formatstatus_loop clk st [] ret b = Inr (ret, b)"
| "formatstatus_loop clk st (c # fmt) ret b =
     (if c \<noteq> CHR ''%'' then formatstatus_loop clk st fmt (ret + 1) (status_char c b)
      else case fmt of
             [] \<Rightarrow> Inl (Fatal Bad_placeholder [NUL])
           | p # fmt' \<Rightarrow>
             if p = CHR ''%'' then formatstatus_loop clk st fmt' (ret + 1) (status_char p b)
             else bindE (status_piece clk st p) (\<lambda>t.
                    formatstatus_loop clk st fmt' (ret + length t) (status_text t b)))"

definition formatstatus :: "buildopts \<Rightarrow> (char \<Rightarrow> string option) \<Rightarrow> samu \<Rightarrow> nat \<Rightarrow> samu_error + nat \<times> string" where
  "formatstatus opts clk st cap =
     bindE (formatstatus_loop clk st (statusfmt opts) 0 ([], cap)) (\<lambda>(ret, buf, len).
       Inr (ret, if len > 0 then buf @ [NUL] else buf))"

text \<open>The line, as a C string and the text after it. \<open>cmd\<close> is the command, \<open>None\<close> if NULL.\<close>

definition printstatus ::
    "buildopts \<Rightarrow> (char \<Rightarrow> string option) \<Rightarrow> nat \<Rightarrow> string option \<Rightarrow> samu \<Rightarrow> samu_error + string" where
  "printstatus opts clk e cmd st =
     bindE (if verbose opts then Inr None else edgevar st e ''description'' True) (\<lambda>descr.
     bindE (formatstatus opts clk st 256) (\<lambda>(_, status).
     case (if descr = None \<or> descr = Some [] then cmd else descr) of
       None \<Rightarrow> Inl Bad_access
     | Some text \<Rightarrow> Inr (takeWhile (\<lambda>c. c \<noteq> NUL) status @ text @ [newline_chr])))"

section \<open>What a finished node releases\<close>

text \<open>A use of the node in an edge of this build; \<open>visit\<close> is the recursive call.\<close>

definition use_done ::
    "(nat \<Rightarrow> bool \<Rightarrow> samu \<Rightarrow> samu_error + samu) \<Rightarrow> bool \<Rightarrow> nat \<Rightarrow> samu \<Rightarrow> samu_error + samu" where
  "use_done visit prune e st =
     (if \<not> FLAG_WORK (eflags (edges_of st e)) then Inr st
      else
        let f = eflags (edges_of st e);
            clean = (\<not> (if prune then FLAG_DIRTY_OUT f else FLAG_DIRTY f));
            st1 = (if clean then upd_edge e (\<lambda>y. y\<lparr>enprune := enprune y - 1\<rparr>) st else st)
        in if clean \<and> enprune (edges_of st1 e) = 0 then
             bindE (foldE (\<lambda>m. visit m True) (eout (edges_of st1 e)) st1) (\<lambda>st2.
               Inr (if FLAG_DIRTY (eflags (edges_of st2 e)) \<and> erule (edges_of st2 e) \<noteq> phonyrule
                    then st2\<lparr>ntotal := size_dec (ntotal st2)\<rparr> else st2))
           else
             let st2 = upd_edge e (\<lambda>y. y\<lparr>enblock := enblock y - 1\<rparr>) st1
             in Inr (if enblock (edges_of st2 e) = 0 then queue e st2 else st2))"

primrec nodedone :: "nat \<Rightarrow> nat \<Rightarrow> bool \<Rightarrow> samu \<Rightarrow> samu_error + samu" where
  "nodedone 0 n prune st = Inl Diverges"
| "nodedone (Suc k) n prune st = foldE (use_done (nodedone k) prune) (nuse (nodes_of st n)) st"

definition prune_input :: "disk \<Rightarrow> nat \<Rightarrow> samu \<times> nat option \<Rightarrow> samu_error + samu \<times> nat option" where
  "prune_input w m = (\<lambda>(st, newest).
     bindE (nodestat (dstat w) m st) (\<lambda>st1.
       Inr (st1, if nmtime (nodes_of st1 m) \<noteq> MTIME_MISSING \<and> \<not> isnewer st1 newest m then Some m else newest)))"

definition shouldprune :: "disk \<Rightarrow> nat \<Rightarrow> nat \<Rightarrow> int \<Rightarrow> samu \<Rightarrow> samu_error + bool \<times> samu" where
  "shouldprune w e n old st =
     (if old \<noteq> nmtime (nodes_of st n) then Inr (False, st)
      else
        bindE (foldE (prune_input w) (take (einorderidx (edges_of st e)) (ein (edges_of st e))) (st, None)) (\<lambda>(st1, newest).
        Inr (True, case newest of
                     None \<Rightarrow> st1
                   | Some m \<Rightarrow> upd_node n (\<lambda>x. x\<lparr>nlogmtime := nmtime (nodes_of st1 m)\<rparr>) st1)))"

definition output_done :: "nat \<Rightarrow> disk \<Rightarrow> nat \<Rightarrow> bool \<Rightarrow> nat \<Rightarrow> samu \<Rightarrow> samu_error + samu" where
  "output_done k w e restat n st =
     bindE (nodestat (dstat w) n st) (\<lambda>st1.
     let st2 = upd_node n (\<lambda>x. x\<lparr>nlogmtime := (if nmtime x = MTIME_MISSING then 0 else nmtime x)\<rparr>) st1
     in bindE (if restat then shouldprune w e n (nmtime (nodes_of st n)) st2 else Inr (False, st2)) (\<lambda>(prune, st3).
        nodedone k n prune st3))"

text \<open>The string is the text of the build log so far.\<close>

definition log_output :: "nat \<Rightarrow> nat \<Rightarrow> samu \<times> string \<Rightarrow> samu \<times> string" where
  "log_output e n = (\<lambda>(st, log).
     let st1 = upd_node n (\<lambda>x. x\<lparr>nhash := ehash (edges_of st e)\<rparr>) st
     in (st1, log @ logrecord (nodes_of st1 n)))"

definition edgedone ::
    "nat \<Rightarrow> buildopts \<Rightarrow> disk \<Rightarrow> nat \<Rightarrow> samu \<times> depslog \<times> string \<Rightarrow> samu_error + samu \<times> depslog \<times> string" where
  "edgedone k opts w e = (\<lambda>(st, d, log).
     bindE (edgevar st e ''restat'' True) (\<lambda>restat.
     bindE (foldE (output_done k w e (restat \<noteq> None)) (eout (edges_of st e)) st) (\<lambda>st1.
     bindE (edgevar st1 e ''rspfile'' False) (\<lambda>_.
     bindE (edgehash e st1) (\<lambda>st2.
     bindE (depsrecord (dread w) (keepdepfile opts) e (st2, d)) (\<lambda>(st3, d1).
     case fold (log_output e) (eout (edges_of st3 e)) (st3, log) of (st4, log1) \<Rightarrow>
       Inr (st4, d1, log1)))))))"

section \<open>Jobs\<close>

text \<open>What the system calls of \<open>jobstart\<close> do.\<close>

record spawn_env =
  mkdirs_ok :: bool
  write_ok :: bool
  pipe_ok :: bool
  spawn_ok :: bool
  clock :: "char \<Rightarrow> string option"

definition jobstart :: "buildopts \<Rightarrow> spawn_env \<Rightarrow> nat \<Rightarrow> samu \<Rightarrow> samu_error + bool \<times> samu" where
  "jobstart opts sp e st =
     (let st1 = st\<lparr>nstarted := nstarted st + 1\<rparr>
      in if list_ex (\<lambda>n. nmtime (nodes_of st n) = MTIME_MISSING) (eout (edges_of st e)) \<and> \<not> mkdirs_ok sp
         then Inr (False, st1)
         else
           bindE (edgevar st1 e ''rspfile'' False) (\<lambda>rspfile.
           bindE (if rspfile = None then Inr None else edgevar st1 e ''rspfile_content'' True) (\<lambda>_.
           if rspfile \<noteq> None \<and> \<not> write_ok sp then Inr (False, st1)
           else if \<not> pipe_ok sp then Inr (False, st1)
           else
             bindE (edgevar st1 e ''command'' True) (\<lambda>cmd.
             if cmd = None then Inl Bad_access
             else
               bindE (if consoleused st1 then Inr [] else printstatus opts (clock sp) e cmd st1) (\<lambda>_.
               if \<not> spawn_ok sp then Inr (False, st1)
               else Inr (True, if epool (edges_of st1 e) = Some consolepool
                               then st1\<lparr>consoleused := True\<rparr> else st1))))))"

text \<open>The pool of a finished job hands its place to the next edge that waits for it.\<close>

definition pool_release :: "nat \<Rightarrow> samu \<Rightarrow> samu" where
  "pool_release e st =
     (case epool (edges_of st e) of
        None \<Rightarrow> st
      | Some p \<Rightarrow>
        let st1 = (if p = consolepool then st\<lparr>consoleused := False\<rparr> else st)
        in case pwork (pools_of st1 p) of
             new # rest \<Rightarrow> (upd_pool p (\<lambda>x. x\<lparr>pwork := rest\<rparr>) st1)\<lparr>work := new # work st1\<rparr>
           | [] \<Rightarrow> upd_pool p (\<lambda>x. x\<lparr>pnumjobs := pnumjobs x - 1\<rparr>) st1)"

definition jobdone ::
    "nat \<Rightarrow> buildopts \<Rightarrow> disk \<Rightarrow> nat \<Rightarrow> bool \<Rightarrow> samu \<times> depslog \<times> string \<Rightarrow> samu_error + samu \<times> depslog \<times> string" where
  "jobdone k opts w e failed = (\<lambda>(st, d, log).
     let st1 = pool_release e (st\<lparr>nfinished := nfinished st + 1\<rparr>)
     in if failed then Inr (st1, d, log) else edgedone k opts w e (st1, d, log))"

section \<open>The main loop\<close>

text \<open>A slot for a job with its \<open>pollfd\<close>; \<open>jactive\<close> is \<open>fd >= 0\<close>.\<close>

record job =
  jedge :: nat
  jnext :: nat
  jactive :: bool

record builder =
  bst :: samu
  bdeps :: depslog
  blog :: string
  bjobs :: "job list"
  bnext :: nat
  bnumjobs :: nat
  bnumfail :: nat
  bmax :: nat

definition grow_jobs :: "buildopts \<Rightarrow> builder \<Rightarrow> builder" where
  "grow_jobs opts b =
     (if bnext b = length (bjobs b) then
        let len = length (bjobs b);
            len' = min (if len \<noteq> 0 then len * 2 else 8) (maxjobs opts)
        in b\<lparr>bjobs := bjobs b @ map (\<lambda>i. \<lparr>jedge = 0, jnext = i + 1, jactive = False\<rparr>) [len..<len']\<rparr>
      else b)"

definition can_start :: "buildopts \<Rightarrow> builder \<Rightarrow> bool" where
  "can_start opts b = (work (bst b) \<noteq> [] \<and> bnumjobs b < bmax b \<and> bnumfail b < maxfail opts)"

text \<open>The body of the loop that starts ready edges: reporting an edge in a dry run, a job.\<close>

definition report_edge :: "buildopts \<Rightarrow> spawn_env \<Rightarrow> nat \<Rightarrow> samu \<Rightarrow> samu_error + samu" where
  "report_edge opts sp e st =
     (if erule (edges_of st e) \<noteq> phonyrule \<and> dryrun opts then
        (let st1 = st\<lparr>nstarted := nstarted st + 1\<rparr>
         in bindE (edgevar st1 e ''command'' True) (\<lambda>cmd.
            bindE (printstatus opts (clock sp) e cmd st1) (\<lambda>_.
            Inr (st1\<lparr>nfinished := nfinished st1 + 1\<rparr>))))
      else Inr st)"

definition launch_job :: "buildopts \<Rightarrow> spawn_env \<Rightarrow> nat \<Rightarrow> builder \<Rightarrow> samu_error + builder" where
  "launch_job opts sp e b0 =
     (let b = grow_jobs opts b0
      in if bnext b \<ge> length (bjobs b) then Inl Bad_access
         else
           bindE (jobstart opts sp e (bst b)) (\<lambda>(ok, st).
             if \<not> ok then Inr (b\<lparr>bst := st, bnumfail := bnumfail b + 1\<rparr>)
             else Inr (b\<lparr>bst := st,
                         bjobs := (bjobs b)[bnext b := (bjobs b ! bnext b)\<lparr>jedge := e, jactive := True\<rparr>],
                         bnext := jnext (bjobs b ! bnext b), bnumjobs := bnumjobs b + 1\<rparr>)))"

definition start_edge :: "nat \<Rightarrow> buildopts \<Rightarrow> spawn_env \<Rightarrow> builder \<Rightarrow> samu_error + builder" where
  "start_edge k opts sp b =
     (case work (bst b) of
        [] \<Rightarrow> Inr b
      | e # rest \<Rightarrow>
        bindE (report_edge opts sp e ((bst b)\<lparr>work := rest\<rparr>)) (\<lambda>st.
          if erule (edges_of st e) = phonyrule \<or> dryrun opts then
            bindE (foldE (\<lambda>n. nodedone k n False) (eout (edges_of st e)) st) (\<lambda>st1. Inr (b\<lparr>bst := st1\<rparr>))
          else launch_job opts sp e (b\<lparr>bst := st\<rparr>)))"

text \<open>
  What \<open>poll\<close>, \<open>read\<close> and \<open>waitpid\<close> report of a slot: nothing, output, the end of the output
  and whether the exit status was 0, or a failing \<open>read\<close>, after which the job is killed.
\<close>

datatype job_event = Ev_none | Ev_data | Ev_end bool | Ev_broken

definition poll_job :: "nat \<Rightarrow> buildopts \<Rightarrow> disk \<Rightarrow> nat \<times> job_event \<Rightarrow> builder \<Rightarrow> samu_error + builder" where
  "poll_job k opts w = (\<lambda>(i, ev) b.
     if ev = Ev_none \<or> ev = Ev_data then Inr b
     else
       let failed = (ev \<noteq> Ev_end True)
       in bindE (jobdone k opts w (jedge (bjobs b ! i)) failed (bst b, bdeps b, blog b)) (\<lambda>(st, d, log).
            Inr (b\<lparr>bst := st, bdeps := d, blog := log, bnumjobs := bnumjobs b - 1,
                   bjobs := (bjobs b)[i := (bjobs b ! i)\<lparr>jnext := bnext b, jactive := False\<rparr>],
                   bnext := i, bnumfail := (if failed then bnumfail b + 1 else bnumfail b)\<rparr>)))"

definition poll_round :: "nat \<Rightarrow> buildopts \<Rightarrow> disk \<Rightarrow> job_event list \<Rightarrow> builder \<Rightarrow> samu_error + builder" where
  "poll_round k opts w evs b = foldE (poll_job k opts w) (enumerate 0 evs) b"

text \<open>\<open>poll\<close> reports events of slots with a descriptor only.\<close>

definition events_ok :: "job_event list \<Rightarrow> builder \<Rightarrow> bool" where
  "events_ok evs b = list_all2 (\<lambda>ev j. ev = Ev_none \<or> jactive j) evs (bjobs b)"

text \<open>What \<open>maxjobs\<close> may be after the load has been asked for.\<close>

definition load_allows :: "buildopts \<Rightarrow> nat \<Rightarrow> bool" where
  "load_allows opts m = (m = maxjobs opts \<or> (loadlimit opts \<and> m = 1))"

inductive build_step :: "buildopts \<Rightarrow> builder \<Rightarrow> builder \<Rightarrow> bool" for opts where
  start: "can_start opts b \<Longrightarrow> start_edge k opts sp b = Inr b' \<Longrightarrow> build_step opts b b'"
| wait: "\<not> can_start opts b \<Longrightarrow> 0 < bnumjobs b \<Longrightarrow> events_ok evs b \<Longrightarrow>
     poll_round k opts w evs b = Inr b' \<Longrightarrow> load_allows opts m \<Longrightarrow> build_step opts b (b'\<lparr>bmax := m\<rparr>)"

text \<open>Before the loop; \<open>None\<close> if there is nothing to do.\<close>

definition build_start ::
    "buildopts \<Rightarrow> (char \<Rightarrow> string option) \<Rightarrow> nat \<Rightarrow> samu \<Rightarrow> depslog \<Rightarrow> string \<Rightarrow> samu_error + builder option" where
  "build_start opts clk m st d log =
     (if ntotal st = 0 then Inr None
      else bindE (formatstatus opts clk st 0) (\<lambda>_.
        Inr (Some \<lparr>bst = st\<lparr>nstarted := 0\<rparr>, bdeps = d, blog = log, bjobs = [], bnext = 0, bnumjobs = 0,
               bnumfail = 0, bmax = m\<rparr>)))"

text \<open>After the loop.\<close>

definition build_end :: "buildopts \<Rightarrow> builder \<Rightarrow> samu_error + samu" where
  "build_end opts b =
     (if bnumfail b > 0 then
        (if bnumfail b < maxfail opts then Inl (Fatal No_progress [])
         else if bnumfail b > 1 then Inl (Fatal Subcommands_failed [])
         else Inl (Fatal Subcommand_failed []))
      else Inr ((bst b)\<lparr>ntotal := 0\<rparr>))"

end
