(* ===== verification/Samu_Build_Laws.thy ===== *)
theory Samu_Build_Laws
  imports Samu_Build
begin

text \<open>
  What holds of the main loop of \<open>build.c\<close>: the limits on running jobs and pools, the list of
  free slots, what is left when the loop ends, and the buffer of the status line.
\<close>

section \<open>Pools\<close>

text \<open>
  \<open>in_pool st p e\<close>: the edge counts against pool \<open>p\<close>. The load of a pool are its edges that
  are queued or running; \<open>numjobs\<close> is never below it, and equal to it as long as no job has
  failed to start (\<open>exact\<close>).
\<close>

definition in_pool :: "samu \<Rightarrow> nat \<Rightarrow> nat \<Rightarrow> bool" where
  "in_pool st p e \<longleftrightarrow> epool (edges_of st e) = Some p \<and> erule (edges_of st e) \<noteq> phonyrule"

definition pool_load :: "samu \<Rightarrow> nat list \<Rightarrow> nat \<Rightarrow> int" where
  "pool_load st run p = int (length (filter (in_pool st p) (work st @ run)))"

definition pools_ok :: "bool \<Rightarrow> samu \<Rightarrow> nat list \<Rightarrow> bool" where
  "pools_ok exact st run \<longleftrightarrow> (\<forall>p. let x = pools_of st p in
     pool_load st run p \<le> pnumjobs x \<and> (0 \<le> pmaxjobs x \<longrightarrow> pnumjobs x \<le> pmaxjobs x) \<and>
     (pwork x \<noteq> [] \<longrightarrow> pnumjobs x = pmaxjobs x) \<and> list_all (in_pool st p) (pwork x) \<and>
     (exact \<longrightarrow> pnumjobs x = pool_load st run p))"

text \<open>
  What every operation of a running build does to the queues: no edge changes its pool or
  rule, no pool its depth, no edge stops waiting for a pool, and the accounts stay right,
  whatever else is running.
\<close>

definition keeps_pools :: "samu \<Rightarrow> samu \<Rightarrow> bool" where
  "keeps_pools st st' \<longleftrightarrow> in_pool st' = in_pool st \<and> (\<forall>p. pmaxjobs (pools_of st' p) = pmaxjobs (pools_of st p)) \<and>
     (\<forall>e. erule (edges_of st' e) = erule (edges_of st e)) \<and>
     (\<forall>p. set (pwork (pools_of st p)) \<subseteq> set (pwork (pools_of st' p))) \<and>
     (\<forall>exact run. pools_ok exact st run \<longrightarrow> pools_ok exact st' run)"

lemma keeps_pools_refl [simp]: "keeps_pools st st"
  by (simp add: keeps_pools_def)

lemma keeps_pools_trans: "keeps_pools st st' \<Longrightarrow> keeps_pools st' st'' \<Longrightarrow> keeps_pools st st''"
  unfolding keeps_pools_def by (intro conjI) (simp, simp, simp, blast, simp)

lemma keeps_poolsI:
  assumes "work st' = work st" and "pools_of st' = pools_of st"
    and "\<And>e. epool (edges_of st' e) = epool (edges_of st e) \<and> erule (edges_of st' e) = erule (edges_of st e)"
  shows "keeps_pools st st'"
proof -
  have "in_pool st' = in_pool st" using assms(3) by (simp add: in_pool_def fun_eq_iff)
  then show ?thesis using assms by (simp add: keeps_pools_def pools_ok_def pool_load_def)
qed

lemma upd_edge_keeps_pools [inv_intros]:
  "(\<And>x. epool (f x) = epool x) \<Longrightarrow> (\<And>x. erule (f x) = erule x) \<Longrightarrow> keeps_pools st (upd_edge e f st)"
  by (rule keeps_poolsI) simp_all

lemma upd_node_keeps_pools [inv_intros]: "keeps_pools st (upd_node n f st)"
  by (rule keeps_poolsI) simp_all

lemma queue_keeps_pools: "keeps_pools st (queue e st)"
proof -
  have ip: "in_pool (queue e st) = in_pool st"
    by (simp add: queue_def in_pool_def fun_eq_iff split: option.split)
  have mx: "pmaxjobs (pools_of (queue e st) p) = pmaxjobs (pools_of st p)" for p
    by (simp add: queue_def split: option.split)
  have rl: "erule (edges_of (queue e st) d) = erule (edges_of st d)" for d
    by (simp add: queue_def split: option.split)
  have "pools_ok exact (queue e st) run" if ok: "pools_ok exact st run" for exact run
    unfolding pools_ok_def Let_def
  proof
    fix p
    note k = ok [unfolded pools_ok_def Let_def, rule_format, of p]
    consider (out) "\<not> in_pool st p e"
      | (full) "in_pool st p e" "pnumjobs (pools_of st p) = pmaxjobs (pools_of st p)"
      | (room) "in_pool st p e" "pnumjobs (pools_of st p) \<noteq> pmaxjobs (pools_of st p)" by blast
    then show "pool_load (queue e st) run p \<le> pnumjobs (pools_of (queue e st) p) \<and>
        (0 \<le> pmaxjobs (pools_of (queue e st) p) \<longrightarrow> pnumjobs (pools_of (queue e st) p) \<le> pmaxjobs (pools_of (queue e st) p)) \<and>
        (pwork (pools_of (queue e st) p) \<noteq> [] \<longrightarrow> pnumjobs (pools_of (queue e st) p) = pmaxjobs (pools_of (queue e st) p)) \<and>
        list_all (in_pool (queue e st) p) (pwork (pools_of (queue e st) p)) \<and>
        (exact \<longrightarrow> pnumjobs (pools_of (queue e st) p) = pool_load (queue e st) run p)"
    proof cases
      case out
      then have "pools_of (queue e st) p = pools_of st p" "pool_load (queue e st) run p = pool_load st run p"
        unfolding pool_load_def ip by (auto simp: queue_def in_pool_def split: option.split)
      then show ?thesis using k ip by simp
    next
      case full
      then have "pools_of (queue e st) p = (pools_of st p)\<lparr>pwork := e # pwork (pools_of st p)\<rparr>"
        "pool_load (queue e st) run p = pool_load st run p"
        unfolding pool_load_def ip by (auto simp: queue_def in_pool_def)
      then show ?thesis using k ip full by simp
    next
      case room
      then have "pools_of (queue e st) p = (pools_of st p)\<lparr>pnumjobs := pnumjobs (pools_of st p) + 1\<rparr>"
        "pool_load (queue e st) run p = pool_load st run p + 1"
        unfolding pool_load_def ip by (auto simp: queue_def in_pool_def)
      then show ?thesis using k ip room by auto
    qed
  qed
  moreover have "set (pwork (pools_of st p)) \<subseteq> set (pwork (pools_of (queue e st) p))" for p
    by (auto simp: queue_def split: option.split)
  ultimately show ?thesis using ip mx rl by (simp add: keeps_pools_def)
qed

text \<open>Sequences of operations.\<close>

lemmas foldE_keeps_pools = foldE_related [of _ _ _ _ keeps_pools, OF _ _ keeps_pools_refl keeps_pools_trans]
lemmas fold_keeps_pools = fold_related [of keeps_pools, OF _ keeps_pools_refl keeps_pools_trans]

section \<open>Every operation of a running build keeps the accounts\<close>

lemma nodestat_keeps_pools: "nodestat stat n st = Inr st' \<Longrightarrow> keeps_pools st st'"
  by (auto simp: nodestat_def intro: upd_node_keeps_pools split: stat_result.splits)

lemma mknode_keeps_pools: "mknode p st = Inr (n, st') \<Longrightarrow> keeps_pools st st'"
  by (rule keeps_poolsI) (auto simp: mknode_def Let_def mknode_frame split: option.splits prod.splits)

lemma edgehash_keeps_pools: "edgehash e st = Inr st' \<Longrightarrow> keeps_pools st st'"
  by (rule keeps_poolsI)
    (auto simp: edgehash_def Let_def set_flags_def monad_simps split: if_splits option.splits)

lemma use_done_keeps_pools:
  assumes "use_done visit prune e st = Inr st'"
    and "\<And>n p st st'. visit n p st = Inr st' \<Longrightarrow> keeps_pools st st'"
  shows "keeps_pools st st'"
proof -
  let ?f = "eflags (edges_of st e)"
  define clean where "clean \<longleftrightarrow> \<not> (if prune then FLAG_DIRTY_OUT ?f else FLAG_DIRTY ?f)"
  define st1 where "st1 = (if clean then upd_edge e (\<lambda>y. y\<lparr>enprune := enprune y - 1\<rparr>) st else st)"
  have s1: "keeps_pools st st1" by (simp add: st1_def inv_intros)
  note run = assms(1) [unfolded use_done_def Let_def, folded clean_def, folded st1_def]
  show ?thesis
  proof (cases "FLAG_WORK ?f")
    case False
    then show ?thesis using run by simp
  next
    case w: True
    show ?thesis
    proof (cases "clean \<and> enprune (edges_of st1 e) = 0")
      case True
      then obtain st2 where st2: "foldE (\<lambda>m. visit m True) (eout (edges_of st1 e)) st1 = Inr st2"
          "st' = (if FLAG_DIRTY (eflags (edges_of st2 e)) \<and> erule (edges_of st2 e) \<noteq> phonyrule
                    then st2\<lparr>ntotal := size_dec (ntotal st2)\<rparr> else st2)"
        using run w by (auto simp: monad_simps)
      have a: "keeps_pools st1 st2"
        by (rule foldE_keeps_pools [of _ _ st1 st2 "\<lambda>s. s", OF st2(1)]) (rule assms(2))
      have b: "keeps_pools st2 st'"
        using keeps_poolsI [of "st2\<lparr>ntotal := size_dec (ntotal st2)\<rparr>" st2] by (simp add: st2(2))
      show ?thesis by (rule keeps_pools_trans [OF s1 keeps_pools_trans [OF a b]])
    next
      case False
      let ?st2 = "upd_edge e (\<lambda>y. y\<lparr>enblock := enblock y - 1\<rparr>) st1"
      have "st' = (if enblock (edges_of ?st2 e) = 0 then queue e ?st2 else ?st2)"
        using run w False by auto
      then have "keeps_pools ?st2 st'" using queue_keeps_pools [of ?st2 e] by simp
      moreover have "keeps_pools st1 ?st2" by (simp add: inv_intros)
      ultimately show ?thesis by (rule keeps_pools_trans [OF s1 keeps_pools_trans, rotated])
    qed
  qed
qed

lemma nodedone_keeps_pools: "nodedone k n prune st = Inr st' \<Longrightarrow> keeps_pools st st'"
proof (induction k arbitrary: n prune st st')
  case (Suc k)
  have "keeps_pools s t" if "use_done (nodedone k) prune e s = Inr t" for e s t
    using use_done_keeps_pools [OF that] Suc.IH by blast
  note step = this
  show ?case
    by (rule foldE_keeps_pools [of "use_done (nodedone k) prune" _ st st' "\<lambda>s. s"])
      (use Suc.prems step in auto)
qed simp

text \<open>Recording dependencies only touches nodes.\<close>

definition nodes_only :: "samu \<Rightarrow> samu \<Rightarrow> bool" where
  "nodes_only st st' \<longleftrightarrow> edges_of st' = edges_of st \<and> work st' = work st \<and> pools_of st' = pools_of st"

lemma nodes_only_refl [simp]: "nodes_only st st"
  by (simp add: nodes_only_def)

lemma nodes_only_trans: "nodes_only st st' \<Longrightarrow> nodes_only st' st'' \<Longrightarrow> nodes_only st st''"
  by (simp add: nodes_only_def)

lemma nodes_only_keeps_pools: "nodes_only st st' \<Longrightarrow> keeps_pools st st'"
  by (rule keeps_poolsI) (simp_all add: nodes_only_def)

lemma mknode_nodes_only: "mknode p st = Inr (n, st') \<Longrightarrow> nodes_only st st'"
  by (auto simp: nodes_only_def mknode_def Let_def split: option.splits prod.splits)

lemma depsparse_loop_nodes_only:
  "depsparse_loop cs saw out deps st = Inr (res, st1) \<Longrightarrow> nodes_only st st1"
proof (induction cs arbitrary: saw out deps st rule: measure_induct_rule [of length])
  case (less cs)
  note turn = less.prems [unfolded depsparse_loop.simps [of cs]]
  show ?case
  proof (cases "dep_word cs []")
    case None
    then show ?thesis using turn by simp
  next
    case (Some w)
    obtain cs1 buf where w: "dep_word cs [] = Some (cs1, buf)" using Some by (cases w) auto
    show ?thesis
    proof (cases "saw \<and> \<not> (cs1 \<noteq> [] \<and> \<not> isspace (hd cs1))")
      case True
      obtain deps1 st2 where a: "(if length buf > 0 then bindE (mknode buf st) (\<lambda>(n, st1). Inr (deps @ [n], st1))
            else Inr (deps, st)) = Inr (deps1, st2)"
          "st1 = st2 \<or> (\<exists>cs3 saw'. length cs3 < length cs \<and> depsparse_loop cs3 saw' out deps1 st2 = Inr (res, st1))"
        using turn True unfolding w Let_def
        by (auto simp: monad_simps simp del: length_greater_0_conv split: if_split_asm option.split_asm)
      have "nodes_only st st2"
        using a(1) mknode_nodes_only by (auto simp: monad_simps split: if_splits)
      then show ?thesis using a(2) less.IH nodes_only_trans by blast
    next
      case False
      then show ?thesis using turn w less.IH by (auto simp: Let_def split: if_split_asm option.split_asm)
    qed
  qed
qed

lemma depsparse_nodes_only: "depsparse fr am st = Inr (res, st1) \<Longrightarrow> nodes_only st st1"
  by (auto simp: depsparse_def intro: depsparse_loop_nodes_only split: file_result.splits)

lemma recordid_nodes_only: "recordid n (st, d) = Inr (b, st1, d1) \<Longrightarrow> nodes_only st st1"
  by (auto simp: recordid_def Let_def nodes_only_def split: if_splits)

lemma record_ids_nodes_only:
  assumes "record_ids ns (b, st, d) = Inr (b1, st1, d1)"
  shows "nodes_only st st1"
proof -
  have "nodes_only (fst (snd (b, st, d))) (fst (snd (b1, st1, d1)))"
    by (rule foldE_related [where R = nodes_only and g = "\<lambda>s. fst (snd s)", OF assms [unfolded record_ids_def]])
      (auto simp: monad_simps dest: recordid_nodes_only nodes_only_trans)
  then show ?thesis by simp
qed

lemma depsupdate_nodes_only:
  assumes "depsupdate n deps (st, d) = Inr (st1, d1)"
  shows "nodes_only st st1"
proof -
  obtain new st2 d2 where 1: "recordid n (st, d) = Inr (new, st2, d2)"
    using assms by (auto simp: depsupdate_def bindE_Inr_iff)
  then obtain u upd st3 d3 where "record_ids deps (u, st2, d2) = Inr (upd, st3, d3)" "st1 = st3"
    using assms by (auto simp: depsupdate_def bindE_Inr_iff split: if_split_asm)
  then show ?thesis
    using recordid_nodes_only [OF 1] record_ids_nodes_only nodes_only_trans by blast
qed

lemma depsrecord_nodes_only:
  assumes "depsrecord fs keep e (st, d) = Inr (st1, d1)"
  shows "nodes_only st st1"
proof -
  note run = assms [unfolded depsrecord_def prod.case]
  obtain dt where dt: "edgevar st e ''deps'' True = Inr dt" using run by (auto simp: monad_simps)
  show ?thesis
  proof (cases "dt = Some ''gcc''")
    case False
    then show ?thesis using run dt by (auto split: if_splits)
  next
    case gcc: True
    then obtain df where df: "edgevar st e ''depfile'' False = Inr df" using run dt by (auto simp: monad_simps)
    show ?thesis
    proof (cases "df = None \<or> df = Some [] \<or> eout (edges_of st e) = []")
      case True
      then show ?thesis using run dt df gcc by (auto split: option.splits if_splits)
    next
      case False
      then obtain name n ns where n: "df = Some name" "name \<noteq> []" "eout (edges_of st e) = n # ns"
        by (cases "eout (edges_of st e)") auto
      let ?d = "if keep then d else d\<lparr>dremoved := dremoved d @ [name]\<rparr>"
      have "bindE (depsparse (fs name) True st) (\<lambda>(r, st2).
          case r of None \<Rightarrow> Inr (st2, ?d) | Some deps \<Rightarrow> depsupdate n deps (st2, ?d)) = Inr (st1, d1)"
        using run dt df n gcc by (simp add: Let_def)
      then obtain r st2 where r: "depsparse (fs name) True st = Inr (r, st2)"
          "(case r of None \<Rightarrow> Inr (st2, ?d) | Some deps \<Rightarrow> depsupdate n deps (st2, ?d)) = Inr (st1, d1)"
        by (auto simp: bindE_Inr_iff)
      have "nodes_only st2 st1" using r(2) depsupdate_nodes_only by (cases r) auto
      then show ?thesis using depsparse_nodes_only [OF r(1)] nodes_only_trans by blast
    qed
  qed
qed

lemma shouldprune_keeps_pools:
  assumes "shouldprune w e n old st = Inr (b, st')"
  shows "keeps_pools st st'"
proof (cases "old = nmtime (nodes_of st n)")
  case False
  then show ?thesis using assms by (simp add: shouldprune_def)
next
  case True
  then obtain st1 newest where r: "foldE (prune_input w) (take (einorderidx (edges_of st e)) (ein (edges_of st e))) (st, None) = Inr (st1, newest)"
      "st' = (case newest of None \<Rightarrow> st1 | Some m \<Rightarrow> upd_node n (\<lambda>x. x\<lparr>nlogmtime := nmtime (nodes_of st1 m)\<rparr>) st1)"
    using assms by (auto simp: shouldprune_def bindE_Inr_iff)
  have "keeps_pools (fst (st, None :: nat option)) (fst (st1, newest))"
    by (rule foldE_keeps_pools [OF r(1), where g = fst])
      (auto simp: prune_input_def monad_simps dest: nodestat_keeps_pools)
  moreover have "keeps_pools st1 st'"
    unfolding r(2) using upd_node_keeps_pools by (cases newest) auto
  ultimately show ?thesis by (metis fst_conv keeps_pools_trans)
qed

lemma output_done_keeps_pools:
  assumes "output_done k w e restat n st = Inr st'"
  shows "keeps_pools st st'"
proof -
  let ?u = "upd_node n (\<lambda>x. x\<lparr>nlogmtime := (if nmtime x = MTIME_MISSING then 0 else nmtime x)\<rparr>)"
  obtain st1 b st3 where r: "nodestat (dstat w) n st = Inr st1"
      "(if restat then shouldprune w e n (nmtime (nodes_of st n)) (?u st1) else Inr (False, ?u st1)) = Inr (b, st3)"
      "nodedone k n b st3 = Inr st'"
    using assms by (auto simp: output_done_def Let_def bindE_Inr_iff)
  have "keeps_pools st (?u st1)"
    using nodestat_keeps_pools [OF r(1)] upd_node_keeps_pools keeps_pools_trans by blast
  moreover have "keeps_pools (?u st1) st3"
    using r(2) shouldprune_keeps_pools by (auto split: if_splits)
  moreover have "keeps_pools st3 st'" by (rule nodedone_keeps_pools [OF r(3)])
  ultimately show ?thesis using keeps_pools_trans by blast
qed

lemma edgedone_keeps_pools:
  assumes "edgedone k opts w e (st, d, log) = Inr (st', d', log')"
  shows "keeps_pools st st'"
proof -
  note run = assms [unfolded edgedone_def prod.case]
  obtain restat :: "string option" and st1
    where 1: "foldE (output_done k w e (restat \<noteq> None)) (eout (edges_of st e)) st = Inr st1"
      "bindE (edgevar st1 e ''rspfile'' False) (\<lambda>_.
       bindE (edgehash e st1) (\<lambda>st2.
       bindE (depsrecord (dread w) (keepdepfile opts) e (st2, d)) (\<lambda>(st3, d1).
       case fold (log_output e) (eout (edges_of st3 e)) (st3, log) of (st4, log1) \<Rightarrow>
         Inr (st4, d1, log1)))) = Inr (st', d', log')"
    by (rule bindE_elim [OF run], erule bindE_elim) (rule that)
  obtain st2 st3 d1 where 2: "edgehash e st1 = Inr st2" "depsrecord (dread w) (keepdepfile opts) e (st2, d) = Inr (st3, d1)"
      "(case fold (log_output e) (eout (edges_of st3 e)) (st3, log) of (st4, log1) \<Rightarrow>
         Inr (st4, d1, log1)) = (Inr (st', d', log') :: samu_error + _)"
    using 1(2) by (auto simp: bindE_Inr_iff)
  then have st': "st' = fst (fold (log_output e) (eout (edges_of st3 e)) (st3, log))"
    by (simp add: case_prod_unfold)
  have a: "keeps_pools st st1"
    by (rule foldE_keeps_pools [OF 1(1), where g = "\<lambda>s. s"]) (rule output_done_keeps_pools)
  have b: "keeps_pools st1 st2" by (rule edgehash_keeps_pools [OF 2(1)])
  have c: "keeps_pools st2 st3" by (rule nodes_only_keeps_pools [OF depsrecord_nodes_only [OF 2(2)]])
  have "keeps_pools (fst (st3, log)) st'" unfolding st'
    by (rule fold_keeps_pools [where g = fst]) (simp add: log_output_def Let_def upd_node_keeps_pools split: prod.splits)
  then show ?thesis using keeps_pools_trans [OF a keeps_pools_trans [OF b keeps_pools_trans [OF c]]] by simp
qed

section \<open>Slots\<close>

text \<open>The edges of running jobs.\<close>

definition running :: "builder \<Rightarrow> nat list" where
  "running b = map jedge (filter jactive (bjobs b))"

text \<open>From a slot number, \<open>next\<close> leads through the slots of a list and ends behind the array.\<close>

fun slot_chain :: "job list \<Rightarrow> nat \<Rightarrow> nat list \<Rightarrow> bool" where
  "slot_chain jobs i [] = (i = length jobs)"
| "slot_chain jobs i (s # ss) = (i = s \<and> s < length jobs \<and> slot_chain jobs (jnext (jobs ! s)) ss)"

definition slots_ok :: "builder \<Rightarrow> bool" where
  "slots_ok b \<longleftrightarrow> (\<exists>free. distinct free \<and> set free = {i. i < length (bjobs b) \<and> \<not> jactive (bjobs b ! i)} \<and>
     slot_chain (bjobs b) (bnext b) free) \<and> bnumjobs b = length (running b)"

lemma slots_upd [simp]:
  "running (b\<lparr>bst := st\<rparr>) = running b" "slots_ok (b\<lparr>bst := st\<rparr>) = slots_ok b"
  "running (b\<lparr>bnumfail := k\<rparr>) = running b" "slots_ok (b\<lparr>bnumfail := k\<rparr>) = slots_ok b"
  "running (b\<lparr>bdeps := d\<rparr>) = running b" "slots_ok (b\<lparr>bdeps := d\<rparr>) = slots_ok b"
  "running (b\<lparr>blog := log\<rparr>) = running b" "slots_ok (b\<lparr>blog := log\<rparr>) = slots_ok b"
  "running (b\<lparr>bmax := k\<rparr>) = running b" "slots_ok (b\<lparr>bmax := k\<rparr>) = slots_ok b"
  by (simp_all add: running_def slots_ok_def)

lemma slot_chain_cong:
  "slot_chain jobs i free \<Longrightarrow> length jobs' = length jobs \<Longrightarrow> (\<And>s. s \<in> set free \<Longrightarrow> jnext (jobs' ! s) = jnext (jobs ! s)) \<Longrightarrow>
     slot_chain jobs' i free"
  by (induction free arbitrary: i) auto

lemma mset_filter_update:
  "i < length xs \<Longrightarrow> mset (map f (filter P (xs[i := x]))) + (if P (xs ! i) then {#f (xs ! i)#} else {#}) =
     mset (map f (filter P xs)) + (if P x then {#f x#} else {#})"
proof (induction xs arbitrary: i)
  case (Cons a xs)
  show ?case
  proof (cases i)
    case (Suc j)
    then show ?thesis using Cons.IH [of j] Cons.prems by (auto split: if_splits)
  qed auto
qed simp

text \<open>Taking the first free slot, and giving a slot back.\<close>

lemma slots_take:
  fixes e :: nat
  assumes "slots_ok b" and "bnext b < length (bjobs b)"
  defines "b' \<equiv> b\<lparr>bjobs := (bjobs b)[bnext b := (bjobs b ! bnext b)\<lparr>jedge := e, jactive := True\<rparr>],
     bnext := jnext (bjobs b ! bnext b), bnumjobs := bnumjobs b + 1\<rparr>"
  shows "slots_ok b'" and "mset (running b') = add_mset e (mset (running b))" and "\<not> jactive (bjobs b ! bnext b)"
proof -
  let ?n = "bnext b"
  obtain free where f: "distinct free" "set free = {i. i < length (bjobs b) \<and> \<not> jactive (bjobs b ! i)}"
      "slot_chain (bjobs b) ?n free" "bnumjobs b = length (running b)"
    using assms(1) by (auto simp: slots_ok_def)
  obtain ss where ss: "free = ?n # ss" "slot_chain (bjobs b) (jnext (bjobs b ! ?n)) ss"
    using f(3) assms(2) by (cases free) auto
  show na: "\<not> jactive (bjobs b ! ?n)" using f(2) ss(1) by auto
  have n: "?n \<notin> set ss" "distinct ss" using f(1) ss(1) by auto
  show m: "mset (running b') = add_mset e (mset (running b))"
    using mset_filter_update [OF assms(2), of jedge jactive "(bjobs b ! ?n)\<lparr>jedge := e, jactive := True\<rparr>"] na
    by (simp add: running_def b'_def)
  have "set ss = {i. i < length (bjobs b') \<and> \<not> jactive (bjobs b' ! i)}"
  proof -
    have "set ss = set free - {?n}" using n(1) ss(1) by auto
    then show ?thesis using assms(2) by (auto simp: f(2) b'_def nth_list_update)
  qed
  moreover have "slot_chain (bjobs b') (bnext b') ss"
    by (simp add: b'_def, rule slot_chain_cong [OF ss(2)]) (use n(1) assms(2) in \<open>auto simp: nth_list_update\<close>)
  moreover have "bnumjobs b' = length (running b')"
    using arg_cong [OF m, of size] f(4) by (simp add: b'_def)
  ultimately show "slots_ok b'" using n(2) unfolding slots_ok_def by blast
qed

lemma slots_free:
  fixes i :: nat
  assumes "slots_ok b" and "i < length (bjobs b)" and "jactive (bjobs b ! i)"
  defines "b' \<equiv> b\<lparr>bjobs := (bjobs b)[i := (bjobs b ! i)\<lparr>jnext := bnext b, jactive := False\<rparr>],
     bnext := i, bnumjobs := bnumjobs b - 1\<rparr>"
  shows "slots_ok b'" and "mset (running b) = add_mset (jedge (bjobs b ! i)) (mset (running b'))"
proof -
  obtain free where f: "distinct free" "set free = {i. i < length (bjobs b) \<and> \<not> jactive (bjobs b ! i)}"
      "slot_chain (bjobs b) (bnext b) free" "bnumjobs b = length (running b)"
    using assms(1) by (auto simp: slots_ok_def)
  have i: "i \<notin> set free" using f(2) assms(3) by auto
  show m: "mset (running b) = add_mset (jedge (bjobs b ! i)) (mset (running b'))"
    using mset_filter_update [OF assms(2), of jedge jactive "(bjobs b ! i)\<lparr>jnext := bnext b, jactive := False\<rparr>"] assms(3)
    by (simp add: running_def b'_def)
  have "set (i # free) = {i. i < length (bjobs b') \<and> \<not> jactive (bjobs b' ! i)}"
    using assms(2,3) by (auto simp: f(2) b'_def nth_list_update)
  moreover have "slot_chain (bjobs b') (bnext b') (i # free)"
    by (simp add: b'_def assms(2), rule slot_chain_cong [OF f(3)]) (use i in \<open>auto intro!: arg_cong [of _ _ jnext] nth_list_update_neq\<close>)
  moreover have "bnumjobs b' = length (running b')"
    using arg_cong [OF m, of size] f(4) by (simp add: b'_def)
  ultimately show "slots_ok b'" using f(1) i unfolding slots_ok_def by (metis distinct.simps(2))
qed

text \<open>More slots are made only if none is free; afterwards one is, if more jobs are allowed.\<close>

lemma slots_grow:
  fixes opts :: buildopts
  assumes "slots_ok b" and "bnumjobs b < maxjobs opts" and "length (bjobs b) \<le> maxjobs opts"
  defines "b' \<equiv> grow_jobs opts b"
  shows "slots_ok b'" and "running b' = running b" and "bnext b' < length (bjobs b')"
    and "length (bjobs b') \<le> maxjobs opts"
proof -
  obtain free where f: "distinct free" "set free = {i. i < length (bjobs b) \<and> \<not> jactive (bjobs b ! i)}"
      "slot_chain (bjobs b) (bnext b) free" "bnumjobs b = length (running b)"
    using assms(1) by (auto simp: slots_ok_def)
  have "slots_ok b' \<and> running b' = running b \<and> bnext b' < length (bjobs b') \<and> length (bjobs b') \<le> maxjobs opts"
  proof (cases "bnext b = length (bjobs b)")
    case False
    then have "b' = b" by (simp add: b'_def grow_jobs_def)
    moreover have "bnext b < length (bjobs b)" using f(3) False by (cases free) auto
    ultimately show ?thesis using assms by simp
  next
    case True
    let ?len = "length (bjobs b)"
    define len' where "len' = min (if ?len \<noteq> 0 then ?len * 2 else 8) (maxjobs opts)"
    let ?new = "map (\<lambda>i. \<lparr>jedge = 0, jnext = i + 1, jactive = False\<rparr>) [?len..<len']"
    have b': "b' = b\<lparr>bjobs := bjobs b @ ?new\<rparr>" using True by (simp add: b'_def grow_jobs_def Let_def len'_def)
    have "free = []" using f(3) True by (cases free) auto
    then have act: "\<forall>j \<in> set (bjobs b). jactive j" using f(2) by (auto simp: in_set_conv_nth)
    then have "running b = map jedge (bjobs b)" by (simp add: running_def)
    then have lt: "?len < len'" using assms(2) f(4) by (auto simp: len'_def)
    have "filter jactive ?new = []" by (simp add: filter_empty_conv)
    then have run: "running b' = running b" by (simp add: running_def b')
    have nth: "bjobs b' ! i = \<lparr>jedge = 0, jnext = i + 1, jactive = False\<rparr>" if "?len \<le> i" "i < len'" for i
      using that nth_upt [of ?len "i - ?len" len'] by (simp add: b' nth_append del: nth_upt)
    have len: "length (bjobs b') = len'" using lt by (simp add: b')
    have "slot_chain (bjobs b') i [i..<len']" if "?len \<le> i" "i \<le> len'" for i
      using that
    proof (induction "len' - i" arbitrary: i)
      case (Suc n)
      then have "[i..<len'] = i # [Suc i..<len']" by (simp add: upt_rec)
      then show ?case using Suc nth len by simp
    qed (simp add: len)
    then have chain: "slot_chain (bjobs b') (bnext b') [?len..<len']" using lt True by (simp add: b')
    have "set [?len..<len'] = {i. i < length (bjobs b') \<and> \<not> jactive (bjobs b' ! i)}"
      using nth act lt by (auto simp: len b' nth_append)
    then have "slots_ok b'" using chain run f(4) unfolding slots_ok_def
      by (intro conjI exI [of _ "[?len..<len']"]) (simp_all add: b')
    then show ?thesis using run lt True len by (simp add: b' len'_def)
  qed
  then show "slots_ok b'" "running b' = running b" "bnext b' < length (bjobs b')"
    "length (bjobs b') \<le> maxjobs opts" by simp_all
qed

section \<open>The invariant of the main loop\<close>

lemma pool_load_mset: "pool_load st run p = int (size (filter_mset (in_pool st p) (mset (work st @ run))))"
  by (simp add: pool_load_def flip: mset_filter)

lemma pools_ok_mset: "mset run = mset run' \<Longrightarrow> pools_ok exact st run = pools_ok exact st run'"
  by (simp add: pools_ok_def pool_load_mset)

lemma pools_ok_weaken: "pools_ok True st run \<Longrightarrow> pools_ok exact st run"
  by (auto simp: pools_ok_def Let_def)

lemma pool_load_Cons: "pool_load st (e # run) p = pool_load st run p + (if in_pool st p e then 1 else 0)"
  by (simp add: pool_load_def)

lemma pools_ok_pop:
  assumes "pools_ok exact st run" and "work st = e # rest"
  shows "pools_ok exact (st\<lparr>work := rest\<rparr>) (e # run)"
proof -
  have ip: "in_pool (st\<lparr>work := rest\<rparr>) = in_pool st" by (simp add: in_pool_def fun_eq_iff)
  have "pool_load (st\<lparr>work := rest\<rparr>) (e # run) p = pool_load st run p" for p
    by (simp add: pool_load_def ip assms(2))
  then show ?thesis using assms(1) ip by (simp add: pools_ok_def)
qed

lemma pools_ok_drop:
  assumes "pools_ok exact st (e # run)"
  shows "pools_ok False st run" and "erule (edges_of st e) = phonyrule \<Longrightarrow> pools_ok exact st run"
  using assms unfolding pools_ok_def Let_def pool_load_Cons
  by (force split: if_splits, simp add: in_pool_def)

lemma keeps_poolsD:
  assumes "keeps_pools st st'"
  shows "pools_ok exact st run \<Longrightarrow> pools_ok exact st' run" and "in_pool st' = in_pool st"
    and "erule (edges_of st' e) = erule (edges_of st e)" and "pmaxjobs (pools_of st' p) = pmaxjobs (pools_of st p)"
    and "set (pwork (pools_of st p)) \<subseteq> set (pwork (pools_of st' p))"
  using assms by (simp_all add: keeps_pools_def)

lemma pool_release_facts:
  "in_pool (pool_release e st) = in_pool st" "erule (edges_of (pool_release e st) d) = erule (edges_of st d)"
  "pmaxjobs (pools_of (pool_release e st) p) = pmaxjobs (pools_of st p)"
  by (simp_all add: pool_release_def in_pool_def Let_def fun_eq_iff split: option.split list.split)

lemma pool_release_ok:
  assumes ok: "pools_ok exact st (e # run)" and e: "erule (edges_of st e) \<noteq> phonyrule"
  shows "pools_ok exact (pool_release e st) run"
proof (cases "epool (edges_of st e)")
  case None
  then have "\<not> in_pool st p e" for p by (simp add: in_pool_def)
  then have "pools_ok exact st run" using ok by (simp add: pools_ok_def pool_load_mset Let_def)
  then show ?thesis using None by (simp add: pool_release_def)
next
  case (Some p)
  let ?s = "pool_release e st"
  have e_in: "in_pool st q e \<longleftrightarrow> q = p" for q using Some e by (auto simp: in_pool_def)
  note ip = pool_release_facts(1) [of e st]
  show ?thesis
    unfolding pools_ok_def Let_def
  proof
    fix q
    note k = ok [unfolded pools_ok_def Let_def, rule_format, of q]
    have old: "pool_load st (e # run) q = pool_load st run q + (if q = p then 1 else 0)"
      using e_in [of q] by (simp add: pool_load_def)
    consider (other) "q \<noteq> p" | (hand) new rest where "q = p" "pwork (pools_of st p) = new # rest"
      | (free) "q = p" "pwork (pools_of st p) = []" by (cases "pwork (pools_of st p)") auto
    then show "pool_load ?s run q \<le> pnumjobs (pools_of ?s q) \<and>
        (0 \<le> pmaxjobs (pools_of ?s q) \<longrightarrow> pnumjobs (pools_of ?s q) \<le> pmaxjobs (pools_of ?s q)) \<and>
        (pwork (pools_of ?s q) \<noteq> [] \<longrightarrow> pnumjobs (pools_of ?s q) = pmaxjobs (pools_of ?s q)) \<and>
        list_all (in_pool ?s q) (pwork (pools_of ?s q)) \<and>
        (exact \<longrightarrow> pnumjobs (pools_of ?s q) = pool_load ?s run q)"
    proof cases
      case other
      have "\<not> in_pool st q x" if "x \<in> set (pwork (pools_of st p))" for x
      proof -
        have "list_all (in_pool st p) (pwork (pools_of st p))"
          using ok by (simp add: pools_ok_def Let_def)
        then show ?thesis using that other by (auto simp: list_all_iff in_pool_def)
      qed
      then have "pool_load ?s run q = pool_load st run q" "pools_of ?s q = pools_of st q"
        unfolding pool_load_def ip using Some other
        by (auto simp: pool_release_def Let_def split: list.split)
      then show ?thesis using k old other ip by simp
    next
      case hand
      then have "pool_load ?s run p = pool_load st run p + 1"
          "pools_of ?s p = (pools_of st p)\<lparr>pwork := rest\<rparr>"
        using Some k unfolding pool_load_def ip by (auto simp: pool_release_def Let_def)
      then show ?thesis using k old hand ip by auto
    next
      case free
      then have "pool_load ?s run p = pool_load st run p"
          "pools_of ?s p = (pools_of st p)\<lparr>pnumjobs := pnumjobs (pools_of st p) - 1\<rparr>"
        using Some unfolding pool_load_def ip by (auto simp: pool_release_def Let_def)
      then show ?thesis using k old free ip by auto
    qed
  qed
qed

definition builder_ok :: "buildopts \<Rightarrow> builder \<Rightarrow> bool" where
  "builder_ok opts b \<longleftrightarrow> slots_ok b \<and> length (bjobs b) \<le> maxjobs opts \<and> bnumjobs b \<le> maxjobs opts \<and>
     load_allows opts (bmax b) \<and> list_all (\<lambda>e. erule (edges_of (bst b) e) \<noteq> phonyrule) (running b) \<and>
     pools_ok (\<not> dryrun opts \<and> bnumfail b = 0) (bst b) (running b)"

lemma jobstart_keeps_pools: "jobstart opts sp e st = Inr (ok, st') \<Longrightarrow> keeps_pools st st'"
  by (rule keeps_poolsI)
    (auto simp: jobstart_def Let_def monad_simps split: if_splits)

text \<open>What a step leaves alone: the depth of every pool.\<close>

definition same_depths :: "builder \<Rightarrow> builder \<Rightarrow> bool" where
  "same_depths b b' \<longleftrightarrow> (\<forall>p. pmaxjobs (pools_of (bst b') p) = pmaxjobs (pools_of (bst b) p))"

lemma report_edge_keeps_pools: "report_edge opts sp e st = Inr st' \<Longrightarrow> keeps_pools st st'"
  by (rule keeps_poolsI) (auto simp: report_edge_def monad_simps Let_def split: if_splits)

text \<open>A job that may start; its edge is no longer in the queue.\<close>

lemma launch_job_ok:
  assumes slots: "slots_ok b" "length (bjobs b) \<le> maxjobs opts" "bnumjobs b < maxjobs opts"
      "load_allows opts (bmax b)" "list_all (\<lambda>e. erule (edges_of (bst b) e) \<noteq> phonyrule) (e # running b)"
    and pops: "pools_ok (\<not> dryrun opts \<and> bnumfail b = 0) (bst b) (e # running b)"
    and run: "launch_job opts sp e b = Inr b'"
  shows "builder_ok opts b' \<and> keeps_pools (bst b) (bst b')"
proof -
  define b1 where "b1 = grow_jobs opts b"
  note g = slots_grow [OF slots(1,3,2), folded b1_def]
  have b1: "bst b1 = bst b" "bnumfail b1 = bnumfail b" "bnumjobs b1 = bnumjobs b" "bmax b1 = bmax b"
    by (simp_all add: b1_def grow_jobs_def Let_def)
  let ?b2 = "b1\<lparr>bjobs := (bjobs b1)[bnext b1 := (bjobs b1 ! bnext b1)\<lparr>jedge := e, jactive := True\<rparr>],
                 bnext := jnext (bjobs b1 ! bnext b1), bnumjobs := bnumjobs b1 + 1\<rparr>"
  have nb: "\<not> length (bjobs b1) \<le> bnext b1" using g(3) by simp
  have "bindE (jobstart opts sp e (bst b1)) (\<lambda>(ok, st).
      if \<not> ok then Inr (b1\<lparr>bst := st, bnumfail := bnumfail b1 + 1\<rparr>)
      else Inr (b1\<lparr>bst := st,
                  bjobs := (bjobs b1)[bnext b1 := (bjobs b1 ! bnext b1)\<lparr>jedge := e, jactive := True\<rparr>],
                  bnext := jnext (bjobs b1 ! bnext b1), bnumjobs := bnumjobs b1 + 1\<rparr>)) = Inr b'"
    using run nb by (simp only: launch_job_def Let_def b1_def [symmetric] if_False)
  then obtain ok st where st: "jobstart opts sp e (bst b) = Inr (ok, st)"
      "(if \<not> ok then Inr (b1\<lparr>bst := st, bnumfail := bnumfail b1 + 1\<rparr>)
      else Inr (b1\<lparr>bst := st,
                  bjobs := (bjobs b1)[bnext b1 := (bjobs b1 ! bnext b1)\<lparr>jedge := e, jactive := True\<rparr>],
                  bnext := jnext (bjobs b1 ! bnext b1), bnumjobs := bnumjobs b1 + 1\<rparr>)) = (Inr b' :: samu_error + builder)"
    unfolding b1(1) by (rule bindE_elim) (simp only: case_prod_unfold prod.collapse, metis prod.collapse that)
  note k = keeps_poolsD [OF jobstart_keeps_pools [OF st(1)]] and kp = jobstart_keeps_pools [OF st(1)]
  show ?thesis
  proof (cases ok)
    case False
    then have b': "b' = b1\<lparr>bst := st, bnumfail := bnumfail b1 + 1\<rparr>" using st(2) by simp
    have "running b' = running b" "slots_ok b'"
      using g(1,2) by (simp_all add: b')
    then show ?thesis
      using pools_ok_drop(1) [OF k(1) [OF pops]] slots g(4) k(3) kp b1 by (simp add: builder_ok_def b')
  next
    case True
    then have b': "b' = ?b2\<lparr>bst := st\<rparr>" using st(2) by (cases b1) auto
    note t = slots_take(1,2) [OF g(1,3), of e]
    have r: "running b' = running ?b2" "slots_ok b'" using t(1) by (simp_all add: b')
    then have m: "mset (running b') = mset (e # running b)" using t(2) g(2) by simp
    then have "pools_ok (\<not> dryrun opts \<and> bnumfail b = 0) st (running b')" using k(1) [OF pops] pools_ok_mset by blast
    moreover have "set (running b') = set (e # running b)" using arg_cong [OF m, of set_mset] by simp
    then have "list_all (\<lambda>e. erule (edges_of st e) \<noteq> phonyrule) (running b')"
      using slots(5) k(3) by (simp add: list_all_iff)
    ultimately show ?thesis using r(2) slots(3,4) g(4) b1 kp by (simp add: builder_ok_def b')
  qed
qed

lemma start_edge_ok:
  assumes ok: "builder_ok opts b" and go: "can_start opts b" and pos: "0 < maxjobs opts"
    and run: "start_edge k opts sp b = Inr b'"
  shows "builder_ok opts b' \<and> same_depths b b'"
proof -
  obtain e rest where w: "work (bst b) = e # rest" using go by (cases "work (bst b)") (auto simp: can_start_def)
  let ?st1 = "(bst b)\<lparr>work := rest\<rparr>" and ?exact = "\<not> dryrun opts \<and> bnumfail b = 0"
  have slots: "slots_ok b" "length (bjobs b) \<le> maxjobs opts" "bnumjobs b < maxjobs opts"
      "load_allows opts (bmax b)" "list_all (\<lambda>e. erule (edges_of (bst b) e) \<noteq> phonyrule) (running b)"
    using ok go pos by (auto simp: builder_ok_def can_start_def load_allows_def)
  obtain st where st: "report_edge opts sp e ?st1 = Inr st"
      "(if erule (edges_of st e) = phonyrule \<or> dryrun opts then
          bindE (foldE (\<lambda>n. nodedone k n False) (eout (edges_of st e)) st) (\<lambda>st1. Inr (b\<lparr>bst := st1\<rparr>))
        else launch_job opts sp e (b\<lparr>bst := st\<rparr>)) = Inr b'"
    using run unfolding start_edge_def w list.case by (rule bindE_elim) (rule that)
  note k = keeps_poolsD [OF report_edge_keeps_pools [OF st(1)]]
  have pops: "pools_ok ?exact st (e # running b)"
    using pools_ok_pop [OF _ w] ok by (intro k(1)) (simp add: builder_ok_def)
  show ?thesis
  proof (cases "erule (edges_of st e) = phonyrule \<or> dryrun opts")
    case True
    then obtain st3 where st3: "foldE (\<lambda>n. nodedone k n False) (eout (edges_of st e)) st = Inr st3" "b' = b\<lparr>bst := st3\<rparr>"
      using st(2) by (auto simp: monad_simps)
    have "keeps_pools st st3"
      by (rule foldE_keeps_pools [OF st3(1), where g = "\<lambda>s. s"]) (rule nodedone_keeps_pools)
    note k3 = keeps_poolsD [OF this]
    have "pools_ok ?exact st (running b)"
      using pools_ok_drop [OF pops] True by (cases "dryrun opts") auto
    then have "pools_ok ?exact st3 (running b)" by (rule k3(1))
    moreover have "running b' = running b" "slots_ok b' = slots_ok b" by (simp_all add: st3(2))
    ultimately show ?thesis using slots k(3,4) k3(3,4) by (simp add: builder_ok_def st3(2) same_depths_def)
  next
    case False
    let ?b = "b\<lparr>bst := st\<rparr>"
    have "running ?b = running b" "slots_ok ?b" using slots(1) by simp_all
    then have "builder_ok opts b' \<and> keeps_pools (bst ?b) (bst b')"
      using False slots pops k(3) st(2) by (intro launch_job_ok [of ?b]) simp_all
    then show ?thesis using k(4) keeps_poolsD(4) by (fastforce simp: same_depths_def)
  qed
qed

text \<open>A job that has ended.\<close>

lemma same_depths_refl [simp]: "same_depths b b"
  by (simp add: same_depths_def)

lemma same_depths_trans: "same_depths a b \<Longrightarrow> same_depths b c \<Longrightarrow> same_depths a c"
  by (simp add: same_depths_def)

lemma poll_job_ok:
  assumes ok: "builder_ok opts b" and act: "i < length (bjobs b)" "jactive (bjobs b ! i)"
    and ev: "ev \<noteq> Ev_none" "ev \<noteq> Ev_data" and run: "poll_job k opts w (i, ev) b = Inr b'"
  shows "builder_ok opts b' \<and> same_depths b b' \<and> length (bjobs b') = length (bjobs b) \<and>
    (\<forall>j. j \<noteq> i \<longrightarrow> bjobs b' ! j = bjobs b ! j)"
proof -
  let ?e = "jedge (bjobs b ! i)" and ?failed = "ev \<noteq> Ev_end True"
  let ?exact = "\<not> dryrun opts \<and> bnumfail b = 0"
  obtain st d log where j: "jobdone k opts w ?e ?failed (bst b, bdeps b, blog b) = Inr (st, d, log)"
      "b' = b\<lparr>bst := st, bdeps := d, blog := log, bnumjobs := bnumjobs b - 1,
              bjobs := (bjobs b)[i := (bjobs b ! i)\<lparr>jnext := bnext b, jactive := False\<rparr>],
              bnext := i, bnumfail := (if ?failed then bnumfail b + 1 else bnumfail b)\<rparr>"
    using run ev by (auto simp: poll_job_def Let_def bindE_Inr_iff)
  let ?b1 = "b\<lparr>bjobs := (bjobs b)[i := (bjobs b ! i)\<lparr>jnext := bnext b, jactive := False\<rparr>],
     bnext := i, bnumjobs := bnumjobs b - 1\<rparr>"
  have slots: "slots_ok b" "list_all (\<lambda>e. erule (edges_of (bst b) e) \<noteq> phonyrule) (running b)"
    using ok by (simp_all add: builder_ok_def)
  note f = slots_free [OF slots(1) act]
  have r: "running b' = running ?b1" "slots_ok b'" using f(1) by (simp_all add: j(2) running_def slots_ok_def)
  have m: "mset (running b) = mset (?e # running b')" using f(2) r(1) by simp
  have sub: "set (running b) = insert ?e (set (running b'))"
    using mset_eq_setD [OF m] by simp
  have e: "erule (edges_of (bst b) ?e) \<noteq> phonyrule" using slots(2) sub by (simp add: list_all_iff)
  define st1 where "st1 = pool_release ?e ((bst b)\<lparr>nfinished := nfinished (bst b) + 1\<rparr>)"
  have n: "keeps_pools (bst b) ((bst b)\<lparr>nfinished := nfinished (bst b) + 1\<rparr>)" by (rule keeps_poolsI) simp_all
  have "pools_ok ?exact (bst b) (?e # running b')" using ok m pools_ok_mset unfolding builder_ok_def by blast
  then have p1: "pools_ok ?exact st1 (running b')"
    unfolding st1_def using e keeps_poolsD(1) [OF n] by (intro pool_release_ok) simp_all
  have k: "keeps_pools st1 st"
  proof (cases ?failed)
    case True
    then show ?thesis using j(1) by (simp add: jobdone_def st1_def Let_def)
  next
    case False
    then have "edgedone k opts w ?e (st1, bdeps b, blog b) = Inr (st, d, log)"
      using j(1) by (simp add: jobdone_def st1_def Let_def)
    then show ?thesis by (rule edgedone_keeps_pools)
  qed
  note kd = keeps_poolsD [OF k]
  have "pools_ok (\<not> dryrun opts \<and> bnumfail b' = 0) st (running b')"
    using kd(1) [OF p1] pools_ok_weaken [of st "running b'" False] unfolding j(2)
    by (cases "\<not> dryrun opts \<and> bnumfail b = 0") (auto simp: pools_ok_def)
  moreover have "erule (edges_of st x) = erule (edges_of (bst b) x)" for x
    using kd(3) by (simp add: st1_def pool_release_facts)
  then have "list_all (\<lambda>e. erule (edges_of st e) \<noteq> phonyrule) (running b')"
    using slots(2) sub by (simp add: list_all_iff)
  moreover have "pmaxjobs (pools_of st p) = pmaxjobs (pools_of (bst b) p)" for p
    using kd(4) by (simp add: st1_def pool_release_facts)
  ultimately show ?thesis
    using r(2) ok by (auto simp: builder_ok_def same_depths_def j(2))
qed

lemma poll_round_ok:
  assumes "builder_ok opts b" and "events_ok evs b" and "poll_round k opts w evs b = Inr b'"
  shows "builder_ok opts b' \<and> same_depths b b'"
proof -
  have "builder_ok opts b' \<and> same_depths b b'"
    if "foldE (poll_job k opts w) pairs b = Inr b'" "distinct (map fst pairs)" "builder_ok opts b"
      "\<forall>(i, ev) \<in> set pairs. ev = Ev_none \<or> (i < length (bjobs b) \<and> jactive (bjobs b ! i))" for pairs b
    using that
  proof (induction pairs arbitrary: b)
    case (Cons pair pairs)
    obtain i ev where pair: "pair = (i, ev)" by (cases pair)
    obtain b1 where b1: "poll_job k opts w (i, ev) b = Inr b1" "foldE (poll_job k opts w) pairs b1 = Inr b'"
      using Cons.prems(1) by (auto simp: pair bindE_Inr_iff)
    show ?case
    proof (cases "ev = Ev_none \<or> ev = Ev_data")
      case True
      then have "b1 = b" using b1(1) by (auto simp: poll_job_def)
      then show ?thesis using Cons b1(2) by simp
    next
      case False
      then have "i < length (bjobs b)" "jactive (bjobs b ! i)" using Cons.prems(4) by (auto simp: pair)
      note p = poll_job_ok [OF Cons.prems(3) this _ _ b1(1)]
      have "i \<notin> fst ` set pairs" using Cons.prems(2) by (simp add: pair)
      then have "\<forall>(j, ev) \<in> set pairs. ev = Ev_none \<or> (j < length (bjobs b1) \<and> jactive (bjobs b1 ! j))"
        using Cons.prems(4) p False by force
      then have "builder_ok opts b' \<and> same_depths b1 b'"
        using Cons.IH [OF b1(2)] Cons.prems(2) p False by simp
      then show ?thesis using p False same_depths_trans by blast
    qed
  qed simp
  moreover have "distinct (map fst (enumerate 0 evs))" by simp
  moreover have "\<forall>(i, ev) \<in> set (enumerate 0 evs). ev = Ev_none \<or> (i < length (bjobs b) \<and> jactive (bjobs b ! i))"
    using assms(2) by (auto simp: events_ok_def in_set_enumerate_eq list_all2_conv_all_nth)
  ultimately show ?thesis using assms(1,3) unfolding poll_round_def by blast
qed

inductive_cases build_stepE: "build_step opts b b'"

lemma build_step_ok:
  assumes "build_step opts b b'" and "builder_ok opts b" and "0 < maxjobs opts"
  shows "builder_ok opts b' \<and> same_depths b b'"
  using assms(1)
proof cases
  case (start k sp)
  then show ?thesis using start_edge_ok assms(2,3) by blast
next
  case (wait evs k w b1 m)
  then have "builder_ok opts b1 \<and> same_depths b b1" using poll_round_ok assms(2) by blast
  then show ?thesis using wait by (simp add: builder_ok_def same_depths_def)
qed

lemma build_steps_ok:
  assumes "(build_step opts)\<^sup>*\<^sup>* b b'" and "builder_ok opts b" and "0 < maxjobs opts"
  shows "builder_ok opts b' \<and> same_depths b b'"
  using assms(1)
proof induction
  case (step b1 b2)
  then show ?case using build_step_ok assms(3) same_depths_trans by blast
qed (simp add: assms(2))

lemma build_start_ok:
  assumes "build_start opts clk m st d log = Inr (Some b)" and "load_allows opts m" and "pools_ok True st []"
  shows "builder_ok opts b" and "pools_of (bst b) = pools_of st"
proof -
  have b: "b = \<lparr>bst = st\<lparr>nstarted := 0\<rparr>, bdeps = d, blog = log, bjobs = [], bnext = 0, bnumjobs = 0,
               bnumfail = 0, bmax = m\<rparr>"
    using assms(1) by (auto simp: build_start_def bindE_Inr_iff split: if_splits)
  have "keeps_pools st (st\<lparr>nstarted := 0\<rparr>)" by (rule keeps_poolsI) simp_all
  then have "pools_ok (\<not> dryrun opts) (st\<lparr>nstarted := 0\<rparr>) []"
    using keeps_poolsD(1) pools_ok_weaken assms(3) by blast
  then show "builder_ok opts b"
    using assms(2) by (simp add: builder_ok_def slots_ok_def running_def b)
  show "pools_of (bst b) = pools_of st" by (simp add: b)
qed

text \<open>A dry run starts no job, so no pool ever hands on its place.\<close>

lemma dry_step:
  assumes "build_step opts b b'" and "dryrun opts" and "bnumjobs b = 0"
  shows "bnumjobs b' = 0 \<and> set (pwork (pools_of (bst b) p)) \<subseteq> set (pwork (pools_of (bst b') p))"
  using assms(1)
proof cases
  case (start k sp)
  obtain e rest where w: "work (bst b) = e # rest" using start(1) by (cases "work (bst b)") (auto simp: can_start_def)
  obtain st where st: "report_edge opts sp e ((bst b)\<lparr>work := rest\<rparr>) = Inr st"
      "(if erule (edges_of st e) = phonyrule \<or> dryrun opts then
          bindE (foldE (\<lambda>n. nodedone k n False) (eout (edges_of st e)) st) (\<lambda>st1. Inr (b\<lparr>bst := st1\<rparr>))
        else launch_job opts sp e (b\<lparr>bst := st\<rparr>)) = Inr b'"
    using start(2) unfolding start_edge_def w list.case by (rule bindE_elim) (rule that)
  then obtain st3 where st3: "foldE (\<lambda>n. nodedone k n False) (eout (edges_of st e)) st = Inr st3" "b' = b\<lparr>bst := st3\<rparr>"
    using assms(2) by (auto simp: monad_simps)
  have "keeps_pools st st3"
    by (rule foldE_keeps_pools [OF st3(1), where g = "\<lambda>s. s"]) (rule nodedone_keeps_pools)
  then have "keeps_pools ((bst b)\<lparr>work := rest\<rparr>) st3" by (rule keeps_pools_trans [OF report_edge_keeps_pools [OF st(1)]])
  from keeps_poolsD(5) [OF this, of p] show ?thesis using assms(3) by (simp add: st3(2))
qed (use assms(3) in simp)

section \<open>The status line\<close>

text \<open>The text that the format stands for.\<close>

fun status_line :: "(char \<Rightarrow> string option) \<Rightarrow> samu \<Rightarrow> string \<Rightarrow> samu_error + string" where
  "status_line clk st [] = Inr []"
| "status_line clk st (c # fmt) =
     (if c \<noteq> CHR ''%'' then bindE (status_line clk st fmt) (\<lambda>t. Inr (c # t))
      else case fmt of
             [] \<Rightarrow> Inl (Fatal Bad_placeholder [NUL])
           | p # fmt' \<Rightarrow>
             if p = CHR ''%'' then bindE (status_line clk st fmt') (\<lambda>t. Inr (p # t))
             else bindE (status_piece clk st p) (\<lambda>t.
                    bindE (status_line clk st fmt') (\<lambda>t'. Inr (t @ t'))))"

text \<open>
  What a buffer of \<open>cap\<close> bytes holds once \<open>t\<close> has been printed: all of it if there is room, else
  as much as fits before the NUL (or with one byte of room left, if no piece ran over).
\<close>

definition holds :: "nat \<Rightarrow> string \<Rightarrow> string \<times> nat \<Rightarrow> bool" where
  "holds cap t = (\<lambda>(buf, len).
     if length t < cap then buf = t \<and> len = cap - length t
     else if cap = 0 then buf = [] \<and> len = 0
     else (buf = take (cap - 1) t \<and> len = 1) \<or> (buf = take (cap - 1) t @ [NUL] \<and> len = 0))"

lemma holds_char: "holds cap t b \<Longrightarrow> holds cap (t @ [c]) (status_char c b)"
  by (cases b) (auto simp: holds_def status_char_def split: if_splits)

lemma holds_text: "holds cap t b \<Longrightarrow> holds cap (t @ u) (status_text u b)"
  by (cases b) (auto simp: holds_def status_text_def not_less split: if_splits)

lemma formatstatus_loop_line:
  "holds cap t b \<Longrightarrow>
     (case status_line clk st fmt of
        Inl e \<Rightarrow> formatstatus_loop clk st fmt (length t) b = Inl e
      | Inr u \<Rightarrow> \<exists>b'. formatstatus_loop clk st fmt (length t) b = Inr (length (t @ u), b') \<and> holds cap (t @ u) b')"
proof (induction clk st fmt arbitrary: t b rule: status_line.induct)
  case (1 clk st)
  then show ?case by simp
next
  case (2 clk st c fmt)
  show ?case
  proof (cases "c = CHR ''%''")
    case False
    then show ?thesis using "2.IH"(1) [OF _ holds_char [OF "2.prems", of c]]
      by (cases "status_line clk st fmt") auto
  next
    case True
    show ?thesis
    proof (cases fmt)
      case Nil
      then show ?thesis using True by simp
    next
      case (Cons p fmt')
      show ?thesis
      proof (cases "p = CHR ''%''")
        case p: True
        then show ?thesis using "2.IH"(2) [OF _ Cons p holds_char [OF "2.prems", of p]] True Cons
          by (cases "status_line clk st fmt'") auto
      next
        case False
        show ?thesis
        proof (cases "status_piece clk st p")
          case (Inl e)
          then show ?thesis using True Cons False by simp
        next
          case (Inr u)
          then show ?thesis using "2.IH"(3) [OF _ Cons False _ holds_text [OF "2.prems", of u]] True Cons False
            by (cases "status_line clk st fmt'") auto
        qed
      qed
    qed
  qed
qed

section \<open>Examples\<close>

text \<open>Two edges of a rule with a command share a pool of depth 1; both are ready.\<close>

definition sample_opts :: buildopts where
  "sample_opts = \<lparr>maxjobs = 2, maxfail = 1, verbose = True, keepdepfile = False, dryrun = False,
     statusfmt = ''[%s/%t] '', loadlimit = False\<rparr>"

definition sample_edges :: samu where
  "sample_edges = static_samu\<lparr>
     edges_of := \<lambda>e. (edges_of static_samu e)\<lparr>erule := 1, epool := Some 1\<rparr>,
     rules_of := \<lambda>r. \<lparr>rname = ''cc'', rbindings = addvar Tip ''command'' [Lit ''cc'']\<rparr>, ntotal := 2\<rparr>"

definition sample_work :: samu where
  "sample_work = queue 1 (queue 0 sample_edges)"

definition sample_spawn :: spawn_env where
  "sample_spawn = \<lparr>mkdirs_ok = True, write_ok = True, pipe_ok = True, spawn_ok = True, clock = \<lambda>_. None\<rparr>"

definition sample_builder :: builder where
  "sample_builder = \<lparr>bst = sample_work\<lparr>nstarted := 0\<rparr>, bdeps = \<lparr>dentries = [], dlen = 0, dfile = [], dremoved = []\<rparr>,
     blog = [], bjobs = [], bnext = 0, bnumjobs = 0, bnumfail = 0, bmax = 2\<rparr>"

lemma sample_work_fields:
  "work sample_work = [0]" "pwork (pools_of sample_work 1) = [1]" "pmaxjobs (pools_of sample_work p) = 1"
  "ntotal sample_work = 2" "edges_of sample_work = edges_of sample_edges" "rules_of sample_work = rules_of sample_edges"
  by (simp_all add: sample_work_def queue_def sample_edges_def static_samu_def phonyrule_def)

lemma sample_pools: "pools_ok True sample_work []"
proof -
  have "pools_ok True sample_edges []"
    by (simp add: pools_ok_def pool_load_def sample_edges_def static_samu_def)
  then show ?thesis unfolding sample_work_def by (intro keeps_poolsD(1) [OF queue_keeps_pools])
qed

lemma print_small: "print_base 10 0 = ''0''" "print_base 10 (Suc 0) = ''1''" "print_base 10 2 = ''2''"
  using print_base.simps [of 10 0] print_base.simps [of 10 "Suc 0"] print_base.simps [of 10 2]
  by (simp_all add: digit_chr_def)

lemma sample_start:
  "build_start sample_opts (\<lambda>_. None) 2 sample_work \<lparr>dentries = [], dlen = 0, dfile = [], dremoved = []\<rparr> [] =
     Inr (Some sample_builder)"
  by (simp add: build_start_def sample_work_fields formatstatus_def sample_opts_def status_piece_def sample_builder_def
      case_prod_unfold)

lemma sample_vars:
  assumes "edges_of s = edges_of sample_edges" "rules_of s = rules_of sample_edges" "envs_of s = envs_of static_samu"
  shows "edgevar s 0 ''command'' True = Inr (Some ''cc'')" and "edgevar s 0 ''rspfile'' False = Inr None"
proof -
  have t: "treefind (addvar Tip ''command'' [Lit ''cc'']) ''command'' = Some [Lit ''cc'']"
    "treefind (addvar Tip ''command'' [Lit ''cc'']) ''rspfile'' = None" by code_simp+
  have b: "edge_rule_bindings s 0 = addvar Tip ''command'' [Lit ''cc'']"
    "edge_own_var s 0 ''command'' True = None" "edge_own_var s 0 ''rspfile'' False = None"
    "edge_parent_var s 0 ''rspfile'' = None"
    using assms by (simp_all add: sample_edges_def edge_own_var_def static_samu_def edge_parent_var_def)
  show "edgevar s 0 ''command'' True = Inr (Some ''cc'')"
    unfolding edgevar_def by (subst edgevar_marked.simps, simp only: b t option.case) (simp add: merge_def)
  show "edgevar s 0 ''rspfile'' False = Inr None"
    unfolding edgevar_def by (subst edgevar_marked.simps, simp only: b t option.case)
qed

lemma sample_launch: "\<exists>b. build_step sample_opts sample_builder b \<and> running b = [0] \<and> bnumjobs b = 1"
proof -
  let ?st = "sample_work\<lparr>nstarted := 0, work := []\<rparr>" and ?b = "sample_builder"
  have e: "envs_of sample_work = envs_of static_samu" "consoleused sample_work = False"
    "eout (edges_of sample_edges 0) = []" "epool (edges_of sample_edges 0) = Some 1" "erule (edges_of sample_edges 0) = 1"
    by (simp_all add: sample_work_def queue_def sample_edges_def static_samu_def phonyrule_def upd_pool_def)
  note v = sample_vars [of "?st\<lparr>nstarted := 1\<rparr>", simplified, OF sample_work_fields(5,6) e(1)]
  have p: "printstatus sample_opts (\<lambda>_. None) 0 (Some ''cc'') (?st\<lparr>nstarted := 1\<rparr>) = Inr t" 
    if "t = ''[1/2] cc'' @ [newline_chr]" for t
    using that by (simp add: printstatus_def sample_opts_def formatstatus_def status_piece_def status_char_def
        status_text_def sample_work_fields print_small NUL_def)
  have j: "jobstart sample_opts sample_spawn 0 ?st = Inr (True, ?st\<lparr>nstarted := 1\<rparr>)"
    using v p by (simp add: jobstart_def sample_work_fields e sample_spawn_def consolepool_def)
  have "start_edge 0 sample_opts sample_spawn ?b = launch_job sample_opts sample_spawn 0 (?b\<lparr>bst := ?st\<rparr>)"
    by (simp add: start_edge_def sample_builder_def sample_work_fields report_edge_def sample_opts_def e phonyrule_def)
  also have "\<dots> = Inr \<lparr>bst = ?st\<lparr>nstarted := 1\<rparr>, bdeps = bdeps ?b, blog = [],
      bjobs = [\<lparr>jedge = 0, jnext = 1, jactive = True\<rparr>, \<lparr>jedge = 0, jnext = 2, jactive = False\<rparr>],
      bnext = 1, bnumjobs = 1, bnumfail = 0, bmax = 2\<rparr>"
    using j by (simp add: launch_job_def grow_jobs_def sample_builder_def sample_opts_def upt_rec)
  finally have "build_step sample_opts ?b \<lparr>bst = ?st\<lparr>nstarted := 1\<rparr>, bdeps = bdeps ?b, blog = [],
      bjobs = [\<lparr>jedge = 0, jnext = 1, jactive = True\<rparr>, \<lparr>jedge = 0, jnext = 2, jactive = False\<rparr>],
      bnext = 1, bnumjobs = 1, bnumfail = 0, bmax = 2\<rparr>"
    by (intro build_step.start) (simp_all add: can_start_def sample_builder_def sample_work_fields sample_opts_def)
  then show ?thesis by (intro exI conjI) (assumption, simp_all add: running_def)
qed

section \<open>Properties\<close>





text \<open>
  a dry run does not report what waits for a pool. It starts no job, so no place in a pool
  is ever handed on: every edge that waits when the loop begins still waits in every state
  that it reaches.
\<close>

theorem dry_run_starves_pools:
  assumes "build_start opts clk m st d log = Inr (Some b0)" and "dryrun opts" and "(build_step opts)\<^sup>*\<^sup>* b0 b"
  shows "bnumjobs b = 0 \<and> set (pwork (pools_of st p)) \<subseteq> set (pwork (pools_of (bst b) p))"
proof -
  have "bnumjobs b0 = 0" "pools_of (bst b0) = pools_of st"
    using assms(1) by (auto simp: build_start_def bindE_Inr_iff split: if_splits)
  with assms(3) show ?thesis
  proof (induction rule: rtranclp_induct)
    case (step b1 b2)
    then show ?case using dry_step [OF step(2) assms(2)] by blast
  qed simp
qed

theorem dry_run_starves_pools_witness:
  "\<exists>b. build_step (sample_opts\<lparr>dryrun := True\<rparr>) sample_builder b \<and> work (bst b) = [] \<and>
     1 \<in> set (pwork (pools_of (bst b) 1))"
proof -
  let ?o = "sample_opts\<lparr>dryrun := True\<rparr>" and ?st = "sample_work\<lparr>nstarted := 0, work := []\<rparr>"
  have e: "envs_of sample_work = envs_of static_samu" "eout (edges_of sample_edges 0) = []" "erule (edges_of sample_edges 0) = 1"
    by (simp_all add: sample_work_def queue_def sample_edges_def static_samu_def phonyrule_def)
  note v = sample_vars [of "?st\<lparr>nstarted := 1\<rparr>", simplified, OF sample_work_fields(5,6) e(1)]
  have "\<exists>t. printstatus ?o (\<lambda>_. None) 0 (Some ''cc'') (?st\<lparr>nstarted := 1\<rparr>) = Inr t"
    by (simp add: printstatus_def sample_opts_def formatstatus_def status_piece_def case_prod_unfold)
  then have "report_edge ?o sample_spawn 0 ?st = Inr (?st\<lparr>nstarted := 1, nfinished := nfinished ?st + 1\<rparr>)"
    using v by (auto simp: report_edge_def sample_work_fields e phonyrule_def sample_opts_def sample_spawn_def)
  then have "start_edge 0 ?o sample_spawn sample_builder =
      Inr (sample_builder\<lparr>bst := ?st\<lparr>nstarted := 1, nfinished := nfinished ?st + 1\<rparr>\<rparr>)"
    by (simp add: start_edge_def sample_builder_def sample_work_fields e)
  then have step: "build_step ?o sample_builder (sample_builder\<lparr>bst := ?st\<lparr>nstarted := 1, nfinished := nfinished ?st + 1\<rparr>\<rparr>)"
    by (intro build_step.start) (simp_all add: can_start_def sample_builder_def sample_work_fields sample_opts_def)
  have "build_start ?o (\<lambda>_. None) 2 sample_work \<lparr>dentries = [], dlen = 0, dfile = [], dremoved = []\<rparr> [] = Inr (Some sample_builder)"
    by (simp add: build_start_def sample_work_fields formatstatus_def sample_opts_def status_piece_def sample_builder_def
        case_prod_unfold)
  from dry_run_starves_pools [OF this _ r_into_rtranclp [of "build_step ?o", OF step], of 1]
  have "1 \<in> set (pwork (pools_of (bst (sample_builder\<lparr>bst := ?st\<lparr>nstarted := 1, nfinished := nfinished ?st + 1\<rparr>\<rparr>)) 1))"
    using sample_work_fields(2) by simp
  then show ?thesis using step by (intro exI conjI) (assumption, simp_all)
qed

text \<open>
  the status line fits its buffer. If the format is good, \<open>formatstatus\<close> returns the length
  of the whole line, whatever the size of the buffer; it writes at most \<open>cap\<close> bytes, and a
  buffer that is not empty holds the line, or its first \<open>cap - 1\<close> characters, and a NUL. A bad
  format gives the same error whatever the size.
\<close>

theorem formatstatus_fits:
  "(case status_line clk st (statusfmt opts) of
      Inl e \<Rightarrow> formatstatus opts clk st cap = Inl e
    | Inr t \<Rightarrow> formatstatus opts clk st cap =
        Inr (length t, if cap = 0 then [] else take (cap - 1) t @ [NUL]))"
proof -
  have "holds cap [] ([], cap)" by (simp add: holds_def)
  from formatstatus_loop_line [OF this, of clk st "statusfmt opts"] show ?thesis
    by (cases "status_line clk st (statusfmt opts)")
      (auto simp: formatstatus_def holds_def split: if_splits)
qed

end
