(* ===== verification/Sh_Mystring.thy ===== *)
theory Sh_Mystring
  imports Bootsh_Numbers
begin

text \<open>
  The string functions of the shell (\<open>mystring.c\<close>), the names of variables (\<open>endofname\<close> and
  \<open>isassignment\<close> of \<open>parser.c\<close>, the character macros of \<open>mksyntax.c\<close>), and the errors of the
  shell. The lemmas: numbers are read back as they are printed, and a shell reads what
  \<open>single_quote\<close> writes as the string it was given.
\<close>

section \<open>Errors\<close>

text \<open>
  \<open>sh_error\<close> prints its message and jumps to the main loop. \<open>Sh_undefined\<close> is what C leaves
  undefined (a read outside an array, a trapping division, a shift by more than the width);
  \<open>Sh_fuel\<close> is a run that has not come to its end.
\<close>

datatype shell_error = Sh_error string | Sh_undefined | Sh_fuel

section \<open>Names\<close>

definition is_name :: "char \<Rightarrow> bool" where
  "is_name c = (c = CHR ''_'' \<or> isalpha c)"

definition is_in_name :: "char \<Rightarrow> bool" where
  "is_in_name c = (c = CHR ''_'' \<or> isalnum c)"

text \<open>The rest of the string from the end of the name on.\<close>

definition endofname :: "string \<Rightarrow> string" where
  "endofname s = (case s of [] \<Rightarrow> [] | c # r \<Rightarrow> if is_name c then dropWhile is_in_name r else s)"

definition goodname :: "string \<Rightarrow> bool" where
  "goodname p = (endofname p = [])"

definition isassignment :: "string \<Rightarrow> bool" where
  "isassignment p = (let q = endofname p in if q = p then False else take 1 q = ''='')"

section \<open>Numbers\<close>

text \<open>
  \<open>strtoimax\<close> and \<open>strtoumax\<close> of the C library: white space, a sign, a prefix that the base
  allows, digits. The result is the sign, the magnitude and the rest of the string.
\<close>

definition digit_of :: "char \<Rightarrow> nat option" where
  "digit_of c =
     (if isdigit c then Some (byte_of c - 48)
      else if CHR ''a'' \<le> c \<and> c \<le> CHR ''z'' then Some (byte_of c - 87)
      else if CHR ''A'' \<le> c \<and> c \<le> CHR ''Z'' then Some (byte_of c - 55)
      else None)"

definition is_base_digit :: "nat \<Rightarrow> char \<Rightarrow> bool" where
  "is_base_digit b c = (case digit_of c of None \<Rightarrow> False | Some d \<Rightarrow> d < b)"

definition from_digits :: "nat \<Rightarrow> string \<Rightarrow> nat" where
  "from_digits b ds = foldl (\<lambda>n c. n * b + the (digit_of c)) 0 ds"

definition base_prefix :: "nat \<Rightarrow> string \<Rightarrow> nat \<times> string" where
  "base_prefix base u =
     (if (base = 0 \<or> base = 16) \<and> (take 2 u = ''0x'' \<or> take 2 u = ''0X'') \<and>
         list_ex (is_base_digit 16) (take 1 (drop 2 u))
      then (16, drop 2 u)
      else (if base = 0 then if take 1 u = ''0'' then 8 else 10 else base, u))"

definition scan_integer :: "nat \<Rightarrow> string \<Rightarrow> (bool \<times> nat \<times> string) option" where
  "scan_integer base s =
     (let t = dropWhile isspace s;
          neg = (take 1 t = ''-'');
          u = (if take 1 t = ''-'' \<or> take 1 t = ''+'' then drop 1 t else t)
      in case base_prefix base u of (b, v) \<Rightarrow>
         let ds = takeWhile (is_base_digit b) v
         in if ds = [] then None else Some (neg, from_digits b ds, dropWhile (is_base_digit b) v))"

definition INTMAX_MAX :: int where "INTMAX_MAX = 2 ^ 63 - 1"
definition INTMAX_MIN :: int where "INTMAX_MIN = - (2 ^ 63)"
definition UINTMAX_MAX :: nat where "UINTMAX_MAX = 2 ^ 64 - 1"
definition INT_MAX :: int where "INT_MAX = 2 ^ 31 - 1"

lemmas int_limits = INTMAX_MAX_def INTMAX_MIN_def UINTMAX_MAX_def INT_MAX_def

text \<open>The value, whether \<open>errno\<close> is \<open>ERANGE\<close>, and the rest.\<close>

definition strtoimax :: "string \<Rightarrow> nat \<Rightarrow> int \<times> bool \<times> string" where
  "strtoimax s base =
     (case scan_integer base s of
        None \<Rightarrow> (0, False, s)
      | Some (neg, m, r) \<Rightarrow>
        let n = (if neg then - int m else int m)
        in if n < INTMAX_MIN then (INTMAX_MIN, True, r)
           else if n > INTMAX_MAX then (INTMAX_MAX, True, r) else (n, False, r))"

definition strtoumax :: "string \<Rightarrow> nat \<Rightarrow> nat \<times> bool \<times> string" where
  "strtoumax s base =
     (case scan_integer base s of
        None \<Rightarrow> (0, False, s)
      | Some (neg, m, r) \<Rightarrow>
        if m > UINTMAX_MAX then (UINTMAX_MAX, True, r)
        else (if neg then nat (- int m mod 2 ^ 64) else m, False, r))"

definition badnum :: "string \<Rightarrow> shell_error + 'a" where
  "badnum s = Inl (Sh_error (''Illegal number: '' @ s))"

definition atomax :: "string \<Rightarrow> nat \<Rightarrow> shell_error + int" where
  "atomax s base =
     (case strtoimax s base of (r, erange, p) \<Rightarrow>
        if erange then badnum s
        else if p = s \<and> base \<noteq> 0 then badnum s
        else if dropWhile isspace p \<noteq> [] then badnum s
        else Inr r)"

definition atomax10 :: "string \<Rightarrow> shell_error + int" where
  "atomax10 s = atomax s 10"

definition number :: "string \<Rightarrow> shell_error + int" where
  "number s = bindE (atomax10 s) (\<lambda>n. if n < 0 \<or> n > INT_MAX then badnum s else Inr n)"

definition is_number :: "string \<Rightarrow> bool" where
  "is_number p = (p \<noteq> [] \<and> list_all isdigit p)"

section \<open>Strings\<close>

text \<open>The rest of the string behind the prefix.\<close>

fun prefix_rest :: "string \<Rightarrow> string \<Rightarrow> string option" where
  "prefix_rest s [] = Some s"
| "prefix_rest [] (p # ps) = None"
| "prefix_rest (c # s) (p # ps) = (if p = c then prefix_rest s ps else None)"

text \<open>
  One turn of the loop writes a quoted run without quotes, and a run of quotes between double
  quotes, if there is one.
\<close>

definition dquote_chr :: char where "dquote_chr = CHR 0x22"

function single_quote :: "string \<Rightarrow> string" where
  "single_quote s =
     (let a = takeWhile (\<lambda>c. c \<noteq> quote_chr) s;
          s1 = dropWhile (\<lambda>c. c \<noteq> quote_chr) s;
          q = takeWhile (\<lambda>c. c = quote_chr) s1;
          s2 = dropWhile (\<lambda>c. c = quote_chr) s1
      in quote_chr # a @ [quote_chr] @
         (if q = [] then []
          else dquote_chr # q @ [dquote_chr] @ (if s2 = [] then [] else single_quote s2)))"
  by pat_completeness auto
termination
proof (relation "measure length", goal_cases)
  case (2 s a s1 q s2)
  have "length s2 \<le> length s1 - length q" using 2(3,4) by (metis add_diff_cancel_left' le_refl length_append takeWhile_dropWhile_id)
  moreover have "length s1 \<le> length s" using 2(2) by (simp add: length_dropWhile_le)
  moreover have "length q \<noteq> 0" "length q \<le> length s1" using 2(3,5) by (simp_all add: length_takeWhile_le)
  moreover have "length q > 0" using 2(5) by simp
  ultimately show ?case unfolding in_measure by linarith
qed simp

declare single_quote.simps [simp del]

text \<open>\<open>bsearch\<close> between \<open>lo\<close> and \<open>hi\<close>, as the C library does it.\<close>

function bsearch_loop :: "string \<Rightarrow> string list \<Rightarrow> nat \<Rightarrow> nat \<Rightarrow> nat option" where
  "bsearch_loop s arr lo hi =
     (if lo < hi then
        let i = (lo + hi) div 2
        in if strcmp s (arr ! i) < 0 then bsearch_loop s arr lo i
           else if strcmp s (arr ! i) > 0 then bsearch_loop s arr (i + 1) hi
           else Some i
      else None)"
  by pat_completeness auto
termination by (relation "measure (\<lambda>(s, arr, lo, hi). hi - lo)") auto

declare bsearch_loop.simps [simp del]

definition findstring :: "string \<Rightarrow> string list \<Rightarrow> nat option" where
  "findstring s arr = bsearch_loop s arr 0 (length arr)"

section \<open>Numbers are read back\<close>

lemma digit_chr_digit_of: "d < 16 \<Longrightarrow> digit_of (digit_chr d) = Some d"
proof -
  assume "d < 16"
  moreover have "\<forall>d \<in> set [0..<16]. digit_of (digit_chr d) = Some d" by code_simp
  ultimately show ?thesis by simp
qed

lemma from_digits_print:
  assumes "2 \<le> b" and "b \<le> 16"
  shows "from_digits b (print_base b n) = n"
  using assms
proof (induction b n rule: print_base.induct)
  case (1 b n)
  show ?case
  proof (cases "n < b")
    case True
    then show ?thesis
      using 1(3) by (simp add: print_base.simps [of b n] from_digits_def digit_chr_digit_of)
  next
    case False
    have "n mod b < b" using 1(2) by simp
    then have "n mod b < 16" using 1(3) by linarith
    then have "from_digits b (print_base b n) = from_digits b (print_base b (n div b)) * b + n mod b"
      using False 1(2) by (simp add: print_base.simps [of b n] from_digits_def digit_chr_digit_of)
    then show ?thesis using 1 False by simp
  qed
qed

lemma print_base_head: "print_base 10 n = c # r \<Longrightarrow> n \<noteq> 0 \<Longrightarrow> c \<noteq> CHR ''0''"
proof (induction "10::nat" n arbitrary: r rule: print_base.induct)
  case (1 n)
  show ?case
  proof (cases "n < 10")
    case True
    then have "c = digit_chr n" "n < 10" using 1(2) by (simp_all add: print_base.simps [of 10 n])
    moreover have "\<forall>d \<in> set [1..<10]. digit_chr d \<noteq> CHR ''0''" by code_simp
    ultimately show ?thesis using 1(3) by (metis atLeastLessThan_iff less_one not_less set_upt)
  next
    case False
    then have "print_base 10 (n div 10) @ [digit_chr (n mod 10)] = c # r" using 1(2) by (simp add: print_base.simps [of 10 n])
    then obtain r' where "print_base 10 (n div 10) = c # r'" by (cases "print_base 10 (n div 10)") auto
    then show ?thesis using 1(1) [of r'] False by simp
  qed
qed

lemma isdigit_base_digit: "isdigit c \<Longrightarrow> is_base_digit 10 c"
proof -
  assume "isdigit c"
  then have "byte_of c \<le> byte_of (CHR ''9'')" "isdigit c" by (simp_all add: isdigit_def byte_of_le_iff)
  then show ?thesis by (simp add: is_base_digit_def digit_of_def byte_of_def)
qed

lemma base_digit_blank: "isspace c \<Longrightarrow> \<not> is_base_digit 10 c"
  by (auto simp: isspace_def chr_defs is_base_digit_def digit_of_def isdigit_def less_eq_char_def)

text \<open>What \<open>fmtstr\<close> prints with \<open>PRIdMAX\<close> is read back in base 10 and in base 0.\<close>

lemma scan_integer_print:
  assumes "base = 10 \<or> base = 0" and "r = [] \<or> \<not> is_base_digit 10 (hd r) \<and> hd r \<noteq> CHR ''x'' \<and> hd r \<noteq> CHR ''X''"
  shows "scan_integer base (print_int n @ r) = Some (n < 0, nat \<bar>n\<bar>, r)"
proof -
  define m where "m = nat \<bar>n\<bar>"
  let ?ds = "print_base 10 m"
  have dig: "\<forall>c \<in> set ?ds. is_base_digit 10 c" "\<forall>c \<in> set ?ds. isdigit c"
    using print_base_digits [of 10 _ m] digit_chr_decimal(1) isdigit_base_digit by fastforce+
  have plain: "c \<noteq> CHR ''-'' \<and> c \<noteq> CHR ''+'' \<and> \<not> isspace c \<and> c \<noteq> CHR ''x'' \<and> c \<noteq> CHR ''X''" if "c \<in> set ?ds" for c
    using print_base_digits [of 10 c m] that digit_chr_facts by fastforce
  obtain c ds where c: "?ds = c # ds" by (cases ?ds) auto
  have hex: "\<not> (take 2 (?ds @ r) = ''0x'' \<or> take 2 (?ds @ r) = ''0X'')"
    using c assms(2) plain by (cases ds; cases r) auto
  have stop: "r = [] \<or> \<not> is_base_digit 10 (hd r)" using assms(2) by blast
  have val: "takeWhile (is_base_digit (fst (base_prefix base (?ds @ r)))) (?ds @ r) = ?ds \<and>
    dropWhile (is_base_digit (fst (base_prefix base (?ds @ r)))) (?ds @ r) = r \<and>
    from_digits (fst (base_prefix base (?ds @ r))) ?ds = m \<and> snd (base_prefix base (?ds @ r)) = ?ds @ r"
  proof (cases "base = 0 \<and> m = 0")
    case True
    then have "?ds = ''0''" by (simp add: print_base.simps [of 10 0] digit_chr_def)
    moreover have "r = [] \<or> \<not> is_base_digit 8 (hd r)" using stop by (auto simp: is_base_digit_def split: option.splits)
    moreover have "\<forall>c \<in> set ''0''. is_base_digit 8 c" "from_digits 8 ''0'' = 0" by code_simp+
    ultimately show ?thesis using True hex takeWhile_stop [of "''0''" "is_base_digit 8" r] dropWhile_stop [of "''0''" "is_base_digit 8" r]
      by (simp add: base_prefix_def)
  next
    case False
    have "base_prefix base (?ds @ r) = (10, ?ds @ r)"
      using False hex c print_base_head [OF c] assms(1) by (auto simp: base_prefix_def)
    then show ?thesis
      using takeWhile_stop [OF dig(1) stop] dropWhile_stop [OF dig(1) stop] from_digits_print [of 10 m] by simp
  qed
  obtain b v where bv: "base_prefix base (?ds @ r) = (b, v)" by (cases "base_prefix base (?ds @ r)")
  show ?thesis
  proof (cases "n < 0")
    case True
    then have "print_int n = CHR ''-'' # ?ds" by (simp add: print_int_def m_def)
    then show ?thesis using True val bv by (simp add: scan_integer_def Let_def isspace_def chr_defs m_def)
  next
    case False
    then have "print_int n = ?ds" by (simp add: print_int_def m_def)
    moreover have "dropWhile isspace (?ds @ r) = ?ds @ r" "take 1 (?ds @ r) \<noteq> ''-''" "take 1 (?ds @ r) \<noteq> ''+''"
      using plain [of c] c by simp_all
    ultimately show ?thesis using False val bv by (simp add: scan_integer_def Let_def m_def)
  qed
qed

lemma atomax_print:
  assumes "INTMAX_MIN \<le> n" and "n \<le> INTMAX_MAX" and "base = 10 \<or> base = 0" and "list_all isspace r"
  shows "atomax (print_int n @ r) base = Inr n"
proof -
  have "hd r \<noteq> CHR ''x'' \<and> hd r \<noteq> CHR ''X'' \<and> \<not> is_base_digit 10 (hd r)" if "r \<noteq> []"
  proof -
    have "isspace (hd r)" using assms(4) that by (auto simp: list_all_iff)
    then show ?thesis using base_digit_blank [of "hd r"] by (auto simp: isspace_def chr_defs)
  qed
  then have "scan_integer base (print_int n @ r) = Some (n < 0, nat \<bar>n\<bar>, r)"
    using scan_integer_print [OF assms(3), of r n] by blast
  moreover have "r \<noteq> print_int n @ r" by (simp add: print_int_def)
  moreover have "dropWhile isspace r = []" using assms(4) by (simp add: list_all_iff)
  ultimately show ?thesis using assms(1,2) by (auto simp: atomax_def strtoimax_def Let_def)
qed

lemma atomax_range: "atomax s base = Inr n \<Longrightarrow> INTMAX_MIN \<le> n \<and> n \<le> INTMAX_MAX"
  by (auto simp: atomax_def strtoimax_def badnum_def Let_def int_limits split: option.splits prod.splits if_splits)

section \<open>A shell reads the quoted string back\<close>

text \<open>
  How a shell removes quotes from one word (POSIX, 2.2): between single quotes every character
  stands for itself, between double quotes every one but dollar, backquote and backslash. A
  word with an expansion, or that an unquoted metacharacter ends, is no string constant.
\<close>

datatype quoting = Plain | Single | Double

fun sh_dequote :: "quoting \<Rightarrow> string \<Rightarrow> string option" where
  "sh_dequote Plain [] = Some []"
| "sh_dequote Plain (c # s) =
     (if c = quote_chr then sh_dequote Single s
      else if c = dquote_chr then sh_dequote Double s
      else if c \<in> set ''|&;<>()$` *?[#~=%'' \<or> c = CHR 0x5C \<or> c = tab_chr \<or> c = newline_chr then None
      else map_option (Cons c) (sh_dequote Plain s))"
| "sh_dequote Single [] = None"
| "sh_dequote Single (c # s) =
     (if c = quote_chr then sh_dequote Plain s else map_option (Cons c) (sh_dequote Single s))"
| "sh_dequote Double [] = None"
| "sh_dequote Double (c # s) =
     (if c = dquote_chr then sh_dequote Plain s
      else if c = CHR ''$'' \<or> c = CHR ''`'' \<or> c = CHR 0x5C then None
      else map_option (Cons c) (sh_dequote Double s))"

lemma map_option_append_Nil: "map_option ((@) []) x = x"
  by (cases x) auto

lemma dequote_single: "quote_chr \<notin> set a \<Longrightarrow>
  sh_dequote Single (a @ quote_chr # r) = map_option ((@) a) (sh_dequote Plain r)"
  by (induction a) (auto simp: option.map_comp comp_def option.map_ident map_option_append_Nil intro!: option.map_cong)

lemma dequote_double: "set q \<subseteq> {quote_chr} \<Longrightarrow>
  sh_dequote Double (q @ dquote_chr # r) = map_option ((@) q) (sh_dequote Plain r)"
  by (induction q) (auto simp: option.map_comp comp_def option.map_ident map_option_append_Nil chr_defs dquote_chr_def intro!: option.map_cong)

lemma dequote_turn:
  assumes "quote_chr \<notin> set a" and "set q \<subseteq> {quote_chr}"
  shows "sh_dequote Plain (quote_chr # a @ quote_chr # dquote_chr # q @ dquote_chr # r) =
    map_option (\<lambda>x. a @ q @ x) (sh_dequote Plain r)"
proof -
  have "dquote_chr \<noteq> quote_chr" by (simp add: chr_defs dquote_chr_def)
  then show ?thesis
    by (simp add: dequote_single [OF assms(1)] dequote_double [OF assms(2)] option.map_comp comp_def)
qed

lemma dequote_single_quote: "sh_dequote Plain (single_quote s @ r) = map_option ((@) s) (sh_dequote Plain r)"
proof (induction s rule: single_quote.induct)
  case (1 s)
  let ?a = "takeWhile (\<lambda>c. c \<noteq> quote_chr) s" and ?s1 = "dropWhile (\<lambda>c. c \<noteq> quote_chr) s"
  let ?q = "takeWhile (\<lambda>c. c = quote_chr) ?s1" and ?s2 = "dropWhile (\<lambda>c. c = quote_chr) ?s1"
  have split: "s = ?a @ ?q @ ?s2" by (metis takeWhile_dropWhile_id)
  have a: "quote_chr \<notin> set ?a" using set_takeWhileD by force
  have q: "set ?q \<subseteq> {quote_chr}" using set_takeWhileD by force
  have s1: "?s1 = []" if "?q = []" using that by (cases ?s1) (auto dest: hd_dropWhile simp: dropWhile_eq_Cons_conv)
  have dq: "dquote_chr \<noteq> quote_chr" by (simp add: chr_defs dquote_chr_def)
  have plain: "sh_dequote Plain (quote_chr # x) = sh_dequote Single x"
    "sh_dequote Plain (dquote_chr # x) = sh_dequote Double x" for x using dq by simp_all
  show ?case
  proof (cases "?q = []")
    case True
    have "single_quote s = quote_chr # ?a @ [quote_chr]"
      using True by (simp add: single_quote.simps [of s])
    moreover have "s = ?a" using s1 [OF True] split by (metis append_Nil2 dropWhile.simps(1) takeWhile_dropWhile_id)
    ultimately have "single_quote s = quote_chr # ?a @ [quote_chr]" "s = ?a" by blast+
    then show ?thesis using dequote_single [OF a, of r] by (metis append_Cons append_assoc append_Nil plain(1))
  next
    case False
    have e: "single_quote s = quote_chr # ?a @ quote_chr # dquote_chr # ?q @ dquote_chr #
        (if ?s2 = [] then [] else single_quote ?s2)"
      using False by (simp add: single_quote.simps [of s] Let_def)
    have rest: "sh_dequote Plain ((if ?s2 = [] then [] else single_quote ?s2) @ r) =
        map_option ((@) ?s2) (sh_dequote Plain r)"
    proof (cases "?s2 = []")
      case True
      then show ?thesis by (simp only: simp_thms if_True append_Nil map_option_append_Nil)
    next
      case other: False
      show ?thesis using 1 [OF refl refl refl refl False other] by (simp only: other if_False)
    qed
    have "sh_dequote Plain (single_quote s @ r) = map_option (\<lambda>x. ?a @ ?q @ ?s2 @ x) (sh_dequote Plain r)"
      using dequote_turn [OF a q, of "(if ?s2 = [] then [] else single_quote ?s2) @ r"]
      unfolding e rest option.map_comp by (simp only: append_Cons append_assoc comp_def)
    moreover have "?a @ ?q @ ?s2 @ x = s @ x" for x using split by (metis append_assoc)
    ultimately show ?thesis by (simp only:)
  qed
qed

text \<open>
  Whatever the string holds, the shell reads what \<open>single_quote\<close> writes as one word and as
  the string itself. \<open>set\<close>, \<open>export -p\<close>, \<open>alias\<close> and \<open>trap\<close> print their values with it.
\<close>

theorem single_quote_reads_back: "sh_dequote Plain (single_quote s) = Some s"
  using dequote_single_quote [of s "[]"] by simp

end
