(* ===== verification/Sh_Chain.thy ===== *)
theory Sh_Chain
  imports Sh_Mystring
begin

text \<open>
  Hash tables with chaining, as \<open>var.c\<close> and \<open>alias.c\<close> keep them: an array of linked lists. A
  new entry goes to the end of its list (both files insert through the pointer at which their
  search ended). The locale states what the two tables share: a hash function into the array.
\<close>

definition chain_wf :: "('k \<Rightarrow> nat) \<Rightarrow> nat \<Rightarrow> ('n \<Rightarrow> 'k) \<Rightarrow> 'n list list \<Rightarrow> bool" where
  "chain_wf hash n key tab \<longleftrightarrow> length tab = n \<and>
     (\<forall>i < n. distinct (map key (tab ! i)) \<and> (\<forall>x \<in> set (tab ! i). hash (key x) = i))"

definition chain_nodes :: "'n list list \<Rightarrow> 'n set" where
  "chain_nodes tab = set (concat tab)"

lemma chain_nodes_iff: "x \<in> chain_nodes tab \<longleftrightarrow> (\<exists>i < length tab. x \<in> set (tab ! i))"
  unfolding chain_nodes_def set_concat UN_iff by (metis in_set_conv_nth)

lemma find_distinct:
  assumes "distinct (map key xs)"
  shows "find (\<lambda>x. key x = k) xs = Some x \<longleftrightarrow> x \<in> set xs \<and> key x = k"
  using assms by (induction xs) auto

lemma find_key_None: "find (\<lambda>x. key x = k) xs = None \<longleftrightarrow> k \<notin> key ` set xs"
  by (auto simp: find_None_iff)

locale chained =
  fixes hash :: "'k \<Rightarrow> nat" and n :: nat
  assumes hash_less: "hash k < n"
begin

lemma nodes_iff:
  assumes "chain_wf hash n key tab"
  shows "x \<in> chain_nodes tab \<longleftrightarrow> x \<in> set (tab ! hash (key x))"
proof
  assume "x \<in> chain_nodes tab"
  then obtain i where "i < length tab" "x \<in> set (tab ! i)" by (auto simp: chain_nodes_iff)
  then show "x \<in> set (tab ! hash (key x))" using assms by (auto simp: chain_wf_def)
next
  assume "x \<in> set (tab ! hash (key x))"
  then show "x \<in> chain_nodes tab" using assms hash_less by (auto simp: chain_nodes_iff chain_wf_def)
qed

lemma find_Some:
  assumes "chain_wf hash n key tab"
  shows "find (\<lambda>x. key x = k) (tab ! hash k) = Some x \<longleftrightarrow> x \<in> chain_nodes tab \<and> key x = k"
  using assms find_distinct [of key "tab ! hash k" k x] nodes_iff [OF assms, of x] hash_less [of k]
  by (auto simp: chain_wf_def)

lemma find_None:
  assumes "chain_wf hash n key tab"
  shows "find (\<lambda>x. key x = k) (tab ! hash k) = None \<longleftrightarrow> (\<forall>x \<in> chain_nodes tab. key x \<noteq> k)"
  using find_Some [OF assms, of k] by (metis option.exhaust option.discI)

lemma key_unique:
  assumes "chain_wf hash n key tab" and "x \<in> chain_nodes tab" and "y \<in> chain_nodes tab" and "key x = key y"
  shows "x = y"
  using find_Some [OF assms(1), of "key x"] assms(2-4) by (metis option.inject)

lemma wf_cong:
  assumes "chain_wf hash n key tab" and "\<And>x. x \<in> chain_nodes tab \<Longrightarrow> key' x = key x"
  shows "chain_wf hash n key' tab"
  unfolding chain_wf_def
proof (intro conjI allI impI)
  show "length tab = n" using assms(1) by (simp add: chain_wf_def)
  fix i assume i: "i < n"
  then have eq: "key' x = key x" if "x \<in> set (tab ! i)" for x
    using assms that by (auto simp: chain_wf_def chain_nodes_iff)
  then have "map key' (tab ! i) = map key (tab ! i)" by simp
  moreover have "distinct (map key (tab ! i))" using assms(1) i unfolding chain_wf_def by blast
  ultimately show "distinct (map key' (tab ! i))" by metis
  show "\<forall>x \<in> set (tab ! i). hash (key' x) = i" using assms(1) i eq by (simp add: chain_wf_def)
qed

text \<open>An entry for a new key, at the end of its list.\<close>

lemma append_wf:
  assumes "chain_wf hash n key tab" and "\<forall>y \<in> chain_nodes tab. key y \<noteq> key x"
  shows "chain_wf hash n key (tab[hash (key x) := tab ! hash (key x) @ [x]])"
proof -
  let ?h = "hash (key x)"
  have h: "?h < n" "length tab = n" using assms hash_less by (simp_all add: chain_wf_def)
  then have "key x \<notin> key ` set (tab ! ?h)" using assms(2) by (force simp: chain_nodes_iff)
  then have "distinct (map key (tab ! ?h @ [x]))" using assms(1) h by (simp add: chain_wf_def)
  then show ?thesis using assms(1) h by (simp add: chain_wf_def nth_list_update)
qed

lemma append_nodes:
  assumes "chain_wf hash n key tab"
  shows "chain_nodes (tab[hash k := tab ! hash k @ [x]]) = insert x (chain_nodes tab)"
proof -
  have "hash k < length tab" using assms hash_less by (simp add: chain_wf_def)
  then show ?thesis
    by (auto simp: chain_nodes_iff nth_list_update split: if_splits)
qed

text \<open>The same at the head of its list.\<close>

lemma prepend_wf:
  assumes "chain_wf hash n key tab" and "\<forall>y \<in> chain_nodes tab. key y \<noteq> key x"
  shows "chain_wf hash n key (tab[hash (key x) := x # tab ! hash (key x)])"
    and "chain_nodes (tab[hash (key x) := x # tab ! hash (key x)]) = insert x (chain_nodes tab)"
proof -
  let ?h = "hash (key x)"
  have h: "?h < n" "length tab = n" using assms hash_less by (simp_all add: chain_wf_def)
  then have "key x \<notin> key ` set (tab ! ?h)" using assms(2) by (force simp: chain_nodes_iff)
  then have "distinct (map key (x # tab ! ?h))" using assms(1) h by (simp add: chain_wf_def)
  then show "chain_wf hash n key (tab[?h := x # tab ! ?h])"
    using assms(1) h by (simp add: chain_wf_def nth_list_update)
  show "chain_nodes (tab[?h := x # tab ! ?h]) = insert x (chain_nodes tab)"
    using h by (auto simp: chain_nodes_iff nth_list_update split: if_splits)
qed

lemma remove_wf:
  assumes "chain_wf hash n key tab"
  shows "chain_wf hash n key (tab[h := remove1 x (tab ! h)])"
proof -
  have sub: "set (remove1 x xs) \<subseteq> set xs" for xs by (rule set_remove1_subset)
  have "distinct (map key (remove1 x xs))" if "distinct (map key xs)" for xs
    using that sub [of xs] by (auto simp: distinct_map intro: inj_on_subset)
  then have "distinct (map key (tab[h := remove1 x (tab ! h)] ! i)) \<and>
      (\<forall>y \<in> set (tab[h := remove1 x (tab ! h)] ! i). hash (key y) = i)" if "i < n" for i
    using assms that sub [of "tab ! h"] unfolding chain_wf_def nth_list_update_neq
    by (cases "i = h") (auto simp: nth_list_update)
  then show ?thesis using assms by (simp add: chain_wf_def)
qed

lemma remove_nodes:
  assumes "chain_wf hash n key tab" and "x \<in> chain_nodes tab"
  shows "chain_nodes (tab[hash (key x) := remove1 x (tab ! hash (key x))]) = chain_nodes tab - {x}"
proof -
  let ?h = "hash (key x)" and ?tab = "tab[hash (key x) := remove1 x (tab ! hash (key x))]"
  have wf: "chain_wf hash n key ?tab" by (rule remove_wf [OF assms(1)])
  have h: "?h < length tab" "distinct (tab ! ?h)"
    using assms hash_less by (auto simp: chain_wf_def distinct_map)
  have "y \<in> chain_nodes ?tab \<longleftrightarrow> y \<in> chain_nodes tab - {x}" for y
    using nodes_iff [OF wf, of y] nodes_iff [OF assms(1), of y] h
    by (cases "hash (key y) = ?h") auto
  then show ?thesis by blast
qed

end

end
