(* ===== verification/Sh_Args.thy ===== *)
theory Sh_Args
  imports Sh_Mystring
begin

text \<open>
  Option processing of the builtin commands: \<open>nextopt\<close> of \<open>options.c\<close> and the global variables
  it works on. The argument vector from \<open>argptr\<close> on is a list; its end is the null pointer.
\<close>

record optstate =
  argptr :: "string list"
  optptr :: "string option"
  optionarg :: "string option"

text \<open>The search for an option letter; the result is what follows it in the option string.\<close>

fun find_opt :: "string \<Rightarrow> char \<Rightarrow> string option" where
  "find_opt [] c = None"
| "find_opt (x # q) c =
     (if x = c then Some q
      else case q of
             y # q' \<Rightarrow> if y = CHR '':'' then find_opt q' c else find_opt q c
           | [] \<Rightarrow> None)"

text \<open>An option \<open>c\<close> has been taken off a word; \<open>p\<close> is the rest of the word.\<close>

definition take_opt :: "string \<Rightarrow> char \<Rightarrow> string \<Rightarrow> optstate \<Rightarrow> shell_error + char option \<times> optstate" where
  "take_opt optstring c p st =
     (case find_opt optstring c of
        None \<Rightarrow> Inl (Sh_error (''Illegal option -'' @ [c]))
      | Some q \<Rightarrow>
        if take 1 q = '':'' then
          (if p = [] then
             (case argptr st of
                [] \<Rightarrow> Inl (Sh_error (''No arg for -'' @ [c] @ '' option''))
              | w # ws \<Rightarrow> Inr (Some c, st\<lparr>argptr := ws, optionarg := Some w, optptr := None\<rparr>))
           else Inr (Some c, st\<lparr>optionarg := Some p, optptr := None\<rparr>))
        else Inr (Some c, st\<lparr>optptr := Some p\<rparr>))"

definition nextopt :: "string \<Rightarrow> optstate \<Rightarrow> shell_error + char option \<times> optstate" where
  "nextopt optstring st =
     (case optptr st of
        Some (c # p) \<Rightarrow> take_opt optstring c p st
      | _ \<Rightarrow>
        (case argptr st of
           (d # c # p) # ws \<Rightarrow>
             if d \<noteq> CHR ''-'' then Inr (None, st)
             else if c = CHR ''-'' \<and> p = [] then Inr (None, st\<lparr>argptr := ws\<rparr>)
             else take_opt optstring c p (st\<lparr>argptr := ws\<rparr>)
         | _ \<Rightarrow> Inr (None, st)))"

text \<open>The state in which a builtin command starts (\<open>evalbltin\<close>).\<close>

definition start_args :: "string list \<Rightarrow> optstate" where
  "start_args args = \<lparr>argptr = args, optptr = None, optionarg = None\<rparr>"

text \<open>
  The loop that commands run over their options. Each turn takes a character off the arguments,
  so it ends; \<open>body\<close> is what the command does with an option letter and its argument.
\<close>

definition opt_size :: "optstate \<Rightarrow> nat" where
  "opt_size st = sum_list (map (\<lambda>w. length w + 1) (argptr st)) + (case optptr st of None \<Rightarrow> 0 | Some p \<Rightarrow> length p)"

lemma take_opt_size:
  "take_opt optstring c p st = Inr (r, st') \<Longrightarrow>
   opt_size st' \<le> sum_list (map (\<lambda>w. length w + 1) (argptr st)) + length p"
  by (auto simp: take_opt_def opt_size_def split: option.splits if_splits list.splits)

lemma nextopt_size: "nextopt optstring st = Inr (Some c, st') \<Longrightarrow> opt_size st' < opt_size st"
  by (auto simp: nextopt_def opt_size_def [of st] split: option.splits list.splits if_splits
      dest!: take_opt_size)

function opt_loop ::
    "string \<Rightarrow> (char \<Rightarrow> string option \<Rightarrow> 's \<Rightarrow> 's) \<Rightarrow> optstate \<Rightarrow> 's \<Rightarrow> shell_error + 's \<times> optstate" where
  "opt_loop optstring body st s =
     bindE (nextopt optstring st) (\<lambda>(r, st').
       case r of None \<Rightarrow> Inr (s, st') | Some c \<Rightarrow> opt_loop optstring body st' (body c (optionarg st') s))"
  by pat_completeness auto
termination
  by (relation "measure (\<lambda>(optstring, body, st, s). opt_size st)") (auto dest: nextopt_size)

declare opt_loop.simps [simp del]

end
