(* ===== verification/Sh_Var.thy ===== *)
theory Sh_Var
  imports Sh_Chain Sh_Args
begin

text \<open>
  Shell variables (\<open>var.c\<close>, \<open>var.h\<close>): the hash table of variables, assignment with its flags and
  callbacks, \<open>export\<close>, \<open>readonly\<close>, \<open>local\<close> and \<open>unset\<close>, and the stack of local variables.

  \<open>struct var\<close>s live in a store, because saved local variables point to them; the lists of
  \<open>vartab\<close> hold their addresses. The nine variables of \<open>varinit\<close> have the addresses 0 to 8
  (\<open>config.h\<close>: \<open>SMALL\<close> and \<open>WITH_LINENO\<close>, no \<open>ATTY\<close>). A word of flags is the set of its bits.
  Allocation does not fail, and memory that is freed is not used again.
\<close>

section \<open>Data\<close>

datatype vflag = VEXPORT | VREADONLY | VSTRFIXED | VTEXTFIXED | VSTACK | VUNSET | VNOFUNC | VNOSAVE

text \<open>The text of a variable; the shell compares it with the address of \<open>linenovar\<close>.\<close>

datatype vartext = Text string | Linenovar

datatype varfunc = Changemail | Changepath | Getoptsreset

record var =
  vflags :: "vflag set"
  vtext :: vartext
  vfunc :: "varfunc option"

text \<open>A saved variable; for \<open>local -\<close> the text is a copy of the options.\<close>

record localvar =
  lvp :: "nat option"
  lflags :: "vflag set"
  ltext :: vartext
  loptlist :: "int list"

text \<open>
  The state: besides the variables it has the options and the positional parameters
  (\<open>options.c\<close>), which assignments and callbacks depend on. \<open>hooks\<close> is the sequence of calls to
  \<open>changemail\<close> and \<open>changepath\<close>, which only mark caches of other parts as out of date.
\<close>

record shell =
  vartab :: "nat list list"
  varmem :: "nat \<Rightarrow> var"
  nvars :: nat
  linenovar :: string
  lineno :: int
  localvar_stack :: "localvar list list"
  optlist :: "int list"
  shparam :: "string list"
  optind :: int
  optoff :: int
  hooks :: "(varfunc \<times> string) list"

definition VTABSIZE :: nat where "VTABSIZE = 39"
definition vlineno :: nat where "vlineno = 8"
definition NOPTS :: nat where "NOPTS = 18"

definition aflag :: "shell \<Rightarrow> int" where
  "aflag sh = optlist sh ! 12"

definition text_of :: "shell \<Rightarrow> vartext \<Rightarrow> string" where
  "text_of sh t = (case t of Text s \<Rightarrow> s | Linenovar \<Rightarrow> linenovar sh)"

abbreviation vartext_at :: "shell \<Rightarrow> nat \<Rightarrow> string" where
  "vartext_at sh a \<equiv> text_of sh (vtext (varmem sh a))"

definition upd_var :: "nat \<Rightarrow> (var \<Rightarrow> var) \<Rightarrow> shell \<Rightarrow> shell" where
  "upd_var a f sh = sh\<lparr>varmem := (varmem sh)(a := f (varmem sh a))\<rparr>"

section \<open>Names and the table\<close>

text \<open>The name of \<open>name=value\<close> (\<open>strchrnul\<close>), and the value or the empty string.\<close>

definition var_name :: "string \<Rightarrow> string" where
  "var_name s = takeWhile (\<lambda>c. c \<noteq> CHR ''='') s"

definition varnull :: "string \<Rightarrow> string" where
  "varnull s = drop 1 (dropWhile (\<lambda>c. c \<noteq> CHR ''='') s)"

text \<open>\<open>char\<close> is signed.\<close>

definition schar :: "char \<Rightarrow> int" where
  "schar c = (if byte_of c < 128 then int (byte_of c) else int (byte_of c) - 256)"

definition cmp_value :: "char \<Rightarrow> int" where
  "cmp_value c = (if c = CHR ''='' then 0 else schar c)"

fun varcmp :: "string \<Rightarrow> string \<Rightarrow> int" where
  "varcmp [] [] = 0"
| "varcmp [] (d # q) = - cmp_value d"
| "varcmp (c # p) [] = cmp_value c"
| "varcmp (c # p) (d # q) =
     (if c = d then if c = CHR ''='' then 0 else varcmp p q else cmp_value c - cmp_value d)"

definition hashvar :: "string \<Rightarrow> nat" where
  "hashvar p =
     (let first = (case p of [] \<Rightarrow> 0 | c # _ \<Rightarrow> of_nat (byte_of c)) :: 32 word;
          hashval = foldl (\<lambda>h c. h + of_nat (byte_of c)) (push_bit 4 first) (var_name p)
      in unat (hashval mod of_nat VTABSIZE))"

definition findvar :: "string \<Rightarrow> shell \<Rightarrow> nat option" where
  "findvar name sh = find (\<lambda>a. varcmp (vartext_at sh a) name = 0) (vartab sh ! hashvar name)"

section \<open>Assignment\<close>

definition getoptsreset :: "string \<Rightarrow> shell \<Rightarrow> shell_error + shell" where
  "getoptsreset val sh =
     bindE (number val) (\<lambda>n. Inr (sh\<lparr>optind := (if n = 0 then 1 else n), optoff := - 1\<rparr>))"

definition call_varfunc :: "varfunc option \<Rightarrow> string \<Rightarrow> shell \<Rightarrow> shell_error + shell" where
  "call_varfunc f val sh =
     (case f of
        None \<Rightarrow> Inr sh
      | Some Getoptsreset \<Rightarrow> getoptsreset val sh
      | Some g \<Rightarrow> Inr (sh\<lparr>hooks := hooks sh @ [(g, val)]\<rparr>))"

text \<open>The flags that keep an unset variable in the table.\<close>

definition keep_flags :: "vflag set" where
  "keep_flags = {VEXPORT, VREADONLY, VSTRFIXED, VUNSET}"

definition set_existing :: "nat \<Rightarrow> string \<Rightarrow> vflag set \<Rightarrow> shell \<Rightarrow> shell_error + nat option \<times> shell" where
  "set_existing a s flags sh =
     (let vp = varmem sh a
      in if VREADONLY \<in> vflags vp
         then Inl (Sh_error (var_name (vartext_at sh a) @ '': is read only''))
         else bindE (call_varfunc (if VNOFUNC \<in> flags then None else vfunc vp) (varnull s) sh) (\<lambda>sh1.
           if flags \<inter> keep_flags \<noteq> {VUNSET} then
             Inr (Some a, upd_var a (\<lambda>x. x\<lparr>vtext := Text s,
               vflags := flags \<union> (vflags x - {VTEXTFIXED, VSTACK, VNOSAVE, VUNSET})\<rparr>) sh1)
           else if VSTRFIXED \<in> vflags vp then
             Inr (Some a, upd_var a (\<lambda>x. x\<lparr>vtext := Text s, vflags := flags \<union> (vflags x \<inter> {VSTRFIXED})\<rparr>) sh1)
           else Inr (Some a, sh1\<lparr>vartab := (vartab sh1)[hashvar s := remove1 a (vartab sh1 ! hashvar s)]\<rparr>)))"

definition set_new :: "string \<Rightarrow> vflag set \<Rightarrow> shell \<Rightarrow> nat option \<times> shell" where
  "set_new s flags sh =
     (if flags \<inter> keep_flags = {VUNSET} then (None, sh)
      else
        let a = nvars sh
        in (Some a, sh\<lparr>nvars := a + 1, varmem := (varmem sh)(a := \<lparr>vflags = flags, vtext = Text s, vfunc = None\<rparr>),
                       vartab := (vartab sh)[hashvar s := vartab sh ! hashvar s @ [a]]\<rparr>))"

text \<open>\<open>VEXPORT & (((unsigned) (1 - aflag)) - 1)\<close> is \<open>VEXPORT\<close> if \<open>aflag\<close> is 1 and nothing if it is 0 or 2.\<close>

definition setvareq :: "string \<Rightarrow> vflag set \<Rightarrow> shell \<Rightarrow> shell_error + nat option \<times> shell" where
  "setvareq s flags sh =
     (let flags' = flags \<union> (if aflag sh = 1 then {VEXPORT} else {})
      in case findvar s sh of
           Some a \<Rightarrow> set_existing a s flags' sh
         | None \<Rightarrow> Inr (set_new s flags' sh))"

definition setvar :: "string \<Rightarrow> string option \<Rightarrow> vflag set \<Rightarrow> shell \<Rightarrow> shell_error + nat option \<times> shell" where
  "setvar name val flags sh =
     (let q = endofname name;
          pre = take (length name - length q) name;
          junk = var_name q
      in if pre @ junk = [] \<or> junk \<noteq> []
         then Inl (Sh_error (pre @ junk @ '': bad variable name''))
         else setvareq (pre @ (case val of None \<Rightarrow> [] | Some v \<Rightarrow> CHR ''='' # v))
                (flags \<union> (if val = None then {VUNSET} else {}) \<union> {VNOSAVE}) sh)"

definition setvarint :: "string \<Rightarrow> int \<Rightarrow> vflag set \<Rightarrow> shell \<Rightarrow> shell_error + int \<times> shell" where
  "setvarint name val flags sh =
     bindE (setvar name (Some (print_int val)) flags sh) (\<lambda>(_, sh1). Inr (val, sh1))"

definition unsetvar :: "string \<Rightarrow> shell \<Rightarrow> shell_error + shell" where
  "unsetvar s sh = bindE (setvar s None {} sh) (\<lambda>(_, sh1). Inr sh1)"

section \<open>Lookup\<close>

text \<open>
  \<open>LINENO\<close> is printed into its buffer when it is looked up, unless it has been assigned.
\<close>

definition lookupvar :: "string \<Rightarrow> shell \<Rightarrow> string option \<times> shell" where
  "lookupvar name sh =
     (case findvar name sh of
        None \<Rightarrow> (None, sh)
      | Some a \<Rightarrow>
        if VUNSET \<in> vflags (varmem sh a) then (None, sh)
        else
          let sh1 = (if a = vlineno \<and> vtext (varmem sh a) = Linenovar
                     then sh\<lparr>linenovar := ''LINENO='' @ print_int (lineno sh)\<rparr> else sh)
          in (Some (varnull (vartext_at sh1 a)), sh1))"

definition lookupvarint :: "string \<Rightarrow> shell \<Rightarrow> shell_error + int \<times> shell" where
  "lookupvarint name sh =
     (case lookupvar name sh of (v, sh1) \<Rightarrow>
        bindE (atomax (case v of None \<Rightarrow> [] | Some s \<Rightarrow> s) 0) (\<lambda>n. Inr (n, sh1)))"

definition listvars :: "vflag set \<Rightarrow> vflag set \<Rightarrow> shell \<Rightarrow> string list" where
  "listvars on off sh =
     map (vartext_at sh) (filter (\<lambda>a. vflags (varmem sh a) \<inter> (on \<union> off) = on) (concat (vartab sh)))"

text \<open>\<open>qsort\<close> by \<open>vpcmp\<close>; the names differ, so every sorting algorithm gives the same list.\<close>

fun insort_var :: "string \<Rightarrow> string list \<Rightarrow> string list" where
  "insort_var x [] = [x]"
| "insort_var x (y # ys) = (if varcmp x y \<le> 0 then x # y # ys else y # insort_var x ys)"

definition show_var :: "string \<Rightarrow> string \<Rightarrow> string" where
  "show_var pre ep =
     (let name = var_name ep
      in pre @ (if pre \<noteq> [] then '' '' else pre) @
         (if name = ep then ep @ [newline_chr]
          else name @ ''='' @ single_quote (varnull ep) @ [newline_chr]))"

definition showvars :: "string \<Rightarrow> vflag set \<Rightarrow> vflag set \<Rightarrow> shell \<Rightarrow> string" where
  "showvars pre on off sh = concat (map (show_var pre) (foldr insort_var (listvars on off sh) []))"

section \<open>The start of the shell\<close>

definition varinit :: "var list" where
  "varinit =
     [\<lparr>vflags = {VSTRFIXED, VTEXTFIXED}, vtext = Text (''IFS= '' @ [tab_chr, newline_chr]), vfunc = None\<rparr>,
      \<lparr>vflags = {VSTRFIXED, VTEXTFIXED, VUNSET}, vtext = Text ''MAIL'', vfunc = Some Changemail\<rparr>,
      \<lparr>vflags = {VSTRFIXED, VTEXTFIXED, VUNSET}, vtext = Text ''MAILPATH'', vfunc = Some Changemail\<rparr>,
      \<lparr>vflags = {VSTRFIXED, VTEXTFIXED},
        vtext = Text ''PATH=/usr/local/sbin:/usr/local/bin:/usr/sbin:/usr/bin:/sbin:/bin'', vfunc = Some Changepath\<rparr>,
      \<lparr>vflags = {VSTRFIXED, VTEXTFIXED}, vtext = Text ''PS1=$ '', vfunc = None\<rparr>,
      \<lparr>vflags = {VSTRFIXED, VTEXTFIXED}, vtext = Text ''PS2=> '', vfunc = None\<rparr>,
      \<lparr>vflags = {VSTRFIXED, VTEXTFIXED}, vtext = Text ''PS4=+ '', vfunc = None\<rparr>,
      \<lparr>vflags = {VSTRFIXED, VTEXTFIXED}, vtext = Text ''OPTIND=1'', vfunc = Some Getoptsreset\<rparr>,
      \<lparr>vflags = {VSTRFIXED, VTEXTFIXED}, vtext = Linenovar, vfunc = None\<rparr>]"

text \<open>The static storage of the process before \<open>initvar\<close>.\<close>

definition static_shell :: shell where
  "static_shell =
     \<lparr>vartab = replicate VTABSIZE [], varmem = (\<lambda>a. varinit ! a), nvars = 9, linenovar = ''LINENO='',
      lineno = 0, localvar_stack = [], optlist = replicate NOPTS 0, shparam = [], optind = 0,
      optoff = 0, hooks = []\<rparr>"

definition link_var :: "nat \<Rightarrow> shell \<Rightarrow> shell" where
  "link_var a sh =
     (let h = hashvar (vartext_at sh a) in sh\<lparr>vartab := (vartab sh)[h := a # vartab sh ! h]\<rparr>)"

definition initvar :: "nat \<Rightarrow> shell \<Rightarrow> shell" where
  "initvar euid sh =
     (let sh1 = fold link_var [0..<length varinit] sh
      in if euid = 0 then upd_var 4 (\<lambda>x. x\<lparr>vtext := Text ''PS1=# ''\<rparr>) sh1 else sh1)"

text \<open>
  The initialization of this file; \<open>envp\<close> is the environment, \<open>ppid\<close> the parent's process
  number. What follows in the code, the check of \<open>PWD\<close> against the file system, is not modelled.
\<close>

definition import_env :: "string \<Rightarrow> shell \<Rightarrow> shell_error + shell" where
  "import_env e sh =
     (if isassignment e then bindE (setvareq e {VEXPORT, VTEXTFIXED} sh) (\<lambda>(_, sh1). Inr sh1) else Inr sh)"

definition init_vars :: "nat \<Rightarrow> string list \<Rightarrow> int \<Rightarrow> shell \<Rightarrow> shell_error + shell" where
  "init_vars euid envp ppid sh =
     bindE (foldE import_env envp (initvar euid sh)) (\<lambda>sh1.
     bindE (setvareq (''IFS= '' @ [tab_chr, newline_chr]) {VTEXTFIXED} sh1) (\<lambda>(_, sh2).
     bindE (setvareq ''OPTIND=1'' {VTEXTFIXED} sh2) (\<lambda>(_, sh3).
     bindE (setvareq (''PPID='' @ print_int ppid) {VTEXTFIXED} sh3) (\<lambda>(_, sh4). Inr sh4))))"

section \<open>\<open>export\<close> and \<open>readonly\<close>\<close>

definition export_name :: "vflag \<Rightarrow> string \<Rightarrow> shell \<Rightarrow> shell_error + shell" where
  "export_name flag name sh =
     (if CHR ''='' \<in> set name then bindE (setvar name (Some (varnull name)) {flag} sh) (\<lambda>(_, sh1). Inr sh1)
      else case findvar name sh of
             Some a \<Rightarrow> Inr (upd_var a (\<lambda>x. x\<lparr>vflags := insert flag (vflags x)\<rparr>) sh)
           | None \<Rightarrow> bindE (setvar name None {flag} sh) (\<lambda>(_, sh1). Inr sh1))"

text \<open>\<open>cmd\<close> is \<open>argv[0]\<close>, \<open>args\<close> the other arguments; the string is what is printed.\<close>

definition exportcmd :: "string \<Rightarrow> string list \<Rightarrow> shell \<Rightarrow> shell_error + string \<times> shell" where
  "exportcmd cmd args sh =
     (let flag = (if take 1 cmd = ''r'' then VREADONLY else VEXPORT)
      in bindE (nextopt ''p'' (start_args args)) (\<lambda>(r, st).
         if r \<noteq> Some (CHR ''p'') \<and> argptr st \<noteq> []
         then bindE (foldE (export_name flag) (argptr st) sh) (\<lambda>sh1. Inr ([], sh1))
         else Inr (showvars cmd {flag} {} sh, sh)))"

section \<open>Local variables\<close>

definition save_var :: "string \<Rightarrow> vflag set \<Rightarrow> shell \<Rightarrow> shell_error + localvar \<times> shell" where
  "save_var name flags sh =
     (if name = ''-'' then
        Inr (\<lparr>lvp = None, lflags = {}, ltext = Text [], loptlist = optlist sh\<rparr>, sh)
      else
        case findvar name sh of
          None \<Rightarrow>
            bindE (if CHR ''='' \<in> set name then setvareq name ({VSTRFIXED} \<union> flags) sh
                   else setvar name None ({VSTRFIXED} \<union> flags) sh) (\<lambda>(vp, sh1).
              Inr (\<lparr>lvp = vp, lflags = {VUNSET}, ltext = Text [], loptlist = []\<rparr>, sh1))
        | Some a \<Rightarrow>
            let lv = \<lparr>lvp = Some a, lflags = vflags (varmem sh a), ltext = vtext (varmem sh a), loptlist = []\<rparr>;
                sh1 = upd_var a (\<lambda>x. x\<lparr>vflags := vflags x \<union> {VSTRFIXED, VTEXTFIXED}\<rparr>) sh
            in if CHR ''='' \<in> set name then bindE (setvareq name flags sh1) (\<lambda>(_, sh2). Inr (lv, sh2))
               else Inr (lv, sh1))"

text \<open>Without a frame the code would follow a null pointer; \<open>localcmd\<close> checks that there is one.\<close>

definition mklocal :: "vflag set \<Rightarrow> string \<Rightarrow> shell \<Rightarrow> shell_error + shell" where
  "mklocal flags name sh =
     bindE (save_var name flags sh) (\<lambda>(lv, sh1).
       case localvar_stack sh1 of
         [] \<Rightarrow> Inl Sh_undefined
       | ll # lls \<Rightarrow> Inr (sh1\<lparr>localvar_stack := (lv # ll) # lls\<rparr>))"

definition localcmd :: "string list \<Rightarrow> shell \<Rightarrow> shell_error + shell" where
  "localcmd args sh =
     (if localvar_stack sh = [] then Inl (Sh_error ''not in a function'')
      else foldE (mklocal {}) args sh)"

text \<open>One turn of the loop of \<open>poplocalvars\<close>.\<close>

definition restore_var :: "localvar \<Rightarrow> shell \<Rightarrow> shell_error + shell" where
  "restore_var lv sh =
     (case lvp lv of
        None \<Rightarrow> Inr (sh\<lparr>optlist := loptlist lv\<rparr>)
      | Some a \<Rightarrow>
        if lflags lv = {VUNSET} then
          let sh1 = upd_var a (\<lambda>x. x\<lparr>vflags := vflags x - {VSTRFIXED, VREADONLY}\<rparr>) sh
          in unsetvar (vartext_at sh1 a) sh1
        else
          bindE (call_varfunc (vfunc (varmem sh a)) (varnull (text_of sh (ltext lv))) sh) (\<lambda>sh1.
            Inr (upd_var a (\<lambda>x. x\<lparr>vflags := lflags lv, vtext := ltext lv\<rparr>) sh1)))"

definition poplocalvars :: "shell \<Rightarrow> shell_error + shell" where
  "poplocalvars sh =
     (case localvar_stack sh of
        [] \<Rightarrow> Inl Sh_undefined
      | ll # lls \<Rightarrow> foldE restore_var ll (sh\<lparr>localvar_stack := lls\<rparr>))"

text \<open>A list of frames is known by its length; the result is the list before.\<close>

definition pushlocalvars :: "bool \<Rightarrow> shell \<Rightarrow> nat \<times> shell" where
  "pushlocalvars push sh =
     (length (localvar_stack sh), if push then sh\<lparr>localvar_stack := [] # localvar_stack sh\<rparr> else sh)"

primrec unwind_frames :: "nat \<Rightarrow> shell \<Rightarrow> shell_error + shell" where
  "unwind_frames 0 sh = Inr sh"
| "unwind_frames (Suc k) sh = bindE (poplocalvars sh) (unwind_frames k)"

definition unwindlocalvars :: "nat \<Rightarrow> shell \<Rightarrow> shell_error + shell" where
  "unwindlocalvars stop sh =
     (if length (localvar_stack sh) < stop then Inl Sh_undefined
      else unwind_frames (length (localvar_stack sh) - stop) sh)"

section \<open>\<open>unset\<close>\<close>

text \<open>\<open>unsetfunc\<close> removes a function from the command table of \<open>exec.c\<close>, which is not modelled.\<close>

definition unsetcmd ::
    "(string \<Rightarrow> shell \<Rightarrow> shell) \<Rightarrow> string list \<Rightarrow> shell \<Rightarrow> shell_error + shell" where
  "unsetcmd unsetfunc args sh =
     bindE (opt_loop ''vf'' (\<lambda>c _ _. Some c) (start_args args) None) (\<lambda>(flag, st).
       foldE (\<lambda>ap sh. if flag \<noteq> Some (CHR ''f'') then unsetvar ap sh else Inr (unsetfunc ap sh)) (argptr st) sh)"

end
