(* ===== verification/Sh_Var_Laws.thy ===== *)
theory Sh_Var_Laws
  imports Sh_Var
begin

text \<open>
  What assignment, lookup and local variables promise: the table refines a map from names to
  values, readonly variables do not change, and the variables that a function makes local have
  their old values and flags again when it returns.
\<close>

section \<open>Names\<close>

text \<open>A name in the sense of the table: not empty and without NUL.\<close>

definition cname :: "string \<Rightarrow> bool" where
  "cname s \<longleftrightarrow> var_name s \<noteq> [] \<and> CHR 0x00 \<notin> set (var_name s)"

lemma schar_inj: "schar c = schar d \<Longrightarrow> c = d"
  using byte_of_less [of c] byte_of_less [of d] by (auto simp: schar_def split: if_splits)

lemma schar_0 [simp]: "schar c = 0 \<longleftrightarrow> c = CHR 0x00"
  using schar_inj [of c "CHR 0x00"] by (auto simp: schar_def byte_of_def)

lemma var_name_Nil [simp]: "var_name [] = []"
  by (simp add: var_name_def)

lemma var_name_Cons: "var_name (c # s) = (if c = CHR ''='' then [] else c # var_name s)"
  by (simp add: var_name_def)

lemma varcmp_0_iff:
  assumes "CHR 0x00 \<notin> set (var_name p)" and "CHR 0x00 \<notin> set (var_name q)"
  shows "varcmp p q = 0 \<longleftrightarrow> var_name p = var_name q"
  using assms
  by (induction p q rule: varcmp.induct)
    (auto simp: var_name_Cons cmp_value_def dest: schar_inj split: if_splits)

lemma var_name_idem [simp]: "var_name (var_name s) = var_name s"
  by (simp add: var_name_def)

lemma var_name_append_eq [simp]: "CHR ''='' \<notin> set n \<Longrightarrow> var_name (n @ CHR ''='' # v) = n"
  by (induction n) (auto simp: var_name_Cons)

lemma var_name_plain [simp]: "CHR ''='' \<notin> set n \<Longrightarrow> var_name n = n"
  by (induction n) (auto simp: var_name_Cons)

lemma varnull_append_eq [simp]: "CHR ''='' \<notin> set n \<Longrightarrow> varnull (n @ CHR ''='' # v) = v"
  by (induction n) (auto simp: varnull_def)

lemma hashvar_name: "var_name s \<noteq> [] \<Longrightarrow> hashvar s = hashvar (var_name s)"
  by (cases s) (auto simp: hashvar_def var_name_Cons)

lemma hashvar_less: "hashvar s < VTABSIZE"
  by (simp add: hashvar_def VTABSIZE_def Let_def unat_mod)

lemma is_name_facts: "is_name c \<Longrightarrow> is_in_name c"
  by (auto simp: is_name_def is_in_name_def isalnum_def)

lemma in_name_not: "is_in_name c \<Longrightarrow> c \<noteq> CHR ''='' \<and> c \<noteq> CHR 0x00"
  by (auto simp: is_in_name_def isalnum_def isalpha_def isdigit_def less_eq_char_def)

lemma endofname_split:
  obtains "endofname s = s" "s = [] \<or> \<not> is_name (hd s)"
  | n where "s = n @ endofname s" "n \<noteq> []" "\<forall>c \<in> set n. is_in_name c" "endofname s \<noteq> s"
proof (cases "endofname s = s")
  case True
  have "s = [] \<or> \<not> is_name (hd s)"
  proof (cases s)
    case (Cons c r)
    then have "length (endofname s) = length s" using True by simp
    moreover have "length (dropWhile is_in_name r) \<le> length r" by (rule length_dropWhile_le)
    ultimately show ?thesis using Cons by (auto simp: endofname_def split: if_splits)
  qed simp
  then show ?thesis using True that(1) by blast
next
  case False
  then obtain c r where s: "s = c # r" "is_name c" "endofname s = dropWhile is_in_name r"
    by (auto simp: endofname_def split: list.splits if_splits)
  then have "s = (c # takeWhile is_in_name r) @ endofname s" by simp
  moreover have "\<forall>x \<in> set (c # takeWhile is_in_name r). is_in_name x"
    using s(2) is_name_facts by (auto dest: set_takeWhileD)
  ultimately show ?thesis using that(2) False by blast
qed

text \<open>What \<open>setvar\<close> accepts: a name, alone or before an equals sign.\<close>

definition var_ok :: "string \<Rightarrow> bool" where
  "var_ok name \<longleftrightarrow> var_name name \<noteq> [] \<and> endofname (var_name name) = []"

lemma var_ok_cname: "var_ok s \<Longrightarrow> cname s"
proof -
  assume ok: "var_ok s"
  show ?thesis
    by (cases rule: endofname_split [of "var_name s"])
      (use ok in_name_not in \<open>auto simp: var_ok_def cname_def\<close>)
qed

lemma endofname_append:
  assumes "\<forall>c \<in> set n. is_in_name c" and "n \<noteq> []" and "is_name (hd n)" and "r = [] \<or> \<not> is_in_name (hd r)"
  shows "endofname (n @ r) = r"
  using assms dropWhile_stop [of "tl n" is_in_name r] by (cases n) (auto simp: endofname_def)

text \<open>\<open>setvar\<close> in terms of the name.\<close>

lemma setvar_ok:
  assumes "var_ok name"
  shows "setvar name val flags sh =
    setvareq (var_name name @ (case val of None \<Rightarrow> [] | Some v \<Rightarrow> CHR ''='' # v))
      (flags \<union> (if val = None then {VUNSET} else {}) \<union> {VNOSAVE}) sh"
proof -
  let ?n = "var_name name"
  define r where "r = dropWhile (\<lambda>c. c \<noteq> CHR ''='') name"
  have r: "name = ?n @ r" "r = [] \<or> hd r = CHR ''=''"
    using hd_dropWhile [of "\<lambda>c. c \<noteq> CHR ''=''" name] unfolding r_def var_name_def by auto
  have n: "?n \<noteq> []" "endofname ?n = []" using assms by (simp_all add: var_ok_def)
  then have "is_name (hd ?n)" "\<forall>c \<in> set ?n. is_in_name c"
    by (cases ?n; auto simp: endofname_def is_name_facts split: if_splits)+
  moreover have "\<not> is_in_name (CHR ''='')" using in_name_not by blast
  ultimately have e: "endofname name = r" using endofname_append [of ?n r] n(1) r(2) by (subst r(1)) auto
  then have "take (length name - length (endofname name)) name = ?n"
    using arg_cong [OF r(1), of length] arg_cong [OF r(1), of "take (length ?n)"] by simp
  moreover have "var_name (endofname name) = []" using e r(2) by (cases r) (auto simp: var_name_Cons)
  ultimately show ?thesis
    unfolding setvar_def Let_def by (simp only: n(1) append_Nil2 simp_thms if_False)
qed

lemma setvar_junk:
  assumes "take (length name - length (endofname name)) name @ var_name (endofname name) = [] \<or>
    var_name (endofname name) \<noteq> []"
  shows "\<exists>m. setvar name val flags sh = Inl (Sh_error (m @ '': bad variable name''))"
  unfolding setvar_def Let_def if_P [OF assms]
  by (rule exI [of _ "take (length name - length (endofname name)) name @ var_name (endofname name)"]) simp

lemma setvar_bad:
  assumes "\<not> var_ok name"
  shows "\<exists>m. setvar name val flags sh = Inl (Sh_error (m @ '': bad variable name''))"
proof (cases rule: endofname_split [of name])
  case 1
  then show ?thesis using setvar_junk [of name] by simp
next
  case (2 n)
  have "var_name (endofname name) \<noteq> []"
  proof
    assume "var_name (endofname name) = []"
    then have r: "endofname name = [] \<or> (\<exists>v. endofname name = CHR ''='' # v)"
      by (cases "endofname name") (auto simp: var_name_Cons split: if_splits)
    have "CHR ''='' \<notin> set n" using 2(3) in_name_not by blast
    then have "var_name (n @ endofname name) = n" using r by auto
    then have "var_name name = n" using 2(1) by simp
    moreover have "is_name (hd n)" using 2 by (cases n) (auto simp: endofname_def split: if_splits list.splits)
    then have "endofname n = []" using endofname_append [of n "[]"] 2 by simp
    ultimately show False using assms 2(2) by (simp add: var_ok_def)
  qed
  then show ?thesis using setvar_junk [of name] by simp
qed

section \<open>The invariant\<close>

abbreviation var_key :: "shell \<Rightarrow> nat \<Rightarrow> string" where
  "var_key sh a \<equiv> var_name (vartext_at sh a)"

abbreviation var_nodes :: "shell \<Rightarrow> nat set" where
  "var_nodes sh \<equiv> chain_nodes (vartab sh)"

text \<open>A set variable has an equals sign, so that \<open>lookupvar\<close> may step over it.\<close>

definition text_ok :: "vflag set \<Rightarrow> string \<Rightarrow> bool" where
  "text_ok flags s \<longleftrightarrow> cname s \<and> (VUNSET \<notin> flags \<longrightarrow> CHR ''='' \<in> set s)"

definition var_wf :: "shell \<Rightarrow> bool" where
  "var_wf sh \<longleftrightarrow> chain_wf hashvar VTABSIZE (var_key sh) (vartab sh) \<and> var_nodes sh \<subseteq> {..<nvars sh} \<and>
     (\<forall>a \<in> var_nodes sh. text_ok (vflags (varmem sh a)) (vartext_at sh a)) \<and>
     (\<exists>v. linenovar sh = ''LINENO='' @ v)"

interpretation vt: chained hashvar VTABSIZE
  by unfold_locales (rule hashvar_less)

text \<open>What one sees of a variable that is set: its value and its flags.\<close>

definition var_value :: "shell \<Rightarrow> nat \<Rightarrow> vartext \<Rightarrow> string" where
  "var_value sh a t = (if a = vlineno \<and> t = Linenovar then print_int (lineno sh) else varnull (text_of sh t))"

definition obs :: "shell \<Rightarrow> string \<Rightarrow> (string \<times> vflag set) option" where
  "obs sh n =
     (case findvar n sh of
        None \<Rightarrow> None
      | Some a \<Rightarrow>
        if VUNSET \<in> vflags (varmem sh a) then None
        else Some (var_value sh a (vtext (varmem sh a)), vflags (varmem sh a)))"

lemma lookupvar_obs: "fst (lookupvar n sh) = map_option fst (obs sh n)"
proof -
  have "varnull (''LINENO='' @ v) = v" for v by (simp add: varnull_def)
  then show ?thesis
    by (auto simp: lookupvar_def obs_def var_value_def text_of_def split: option.splits)
qed

lemma text_ok_cname: "text_ok f s \<Longrightarrow> cname s"
  by (simp add: text_ok_def)

lemma cname_facts: "cname s \<Longrightarrow> var_name s \<noteq> []" "cname s \<Longrightarrow> CHR 0x00 \<notin> set (var_name s)"
  by (simp_all add: cname_def)

lemma find_cong: "(\<And>x. x \<in> set xs \<Longrightarrow> P x = Q x) \<Longrightarrow> find P xs = find Q xs"
  by (induction xs) auto

lemma hashvar_cname: "cname s \<Longrightarrow> hashvar s = hashvar (var_name s)"
  by (rule hashvar_name) (simp add: cname_def)

lemma var_wf_chain: "var_wf sh \<Longrightarrow> chain_wf hashvar VTABSIZE (var_key sh) (vartab sh)"
  by (simp add: var_wf_def)

lemma findvar_key:
  assumes "var_wf sh" and "cname s"
  shows "findvar s sh = find (\<lambda>a. var_key sh a = var_name s) (vartab sh ! hashvar (var_name s))"
proof -
  have h: "hashvar s = hashvar (var_name s)" by (rule hashvar_cname [OF assms(2)])
  have "varcmp (vartext_at sh a) s = 0 \<longleftrightarrow> var_key sh a = var_name s" if "a \<in> set (vartab sh ! hashvar s)" for a
  proof -
    have "a \<in> var_nodes sh"
      using assms(1) that hashvar_less [of s] by (auto simp: chain_nodes_iff var_wf_def chain_wf_def)
    then have "cname (vartext_at sh a)" using assms(1) by (auto simp: var_wf_def text_ok_def)
    then show ?thesis using varcmp_0_iff assms(2) by (simp add: cname_def)
  qed
  then show ?thesis unfolding findvar_def h by (rule find_cong) (simp add: h)
qed

lemma findvar_Some:
  assumes "var_wf sh" and "cname s"
  shows "findvar s sh = Some a \<longleftrightarrow> a \<in> var_nodes sh \<and> var_key sh a = var_name s"
  unfolding findvar_key [OF assms] by (rule vt.find_Some [OF var_wf_chain [OF assms(1)]])

lemma findvar_None:
  assumes "var_wf sh" and "cname s"
  shows "findvar s sh = None \<longleftrightarrow> (\<forall>a \<in> var_nodes sh. var_key sh a \<noteq> var_name s)"
  unfolding findvar_key [OF assms] by (rule vt.find_None [OF var_wf_chain [OF assms(1)]])

lemma obs_cong:
  assumes "findvar n sh' = findvar n sh" and "lineno sh' = lineno sh" and "linenovar sh' = linenovar sh"
    and "\<And>a. findvar n sh = Some a \<Longrightarrow> varmem sh' a = varmem sh a"
  shows "obs sh' n = obs sh n"
  using assms by (auto simp: obs_def var_value_def text_of_def split: option.splits vartext.splits)

lemma obs_name: "var_wf sh \<Longrightarrow> cname n \<Longrightarrow> cname m \<Longrightarrow> var_name m = var_name n \<Longrightarrow> obs sh m = obs sh n"
  by (simp add: obs_def findvar_key)

text \<open>The three ways in which an assignment changes the table.\<close>

lemma upd_var_wf:
  assumes "var_wf sh" and "a \<in> var_nodes sh" and "var_name (text_of sh (vtext (f (varmem sh a)))) = var_key sh a"
    and "text_ok (vflags (f (varmem sh a))) (text_of sh (vtext (f (varmem sh a))))"
  shows "var_wf (upd_var a f sh)" and "\<And>m. cname m \<Longrightarrow> findvar m (upd_var a f sh) = findvar m sh"
proof -
  let ?sh = "upd_var a f sh"
  have key: "var_key ?sh b = var_key sh b" for b using assms(3) by (simp add: upd_var_def text_of_def split: vartext.splits)
  have same: "vartab ?sh = vartab sh" "nvars ?sh = nvars sh" "linenovar ?sh = linenovar sh" by (simp_all add: upd_var_def)
  have "chain_wf hashvar VTABSIZE (var_key ?sh) (vartab ?sh)"
    using vt.wf_cong [of "var_key sh" "vartab sh"] key assms(1) same by (simp add: var_wf_def)
  moreover have "text_ok (vflags (varmem ?sh b)) (vartext_at ?sh b)" if "b \<in> var_nodes sh" for b
    using assms(1,4) that by (auto simp: var_wf_def upd_var_def text_of_def split: vartext.splits)
  ultimately show wf: "var_wf ?sh" using assms(1) same by (simp add: var_wf_def)
  show "findvar m ?sh = findvar m sh" if "cname m" for m
    using findvar_key [OF wf that] findvar_key [OF assms(1) that] key same by simp
qed

lemma set_new_wf:
  assumes "var_wf sh" and "findvar s sh = None" and "text_ok flags s"
    and "sh' = sh\<lparr>nvars := nvars sh + 1, varmem := (varmem sh)(nvars sh := \<lparr>vflags = flags, vtext = Text s, vfunc = None\<rparr>),
                  vartab := (vartab sh)[hashvar s := vartab sh ! hashvar s @ [nvars sh]]\<rparr>"
  shows "var_wf sh'" and "var_nodes sh' = insert (nvars sh) (var_nodes sh)"
    and "\<And>m. cname m \<Longrightarrow> findvar m sh' = (if var_name m = var_name s then Some (nvars sh) else findvar m sh)"
proof -
  let ?a = "nvars sh"
  have s: "cname s" using assms(3) by (rule text_ok_cname)
  note s = s hashvar_cname [OF s]
  have fresh: "b \<noteq> ?a" if "b \<in> var_nodes sh" for b using assms(1) that by (auto simp: var_wf_def)
  have key: "var_key sh' b = (if b = ?a then var_name s else var_key sh b)" for b
    by (simp add: assms(4) text_of_def split: vartext.splits)
  have chain: "chain_wf hashvar VTABSIZE (var_key sh') (vartab sh)"
    by (rule vt.wf_cong [of "var_key sh"]) (use assms(1) key fresh in \<open>auto simp: var_wf_def\<close>)
  have "\<forall>b \<in> var_nodes sh. var_key sh' b \<noteq> var_key sh' ?a"
    using assms(2) findvar_None [OF assms(1) s(1)] key fresh by auto
  from vt.append_wf [OF chain this] have wf': "chain_wf hashvar VTABSIZE (var_key sh') (vartab sh')"
    using s(2) by (simp add: key) (simp add: assms(4))
  show nodes: "var_nodes sh' = insert ?a (var_nodes sh)"
    using vt.append_nodes [OF chain, of "var_name s" ?a] s(2) by (simp add: assms(4))
  have "text_ok (vflags (varmem sh' b)) (vartext_at sh' b)" if "b \<in> var_nodes sh'" for b
    using that nodes assms(1,3) fresh by (auto simp: assms(4) var_wf_def text_of_def split: vartext.splits)
  moreover have "var_nodes sh' \<subseteq> {..<nvars sh'}"
    using assms(1) unfolding nodes by (auto simp: var_wf_def assms(4))
  ultimately show wf: "var_wf sh'" using wf' assms(1) by (simp add: var_wf_def) (simp add: assms(4))
  show "findvar m sh' = (if var_name m = var_name s then Some ?a else findvar m sh)" if m: "cname m" for m
  proof -
    have "findvar m sh' = Some b \<longleftrightarrow> (if var_name m = var_name s then Some ?a else findvar m sh) = Some b" for b
      using findvar_Some [OF wf m, of b] findvar_Some [OF assms(1) m, of b] fresh [of b]
        findvar_None [OF assms(1) s(1)] assms(2) by (auto simp: nodes key)
    then show ?thesis by (metis option.exhaust)
  qed
qed

lemma remove_var_wf:
  assumes "var_wf sh" and "a \<in> var_nodes sh" and "var_key sh a = var_name s" and "cname s"
    and "sh' = sh\<lparr>vartab := (vartab sh)[hashvar s := remove1 a (vartab sh ! hashvar s)]\<rparr>"
  shows "var_wf sh'" and "var_nodes sh' = var_nodes sh - {a}"
    and "\<And>m. cname m \<Longrightarrow> findvar m sh' = (if var_name m = var_name s then None else findvar m sh)"
proof -
  have h: "hashvar s = hashvar (var_key sh a)" using hashvar_cname [OF assms(4)] assms(3) by simp
  have chain: "chain_wf hashvar VTABSIZE (var_key sh) (vartab sh)" using assms(1) by (simp add: var_wf_def)
  have key: "var_key sh' b = var_key sh b" for b by (simp add: assms(5) text_of_def split: vartext.splits)
  have wf': "chain_wf hashvar VTABSIZE (var_key sh') (vartab sh')"
    using vt.remove_wf [OF chain, of "hashvar s" a] key by (simp add: assms(5) text_of_def)
  show nodes: "var_nodes sh' = var_nodes sh - {a}"
    using vt.remove_nodes [OF chain assms(2)] h by (simp add: assms(5))
  have "text_ok (vflags (varmem sh' b)) (vartext_at sh' b)" if "b \<in> var_nodes sh'" for b
    using that nodes assms(1) by (auto simp: var_wf_def assms(5) text_of_def split: vartext.splits)
  then show wf: "var_wf sh'"
    using wf' nodes assms(1) by (auto simp: var_wf_def) (auto simp: assms(5))
  show "findvar m sh' = (if var_name m = var_name s then None else findvar m sh)" if m: "cname m" for m
  proof -
    have uniq: "b = a" if "b \<in> var_nodes sh" "var_key sh b = var_name s" for b
      using vt.key_unique [OF chain that(1) assms(2)] that(2) assms(3) by simp
    have "findvar m sh' = Some b \<longleftrightarrow> (if var_name m = var_name s then None else findvar m sh) = Some b" for b
      using findvar_Some [OF wf m, of b] findvar_Some [OF assms(1) m, of b] uniq [of b] assms(3)
      by (auto simp: nodes key)
    then show ?thesis by (metis option.exhaust)
  qed
qed

section \<open>Assignment\<close>

text \<open>
  What an assignment of \<open>v\<close> to \<open>n\<close> (\<open>None\<close>: unset) does to the variables: it is seen under the
  name and nowhere else, and it touches no other \<open>struct var\<close>. One that is fixed stays in the
  table.
\<close>

definition var_kept :: "shell \<Rightarrow> shell \<Rightarrow> nat \<Rightarrow> bool" where
  "var_kept sh sh' a \<longleftrightarrow> a \<in> var_nodes sh' \<and> var_key sh' a = var_key sh a \<and>
     vfunc (varmem sh' a) = vfunc (varmem sh a) \<and> VSTRFIXED \<in> vflags (varmem sh' a)"

definition assigns :: "string \<Rightarrow> string option \<Rightarrow> shell \<Rightarrow> shell \<Rightarrow> bool" where
  "assigns n v sh sh' \<longleftrightarrow> var_wf sh' \<and> localvar_stack sh' = localvar_stack sh \<and> lineno sh' = lineno sh \<and>
     linenovar sh' = linenovar sh \<and> optlist sh' = optlist sh \<and> shparam sh' = shparam sh \<and> nvars sh \<le> nvars sh' \<and>
     (\<forall>m. cname m \<longrightarrow> (if var_name m = n then map_option fst (obs sh' m) = v else obs sh' m = obs sh m)) \<and>
     (\<forall>a \<in> var_nodes sh. VSTRFIXED \<in> vflags (varmem sh a) \<longrightarrow> var_kept sh sh' a) \<and>
     (\<forall>a \<in> var_nodes sh. var_key sh a \<noteq> n \<longrightarrow> a \<in> var_nodes sh' \<and> varmem sh' a = varmem sh a) \<and>
     var_nodes sh' \<subseteq> var_nodes sh \<union> {nvars sh..}"

lemma call_varfunc_shell:
  assumes "call_varfunc f val sh = Inr sh'"
  obtains i j h where "sh' = sh\<lparr>optind := i, optoff := j, hooks := h\<rparr>"
proof -
  have "\<exists>i j h. sh' = sh\<lparr>optind := i, optoff := j, hooks := h\<rparr>"
  proof (cases f)
    case None
    then have "sh' = sh\<lparr>optind := optind sh, optoff := optoff sh, hooks := hooks sh\<rparr>"
      using assms by (simp add: call_varfunc_def)
    then show ?thesis by blast
  next
    case (Some g)
    then show ?thesis
    proof (cases g)
      case Getoptsreset
      then obtain k where "sh' = sh\<lparr>optind := k, optoff := - 1\<rparr>"
        using assms Some by (auto simp: call_varfunc_def getoptsreset_def monad_simps)
      then have "sh' = sh\<lparr>optind := k, optoff := - 1, hooks := hooks sh\<rparr>" by simp
      then show ?thesis by blast
    next
      case Changemail
      then have "sh' = sh\<lparr>optind := optind sh, optoff := optoff sh, hooks := hooks sh @ [(g, val)]\<rparr>"
        using assms Some by (simp add: call_varfunc_def)
      then show ?thesis by blast
    next
      case Changepath
      then have "sh' = sh\<lparr>optind := optind sh, optoff := optoff sh, hooks := hooks sh @ [(g, val)]\<rparr>"
        using assms Some by (simp add: call_varfunc_def)
      then show ?thesis by blast
    qed
  qed
  then show ?thesis using that by blast
qed

text \<open>None of these fields is looked at by the table.\<close>

lemma callback_same:
  "findvar n (sh\<lparr>optind := i, optoff := j, hooks := h\<rparr>) = findvar n sh"
  "var_key (sh\<lparr>optind := i, optoff := j, hooks := h\<rparr>) a = var_key sh a"
  "var_wf (sh\<lparr>optind := i, optoff := j, hooks := h\<rparr>) = var_wf sh"
  "obs (sh\<lparr>optind := i, optoff := j, hooks := h\<rparr>) n = obs sh n"
  "text_of (sh\<lparr>optind := i, optoff := j, hooks := h\<rparr>) x = text_of sh x"
proof -
  have t: "text_of (sh\<lparr>optind := i, optoff := j, hooks := h\<rparr>) x = text_of sh x" for x
    by (simp add: text_of_def split: vartext.splits)
  show f: "findvar n (sh\<lparr>optind := i, optoff := j, hooks := h\<rparr>) = findvar n sh" by (simp add: findvar_def t)
  show "var_key (sh\<lparr>optind := i, optoff := j, hooks := h\<rparr>) a = var_key sh a" by (simp add: t)
  show "var_wf (sh\<lparr>optind := i, optoff := j, hooks := h\<rparr>) = var_wf sh" by (simp add: var_wf_def t)
  show "obs (sh\<lparr>optind := i, optoff := j, hooks := h\<rparr>) n = obs sh n"
    by (rule obs_cong) (simp_all only: f, simp_all)
  show "text_of (sh\<lparr>optind := i, optoff := j, hooks := h\<rparr>) x = text_of sh x" by (rule t)
qed

lemma assigns_upd:
  assumes "var_wf sh" and "a \<in> var_nodes sh" and "var_key sh a = var_name s"
    and "text_ok flags s" and "VSTRFIXED \<in> vflags (varmem sh a) \<Longrightarrow> VSTRFIXED \<in> flags"
    and "sh' = upd_var a (\<lambda>x. x\<lparr>vtext := Text s, vflags := flags\<rparr>) sh"
  shows "assigns (var_name s) (if VUNSET \<in> flags then None else Some (varnull s)) sh sh'"
proof -
  let ?f = "\<lambda>x. x\<lparr>vtext := Text s, vflags := flags\<rparr>"
  have ok: "var_name (text_of sh (vtext (?f (varmem sh a)))) = var_key sh a"
    "text_ok (vflags (?f (varmem sh a))) (text_of sh (vtext (?f (varmem sh a))))"
    using assms(3,4) by (simp_all add: text_of_def)
  note wf = upd_var_wf [where f = ?f, OF assms(1,2) ok, folded assms(6)]
  have mem: "varmem sh' b = (if b = a then ?f (varmem sh a) else varmem sh b)" for b by (simp add: assms(6) upd_var_def)
  have rest: "lineno sh' = lineno sh" "linenovar sh' = linenovar sh" "localvar_stack sh' = localvar_stack sh"
    "optlist sh' = optlist sh" "shparam sh' = shparam sh" "vartab sh' = vartab sh" "nvars sh' = nvars sh"
    by (simp_all add: assms(6) upd_var_def)
  have key: "var_key sh' b = var_key sh b" for b
    using assms(3) by (simp add: mem text_of_def rest split: vartext.splits)
  have "if var_name m = var_name s then map_option fst (obs sh' m) = (if VUNSET \<in> flags then None else Some (varnull s))
      else obs sh' m = obs sh m" if m: "cname m" for m
  proof (cases "var_name m = var_name s")
    case True
    then have "findvar m sh' = Some a" using wf(2) [OF m] findvar_Some [OF assms(1) m] assms(2,3) by simp
    then show ?thesis using True by (simp add: obs_def mem var_value_def text_of_def)
  next
    case False
    have "obs sh' m = obs sh m"
      by (rule obs_cong) (use wf(2) [OF m] rest mem False assms(3) findvar_Some [OF assms(1) m] in auto)
    then show ?thesis using False by simp
  qed
  moreover have "var_kept sh sh' b" if "b \<in> var_nodes sh" "VSTRFIXED \<in> vflags (varmem sh b)" for b
    using that key [of b] assms(5) rest(6) by (auto simp: var_kept_def mem)
  ultimately show ?thesis
    using wf(1) rest assms(3) by (auto simp: assigns_def mem)
qed

lemma assigns_new:
  assumes "var_wf sh" and "findvar s sh = None" and "text_ok flags s"
    and "sh' = snd (set_new s flags sh)"
  shows "assigns (var_name s) (if VUNSET \<in> flags then None else Some (varnull s)) sh sh'"
proof (cases "flags \<inter> keep_flags = {VUNSET}")
  case True
  have "obs sh m = None" if "cname m" "var_name m = var_name s" for m
  proof -
    have "findvar m sh = None"
      using that assms(2) findvar_None [OF assms(1) that(1)]
        findvar_None [OF assms(1) text_ok_cname [OF assms(3)]] by simp
    then show ?thesis by (simp add: obs_def)
  qed
  moreover have "VUNSET \<in> flags" using True by blast
  ultimately show ?thesis using True assms(1,4) by (auto simp: assigns_def set_new_def var_kept_def)
next
  case False
  then have sh': "sh' = sh\<lparr>nvars := nvars sh + 1, varmem := (varmem sh)(nvars sh := \<lparr>vflags = flags, vtext = Text s, vfunc = None\<rparr>),
      vartab := (vartab sh)[hashvar s := vartab sh ! hashvar s @ [nvars sh]]\<rparr>"
    using assms(4) by (simp add: set_new_def Let_def)
  note wf = set_new_wf [OF assms(1-3) sh']
  have fresh: "b \<noteq> nvars sh" if "b \<in> var_nodes sh" for b using assms(1) that by (auto simp: var_wf_def)
  have "if var_name m = var_name s then map_option fst (obs sh' m) = (if VUNSET \<in> flags then None else Some (varnull s))
      else obs sh' m = obs sh m" if m: "cname m" for m
  proof (cases "var_name m = var_name s")
    case True
    then have "findvar m sh' = Some (nvars sh)" using wf(3) [OF m] by simp
    then show ?thesis using True by (simp add: obs_def sh' var_value_def text_of_def)
  next
    case False
    have "obs sh' m = obs sh m"
      by (rule obs_cong) (use wf(3) [OF m] False fresh findvar_Some [OF assms(1) m] in \<open>auto simp: sh'\<close>)
    then show ?thesis using False by simp
  qed
  moreover have "var_kept sh sh' b" if "b \<in> var_nodes sh" "VSTRFIXED \<in> vflags (varmem sh b)" for b
    using that fresh [OF that(1)] wf(2) by (auto simp: var_kept_def) (auto simp: sh' text_of_def split: vartext.splits)
  moreover have "varmem sh' b = varmem sh b" if "b \<in> var_nodes sh" for b using fresh [OF that] by (simp add: sh')
  moreover have "lineno sh' = lineno sh" "linenovar sh' = linenovar sh" "localvar_stack sh' = localvar_stack sh"
    "optlist sh' = optlist sh" "shparam sh' = shparam sh" "nvars sh' = nvars sh + 1" by (simp_all add: sh')
  moreover have "var_nodes sh' \<subseteq> var_nodes sh \<union> {nvars sh..}" using wf(2) by auto
  ultimately show ?thesis using wf(1,2) unfolding assigns_def by simp
qed

lemma assigns_remove:
  assumes "var_wf sh" and "a \<in> var_nodes sh" and "var_key sh a = var_name s" and "cname s"
    and "VSTRFIXED \<notin> vflags (varmem sh a)"
    and "sh' = sh\<lparr>vartab := (vartab sh)[hashvar s := remove1 a (vartab sh ! hashvar s)]\<rparr>"
  shows "assigns (var_name s) None sh sh'"
proof -
  note wf = remove_var_wf [OF assms(1-4,6)]
  have key: "var_key sh' b = var_key sh b" for b by (simp add: assms(6) text_of_def split: vartext.splits)
  have "if var_name m = var_name s then map_option fst (obs sh' m) = None else obs sh' m = obs sh m" if m: "cname m" for m
  proof (cases "var_name m = var_name s")
    case True
    then show ?thesis using wf(3) [OF m] by (simp add: obs_def)
  next
    case False
    have "obs sh' m = obs sh m"
      by (rule obs_cong) (use wf(3) [OF m] False in \<open>auto simp: assms(6)\<close>)
    then show ?thesis using False by simp
  qed
  moreover have "varmem sh' = varmem sh" by (simp add: assms(6))
  moreover have "var_kept sh sh' b" if "b \<in> var_nodes sh" "VSTRFIXED \<in> vflags (varmem sh b)" for b
    using that assms(5) key [of b] wf(2) by (auto simp: var_kept_def assms(6))
  moreover have "lineno sh' = lineno sh" "linenovar sh' = linenovar sh" "localvar_stack sh' = localvar_stack sh"
    "optlist sh' = optlist sh" "shparam sh' = shparam sh" "nvars sh' = nvars sh" by (simp_all add: assms(6))
  moreover have "\<forall>b \<in> var_nodes sh. var_key sh b \<noteq> var_name s \<longrightarrow> b \<in> var_nodes sh'"
    using wf(2) assms(3) by auto
  ultimately show ?thesis using wf(1,2) unfolding assigns_def by auto
qed

text \<open>\<open>assigns\<close> only looks at fields that no callback changes.\<close>

lemma assigns_callback:
  assumes "assigns n v (sh\<lparr>optind := i, optoff := j, hooks := h\<rparr>) sh'"
  shows "assigns n v sh sh'"
  using assms unfolding assigns_def var_kept_def by (simp add: callback_same)

text \<open>What \<open>setvareq\<close> does on success, \<open>r\<close> being the pointer that it returns.\<close>

definition assigned :: "string \<Rightarrow> vflag set \<Rightarrow> nat option \<Rightarrow> shell \<Rightarrow> shell \<Rightarrow> bool" where
  "assigned s fl r sh sh' \<longleftrightarrow>
     assigns (var_name s) (if VUNSET \<in> fl then None else Some (varnull s)) sh sh' \<and>
     (VSTRFIXED \<in> fl \<longrightarrow> (\<exists>a. r = Some a \<and> a \<in> var_nodes sh' \<and> var_key sh' a = var_name s \<and>
                             VSTRFIXED \<in> vflags (varmem sh' a)))"

lemma set_new_assigned:
  assumes "var_wf sh" and "findvar s sh = None" and "text_ok fl s" and "(r, sh') = set_new s fl sh"
  shows "assigned s fl r sh sh'"
proof -
  have "assigns (var_name s) (if VUNSET \<in> fl then None else Some (varnull s)) sh sh'"
    by (rule assigns_new [OF assms(1-3)]) (simp flip: assms(4))
  moreover have "\<exists>a. r = Some a \<and> a \<in> var_nodes sh' \<and> var_key sh' a = var_name s \<and> VSTRFIXED \<in> vflags (varmem sh' a)"
    if fixed: "VSTRFIXED \<in> fl"
  proof -
    have "fl \<inter> keep_flags \<noteq> {VUNSET}" using fixed by (auto simp: keep_flags_def)
    then have sh': "sh' = sh\<lparr>nvars := nvars sh + 1, varmem := (varmem sh)(nvars sh := \<lparr>vflags = fl, vtext = Text s, vfunc = None\<rparr>),
        vartab := (vartab sh)[hashvar s := vartab sh ! hashvar s @ [nvars sh]]\<rparr>" and a: "r = Some (nvars sh)"
      using assms(4) by (simp_all add: set_new_def Let_def)
    show ?thesis
      using set_new_wf(2) [OF assms(1-3) sh'] fixed unfolding a by (simp add: sh' text_of_def)
  qed
  ultimately show ?thesis by (simp add: assigned_def)
qed

lemma set_existing_assigned:
  assumes "var_wf sh" and "a \<in> var_nodes sh" and "var_key sh a = var_name s" and "text_ok fl s"
    and "set_existing a s fl sh = Inr (r, sh')"
  shows "assigned s fl r sh sh'" and "VREADONLY \<notin> vflags (varmem sh a)"
proof -
  let ?old = "vflags (varmem sh a)"
  define f where "f = (if fl \<inter> keep_flags \<noteq> {VUNSET} then fl \<union> (?old - {VTEXTFIXED, VSTACK, VNOSAVE, VUNSET})
    else fl \<union> (?old \<inter> {VSTRFIXED}))"
  define g :: "var \<Rightarrow> var" where "g = (\<lambda>x. x\<lparr>vtext := Text s, vflags := f\<rparr>)"
  show ro: "VREADONLY \<notin> ?old" using assms(5) by (auto simp: set_existing_def Let_def split: if_splits)
  obtain sh1 where sh1: "call_varfunc (if VNOFUNC \<in> fl then None else vfunc (varmem sh a)) (varnull s) sh = Inr sh1"
    and out: "if fl \<inter> keep_flags \<noteq> {VUNSET} \<or> VSTRFIXED \<in> ?old
      then r = Some a \<and> sh' = sh1\<lparr>varmem := (varmem sh1)(a := (varmem sh1 a)\<lparr>vtext := Text s,
             vflags := (if fl \<inter> keep_flags \<noteq> {VUNSET} then fl \<union> (vflags (varmem sh1 a) - {VTEXTFIXED, VSTACK, VNOSAVE, VUNSET})
                        else fl \<union> (vflags (varmem sh1 a) \<inter> {VSTRFIXED}))\<rparr>)\<rparr>
      else r = Some a \<and> sh' = sh1\<lparr>vartab := (vartab sh1)[hashvar s := remove1 a (vartab sh1 ! hashvar s)]\<rparr>"
    using assms(5) ro unfolding set_existing_def Let_def
    by (cases "call_varfunc (if VNOFUNC \<in> fl then None else vfunc (varmem sh a)) (varnull s) sh")
      (auto simp: upd_var_def split: if_splits)
  obtain i j h where s1: "sh1 = sh\<lparr>optind := i, optoff := j, hooks := h\<rparr>" by (rule call_varfunc_shell [OF sh1])
  have wf1: "var_wf sh1" "a \<in> var_nodes sh1" "var_key sh1 a = var_name s" "varmem sh1 = varmem sh"
    using assms(1-3) callback_same unfolding s1 by simp_all
  have lift: "assigns (var_name s) v sh sh'" if "assigns (var_name s) v sh1 sh'" for v
    using that assigns_callback unfolding s1 by blast
  show "assigned s fl r sh sh'"
  proof (cases "fl \<inter> keep_flags \<noteq> {VUNSET} \<or> VSTRFIXED \<in> ?old")
    case True
    then have r: "r = Some a" "sh' = upd_var a g sh1" using out wf1(4) by (auto simp: f_def g_def upd_var_def)
    have u: "VUNSET \<in> f \<longleftrightarrow> VUNSET \<in> fl" "VSTRFIXED \<in> ?old \<longrightarrow> VSTRFIXED \<in> f" "fl \<subseteq> f" by (auto simp: f_def)
    have "text_ok f s" using assms(4) u(1) by (simp add: text_ok_def)
    then have "assigns (var_name s) (if VUNSET \<in> f then None else Some (varnull s)) sh1 sh'"
      by (rule assigns_upd [OF wf1(1-3)]) (use u(2) wf1(4) r(2) in \<open>auto simp: g_def\<close>)
    then show ?thesis
      using lift u(1,3) wf1(2) r(1) by (auto simp: assigned_def r(2) g_def upd_var_def text_of_def)
  next
    case False
    then have r: "sh' = sh1\<lparr>vartab := (vartab sh1)[hashvar s := remove1 a (vartab sh1 ! hashvar s)]\<rparr>" using out by auto
    have "assigns (var_name s) None sh1 sh'"
      by (rule assigns_remove [OF wf1(1-3) text_ok_cname [OF assms(4)] _ r]) (use False wf1(4) in simp)
    moreover have "VUNSET \<in> fl" "VSTRFIXED \<notin> fl" using False by (auto simp: keep_flags_def)
    ultimately show ?thesis using lift by (simp add: assigned_def)
  qed
qed

lemma setvareq_assigned:
  assumes "var_wf sh" and "text_ok flags s" and "setvareq s flags sh = Inr (r, sh')"
  shows "assigned s flags r sh sh'" and "\<And>a. findvar s sh = Some a \<Longrightarrow> VREADONLY \<notin> vflags (varmem sh a)"
proof -
  define fl where "fl = flags \<union> (if aflag sh = 1 then {VEXPORT} else {})"
  have fl: "VUNSET \<in> fl \<longleftrightarrow> VUNSET \<in> flags" "VSTRFIXED \<in> fl \<longleftrightarrow> VSTRFIXED \<in> flags" by (auto simp: fl_def)
  have ok: "text_ok fl s" using assms(2) fl(1) by (simp add: text_ok_def)
  note some = findvar_Some [OF assms(1) text_ok_cname [OF ok]]
  have run: "(case findvar s sh of Some a \<Rightarrow> set_existing a s fl sh | None \<Rightarrow> Inr (set_new s fl sh)) = Inr (r, sh')"
    using assms(3) unfolding setvareq_def Let_def fl_def [symmetric] by (cases "findvar s sh") simp_all
  have "assigned s fl r sh sh'"
    using run set_new_assigned [OF assms(1) _ ok] set_existing_assigned(1) [OF assms(1) _ _ ok] some
    by (cases "findvar s sh") auto
  then show "assigned s flags r sh sh'" by (simp add: assigned_def fl)
  show "VREADONLY \<notin> vflags (varmem sh a)" if "findvar s sh = Some a" for a
  proof -
    have "set_existing a s fl sh = Inr (r, sh')" using run that by simp
    moreover have "a \<in> var_nodes sh" "var_key sh a = var_name s" using that some by simp_all
    ultimately show ?thesis using set_existing_assigned(2) [OF assms(1) _ _ ok] by blast
  qed
qed

text \<open>\<open>setvar\<close>, and the two commands that it implements.\<close>

lemma setvar_assigned:
  assumes "var_wf sh" and "setvar name val flags sh = Inr (r, sh')" and "VUNSET \<notin> flags"
  shows "var_ok name" and "assigns (var_name name) val sh sh'"
    and "VSTRFIXED \<in> flags \<Longrightarrow>
      \<exists>a. r = Some a \<and> a \<in> var_nodes sh' \<and> var_key sh' a = var_name name \<and> VSTRFIXED \<in> vflags (varmem sh' a)"
    and "\<And>a. findvar name sh = Some a \<Longrightarrow> VREADONLY \<notin> vflags (varmem sh a)"
proof -
  show ok: "var_ok name" using setvar_bad [of name val flags sh] assms(2) by (cases "var_ok name") auto
  let ?n = "var_name name"
  let ?s = "?n @ (case val of None \<Rightarrow> [] | Some v \<Rightarrow> CHR ''='' # v)"
  let ?fl = "flags \<union> (if val = None then {VUNSET} else {}) \<union> {VNOSAVE}"
  have n: "cname name" "CHR ''='' \<notin> set ?n"
    using var_ok_cname [OF ok] by (auto simp: var_name_def dest: set_takeWhileD)
  have s: "var_name ?s = ?n" "val \<noteq> None \<longrightarrow> varnull ?s = the val" using n(2) by (auto split: option.splits)
  have ok': "text_ok ?fl ?s" using n(1) s(1) assms(3) by (auto simp: text_ok_def cname_def split: option.splits)
  have run: "setvareq ?s ?fl sh = Inr (r, sh')" using assms(2) setvar_ok [OF ok] by simp
  note res = setvareq_assigned [OF assms(1) ok' run]
  have "VUNSET \<in> ?fl \<longleftrightarrow> val = None" using assms(3) by auto
  then show "assigns ?n val sh sh'"
    using res(1) s unfolding assigned_def by (cases val) auto
  show "\<exists>a. r = Some a \<and> a \<in> var_nodes sh' \<and> var_key sh' a = ?n \<and> VSTRFIXED \<in> vflags (varmem sh' a)"
    if "VSTRFIXED \<in> flags"
    using that res(1) s(1) unfolding assigned_def by auto
  have "findvar ?s sh = findvar name sh"
    using findvar_key [OF assms(1) n(1)] findvar_key [OF assms(1) text_ok_cname [OF ok']] s(1) by simp
  then show "VREADONLY \<notin> vflags (varmem sh a)" if "findvar name sh = Some a" for a using res(2) that by simp
qed

lemma unsetvar_assigned:
  assumes "var_wf sh" and "unsetvar s sh = Inr sh'"
  shows "var_ok s" and "assigns (var_name s) None sh sh'"
  using assms setvar_assigned [OF assms(1), of s None "{}"] by (auto simp: unsetvar_def monad_simps)

section \<open>Saved variables\<close>

text \<open>
  The saved variables, the newest first: each points to a \<open>struct var\<close> that is in the table and
  fixed, under the name that was saved. If there is an older one for the same variable, the
  variable was fixed already when it was saved.
\<close>

fun saved_order :: "localvar list \<Rightarrow> bool" where
  "saved_order [] = True"
| "saved_order (lv # ls) =
     (saved_order ls \<and> (\<forall>a. lvp lv = Some a \<longrightarrow> (\<exists>x \<in> set ls. lvp x = Some a) \<longrightarrow> VSTRFIXED \<in> lflags lv))"

definition entry_ok :: "shell \<Rightarrow> localvar \<Rightarrow> bool" where
  "entry_ok sh lv \<longleftrightarrow> (\<forall>a. lvp lv = Some a \<longrightarrow> a \<in> var_nodes sh \<and> VSTRFIXED \<in> vflags (varmem sh a) \<and>
     (lflags lv \<noteq> {VUNSET} \<longrightarrow>
        var_name (text_of sh (ltext lv)) = var_key sh a \<and> text_ok (lflags lv) (text_of sh (ltext lv))))"

definition saved_ok :: "shell \<Rightarrow> localvar list \<Rightarrow> bool" where
  "saved_ok sh ls \<longleftrightarrow> saved_order ls \<and> (\<forall>lv \<in> set ls. entry_ok sh lv)"

definition shell_wf :: "shell \<Rightarrow> bool" where
  "shell_wf sh \<longleftrightarrow> var_wf sh \<and> saved_ok sh (concat (localvar_stack sh))"

text \<open>What a step keeps of the variables that \<open>ls\<close> has saved.\<close>

definition keeps_saved :: "localvar list \<Rightarrow> shell \<Rightarrow> shell \<Rightarrow> bool" where
  "keeps_saved ls sh sh' \<longleftrightarrow> lineno sh' = lineno sh \<and> linenovar sh' = linenovar sh \<and>
     (\<forall>lv \<in> set ls. \<forall>a. lvp lv = Some a \<longrightarrow> var_kept sh sh' a)"

lemma saved_ok_kept:
  assumes "saved_ok sh ls" and "keeps_saved ls sh sh'"
  shows "saved_ok sh' ls"
proof -
  have t: "text_of sh' x = text_of sh x" for x using assms(2) by (simp add: keeps_saved_def text_of_def split: vartext.splits)
  have "entry_ok sh' lv" if lv: "lv \<in> set ls" for lv
    unfolding entry_ok_def
  proof (intro allI impI)
    fix a assume a: "lvp lv = Some a"
    have "var_kept sh sh' a" using assms(2) lv a unfolding keeps_saved_def by blast
    moreover have "entry_ok sh lv" using assms(1) lv unfolding saved_ok_def by blast
    ultimately show "a \<in> var_nodes sh' \<and> VSTRFIXED \<in> vflags (varmem sh' a) \<and> (lflags lv \<noteq> {VUNSET} \<longrightarrow>
        var_name (text_of sh' (ltext lv)) = var_key sh' a \<and> text_ok (lflags lv) (text_of sh' (ltext lv)))"
      using a unfolding var_kept_def entry_ok_def t by simp
  qed
  then show ?thesis using assms(1) by (simp add: saved_ok_def)
qed

lemma assigns_keeps:
  assumes "assigns n v sh sh'" and "saved_ok sh ls"
  shows "keeps_saved ls sh sh'"
  using assms unfolding keeps_saved_def saved_ok_def entry_ok_def assigns_def by blast

lemma keeps_trans:
  assumes "keeps_saved ls s1 s2" and "keeps_saved ls s2 s3"
  shows "keeps_saved ls s1 s3"
  using assms unfolding keeps_saved_def var_kept_def by (metis (no_types, lifting))

lemma keeps_refl: "saved_ok sh ls \<Longrightarrow> keeps_saved ls sh sh"
  by (auto simp: keeps_saved_def var_kept_def saved_ok_def entry_ok_def)

lemma keeps_subset: "keeps_saved ls s1 s2 \<Longrightarrow> set ls' \<subseteq> set ls \<Longrightarrow> keeps_saved ls' s1 s2"
  by (auto simp: keeps_saved_def)

text \<open>What is seen of a variable after the saved ones have been put back: the oldest one counts.\<close>

definition saved_obs :: "shell \<Rightarrow> localvar \<Rightarrow> (string \<times> vflag set) option" where
  "saved_obs sh lv = (if VUNSET \<in> lflags lv then None else Some (var_value sh (the (lvp lv)) (ltext lv), lflags lv))"

definition saves :: "shell \<Rightarrow> string \<Rightarrow> localvar \<Rightarrow> bool" where
  "saves sh n lv = (case lvp lv of None \<Rightarrow> False | Some a \<Rightarrow> var_key sh a = n)"

definition restored :: "localvar list \<Rightarrow> shell \<Rightarrow> string \<Rightarrow> (string \<times> vflag set) option" where
  "restored ls sh m =
     (case find (saves sh (var_name m)) (rev ls) of None \<Rightarrow> obs sh m | Some lv \<Rightarrow> saved_obs sh lv)"

lemma find_append: "find P (xs @ ys) = (case find P xs of None \<Rightarrow> find P ys | Some x \<Rightarrow> Some x)"
  by (induction xs) auto

lemma saves_kept: "keeps_saved ls sh sh' \<Longrightarrow> lv \<in> set ls \<Longrightarrow> saves sh' n lv = saves sh n lv"
  by (auto simp: keeps_saved_def saves_def var_kept_def split: option.splits)

lemma saved_obs_kept: "keeps_saved ls sh sh' \<Longrightarrow> saved_obs sh' lv = saved_obs sh lv"
  by (auto simp: keeps_saved_def saved_obs_def var_value_def text_of_def split: vartext.splits)

text \<open>Once a name has an entry, what is restored is settled.\<close>

lemma restored_kept:
  assumes "keeps_saved ls sh sh'" and "find (saves sh (var_name m)) (rev ls) = Some lv"
  shows "restored (new @ ls) sh' m = saved_obs sh lv"
proof -
  have "find (saves sh' (var_name m)) (rev ls) = Some lv"
    using assms(2) saves_kept [OF assms(1)] by (subst find_cong [where Q = "saves sh (var_name m)"]) auto
  then show ?thesis using saved_obs_kept [OF assms(1)] by (simp add: restored_def find_append)
qed

text \<open>The two cases of \<open>restore_var\<close>: a variable that did not exist, and one that did.\<close>

lemma restore_new_var:
  assumes "var_wf sh" and "a \<in> var_nodes sh" and "saved_ok sh ls" and "\<forall>x \<in> set ls. lvp x \<noteq> Some a"
    and "unsetvar (vartext_at (upd_var a (\<lambda>x. x\<lparr>vflags := vflags x - {VSTRFIXED, VREADONLY}\<rparr>) sh) a)
      (upd_var a (\<lambda>x. x\<lparr>vflags := vflags x - {VSTRFIXED, VREADONLY}\<rparr>) sh) = Inr sh'"
  shows "var_wf sh' \<and> keeps_saved ls sh sh' \<and> localvar_stack sh' = localvar_stack sh \<and>
    (\<forall>m. cname m \<longrightarrow> obs sh' m = (if var_key sh a = var_name m then None else obs sh m))"
proof -
  let ?f = "\<lambda>x. x\<lparr>vflags := vflags x - {VSTRFIXED, VREADONLY}\<rparr>"
  define sh1 where "sh1 = upd_var a ?f sh"
  have t: "text_of sh1 x = text_of sh x" for x by (simp add: sh1_def upd_var_def text_of_def split: vartext.splits)
  have mem: "varmem sh1 b = (if b = a then ?f (varmem sh a) else varmem sh b)" for b by (simp add: sh1_def upd_var_def)
  have key: "vartext_at sh1 b = vartext_at sh b" for b unfolding t mem by simp
  have same: "lineno sh1 = lineno sh" "linenovar sh1 = linenovar sh" "localvar_stack sh1 = localvar_stack sh"
    "vartab sh1 = vartab sh" by (simp_all add: sh1_def upd_var_def)
  have "text_ok (vflags (varmem sh a)) (vartext_at sh a)" using assms(1,2) by (auto simp: var_wf_def)
  then have "text_ok (vflags (?f (varmem sh a))) (text_of sh (vtext (?f (varmem sh a))))" by (simp add: text_ok_def)
  note wf = upd_var_wf [where f = ?f, OF assms(1,2) _ this, folded sh1_def, simplified]
  have "keeps_saved ls sh sh1"
    using keeps_refl [OF assms(3)] assms(4) unfolding keeps_saved_def var_kept_def key same mem by (auto simp: t)
  moreover note un = unsetvar_assigned(2) [OF wf(1) assms(5) [folded sh1_def], unfolded key]
  moreover have "saved_ok sh1 ls" by (rule saved_ok_kept [OF assms(3)]) fact
  ultimately have "keeps_saved ls sh sh'" using assigns_keeps keeps_trans by blast
  moreover have "obs sh' m = (if var_key sh a = var_name m then None else obs sh m)" if m: "cname m" for m
  proof (cases "var_key sh a = var_name m")
    case True
    then show ?thesis using un m by (auto simp: assigns_def)
  next
    case False
    have "obs sh1 m = obs sh m"
      by (rule obs_cong [OF wf(2) [OF m]]) (use same mem False findvar_Some [OF assms(1) m] in auto)
    then show ?thesis using un m False by (auto simp: assigns_def)
  qed
  ultimately show ?thesis using un same by (simp add: assigns_def)
qed

lemma restore_old_var:
  assumes "var_wf sh" and "a \<in> var_nodes sh" and "saved_ok sh ls"
    and "var_name (text_of sh t) = var_key sh a \<and> text_ok fl (text_of sh t)"
    and "(\<exists>x \<in> set ls. lvp x = Some a) \<longrightarrow> VSTRFIXED \<in> fl"
    and "call_varfunc g val sh = Inr sh1" and "sh' = upd_var a (\<lambda>x. x\<lparr>vflags := fl, vtext := t\<rparr>) sh1"
  shows "var_wf sh' \<and> keeps_saved ls sh sh' \<and> localvar_stack sh' = localvar_stack sh \<and>
    (\<forall>m. cname m \<longrightarrow> obs sh' m =
      (if var_key sh a = var_name m then if VUNSET \<in> fl then None else Some (var_value sh a t, fl) else obs sh m))"
proof -
  let ?f = "\<lambda>x. x\<lparr>vflags := fl, vtext := t\<rparr>"
  obtain i j h where s1: "sh1 = sh\<lparr>optind := i, optoff := j, hooks := h\<rparr>" by (rule call_varfunc_shell [OF assms(6)])
  have t1: "text_of sh1 x = text_of sh x" for x unfolding s1 by (rule callback_same(5))
  have t: "text_of sh' x = text_of sh x" for x using t1 [of x] by (simp add: assms(7) upd_var_def text_of_def split: vartext.splits)
  have mem: "varmem sh' b = (if b = a then ?f (varmem sh a) else varmem sh b)" for b by (simp add: assms(7) s1 upd_var_def)
  have same: "lineno sh' = lineno sh" "linenovar sh' = linenovar sh" "localvar_stack sh' = localvar_stack sh"
    "vartab sh' = vartab sh" by (simp_all add: assms(7) s1 upd_var_def)
  have "var_wf sh1" "a \<in> var_nodes sh1" "var_name (text_of sh1 (vtext (?f (varmem sh1 a)))) = var_key sh1 a"
    "text_ok (vflags (?f (varmem sh1 a))) (text_of sh1 (vtext (?f (varmem sh1 a))))"
    using assms(1,2,4) unfolding t1 by (simp_all add: s1 callback_same)
  note wf = upd_var_wf [where f = ?f, OF this, folded assms(7)]
  have find: "findvar m sh' = findvar m sh" if "cname m" for m using wf(2) [OF that] by (simp add: s1 callback_same)
  have key: "var_key sh' b = var_key sh b" for b using assms(4) unfolding t mem by simp
  have "keeps_saved ls sh sh'"
    using keeps_refl [OF assms(3)] assms(4,5) unfolding keeps_saved_def var_kept_def key same mem by (auto simp: t)
  moreover have "obs sh' m = (if var_key sh a = var_name m then if VUNSET \<in> fl then None else Some (var_value sh a t, fl)
      else obs sh m)" if m: "cname m" for m
  proof (cases "var_key sh a = var_name m")
    case True
    then have "findvar m sh = Some a" using findvar_Some [OF assms(1) m] assms(2) by simp
    then show ?thesis using True find [OF m] by (simp add: obs_def mem var_value_def t same)
  next
    case False
    have "obs sh' m = obs sh m"
      by (rule obs_cong [OF find [OF m]]) (use same mem False findvar_Some [OF assms(1) m] in auto)
    then show ?thesis using False by simp
  qed
  ultimately show ?thesis using wf(1) same by simp
qed

lemma restore_var_step:
  assumes "var_wf sh" and "saved_ok sh (lv # ls)" and "restore_var lv sh = Inr sh'"
  shows "var_wf sh'" and "keeps_saved ls sh sh'" and "localvar_stack sh' = localvar_stack sh"
    and "\<And>m. cname m \<Longrightarrow> obs sh' m = (if saves sh (var_name m) lv then saved_obs sh lv else obs sh m)"
proof -
  have ls: "saved_ok sh ls" using assms(2) by (simp add: saved_ok_def)
  have "var_wf sh' \<and> keeps_saved ls sh sh' \<and> localvar_stack sh' = localvar_stack sh \<and>
    (\<forall>m. cname m \<longrightarrow> obs sh' m = (if saves sh (var_name m) lv then saved_obs sh lv else obs sh m))"
  proof (cases "lvp lv")
    case None
    then have sh': "sh' = sh\<lparr>optlist := loptlist lv\<rparr>" using assms(3) by (simp add: restore_var_def)
    have t: "text_of sh' x = text_of sh x" for x by (simp add: sh' text_of_def split: vartext.splits)
    have f: "findvar m sh' = findvar m sh" for m unfolding findvar_def t by (simp add: sh')
    have "var_wf sh'" using assms(1) unfolding var_wf_def t by (simp add: sh')
    moreover have "keeps_saved ls sh sh'"
      using keeps_refl [OF ls] unfolding keeps_saved_def var_kept_def t by (simp add: sh')
    moreover have "obs sh' m = obs sh m" for m by (rule obs_cong [OF f]) (simp_all add: sh')
    ultimately show ?thesis using None by (simp add: sh' saves_def)
  next
    case (Some a)
    have a: "a \<in> var_nodes sh" "VSTRFIXED \<in> vflags (varmem sh a)"
      "lflags lv \<noteq> {VUNSET} \<Longrightarrow> var_name (text_of sh (ltext lv)) = var_key sh a \<and> text_ok (lflags lv) (text_of sh (ltext lv))"
      using assms(2) Some by (simp_all add: saved_ok_def entry_ok_def)
    show ?thesis
    proof (cases "lflags lv = {VUNSET}")
      case True
      have "unsetvar (vartext_at (upd_var a (\<lambda>x. x\<lparr>vflags := vflags x - {VSTRFIXED, VREADONLY}\<rparr>) sh) a)
          (upd_var a (\<lambda>x. x\<lparr>vflags := vflags x - {VSTRFIXED, VREADONLY}\<rparr>) sh) = Inr sh'"
        using assms(3) Some True by (simp add: restore_var_def Let_def)
      moreover have "\<forall>x \<in> set ls. lvp x \<noteq> Some a" using assms(2) Some True by (auto simp: saved_ok_def)
      ultimately show ?thesis
        using restore_new_var [OF assms(1) a(1) ls] Some True by (simp add: saves_def saved_obs_def)
    next
      case False
      obtain sh1 where run: "call_varfunc (vfunc (varmem sh a)) (varnull (text_of sh (ltext lv))) sh = Inr sh1"
        and upd: "sh' = upd_var a (\<lambda>x. x\<lparr>vflags := lflags lv, vtext := ltext lv\<rparr>) sh1"
        using assms(3) Some False by (auto simp: restore_var_def monad_simps)
      have older: "(\<exists>x \<in> set ls. lvp x = Some a) \<longrightarrow> VSTRFIXED \<in> lflags lv"
        using assms(2) Some by (simp add: saved_ok_def)
      show ?thesis
        using restore_old_var [OF assms(1) a(1) ls a(3) [OF False] older run upd] Some by (simp add: saves_def saved_obs_def)
    qed
  qed
  then show "var_wf sh'" "keeps_saved ls sh sh'" "localvar_stack sh' = localvar_stack sh"
    "\<And>m. cname m \<Longrightarrow> obs sh' m = (if saves sh (var_name m) lv then saved_obs sh lv else obs sh m)" by blast+
qed

text \<open>The loop of \<open>poplocalvars\<close>.\<close>

lemma restore_all:
  assumes "foldE restore_var ls sh = Inr sh'" and "var_wf sh" and "saved_ok sh (ls @ older)"
  shows "var_wf sh' \<and> keeps_saved older sh sh' \<and> localvar_stack sh' = localvar_stack sh \<and>
    (\<forall>m. cname m \<longrightarrow> obs sh' m = restored ls sh m)"
  using assms
proof (induction ls arbitrary: sh)
  case Nil
  then show ?case by (simp add: restored_def keeps_refl)
next
  case (Cons lv ls)
  obtain s1 where s1: "restore_var lv sh = Inr s1" "foldE restore_var ls s1 = Inr sh'"
    using Cons.prems(1) by (auto simp: monad_simps)
  note step = restore_var_step [OF Cons.prems(2) _ s1(1), of "ls @ older"]
  have ok: "saved_ok sh (lv # ls @ older)" using Cons.prems(3) by simp
  have kept: "keeps_saved (ls @ older) sh s1" by (rule step(2) [OF ok])
  have "saved_ok sh (ls @ older)" using ok by (simp add: saved_ok_def)
  from saved_ok_kept [OF this kept] have ih: "var_wf sh' \<and> keeps_saved older s1 sh' \<and> localvar_stack sh' = localvar_stack s1 \<and>
      (\<forall>m. cname m \<longrightarrow> obs sh' m = restored ls s1 m)"
    by (rule Cons.IH [OF s1(2) step(1) [OF ok]])
  have "obs sh' m = restored (lv # ls) sh m" if m: "cname m" for m
  proof -
    have "find (saves s1 (var_name m)) (rev ls) = find (saves sh (var_name m)) (rev ls)"
      using saves_kept [OF kept] by (intro find_cong) simp
    moreover have "saved_obs s1 x = saved_obs sh x" for x by (rule saved_obs_kept [OF kept])
    ultimately have "restored ls s1 m = restored (lv # ls) sh m"
      using step(4) [OF ok m] by (simp add: restored_def find_append split: option.splits)
    then show ?thesis using ih m by simp
  qed
  moreover have "keeps_saved older sh sh'"
    using ih keeps_trans [of older sh s1 sh'] keeps_subset [OF kept, of older] by simp
  ultimately show ?case using ih step(3) [OF ok] by simp
qed

text \<open>The frames are not looked at by the table.\<close>

lemma frames_same:
  "var_wf (sh\<lparr>localvar_stack := st\<rparr>) = var_wf sh"
  "saved_ok (sh\<lparr>localvar_stack := st\<rparr>) ls = saved_ok sh ls"
  "keeps_saved ls (sh\<lparr>localvar_stack := st\<rparr>) sh' = keeps_saved ls sh sh'"
  "keeps_saved ls sh' (sh\<lparr>localvar_stack := st\<rparr>) = keeps_saved ls sh' sh"
  "obs (sh\<lparr>localvar_stack := st\<rparr>) m = obs sh m"
  "saves (sh\<lparr>localvar_stack := st\<rparr>) = saves sh"
  "saved_obs (sh\<lparr>localvar_stack := st\<rparr>) = saved_obs sh"
proof -
  let ?s = "sh\<lparr>localvar_stack := st\<rparr>"
  have t: "text_of ?s x = text_of sh x" for x by (simp add: text_of_def split: vartext.splits)
  have f: "findvar m ?s = findvar m sh" for m unfolding findvar_def t by simp
  show "var_wf ?s = var_wf sh" "saved_ok ?s ls = saved_ok sh ls" "keeps_saved ls ?s sh' = keeps_saved ls sh sh'"
    "keeps_saved ls sh' ?s = keeps_saved ls sh' sh"
    unfolding var_wf_def saved_ok_def entry_ok_def keeps_saved_def var_kept_def t by simp_all
  show "obs ?s m = obs sh m" by (rule obs_cong [OF f]) simp_all
  show "saves ?s = saves sh" "saved_obs ?s = saved_obs sh"
    by (auto simp: saves_def saved_obs_def var_value_def t fun_eq_iff split: option.splits)
qed

lemma poplocalvars_step:
  assumes "shell_wf sh" and "localvar_stack sh = ll # lls" and "poplocalvars sh = Inr sh'"
  shows "shell_wf sh'" and "localvar_stack sh' = lls" and "keeps_saved (concat lls) sh sh'"
    and "\<And>m. cname m \<Longrightarrow> obs sh' m = restored ll sh m"
proof -
  let ?s = "sh\<lparr>localvar_stack := lls\<rparr>"
  have "foldE restore_var ll ?s = Inr sh'" using assms(2,3) by (simp add: poplocalvars_def)
  moreover have "var_wf sh" "saved_ok sh (ll @ concat lls)" using assms(1,2) by (simp_all add: shell_wf_def)
  moreover have "restored ll ?s m = restored ll sh m" for m unfolding restored_def frames_same ..
  ultimately have *: "var_wf sh' \<and> keeps_saved (concat lls) sh sh' \<and> localvar_stack sh' = lls \<and>
      (\<forall>m. cname m \<longrightarrow> obs sh' m = restored ll sh m)"
    using restore_all [of ll ?s sh' "concat lls"] by (simp add: frames_same)
  then show "localvar_stack sh' = lls" "keeps_saved (concat lls) sh sh'"
    "\<And>m. cname m \<Longrightarrow> obs sh' m = restored ll sh m" by blast+
  have "saved_ok sh (concat lls)" using \<open>saved_ok sh (ll @ concat lls)\<close>
    by (induction ll) (auto simp: saved_ok_def)
  then show "shell_wf sh'" using * saved_ok_kept unfolding shell_wf_def by blast
qed

section \<open>What a function body does\<close>

text \<open>
  The commands of a function body that change variables, and calls of other functions in it:
  each pushes a frame, runs a body and pops the frame.
\<close>

inductive var_cmd :: "shell \<Rightarrow> shell \<Rightarrow> bool" where
  assign: "setvar name val flags sh = Inr (r, sh') \<Longrightarrow> VUNSET \<notin> flags \<Longrightarrow> var_cmd sh sh'"
| export: "export_name flag name sh = Inr sh' \<Longrightarrow> flag = VEXPORT \<or> flag = VREADONLY \<Longrightarrow> cname name \<Longrightarrow> var_cmd sh sh'"
| local: "mklocal {} name sh = Inr sh' \<Longrightarrow> name = ''-'' \<or> var_ok name \<Longrightarrow> var_cmd sh sh'"

inductive var_run :: "shell \<Rightarrow> shell \<Rightarrow> bool" where
  nothing: "var_run sh sh"
| command: "var_cmd sh s1 \<Longrightarrow> var_run s1 s2 \<Longrightarrow> var_run sh s2"
| call: "var_run (snd (pushlocalvars True sh)) s1 \<Longrightarrow> poplocalvars s1 = Inr s2 \<Longrightarrow> var_run s2 s3 \<Longrightarrow> var_run sh s3"

text \<open>The frames below the top one stay, and the top one gets new entries at the front.\<close>

definition frames_grow :: "localvar list list \<Rightarrow> localvar list list \<Rightarrow> bool" where
  "frames_grow st st' \<longleftrightarrow> (case st of [] \<Rightarrow> st' = [] | ll # lls \<Rightarrow> \<exists>new. st' = (new @ ll) # lls)"

lemma frames_grow_refl: "frames_grow st st"
  by (auto simp: frames_grow_def split: list.splits)

lemma frames_grow_trans: "frames_grow a b \<Longrightarrow> frames_grow b c \<Longrightarrow> frames_grow a c"
  by (auto simp: frames_grow_def split: list.splits)

definition run_ok :: "shell \<Rightarrow> shell \<Rightarrow> bool" where
  "run_ok sh sh' \<longleftrightarrow> shell_wf sh' \<and> frames_grow (localvar_stack sh) (localvar_stack sh') \<and>
     keeps_saved (concat (localvar_stack sh)) sh sh'"

lemma run_ok_trans:
  assumes "run_ok a b" and "run_ok b c" shows "run_ok a c"
proof -
  have "set (concat (localvar_stack a)) \<subseteq> set (concat (localvar_stack b))"
    using assms(1) by (auto simp: run_ok_def frames_grow_def split: list.splits)
  then show ?thesis
    using assms frames_grow_trans keeps_trans keeps_subset unfolding run_ok_def by meson
qed

lemma assigns_run_ok: "shell_wf sh \<Longrightarrow> assigns n v sh sh' \<Longrightarrow> run_ok sh sh'"
  unfolding run_ok_def shell_wf_def
  using assigns_keeps saved_ok_kept frames_grow_refl by (metis assigns_def)

text \<open>Flags other than \<open>VUNSET\<close> are set for a variable.\<close>

lemma add_flags_step:
  assumes "var_wf sh" and "a \<in> var_nodes sh" and "VUNSET \<notin> F" and "sh' = upd_var a (\<lambda>x. x\<lparr>vflags := vflags x \<union> F\<rparr>) sh"
  shows "var_wf sh'" and "lineno sh' = lineno sh" "linenovar sh' = linenovar sh" "vartab sh' = vartab sh"
    and "localvar_stack sh' = localvar_stack sh" and "vartext_at sh' b = vartext_at sh b"
    and "saved_ok sh ls \<Longrightarrow> keeps_saved ls sh sh'"
proof -
  let ?f = "\<lambda>x. x\<lparr>vflags := vflags x \<union> F\<rparr>"
  have t: "text_of sh' x = text_of sh x" for x by (simp add: assms(4) upd_var_def text_of_def split: vartext.splits)
  have mem: "varmem sh' b = (if b = a then ?f (varmem sh a) else varmem sh b)" for b by (simp add: assms(4) upd_var_def)
  show same: "lineno sh' = lineno sh" "linenovar sh' = linenovar sh" "vartab sh' = vartab sh"
    "localvar_stack sh' = localvar_stack sh" by (simp_all add: assms(4) upd_var_def)
  show same_text: "vartext_at sh' b = vartext_at sh b" for b unfolding t mem by simp
  have "text_ok (vflags (varmem sh a)) (vartext_at sh a)" using assms(1,2) by (auto simp: var_wf_def)
  then have "text_ok (vflags (?f (varmem sh a))) (text_of sh (vtext (?f (varmem sh a))))"
    using assms(3) by (auto simp: text_ok_def)
  then show "var_wf sh'" using upd_var_wf(1) [where f = ?f, OF assms(1,2)] assms(4) by simp
  have "var_kept sh sh' b" if "b \<in> var_nodes sh" "VSTRFIXED \<in> vflags (varmem sh b)" for b
    using that unfolding var_kept_def same_text same by (auto simp: mem)
  then show "keeps_saved ls sh sh'" if "saved_ok sh ls"
    using that same unfolding keeps_saved_def saved_ok_def entry_ok_def by blast
qed

lemma export_run_ok:
  assumes "shell_wf sh" and "export_name flag name sh = Inr sh'" and "flag = VEXPORT \<or> flag = VREADONLY" and "cname name"
  shows "run_ok sh sh'"
proof (cases "CHR ''='' \<notin> set name \<and> findvar name sh \<noteq> None")
  case True
  then obtain a where a: "findvar name sh = Some a" by blast
  have wf: "var_wf sh" and saved: "saved_ok sh (concat (localvar_stack sh))" using assms(1) by (simp_all add: shell_wf_def)
  have "sh' = upd_var a (\<lambda>x. x\<lparr>vflags := vflags x \<union> {flag}\<rparr>) sh" using assms(2) True a by (simp add: export_name_def)
  note step = add_flags_step [OF wf _ _ this]
  have "a \<in> var_nodes sh" using a findvar_Some [OF wf assms(4)] by simp
  moreover have "VUNSET \<notin> {flag}" using assms(3) by auto
  ultimately show ?thesis
    using step saved saved_ok_kept [OF saved] frames_grow_refl by (simp add: run_ok_def shell_wf_def)
next
  case False
  then obtain r val where run: "setvar name val {flag} sh = Inr (r, sh')"
    using assms(2) by (auto simp: export_name_def monad_simps split: if_splits option.splits)
  moreover have "VUNSET \<notin> {flag}" "var_wf sh" using assms(1,3) by (auto simp: shell_wf_def)
  ultimately show ?thesis using setvar_assigned(2) assigns_run_ok [OF assms(1)] by blast
qed

text \<open>What \<open>save_var\<close> leaves for \<open>mklocal\<close> to push.\<close>

definition saved_var :: "shell \<Rightarrow> string \<Rightarrow> localvar \<Rightarrow> shell \<Rightarrow> bool" where
  "saved_var sh name lv s1 \<longleftrightarrow> var_wf s1 \<and> localvar_stack s1 = localvar_stack sh \<and>
     saved_ok s1 (lv # concat (localvar_stack sh)) \<and> keeps_saved (concat (localvar_stack sh)) sh s1 \<and>
     saves s1 (var_name name) lv \<and> saved_obs s1 lv = obs sh name"

lemma save_new:
  assumes "shell_wf sh" and "cname name" and "findvar name sh = None" and "assigns (var_name name) v sh s1"
    and "a \<in> var_nodes s1" and "var_key s1 a = var_name name" and "VSTRFIXED \<in> vflags (varmem s1 a)"
  shows "saved_var sh name \<lparr>lvp = Some a, lflags = {VUNSET}, ltext = Text [], loptlist = []\<rparr> s1"
proof -
  let ?ls = "concat (localvar_stack sh)"
  have wf: "var_wf sh" and saved: "saved_ok sh ?ls" using assms(1) by (simp_all add: shell_wf_def)
  have keeps: "keeps_saved ?ls sh s1" by (rule assigns_keeps [OF assms(4) saved])
  have "lvp x \<noteq> Some a" if "x \<in> set ?ls" for x
  proof
    assume "lvp x = Some a"
    then have "a \<in> var_nodes sh" "var_key sh a = var_name name"
      using that saved keeps assms(6) unfolding saved_ok_def entry_ok_def keeps_saved_def var_kept_def by auto
    then show False using assms(3) findvar_None [OF wf assms(2)] by blast
  qed
  then show ?thesis
    using saved_ok_kept [OF saved keeps] keeps assms(3-7)
    by (auto simp: saved_var_def assigns_def saved_ok_def entry_ok_def saves_def saved_obs_def obs_def)
qed

lemma save_old:
  assumes "shell_wf sh" and "cname name" and "findvar name sh = Some a"
    and "s0 = upd_var a (\<lambda>x. x\<lparr>vflags := vflags x \<union> {VSTRFIXED, VTEXTFIXED}\<rparr>) sh"
    and "s1 = s0 \<or> assigns (var_name name) v s0 s1"
  shows "saved_var sh name \<lparr>lvp = Some a, lflags = vflags (varmem sh a), ltext = vtext (varmem sh a), loptlist = []\<rparr> s1"
proof -
  let ?ls = "concat (localvar_stack sh)"
  have wf: "var_wf sh" and saved: "saved_ok sh ?ls" using assms(1) by (simp_all add: shell_wf_def)
  have a: "a \<in> var_nodes sh" "var_key sh a = var_name name" using assms(3) findvar_Some [OF wf assms(2)] by simp_all
  note step = add_flags_step [OF wf a(1) _ assms(4), simplified]
  have s0: "var_kept sh s0 a" using a(1) unfolding var_kept_def step by (simp add: assms(4) upd_var_def)
  have keeps0: "keeps_saved ?ls sh s0" by (rule step(7) [OF saved])
  have "var_wf s1 \<and> localvar_stack s1 = localvar_stack sh \<and> lineno s1 = lineno sh \<and> linenovar s1 = linenovar sh \<and>
      var_kept sh s1 a \<and> keeps_saved ?ls sh s1"
  proof (cases "s1 = s0")
    case True
    then show ?thesis using step s0 keeps0 by simp
  next
    case False
    then have as: "assigns (var_name name) v s0 s1" using assms(5) by blast
    have "keeps_saved ?ls sh s1"
      by (rule keeps_trans [OF keeps0 assigns_keeps [OF as saved_ok_kept [OF saved keeps0]]])
    moreover have "var_kept sh s1 a" using as s0 unfolding assigns_def var_kept_def by (metis (no_types, lifting))
    ultimately show ?thesis using as step(2-5) unfolding assigns_def by simp
  qed
  moreover from this have t: "text_of s1 x = text_of sh x" for x by (simp add: text_of_def split: vartext.splits)
  moreover have "text_ok (vflags (varmem sh a)) (vartext_at sh a)" using wf a(1) by (auto simp: var_wf_def)
  ultimately have "entry_ok s1 \<lparr>lvp = Some a, lflags = vflags (varmem sh a), ltext = vtext (varmem sh a), loptlist = []\<rparr>"
    by (simp add: entry_ok_def var_kept_def)
  moreover have "VSTRFIXED \<in> vflags (varmem sh a)" if "x \<in> set ?ls" "lvp x = Some a" for x
    using that saved unfolding saved_ok_def entry_ok_def by blast
  ultimately show ?thesis
    using \<open>var_wf s1 \<and> _\<close> saved_ok_kept [OF saved] a assms(3)
    by (auto simp: saved_var_def saved_ok_def saves_def saved_obs_def obs_def var_kept_def var_value_def t)
qed

lemma save_var_step:
  assumes "shell_wf sh" and "save_var name {} sh = Inr (lv, s1)" and "var_ok name"
  shows "saved_var sh name lv s1"
proof -
  have wf: "var_wf sh" using assms(1) by (simp add: shell_wf_def)
  have c: "cname name" by (rule var_ok_cname [OF assms(3)])
  have minus: "name \<noteq> ''-''" using assms(3) by (auto simp: var_ok_def var_name_def endofname_def is_name_def isalpha_def less_eq_char_def)
  have ok: "text_ok fl name" if "CHR ''='' \<in> set name" for fl using c that by (simp add: text_ok_def)
  show ?thesis
  proof (cases "findvar name sh")
    case None
    obtain vp where run: "(if CHR ''='' \<in> set name then setvareq name {VSTRFIXED} sh else setvar name None {VSTRFIXED} sh) = Inr (vp, s1)"
      and lv: "lv = \<lparr>lvp = vp, lflags = {VUNSET}, ltext = Text [], loptlist = []\<rparr>"
      using assms(2) None minus by (auto simp: save_var_def monad_simps cong: if_cong)
    have "\<exists>v a. assigns (var_name name) v sh s1 \<and> vp = Some a \<and> a \<in> var_nodes s1 \<and> var_key s1 a = var_name name \<and>
        VSTRFIXED \<in> vflags (varmem s1 a)"
      using run setvareq_assigned(1) [OF wf ok, of "{VSTRFIXED}"] setvar_assigned(2,3) [OF wf, of name None "{VSTRFIXED}"]
      by (cases "CHR ''='' \<in> set name") (auto simp: assigned_def)
    then show ?thesis using save_new [OF assms(1) c None] lv by blast
  next
    case (Some a)
    define s0 where "s0 = upd_var a (\<lambda>x. x\<lparr>vflags := vflags x \<union> {VSTRFIXED, VTEXTFIXED}\<rparr>) sh"
    have node: "a \<in> var_nodes sh" using Some findvar_Some [OF wf c] by simp
    note wf0 = add_flags_step(1) [OF wf node _ s0_def, simplified]
    have run: "lv = \<lparr>lvp = Some a, lflags = vflags (varmem sh a), ltext = vtext (varmem sh a), loptlist = []\<rparr>"
      "if CHR ''='' \<in> set name then \<exists>r. setvareq name {} s0 = Inr (r, s1) else s1 = s0"
      using assms(2) Some minus by (auto simp: save_var_def monad_simps s0_def Let_def split: if_splits)
    have "s1 = s0 \<or> assigns (var_name name) (Some (varnull name)) s0 s1"
      using run(2) setvareq_assigned(1) [OF wf0 ok, of "{}"] by (auto simp: assigned_def split: if_splits)
    then show ?thesis using save_old [OF assms(1) c Some s0_def] run(1) by blast
  qed
qed

lemma mklocal_step:
  assumes "shell_wf sh" and "mklocal {} name sh = Inr sh'" and "var_ok name"
  obtains lv ll lls where "localvar_stack sh = ll # lls" "localvar_stack sh' = (lv # ll) # lls" "run_ok sh sh'"
    "saves sh' (var_name name) lv" "saved_obs sh' lv = obs sh name"
proof -
  obtain lv s1 where run: "save_var name {} sh = Inr (lv, s1)"
    and stack: "(case localvar_stack s1 of [] \<Rightarrow> Inl Sh_undefined | ll # lls \<Rightarrow> Inr (s1\<lparr>localvar_stack := (lv # ll) # lls\<rparr>)) = Inr sh'"
    using assms(2) by (auto simp: mklocal_def monad_simps)
  have saved: "saved_var sh name lv s1" by (rule save_var_step [OF assms(1) run assms(3)])
  then obtain ll lls where ll: "localvar_stack sh = ll # lls" and sh': "sh' = s1\<lparr>localvar_stack := (lv # ll) # lls\<rparr>"
    using stack by (cases "localvar_stack sh") (auto simp: saved_var_def)
  have "run_ok sh sh'"
    using saved unfolding run_ok_def shell_wf_def sh' frames_same
    by (auto simp: saved_var_def ll frames_grow_def)
  moreover have "saves sh' (var_name name) lv" "saved_obs sh' lv = obs sh name"
    using saved unfolding sh' frames_same by (simp_all add: saved_var_def)
  moreover have "localvar_stack sh' = (lv # ll) # lls" by (simp add: sh')
  ultimately show ?thesis using that ll by blast
qed

lemma var_cmd_ok: "var_cmd sh sh' \<Longrightarrow> shell_wf sh \<Longrightarrow> run_ok sh sh'"
proof (induction rule: var_cmd.induct)
  case (assign name val flags sh r sh')
  then show ?case using setvar_assigned(2) assigns_run_ok shell_wf_def by blast
next
  case (export flag name sh sh')
  then show ?case using export_run_ok by blast
next
  case (local name sh sh')
  show ?case
  proof (cases "name = ''-''")
    case True
    define lv where "lv = \<lparr>lvp = None, lflags = {}, ltext = Text [], loptlist = optlist sh\<rparr>"
    obtain ll lls where ll: "localvar_stack sh = ll # lls" and sh': "sh' = sh\<lparr>localvar_stack := (lv # ll) # lls\<rparr>"
      using local(1) True by (auto simp: mklocal_def save_var_def monad_simps lv_def split: list.splits)
    have "saved_ok sh (concat (localvar_stack sh))" "var_wf sh" using local(3) by (simp_all add: shell_wf_def)
    then have "saved_ok sh (concat ((lv # ll) # lls))" using ll by (simp add: saved_ok_def entry_ok_def lv_def)
    then show ?thesis
      using \<open>var_wf sh\<close> keeps_refl [OF \<open>saved_ok sh (concat (localvar_stack sh))\<close>]
      unfolding run_ok_def shell_wf_def sh' frames_same by (auto simp: frames_grow_def ll)
  next
    case False
    then show ?thesis using local mklocal_step by metis
  qed
qed

lemma pushlocalvars_ok:
  "shell_wf sh \<Longrightarrow> shell_wf (snd (pushlocalvars True sh))"
  "keeps_saved ls (snd (pushlocalvars True sh)) s1 = keeps_saved ls sh s1"
  "localvar_stack (snd (pushlocalvars True sh)) = [] # localvar_stack sh"
  by (simp_all add: pushlocalvars_def shell_wf_def frames_same)

lemma var_run_ok: "var_run sh sh' \<Longrightarrow> shell_wf sh \<Longrightarrow> run_ok sh sh'"
proof (induction rule: var_run.induct)
  case (nothing sh)
  then show ?case by (simp add: run_ok_def frames_grow_refl keeps_refl shell_wf_def)
next
  case (command sh s1 s2)
  then show ?case using var_cmd_ok run_ok_trans run_ok_def by metis
next
  case (call sh s1 s2 s3)
  let ?p = "snd (pushlocalvars True sh)"
  have run: "run_ok ?p s1" using call pushlocalvars_ok(1) by blast
  then obtain new where new: "localvar_stack s1 = new # localvar_stack sh"
    by (auto simp: run_ok_def frames_grow_def pushlocalvars_ok)
  have "shell_wf s1" using run by (simp add: run_ok_def)
  note pop = poplocalvars_step [OF this new call.hyps(2)]
  have "keeps_saved (concat (localvar_stack sh)) sh s1" using run by (simp add: run_ok_def pushlocalvars_ok)
  then have "run_ok sh s2" using pop keeps_trans by (auto simp: run_ok_def frames_grow_refl)
  then show ?case using call.IH(2) pop(1) run_ok_trans by blast
qed

section \<open>The start of the shell\<close>

lemma link_all:
  assumes "chain_wf hashvar VTABSIZE (var_key sh) (vartab sh)" and "distinct (map (var_key sh) as)"
    and "\<forall>a \<in> set as. cname (vartext_at sh a) \<and> (\<forall>b \<in> var_nodes sh. var_key sh b \<noteq> var_key sh a)"
  shows "chain_wf hashvar VTABSIZE (var_key sh) (vartab (fold link_var as sh)) \<and>
    var_nodes (fold link_var as sh) = var_nodes sh \<union> set as \<and> varmem (fold link_var as sh) = varmem sh \<and>
    nvars (fold link_var as sh) = nvars sh \<and> linenovar (fold link_var as sh) = linenovar sh \<and>
    localvar_stack (fold link_var as sh) = localvar_stack sh"
  using assms
proof (induction "as" arbitrary: sh)
  case (Cons a as)
  let ?s = "link_var a sh"
  have a: "cname (vartext_at sh a)" "\<forall>b \<in> var_nodes sh. var_key sh b \<noteq> var_key sh a" using Cons.prems(3) by auto
  have s: "?s = sh\<lparr>vartab := (vartab sh)[hashvar (var_key sh a) := a # vartab sh ! hashvar (var_key sh a)]\<rparr>"
    using hashvar_cname [OF a(1)] by (simp add: link_var_def Let_def)
  have t: "text_of ?s x = text_of sh x" for x by (simp add: s text_of_def split: vartext.splits)
  have mem: "varmem ?s = varmem sh" by (simp add: s)
  note pre = vt.prepend_wf [OF Cons.prems(1) a(2)]
  have nodes: "var_nodes ?s = insert a (var_nodes sh)" using pre(2) by (simp add: s)
  have "chain_wf hashvar VTABSIZE (var_key ?s) (vartab ?s)" using pre(1) unfolding t mem by (simp add: s)
  moreover have "distinct (map (var_key ?s) as)" using Cons.prems(2) unfolding t mem by simp
  moreover have "\<forall>x \<in> set as. cname (vartext_at ?s x) \<and> (\<forall>b \<in> var_nodes ?s. var_key ?s b \<noteq> var_key ?s x)"
    using Cons.prems(2,3) unfolding t mem nodes by auto
  ultimately show ?case
    using Cons.IH [of ?s] unfolding t mem by (simp add: nodes) (simp add: s)
qed simp

lemma less_9: "(a::nat) < 9 \<longleftrightarrow> a \<in> set [0, 1, 2, 3, 4, 5, 6, 7, 8]"
  by auto

lemma initvar_wf: "shell_wf (initvar euid static_shell)"
proof -
  let ?as = "[0, 1, 2, 3, 4, 5, 6, 7, 8] :: nat list"
  have upt: "[0..<length varinit] = ?as" by (simp add: varinit_def upt_rec)
  have texts: "\<forall>a \<in> set ?as. text_ok (vflags (varmem static_shell a)) (vartext_at static_shell a)"
    by (simp add: static_shell_def varinit_def text_of_def text_ok_def cname_def var_name_Cons)
  have empty: "chain_wf hashvar VTABSIZE (var_key static_shell) (vartab static_shell)" "var_nodes static_shell = {}"
    by (auto simp: chain_wf_def static_shell_def chain_nodes_def)
  have "distinct (map (var_key static_shell) ?as)"
    by (simp add: static_shell_def varinit_def text_of_def var_name_Cons)
  then have link: "chain_wf hashvar VTABSIZE (var_key static_shell) (vartab (fold link_var ?as static_shell)) \<and>
      var_nodes (fold link_var ?as static_shell) = set ?as \<and> varmem (fold link_var ?as static_shell) = varmem static_shell \<and>
      nvars (fold link_var ?as static_shell) = 9 \<and> linenovar (fold link_var ?as static_shell) = ''LINENO='' \<and>
      localvar_stack (fold link_var ?as static_shell) = []"
    using link_all [OF empty(1), of ?as] texts text_ok_cname unfolding empty(2)
    by (auto simp: static_shell_def)
  define s0 where "s0 = fold link_var ?as static_shell"
  have t: "text_of s0 x = text_of static_shell x" for x
    using link by (simp add: s0_def text_of_def static_shell_def split: vartext.splits)
  note link = link [folded s0_def]
  have wf: "var_wf s0"
    using link texts unfolding var_wf_def t by (auto simp: less_9)
  have init: "initvar euid static_shell = (if euid = 0 then upd_var 4 (\<lambda>x. x\<lparr>vtext := Text ''PS1=# ''\<rparr>) s0 else s0)"
    by (simp only: initvar_def upt s0_def Let_def)
  let ?f = "\<lambda>x :: var. x\<lparr>vtext := Text ''PS1=# ''\<rparr>"
  have mem4: "vflags (varmem s0 4) = {VSTRFIXED, VTEXTFIXED}" "var_key s0 4 = ''PS1''"
    using link unfolding t by (simp_all add: static_shell_def varinit_def text_of_def var_name_Cons)
  have "var_wf (upd_var 4 ?f s0)"
    by (rule upd_var_wf(1) [OF wf]) (use link mem4 in \<open>simp_all add: text_of_def text_ok_def cname_def var_name_Cons\<close>)
  moreover have "saved_ok s0 []" "saved_ok (upd_var 4 ?f s0) []" by (simp_all add: saved_ok_def)
  moreover have "localvar_stack (upd_var 4 ?f s0) = []" using link by (simp add: upd_var_def)
  ultimately show ?thesis using wf link by (simp add: init shell_wf_def)
qed

text \<open>So is the shell that has imported its environment.\<close>

lemma setvareq_shell_wf:
  assumes "shell_wf sh" and "text_ok fl s" and "setvareq s fl sh = Inr (r, sh')"
  shows "shell_wf sh'"
  using setvareq_assigned(1) [OF _ assms(2,3)] assigns_run_ok [OF assms(1)] assms(1)
  by (auto simp: assigned_def run_ok_def shell_wf_def)

lemma import_env_wf:
  assumes "import_env e sh = Inr sh'" and "shell_wf sh"
  shows "shell_wf sh'"
proof (cases "isassignment e")
  case True
  then obtain r where run: "setvareq e {VEXPORT, VTEXTFIXED} sh = Inr (r, sh')"
    using assms(1) by (auto simp: import_env_def monad_simps)
  have "endofname e \<noteq> e" "take 1 (endofname e) = ''=''"
    using True by (auto simp: isassignment_def Let_def split: if_splits)
  then obtain n v where "e = n @ endofname e" "n \<noteq> []" "\<forall>c \<in> set n. is_in_name c" "endofname e = CHR ''='' # v"
    by (cases rule: endofname_split [of e]; cases "endofname e") auto
  then have "e = n @ CHR ''='' # v" "n \<noteq> []" "CHR ''='' \<notin> set n" "CHR 0x00 \<notin> set n"
    using in_name_not by (metis, blast+)
  then have "text_ok {VEXPORT, VTEXTFIXED} e" by (simp add: text_ok_def cname_def)
  then show ?thesis by (rule setvareq_shell_wf [OF assms(2) _ run])
qed (use assms in \<open>simp add: import_env_def\<close>)

lemma init_vars_wf: "init_vars euid envp ppid static_shell = Inr sh \<Longrightarrow> shell_wf sh"
proof -
  assume run: "init_vars euid envp ppid static_shell = Inr sh"
  obtain s1 r2 s2 r3 s3 r4 where "foldE import_env envp (initvar euid static_shell) = Inr s1"
    "setvareq (''IFS= '' @ [tab_chr, newline_chr]) {VTEXTFIXED} s1 = Inr (r2, s2)"
    "setvareq ''OPTIND=1'' {VTEXTFIXED} s2 = Inr (r3, s3)"
    "setvareq (''PPID='' @ print_int ppid) {VTEXTFIXED} s3 = Inr (r4, sh)"
    using run unfolding init_vars_def by (auto simp: monad_simps)
  moreover have "shell_wf s1"
    by (rule foldE_invariant [where P = shell_wf, OF calculation(1) initvar_wf]) (rule import_env_wf)
  moreover have "text_ok {VTEXTFIXED} (''IFS= '' @ [tab_chr, newline_chr])" "text_ok {VTEXTFIXED} ''OPTIND=1''"
    "text_ok {VTEXTFIXED} (''PPID='' @ print_int ppid)"
    by (simp_all add: text_ok_def cname_def var_name_Cons)
  ultimately show ?thesis using setvareq_shell_wf by metis
qed

section \<open>Properties\<close>

text \<open>
  C32: assignment refines the update of a map. If \<open>setvar\<close> returns, the table is well-formed, a
  lookup of the name gives the new value (none for \<open>NULL\<close>), every other name keeps its value
  and its flags, and the variable was not readonly.
\<close>

theorem setvar_refines_map:
  assumes "var_wf sh" and "setvar name val flags sh = Inr (r, sh')" and "VUNSET \<notin> flags" and "cname m"
  shows "var_wf sh' \<and>
    fst (lookupvar m sh') = (if var_name m = var_name name then val else fst (lookupvar m sh)) \<and>
    (var_name m \<noteq> var_name name \<longrightarrow> obs sh' m = obs sh m) \<and>
    (\<forall>a. findvar name sh = Some a \<longrightarrow> VREADONLY \<notin> vflags (varmem sh a))"
  using setvar_assigned [OF assms(1-3)] assms(4) unfolding lookupvar_obs assigns_def by auto

theorem setvar_refines_map_witness:
  "\<exists>r sh'. setvar ''x'' (Some ''1'') {} (initvar 1 static_shell) = Inr (r, sh') \<and>
     fst (lookupvar ''x'' sh') = Some ''1''"
proof -
  have "\<not> isl (setvar ''x'' (Some ''1'') {} (initvar 1 static_shell))" by code_simp
  then obtain r sh' where run: "setvar ''x'' (Some ''1'') {} (initvar 1 static_shell) = Inr (r, sh')"
    by (cases "setvar ''x'' (Some ''1'') {} (initvar 1 static_shell)") auto
  have "var_wf (initvar 1 static_shell)" using initvar_wf by (simp add: shell_wf_def)
  then have "fst (lookupvar ''x'' sh') = Some ''1''"
    using setvar_refines_map [OF _ run, of "''x''"] by (simp add: cname_def var_name_def)
  then show ?thesis using run by blast
qed



text \<open>
  \<open>unset OPTIND\<close> is an error. The callback of \<open>OPTIND\<close> takes the value for a number before the
  variable is changed, and the value of an unset variable is the empty string, which is none.
\<close>

theorem unset_optind_fails:
  assumes "findvar ''OPTIND'' sh = Some a" and "vfunc (varmem sh a) = Some Getoptsreset"
    and "VREADONLY \<notin> vflags (varmem sh a)"
  shows "unsetvar ''OPTIND'' sh = Inl (Sh_error ''Illegal number: '')"
proof -
  have ok: "var_ok ''OPTIND''" by code_simp
  have "number [] = Inl (Sh_error ''Illegal number: '')" by code_simp
  then have "call_varfunc (vfunc (varmem sh a)) (varnull ''OPTIND'') sh = Inl (Sh_error ''Illegal number: '')"
    using assms(2) by (simp add: call_varfunc_def getoptsreset_def varnull_def)
  moreover have "var_name ''OPTIND'' = ''OPTIND''" by (simp add: var_name_def)
  ultimately show ?thesis
    using assms(1,3) by (simp add: unsetvar_def setvar_ok [OF ok] setvareq_def set_existing_def Let_def)
qed

theorem unset_optind_fails_witness:
  "unsetvar ''OPTIND'' (initvar 1 static_shell) = Inl (Sh_error ''Illegal number: '')"
proof -
  have "findvar ''OPTIND'' (initvar 1 static_shell) = Some 7" by code_simp
  moreover have "vfunc (varmem (initvar 1 static_shell) 7) = Some Getoptsreset" by code_simp
  moreover have "VREADONLY \<notin> vflags (varmem (initvar 1 static_shell) 7)" by code_simp
  ultimately show ?thesis by (rule unset_optind_fails)
qed

text \<open>The same callback makes the shell fail at its start if the environment has a bad \<open>OPTIND\<close>.\<close>

lemma env_optind_fails:
  "case init_vars 1 [''OPTIND=x''] 7 static_shell of
     Inl e \<Rightarrow> e = Sh_error ''Illegal number: x'' | Inr _ \<Rightarrow> False"
  by code_simp

text \<open>
  \<open>mklocal\<close> does not check the name before an equals sign; the variable is made, and when the
  function returns \<open>poplocalvars\<close> fails to unset it.
\<close>

lemma local_bad_name_fails:
  "case mklocal {} ''1x=2'' (snd (pushlocalvars True static_shell)) of
     Inl _ \<Rightarrow> False
   | Inr s1 \<Rightarrow> (case poplocalvars s1 of Inl e \<Rightarrow> e = Sh_error ''1x: bad variable name'' | Inr _ \<Rightarrow> False)"
  by code_simp

end
