(* ===== verification/Sh_Arith.thy ===== *)
theory Sh_Arith
  imports Sh_Var "HOL-Library.Signed_Division"
begin

text \<open>
  Arithmetic expansion (\<open>arith_yylex.c\<close>, \<open>arith_yacc.c\<close>, \<open>arith_yacc.h\<close>): the lexer, and the
  recursive descent parser with precedence climbing that evaluates while it parses.

  \<open>intmax_t\<close> is a 64-bit word read in two's complement. Overflow of \<open>+\<close>, \<open>-\<close>, \<open>*\<close> and \<open><<\<close>, which C
  leaves undefined, wraps around as the machine's operations do. What has no such result is
  \<open>Sh_undefined\<close>: dividing the least number by -1 (a trap) and shifts by less than 0 or more
  than 63 bits.
\<close>

unbundle bit_operations_syntax

type_synonym intmax = "64 word"

section \<open>Tokens\<close>

abbreviation (input) ARITH_ASS :: nat where "ARITH_ASS \<equiv> 1"
abbreviation (input) ARITH_OR :: nat where "ARITH_OR \<equiv> 2"
abbreviation (input) ARITH_AND :: nat where "ARITH_AND \<equiv> 3"
abbreviation (input) ARITH_BAD :: nat where "ARITH_BAD \<equiv> 4"
abbreviation (input) ARITH_NUM :: nat where "ARITH_NUM \<equiv> 5"
abbreviation (input) ARITH_VAR :: nat where "ARITH_VAR \<equiv> 6"
abbreviation (input) ARITH_NOT :: nat where "ARITH_NOT \<equiv> 7"
abbreviation (input) ARITH_BINOP_MIN :: nat where "ARITH_BINOP_MIN \<equiv> 8"
abbreviation (input) ARITH_LE :: nat where "ARITH_LE \<equiv> 8"
abbreviation (input) ARITH_GE :: nat where "ARITH_GE \<equiv> 9"
abbreviation (input) ARITH_LT :: nat where "ARITH_LT \<equiv> 10"
abbreviation (input) ARITH_GT :: nat where "ARITH_GT \<equiv> 11"
abbreviation (input) ARITH_EQ :: nat where "ARITH_EQ \<equiv> 12"
abbreviation (input) ARITH_REM :: nat where "ARITH_REM \<equiv> 13"
abbreviation (input) ARITH_BAND :: nat where "ARITH_BAND \<equiv> 14"
abbreviation (input) ARITH_LSHIFT :: nat where "ARITH_LSHIFT \<equiv> 15"
abbreviation (input) ARITH_RSHIFT :: nat where "ARITH_RSHIFT \<equiv> 16"
abbreviation (input) ARITH_MUL :: nat where "ARITH_MUL \<equiv> 17"
abbreviation (input) ARITH_ADD :: nat where "ARITH_ADD \<equiv> 18"
abbreviation (input) ARITH_BOR :: nat where "ARITH_BOR \<equiv> 19"
abbreviation (input) ARITH_SUB :: nat where "ARITH_SUB \<equiv> 20"
abbreviation (input) ARITH_BXOR :: nat where "ARITH_BXOR \<equiv> 21"
abbreviation (input) ARITH_DIV :: nat where "ARITH_DIV \<equiv> 22"
abbreviation (input) ARITH_NE :: nat where "ARITH_NE \<equiv> 23"
abbreviation (input) ARITH_BINOP_MAX :: nat where "ARITH_BINOP_MAX \<equiv> 24"
abbreviation (input) ARITH_ASS_MIN :: nat where "ARITH_ASS_MIN \<equiv> 24"
abbreviation (input) ARITH_ASS_MAX :: nat where "ARITH_ASS_MAX \<equiv> 34"
abbreviation (input) ARITH_LPAREN :: nat where "ARITH_LPAREN \<equiv> 34"
abbreviation (input) ARITH_RPAREN :: nat where "ARITH_RPAREN \<equiv> 35"
abbreviation (input) ARITH_BNOT :: nat where "ARITH_BNOT \<equiv> 36"
abbreviation (input) ARITH_QMARK :: nat where "ARITH_QMARK \<equiv> 37"
abbreviation (input) ARITH_COLON :: nat where "ARITH_COLON \<equiv> 38"

text \<open>
  \<open>union yystype\<close>. A name comes with its address: where evaluation is suppressed the code reads
  the pointer as a number.
\<close>

datatype yystype = Yval intmax | Yname string intmax

fun yval :: "yystype \<Rightarrow> intmax" where
  "yval (Yval v) = v"
| "yval (Yname n p) = p"

text \<open>\<open>arith_buf\<close>, \<open>arith_startbuf\<close>, \<open>yylval\<close>, \<open>last_token\<close>, and the shell with its variables.\<close>

record arith_state =
  abuf :: string
  astart :: string
  ylval :: yystype
  alast :: nat
  ash :: shell

section \<open>The lexer\<close>

text \<open>The labels \<open>checkeqcur\<close> (the next character is the first of \<open>r\<close>) and \<open>default\<close>.\<close>

definition checkeq :: "nat \<Rightarrow> string \<Rightarrow> nat \<times> string" where
  "checkeq v r = (if take 1 r = ''='' then (v + 11, drop 1 r) else (v, r))"

definition lex_operator :: "char \<Rightarrow> string \<Rightarrow> (nat \<times> string) option" where
  "lex_operator c r =
     (if c = CHR ''='' then Some (checkeq ARITH_ASS r)
      else if c = CHR ''>'' then
        Some (if take 1 r = ''='' then (ARITH_GE, drop 1 r)
              else if take 1 r = ''>'' then checkeq ARITH_RSHIFT (drop 1 r) else (ARITH_GT, r))
      else if c = CHR ''<'' then
        Some (if take 1 r = ''='' then (ARITH_LE, drop 1 r)
              else if take 1 r = ''<'' then checkeq ARITH_LSHIFT (drop 1 r) else (ARITH_LT, r))
      else if c = CHR ''|'' then
        Some (if take 1 r \<noteq> ''|'' then checkeq ARITH_BOR r else (ARITH_OR, drop 1 r))
      else if c = CHR ''&'' then
        Some (if take 1 r \<noteq> ''&'' then checkeq ARITH_BAND r else (ARITH_AND, drop 1 r))
      else if c = CHR ''!'' then
        Some (if take 1 r \<noteq> ''='' then (ARITH_NOT, r) else (ARITH_NE, drop 1 r))
      else if c = CHR ''('' then Some (ARITH_LPAREN, r)
      else if c = CHR '')'' then Some (ARITH_RPAREN, r)
      else if c = CHR ''*'' then Some (checkeq ARITH_MUL r)
      else if c = CHR ''/'' then Some (checkeq ARITH_DIV r)
      else if c = CHR ''%'' then Some (checkeq ARITH_REM r)
      else if c = CHR ''+'' then Some (checkeq ARITH_ADD r)
      else if c = CHR ''-'' then Some (checkeq ARITH_SUB r)
      else if c = CHR ''~'' then Some (ARITH_BNOT, r)
      else if c = CHR ''^'' then Some (checkeq ARITH_BXOR r)
      else if c = CHR ''?'' then Some (ARITH_QMARK, r)
      else if c = CHR '':'' then Some (ARITH_COLON, r)
      else None)"

text \<open>
  \<open>alloc\<close> gives the address of the copy that \<open>stalloc\<close> makes of a name, by what is left of the
  input at its start. At a bad character \<open>arith_buf\<close> is left where it was.
\<close>

definition yylex :: "(string \<Rightarrow> intmax) \<Rightarrow> arith_state \<Rightarrow> nat \<times> arith_state" where
  "yylex alloc st =
     (case dropWhile (\<lambda>c. c = CHR '' '' \<or> c = tab_chr \<or> c = newline_chr) (abuf st) of
        [] \<Rightarrow> (0, st\<lparr>abuf := []\<rparr>)
      | c # r \<Rightarrow>
        if isdigit c then
          (case strtoimax (c # r) 0 of (n, _, r') \<Rightarrow>
             (ARITH_NUM, st\<lparr>abuf := r', ylval := Yval (word_of_int n)\<rparr>))
        else if is_name c then
          (ARITH_VAR, st\<lparr>abuf := dropWhile is_in_name r,
                         ylval := Yname (c # takeWhile is_in_name r) (alloc (c # r))\<rparr>)
        else case lex_operator c r of
               None \<Rightarrow> (ARITH_BAD, st)
             | Some (v, r') \<Rightarrow> (v, st\<lparr>abuf := r'\<rparr>))"

section \<open>Operators\<close>

text \<open>\<open>start\<close> is \<open>arith_startbuf\<close>.\<close>

definition yyerror :: "string \<Rightarrow> string \<Rightarrow> shell_error + 'a" where
  "yyerror s start = Inl (Sh_error (''arithmetic expression: '' @ s @ '': \"'' @ start @ ''\"''))"

definition prec :: "nat list" where
  "prec = [3, 3, 3, 3, 4, 0, 5, 2, 2, 0, 1, 7, 1, 6, 0, 4]"

abbreviation (input) ARITH_MAX_PREC :: nat where "ARITH_MAX_PREC \<equiv> 8"

definition arith_prec :: "nat \<Rightarrow> nat" where
  "arith_prec op = prec ! (op - ARITH_BINOP_MIN)"

definition higher_prec :: "nat \<Rightarrow> nat \<Rightarrow> bool" where
  "higher_prec op1 op2 = (arith_prec op1 < arith_prec op2)"

definition is_binop :: "nat \<Rightarrow> bool" where
  "is_binop op = (ARITH_BINOP_MIN \<le> op \<and> op < ARITH_BINOP_MAX)"

definition truth :: "bool \<Rightarrow> intmax" where
  "truth b = (if b then 1 else 0)"

text \<open>C's division truncates towards zero.\<close>

definition c_div :: "intmax \<Rightarrow> intmax \<Rightarrow> intmax" where
  "c_div a b = word_of_int (sint a sdiv sint b)"

definition c_mod :: "intmax \<Rightarrow> intmax \<Rightarrow> intmax" where
  "c_mod a b = word_of_int (sint a smod sint b)"

definition shift_ok :: "intmax \<Rightarrow> bool" where
  "shift_ok b = (0 \<le> sint b \<and> sint b < 64)"

definition do_binop :: "nat \<Rightarrow> intmax \<Rightarrow> intmax \<Rightarrow> string \<Rightarrow> shell_error + intmax" where
  "do_binop op a b start =
     (if op = ARITH_MUL then Inr (a * b)
      else if op = ARITH_ADD then Inr (a + b)
      else if op = ARITH_SUB then Inr (a - b)
      else if op = ARITH_LSHIFT then if shift_ok b then Inr (push_bit (nat (sint b)) a) else Inl Sh_undefined
      else if op = ARITH_RSHIFT then if shift_ok b then Inr (signed_drop_bit (nat (sint b)) a) else Inl Sh_undefined
      else if op = ARITH_LT then Inr (truth (a <s b))
      else if op = ARITH_LE then Inr (truth (a \<le>s b))
      else if op = ARITH_GT then Inr (truth (b <s a))
      else if op = ARITH_GE then Inr (truth (b \<le>s a))
      else if op = ARITH_EQ then Inr (truth (a = b))
      else if op = ARITH_NE then Inr (truth (a \<noteq> b))
      else if op = ARITH_BAND then Inr (a AND b)
      else if op = ARITH_BXOR then Inr (a XOR b)
      else if op = ARITH_BOR then Inr (a OR b)
      else if b = 0 then yyerror ''division by zero'' start
      else if sint a = INTMAX_MIN \<and> b = - 1 then Inl Sh_undefined
      else Inr (if op = ARITH_REM then c_mod a b else c_div a b))"

section \<open>The parser\<close>

text \<open>
  The functions of the parser call each other through \<open>assignment\<close> for what is between
  parentheses and between \<open>?\<close> and \<open>:\<close>; here each takes that call, and the loops and the other
  calls to itself, up to a fuel. Evaluation is suppressed if \<open>noeval\<close>.
\<close>

type_synonym parser = "arith_state \<Rightarrow> shell_error + intmax \<times> arith_state"

text \<open>Two tokens ahead: \<open>token = yylex(); val = yylval; op = yylex()\<close>.\<close>

definition lex2 :: "(string \<Rightarrow> intmax) \<Rightarrow> (nat \<Rightarrow> yystype \<Rightarrow> nat \<Rightarrow> parser) \<Rightarrow> parser" where
  "lex2 alloc f st =
     (case yylex alloc st of (token, st1) \<Rightarrow> case yylex alloc st1 of (op, st2) \<Rightarrow> f token (ylval st1) op st2)"

definition variable_value :: "yystype \<Rightarrow> parser" where
  "variable_value val st =
     (case val of
        Yval _ \<Rightarrow> Inl Sh_undefined
      | Yname name _ \<Rightarrow>
        bindE (lookupvarint name (ash st)) (\<lambda>(n, sh). Inr (word_of_int n, st\<lparr>ash := sh\<rparr>)))"

primrec primary ::
    "(string \<Rightarrow> intmax) \<Rightarrow> (nat \<Rightarrow> bool \<Rightarrow> parser) \<Rightarrow> nat \<Rightarrow> nat \<Rightarrow> yystype \<Rightarrow> nat \<Rightarrow> bool \<Rightarrow> parser" where
  "primary alloc asg 0 token val op noeval st = Inl Sh_fuel"
| "primary alloc asg (Suc k) token val op noeval st =
     (if token = ARITH_LPAREN then
        bindE (asg op noeval st) (\<lambda>(result, st1).
          if alast st1 \<noteq> ARITH_RPAREN then yyerror (''expecting '' @ [quote_chr] @ '')'' @ [quote_chr]) (astart st1)
          else case yylex alloc st1 of (t, st2) \<Rightarrow> Inr (result, st2\<lparr>alast := t\<rparr>))
      else if token = ARITH_NUM then Inr (yval val, st\<lparr>alast := op\<rparr>)
      else if token = ARITH_VAR then
        if noeval then Inr (yval val, st\<lparr>alast := op\<rparr>) else variable_value val (st\<lparr>alast := op\<rparr>)
      else if token = ARITH_ADD \<or> token = ARITH_SUB \<or> token = ARITH_NOT \<or> token = ARITH_BNOT then
        case yylex alloc st of (op', st1) \<Rightarrow>
          bindE (primary alloc asg k op (ylval st) op' noeval st1) (\<lambda>(r, st2).
            Inr (if token = ARITH_ADD then r else if token = ARITH_SUB then - r
                 else if token = ARITH_NOT then truth (r = 0) else NOT r, st2))
      else yyerror ''expecting primary'' (astart st))"

primrec binop2 ::
    "(string \<Rightarrow> intmax) \<Rightarrow> (nat \<Rightarrow> bool \<Rightarrow> parser) \<Rightarrow> nat \<Rightarrow> intmax \<Rightarrow> nat \<Rightarrow> nat \<Rightarrow> bool \<Rightarrow> parser" where
  "binop2 alloc asg 0 a op p noeval st = Inl Sh_fuel"
| "binop2 alloc asg (Suc k) a op p noeval st =
     bindE (lex2 alloc (\<lambda>token val op'. primary alloc asg k token val op' noeval) st) (\<lambda>(b, st1).
     bindE (if is_binop (alast st1) \<and> higher_prec (alast st1) op
            then binop2 alloc asg k b (alast st1) (arith_prec op) noeval st1 else Inr (b, st1)) (\<lambda>(b', st2).
     bindE (if noeval then Inr b' else do_binop op a b' (astart st2)) (\<lambda>a'.
       if \<not> is_binop (alast st2) \<or> p \<le> arith_prec (alast st2) then Inr (a', st2)
       else binop2 alloc asg k a' (alast st2) p noeval st2)))"

definition arith_binop ::
    "(string \<Rightarrow> intmax) \<Rightarrow> (nat \<Rightarrow> bool \<Rightarrow> parser) \<Rightarrow> nat \<Rightarrow> nat \<Rightarrow> yystype \<Rightarrow> nat \<Rightarrow> bool \<Rightarrow> parser" where
  "arith_binop alloc asg k token val op noeval st =
     bindE (primary alloc asg k token val op noeval st) (\<lambda>(a, st1).
       if \<not> is_binop (alast st1) then Inr (a, st1)
       else binop2 alloc asg k a (alast st1) ARITH_MAX_PREC noeval st1)"

primrec arith_and ::
    "(string \<Rightarrow> intmax) \<Rightarrow> (nat \<Rightarrow> bool \<Rightarrow> parser) \<Rightarrow> nat \<Rightarrow> nat \<Rightarrow> yystype \<Rightarrow> nat \<Rightarrow> bool \<Rightarrow> parser" where
  "arith_and alloc asg 0 token val op noeval st = Inl Sh_fuel"
| "arith_and alloc asg (Suc k) token val op noeval st =
     bindE (arith_binop alloc asg k token val op noeval st) (\<lambda>(a, st1).
       if alast st1 \<noteq> ARITH_AND then Inr (a, st1)
       else bindE (lex2 alloc (\<lambda>token val op. arith_and alloc asg k token val op (noeval \<or> a = 0)) st1)
              (\<lambda>(b, st2). Inr (truth (a \<noteq> 0 \<and> b \<noteq> 0), st2)))"

primrec arith_or ::
    "(string \<Rightarrow> intmax) \<Rightarrow> (nat \<Rightarrow> bool \<Rightarrow> parser) \<Rightarrow> nat \<Rightarrow> nat \<Rightarrow> yystype \<Rightarrow> nat \<Rightarrow> bool \<Rightarrow> parser" where
  "arith_or alloc asg 0 token val op noeval st = Inl Sh_fuel"
| "arith_or alloc asg (Suc k) token val op noeval st =
     bindE (arith_and alloc asg k token val op noeval st) (\<lambda>(a, st1).
       if alast st1 \<noteq> ARITH_OR then Inr (a, st1)
       else bindE (lex2 alloc (\<lambda>token val op. arith_or alloc asg k token val op (noeval \<or> a \<noteq> 0)) st1)
              (\<lambda>(b, st2). Inr (truth (a \<noteq> 0 \<or> b \<noteq> 0), st2)))"

primrec arith_cond ::
    "(string \<Rightarrow> intmax) \<Rightarrow> (nat \<Rightarrow> bool \<Rightarrow> parser) \<Rightarrow> nat \<Rightarrow> nat \<Rightarrow> yystype \<Rightarrow> nat \<Rightarrow> bool \<Rightarrow> parser" where
  "arith_cond alloc asg 0 token val op noeval st = Inl Sh_fuel"
| "arith_cond alloc asg (Suc k) token val op noeval st =
     bindE (arith_or alloc asg k token val op noeval st) (\<lambda>(a, st1).
       if alast st1 \<noteq> ARITH_QMARK then Inr (a, st1)
       else bindE (case yylex alloc st1 of (t, st2) \<Rightarrow> asg t (noeval \<or> a = 0) st2) (\<lambda>(b, st3).
         if alast st3 \<noteq> ARITH_COLON then yyerror (''expecting '' @ [quote_chr] @ '':'' @ [quote_chr]) (astart st3)
         else bindE (lex2 alloc (\<lambda>token val op. arith_cond alloc asg k token val op (noeval \<or> a \<noteq> 0)) st3)
                (\<lambda>(c, st4). Inr (if a \<noteq> 0 then b else c, st4))))"

text \<open>The end of \<open>assignment\<close>: \<open>result\<close> is the value of the right-hand side.\<close>

definition assign_value :: "yystype \<Rightarrow> nat \<Rightarrow> intmax \<Rightarrow> parser" where
  "assign_value val op result st =
     (case val of
        Yval _ \<Rightarrow> Inl Sh_undefined
      | Yname name _ \<Rightarrow>
        bindE (if op = ARITH_ASS then Inr (result, st)
               else bindE (variable_value val st) (\<lambda>(old, st1).
                    bindE (do_binop (op - 11) old result (astart st1)) (\<lambda>r. Inr (r, st1)))) (\<lambda>(r, st2).
        bindE (setvarint name (sint r) {} (ash st2)) (\<lambda>(n, sh). Inr (word_of_int n, st2\<lparr>ash := sh\<rparr>))))"

primrec assignment :: "(string \<Rightarrow> intmax) \<Rightarrow> nat \<Rightarrow> nat \<Rightarrow> bool \<Rightarrow> parser" where
  "assignment alloc 0 var noeval st = Inl Sh_fuel"
| "assignment alloc (Suc k) var noeval st =
     (let val = ylval st
      in case yylex alloc st of (op, st1) \<Rightarrow>
         if var \<noteq> ARITH_VAR \<or> op \<noteq> ARITH_ASS \<and> (op < ARITH_ASS_MIN \<or> ARITH_ASS_MAX \<le> op)
         then arith_cond alloc (assignment alloc k) k var val op noeval st1
         else bindE (case yylex alloc st1 of (t, st2) \<Rightarrow> assignment alloc k t noeval st2) (\<lambda>(result, st3).
           if noeval then Inr (result, st3) else assign_value val op result st3))"

text \<open>
  \<open>y\<close> and \<open>t\<close> are what an earlier expansion left in \<open>yylval\<close> and \<open>last_token\<close>. A call consumes a
  character or is one of five calls between two characters.
\<close>

definition arith_fuel :: "string \<Rightarrow> nat" where
  "arith_fuel s = 6 * length s + 12"

definition arith :: "(string \<Rightarrow> intmax) \<Rightarrow> yystype \<Rightarrow> nat \<Rightarrow> string \<Rightarrow> shell \<Rightarrow> shell_error + intmax \<times> shell" where
  "arith alloc y t s sh =
     (case yylex alloc \<lparr>abuf = s, astart = s, ylval = y, alast = t, ash = sh\<rparr> of (var, st) \<Rightarrow>
        bindE (assignment alloc (arith_fuel s) var False st) (\<lambda>(result, st1).
          if alast st1 \<noteq> 0 then yyerror ''expecting EOF'' (astart st1) else Inr (result, ash st1)))"

end
