(* ===== verification/Sh_Arith_Laws.thy ===== *)
theory Sh_Arith_Laws
  imports Sh_Arith
begin

text \<open>
  The arithmetic parser against a reference: expressions as trees, with C's meaning of the
  operators, short-circuit evaluation and assignments, and their printed form with the fewest
  parentheses. \<open>arith\<close> gives a printed tree its meaning, and it always returns.
\<close>

section \<open>Printed tokens are read back\<close>

datatype tok = Op nat | TNum nat | TName string

definition op_table :: "(nat \<times> string) list" where
  "op_table =
     [(1, ''=''), (2, ''||''), (3, ''&&''), (7, ''!''), (8, ''<=''), (9, ''>=''), (10, ''<''), (11, ''>''),
      (12, ''==''), (13, ''%''), (14, ''&''), (15, ''<<''), (16, ''>>''), (17, ''*''), (18, ''+''),
      (19, ''|''), (20, ''-''), (21, ''^''), (22, ''/''), (23, ''!=''), (24, ''%=''), (25, ''&=''),
      (26, ''<<=''), (27, ''>>=''), (28, ''*=''), (29, ''+=''), (30, ''|=''), (31, ''-=''), (32, ''^=''),
      (33, ''/=''), (34, ''(''), (35, '')''), (36, ''~''), (37, ''?''), (38, '':'')]"

fun tok_text :: "tok \<Rightarrow> string" where
  "tok_text (Op n) = the (map_of op_table n)"
| "tok_text (TNum n) = print_base 10 n"
| "tok_text (TName s) = s"

fun tok_num :: "tok \<Rightarrow> nat" where
  "tok_num (Op n) = n"
| "tok_num (TNum n) = ARITH_NUM"
| "tok_num (TName s) = ARITH_VAR"

definition proper_name :: "string \<Rightarrow> bool" where
  "proper_name s \<longleftrightarrow> s \<noteq> [] \<and> is_name (hd s) \<and> (\<forall>c \<in> set s. is_in_name c)"

fun tok_ok :: "tok \<Rightarrow> bool" where
  "tok_ok (Op n) = (n \<in> fst ` set op_table)"
| "tok_ok (TNum n) = (int n \<le> INTMAX_MAX)"
| "tok_ok (TName s) = proper_name s"

definition src :: "tok list \<Rightarrow> string" where
  "src ts = concat (map (\<lambda>t. CHR '' '' # tok_text t) ts)"

lemma src_simps [simp]: "src [] = []" "src (t # ts) = CHR '' '' # tok_text t @ src ts"
  by (simp_all add: src_def)

lemma src_head: "src ts = [] \<or> hd (src ts) = CHR '' ''"
  by (cases ts) simp_all

fun lexval :: "(string \<Rightarrow> intmax) \<Rightarrow> tok \<Rightarrow> tok list \<Rightarrow> yystype \<Rightarrow> yystype" where
  "lexval alloc (Op n) ts y = y"
| "lexval alloc (TNum n) ts y = Yval (of_nat n)"
| "lexval alloc (TName s) ts y = Yname s (alloc (s @ src ts))"

lemma lex_operator_blank: "list_all (\<lambda>(n, s). lex_operator (hd s) (tl s @ CHR '' '' # x) = Some (n, CHR '' '' # x)) op_table"
  by (simp add: op_table_def lex_operator_def checkeq_def)

lemma lex_operator_last: "list_all (\<lambda>(n, s). lex_operator (hd s) (tl s) = Some (n, [])) op_table"
  by (simp add: op_table_def lex_operator_def checkeq_def)

lemma op_table_heads: "list_all (\<lambda>(n, s). s \<noteq> [] \<and> hd s \<noteq> CHR '' '' \<and> hd s \<noteq> tab_chr \<and> hd s \<noteq> newline_chr \<and>
    \<not> isdigit (hd s) \<and> \<not> is_name (hd s)) op_table"
  by code_simp

lemma lex_operator_table:
  assumes "(n, s) \<in> set op_table" and "r = [] \<or> hd r = CHR '' ''"
  shows "s \<noteq> [] \<and> lex_operator (hd s) (tl s @ r) = Some (n, r) \<and>
    hd s \<notin> {CHR '' '', tab_chr, newline_chr} \<and> \<not> isdigit (hd s) \<and> \<not> is_name (hd s)"
proof -
  have "lex_operator (hd s) (tl s @ r) = Some (n, r)"
    using assms bspec [OF lex_operator_blank [of "tl r", unfolded list_all_iff] assms(1)]
      bspec [OF lex_operator_last [unfolded list_all_iff] assms(1)] by (cases r) auto
  then show ?thesis using bspec [OF op_table_heads [unfolded list_all_iff] assms(1)] by simp
qed

lemma digit_not_name: "isdigit c \<Longrightarrow> \<not> is_name c \<and> c \<notin> {CHR '' '', tab_chr, newline_chr}"
  by (auto simp: isdigit_def is_name_def isalpha_def less_eq_char_def chr_defs)

lemma name_not_digit: "is_name c \<Longrightarrow> \<not> isdigit c \<and> c \<notin> {CHR '' '', tab_chr, newline_chr}"
  by (auto simp: isdigit_def is_name_def isalpha_def less_eq_char_def chr_defs)

lemma yylex_src:
  assumes "tok_ok t" and "abuf st = src (t # ts)"
  shows "yylex alloc st = (tok_num t, st\<lparr>abuf := src ts, ylval := lexval alloc t ts (ylval st)\<rparr>)"
proof (cases t)
  case (Op n)
  then obtain s where s: "(n, s) \<in> set op_table" using assms(1) by auto
  moreover have "distinct (map fst op_table)" by (simp add: op_table_def)
  ultimately have "tok_text t = s" using Op by simp
  moreover note f = lex_operator_table [OF s src_head [of ts]]
  moreover obtain c cs where "s = c # cs" using f by (cases s) auto
  ultimately show ?thesis using Op assms(2) by (simp add: yylex_def)
next
  case (TNum n)
  let ?ds = "print_base 10 n"
  obtain c cs where c: "?ds = c # cs" by (cases ?ds) auto
  have dig: "isdigit c" using print_base_digits [of 10 c n] c digit_chr_decimal(1) by fastforce
  have "src ts = [] \<or> \<not> is_base_digit 10 (hd (src ts)) \<and> hd (src ts) \<noteq> CHR ''x'' \<and> hd (src ts) \<noteq> CHR ''X''"
    using src_head [of ts] base_digit_blank [of "CHR '' ''"] by (auto simp: isspace_def)
  from scan_integer_print [OF disjI2 [OF refl] this, of "int n"]
  have "scan_integer 0 (?ds @ src ts) = Some (False, n, src ts)" by (simp add: print_int_def)
  moreover have "int n \<le> INTMAX_MAX" using TNum assms(1) by simp
  ultimately have "strtoimax (?ds @ src ts) 0 = (int n, False, src ts)" by (simp add: strtoimax_def Let_def int_limits)
  then show ?thesis
    using TNum assms(2) c dig digit_not_name [OF dig] by (simp add: yylex_def)
next
  case (TName s)
  obtain c cs where c: "s = c # cs" "is_name c" "\<forall>x \<in> set cs. is_in_name x"
    using TName assms(1) by (cases s) (auto simp: proper_name_def)
  have "\<not> is_in_name (CHR '' '')" by code_simp
  then have "src ts = [] \<or> \<not> is_in_name (hd (src ts))" using src_head [of ts] by metis
  then have "dropWhile is_in_name (cs @ src ts) = src ts" "takeWhile is_in_name (cs @ src ts) = cs"
    using takeWhile_stop [OF c(3)] dropWhile_stop [OF c(3)] by blast+
  then show ?thesis
    using TName assms(2) c name_not_digit [OF c(2)] by (simp add: yylex_def)
qed

lemma yylex_end: "abuf st = [] \<Longrightarrow> yylex alloc st = (0, st)"
  by (simp add: yylex_def)

definition first :: "tok list \<Rightarrow> nat" where
  "first ts = (case ts of [] \<Rightarrow> 0 | t # _ \<Rightarrow> tok_num t)"

lemma first_simps [simp]: "first [] = 0" "first (t # ts) = tok_num t"
  by (simp_all add: first_def)

text \<open>Lexing the first token of any list.\<close>

lemma yylex_first:
  assumes "list_all tok_ok ts" and "abuf st = src ts"
  obtains y where "yylex alloc st = (first ts, st\<lparr>abuf := src (tl ts), ylval := y\<rparr>)"
proof (cases ts)
  case Nil
  then have "yylex alloc st = (first ts, st\<lparr>abuf := src (tl ts), ylval := ylval st\<rparr>)"
    using assms yylex_end [of st alloc] by simp
  then show ?thesis by (rule that)
next
  case (Cons t ts')
  then show ?thesis using assms yylex_src [of t st ts' alloc] that by simp
qed

section \<open>The reference\<close>

datatype expr =
    Num nat
  | Ref string
  | Unop nat expr
  | Bin nat expr expr
  | Conj expr expr
  | Disj expr expr
  | Cond expr expr expr
  | Assign string nat expr

definition is_assign :: "nat \<Rightarrow> bool" where
  "is_assign op \<longleftrightarrow> op = ARITH_ASS \<or> ARITH_ASS_MIN \<le> op \<and> op < ARITH_ASS_MAX"

definition is_unary :: "nat \<Rightarrow> bool" where
  "is_unary op \<longleftrightarrow> op = ARITH_ADD \<or> op = ARITH_SUB \<or> op = ARITH_NOT \<or> op = ARITH_BNOT"

definition unary :: "nat \<Rightarrow> intmax \<Rightarrow> intmax" where
  "unary op v =
     (if op = ARITH_ADD then v else if op = ARITH_SUB then - v
      else if op = ARITH_NOT then truth (v = 0) else NOT v)"

fun expr_ok :: "expr \<Rightarrow> bool" where
  "expr_ok (Num n) = (int n \<le> INTMAX_MAX)"
| "expr_ok (Ref s) = proper_name s"
| "expr_ok (Unop op e) = (is_unary op \<and> expr_ok e)"
| "expr_ok (Bin op l r) = (is_binop op \<and> expr_ok l \<and> expr_ok r)"
| "expr_ok (Conj l r) = (expr_ok l \<and> expr_ok r)"
| "expr_ok (Disj l r) = (expr_ok l \<and> expr_ok r)"
| "expr_ok (Cond c l r) = (expr_ok c \<and> expr_ok l \<and> expr_ok r)"
| "expr_ok (Assign s op e) = (proper_name s \<and> is_assign op \<and> expr_ok e)"

text \<open>
  The level of the outermost operator: 0 for what \<open>primary\<close> reads, 1 to 8 for the binary
  operators by precedence, then \<open>&&\<close>, \<open>||\<close>, \<open>?:\<close> and assignment.
\<close>

fun level :: "expr \<Rightarrow> nat" where
  "level (Num n) = 0"
| "level (Ref s) = 0"
| "level (Unop op e) = 0"
| "level (Bin op l r) = arith_prec op + 1"
| "level (Conj l r) = 9"
| "level (Disj l r) = 10"
| "level (Cond c l r) = 11"
| "level (Assign s op e) = 12"

text \<open>The binary operators associate to the left, the others to the right.\<close>

definition paren :: "bool \<Rightarrow> tok list \<Rightarrow> tok list" where
  "paren b ts = (if b then Op ARITH_LPAREN # ts @ [Op ARITH_RPAREN] else ts)"

fun toks :: "expr \<Rightarrow> tok list" where
  "toks (Num n) = [TNum n]"
| "toks (Ref s) = [TName s]"
| "toks (Unop op e) = Op op # paren (0 < level e) (toks e)"
| "toks (Bin op l r) =
     paren (arith_prec op + 1 < level l) (toks l) @ Op op # paren (arith_prec op < level r) (toks r)"
| "toks (Conj l r) = paren (8 < level l) (toks l) @ Op ARITH_AND # paren (9 < level r) (toks r)"
| "toks (Disj l r) = paren (9 < level l) (toks l) @ Op ARITH_OR # paren (10 < level r) (toks r)"
| "toks (Cond c l r) = paren (10 < level c) (toks c) @ Op ARITH_QMARK # toks l @
     Op ARITH_COLON # paren (11 < level r) (toks r)"
| "toks (Assign s op e) = TName s # Op op # toks e"

text \<open>
  The meaning; an error ends the evaluation. \<open>start\<close> is the text that error messages quote.
\<close>

type_synonym sem = "shell \<Rightarrow> shell_error + intmax \<times> shell"

definition sem_ref :: "string \<Rightarrow> sem" where
  "sem_ref s sh = bindE (lookupvarint s sh) (\<lambda>(n, sh1). Inr (word_of_int n, sh1))"

definition sem_bin :: "string \<Rightarrow> nat \<Rightarrow> sem \<Rightarrow> sem \<Rightarrow> sem" where
  "sem_bin start op L R sh =
     bindE (L sh) (\<lambda>(a, s1). bindE (R s1) (\<lambda>(b, s2).
     bindE (do_binop op a b start) (\<lambda>v. Inr (v, s2))))"

definition sem_assign :: "string \<Rightarrow> string \<Rightarrow> nat \<Rightarrow> sem \<Rightarrow> sem" where
  "sem_assign start s op E sh =
     bindE (E sh) (\<lambda>(v, s1).
     bindE (if op = ARITH_ASS then Inr (v, s1)
            else bindE (sem_ref s s1) (\<lambda>(old, s2).
                 bindE (do_binop (op - 11) old v start) (\<lambda>r. Inr (r, s2)))) (\<lambda>(r, s3).
     bindE (setvarint s (sint r) {} s3) (\<lambda>(n, s4). Inr (word_of_int n, s4))))"

fun aeval :: "string \<Rightarrow> expr \<Rightarrow> sem" where
  "aeval start (Num n) sh = Inr (of_nat n, sh)"
| "aeval start (Ref s) sh = sem_ref s sh"
| "aeval start (Unop op e) sh = bindE (aeval start e sh) (\<lambda>(v, s1). Inr (unary op v, s1))"
| "aeval start (Bin op l r) sh = sem_bin start op (aeval start l) (aeval start r) sh"
| "aeval start (Conj l r) sh =
     bindE (aeval start l sh) (\<lambda>(a, s1).
       if a = 0 then Inr (0, s1) else bindE (aeval start r s1) (\<lambda>(b, s2). Inr (truth (b \<noteq> 0), s2)))"
| "aeval start (Disj l r) sh =
     bindE (aeval start l sh) (\<lambda>(a, s1).
       if a \<noteq> 0 then Inr (1, s1) else bindE (aeval start r s1) (\<lambda>(b, s2). Inr (truth (b \<noteq> 0), s2)))"
| "aeval start (Cond c l r) sh =
     bindE (aeval start c sh) (\<lambda>(a, s1). if a \<noteq> 0 then aeval start l s1 else aeval start r s1)"
| "aeval start (Assign s op e) sh = sem_assign start s op (aeval start e) sh"

section \<open>What the functions of the parser do with printed tokens\<close>

text \<open>
  The state behind an expression: the token that follows it has been lexed. \<open>parses\<close> says that
  a result is the meaning \<open>E\<close> of the tokens before \<open>rest\<close>, or, if evaluation is suppressed, some
  value that leaves the shell as it was.
\<close>

definition ends_at :: "tok list \<Rightarrow> arith_state \<Rightarrow> shell \<Rightarrow> arith_state \<Rightarrow> bool" where
  "ends_at rest st sh st' \<longleftrightarrow>
     abuf st' = src (tl rest) \<and> alast st' = first rest \<and> ash st' = sh \<and> astart st' = astart st"

definition parses ::
    "bool \<Rightarrow> sem \<Rightarrow> tok list \<Rightarrow> arith_state \<Rightarrow> shell_error + intmax \<times> arith_state \<Rightarrow> bool" where
  "parses ne E rest st res \<longleftrightarrow>
     (if ne then \<exists>v st'. ends_at rest st (ash st) st' \<and> res = Inr (v, st')
      else case E (ash st) of
             Inl e \<Rightarrow> res = Inl e
           | Inr (v, sh) \<Rightarrow> \<exists>st'. ends_at rest st sh st' \<and> res = Inr (v, st'))"

text \<open>Either the result is an error of the meaning, or there is a value and a state behind it.\<close>

lemma parses_cases:
  assumes "parses ne E rest st res"
  obtains (error) e where "\<not> ne" "E (ash st) = Inl e" "res = Inl e"
  | (skipped) v st' where "ne" "ends_at rest st (ash st) st'" "res = Inr (v, st')"
  | (evaluated) v sh st' where "\<not> ne" "E (ash st) = Inr (v, sh)" "ends_at rest st sh st'" "res = Inr (v, st')"
  using assms by (auto simp: parses_def split: if_splits sum.splits prod.splits)

lemma parses_error: "\<not> ne \<Longrightarrow> E (ash st) = Inl e \<Longrightarrow> res = Inl e \<Longrightarrow> parses ne E rest st res"
  by (simp add: parses_def)

lemma parses_skipped: "ne \<Longrightarrow> ends_at rest st (ash st) st' \<Longrightarrow> res = Inr (v, st') \<Longrightarrow> parses ne E rest st res"
  by (auto simp: parses_def)

lemma parses_value:
  "\<not> ne \<Longrightarrow> E (ash st) = Inr (v, sh) \<Longrightarrow> ends_at rest st sh st' \<Longrightarrow> res = Inr (v, st') \<Longrightarrow> parses ne E rest st res"
  by (auto simp: parses_def)

lemma parses_outcome: "parses ne E rest st (Inr (v, st')) \<Longrightarrow> \<exists>sh. ends_at rest st sh st'"
  by (auto simp: parses_def split: if_splits sum.splits)

lemma ends_at_cong: "astart st' = astart st \<Longrightarrow> ends_at rest st' = ends_at rest st"
  by (simp add: ends_at_def fun_eq_iff)

lemma ends_at_start: "ends_at rest st sh st' \<Longrightarrow> astart st' = astart st \<and> ash st' = sh \<and> alast st' = first rest"
  by (simp add: ends_at_def)

lemma parses_cong: "parses ne E rest st X \<Longrightarrow> ash st' = ash st \<Longrightarrow> astart st' = astart st \<Longrightarrow> parses ne E rest st' X"
  using ends_at_cong [of st' st] by (auto simp: parses_def split: sum.splits)

lemma parses_bind:
  assumes "parses ne E rest st X" and "\<And>v s1 sh. ends_at rest st sh s1 \<Longrightarrow> parses ne (F v) rest' s1 (G (v, s1))"
  shows "parses ne (\<lambda>s. bindE (E s) (\<lambda>(v, s1). F v s1)) rest' st (bindE X G)"
  using assms(1)
proof (cases rule: parses_cases)
  case (error e)
  then show ?thesis by (simp add: parses_def)
next
  case (skipped v st')
  then show ?thesis using assms(2) [of "ash st" st' v] by (simp add: parses_def ends_at_def)
next
  case (evaluated v sh st')
  then show ?thesis
    using assms(2) [of sh st' v] ends_at_start [OF evaluated(3)] ends_at_cong [of st' st] evaluated
    by (auto simp: parses_def split: sum.splits)
qed

text \<open>The start of an expression that the tokens \<open>ts\<close> print.\<close>

definition begins :: "tok list \<Rightarrow> tok list \<Rightarrow> string \<Rightarrow> arith_state \<Rightarrow> bool" where
  "begins ts rest start st \<longleftrightarrow>
     list_all tok_ok (ts @ rest) \<and> abuf st = src (ts @ rest) \<and> astart st = start"

lemma lex2_src:
  assumes "begins (t # ts) rest start st"
  obtains y where "\<And>f. lex2 alloc f st = f (tok_num t) (lexval alloc t (ts @ rest) (ylval st)) (first (ts @ rest))
    (st\<lparr>abuf := src (tl (ts @ rest)), ylval := y\<rparr>)"
proof -
  have ok: "tok_ok t" "list_all tok_ok (ts @ rest)" using assms by (auto simp: begins_def)
  define s1 where "s1 = st\<lparr>abuf := src (ts @ rest), ylval := lexval alloc t (ts @ rest) (ylval st)\<rparr>"
  have s1: "yylex alloc st = (tok_num t, s1)" unfolding s1_def
    by (rule yylex_src [OF ok(1)]) (use assms in \<open>simp add: begins_def\<close>)
  obtain y where "yylex alloc s1 = (first (ts @ rest), s1\<lparr>abuf := src (tl (ts @ rest)), ylval := y\<rparr>)"
    by (rule yylex_first [OF ok(2), of s1 alloc]) (simp_all add: s1_def)
  then have "lex2 alloc f st = f (tok_num t) (lexval alloc t (ts @ rest) (ylval st)) (first (ts @ rest))
    (st\<lparr>abuf := src (tl (ts @ rest)), ylval := y\<rparr>)" for f
    by (simp add: lex2_def s1) (simp add: s1_def)
  then show ?thesis by (rule that)
qed

subsection \<open>\<open>primary\<close>\<close>

definition reads_primary :: "(string \<Rightarrow> intmax) \<Rightarrow> string \<Rightarrow> tok list \<Rightarrow> sem \<Rightarrow> bool" where
  "reads_primary alloc start ts E \<longleftrightarrow> ts \<noteq> [] \<and> (\<forall>k m ne st rest. length ts \<le> k \<longrightarrow> length ts + 6 \<le> m \<longrightarrow>
     begins ts rest start st \<longrightarrow>
     parses ne E rest st (lex2 alloc (\<lambda>t v op. primary alloc (assignment alloc m) k t v op ne) st))"

lemma reads_num: "reads_primary alloc start [TNum n] (aeval start (Num n))"
  unfolding reads_primary_def
proof (intro conjI allI impI)
  fix k m ne st rest
  assume k: "length [TNum n] \<le> k" and b: "begins [TNum n] rest start st"
  then obtain k' where k': "k = Suc k'" by (cases k) auto
  let ?f = "\<lambda>t v op. primary alloc (assignment alloc m) k t v op ne"
  obtain y where y: "lex2 alloc ?f st = ?f ARITH_NUM (Yval (of_nat n)) (first rest) (st\<lparr>abuf := src (tl rest), ylval := y\<rparr>)"
    by (rule lex2_src [OF b, of alloc]) simp
  show "parses ne (aeval start (Num n)) rest st (lex2 alloc ?f st)"
    unfolding y unfolding k' by (cases ne) (auto simp: parses_def ends_at_def)
qed simp

lemma reads_ref: "reads_primary alloc start [TName s] (aeval start (Ref s))"
  unfolding reads_primary_def
proof (intro conjI allI impI)
  fix k m ne st rest
  assume k: "length [TName s] \<le> k" and b: "begins [TName s] rest start st"
  then obtain k' where k': "k = Suc k'" by (cases k) auto
  let ?f = "\<lambda>t v op. primary alloc (assignment alloc m) k t v op ne"
  obtain y where y: "lex2 alloc ?f st = ?f ARITH_VAR (Yname s (alloc (s @ src rest))) (first rest)
      (st\<lparr>abuf := src (tl rest), ylval := y\<rparr>)"
    by (rule lex2_src [OF b, of alloc]) simp
  show "parses ne (aeval start (Ref s)) rest st (lex2 alloc ?f st)"
    unfolding y unfolding k'
    by (cases ne; cases "lookupvarint s (ash st)") (auto simp: parses_def ends_at_def variable_value_def sem_ref_def)
qed simp

lemma reads_unary:
  assumes "reads_primary alloc start ts E" and "is_unary op"
  shows "reads_primary alloc start (Op op # ts) (\<lambda>sh. bindE (E sh) (\<lambda>(v, s1). Inr (unary op v, s1)))"
  unfolding reads_primary_def
proof (intro conjI allI impI)
  fix k m ne st rest
  assume k: "length (Op op # ts) \<le> k" and m: "length (Op op # ts) + 6 \<le> m" and b: "begins (Op op # ts) rest start st"
  then obtain k' where k': "k = Suc k'" "length ts \<le> k'" by (cases k) auto
  let ?f = "\<lambda>t v op. primary alloc (assignment alloc m) k t v op ne"
  let ?g = "\<lambda>t v op. primary alloc (assignment alloc m) k' t v op ne"
  define s1 where "s1 = st\<lparr>abuf := src (ts @ rest)\<rparr>"
  have lex: "yylex alloc st = (op, s1)"
    using b yylex_src [of "Op op" st "ts @ rest" alloc] by (simp add: begins_def s1_def)
  have b1: "begins ts rest start s1" using b by (simp add: begins_def s1_def)
  have "lex2 alloc ?f st = bindE (lex2 alloc ?g s1) (\<lambda>(r, st2). Inr (unary op r, st2))"
    using assms(2) by (auto simp: lex2_def lex k' is_unary_def unary_def split: prod.splits intro!: bindE_cong)
  moreover have "parses ne E rest s1 (lex2 alloc ?g s1)"
    using assms(1) k'(2) m b1 by (simp add: reads_primary_def)
  ultimately show "parses ne (\<lambda>sh. bindE (E sh) (\<lambda>(v, s1). Inr (unary op v, s1))) rest st (lex2 alloc ?f st)"
    by (auto simp: parses_def ends_at_def s1_def split: if_splits sum.splits prod.splits)
qed simp

text \<open>\<open>assignment\<close>, whose first token has been lexed by the caller.\<close>

definition reads_assignment :: "(string \<Rightarrow> intmax) \<Rightarrow> string \<Rightarrow> tok list \<Rightarrow> sem \<Rightarrow> bool" where
  "reads_assignment alloc start ts E \<longleftrightarrow> ts \<noteq> [] \<and> (\<forall>m ne st rest. length ts + 7 \<le> m \<longrightarrow> begins ts rest start st \<longrightarrow>
     first rest \<in> {0, ARITH_RPAREN, ARITH_COLON} \<longrightarrow>
     parses ne E rest st (case yylex alloc st of (t, st1) \<Rightarrow> assignment alloc m t ne st1))"

lemma reads_assignmentD:
  "reads_assignment alloc start ts E \<Longrightarrow> length ts + 7 \<le> m \<Longrightarrow> begins ts rest start st \<Longrightarrow>
     first rest \<in> {0, ARITH_RPAREN, ARITH_COLON} \<Longrightarrow>
     parses ne E rest st (case yylex alloc st of (t, st1) \<Rightarrow> assignment alloc m t ne st1)"
  unfolding reads_assignment_def by blast

lemma reads_paren:
  assumes "reads_assignment alloc start ts E"
  shows "reads_primary alloc start (Op ARITH_LPAREN # ts @ [Op ARITH_RPAREN]) E"
  unfolding reads_primary_def
proof (intro conjI allI impI)
  let ?ts = "Op ARITH_LPAREN # ts @ [Op ARITH_RPAREN]"
  fix k m ne st rest
  assume k: "length ?ts \<le> k" and m: "length ?ts + 6 \<le> m" and b: "begins ?ts rest start st"
  then obtain k' where k': "k = Suc k'" by (cases k) auto
  let ?f = "\<lambda>t v op. primary alloc (assignment alloc m) k t v op ne"
  define s1 where "s1 = st\<lparr>abuf := src (ts @ Op ARITH_RPAREN # rest)\<rparr>"
  have lex: "yylex alloc st = (ARITH_LPAREN, s1)"
    using b yylex_src [of "Op ARITH_LPAREN" st "ts @ Op ARITH_RPAREN # rest" alloc] by (simp add: begins_def s1_def)
  have b1: "begins ts (Op ARITH_RPAREN # rest) start s1" using b by (simp add: begins_def s1_def)
  have inner: "parses ne E (Op ARITH_RPAREN # rest) s1 (case yylex alloc s1 of (t, st1) \<Rightarrow> assignment alloc m t ne st1)"
    using assms m b1 by (simp add: reads_assignment_def)
  have run: "lex2 alloc ?f st = bindE (case yylex alloc s1 of (t, st1) \<Rightarrow> assignment alloc m t ne st1)
      (\<lambda>(result, st1). if alast st1 \<noteq> ARITH_RPAREN then yyerror (''expecting '' @ [quote_chr] @ '')'' @ [quote_chr]) (astart st1)
        else case yylex alloc st1 of (t, st2) \<Rightarrow> Inr (result, st2\<lparr>alast := t\<rparr>))"
    by (simp add: lex2_def lex k' split: prod.splits)
  have close: "\<exists>st''. (case yylex alloc st' of (t, st2) \<Rightarrow> Inr (v, st2\<lparr>alast := t\<rparr>)) = (Inr (v, st'') :: shell_error + intmax \<times> arith_state) \<and>
      ends_at rest st sh st''" if "ends_at (Op ARITH_RPAREN # rest) s1 sh st'" for v st' sh
  proof -
    have rest: "list_all tok_ok rest" "abuf st' = src rest" using b that by (simp_all add: begins_def ends_at_def)
    obtain y where "yylex alloc st' = (first rest, st'\<lparr>abuf := src (tl rest), ylval := y\<rparr>)" by (rule yylex_first [OF rest])
    then show ?thesis using that by (simp add: ends_at_def s1_def)
  qed
  from inner show "parses ne E rest st (lex2 alloc ?f st)"
  proof (cases rule: parses_cases)
    case (error e)
    then show ?thesis unfolding run by (intro parses_error [of _ _ _ e]) (simp_all add: s1_def)
  next
    case (skipped v st')
    then obtain st'' where "(case yylex alloc st' of (t, st2) \<Rightarrow> Inr (v, st2\<lparr>alast := t\<rparr>)) = (Inr (v, st'') :: shell_error + intmax \<times> arith_state)"
      "ends_at rest st (ash s1) st''" using close by blast
    then show ?thesis using skipped unfolding run by (intro parses_skipped [of _ _ _ st'' _ v]) (simp_all add: ends_at_def s1_def)
  next
    case (evaluated v sh st')
    then obtain st'' where "(case yylex alloc st' of (t, st2) \<Rightarrow> Inr (v, st2\<lparr>alast := t\<rparr>)) = (Inr (v, st'') :: shell_error + intmax \<times> arith_state)"
      "ends_at rest st sh st''" using close by blast
    then show ?thesis using evaluated unfolding run by (intro parses_value [of _ _ _ v sh _ st'']) (simp_all add: ends_at_def s1_def)
  qed
qed simp

subsection \<open>Precedence climbing\<close>

text \<open>What happens behind an operand: \<open>binop2\<close> goes on if a binary operator of precedence below \<open>p\<close> follows.\<close>

definition climb_on :: "(string \<Rightarrow> intmax) \<Rightarrow> nat \<Rightarrow> nat \<Rightarrow> nat \<Rightarrow> bool \<Rightarrow> intmax \<times> arith_state \<Rightarrow> shell_error + intmax \<times> arith_state" where
  "climb_on alloc m k p ne = (\<lambda>(a, st).
     if is_binop (alast st) \<and> arith_prec (alast st) < p
     then binop2 alloc (assignment alloc m) k a (alast st) p ne st else Inr (a, st))"

definition operand :: "(string \<Rightarrow> intmax) \<Rightarrow> nat \<Rightarrow> nat \<Rightarrow> nat \<Rightarrow> nat \<Rightarrow> bool \<Rightarrow> parser" where
  "operand alloc m kp kc p ne st =
     bindE (lex2 alloc (\<lambda>t v op. primary alloc (assignment alloc m) kp t v op ne) st) (climb_on alloc m kc p ne)"

definition no_higher :: "nat \<Rightarrow> tok list \<Rightarrow> bool" where
  "no_higher q rest \<longleftrightarrow> (is_binop (first rest) \<longrightarrow> q \<le> arith_prec (first rest) + 1)"

definition reads_binop :: "(string \<Rightarrow> intmax) \<Rightarrow> string \<Rightarrow> nat \<Rightarrow> tok list \<Rightarrow> sem \<Rightarrow> bool" where
  "reads_binop alloc start q ts E \<longleftrightarrow> ts \<noteq> [] \<and> (\<forall>p kp kc m ne st rest.
     q \<le> p \<longrightarrow> length ts \<le> kp \<longrightarrow> length ts \<le> kc \<longrightarrow> length ts + 6 \<le> m \<longrightarrow> begins ts rest start st \<longrightarrow>
     no_higher q rest \<longrightarrow>
     (\<exists>X j. parses ne E rest st X \<and> kc \<le> j + length ts \<and> operand alloc m kp kc p ne st = bindE X (climb_on alloc m j p ne)))"

lemma reads_primaryD:
  "reads_primary alloc start ts E \<Longrightarrow> length ts \<le> k \<Longrightarrow> length ts + 6 \<le> m \<Longrightarrow> begins ts rest start st \<Longrightarrow>
     parses ne E rest st (lex2 alloc (\<lambda>t v op. primary alloc (assignment alloc m) k t v op ne) st)"
  by (simp add: reads_primary_def)

lemma reads_binopD:
  assumes "reads_binop alloc start q ts E" and "q \<le> p" and "length ts \<le> kp" and "length ts \<le> kc"
    and "length ts + 6 \<le> m" and "begins ts rest start st" and "no_higher q rest"
  obtains X j where "parses ne E rest st X" "kc \<le> j + length ts"
    "operand alloc m kp kc p ne st = bindE X (climb_on alloc m j p ne)"
  using assms unfolding reads_binop_def by blast

lemma reads_primary_binop:
  assumes "reads_primary alloc start ts E"
  shows "reads_binop alloc start 0 ts E"
  unfolding reads_binop_def
proof (intro conjI allI impI)
  fix p kp kc m ne st rest
  assume "length ts \<le> kp" "length ts + 6 \<le> m" "begins ts rest start st"
  from reads_primaryD [OF assms this, of ne] show "\<exists>X j. parses ne E rest st X \<and> kc \<le> j + length ts \<and>
      operand alloc m kp kc p ne st = bindE X (climb_on alloc m j p ne)"
    unfolding operand_def by (intro exI [of _ kc] exI conjI) (assumption | simp)+
qed (use assms in \<open>simp add: reads_primary_def\<close>)

lemma reads_binop_mono: "reads_binop alloc start q ts E \<Longrightarrow> q \<le> q' \<Longrightarrow> reads_binop alloc start q' ts E"
  unfolding reads_binop_def no_higher_def by (meson order_trans)

text \<open>The body of \<open>binop2\<close> is an operand of the operator, the operation, and going on.\<close>

definition binop_value :: "(string \<Rightarrow> intmax) \<Rightarrow> nat \<Rightarrow> nat \<Rightarrow> nat \<Rightarrow> bool \<Rightarrow> intmax \<times> arith_state \<Rightarrow> shell_error + intmax \<times> arith_state" where
  "binop_value alloc m k op ne = (\<lambda>(a, st).
     bindE (operand alloc m k k (arith_prec op) ne st) (\<lambda>(b, st1).
     bindE (if ne then Inr b else do_binop op a b (astart st1)) (\<lambda>v. Inr (v, st1))))"

lemma binop2_operand:
  "binop2 alloc (assignment alloc m) (Suc k) a op p ne st =
     bindE (binop_value alloc m k op ne (a, st)) (climb_on alloc m k p ne)"
proof -
  have "(if \<not> is_binop (alast st1) \<or> p \<le> arith_prec (alast st1) then Inr (v, st1)
      else binop2 alloc (assignment alloc m) k v (alast st1) p ne st1) = climb_on alloc m k p ne (v, st1)" for v st1
    by (simp add: climb_on_def)
  then show ?thesis
    unfolding binop2.simps binop_value_def prod.case operand_def bindE_assoc climb_on_def [of _ _ _ "arith_prec op"] higher_prec_def
    by (simp add: case_prod_unfold bindE_assoc)
qed

lemma climb_on_operator:
  "alast st = op \<Longrightarrow> is_binop op \<Longrightarrow> arith_prec op < p \<Longrightarrow>
     climb_on alloc m (Suc k) p ne (a, st) = bindE (binop_value alloc m k op ne (a, st)) (climb_on alloc m k p ne)"
  by (simp add: climb_on_def [of _ _ "Suc k"] binop2_operand del: binop2.simps)

lemma climb_on_stops: "ends_at rest st sh st' \<Longrightarrow> no_higher (p + 1) rest \<Longrightarrow> climb_on alloc m k p ne (a, st') = Inr (a, st')"
  by (auto simp: climb_on_def ends_at_def no_higher_def)

lemma climb_on_stops_all: "parses ne E rest st X \<Longrightarrow> no_higher (p + 1) rest \<Longrightarrow> bindE X (climb_on alloc m k p ne) = X"
  by (cases X) (auto dest!: parses_outcome intro: climb_on_stops)

lemma parses_binop_value:
  assumes R: "reads_binop alloc start (arith_prec op) ts R" and k: "length ts \<le> k" and m: "length ts + 6 \<le> m"
    and b: "begins ts rest start st" and rest: "no_higher (arith_prec op + 1) rest"
  shows "parses ne (\<lambda>sh. bindE (R sh) (\<lambda>(b, s2). bindE (do_binop op a b start) (\<lambda>v. Inr (v, s2)))) rest st
    (binop_value alloc m k op ne (a, st))"
proof -
  have "no_higher (arith_prec op) rest" using rest by (auto simp: no_higher_def)
  then obtain X j where X: "parses ne R rest st X"
    and run: "operand alloc m k k (arith_prec op) ne st = bindE X (climb_on alloc m j (arith_prec op) ne)"
    using reads_binopD [OF R order_refl k k m b, of ne thesis] by blast
  have "operand alloc m k k (arith_prec op) ne st = X" unfolding run by (rule climb_on_stops_all [OF X rest])
  moreover have "parses ne (\<lambda>sh. bindE (do_binop op a b start) (\<lambda>v. Inr (v, sh))) rest s1
      (bindE (if ne then Inr b else do_binop op a b (astart s1)) (\<lambda>v. Inr (v, s1)))"
    if "ends_at rest st sh s1" for b s1 sh
    using that b by (cases "do_binop op a b start") (auto simp: parses_def ends_at_def begins_def)
  ultimately show ?thesis
    unfolding binop_value_def prod.case by (simp only:) (rule parses_bind [OF X], simp only: prod.case)
qed

lemma reads_bin:
  assumes L: "reads_binop alloc start (arith_prec op + 1) tsl L" and R: "reads_binop alloc start (arith_prec op) tsr R"
    and op: "is_binop op"
  shows "reads_binop alloc start (arith_prec op + 1) (tsl @ Op op # tsr) (sem_bin start op L R)"
  unfolding reads_binop_def
proof (intro conjI allI impI)
  let ?ts = "tsl @ Op op # tsr"
  fix p kp kc m ne st rest
  assume p: "arith_prec op + 1 \<le> p" and kp: "length ?ts \<le> kp" and kc: "length ?ts \<le> kc" and m: "length ?ts + 6 \<le> m"
    and b: "begins ?ts rest start st" and rest: "no_higher (arith_prec op + 1) rest"
  have b1: "begins tsl (Op op # tsr @ rest) start st" using b by (simp add: begins_def)
  have higher: "no_higher (arith_prec op + 1) (Op op # tsr @ rest)" by (simp add: no_higher_def)
  have len: "length tsl \<le> kp" "length tsl \<le> kc" "length tsl + 6 \<le> m" "length tsr + 6 \<le> m" using kp kc m by simp_all
  obtain X j where X: "parses ne L (Op op # tsr @ rest) st X" and j: "kc \<le> j + length tsl"
    and run: "operand alloc m kp kc p ne st = bindE X (climb_on alloc m j p ne)"
    by (rule reads_binopD [OF L p len(1-3) b1 higher])
  obtain i where i: "j = Suc i" "length tsr \<le> i" using j kc by (cases j) auto
  let ?Y = "bindE X (binop_value alloc m i op ne)"
  have "climb_on alloc m j p ne x = bindE (binop_value alloc m i op ne x) (climb_on alloc m i p ne)" if "X = Inr x" for x
    using parses_outcome [of ne L _ st "fst x" "snd x"] X that p op ends_at_start
    by (cases x) (force simp: i(1) intro!: climb_on_operator)
  then have "operand alloc m kp kc p ne st = bindE ?Y (climb_on alloc m i p ne)"
    unfolding run by (cases X) simp_all
  moreover have "parses ne (sem_bin start op L R) rest st ?Y"
    unfolding sem_bin_def
  proof (rule parses_bind [OF X])
    fix v s1 sh
    assume "ends_at (Op op # tsr @ rest) st sh s1"
    then have "begins tsr rest start s1" using b by (simp add: begins_def ends_at_def)
    then show "parses ne (\<lambda>s1. bindE (R s1) (\<lambda>(b, s2). bindE (do_binop op v b start) (\<lambda>v. Inr (v, s2)))) rest s1
        (binop_value alloc m i op ne (v, s1))"
      by (rule parses_binop_value [OF R i(2) len(4) _ rest])
  qed
  moreover have "kc \<le> i + length ?ts" using j i(1) by simp
  ultimately show "\<exists>X j. parses ne (sem_bin start op L R) rest st X \<and> kc \<le> j + length ?ts \<and>
      operand alloc m kp kc p ne st = bindE X (climb_on alloc m j p ne)" by blast
qed simp

subsection \<open>The levels above\<close>

lemma arith_prec_bound: "list_all (\<lambda>op. arith_prec op < ARITH_MAX_PREC) [8..<24]"
  by code_simp

lemma arith_prec_less: "is_binop op \<Longrightarrow> arith_prec op < ARITH_MAX_PREC"
  using bspec [OF arith_prec_bound [unfolded list_all_iff], of op] by (simp only: is_binop_def set_upt atLeastLessThan_iff)

lemma lex2_bind:
  "(\<And>t v op st. f t v op st = bindE (f' t v op st) g) \<Longrightarrow> lex2 alloc f st = bindE (lex2 alloc f' st) g"
  by (simp add: lex2_def split: prod.splits)

definition level_parser ::
    "(string \<Rightarrow> intmax) \<Rightarrow> nat \<Rightarrow> nat \<Rightarrow> nat \<Rightarrow> bool \<Rightarrow> parser" where
  "level_parser alloc q m k ne = lex2 alloc (\<lambda>t v op.
     (if q = 8 then arith_binop else if q = 9 then arith_and else if q = 10 then arith_or else arith_cond)
       alloc (assignment alloc m) k t v op ne)"

definition follows :: "nat \<Rightarrow> tok list \<Rightarrow> bool" where
  "follows q rest \<longleftrightarrow> \<not> is_binop (first rest) \<and> (9 \<le> q \<longrightarrow> first rest \<noteq> ARITH_AND) \<and>
     (10 \<le> q \<longrightarrow> first rest \<noteq> ARITH_OR) \<and> (11 \<le> q \<longrightarrow> first rest \<noteq> ARITH_QMARK)"

definition reads_level :: "(string \<Rightarrow> intmax) \<Rightarrow> string \<Rightarrow> nat \<Rightarrow> tok list \<Rightarrow> sem \<Rightarrow> bool" where
  "reads_level alloc start q ts E \<longleftrightarrow> ts \<noteq> [] \<and> (\<forall>m k ne st rest. length ts + q \<le> k + 8 \<longrightarrow> length ts + 6 \<le> m \<longrightarrow>
     begins ts rest start st \<longrightarrow> follows q rest \<longrightarrow> parses ne E rest st (level_parser alloc q m k ne st))"

lemma reads_levelD:
  "reads_level alloc start q ts E \<Longrightarrow> length ts + q \<le> k + 8 \<Longrightarrow> length ts + 6 \<le> m \<Longrightarrow> begins ts rest start st \<Longrightarrow>
     follows q rest \<Longrightarrow> parses ne E rest st (level_parser alloc q m k ne st)"
  by (simp add: reads_level_def)

lemma arith_binop_operand: "level_parser alloc 8 m k ne st = operand alloc m k k ARITH_MAX_PREC ne st"
proof -
  have "(if \<not> is_binop (alast st1) then Inr (a, st1)
      else binop2 alloc (assignment alloc m) k a (alast st1) ARITH_MAX_PREC ne st1) = climb_on alloc m k 8 ne (a, st1)" for a st1
    by (simp add: climb_on_def arith_prec_less)
  then show ?thesis
    unfolding level_parser_def operand_def by (intro lex2_bind) (simp add: arith_binop_def case_prod_unfold)
qed

lemma reads_binop_level:
  assumes "reads_binop alloc start 8 ts E"
  shows "reads_level alloc start 8 ts E"
  unfolding reads_level_def
proof (intro conjI allI impI)
  fix m k ne st rest
  assume k: "length ts + 8 \<le> k + 8" and m: "length ts + 6 \<le> m" and b: "begins ts rest start st" and f: "follows 8 rest"
  from f have h: "no_higher q rest" for q by (simp add: follows_def no_higher_def)
  have k': "length ts \<le> k" using k by simp
  obtain X j where X: "parses ne E rest st X" and run: "operand alloc m k k 8 ne st = bindE X (climb_on alloc m j 8 ne)"
    by (rule reads_binopD [OF assms order_refl k' k' m b h])
  have "bindE X (climb_on alloc m j 8 ne) = X" by (rule climb_on_stops_all [OF X h])
  then show "parses ne E rest st (level_parser alloc 8 m k ne st)"
    unfolding arith_binop_operand run using X by simp
qed (use assms in \<open>simp add: reads_binop_def\<close>)

text \<open>A parser of one level calls that of the level below and looks for its operator.\<close>

definition and_tail :: "(string \<Rightarrow> intmax) \<Rightarrow> nat \<Rightarrow> nat \<Rightarrow> bool \<Rightarrow> intmax \<times> arith_state \<Rightarrow> shell_error + intmax \<times> arith_state" where
  "and_tail alloc m k ne = (\<lambda>(a, st1).
     if alast st1 \<noteq> ARITH_AND then Inr (a, st1)
     else bindE (level_parser alloc 9 m k (ne \<or> a = 0) st1) (\<lambda>(b, st2). Inr (truth (a \<noteq> 0 \<and> b \<noteq> 0), st2)))"

definition or_tail :: "(string \<Rightarrow> intmax) \<Rightarrow> nat \<Rightarrow> nat \<Rightarrow> bool \<Rightarrow> intmax \<times> arith_state \<Rightarrow> shell_error + intmax \<times> arith_state" where
  "or_tail alloc m k ne = (\<lambda>(a, st1).
     if alast st1 \<noteq> ARITH_OR then Inr (a, st1)
     else bindE (level_parser alloc 10 m k (ne \<or> a \<noteq> 0) st1) (\<lambda>(b, st2). Inr (truth (a \<noteq> 0 \<or> b \<noteq> 0), st2)))"

definition cond_tail :: "(string \<Rightarrow> intmax) \<Rightarrow> nat \<Rightarrow> nat \<Rightarrow> bool \<Rightarrow> intmax \<times> arith_state \<Rightarrow> shell_error + intmax \<times> arith_state" where
  "cond_tail alloc m k ne = (\<lambda>(a, st1).
     if alast st1 \<noteq> ARITH_QMARK then Inr (a, st1)
     else bindE (case yylex alloc st1 of (t, st2) \<Rightarrow> assignment alloc m t (ne \<or> a = 0) st2) (\<lambda>(b, st3).
       if alast st3 \<noteq> ARITH_COLON then yyerror (''expecting '' @ [quote_chr] @ '':'' @ [quote_chr]) (astart st3)
       else bindE (level_parser alloc 11 m k (ne \<or> a \<noteq> 0) st3) (\<lambda>(c, st4). Inr (if a \<noteq> 0 then b else c, st4))))"

lemma level_parser_steps:
  "level_parser alloc 9 m (Suc k) ne st = bindE (level_parser alloc 8 m k ne st) (and_tail alloc m k ne)"
  "level_parser alloc 10 m (Suc k) ne st = bindE (level_parser alloc 9 m k ne st) (or_tail alloc m k ne)"
  "level_parser alloc 11 m (Suc k) ne st = bindE (level_parser alloc 10 m k ne st) (cond_tail alloc m k ne)"
  unfolding level_parser_def by (rule lex2_bind, simp add: and_tail_def or_tail_def cond_tail_def level_parser_def cong: if_cong)+

lemmas tail_defs = and_tail_def or_tail_def cond_tail_def

lemma reads_level_up:
  assumes R: "reads_level alloc start q ts E" and q: "8 \<le> q" "q < 11"
  shows "reads_level alloc start (Suc q) ts E"
  unfolding reads_level_def
proof (intro conjI allI impI)
  fix m k ne st rest
  assume k: "length ts + Suc q \<le> k + 8" and m: "length ts + 6 \<le> m" and b: "begins ts rest start st" and f: "follows (Suc q) rest"
  obtain k' where k': "k = Suc k'" "length ts + q \<le> k' + 8" using k q by (cases k) auto
  have f': "follows q rest" using f by (auto simp: follows_def)
  have X: "parses ne E rest st (level_parser alloc q m k' ne st)" by (rule reads_levelD [OF R k'(2) m b f'])
  have q3: "q = 8 \<or> q = 9 \<or> q = 10" using q by auto
  have "level_parser alloc (Suc q) m k ne st = level_parser alloc q m k' ne st"
  proof (cases "level_parser alloc q m k' ne st")
    case (Inl e)
    then show ?thesis using q3 by (auto simp: k'(1) level_parser_steps)
  next
    case (Inr x)
    obtain a s1 where x: "x = (a, s1)" by (cases x)
    obtain sh where "ends_at rest st sh s1" using X parses_outcome unfolding Inr x by blast
    then have "alast s1 = first rest" by (simp add: ends_at_def)
    then show ?thesis using q3 f Inr by (auto simp: k'(1) level_parser_steps tail_defs follows_def x)
  qed
  then show "parses ne E rest st (level_parser alloc (Suc q) m k ne st)" using X by simp
qed (use R in \<open>simp add: reads_level_def\<close>)

text \<open>The second operand of \<open>&&\<close> and \<open>||\<close>: \<open>c\<close> says that the first one decides.\<close>

lemma parses_guard:
  assumes "parses (ne \<or> c) R rest st Y" and "c \<Longrightarrow> \<forall>b. g b = w" and "\<not> c \<Longrightarrow> g = h"
  shows "parses ne (\<lambda>s. if c then Inr (w, s) else bindE (R s) (\<lambda>(b, s2). Inr (h b, s2))) rest st
    (bindE Y (\<lambda>(b, s2). Inr (g b, s2)))"
  using assms(1)
proof (cases rule: parses_cases)
  case (skipped v st')
  then show ?thesis using assms(2) ends_at_start [OF skipped(2)] by (cases ne) (auto simp: parses_def)
qed (use assms(3) in \<open>auto simp: parses_def\<close>)

lemma first_operand:
  assumes R: "reads_level alloc start q tsl L" and q: "8 \<le> q" "q < 11" and k: "length tsl + Suc q \<le> k + 8" and m: "length tsl + 6 \<le> m"
    and b: "begins (tsl @ Op op # us) rest start st" and op: "follows q (Op op # us @ rest)"
  obtains k' where "k = Suc k'"
    "parses ne L (Op op # us @ rest) st (level_parser alloc q m k' ne st)"
proof -
  obtain k' where k': "k = Suc k'" "length tsl + q \<le> k' + 8" using k q by (cases k) auto
  have "begins tsl (Op op # us @ rest) start st" using b by (simp add: begins_def)
  from that [OF k'(1) reads_levelD [OF R k'(2) m this op]] show ?thesis .
qed

lemma begins_behind:
  "begins (tsl @ Op op # us) rest start st \<Longrightarrow> ends_at (Op op # us @ rest) st sh s1 \<Longrightarrow> begins us rest start s1"
  by (simp add: begins_def ends_at_def)

lemma reads_conj:
  assumes L: "reads_level alloc start 8 tsl L" and R: "reads_level alloc start 9 tsr R"
  shows "reads_level alloc start 9 (tsl @ Op ARITH_AND # tsr) (\<lambda>sh.
     bindE (L sh) (\<lambda>(a, s1). if a = 0 then Inr (0, s1) else bindE (R s1) (\<lambda>(b, s2). Inr (truth (b \<noteq> 0), s2))))"
  unfolding reads_level_def
proof (intro conjI allI impI)
  let ?ts = "tsl @ Op ARITH_AND # tsr"
  fix m k ne st rest
  assume k: "length ?ts + 9 \<le> k + 8" and m: "length ?ts + 6 \<le> m" and b: "begins ?ts rest start st" and f: "follows 9 rest"
  obtain k' where k': "k = Suc k'" and X: "parses ne L (Op ARITH_AND # tsr @ rest) st (level_parser alloc 8 m k' ne st)"
    by (rule first_operand [OF L _ _ _ _ b, of k m ne]) (use k m in \<open>simp_all add: follows_def is_binop_def\<close>)
  show "parses ne (\<lambda>sh. bindE (L sh) (\<lambda>(a, s1). if a = 0 then Inr (0, s1) else bindE (R s1) (\<lambda>(b, s2). Inr (truth (b \<noteq> 0), s2))))
      rest st (level_parser alloc 9 m k ne st)"
    unfolding k' level_parser_steps
  proof (rule parses_bind [OF X])
    fix a :: intmax and s1 sh
    assume e: "ends_at (Op ARITH_AND # tsr @ rest) st sh s1"
    have "parses (ne \<or> a = 0) R rest s1 (level_parser alloc 9 m k' (ne \<or> a = 0) s1)"
      by (rule reads_levelD [OF R _ _ begins_behind [OF b e] f]) (use k m k' in simp_all)
    from parses_guard [OF this, of "\<lambda>b. truth (a \<noteq> 0 \<and> b \<noteq> 0)" 0 "\<lambda>b. truth (b \<noteq> 0)"]
    show "parses ne (\<lambda>s1. if a = 0 then Inr (0, s1) else bindE (R s1) (\<lambda>(b, s2). Inr (truth (b \<noteq> 0), s2))) rest s1
        (and_tail alloc m k' ne (a, s1))"
      using ends_at_start [OF e] by (simp add: and_tail_def truth_def)
  qed
qed simp

lemma reads_disj:
  assumes L: "reads_level alloc start 9 tsl L" and R: "reads_level alloc start 10 tsr R"
  shows "reads_level alloc start 10 (tsl @ Op ARITH_OR # tsr) (\<lambda>sh.
     bindE (L sh) (\<lambda>(a, s1). if a \<noteq> 0 then Inr (1, s1) else bindE (R s1) (\<lambda>(b, s2). Inr (truth (b \<noteq> 0), s2))))"
  unfolding reads_level_def
proof (intro conjI allI impI)
  let ?ts = "tsl @ Op ARITH_OR # tsr"
  fix m k ne st rest
  assume k: "length ?ts + 10 \<le> k + 8" and m: "length ?ts + 6 \<le> m" and b: "begins ?ts rest start st" and f: "follows 10 rest"
  obtain k' where k': "k = Suc k'" and X: "parses ne L (Op ARITH_OR # tsr @ rest) st (level_parser alloc 9 m k' ne st)"
    by (rule first_operand [OF L _ _ _ _ b, of k m ne]) (use k m in \<open>simp_all add: follows_def is_binop_def\<close>)
  show "parses ne (\<lambda>sh. bindE (L sh) (\<lambda>(a, s1). if a \<noteq> 0 then Inr (1, s1) else bindE (R s1) (\<lambda>(b, s2). Inr (truth (b \<noteq> 0), s2))))
      rest st (level_parser alloc 10 m k ne st)"
    unfolding k' level_parser_steps
  proof (rule parses_bind [OF X])
    fix a :: intmax and s1 sh
    assume e: "ends_at (Op ARITH_OR # tsr @ rest) st sh s1"
    have "parses (ne \<or> a \<noteq> 0) R rest s1 (level_parser alloc 10 m k' (ne \<or> a \<noteq> 0) s1)"
      by (rule reads_levelD [OF R _ _ begins_behind [OF b e] f]) (use k m k' in simp_all)
    from parses_guard [OF this, of "\<lambda>b. truth (a \<noteq> 0 \<or> b \<noteq> 0)" 1 "\<lambda>b. truth (b \<noteq> 0)"]
    show "parses ne (\<lambda>s1. if a \<noteq> 0 then Inr (1, s1) else bindE (R s1) (\<lambda>(b, s2). Inr (truth (b \<noteq> 0), s2))) rest s1
        (or_tail alloc m k' ne (a, s1))"
      using ends_at_start [OF e] by (simp add: or_tail_def truth_def)
  qed
qed simp

lemma reads_cond:
  assumes C: "reads_level alloc start 10 tsc C" and L: "reads_assignment alloc start tsl L"
    and R: "reads_level alloc start 11 tsr R"
  shows "reads_level alloc start 11 (tsc @ Op ARITH_QMARK # tsl @ Op ARITH_COLON # tsr) (\<lambda>sh.
     bindE (C sh) (\<lambda>(a, s1). if a \<noteq> 0 then L s1 else R s1))"
  unfolding reads_level_def
proof (intro conjI allI impI)
  let ?us = "tsl @ Op ARITH_COLON # tsr"
  let ?ts = "tsc @ Op ARITH_QMARK # ?us"
  fix m k ne st rest
  assume k: "length ?ts + 11 \<le> k + 8" and m: "length ?ts + 6 \<le> m" and b: "begins ?ts rest start st" and f: "follows 11 rest"
  obtain k' where k': "k = Suc k'" and X: "parses ne C (Op ARITH_QMARK # ?us @ rest) st (level_parser alloc 10 m k' ne st)"
    by (rule first_operand [OF C _ _ _ _ b, of k m ne]) (use k m in \<open>simp_all add: follows_def is_binop_def\<close>)
  show "parses ne (\<lambda>sh. bindE (C sh) (\<lambda>(a, s1). if a \<noteq> 0 then L s1 else R s1)) rest st (level_parser alloc 11 m k ne st)"
    unfolding k' level_parser_steps
  proof (rule parses_bind [OF X])
    fix a :: intmax and s1 sh
    assume e: "ends_at (Op ARITH_QMARK # ?us @ rest) st sh s1"
    have b1: "begins (tsl @ Op ARITH_COLON # tsr) rest start s1" by (rule begins_behind [OF b e])
    let ?Y = "case yylex alloc s1 of (t, st2) \<Rightarrow> assignment alloc m t (ne \<or> a = 0) st2"
    let ?Z = "\<lambda>s3. bindE (level_parser alloc 11 m k' (ne \<or> a \<noteq> 0) s3) (\<lambda>(c, st4). Inr (if a \<noteq> 0 then b else c, st4))"
    have Y: "parses (ne \<or> a = 0) L (Op ARITH_COLON # tsr @ rest) s1 ?Y"
      using L b1 m by (simp add: reads_assignment_def begins_def)
    have Z: "parses (ne \<or> a \<noteq> 0) R rest s3 (level_parser alloc 11 m k' (ne \<or> a \<noteq> 0) s3)"
      if "ends_at (Op ARITH_COLON # tsr @ rest) s1 sh s3" for s3 sh
      by (rule reads_levelD [OF R _ _ begins_behind [OF b1 that] f]) (use k m k' in simp_all)
    show "parses ne (\<lambda>s. if a \<noteq> 0 then L s else R s) rest s1 (cond_tail alloc m k' ne (a, s1))"
      using Y
    proof (cases rule: parses_cases)
      case (error v)
      then show ?thesis using ends_at_start [OF e] by (simp add: cond_tail_def parses_def)
    next
      case (skipped v s3)
      from Z [OF skipped(2)] show ?thesis
        using skipped ends_at_start [OF e] ends_at_start [OF skipped(2)] ends_at_cong [of s3 s1]
        by (cases rule: parses_cases) (auto simp: cond_tail_def parses_def)
    next
      case (evaluated v sh s3)
      from Z [OF evaluated(3)] show ?thesis
        using evaluated ends_at_start [OF e] ends_at_start [OF evaluated(3)] ends_at_cong [of s3 s1]
        by (cases rule: parses_cases) (auto simp: cond_tail_def parses_def)
    qed
  qed
qed simp

subsection \<open>\<open>assignment\<close>\<close>

text \<open>What \<open>arith_cond\<close> reads does not start with a name and an assignment operator.\<close>

fun no_assign_head :: "tok list \<Rightarrow> bool" where
  "no_assign_head [] = False"
| "no_assign_head (TName s # Op op # ts) = (\<not> is_assign op)"
| "no_assign_head (TName s # t # ts) = False"
| "no_assign_head (t # ts) = True"

lemma no_assign_head_append: "no_assign_head ts \<Longrightarrow> \<not> is_assign op \<Longrightarrow> no_assign_head (ts @ Op op # us)"
  by (cases ts rule: no_assign_head.cases; cases "hd ts") auto

lemma reads_level_assignment:
  assumes R: "reads_level alloc start 11 ts E" and h: "no_assign_head ts"
  shows "reads_assignment alloc start ts E"
  unfolding reads_assignment_def
proof (intro conjI allI impI)
  fix m ne st rest
  assume m: "length ts + 7 \<le> m" and b: "begins ts rest start st" and f: "first rest \<in> {0, ARITH_RPAREN, ARITH_COLON}"
  obtain t ts' where ts: "ts = t # ts'" using h by (cases ts) auto
  obtain m' where m': "m = Suc m'" using m by (cases m) auto
  have "follows 11 rest" using f by (auto simp: follows_def is_binop_def)
  from reads_levelD [OF R _ _ b this] m m'
  have X: "parses ne E rest st (level_parser alloc 11 m' m' ne st)" by simp
  have "t \<noteq> Op ARITH_VAR" using b by (auto simp: ts begins_def op_table_def)
  then have "tok_num t \<noteq> ARITH_VAR \<or> \<not> is_assign (first (ts' @ rest))"
    using h f unfolding ts by (cases ts' rule: list.exhaust; cases t; cases "hd ts'") (auto simp: is_assign_def)
  moreover have "(case yylex alloc st of (t, st1) \<Rightarrow> assignment alloc m t ne st1) =
      lex2 alloc (\<lambda>t v op st1. if t \<noteq> ARITH_VAR \<or> \<not> is_assign op
        then arith_cond alloc (assignment alloc m') m' t v op ne st1
        else bindE (case yylex alloc st1 of (t, st2) \<Rightarrow> assignment alloc m' t ne st2) (\<lambda>(result, st3).
           if ne then Inr (result, st3) else assign_value v op result st3)) st"
    by (auto simp: m' lex2_def is_assign_def split: prod.splits)
  moreover obtain y where "\<And>f. lex2 alloc f st = f (tok_num t) (lexval alloc t (ts' @ rest) (ylval st)) (first (ts' @ rest))
      (st\<lparr>abuf := src (tl (ts' @ rest)), ylval := y\<rparr>)" by (rule lex2_src [OF b [unfolded ts], of alloc]) (rule that)
  ultimately have "(case yylex alloc st of (t, st1) \<Rightarrow> assignment alloc m t ne st1) = level_parser alloc 11 m' m' ne st"
    by (simp add: level_parser_def)
  then show "parses ne E rest st (case yylex alloc st of (t, st1) \<Rightarrow> assignment alloc m t ne st1)" using X by simp
qed (use R in \<open>simp add: reads_level_def\<close>)

definition sem_store :: "string \<Rightarrow> string \<Rightarrow> nat \<Rightarrow> intmax \<Rightarrow> sem" where
  "sem_store start s op v s1 =
     bindE (if op = ARITH_ASS then Inr (v, s1)
            else bindE (sem_ref s s1) (\<lambda>(old, s2).
                 bindE (do_binop (op - 11) old v start) (\<lambda>r. Inr (r, s2)))) (\<lambda>(r, s3).
     bindE (setvarint s (sint r) {} s3) (\<lambda>(n, s4). Inr (word_of_int n, s4)))"

lemma sem_assign_store: "sem_assign start s op E sh = bindE (E sh) (\<lambda>(v, s1). sem_store start s op v s1)"
  by (simp add: sem_assign_def sem_store_def)

lemma assign_value_store:
  "assign_value (Yname s p) op v st = bindE (sem_store (astart st) s op v (ash st)) (\<lambda>(n, sh). Inr (n, st\<lparr>ash := sh\<rparr>))"
  unfolding assign_value_def sem_store_def variable_value_def sem_ref_def bindE_assoc yystype.case
  by (cases "lookupvarint s (ash st)") (auto simp: bindE_assoc case_prod_unfold)

lemma parses_store:
  assumes "ends_at rest st0 sh st"
  shows "parses ne F rest st (if ne then Inr (v, st) else bindE (F (ash st)) (\<lambda>(n, sh). Inr (n, st\<lparr>ash := sh\<rparr>)))"
  using assms by (cases "F (ash st)") (auto simp: parses_def ends_at_def)

lemma reads_assign:
  assumes E: "reads_assignment alloc start ts E" and s: "proper_name s" and op: "is_assign op"
  shows "reads_assignment alloc start (TName s # Op op # ts) (sem_assign start s op E)"
  unfolding reads_assignment_def
proof (intro conjI allI impI)
  let ?ts = "TName s # Op op # ts"
  fix m ne st rest
  assume m: "length ?ts + 7 \<le> m" and b: "begins ?ts rest start st" and f: "first rest \<in> {0, ARITH_RPAREN, ARITH_COLON}"
  obtain m' where m': "m = Suc m'" using m by (cases m) auto
  define p where "p = alloc (s @ src (Op op # ts @ rest))"
  define s1 where "s1 = st\<lparr>abuf := src (Op op # ts @ rest), ylval := Yname s p\<rparr>"
  define s2 where "s2 = s1\<lparr>abuf := src (ts @ rest)\<rparr>"
  have lex1: "yylex alloc st = (ARITH_VAR, s1)"
    using b yylex_src [of "TName s" st "Op op # ts @ rest" alloc] by (simp add: begins_def s1_def p_def)
  have lex2: "yylex alloc s1 = (op, s2)"
    using b yylex_src [of "Op op" s1 "ts @ rest" alloc] by (simp add: begins_def s2_def s1_def)
  have b2: "begins ts rest start s2" using b by (simp add: begins_def s2_def s1_def)
  have s1_ylval: "ylval s1 = Yname s p" by (simp add: s1_def)
  let ?X = "case yylex alloc s2 of (t, st2) \<Rightarrow> assignment alloc m' t ne st2"
  let ?G = "\<lambda>(result, st3). if ne then Inr (result, st3) else assign_value (Yname s p) op result st3"
  have X: "parses ne E rest s2 ?X" by (rule reads_assignmentD [OF E _ b2 f]) (use m m' in simp)
  have "parses ne (sem_assign start s op E) rest s2 (bindE ?X ?G)"
    unfolding sem_assign_store
  proof (rule parses_bind [OF X])
    fix v s3 sh
    assume e: "ends_at rest s2 sh s3"
    then have "astart s3 = start" using b2 by (simp add: begins_def ends_at_def)
    then show "parses ne (sem_store start s op v) rest s3 (?G (v, s3))"
      using parses_store [OF e, of ne "sem_store start s op v" v] by (cases ne) (simp_all add: assign_value_store)
  qed
  moreover have "(case yylex alloc st of (t, st1) \<Rightarrow> assignment alloc m t ne st1) = bindE ?X ?G"
    using op by (auto simp: lex1 m' lex2 is_assign_def s1_ylval)
  ultimately show "parses ne (sem_assign start s op E) rest st (case yylex alloc st of (t, st1) \<Rightarrow> assignment alloc m t ne st1)"
    using parses_cong [of ne _ rest s2 _ st] by (simp add: s2_def s1_def)
qed simp

section \<open>Printed expressions have their meaning\<close>

text \<open>What the parser does with the tokens \<open>ts\<close> of an expression of level \<open>q\<close>.\<close>

definition reads :: "(string \<Rightarrow> intmax) \<Rightarrow> string \<Rightarrow> nat \<Rightarrow> tok list \<Rightarrow> sem \<Rightarrow> bool" where
  "reads alloc start q ts E \<longleftrightarrow>
     (q = 0 \<longrightarrow> reads_primary alloc start ts E) \<and> (q \<le> 8 \<longrightarrow> reads_binop alloc start q ts E) \<and>
     (8 \<le> q \<and> q \<le> 11 \<longrightarrow> reads_level alloc start q ts E) \<and> reads_assignment alloc start ts E"

lemma reads_level_mono:
  assumes "reads_level alloc start q ts E" and "8 \<le> q" and "q \<le> q'" and "q' \<le> 11"
  shows "reads_level alloc start q' ts E"
  using assms(3,4) by (induction q' rule: dec_induct) (use assms(1,2) reads_level_up in auto)

lemma readsI_level:
  "8 \<le> q \<Longrightarrow> q \<le> 11 \<Longrightarrow> (q = 8 \<Longrightarrow> reads_binop alloc start q ts E) \<Longrightarrow> reads_level alloc start q ts E \<Longrightarrow>
     no_assign_head ts \<Longrightarrow> reads alloc start q ts E"
  using reads_level_mono [of alloc start q ts E 11] by (auto simp: reads_def intro: reads_level_assignment)

lemma readsI_binop:
  assumes "reads_binop alloc start q ts E" and "q \<le> 8" and "q = 0 \<Longrightarrow> reads_primary alloc start ts E" and "no_assign_head ts"
  shows "reads alloc start q ts E"
proof -
  have "reads_level alloc start 8 ts E" by (rule reads_binop_level [OF reads_binop_mono [OF assms(1,2)]])
  then show ?thesis
    using assms reads_level_mono [of alloc start 8 ts E 11] by (auto simp: reads_def intro: reads_level_assignment)
qed

lemma reads_in_paren:
  assumes "reads alloc start q ts E"
  shows "reads_primary alloc start (paren (0 < q) ts) E"
    and "n \<le> 8 \<Longrightarrow> reads_binop alloc start n (paren (n < q) ts) E"
    and "8 \<le> n \<Longrightarrow> n \<le> 11 \<Longrightarrow> reads_level alloc start n (paren (n < q) ts) E"
proof -
  have P: "reads_primary alloc start (paren True ts) E"
    using assms by (simp add: reads_def paren_def reads_paren)
  then have B: "reads_binop alloc start n (paren True ts) E" for n
    using reads_primary_binop reads_binop_mono by blast
  then have L: "8 \<le> n \<Longrightarrow> n \<le> 11 \<Longrightarrow> reads_level alloc start n (paren True ts) E" for n
    using reads_level_mono [OF reads_binop_level] by blast
  show "reads_primary alloc start (paren (0 < q) ts) E"
    using P assms by (cases "0 < q") (auto simp: reads_def paren_def)
  show B': "n \<le> 8 \<Longrightarrow> reads_binop alloc start n (paren (n < q) ts) E" for n
    using B assms reads_binop_mono [of alloc start q ts E n] by (cases "n < q") (auto simp: reads_def paren_def)
  show "8 \<le> n \<Longrightarrow> n \<le> 11 \<Longrightarrow> reads_level alloc start n (paren (n < q) ts) E"
  proof (cases "n < q \<or> q < 8")
    case True
    then show "8 \<le> n \<Longrightarrow> n \<le> 11 \<Longrightarrow> reads_level alloc start n (paren (n < q) ts) E"
      using L B' [of 8] reads_level_mono [OF reads_binop_level, of alloc start "paren (8 < q) ts" E n] by (auto simp: paren_def)
  next
    case False
    then show "8 \<le> n \<Longrightarrow> n \<le> 11 \<Longrightarrow> reads_level alloc start n (paren (n < q) ts) E"
      using assms reads_level_mono [of alloc start q ts E n] by (auto simp: reads_def paren_def)
  qed
qed

lemma aeval_fun:
  "aeval start (Unop op e) = (\<lambda>sh. bindE (aeval start e sh) (\<lambda>(v, s1). Inr (unary op v, s1)))"
  "aeval start (Bin op l r) = sem_bin start op (aeval start l) (aeval start r)"
  "aeval start (Conj l r) = (\<lambda>sh. bindE (aeval start l sh) (\<lambda>(a, s1).
     if a = 0 then Inr (0, s1) else bindE (aeval start r s1) (\<lambda>(b, s2). Inr (truth (b \<noteq> 0), s2))))"
  "aeval start (Disj l r) = (\<lambda>sh. bindE (aeval start l sh) (\<lambda>(a, s1).
     if a \<noteq> 0 then Inr (1, s1) else bindE (aeval start r s1) (\<lambda>(b, s2). Inr (truth (b \<noteq> 0), s2))))"
  "aeval start (Cond c l r) = (\<lambda>sh. bindE (aeval start c sh) (\<lambda>(a, s1).
     if a \<noteq> 0 then aeval start l s1 else aeval start r s1))"
  "aeval start (Assign s op e) = sem_assign start s op (aeval start e)"
  by (simp_all add: fun_eq_iff)

lemma no_assign_head_paren:
  "(level e \<le> 11 \<Longrightarrow> no_assign_head (toks e)) \<Longrightarrow> n \<le> 11 \<Longrightarrow> no_assign_head (paren (n < level e) (toks e))"
  by (cases "n < level e") (auto simp: paren_def)

lemma no_assign_head_toks: "expr_ok e \<Longrightarrow> level e \<le> 11 \<Longrightarrow> no_assign_head (toks e)"
proof (induction e)
  case (Bin op l r)
  then show ?case
    using arith_prec_less [of op]
    by (auto simp: is_binop_def is_assign_def intro!: no_assign_head_append no_assign_head_paren)
qed (auto simp: is_assign_def intro!: no_assign_head_append no_assign_head_paren)

lemma length_src: "length ts \<le> length (src ts)"
  by (induction ts) simp_all

lemma tok_ok_bound: "list_all (\<lambda>op. tok_ok (Op op)) [8..<34]"
  by code_simp

lemma tok_ok_range: "8 \<le> op \<Longrightarrow> op < 34 \<Longrightarrow> tok_ok (Op op)"
  using tok_ok_bound [unfolded list_all_iff, THEN bspec, of op] by (simp only: set_upt atLeastLessThan_iff)

lemma tok_ok_ops: "is_binop op \<Longrightarrow> tok_ok (Op op)" "is_unary op \<Longrightarrow> tok_ok (Op op)" "is_assign op \<Longrightarrow> tok_ok (Op op)"
  using tok_ok_range [of op] by (auto simp: is_binop_def is_unary_def is_assign_def simp del: tok_ok.simps)
    (simp_all add: op_table_def)

lemma toks_ok: "expr_ok e \<Longrightarrow> list_all tok_ok (toks e)"
  by (induction e) (simp_all add: paren_def tok_ok_ops del: tok_ok.simps(1), simp_all add: op_table_def tok_ok_ops)

lemma toks_read: "expr_ok e \<Longrightarrow> reads alloc start (level e) (toks e) (aeval start e)"
proof (induction e)
  case (Num n)
  show ?case
    using reads_num reads_primary_binop [OF reads_num] by (intro readsI_binop) (simp_all del: aeval.simps)
next
  case (Ref s)
  show ?case
    using reads_ref reads_primary_binop [OF reads_ref] by (intro readsI_binop) (simp_all del: aeval.simps)
next
  case (Unop op e)
  then have "reads_primary alloc start (toks (Unop op e)) (aeval start (Unop op e))"
    unfolding aeval_fun toks.simps by (intro reads_unary reads_in_paren(1)) simp_all
  then show ?case by (intro readsI_binop) (simp_all add: reads_primary_binop del: aeval.simps)
next
  case (Bin op l r)
  then have "reads_binop alloc start (level (Bin op l r)) (toks (Bin op l r)) (aeval start (Bin op l r))"
    unfolding aeval_fun toks.simps level.simps using arith_prec_less [of op]
    by (intro reads_bin reads_in_paren(2)) simp_all
  then show ?case
    using Bin.prems arith_prec_less [of op] no_assign_head_toks [of "Bin op l r"] by (intro readsI_binop) (simp_all del: aeval.simps)
next
  case (Conj l r)
  then have "reads_level alloc start 9 (toks (Conj l r)) (aeval start (Conj l r))"
    unfolding aeval_fun toks.simps by (intro reads_conj reads_in_paren(3)) simp_all
  then show ?case using Conj.prems no_assign_head_toks [of "Conj l r"] by (intro readsI_level) (simp_all del: aeval.simps)
next
  case (Disj l r)
  then have "reads_level alloc start 10 (toks (Disj l r)) (aeval start (Disj l r))"
    unfolding aeval_fun toks.simps by (intro reads_disj reads_in_paren(3)) simp_all
  then show ?case using Disj.prems no_assign_head_toks [of "Disj l r"] by (intro readsI_level) (simp_all del: aeval.simps)
next
  case (Cond c l r)
  then have "reads_assignment alloc start (toks l) (aeval start l)" by (simp add: reads_def)
  then have "reads_level alloc start 11 (toks (Cond c l r)) (aeval start (Cond c l r))"
    using Cond unfolding aeval_fun toks.simps by (intro reads_cond reads_in_paren(3)) simp_all
  then show ?case using Cond.prems no_assign_head_toks [of "Cond c l r"] by (intro readsI_level) (simp_all del: aeval.simps)
next
  case (Assign s op e)
  then show ?case unfolding aeval_fun by (simp add: reads_def reads_assign)
qed



end
