(* ===== verification/Sh_Arith_Returns.thy ===== *)
theory Sh_Arith_Returns
  imports Sh_Arith
begin

text \<open>
  Arithmetic expansion always returns: every function of the parser takes something off the input,
  so the fuel that \<open>arith\<close> starts with is never used up.
\<close>

section \<open>The parser returns\<close>

text \<open>Every token but the end and a bad character takes a character of the input.\<close>

definition pending :: "nat \<Rightarrow> nat" where
  "pending t = (if t = 0 \<or> t = ARITH_BAD then 0 else 1)"

definition left :: "arith_state \<Rightarrow> nat" where
  "left st = length (abuf st)"

lemma checkeq_length: "checkeq v r = (v', r') \<Longrightarrow> length r' \<le> length r"
  by (auto simp: checkeq_def split: if_splits)

lemma lex_operator_length: "lex_operator c r = Some (v, r') \<Longrightarrow> length r' \<le> length r"
  by (auto simp: lex_operator_def split: if_splits dest!: checkeq_length)

lemma pending_le: "pending t \<le> 1"
  by (simp add: pending_def)

text \<open>
  A result of a parser that started with \<open>n\<close> characters and tokens ahead is no lack of fuel, and it
  has taken something.
\<close>

definition fine :: "nat \<Rightarrow> shell_error + 'a \<times> arith_state \<Rightarrow> bool" where
  "fine n res = (case res of Inl e \<Rightarrow> e \<noteq> Sh_fuel | Inr (v, st) \<Rightarrow> pending (alast st) + left st < n)"

lemma fine_simps [simp]:
  "fine n (Inr (v, st)) \<longleftrightarrow> pending (alast st) + left st < n" "fine n (Inl e) \<longleftrightarrow> e \<noteq> Sh_fuel"
  by (simp_all add: fine_def)

lemma fine_bind: "fine n m \<Longrightarrow> (\<And>v st. pending (alast st) + left st < n \<Longrightarrow> fine n' (f (v, st))) \<Longrightarrow> fine n' (bindE m f)"
  by (cases m) auto

lemma fine_mono: "fine n m \<Longrightarrow> n \<le> n' \<Longrightarrow> fine n' m"
  by (auto simp: fine_def split: sum.splits)

lemma fine_error [simp]: "fine n (yyerror m s)"
  by (simp add: yyerror_def)

lemma scan_integer_shorter:
  assumes "isdigit c"
  shows "\<exists>n r'. scan_integer 0 (c # r) = Some (False, n, r') \<and> length r' \<le> length r"
proof -
  have c: "\<not> isspace c" "c \<noteq> CHR ''-''" "c \<noteq> CHR ''+''"
    using assms by (auto simp: isdigit_def isspace_def less_eq_char_def chr_defs)
  have dig: "is_base_digit 10 c" "c = CHR ''0'' \<Longrightarrow> is_base_digit 8 c"
    using assms by (simp_all add: isdigit_base_digit) code_simp
  obtain b v where bv: "base_prefix 0 (c # r) = (b, v)" by (cases "base_prefix 0 (c # r)")
  then have "v = drop 2 (c # r) \<or> v = c # r" by (auto simp: base_prefix_def split: if_splits)
  moreover have "takeWhile (is_base_digit b) v \<noteq> []"
    using bv dig by (cases v) (auto simp: base_prefix_def split: if_splits)
  moreover have "length (takeWhile (is_base_digit b) v) + length (dropWhile (is_base_digit b) v) = length v"
    by (metis length_append takeWhile_dropWhile_id)
  ultimately have "length (dropWhile (is_base_digit b) v) \<le> length r" "takeWhile (is_base_digit b) v \<noteq> []"
    by (cases "takeWhile (is_base_digit b) v"; auto)+
  then show ?thesis using c bv by (simp add: scan_integer_def)
qed

lemma strtoimax_shorter:
  assumes "isdigit c"
  shows "length (snd (snd (strtoimax (c # r) 0))) \<le> length r"
proof -
  obtain n r' where "scan_integer 0 (c # r) = Some (False, n, r')" "length r' \<le> length r"
    using scan_integer_shorter [OF assms] by blast
  then show ?thesis by (simp add: strtoimax_def Let_def)
qed

lemma yylex_left: "yylex alloc st = (t, st') \<Longrightarrow> pending t + left st' \<le> left st"
proof (cases "dropWhile (\<lambda>c. c = CHR '' '' \<or> c = tab_chr \<or> c = newline_chr) (abuf st)")
  case Nil
  assume "yylex alloc st = (t, st')"
  moreover have "yylex alloc st = (0, st\<lparr>abuf := []\<rparr>)" unfolding yylex_def Nil by simp
  ultimately show ?thesis by (auto simp: left_def pending_def)
next
  case (Cons c r)
  have left: "Suc (length r) \<le> left st"
    using length_dropWhile_le [of "\<lambda>c. c = CHR '' '' \<or> c = tab_chr \<or> c = newline_chr" "abuf st"]
    unfolding left_def Cons by simp
  assume run: "yylex alloc st = (t, st')"
  consider (num) "isdigit c" | (name) "\<not> isdigit c" "is_name c" | (op) "\<not> isdigit c" "\<not> is_name c" by blast
  then show ?thesis
  proof cases
    case num
    then have "yylex alloc st = (case strtoimax (c # r) 0 of (n, _, r') \<Rightarrow>
        (ARITH_NUM, st\<lparr>abuf := r', ylval := Yval (word_of_int n)\<rparr>))" unfolding yylex_def Cons by simp
    then show ?thesis
      using run left strtoimax_shorter [OF num, of r] pending_le [of t] by (auto simp: left_def split: prod.splits)
  next
    case name
    then have "yylex alloc st = (ARITH_VAR, st\<lparr>abuf := dropWhile is_in_name r,
        ylval := Yname (c # takeWhile is_in_name r) (alloc (c # r))\<rparr>)" unfolding yylex_def Cons by simp
    then show ?thesis
      using run left length_dropWhile_le [of is_in_name r] pending_le [of t] by (auto simp: left_def)
  next
    case op
    then have "yylex alloc st = (case lex_operator c r of None \<Rightarrow> (ARITH_BAD, st) | Some (v, r') \<Rightarrow> (v, st\<lparr>abuf := r'\<rparr>))"
      unfolding yylex_def Cons by simp
    then show ?thesis
      using run left lex_operator_length [of c r] pending_le [of t]
      by (auto simp: left_def pending_def split: option.splits prod.splits)
  qed
qed

text \<open>
  What each function needs: \<open>asg\<close> returns for everything with fewer than \<open>n\<close> characters and tokens
  ahead, and the fuel exceeds what is ahead.
\<close>

definition returns_below :: "nat \<Rightarrow> (nat \<Rightarrow> bool \<Rightarrow> parser) \<Rightarrow> bool" where
  "returns_below n asg \<longleftrightarrow> (\<forall>t ne st. pending t + left st < n \<longrightarrow> fine (pending t + left st) (asg t ne st))"

lemma returns_belowD: "returns_below n asg \<Longrightarrow> pending t + left st < n \<Longrightarrow> fine (pending t + left st) (asg t ne st)"
  by (simp add: returns_below_def)

lemma returns_below_mono: "returns_below n asg \<Longrightarrow> m \<le> n \<Longrightarrow> returns_below m asg"
  by (simp add: returns_below_def)

lemma fine_lex2:
  assumes "\<And>t v op st'. pending t + pending op + left st' \<le> left st \<Longrightarrow> fine n (f t v op st')"
  shows "fine n (lex2 alloc f st)"
proof -
  obtain t s1 where 1: "yylex alloc st = (t, s1)" by (cases "yylex alloc st")
  obtain op s2 where 2: "yylex alloc s1 = (op, s2)" by (cases "yylex alloc s1")
  show ?thesis using assms [of t op s2] yylex_left [OF 1] yylex_left [OF 2] by (simp add: lex2_def 1 2)
qed

lemma fine_lex:
  assumes "\<And>t st'. pending t + left st' \<le> left st \<Longrightarrow> fine n (f t st')"
  shows "fine n (case yylex alloc st of (t, st') \<Rightarrow> f t st')"
  using yylex_left [of alloc st] assms by (cases "yylex alloc st") auto

section \<open>Each function\<close>

definition is_unop :: "nat \<Rightarrow> bool" where
  "is_unop t \<longleftrightarrow> t = ARITH_ADD \<or> t = ARITH_SUB \<or> t = ARITH_NOT \<or> t = ARITH_BNOT"

definition unop_value :: "nat \<Rightarrow> intmax \<Rightarrow> intmax" where
  "unop_value t r = (if t = ARITH_ADD then r else if t = ARITH_SUB then - r
     else if t = ARITH_NOT then truth (r = 0) else NOT r)"

lemma atomax_fuel: "atomax s b \<noteq> Inl Sh_fuel"
  by (auto simp: atomax_def badnum_def split: prod.splits)

lemma number_fuel: "number s \<noteq> Inl Sh_fuel"
  using atomax_fuel [of s 10] by (cases "atomax s 10") (auto simp: number_def atomax10_def badnum_def)

lemma lookupvarint_fuel: "lookupvarint name sh \<noteq> Inl Sh_fuel"
  unfolding lookupvarint_def
  by (auto simp: atomax_fuel monad_simps split: prod.splits)

lemma setvarint_fuel: "setvarint name val flags sh \<noteq> Inl Sh_fuel"
  using number_fuel
  by (auto simp: setvarint_def setvar_def setvareq_def set_existing_def call_varfunc_def getoptsreset_def monad_simps Let_def
      split: option.splits varfunc.splits if_splits)

lemma do_binop_fuel: "do_binop op a b start \<noteq> Inl Sh_fuel"
  by (simp add: do_binop_def yyerror_def)

lemma fine_variable: "pending (alast st) + left st < n \<Longrightarrow> fine n (variable_value v st)"
proof (cases v)
  case (Yname name p)
  then show "pending (alast st) + left st < n \<Longrightarrow> fine n (variable_value v st)"
    using lookupvarint_fuel [of name "ash st"]
    by (cases "lookupvarint name (ash st)") (auto simp: variable_value_def left_def)
qed (simp add: variable_value_def)

lemma primary_fine:
  "pending t + pending op + left st < k \<Longrightarrow> returns_below (pending t + pending op + left st) asg \<Longrightarrow>
   fine (pending t + pending op + left st) (primary alloc asg k t v op ne st)"
proof (induction k arbitrary: t v op st)
  case (Suc k)
  let ?n = "pending t + pending op + left st"
  have "t = ARITH_LPAREN \<or> t = ARITH_NUM \<or> t = ARITH_VAR \<or> t = ARITH_ADD \<or> t = ARITH_SUB \<or> t = ARITH_NOT \<or> t = ARITH_BNOT \<Longrightarrow>
    pending t = 1" by (auto simp: pending_def)
  then consider (paren) "t = ARITH_LPAREN" "pending t = 1" | (val) "t = ARITH_NUM \<or> t = ARITH_VAR" "pending t = 1"
    | (un) "is_unop t" "pending t = 1" | (none) "t \<notin> {ARITH_LPAREN, ARITH_NUM, ARITH_VAR}" "\<not> is_unop t"
    unfolding is_unop_def by blast
  then show ?case
  proof cases
    case paren
    have "fine (pending op + left st) (asg op ne st)" using Suc.prems(2) paren by (intro returns_belowD) auto
    then have "fine ?n (bindE (asg op ne st) (\<lambda>(result, st1).
        if alast st1 \<noteq> ARITH_RPAREN then yyerror (''expecting '' @ [quote_chr] @ '')'' @ [quote_chr]) (astart st1)
        else case yylex alloc st1 of (t, st2) \<Rightarrow> Inr (result, st2\<lparr>alast := t\<rparr>)))"
      by (rule fine_bind) (auto intro!: fine_lex simp: paren(2) left_def)
    then show ?thesis using paren by simp
  next
    case val
    then show ?thesis
      by (auto simp: left_def intro!: fine_variable)
  next
    case un
    have "fine ?n (case yylex alloc st of (op', st1) \<Rightarrow>
        bindE (primary alloc asg k op (ylval st) op' ne st1) (\<lambda>(r, st2). Inr (unop_value t r, st2)))"
    proof (rule fine_lex)
      fix op' st1
      assume l: "pending op' + left st1 \<le> left st"
      have "fine (pending op + pending op' + left st1) (primary alloc asg k op (ylval st) op' ne st1)"
        using Suc.prems un l returns_below_mono [OF Suc.prems(2), of "pending op + pending op' + left st1"]
        by (intro Suc.IH) simp_all
      then show "fine ?n (bindE (primary alloc asg k op (ylval st) op' ne st1) (\<lambda>(r, st2). Inr (unop_value t r, st2)))"
        by (rule fine_bind) (use l un in simp)
    qed
    then show ?thesis using un(1) by (auto simp: is_unop_def unop_value_def)
  next
    case none
    then show ?thesis by (simp add: is_unop_def)
  qed
qed simp

lemma lex2_primary_fine:
  assumes "left st < k" and "returns_below (left st) asg"
  shows "fine (left st) (lex2 alloc (\<lambda>t v op. primary alloc asg k t v op ne) st)"
proof (rule fine_lex2)
  fix t v op st'
  assume l: "pending t + pending op + left st' \<le> left st"
  show "fine (left st) (primary alloc asg k t v op ne st')"
    using primary_fine [of t op st' k asg alloc v ne] returns_below_mono [OF assms(2) l] assms(1) l
    by (auto intro: fine_mono)
qed

lemma binop_pending: "is_binop op \<Longrightarrow> pending op = 1"
  by (auto simp: is_binop_def pending_def)

lemma binop2_fine:
  "left st + 1 < k \<Longrightarrow> returns_below (left st) asg \<Longrightarrow> fine (left st) (binop2 alloc asg k a op p ne st)"
proof (induction k arbitrary: a op p st)
  case (Suc k)
  have operand: "fine (left st) (lex2 alloc (\<lambda>t v op'. primary alloc asg k t v op' ne) st)"
    by (rule lex2_primary_fine) (use Suc.prems in simp_all)
  have again: "fine (left st) (binop2 alloc asg k a' (alast st1) p' ne st1)"
    if "pending (alast st1) + left st1 < left st" for a' p' st1
    using Suc.IH [of st1 a' "alast st1" p'] Suc.prems that returns_below_mono [OF Suc.prems(2), of "left st1"]
    by (auto intro: fine_mono)
  have climb: "fine (left st) (if is_binop (alast st1) \<and> higher_prec (alast st1) op
      then binop2 alloc asg k b (alast st1) (arith_prec op) ne st1 else Inr (b, st1))"
    if "pending (alast st1) + left st1 < left st" for b st1
    using that again [OF that] by simp
  have close: "fine (left st) (bindE (if ne then Inr b' else do_binop op a b' (astart st2)) (\<lambda>a'.
       if \<not> is_binop (alast st2) \<or> p \<le> arith_prec (alast st2) then Inr (a', st2)
       else binop2 alloc asg k a' (alast st2) p ne st2))"
    if "pending (alast st2) + left st2 < left st" for b' st2
    using that again [OF that] do_binop_fuel [of op a b' "astart st2"]
    by (cases "do_binop op a b' (astart st2)") auto
  show ?case
    unfolding binop2.simps
    by (rule fine_bind [OF operand], simp only: prod.case, rule fine_bind [OF climb], assumption,
        simp only: prod.case, rule close)
qed simp

text \<open>A level calls the one below with the same tokens, and itself with fewer.\<close>

lemma arith_binop_fine:
  assumes k: "pending t + pending op + left st < k" and asg: "returns_below (pending t + pending op + left st) asg"
  shows "fine (pending t + pending op + left st) (arith_binop alloc asg k t v op ne st)"
  unfolding arith_binop_def
proof (rule fine_bind [OF primary_fine [OF k asg]], simp only: prod.case)
  fix a st1
  assume l: "pending (alast st1) + left st1 < pending t + pending op + left st"
  then show "fine (pending t + pending op + left st)
      (if \<not> is_binop (alast st1) then Inr (a, st1) else binop2 alloc asg k a (alast st1) ARITH_MAX_PREC ne st1)"
    using k binop_pending [of "alast st1"] binop2_fine [of st1 k asg alloc a "alast st1" 8 ne]
      returns_below_mono [OF asg, of "left st1"]
    by (auto intro: fine_mono)
qed

lemma lex2_fine:
  assumes "\<And>t op v st'. pending t + pending op + left st' \<le> left st \<Longrightarrow> fine (pending t + pending op + left st') (f t v op st')"
  shows "fine (left st) (lex2 alloc f st)"
  by (rule fine_lex2) (use assms in \<open>blast intro: fine_mono\<close>)

lemma arith_and_fine:
  "pending t + pending op + left st + 1 < k \<Longrightarrow> returns_below (pending t + pending op + left st) asg \<Longrightarrow>
   fine (pending t + pending op + left st) (arith_and alloc asg k t v op ne st)"
proof (induction k arbitrary: t v op ne st)
  case (Suc k)
  let ?n = "pending t + pending op + left st"
  have first: "fine ?n (arith_binop alloc asg k t v op ne st)" by (rule arith_binop_fine) (use Suc.prems in simp_all)
  have "fine ?n (bindE (lex2 alloc (\<lambda>t v op. arith_and alloc asg k t v op ne') st1) (\<lambda>(b, st2). Inr (h b, st2)))"
    if "left st1 < ?n" for h :: "intmax \<Rightarrow> intmax" and st1 ne'
    by (rule fine_bind [OF lex2_fine])
      (use that Suc.prems returns_below_mono [OF Suc.prems(2)] in \<open>auto intro!: Suc.IH\<close>)
  then show ?case
    unfolding arith_and.simps by (intro fine_bind [OF first]) auto
qed simp

lemma arith_or_fine:
  "pending t + pending op + left st + 2 < k \<Longrightarrow> returns_below (pending t + pending op + left st) asg \<Longrightarrow>
   fine (pending t + pending op + left st) (arith_or alloc asg k t v op ne st)"
proof (induction k arbitrary: t v op ne st)
  case (Suc k)
  let ?n = "pending t + pending op + left st"
  have first: "fine ?n (arith_and alloc asg k t v op ne st)" by (rule arith_and_fine) (use Suc.prems in simp_all)
  have "fine ?n (bindE (lex2 alloc (\<lambda>t v op. arith_or alloc asg k t v op ne') st1) (\<lambda>(b, st2). Inr (h b, st2)))"
    if "left st1 < ?n" for h :: "intmax \<Rightarrow> intmax" and st1 ne'
    by (rule fine_bind [OF lex2_fine])
      (use that Suc.prems returns_below_mono [OF Suc.prems(2)] in \<open>auto intro!: Suc.IH\<close>)
  then show ?case
    unfolding arith_or.simps by (intro fine_bind [OF first]) auto
qed simp

lemma arith_cond_fine:
  "pending t + pending op + left st + 3 < k \<Longrightarrow> returns_below (pending t + pending op + left st) asg \<Longrightarrow>
   fine (pending t + pending op + left st) (arith_cond alloc asg k t v op ne st)"
proof (induction k arbitrary: t v op ne st)
  case (Suc k)
  let ?n = "pending t + pending op + left st"
  have first: "fine ?n (arith_or alloc asg k t v op ne st)" by (rule arith_or_fine) (use Suc.prems in simp_all)
  have last: "fine ?n (bindE (lex2 alloc (\<lambda>t v op. arith_cond alloc asg k t v op ne') st1) (\<lambda>(b, st2). Inr (h b, st2)))"
    if "left st1 < ?n" for h :: "intmax \<Rightarrow> intmax" and st1 ne'
    by (rule fine_bind [OF lex2_fine])
      (use that Suc.prems returns_below_mono [OF Suc.prems(2)] in \<open>auto intro!: Suc.IH\<close>)
  have middle: "fine ?n (case yylex alloc st1 of (t, st2) \<Rightarrow> asg t ne' st2)" if "left st1 < ?n" for st1 ne'
    by (rule fine_lex) (use that Suc.prems(2) in \<open>blast intro: fine_mono returns_belowD order_le_less_trans less_imp_le\<close>)
  show ?case
    unfolding arith_cond.simps
  proof (rule fine_bind [OF first], simp only: prod.case)
    fix a :: intmax and st1
    assume l: "pending (alast st1) + left st1 < ?n"
    have "fine ?n (bindE (case yylex alloc st1 of (t, st2) \<Rightarrow> asg t (ne \<or> a = 0) st2) (\<lambda>(b, st3).
         if alast st3 \<noteq> ARITH_COLON then yyerror (''expecting '' @ [quote_chr] @ '':'' @ [quote_chr]) (astart st3)
         else bindE (lex2 alloc (\<lambda>token val op. arith_cond alloc asg k token val op (ne \<or> a \<noteq> 0)) st3)
                (\<lambda>(c, st4). Inr (if a \<noteq> 0 then b else c, st4))))"
      by (rule fine_bind [OF middle]) (use l last in auto)
    then show "fine ?n (if alast st1 \<noteq> ARITH_QMARK then Inr (a, st1)
       else bindE (case yylex alloc st1 of (t, st2) \<Rightarrow> asg t (ne \<or> a = 0) st2) (\<lambda>(b, st3).
         if alast st3 \<noteq> ARITH_COLON then yyerror (''expecting '' @ [quote_chr] @ '':'' @ [quote_chr]) (astart st3)
         else bindE (lex2 alloc (\<lambda>token val op. arith_cond alloc asg k token val op (ne \<or> a \<noteq> 0)) st3)
                (\<lambda>(c, st4). Inr (if a \<noteq> 0 then b else c, st4))))"
      using l by simp
  qed
qed simp

lemma fine_assign: "pending (alast st) + left st < n \<Longrightarrow> fine n (assign_value v op r st)"
proof (cases v)
  case (Yname name p)
  assume l: "pending (alast st) + left st < n"
  have "fine n (bindE (if op = ARITH_ASS then Inr (r, st)
      else bindE (variable_value v st) (\<lambda>(old, st1). bindE (do_binop (op - 11) old r (astart st1)) (\<lambda>r. Inr (r, st1)))) (\<lambda>(r, st2).
      bindE (setvarint name (sint r) {} (ash st2)) (\<lambda>(i, sh). Inr (word_of_int i, st2\<lparr>ash := sh\<rparr>))))"
  proof (rule fine_bind)
    show "fine n (if op = ARITH_ASS then Inr (r, st)
      else bindE (variable_value v st) (\<lambda>(old, st1). bindE (do_binop (op - 11) old r (astart st1)) (\<lambda>r. Inr (r, st1))))"
    proof (cases "op = ARITH_ASS")
      case False
      have "fine n (bindE (do_binop (op - 11) old r (astart st1)) (\<lambda>r. Inr (r, st1)))"
        if "pending (alast st1) + left st1 < n" for old st1
        using that do_binop_fuel [of "op - 11" old r "astart st1"] by (cases "do_binop (op - 11) old r (astart st1)") auto
      then show ?thesis using False by (simp, intro fine_bind [OF fine_variable [OF l]]) simp
    qed (use l in simp)
  next
    fix r st2
    assume "pending (alast st2) + left st2 < n"
    then show "fine n (case (r, st2) of (r, st2) \<Rightarrow>
        bindE (setvarint name (sint r) {} (ash st2)) (\<lambda>(i, sh). Inr (word_of_int i, st2\<lparr>ash := sh\<rparr>)))"
      using setvarint_fuel [of name "sint r" "{}" "ash st2"]
      by (cases "setvarint name (sint r) {} (ash st2)") (auto simp: left_def)
  qed
  then show ?thesis unfolding assign_value_def Yname yystype.case .
qed (simp add: assign_value_def)

lemma assignment_fine:
  "pending t + left st + 4 < k \<Longrightarrow> fine (pending t + left st) (assignment alloc k t ne st)"
proof (induction k arbitrary: t ne st)
  case (Suc k)
  let ?n = "pending t + left st"
  have below: "returns_below ?n (assignment alloc k)"
    unfolding returns_below_def using Suc by simp
  have cond: "fine ?n (arith_cond alloc (assignment alloc k) k t v op ne st1)" if "pending op + left st1 \<le> left st" for v op st1
    using arith_cond_fine [of t op st1 k "assignment alloc k" alloc v ne] returns_below_mono [OF below] that Suc.prems
    by (auto intro: fine_mono)
  have right: "fine ?n (bindE (case yylex alloc st1 of (t, st2) \<Rightarrow> assignment alloc k t ne st2) (\<lambda>(result, st3).
      if ne then Inr (result, st3) else assign_value v op result st3))" if "pending op + left st1 \<le> left st" "t = ARITH_VAR" for v op st1
  proof (rule fine_bind [of ?n])
    show "fine ?n (case yylex alloc st1 of (t, st2) \<Rightarrow> assignment alloc k t ne st2)"
      by (rule fine_lex) (use that Suc.prems in \<open>auto simp: pending_def [of ARITH_VAR] intro!: fine_mono [OF Suc.IH]\<close>)
  qed (auto intro: fine_assign)
  show ?case
    unfolding assignment.simps Let_def by (rule fine_lex) (use cond right in \<open>auto simp: pending_def [of 0]\<close>)
qed simp

lemma arith_not_fuel: "arith alloc y t s sh \<noteq> Inl Sh_fuel"
proof -
  let ?st = "\<lparr>abuf = s, astart = s, ylval = y, alast = t, ash = sh\<rparr>"
  obtain var st where lex: "yylex alloc ?st = (var, st)" by (cases "yylex alloc ?st")
  have "pending var + left st \<le> length s" using yylex_left [OF lex] by (simp add: left_def)
  then have "fine (pending var + left st) (assignment alloc (arith_fuel s) var False st)"
    by (intro assignment_fine) (simp add: arith_fuel_def)
  then show ?thesis
    by (cases "assignment alloc (arith_fuel s) var False st") (auto simp: arith_def lex yyerror_def split: if_splits)
qed


end
