(* ===== verification/Sh_Test.thy ===== *)
theory Sh_Test
  imports Sh_Mystring "HOL-Library.Word"
begin

text \<open>
  The \<open>test\<close> command (\<open>bltin/test.c\<close>). The argument vector is the list of its cells, null pointers
  included; a read behind the last cell is \<open>Sh_undefined\<close>. The file system, the terminal and the
  user are parameters: the results of \<open>stat\<close>, \<open>lstat\<close>, \<open>faccessat\<close>, \<open>isatty\<close>, \<open>geteuid\<close> and
  \<open>getegid\<close>. \<open>config.h\<close> defines \<open>HAVE_FACCESSAT\<close> and \<open>HAVE_ST_MTIM\<close>, not
  \<open>HAVE_TRADITIONAL_FACCESSAT\<close>.
\<close>

unbundle bit_operations_syntax

section \<open>Operators\<close>

datatype test_token =
    EOI | FILRD | FILWR | FILEX | FILEXIST | FILREG | FILDIR | FILCDEV | FILBDEV | FILFIFO
  | FILSOCK | FILSYM | FILGZ | FILTT | FILSUID | FILSGID | FILSTCK | FILNT | FILOT | FILEQ
  | FILUID | FILGID | STREZ | STRNZ | STREQ | STRNE | STRLT | STRGT | INTEQ | INTNE | INTGE
  | INTGT | INTLE | INTLT | UNOT | BAND | BOR | LPAREN | RPAREN | OPERAND

datatype token_types = UNOP | BINOP | BUNOP | BBINOP | PAREN

record t_op =
  op_text :: string
  op_num :: test_token
  op_type :: token_types

definition mk_op :: "string \<times> test_token \<times> token_types \<Rightarrow> t_op" where
  "mk_op = (\<lambda>(s, n, t). \<lparr>op_text = s, op_num = n, op_type = t\<rparr>)"

definition ops :: "t_op list" where
  "ops = map mk_op
     [(''-r'', FILRD, UNOP), (''-w'', FILWR, UNOP), (''-x'', FILEX, UNOP), (''-e'', FILEXIST, UNOP),
      (''-f'', FILREG, UNOP), (''-d'', FILDIR, UNOP), (''-c'', FILCDEV, UNOP), (''-b'', FILBDEV, UNOP),
      (''-p'', FILFIFO, UNOP), (''-u'', FILSUID, UNOP), (''-g'', FILSGID, UNOP), (''-k'', FILSTCK, UNOP),
      (''-s'', FILGZ, UNOP), (''-t'', FILTT, UNOP), (''-z'', STREZ, UNOP), (''-n'', STRNZ, UNOP),
      (''-h'', FILSYM, UNOP), (''-O'', FILUID, UNOP), (''-G'', FILGID, UNOP), (''-L'', FILSYM, UNOP),
      (''-S'', FILSOCK, UNOP), (''='', STREQ, BINOP), (''!='', STRNE, BINOP), (''<'', STRLT, BINOP),
      (''>'', STRGT, BINOP), (''-eq'', INTEQ, BINOP), (''-ne'', INTNE, BINOP), (''-ge'', INTGE, BINOP),
      (''-gt'', INTGT, BINOP), (''-le'', INTLE, BINOP), (''-lt'', INTLT, BINOP), (''-nt'', FILNT, BINOP),
      (''-ot'', FILOT, BINOP), (''-ef'', FILEQ, BINOP), (''!'', UNOT, BUNOP), (''-a'', BAND, BBINOP),
      (''-o'', BOR, BBINOP), (''('', LPAREN, PAREN), ('')'', RPAREN, PAREN)]"

definition getop :: "string \<Rightarrow> t_op option" where
  "getop s = find (\<lambda>op. strcmp s (op_text op) = 0) ops"

definition has_type :: "token_types \<Rightarrow> t_op option \<Rightarrow> bool" where
  "has_type t op = (case op of None \<Rightarrow> False | Some x \<Rightarrow> op_type x = t)"

section \<open>Files\<close>

record stat64 =
  st_mode :: "32 word"
  st_size :: int
  st_uid :: nat
  st_gid :: nat
  st_mtim :: "int \<times> int"
  st_dev :: nat
  st_ino :: nat

text \<open>\<open>acc_ok\<close> is the answer of \<open>faccessat\<close> to a path and \<open>R_OK\<close> (4), \<open>W_OK\<close> (2) or \<open>X_OK\<close> (1).\<close>

record system =
  stat_of :: "string \<Rightarrow> stat64 option"
  lstat_of :: "string \<Rightarrow> stat64 option"
  acc_ok :: "string \<Rightarrow> nat \<Rightarrow> bool"
  is_tty :: "int \<Rightarrow> bool"
  euid :: nat
  egid :: nat

text \<open>The file types of \<open>sys/stat.h\<close>.\<close>

definition has_format :: "stat64 \<Rightarrow> 32 word \<Rightarrow> bool" where
  "has_format s f = (st_mode s AND 0xF000 = f)"

definition filstat :: "system \<Rightarrow> string \<Rightarrow> test_token \<Rightarrow> bool" where
  "filstat sys nm mode =
     (case (if mode = FILSYM then lstat_of sys nm else stat_of sys nm) of
        None \<Rightarrow> False
      | Some s \<Rightarrow>
        case mode of
          FILEXIST \<Rightarrow> True
        | FILREG \<Rightarrow> has_format s 0x8000
        | FILDIR \<Rightarrow> has_format s 0x4000
        | FILCDEV \<Rightarrow> has_format s 0x2000
        | FILBDEV \<Rightarrow> has_format s 0x6000
        | FILFIFO \<Rightarrow> has_format s 0x1000
        | FILSOCK \<Rightarrow> has_format s 0xC000
        | FILSYM \<Rightarrow> has_format s 0xA000
        | FILSUID \<Rightarrow> st_mode s AND 0x800 \<noteq> 0
        | FILSGID \<Rightarrow> st_mode s AND 0x400 \<noteq> 0
        | FILSTCK \<Rightarrow> st_mode s AND 0x200 \<noteq> 0
        | FILGZ \<Rightarrow> st_size s \<noteq> 0
        | FILUID \<Rightarrow> st_uid s = euid sys
        | FILGID \<Rightarrow> st_gid s = egid sys
        | _ \<Rightarrow> True)"

definition test_file_access :: "system \<Rightarrow> string \<Rightarrow> nat \<Rightarrow> bool" where
  "test_file_access sys path mode = acc_ok sys path mode"

definition both_stat :: "system \<Rightarrow> (stat64 \<Rightarrow> stat64 \<Rightarrow> bool) \<Rightarrow> string \<Rightarrow> string \<Rightarrow> bool" where
  "both_stat sys P f1 f2 =
     (case stat_of sys f1 of None \<Rightarrow> False
      | Some b1 \<Rightarrow> case stat_of sys f2 of None \<Rightarrow> False | Some b2 \<Rightarrow> P b1 b2)"

definition newerf :: "system \<Rightarrow> string \<Rightarrow> string \<Rightarrow> bool" where
  "newerf sys = both_stat sys (\<lambda>b1 b2. fst (st_mtim b1) > fst (st_mtim b2) \<or>
     fst (st_mtim b1) = fst (st_mtim b2) \<and> snd (st_mtim b1) > snd (st_mtim b2))"

definition olderf :: "system \<Rightarrow> string \<Rightarrow> string \<Rightarrow> bool" where
  "olderf sys = both_stat sys (\<lambda>b1 b2. fst (st_mtim b1) < fst (st_mtim b2) \<or>
     fst (st_mtim b1) = fst (st_mtim b2) \<and> snd (st_mtim b1) < snd (st_mtim b2))"

definition equalf :: "system \<Rightarrow> string \<Rightarrow> string \<Rightarrow> bool" where
  "equalf sys = both_stat sys (\<lambda>b1 b2. st_dev b1 = st_dev b2 \<and> st_ino b1 = st_ino b2)"

section \<open>The lexer\<close>

type_synonym vector = "string option list"

definition cell :: "vector \<Rightarrow> nat \<Rightarrow> shell_error + string option" where
  "cell v i = (if i < length v then Inr (v ! i) else Inl Sh_undefined)"

definition isoperand :: "vector \<Rightarrow> nat \<Rightarrow> shell_error + bool" where
  "isoperand v i =
     bindE (cell v (i + 1)) (\<lambda>s1. case s1 of None \<Rightarrow> Inr True | Some s \<Rightarrow>
     bindE (cell v (i + 2)) (\<lambda>s2. case s2 of None \<Rightarrow> Inr False | Some _ \<Rightarrow> Inr (has_type BINOP (getop s))))"

text \<open>The token, and the value of \<open>t_wp_op\<close> that \<open>t_lex\<close> leaves.\<close>

definition t_lex :: "vector \<Rightarrow> nat \<Rightarrow> shell_error + test_token \<times> t_op option" where
  "t_lex v i =
     bindE (cell v i) (\<lambda>c. case c of None \<Rightarrow> Inr (EOI, None) | Some s \<Rightarrow>
       case getop s of None \<Rightarrow> Inr (OPERAND, None) | Some op \<Rightarrow>
         bindE (if op_type op = UNOP then isoperand v i else Inr False) (\<lambda>b1.
         if b1 then Inr (OPERAND, None)
         else bindE (if op_num op = LPAREN then bindE (cell v (i + 1)) (\<lambda>c. Inr (c = None)) else Inr False) (\<lambda>b2.
           if b2 then Inr (OPERAND, None) else Inr (op_num op, Some op))))"

section \<open>The parser\<close>

record test_state =
  t_wp :: nat
  t_wp_op :: "t_op option"

type_synonym 'a test_run = "test_state \<Rightarrow> shell_error + 'a \<times> test_state"

text \<open>\<open>n = t_lex(t_wp + d)\<close>, and \<open>n = t_lex(t_wp += d)\<close>.\<close>

definition lex_ahead :: "vector \<Rightarrow> nat \<Rightarrow> test_token test_run" where
  "lex_ahead v d st = bindE (t_lex v (t_wp st + d)) (\<lambda>(n, op). Inr (n, st\<lparr>t_wp_op := op\<rparr>))"

definition lex_move :: "vector \<Rightarrow> nat \<Rightarrow> test_token test_run" where
  "lex_move v d st = lex_ahead v 0 (st\<lparr>t_wp := t_wp st + d\<rparr>)"

definition syntax_error :: "string \<Rightarrow> string \<Rightarrow> shell_error + 'a" where
  "syntax_error op msg = Inl (Sh_error (if op \<noteq> [] then op @ '': '' @ msg else msg))"

definition getn :: "string \<Rightarrow> shell_error + int" where
  "getn s = atomax10 s"

text \<open>The word at \<open>t_wp\<close>; using it as a string is undefined if it is a null pointer.\<close>

definition word_here :: "vector \<Rightarrow> test_state \<Rightarrow> shell_error + string" where
  "word_here v st = bindE (cell v (t_wp st)) (\<lambda>c. case c of None \<Rightarrow> Inl Sh_undefined | Some s \<Rightarrow> Inr s)"

definition compare_ints :: "(int \<Rightarrow> int \<Rightarrow> bool) \<Rightarrow> string \<Rightarrow> string \<Rightarrow> shell_error + bool" where
  "compare_ints P a b = bindE (getn a) (\<lambda>m. bindE (getn b) (\<lambda>n. Inr (P m n)))"

definition binary_value :: "system \<Rightarrow> test_token \<Rightarrow> string \<Rightarrow> string \<Rightarrow> shell_error + bool" where
  "binary_value sys n a b =
     (case n of
        STRNE \<Rightarrow> Inr (strcmp a b \<noteq> 0)
      | STRLT \<Rightarrow> Inr (strcmp a b < 0)
      | STRGT \<Rightarrow> Inr (strcmp a b > 0)
      | INTEQ \<Rightarrow> compare_ints (=) a b
      | INTNE \<Rightarrow> compare_ints (\<noteq>) a b
      | INTGE \<Rightarrow> compare_ints (\<ge>) a b
      | INTGT \<Rightarrow> compare_ints (>) a b
      | INTLE \<Rightarrow> compare_ints (\<le>) a b
      | INTLT \<Rightarrow> compare_ints (<) a b
      | FILNT \<Rightarrow> Inr (newerf sys a b)
      | FILOT \<Rightarrow> Inr (olderf sys a b)
      | FILEQ \<Rightarrow> Inr (equalf sys a b)
      | _ \<Rightarrow> Inr (strcmp a b = 0))"

definition test_binop :: "vector \<Rightarrow> system \<Rightarrow> bool test_run" where
  "test_binop v sys st =
     bindE (word_here v st) (\<lambda>opnd1.
     bindE (lex_move v 1 st) (\<lambda>(_, st1).
     case t_wp_op st1 of
       None \<Rightarrow> Inl Sh_undefined
     | Some op \<Rightarrow>
       let st2 = st1\<lparr>t_wp := t_wp st1 + 1\<rparr>
       in bindE (cell v (t_wp st2)) (\<lambda>c. case c of
            None \<Rightarrow> syntax_error (op_text op) ''argument expected''
          | Some opnd2 \<Rightarrow> bindE (binary_value sys (op_num op) opnd1 opnd2) (\<lambda>b. Inr (b, st2)))))"

text \<open>\<open>isatty\<close> takes an \<open>int\<close>.\<close>

definition unary_value :: "system \<Rightarrow> test_token \<Rightarrow> string \<Rightarrow> shell_error + bool" where
  "unary_value sys n s =
     (case n of
        STREZ \<Rightarrow> Inr (s = [])
      | STRNZ \<Rightarrow> Inr (s \<noteq> [])
      | FILTT \<Rightarrow> bindE (getn s) (\<lambda>i. Inr (is_tty sys (sint (word_of_int i :: 32 word))))
      | FILRD \<Rightarrow> Inr (test_file_access sys s 4)
      | FILWR \<Rightarrow> Inr (test_file_access sys s 2)
      | FILEX \<Rightarrow> Inr (test_file_access sys s 1)
      | _ \<Rightarrow> Inr (filstat sys s n))"

text \<open>
  \<open>rec\<close> is the call of \<open>oexpr\<close> for what is between parentheses. The other calls and the loops take
  fuel.
\<close>

definition test_primary :: "vector \<Rightarrow> system \<Rightarrow> (test_token \<Rightarrow> bool test_run) \<Rightarrow> test_token \<Rightarrow> bool test_run" where
  "test_primary v sys rec n st =
     (if n = EOI then Inr (False, st)
      else if n = LPAREN then
        bindE (lex_move v 1 st) (\<lambda>(nn, st1).
          if nn = RPAREN then Inr (False, st1)
          else bindE (rec nn st1) (\<lambda>(res, st2).
            bindE (lex_move v 1 st2) (\<lambda>(m, st3).
              if m \<noteq> RPAREN then syntax_error [] ''closing paren expected'' else Inr (res, st3))))
      else
        case (if has_type UNOP (t_wp_op st) then t_wp_op st else None) of
          Some op \<Rightarrow>
            let st1 = st\<lparr>t_wp := t_wp st + 1\<rparr>
            in bindE (cell v (t_wp st1)) (\<lambda>c. case c of
                 None \<Rightarrow> syntax_error (op_text op) ''argument expected''
               | Some s \<Rightarrow> bindE (unary_value sys n s) (\<lambda>b. Inr (b, st1)))
        | None \<Rightarrow>
            bindE (lex_ahead v 1 st) (\<lambda>(_, st1).
              if has_type BINOP (t_wp_op st1) then test_binop v sys st1
              else bindE (word_here v st1) (\<lambda>s. Inr (s \<noteq> [], st1))))"

primrec nexpr :: "vector \<Rightarrow> system \<Rightarrow> (test_token \<Rightarrow> bool test_run) \<Rightarrow> nat \<Rightarrow> test_token \<Rightarrow> bool test_run" where
  "nexpr v sys rec 0 n st = Inl Sh_fuel"
| "nexpr v sys rec (Suc k) n st =
     (if n \<noteq> UNOT then test_primary v sys rec n st
      else bindE (lex_ahead v 1 st) (\<lambda>(m, st1).
        let st2 = (if m \<noteq> EOI then st1\<lparr>t_wp := t_wp st1 + 1\<rparr> else st1)
        in bindE (nexpr v sys rec k m st2) (\<lambda>(b, st3). Inr (\<not> b, st3))))"

text \<open>\<open>res\<close> is the value of the operands before.\<close>

primrec aexpr :: "vector \<Rightarrow> system \<Rightarrow> (test_token \<Rightarrow> bool test_run) \<Rightarrow> nat \<Rightarrow> bool \<Rightarrow> test_token \<Rightarrow> bool test_run" where
  "aexpr v sys rec 0 res n st = Inl Sh_fuel"
| "aexpr v sys rec (Suc k) res n st =
     bindE (nexpr v sys rec k n st) (\<lambda>(b, st1).
     bindE (lex_ahead v 1 st1) (\<lambda>(m, st2).
       if m \<noteq> BAND then Inr (res \<and> b, st2)
       else bindE (lex_move v 2 st2) (\<lambda>(m', st3). aexpr v sys rec k (res \<and> b) m' st3)))"

primrec oexpr_loop :: "vector \<Rightarrow> system \<Rightarrow> (test_token \<Rightarrow> bool test_run) \<Rightarrow> nat \<Rightarrow> bool \<Rightarrow> test_token \<Rightarrow> bool test_run" where
  "oexpr_loop v sys rec 0 res n st = Inl Sh_fuel"
| "oexpr_loop v sys rec (Suc k) res n st =
     bindE (aexpr v sys rec k True n st) (\<lambda>(b, st1).
     bindE (lex_ahead v 1 st1) (\<lambda>(m, st2).
       if m \<noteq> BOR then Inr (res \<or> b, st2)
       else bindE (lex_move v 2 st2) (\<lambda>(m', st3). oexpr_loop v sys rec k (res \<or> b) m' st3)))"

primrec oexpr :: "vector \<Rightarrow> system \<Rightarrow> nat \<Rightarrow> test_token \<Rightarrow> bool test_run" where
  "oexpr v sys 0 n st = Inl Sh_fuel"
| "oexpr v sys (Suc k) n st = oexpr_loop v sys (oexpr v sys k) k False n st"

text \<open>Each call takes a cell of the vector or is one of four between two cells.\<close>

definition test_fuel :: "vector \<Rightarrow> nat" where
  "test_fuel v = length v + 5"

section \<open>The command\<close>

text \<open>
  From \<open>eval\<close> on: \<open>p\<close> is \<open>argv\<close>, \<open>n\<close> the first token, \<open>op\<close> the value of \<open>t_wp_op\<close>. The result
  is the exit status.
\<close>

definition test_eval :: "vector \<Rightarrow> system \<Rightarrow> nat \<Rightarrow> test_token \<Rightarrow> t_op option \<Rightarrow> bool \<Rightarrow> shell_error + bool" where
  "test_eval v sys p n op res =
     bindE (oexpr v sys (test_fuel v) n \<lparr>t_wp = p, t_wp_op = op\<rparr>) (\<lambda>(b, st).
     bindE (cell v (t_wp st)) (\<lambda>c0. case c0 of None \<Rightarrow> Inr (res \<noteq> b) | Some s \<Rightarrow>
     bindE (cell v (t_wp st + 1)) (\<lambda>c1.
       if c1 = None then Inr (res \<noteq> b) else syntax_error s ''unexpected operator'')))"

definition test_lex_eval :: "vector \<Rightarrow> system \<Rightarrow> nat \<Rightarrow> bool \<Rightarrow> shell_error + bool" where
  "test_lex_eval v sys p res = bindE (t_lex v p) (\<lambda>(n, op). test_eval v sys p n op res)"

text \<open>
  From \<open>recheck\<close> on: \<open>p\<close> and \<open>argc\<close> are the values after the increment and decrement there.
\<close>

function test_recheck :: "vector \<Rightarrow> system \<Rightarrow> nat \<Rightarrow> nat \<Rightarrow> bool \<Rightarrow> shell_error + bool" where
  "test_recheck v sys p argc res =
     (if argc < 1 then Inr res
      else if argc = 3 \<and> has_type BINOP (Option.bind (v ! (p + 1)) getop) then test_eval v sys p OPERAND None res
      else if argc = 3 \<or> argc = 4 then
        if v ! p = Some ''('' \<and> v ! (p + argc - 1) = Some '')'' then
          test_lex_eval (v[p + argc - 1 := None]) sys (p + 1) res
        else if v ! p = Some ''!'' then test_recheck v sys (p + 1) (argc - 1) False
        else test_lex_eval v sys p res
      else test_lex_eval v sys p res)"
  by pat_completeness auto
termination by (relation "measure (\<lambda>(v, sys, p, argc, res). argc)") auto

declare test_recheck.simps [simp del]

text \<open>\<open>argv\<close> are the arguments with the name of the command; the exit status is 0 or 1.\<close>

definition testcmd :: "system \<Rightarrow> string list \<Rightarrow> shell_error + nat" where
  "testcmd sys argv =
     (let v = map Some argv @ [None]
      in bindE (if take 1 (hd argv) = ''['' then
                  if take 1 (last argv) \<noteq> '']'' then Inl (Sh_error ''missing ]'')
                  else Inr (v[length argv - 1 := None], length argv - 1)
                else Inr (v, length argv)) (\<lambda>(w, argc).
         bindE (test_recheck w sys 1 (argc - 1) True) (\<lambda>res. Inr (if res then 1 else 0))))"

end
