(* ===== verification/Sh_Test_Laws.thy ===== *)
theory Sh_Test_Laws
  imports Sh_Test
begin

text \<open>
  \<open>test\<close>: the command that is written with brackets reads inside its argument vector and returns;
  with up to four arguments both forms decide what POSIX prescribes, up to a negation that the
  code loses.
\<close>

section \<open>Reads stay in the vector\<close>

text \<open>The words of the vector, \<open>N\<close> of them, are followed by two null pointers.\<close>

definition padded :: "vector \<Rightarrow> nat \<Rightarrow> bool" where
  "padded v N \<longleftrightarrow> N + 1 < length v \<and> (\<forall>i < N. v ! i \<noteq> None) \<and> v ! N = None \<and> v ! (N + 1) = None"

lemma cell_padded:
  assumes "padded v N" and "i \<le> N + 1"
  obtains c where "cell v i = Inr c" and "c = None \<longleftrightarrow> N \<le> i"
proof -
  have "cell v i = Inr (v ! i)" using assms by (simp add: cell_def padded_def)
  moreover have "v ! i = None \<longleftrightarrow> N \<le> i"
    using assms by (cases "i < N"; cases "i = N"; cases "i = N + 1") (auto simp: padded_def)
  ultimately show ?thesis by (rule that)
qed

text \<open>Where a token has been read.\<close>

definition stands :: "nat \<Rightarrow> test_token \<Rightarrow> nat \<Rightarrow> bool" where
  "stands N n p \<longleftrightarrow> (if n = EOI then p = N else p < N)"

lemma op_num_ops: "getop s = Some op \<Longrightarrow> op_num op \<noteq> EOI"
proof -
  assume "getop s = Some op"
  then have "op \<in> set ops" by (auto simp: getop_def find_Some_iff)
  moreover have "list_all (\<lambda>op. op_num op \<noteq> EOI) ops" by code_simp
  ultimately show ?thesis by (auto simp: list_all_iff)
qed

lemma isoperand_padded: "padded v N \<Longrightarrow> i < N \<Longrightarrow> \<exists>b. isoperand v i = Inr b"
proof -
  assume v: "padded v N" and i: "i < N"
  have le: "i + 1 \<le> N + 1" "i + 2 \<le> N + 1" using i by simp_all
  show ?thesis
    by (rule cell_padded [OF v le(1)], rule cell_padded [OF v le(2)])
      (auto simp: isoperand_def split: option.split)
qed

lemma t_lex_padded:
  assumes v: "padded v N" and i: "i \<le> N + 1"
  obtains n op where "t_lex v i = Inr (n, op)" and "n = EOI \<longleftrightarrow> N \<le> i" and "op = None \<or> i < N"
proof -
  obtain c where c: "cell v i = Inr c" "c = None \<longleftrightarrow> N \<le> i" by (rule cell_padded [OF assms])
  show ?thesis
  proof (cases c)
    case None
    then show ?thesis using c by (intro that [of EOI None]) (simp_all add: t_lex_def)
  next
    case (Some s)
    then have "i < N" using c by auto
    then obtain b where b: "isoperand v i = Inr b" using isoperand_padded [OF v] by blast
    obtain c' where c': "cell v (Suc i) = Inr c'" using cell_padded [OF v, of "Suc i"] \<open>i < N\<close> by auto
    consider (plain) "t_lex v i = Inr (OPERAND, None)" | (op) op where "getop s = Some op" "t_lex v i = Inr (op_num op, Some op)"
    proof (cases "getop s")
      case None
      then show ?thesis using plain by (simp add: t_lex_def c Some)
    next
      case (Some op)
      have "t_lex v i = Inr (OPERAND, None) \<or> t_lex v i = Inr (op_num op, Some op)"
        using b c' Some by (simp add: t_lex_def c \<open>c = Some s\<close>)
      then show ?thesis using plain op [OF Some] by blast
    qed
    then show ?thesis
    proof cases
      case plain
      then show ?thesis using \<open>i < N\<close> by (intro that [of OPERAND None]) simp_all
    next
      case (op op)
      then show ?thesis using \<open>i < N\<close> op_num_ops [OF op(1)] by (intro that [of "op_num op" "Some op"]) simp_all
    qed
  qed
qed

text \<open>A run gives an error message, or ends at a place not before where it started.\<close>

definition runs :: "nat \<Rightarrow> nat \<Rightarrow> shell_error + 'a \<times> test_state \<Rightarrow> bool" where
  "runs N p X = (case X of Inl e \<Rightarrow> \<exists>m. e = Sh_error m | Inr (b, st) \<Rightarrow> p \<le> t_wp st \<and> t_wp st \<le> N)"

lemma runs_simps [simp]:
  "runs N p (Inl e) \<longleftrightarrow> (\<exists>m. e = Sh_error m)" "runs N p (Inr (b, st)) \<longleftrightarrow> p \<le> t_wp st \<and> t_wp st \<le> N"
  by (simp_all add: runs_def)

lemma runs_bind: "runs N p X \<Longrightarrow> (\<And>b st. p \<le> t_wp st \<Longrightarrow> t_wp st \<le> N \<Longrightarrow> runs N q (f (b, st))) \<Longrightarrow> runs N q (bindE X f)"
  by (cases X) auto

lemma runs_mono: "runs N p X \<Longrightarrow> q \<le> p \<Longrightarrow> runs N q X"
  by (auto simp: runs_def split: sum.splits)

lemma runs_syntax [simp]: "runs N p (syntax_error op msg)"
  by (simp add: syntax_error_def)

lemma getn_error: "getn s = Inl e \<Longrightarrow> \<exists>m. e = Sh_error m"
  by (auto simp: getn_def atomax10_def atomax_def badnum_def split: prod.splits if_splits)

lemma runs_value: "(\<And>e. X = Inl e \<Longrightarrow> \<exists>m. e = Sh_error m) \<Longrightarrow> p \<le> t_wp st \<Longrightarrow> t_wp st \<le> N \<Longrightarrow> runs N p (bindE X (\<lambda>b. Inr (b, st)))"
  by (cases X) auto

lemma unary_value_error: "unary_value sys n s = Inl e \<Longrightarrow> \<exists>m. e = Sh_error m"
  by (cases n) (auto simp: unary_value_def monad_simps dest: getn_error)

lemma binary_value_error: "binary_value sys n a b = Inl e \<Longrightarrow> \<exists>m. e = Sh_error m"
  by (cases n) (auto simp: binary_value_def compare_ints_def monad_simps dest: getn_error)

lemma runs_ahead:
  assumes v: "padded v N" and p: "t_wp st \<le> N" and d: "d \<le> 1"
    and f: "\<And>n op. n = EOI \<longleftrightarrow> N \<le> t_wp st + d \<Longrightarrow> op = None \<or> t_wp st + d < N \<Longrightarrow> t_lex v (t_wp st + d) = Inr (n, op) \<Longrightarrow>
       runs N q (f (n, st\<lparr>t_wp_op := op\<rparr>))"
  shows "runs N q (bindE (lex_ahead v d st) f)"
proof -
  have "t_wp st + d \<le> N + 1" using p d by simp
  from t_lex_padded [OF v this] obtain n op where "t_lex v (t_wp st + d) = Inr (n, op)" "n = EOI \<longleftrightarrow> N \<le> t_wp st + d"
    "op = None \<or> t_wp st + d < N" by blast
  then show ?thesis using f [of n op] by (simp add: lex_ahead_def)
qed

lemma runs_move:
  assumes v: "padded v N" and p: "t_wp st + d \<le> N + 1"
    and f: "\<And>n op. n = EOI \<longleftrightarrow> N \<le> t_wp st + d \<Longrightarrow> t_lex v (t_wp st + d) = Inr (n, op) \<Longrightarrow>
       runs N q (f (n, st\<lparr>t_wp := t_wp st + d, t_wp_op := op\<rparr>))"
  shows "runs N q (bindE (lex_move v d st) f)"
proof -
  from t_lex_padded [OF v p] obtain n op where "t_lex v (t_wp st + d) = Inr (n, op)" "n = EOI \<longleftrightarrow> N \<le> t_wp st + d" by blast
  then show ?thesis using f [of n op] by (simp add: lex_move_def lex_ahead_def)
qed

lemma word_here_padded: "padded v N \<Longrightarrow> t_wp st < N \<Longrightarrow> \<exists>s. word_here v st = Inr s"
  by (rule cell_padded [of v N "t_wp st"]) (auto simp: word_here_def)

lemma test_binop_runs:
  assumes v: "padded v N" and p: "t_wp st < N" and op: "t_lex v (t_wp st + 1) = Inr (n, op)" "op \<noteq> None" "t_wp st + 1 < N"
  shows "runs N (t_wp st) (test_binop v sys st)"
proof -
  obtain s where s: "word_here v st = Inr s" using word_here_padded [OF v p] by blast
  obtain x where x: "op = Some x" using op(2) by blast
  have "t_wp st + 2 \<le> N + 1" using op(3) by simp
  then obtain c where c: "cell v (t_wp st + 2) = Inr c" "c = None \<longleftrightarrow> N \<le> t_wp st + 2" by (rule cell_padded [OF v])
  have "runs N (t_wp st) (bindE (binary_value sys (op_num x) s b) (\<lambda>b. Inr (b, st\<lparr>t_wp_op := op, t_wp := t_wp st + 2\<rparr>)))"
    if "c = Some b" for b
    using that c(2) by (intro runs_value) (auto dest: binary_value_error)
  then show ?thesis
    using s op(1) x c by (cases c) (simp_all add: test_binop_def lex_move_def lex_ahead_def numeral_2_eq_2)
qed

text \<open>What the parser for the inside of parentheses is to give, from \<open>b\<close> on.\<close>

definition inside_runs :: "nat \<Rightarrow> nat \<Rightarrow> (test_token \<Rightarrow> bool test_run) \<Rightarrow> bool" where
  "inside_runs N b rec \<longleftrightarrow> (\<forall>n st. b \<le> t_wp st \<longrightarrow> stands N n (t_wp st) \<longrightarrow> runs N (t_wp st) (rec n st))"

lemma test_primary_runs:
  assumes v: "padded v N" and b: "inside_runs N (Suc p) rec" and st: "t_wp st = p" and n: "n = EOI \<longrightarrow> p \<le> N" "n \<noteq> EOI \<longrightarrow> p < N"
  shows "runs N p (test_primary v sys rec n st)"
proof -
  consider (eoi) "n = EOI" | (paren) "n = LPAREN" | (un) op where "n \<notin> {EOI, LPAREN}" "t_wp_op st = Some op" "op_type op = UNOP"
    | (other) "n \<notin> {EOI, LPAREN}" "\<not> has_type UNOP (t_wp_op st)"
    by (cases "t_wp_op st") (auto simp: has_type_def)
  then show ?thesis
  proof cases
    case eoi
    then show ?thesis using n st by (simp add: test_primary_def)
  next
    case paren
    have "runs N p (if nn = RPAREN then Inr (False, st1) else bindE (rec nn st1) (\<lambda>(res, st2).
        bindE (lex_move v 1 st2) (\<lambda>(m, st3). if m \<noteq> RPAREN then syntax_error [] ''closing paren expected'' else Inr (res, st3))))"
      if nn: "nn = EOI \<longleftrightarrow> N \<le> p + 1" and st1: "t_wp st1 = p + 1" for nn st1
    proof -
      have "stands N nn (t_wp st1)" using nn st1 n paren by (auto simp: stands_def)
      then have "runs N (p + 1) (rec nn st1)" using b st1 unfolding inside_runs_def by (metis Suc_eq_plus1 order_refl)
      then have "runs N p (bindE (rec nn st1) (\<lambda>(res, st2).
        bindE (lex_move v 1 st2) (\<lambda>(m, st3). if m \<noteq> RPAREN then syntax_error [] ''closing paren expected'' else Inr (res, st3))))"
        by (rule runs_bind) (auto intro!: runs_move [OF v])
      then show ?thesis using nn st1 by auto
    qed
    then show ?thesis using paren st n by (auto simp: test_primary_def intro!: runs_move [OF v])
  next
    case (un op)
    have "p + 1 \<le> N + 1" using un n by simp
    then obtain c where c: "cell v (p + 1) = Inr c" "c = None \<longleftrightarrow> N \<le> p + 1" by (rule cell_padded [OF v])
    have "runs N p (bindE (unary_value sys n s) (\<lambda>b. Inr (b, st\<lparr>t_wp := p + 1\<rparr>)))" if "c = Some s" for s
      using that c(2) un by (intro runs_value) (auto dest: unary_value_error)
    then show ?thesis using un st c by (cases c) (simp_all add: test_primary_def has_type_def)
  next
    case other
    have p: "p < N" using other n by simp
    have "runs N p (if has_type BINOP op then test_binop v sys (st\<lparr>t_wp_op := op\<rparr>)
        else bindE (word_here v (st\<lparr>t_wp_op := op\<rparr>)) (\<lambda>s. Inr (s \<noteq> [], st\<lparr>t_wp_op := op\<rparr>)))"
      if "t_lex v (p + 1) = Inr (m, op)" "op = None \<or> p + 1 < N" for m op
    proof (cases "has_type BINOP op")
      case True
      then have "op \<noteq> None" by (cases op) (auto simp: has_type_def)
      then show ?thesis using True test_binop_runs [OF v, of "st\<lparr>t_wp_op := op\<rparr>" m op sys] that st p by auto
    next
      case False
      then show ?thesis using word_here_padded [OF v, of "st\<lparr>t_wp_op := op\<rparr>"] st p by auto
    qed
    then show ?thesis
      using other st p by (auto simp: test_primary_def intro!: runs_ahead [OF v])
  qed
qed

lemma inside_runs_mono: "inside_runs N a rec \<Longrightarrow> a \<le> b \<Longrightarrow> inside_runs N b rec"
  by (simp add: inside_runs_def)

lemma nexpr_runs:
  assumes v: "padded v N"
  shows "inside_runs N (Suc (t_wp st)) rec \<Longrightarrow> 1 \<le> k \<Longrightarrow> n = EOI \<longrightarrow> t_wp st \<le> N \<Longrightarrow>
    n \<noteq> EOI \<longrightarrow> t_wp st < N \<and> N + 1 \<le> k + t_wp st \<Longrightarrow> runs N (t_wp st) (nexpr v sys rec k n st)"
proof (induction k arbitrary: n st)
  case (Suc k)
  let ?p = "t_wp st"
  show ?case
  proof (cases "n = UNOT")
    case False
    then show ?thesis using Suc.prems by (auto intro: test_primary_runs [OF v])
  next
    case True
    then have p: "?p < N" "N \<le> k + ?p" using Suc.prems(4) by simp_all
    have "runs N ?p (bindE (nexpr v sys rec k m (if m \<noteq> EOI then st1\<lparr>t_wp := t_wp st1 + 1\<rparr> else st1)) (\<lambda>(b, st3). Inr (\<not> b, st3)))"
      if m: "m = EOI \<longleftrightarrow> N \<le> ?p + 1" and st1: "t_wp st1 = ?p" for m st1
    proof -
      let ?st2 = "if m \<noteq> EOI then st1\<lparr>t_wp := t_wp st1 + 1\<rparr> else st1"
      have "runs N (t_wp ?st2) (nexpr v sys rec k m ?st2)"
        by (rule Suc.IH) (use Suc.prems(1) m st1 p inside_runs_mono [OF Suc.prems(1)] in auto)
      then show ?thesis by (rule runs_bind) (use st1 in \<open>auto split: if_splits\<close>)
    qed
    then show ?thesis using True p by (auto simp: Let_def intro!: runs_ahead [OF v])
  qed
qed simp

lemma aexpr_runs:
  assumes v: "padded v N"
  shows "inside_runs N (Suc (t_wp st)) rec \<Longrightarrow> 2 \<le> k \<Longrightarrow> stands N n (t_wp st) \<Longrightarrow> N + 2 \<le> k + t_wp st \<Longrightarrow>
    runs N (t_wp st) (aexpr v sys rec k res n st)"
proof (induction k arbitrary: res n st)
  case (Suc k)
  let ?p = "t_wp st"
  have X: "runs N ?p (nexpr v sys rec k n st)"
    by (rule nexpr_runs [OF v Suc.prems(1)]) (use Suc.prems in \<open>auto simp: stands_def split: if_splits\<close>)
  have more: "runs N ?p (bindE (lex_move v 2 st2) (\<lambda>(m', st3). aexpr v sys rec k (res \<and> b) m' st3))"
    if "?p \<le> t_wp st2" "t_wp st2 + 1 < N" for st2 b
  proof (rule runs_move [OF v])
    fix m op
    assume m: "m = EOI \<longleftrightarrow> N \<le> t_wp st2 + 2"
    let ?st3 = "st2\<lparr>t_wp := t_wp st2 + 2, t_wp_op := op\<rparr>"
    have "runs N (t_wp ?st3) (aexpr v sys rec k (res \<and> b) m ?st3)"
      by (rule Suc.IH) (use that m Suc.prems inside_runs_mono [OF Suc.prems(1)] in \<open>auto simp: stands_def\<close>)
    then show "runs N ?p (case (m, ?st3) of (m', st3) \<Rightarrow> aexpr v sys rec k (res \<and> b) m' st3)"
      using that by (auto intro: runs_mono)
  qed (use that in simp)
  show ?case
    unfolding aexpr.simps
    by (rule runs_bind [OF X], simp only: prod.case, rule runs_ahead [OF v]) (use more in auto)
qed simp

lemma oexpr_loop_runs:
  assumes v: "padded v N"
  shows "inside_runs N (Suc (t_wp st)) rec \<Longrightarrow> 3 \<le> k \<Longrightarrow> stands N n (t_wp st) \<Longrightarrow> N + 3 \<le> k + t_wp st \<Longrightarrow>
    runs N (t_wp st) (oexpr_loop v sys rec k res n st)"
proof (induction k arbitrary: res n st)
  case (Suc k)
  let ?p = "t_wp st"
  have X: "runs N ?p (aexpr v sys rec k True n st)"
    by (rule aexpr_runs [OF v Suc.prems(1)]) (use Suc.prems in auto)
  have more: "runs N ?p (bindE (lex_move v 2 st2) (\<lambda>(m', st3). oexpr_loop v sys rec k (res \<or> b) m' st3))"
    if "?p \<le> t_wp st2" "t_wp st2 + 1 < N" for st2 b
  proof (rule runs_move [OF v])
    fix m op
    assume m: "m = EOI \<longleftrightarrow> N \<le> t_wp st2 + 2"
    let ?st3 = "st2\<lparr>t_wp := t_wp st2 + 2, t_wp_op := op\<rparr>"
    have "runs N (t_wp ?st3) (oexpr_loop v sys rec k (res \<or> b) m ?st3)"
      by (rule Suc.IH) (use that m Suc.prems inside_runs_mono [OF Suc.prems(1)] in \<open>auto simp: stands_def\<close>)
    then show "runs N ?p (case (m, ?st3) of (m', st3) \<Rightarrow> oexpr_loop v sys rec k (res \<or> b) m' st3)"
      using that by (auto intro: runs_mono)
  qed (use that in simp)
  show ?case
    unfolding oexpr_loop.simps
    by (rule runs_bind [OF X], simp only: prod.case, rule runs_ahead [OF v]) (use more in auto)
qed simp

lemma oexpr_runs:
  assumes v: "padded v N"
  shows "4 \<le> k \<Longrightarrow> stands N n (t_wp st) \<Longrightarrow> N + 4 \<le> k + t_wp st \<Longrightarrow> runs N (t_wp st) (oexpr v sys k n st)"
proof (induction k arbitrary: n st)
  case (Suc k)
  have "inside_runs N (Suc (t_wp st)) (oexpr v sys k)"
    unfolding inside_runs_def
  proof (intro allI impI)
    fix n' and st' :: test_state
    assume a: "Suc (t_wp st) \<le> t_wp st'" "stands N n' (t_wp st')"
    then have "t_wp st' \<le> N" by (simp add: stands_def split: if_splits)
    then show "runs N (t_wp st') (oexpr v sys k n' st')"
      using a Suc.prems by (intro Suc.IH) simp_all
  qed
  then show ?case unfolding oexpr.simps by (rule oexpr_loop_runs [OF v]) (use Suc.prems in simp_all)
qed simp

lemma test_eval_runs:
  assumes v: "padded v N" and n: "stands N n p" and e: "test_eval v sys p n op res = Inl e"
  shows "\<exists>m. e = Sh_error m"
proof -
  let ?st = "\<lparr>t_wp = p, t_wp_op = op\<rparr>"
  have X: "runs N p (oexpr v sys (test_fuel v) n ?st)"
    using oexpr_runs [OF v, of "test_fuel v" n ?st sys] v n by (simp add: test_fuel_def padded_def)
  show ?thesis
  proof (cases "oexpr v sys (test_fuel v) n ?st")
    case (Inl e')
    then show ?thesis using X e by (simp add: test_eval_def)
  next
    case (Inr x)
    obtain b st where x: "x = (b, st)" by (cases x)
    have le: "t_wp st \<le> N + 1" "t_wp st + 1 \<le> N + 1" using X by (simp_all add: Inr x)
    obtain c d where "cell v (t_wp st) = Inr c" "cell v (t_wp st + 1) = Inr d"
      using cell_padded [OF v le(1)] cell_padded [OF v le(2)] by metis
    then show ?thesis using e by (auto simp: test_eval_def Inr x syntax_error_def split: option.splits if_splits)
  qed
qed

lemma test_lex_eval_runs:
  assumes v: "padded v N" and p: "p \<le> N" and e: "test_lex_eval v sys p res = Inl e"
  shows "\<exists>m. e = Sh_error m"
proof -
  have "p \<le> N + 1" using p by simp
  then obtain n op where "t_lex v p = Inr (n, op)" "n = EOI \<longleftrightarrow> N \<le> p" by (rule t_lex_padded [OF v])
  then show ?thesis
    using e p test_eval_runs [OF v, of n p sys op res e] by (auto simp: test_lex_eval_def stands_def)
qed

lemma padded_shorten: "padded v N \<Longrightarrow> 0 < N \<Longrightarrow> padded (v[N - 1 := None]) (N - 1)"
  by (auto simp: padded_def nth_list_update)

lemma test_recheck_runs:
  "padded v N \<Longrightarrow> N = p + argc \<Longrightarrow> test_recheck v sys p argc res = Inl e \<Longrightarrow> \<exists>m. e = Sh_error m"
proof (induction v sys p argc res rule: test_recheck.induct)
  case (1 v sys p argc res)
  note prems = 1(2-4)
  consider (none) "argc < 1" | (bin) "\<not> argc < 1" "argc = 3" "has_type BINOP (Option.bind (v ! (p + 1)) getop)"
    | (paren) "\<not> argc < 1" "\<not> (argc = 3 \<and> has_type BINOP (Option.bind (v ! (p + 1)) getop))" "argc = 3 \<or> argc = 4"
        "v ! p = Some ''('' \<and> v ! (p + argc - 1) = Some '')''"
    | (neg) "\<not> argc < 1" "\<not> (argc = 3 \<and> has_type BINOP (Option.bind (v ! (p + 1)) getop))" "argc = 3 \<or> argc = 4"
        "\<not> (v ! p = Some ''('' \<and> v ! (p + argc - 1) = Some '')'')" "v ! p = Some ''!''"
    | (lex) "test_recheck v sys p argc res = test_lex_eval v sys p res"
    by (cases "argc < 1"; cases "argc = 3 \<and> has_type BINOP (Option.bind (v ! (p + 1)) getop)"; cases "argc = 3 \<or> argc = 4";
        cases "v ! p = Some ''('' \<and> v ! (p + argc - 1) = Some '')''"; cases "v ! p = Some ''!''")
      (auto simp: test_recheck.simps)
  then show ?case
  proof cases
    case none
    then show ?thesis using prems by (simp add: test_recheck.simps)
  next
    case bin
    then have "stands N OPERAND p" using prems by (simp add: stands_def)
    from test_eval_runs [OF prems(1) this] show ?thesis using prems(3) bin by (simp add: test_recheck.simps)
  next
    case paren
    then have "padded (v[p + argc - 1 := None]) (N - 1)" using padded_shorten [OF prems(1)] prems(2) by simp
    moreover have "test_recheck v sys p argc res = test_lex_eval (v[p + argc - 1 := None]) sys (p + 1) res"
      using paren by (subst test_recheck.simps) auto
    ultimately show ?thesis
      using test_lex_eval_runs [of "v[p + argc - 1 := None]" "N - 1" "p + 1" sys res e] paren(1,3) prems(2,3) by auto
  next
    case neg
    have "test_recheck v sys p argc res = test_recheck v sys (p + 1) (argc - 1) False"
      using neg by (subst test_recheck.simps) auto
    then show ?thesis using 1(1) [OF neg(1-5)] prems neg(1) by simp
  next
    case lex
    then show ?thesis using test_lex_eval_runs [OF prems(1), of p sys res e] prems by simp
  qed
qed

text \<open>
  C31: the command \<open>[\<close> returns and reads inside its argument vector: whatever the arguments are, it
  gives an exit status or an error message.
\<close>

theorem bracket_returns: "\<exists>m. testcmd sys (''['' # args) = Inl (Sh_error m) \<or> (\<exists>n \<le> 1. testcmd sys (''['' # args) = Inr n)"
proof (cases "take 1 (last (''['' # args)) = '']''")
  case False
  then show ?thesis by (simp add: testcmd_def Let_def)
next
  case True
  let ?v = "(map Some (''['' # args) @ [None])[length args := None]"
  have ne: "args \<noteq> []" using True by auto
  have "padded ?v (length args)"
    by (auto simp: padded_def nth_list_update nth_append nth_Cons split: nat.splits)
  from test_recheck_runs [OF this, of 1 "length args - 1" sys True]
  show ?thesis using ne True by (cases "test_recheck ?v sys 1 (length args - 1) True") (auto simp: testcmd_def Let_def)
qed

section \<open>Up to four arguments\<close>

text \<open>What POSIX prescribes; \<open>None\<close> where it leaves the result unspecified.\<close>

definition op_of :: "token_types \<Rightarrow> string \<Rightarrow> test_token option" where
  "op_of t s = (case getop s of None \<Rightarrow> None | Some op \<Rightarrow> if op_type op = t then Some (op_num op) else None)"

definition negated :: "shell_error + bool \<Rightarrow> shell_error + bool" where
  "negated r = bindE r (\<lambda>b. Inr (\<not> b))"

definition posix2 :: "system \<Rightarrow> string \<Rightarrow> string \<Rightarrow> (shell_error + bool) option" where
  "posix2 sys a b =
     (if a = ''!'' then Some (Inr (b = [])) else map_option (\<lambda>n. unary_value sys n b) (op_of UNOP a))"

definition posix3 :: "system \<Rightarrow> string \<Rightarrow> string \<Rightarrow> string \<Rightarrow> (shell_error + bool) option" where
  "posix3 sys a b c =
     (case op_of BINOP b of
        Some n \<Rightarrow> Some (binary_value sys n a c)
      | None \<Rightarrow> if a = ''!'' then map_option negated (posix2 sys b c)
                else if a = ''('' \<and> c = '')'' then Some (Inr (b \<noteq> [])) else None)"

fun posix_test :: "system \<Rightarrow> string list \<Rightarrow> (shell_error + bool) option" where
  "posix_test sys [] = Some (Inr False)"
| "posix_test sys [a] = Some (Inr (a \<noteq> []))"
| "posix_test sys [a, b] = posix2 sys a b"
| "posix_test sys [a, b, c] = posix3 sys a b c"
| "posix_test sys [a, b, c, d] =
     (if a = ''!'' then map_option negated (posix3 sys b c d)
      else if a = ''('' \<and> d = '')'' then posix2 sys b c else None)"
| "posix_test sys args = None"

definition exit_status :: "shell_error + bool \<Rightarrow> shell_error + nat" where
  "exit_status r = bindE r (\<lambda>b. Inr (if b then 0 else 1))"

text \<open>The four arguments with which the code loses a negation.\<close>

fun double_negation :: "string list \<Rightarrow> bool" where
  "double_negation [a, b, c, d] = (a = ''!'' \<and> b = ''!'' \<and> op_of BINOP c = None)"
| "double_negation args = False"

text \<open>The words from a place of the vector on, up to a null pointer.\<close>

fun words_at :: "vector \<Rightarrow> nat \<Rightarrow> string list \<Rightarrow> bool" where
  "words_at v p [] = (cell v p = Inr None)"
| "words_at v p (x # xs) = (cell v p = Inr (Some x) \<and> words_at v (Suc p) xs)"

lemma t_lex_end: "cell v p = Inr None \<Longrightarrow> t_lex v p = Inr (EOI, None)"
  by (simp add: t_lex_def)

lemma ops_text: "getop s = Some op \<Longrightarrow> op_text op = s \<and> op \<in> set ops"
  by (auto simp: getop_def find_Some_iff)

lemma ops_tokens:
  "list_all (\<lambda>op. op_num op \<noteq> EOI \<and> (op_num op = LPAREN \<longleftrightarrow> op_text op = ''('') \<and>
     (op_num op = UNOT \<longleftrightarrow> op_text op = ''!'') \<and> (op_text op = ''!'' \<longrightarrow> op_type op = BUNOP) \<and>
     (op_text op = ''('' \<longrightarrow> op_type op = PAREN) \<and> op_text op \<noteq> []) ops"
  by code_simp

lemma getop_facts:
  assumes "getop s = Some op"
  shows "op_num op \<noteq> EOI" "op_num op = LPAREN \<longleftrightarrow> s = ''(''" "op_num op = UNOT \<longleftrightarrow> s = ''!''" "s \<noteq> []"
    "op_type op = UNOP \<or> op_type op = BINOP \<Longrightarrow> s \<noteq> ''!'' \<and> s \<noteq> ''(''"
  using ops_text [OF assms] bspec [OF ops_tokens [unfolded list_all_iff], of op] by auto

text \<open>The last word of a vector.\<close>

lemma t_lex_last:
  assumes "words_at v p [x]"
  shows "t_lex v p = (case getop x of None \<Rightarrow> Inr (OPERAND, None)
    | Some op \<Rightarrow> if op_type op = UNOP \<or> x = ''('' then Inr (OPERAND, None) else Inr (op_num op, Some op))"
  using assms getop_facts(2) [of x] by (auto simp: t_lex_def isoperand_def split: option.splits)

lemma nexpr_last:
  assumes w: "words_at v p [x]" and l: "t_lex v p = Inr (n, op)" and st: "t_wp st = p" "t_wp_op st = op" and k: "2 \<le> k"
  shows "\<exists>st'. nexpr v sys rec k n st = Inr (x \<noteq> [], st') \<and> t_wp st' = p"
proof -
  obtain k' where k': "k = Suc (Suc k')" using k by (cases k; cases "k - 1") auto
  have e: "t_lex v (Suc p) = Inr (EOI, None)" using w by (simp add: t_lex_end)
  have n: "n = OPERAND \<and> op = None \<or> (\<exists>o'. op = Some o' \<and> n = op_num o' \<and> getop x = Some o' \<and> op_type o' \<noteq> UNOP \<and> x \<noteq> ''('')"
    using l unfolding t_lex_last [OF w] by (auto split: option.splits if_splits)
  show ?thesis
  proof (cases "n = UNOT")
    case True
    then have "x \<noteq> []" using n getop_facts(3,4) by auto
    then show ?thesis using True e st by (simp add: k' lex_ahead_def test_primary_def)
  next
    case False
    have "n \<noteq> EOI \<and> n \<noteq> LPAREN \<and> \<not> has_type UNOP op"
      using n
    proof (elim disjE exE conjE)
      fix o'
      assume "op = Some o'" "n = op_num o'" "getop x = Some o'" "op_type o' \<noteq> UNOP" "x \<noteq> ''(''"
      then show ?thesis using getop_facts(1,2) [of x o'] by (simp add: has_type_def)
    qed (simp add: has_type_def)
    then show ?thesis
      using False e st w by (simp add: k' test_primary_def lex_ahead_def word_here_def has_type_def)
  qed
qed

text \<open>An expression of one operand, from its \<open>nexpr\<close>.\<close>

lemma test_eval_nexpr:
  assumes run: "nexpr v sys (oexpr v sys (length v + 4)) (length v + 2) n \<lparr>t_wp = p, t_wp_op = op\<rparr> = bindE r (\<lambda>b. Inr (b, st1))"
    and w: "words_at v (t_wp st1) [x]"
  shows "test_eval v sys p n op res = bindE r (\<lambda>b. Inr (res \<noteq> b))"
proof -
  have e: "t_lex v (Suc (t_wp st1)) = Inr (EOI, None)" using w by (simp add: t_lex_end)
  have "oexpr v sys (test_fuel v) n \<lparr>t_wp = p, t_wp_op = op\<rparr> = bindE r (\<lambda>b. Inr (b, st1\<lparr>t_wp_op := None\<rparr>))"
    using run by (cases r) (simp_all add: test_fuel_def eval_nat_numeral lex_ahead_def e [simplified])
  then show ?thesis using w by (cases r) (simp_all add: test_eval_def)
qed

lemma t_lex_last_Inr: "words_at v p [x] \<Longrightarrow> \<exists>n op. t_lex v p = Inr (n, op)"
  by (simp add: t_lex_last split: option.split)

lemma test_lex_eval_last:
  assumes w: "words_at v p [x]"
  shows "test_lex_eval v sys p res = Inr (res \<noteq> (x \<noteq> []))"
proof -
  obtain n op where l: "t_lex v p = Inr (n, op)" using t_lex_last_Inr [OF w] by blast
  obtain st' where "nexpr v sys (oexpr v sys (length v + 4)) (length v + 2) n \<lparr>t_wp = p, t_wp_op = op\<rparr> = Inr (x \<noteq> [], st')" "t_wp st' = p"
    using nexpr_last [OF w l, of "\<lparr>t_wp = p, t_wp_op = op\<rparr>" "length v + 2"] by auto
  then show ?thesis using l w test_eval_nexpr [of v sys n p op "Inr (x \<noteq> [])" st' x res] by (simp add: test_lex_eval_def)
qed

lemma op_of_Some: "op_of t s = Some n \<longleftrightarrow> (\<exists>op. getop s = Some op \<and> op_type op = t \<and> op_num op = n)"
  by (auto simp: op_of_def split: option.splits)

lemma getop_not: "getop ''!'' = Some \<lparr>op_text = ''!'', op_num = UNOT, op_type = BUNOP\<rparr>"
  by code_simp

lemma getop_open: "getop ''('' = Some \<lparr>op_text = ''('', op_num = LPAREN, op_type = PAREN\<rparr>"
  by code_simp

lemma t_lex_not: "cell v p = Inr (Some ''!'') \<Longrightarrow> t_lex v p = Inr (UNOT, getop ''!'')"
  by (simp add: t_lex_def getop_not)

lemma test_lex_eval_two:
  assumes w: "words_at v p [a, b]" and s: "posix2 sys a b = Some r"
  shows "test_lex_eval v sys p res = bindE r (\<lambda>x. Inr (res \<noteq> x))"
proof (cases "a = ''!''")
  case True
  have r: "r = Inr (b = [])" using s True by (simp add: posix2_def)
  have wb: "words_at v (Suc p) [b]" using w by simp
  obtain m op where l: "t_lex v (Suc p) = Inr (m, op)" using t_lex_last_Inr [OF wb] by blast
  then have "m \<noteq> EOI"
    using getop_facts(1) [of b] unfolding t_lex_last [OF wb] by (auto split: option.splits if_splits)
  let ?st = "\<lparr>t_wp = Suc p, t_wp_op = op\<rparr>"
  obtain st' where n: "nexpr v sys (oexpr v sys (length v + 4)) (length v + 1) m ?st = Inr (b \<noteq> [], st')" "t_wp st' = Suc p"
    using nexpr_last [OF wb l, of ?st "length v + 1"] w by (cases v) (auto simp: cell_def)
  have "nexpr v sys (oexpr v sys (length v + 4)) (length v + 2) UNOT \<lparr>t_wp = p, t_wp_op = getop ''!''\<rparr> = Inr (b = [], st')"
    using n(1) l \<open>m \<noteq> EOI\<close> by (simp add: eval_nat_numeral lex_ahead_def)
  then show ?thesis
    using t_lex_not w True test_eval_nexpr [of v sys UNOT p "getop ''!''" "Inr (b = [])" st' b res] n(2) wb
    by (simp add: test_lex_eval_def r)
next
  case False
  then obtain n where n: "op_of UNOP a = Some n" "r = unary_value sys n b" using s by (auto simp: posix2_def)
  then obtain op where op: "getop a = Some op" "op_type op = UNOP" "op_num op = n" by (auto simp: op_of_Some)
  have tok: "n \<noteq> EOI" "n \<noteq> LPAREN" "n \<noteq> UNOT" using getop_facts [OF op(1)] op by auto
  have l: "t_lex v p = Inr (n, Some op)" using w op tok by (simp add: t_lex_def isoperand_def)
  have "nexpr v sys (oexpr v sys (length v + 4)) (length v + 2) n \<lparr>t_wp = p, t_wp_op = Some op\<rparr> =
      bindE r (\<lambda>x. Inr (x, \<lparr>t_wp = Suc p, t_wp_op = Some op\<rparr>))"
    using tok op w n(2) by (simp add: eval_nat_numeral test_primary_def has_type_def)
  then show ?thesis using l w test_eval_nexpr [of v sys n p "Some op" r _ b res] by (simp add: test_lex_eval_def)
qed

lemma test_eval_binary:
  assumes w: "words_at v p [a, b, c]" and n: "op_of BINOP b = Some n"
  shows "test_eval v sys p OPERAND None res = bindE (binary_value sys n a c) (\<lambda>x. Inr (res \<noteq> x))"
proof -
  obtain op where op: "getop b = Some op" "op_type op = BINOP" "op_num op = n" using n by (auto simp: op_of_Some)
  have tok: "n \<noteq> EOI" "n \<noteq> LPAREN" using getop_facts [OF op(1)] op by auto
  have l: "t_lex v (Suc p) = Inr (n, Some op)" using w op tok by (simp add: t_lex_def)
  have "nexpr v sys (oexpr v sys (length v + 4)) (length v + 2) OPERAND \<lparr>t_wp = p, t_wp_op = None\<rparr> =
      bindE (binary_value sys n a c) (\<lambda>x. Inr (x, \<lparr>t_wp = Suc (Suc p), t_wp_op = Some op\<rparr>))"
    using w op l by (simp add: eval_nat_numeral test_primary_def has_type_def lex_ahead_def lex_move_def test_binop_def word_here_def)
  then show ?thesis using w test_eval_nexpr [of v sys OPERAND p None "binary_value sys n a c" _ c res] by simp
qed

lemma words_at_nth: "words_at v p (x # xs) \<Longrightarrow> v ! p = Some x"
  by (simp add: cell_def split: if_splits)

lemma cell_shorten: "cell (v[i := None]) j = (if i = j \<and> j < length v then Inr None else cell v j)"
  by (simp add: cell_def nth_list_update)

lemma has_type_binop: "has_type BINOP (Option.bind (Some b) getop) \<longleftrightarrow> op_of BINOP b \<noteq> None"
  by (auto simp: has_type_def op_of_def split: option.splits)

text \<open>With three arguments; a negation is only right where the result has not been negated yet.\<close>

lemma test_recheck_three:
  assumes w: "words_at v p [a, b, c]" and s: "posix3 sys a b c = Some r" and res: "res \<or> a \<noteq> ''!'' \<or> op_of BINOP b \<noteq> None"
  shows "test_recheck v sys p 3 res = bindE r (\<lambda>x. Inr (res \<noteq> x))"
proof -
  have nth: "v ! p = Some a" "v ! Suc p = Some b" "v ! Suc (Suc p) = Some c"
    using words_at_nth [of v p a "[b, c]"] words_at_nth [of v "Suc p" b "[c]"] words_at_nth [of v "Suc (Suc p)" c "[]"] w by simp_all
  have eq: "test_recheck v sys p 3 res =
      (if op_of BINOP b \<noteq> None then test_eval v sys p OPERAND None res
       else if a = ''('' \<and> c = '')'' then test_lex_eval (v[Suc (Suc p) := None]) sys (Suc p) res
       else if a = ''!'' then test_recheck v sys (Suc p) 2 False else test_lex_eval v sys p res)"
    by (subst test_recheck.simps) (simp add: nth has_type_binop [unfolded bind.bind_lunit] numeral_2_eq_2 numeral_3_eq_3)
  show ?thesis
  proof (cases "op_of BINOP b")
    case (Some n)
    then show ?thesis using s test_eval_binary [OF w Some, of sys res] by (simp add: eq posix3_def)
  next
    case None
    show ?thesis
    proof (cases "a = ''!''")
      case True
      then obtain r' where r': "posix2 sys b c = Some r'" "r = negated r'" using s None by (auto simp: posix3_def)
      have "test_recheck v sys (Suc p) 2 False = test_lex_eval v sys (Suc p) False"
        by (subst test_recheck.simps) simp
      then show ?thesis
        using test_lex_eval_two [of v "Suc p" b c sys r' False] w r' None True res
        unfolding eq by (cases r') (simp_all add: negated_def)
    next
      case False
      then have p: "a = ''(''" "c = '')''" "r = Inr (b \<noteq> [])" using s None by (auto simp: posix3_def split: if_splits)
      have "words_at (v[Suc (Suc p) := None]) (Suc p) [b]" using w by (simp add: cell_shorten) (simp add: cell_def split: if_splits)
      then show ?thesis using None False p test_lex_eval_last by (simp add: eq)
    qed
  qed
qed

lemma test_recheck_lex: "argc = 1 \<or> argc = 2 \<Longrightarrow> test_recheck v sys p argc res = test_lex_eval v sys p res"
  by (subst test_recheck.simps) auto

lemma test_recheck_four:
  assumes w: "words_at v p [a, b, c, d]" and s: "posix_test sys [a, b, c, d] = Some r"
    and neg: "\<not> double_negation [a, b, c, d]"
  shows "test_recheck v sys p 4 True = bindE r (\<lambda>x. Inr (\<not> x))"
proof -
  have nth: "v ! p = Some a" "v ! Suc (Suc (Suc p)) = Some d"
    using words_at_nth [of v p a "[b, c, d]"] words_at_nth [of v "Suc (Suc (Suc p))" d "[]"] w by simp_all
  have eq: "test_recheck v sys p 4 True =
      (if a = ''('' \<and> d = '')'' then test_lex_eval (v[Suc (Suc (Suc p)) := None]) sys (Suc p) True
       else if a = ''!'' then test_recheck v sys (Suc p) 3 False else test_lex_eval v sys p True)"
    by (subst test_recheck.simps) (simp add: nth eval_nat_numeral)
  show ?thesis
  proof (cases "a = ''!''")
    case True
    then obtain r' where r': "posix3 sys b c d = Some r'" "r = negated r'" using s by auto
    have "b \<noteq> ''!'' \<or> op_of BINOP c \<noteq> None" using neg True by auto
    then show ?thesis
      using test_recheck_three [of v "Suc p" b c d sys r' False] w r' True
      unfolding eq by (cases r') (simp_all add: negated_def)
  next
    case False
    then have p: "a = ''(''" "d = '')''" "posix2 sys b c = Some r" using s by (auto split: if_splits)
    have "words_at (v[Suc (Suc (Suc p)) := None]) (Suc p) [b, c]"
      using w by (simp add: cell_shorten) (simp add: cell_def split: if_splits)
    from test_lex_eval_two [OF this p(3), of True] show ?thesis using p unfolding eq by simp
  qed
qed

lemma test_recheck_posix:
  assumes w: "words_at v p args" and s: "posix_test sys args = Some r" and neg: "\<not> double_negation args"
  shows "test_recheck v sys p (length args) True = bindE r (\<lambda>x. Inr (\<not> x))"
proof -
  consider "args = []" | a where "args = [a]" | a b where "args = [a, b]" | a b c where "args = [a, b, c]"
    | a b c d where "args = [a, b, c, d]"
    using s by (cases "(sys, args)" rule: posix_test.cases) auto
  then show ?thesis
  proof cases
    case 1
    then show ?thesis using s by (subst test_recheck.simps) auto
  next
    case 2
    then show ?thesis using s w test_lex_eval_last [of v p _ sys True] by (auto simp: test_recheck_lex)
  next
    case (3 a b)
    then show ?thesis using s w test_lex_eval_two [of v p a b sys r True] by (simp add: test_recheck_lex)
  next
    case (4 a b c)
    then show ?thesis using s w test_recheck_three [of v p a b c sys r True] by (simp add: eval_nat_numeral)
  next
    case (5 a b c d)
    then show ?thesis using s w neg test_recheck_four [of v p a b c d sys r] by (simp add: eval_nat_numeral)
  qed
qed

lemma words_at_vector: "words_at (pre @ map Some xs @ None # post) (length pre) xs"
proof (induction xs arbitrary: pre)
  case Nil
  then show ?case by (simp add: cell_def)
next
  case (Cons x xs)
  from Cons.IH [of "pre @ [Some x]"] show ?case by (simp add: cell_def)
qed


definition no_system :: system where
  "no_system = \<lparr>stat_of = (\<lambda>_. None), lstat_of = (\<lambda>_. None), acc_ok = (\<lambda>_ _. False), is_tty = (\<lambda>_. False), euid = 1, egid = 1\<rparr>"


section \<open>Where the code and POSIX part\<close>

text \<open>The second of two exclamation marks sets the result instead of negating it.\<close>

lemma negation_lost:
  "testcmd no_system [''test'', ''!'', ''!'', ''-n'', ''x''] = Inr 1 \<and>
   posix_test no_system [''!'', ''!'', ''-n'', ''x''] = Some (Inr True)"
  by code_simp

text \<open>An expression that ends with \<open>-a\<close> is read two cells further, behind the null pointer.\<close>

lemma test_reads_behind: "testcmd no_system [''test'', ''x'', ''-a''] = Inl Sh_undefined"
  by code_simp

text \<open>Only the first character of the last word is compared with the bracket.\<close>

lemma bracket_by_first_character: "testcmd no_system [''['', ''x'', '']y''] = Inr 0"
  by code_simp

end
