(* ===== verification/Sh_Syntax.thy ===== *)
theory Sh_Syntax
  imports Sh_Var
begin

text \<open>
  The syntax classes of characters: the control characters of \<open>parser.h\<close> and the tables that
  \<open>mksyntax.c\<close> writes. A table is indexed by a signed character, or by \<open>PEOF\<close>, -129.
\<close>

section \<open>Control characters\<close>

definition CTL_FIRST :: int where "CTL_FIRST = - 127"
definition CTL_LAST :: int where "CTL_LAST = - 120"

definition CTLESC :: char where "CTLESC = CHR 0x81"
definition CTLVAR :: char where "CTLVAR = CHR 0x82"
definition CTLENDVAR :: char where "CTLENDVAR = CHR 0x83"
definition CTLBACKQ :: char where "CTLBACKQ = CHR 0x84"
definition CTLARI :: char where "CTLARI = CHR 0x86"
definition CTLENDARI :: char where "CTLENDARI = CHR 0x87"
definition CTLQUOTEMARK :: char where "CTLQUOTEMARK = CHR 0x88"

lemmas ctl_defs = CTLESC_def CTLVAR_def CTLENDVAR_def CTLBACKQ_def CTLARI_def CTLENDARI_def CTLQUOTEMARK_def

section \<open>The tables\<close>

datatype synclass =
    CWORD | CNL | CBACK | CSQUOTE | CDQUOTE | CENDQUOTE | CBQUOTE | CVAR | CENDVAR
  | CLP | CRP | CEOF | CCTL | CSPCL | CIGN

definition PEOF :: int where "PEOF = - 129"

definition init_table :: "int \<Rightarrow> synclass" where
  "init_table i =
     (if CTL_FIRST \<le> i \<and> i \<le> CTL_LAST then CCTL else if i = PEOF then CEOF else CWORD)"

definition add_class :: "string \<times> synclass \<Rightarrow> (int \<Rightarrow> synclass) \<Rightarrow> int \<Rightarrow> synclass" where
  "add_class = (\<lambda>(s, t) tab. fold (\<lambda>c tab. tab(schar c := t)) s tab)"

definition BASESYNTAX :: "int \<Rightarrow> synclass" where
  "BASESYNTAX = fold add_class
     [([newline_chr], CNL), ([CHR 0x5C], CBACK), ([quote_chr], CSQUOTE), ([dquote_chr], CDQUOTE),
      ([CHR 0x60], CBQUOTE), (''$'', CVAR), (''}'', CENDVAR), (''<>();&| '' @ [tab_chr], CSPCL)] init_table"

definition DQSYNTAX :: "int \<Rightarrow> synclass" where
  "DQSYNTAX = fold add_class
     [([newline_chr], CNL), ([CHR 0x5C], CBACK), ([dquote_chr], CENDQUOTE), ([CHR 0x60], CBQUOTE),
      (''$'', CVAR), (''}'', CENDVAR), (''!*?[=~:/-]'', CCTL)] init_table"

definition SQSYNTAX :: "int \<Rightarrow> synclass" where
  "SQSYNTAX = fold add_class
     [([newline_chr], CNL), ([quote_chr], CENDQUOTE), (''!*?[=~:/-]'' @ [CHR 0x5C], CCTL)] init_table"

definition ARISYNTAX :: "int \<Rightarrow> synclass" where
  "ARISYNTAX = fold add_class
     [([newline_chr], CNL), ([CHR 0x5C], CBACK), ([CHR 0x60], CBQUOTE), (''$'', CVAR), (''}'', CENDVAR),
      (''('', CLP), ('')'', CRP)] init_table"

end
