(* ===== verification/Sh_Alias.thy ===== *)
theory Sh_Alias
  imports Sh_Syntax
begin

text \<open>
  Aliases (\<open>alias.c\<close>): a hash table of entries, which the input of the parser points to while it
  reads their text (\<open>pushstring\<close> and \<open>freestrings\<close> of \<open>input.c\<close>). An entry in use is not freed but
  marked dead, and removed when the input is done with it.

  \<open>struct alias\<close>es live in a store; the lists of \<open>atab\<close> hold their addresses. The lemmas: the
  table refines a map from names to texts, by the locale of chained tables.
\<close>

section \<open>The code\<close>

datatype aliasflag = ALIASINUSE | ALIASDEAD

record alias_entry =
  alias_name :: string
  alias_val :: string
  alias_flag :: "aliasflag set"

record aliases =
  atab :: "nat list list"
  alias_mem :: "nat \<Rightarrow> alias_entry"
  nalias :: nat

definition ATABSIZE :: nat where "ATABSIZE = 39"

definition hashalias :: "string \<Rightarrow> nat" where
  "hashalias name =
     (let ch = (case name of [] \<Rightarrow> 0 | c # _ \<Rightarrow> of_nat (byte_of c)) :: 32 word;
          hashval = foldl (\<lambda>h c. h + of_nat (byte_of c)) (push_bit 4 ch) name
      in unat (hashval mod of_nat ATABSIZE))"

definition findalias :: "string \<Rightarrow> aliases \<Rightarrow> nat option" where
  "findalias name st = find (\<lambda>a. alias_name (alias_mem st a) = name) (atab st ! hashalias name)"

definition upd_alias :: "nat \<Rightarrow> (alias_entry \<Rightarrow> alias_entry) \<Rightarrow> aliases \<Rightarrow> aliases" where
  "upd_alias a f st = st\<lparr>alias_mem := (alias_mem st)(a := f (alias_mem st a))\<rparr>"

definition setalias :: "string \<Rightarrow> string \<Rightarrow> aliases \<Rightarrow> shell_error + aliases" where
  "setalias name val st =
     (if \<exists>c \<in> set name. BASESYNTAX (schar c) \<noteq> CWORD then Inl (Sh_error (''Invalid alias name: '' @ name))
      else Inr (case findalias name st of
             Some a \<Rightarrow> upd_alias a (\<lambda>x. x\<lparr>alias_val := val, alias_flag := alias_flag x - {ALIASDEAD}\<rparr>) st
           | None \<Rightarrow>
               let a = nalias st
               in st\<lparr>nalias := a + 1,
                     alias_mem := (alias_mem st)(a := \<lparr>alias_name = name, alias_val = val, alias_flag = {}\<rparr>),
                     atab := (atab st)[hashalias name := atab st ! hashalias name @ [a]]\<rparr>))"

text \<open>\<open>*app = freealias(*app)\<close> for the entry \<open>a\<close> of the list \<open>h\<close>.\<close>

definition freealias :: "nat \<Rightarrow> nat \<Rightarrow> aliases \<Rightarrow> aliases" where
  "freealias h a st =
     (if ALIASINUSE \<in> alias_flag (alias_mem st a)
      then upd_alias a (\<lambda>x. x\<lparr>alias_flag := insert ALIASDEAD (alias_flag x)\<rparr>) st
      else st\<lparr>atab := (atab st)[h := remove1 a (atab st ! h)]\<rparr>)"

text \<open>The result is 0 if there was such an alias.\<close>

definition unalias :: "string \<Rightarrow> aliases \<Rightarrow> nat \<times> aliases" where
  "unalias name st =
     (case findalias name st of
        Some a \<Rightarrow> (0, freealias (hashalias name) a st)
      | None \<Rightarrow> (1, st))"

definition rmaliases :: "aliases \<Rightarrow> aliases" where
  "rmaliases st = fold (\<lambda>i st. fold (freealias i) (atab st ! i) st) [0..<ATABSIZE] st"

definition lookupalias :: "string \<Rightarrow> bool \<Rightarrow> aliases \<Rightarrow> nat option" where
  "lookupalias name check st =
     (case findalias name st of
        None \<Rightarrow> None
      | Some a \<Rightarrow> if check \<and> ALIASINUSE \<in> alias_flag (alias_mem st a) then None else Some a)"

definition printalias :: "alias_entry \<Rightarrow> string" where
  "printalias ap = single_quote (alias_name ap) @ ''='' @ single_quote (alias_val ap) @ [newline_chr]"

text \<open>
  \<open>v = strchr(n + 1, '=')\<close> looks for the equals sign behind the first character. The result is
  the status, what is printed, and the messages.
\<close>

definition alias_arg :: "string \<Rightarrow> nat \<times> string \<times> string \<times> aliases \<Rightarrow> shell_error + nat \<times> string \<times> string \<times> aliases" where
  "alias_arg n = (\<lambda>(ret, out1, out2, st).
     if n = [] \<or> CHR ''='' \<notin> set (drop 1 n) then
       (case findalias n st of
          None \<Rightarrow> Inr (1, out1, out2 @ ''alias: '' @ n @ '' not found'' @ [newline_chr], st)
        | Some a \<Rightarrow> Inr (ret, out1 @ printalias (alias_mem st a), out2, st))
     else
       let name = take 1 n @ takeWhile (\<lambda>c. c \<noteq> CHR ''='') (drop 1 n);
           v = drop 1 (dropWhile (\<lambda>c. c \<noteq> CHR ''='') (drop 1 n))
       in bindE (setalias name v st) (\<lambda>st1. Inr (ret, out1, out2, st1)))"

definition aliascmd :: "string list \<Rightarrow> aliases \<Rightarrow> shell_error + nat \<times> string \<times> string \<times> aliases" where
  "aliascmd args st =
     (if args = [] then Inr (0, concat (map (\<lambda>a. printalias (alias_mem st a)) (concat (atab st))), [], st)
      else foldE alias_arg args (0, [], [], st))"

definition unalias_arg :: "string \<Rightarrow> nat \<times> string \<times> aliases \<Rightarrow> nat \<times> string \<times> aliases" where
  "unalias_arg name = (\<lambda>(i, out2, st).
     case unalias name st of
       (r, st1) \<Rightarrow> if r = 0 then (i, out2, st1)
                   else (1, out2 @ ''unalias: '' @ name @ '' not found'' @ [newline_chr], st1))"

text \<open>The loop over the options returns at the first \<open>-a\<close>, and there is no other option.\<close>

definition unaliascmd :: "string list \<Rightarrow> aliases \<Rightarrow> shell_error + nat \<times> string \<times> aliases" where
  "unaliascmd args st =
     bindE (nextopt ''a'' (start_args args)) (\<lambda>(r, o').
       if r \<noteq> None then Inr (0, [], rmaliases st)
       else Inr (fold unalias_arg (argptr o') (0, [], st)))"

text \<open>What \<open>pushstring\<close> and \<open>freestrings\<close> of \<open>input.c\<close> do to the alias they read.\<close>

definition use_alias :: "nat \<Rightarrow> aliases \<Rightarrow> aliases" where
  "use_alias a = upd_alias a (\<lambda>x. x\<lparr>alias_flag := insert ALIASINUSE (alias_flag x)\<rparr>)"

definition release_alias :: "nat \<Rightarrow> aliases \<Rightarrow> aliases" where
  "release_alias a st =
     (let st1 = upd_alias a (\<lambda>x. x\<lparr>alias_flag := alias_flag x - {ALIASINUSE}\<rparr>) st
      in if ALIASDEAD \<in> alias_flag (alias_mem st1 a) then snd (unalias (alias_name (alias_mem st1 a)) st1) else st1)"

section \<open>The table is a map\<close>

lemma hashalias_less: "hashalias s < ATABSIZE"
  by (simp add: hashalias_def ATABSIZE_def Let_def unat_mod)

interpretation at: chained hashalias ATABSIZE
  by unfold_locales (rule hashalias_less)

abbreviation alias_key :: "aliases \<Rightarrow> nat \<Rightarrow> string" where
  "alias_key st a \<equiv> alias_name (alias_mem st a)"

abbreviation alias_nodes :: "aliases \<Rightarrow> nat set" where
  "alias_nodes st \<equiv> chain_nodes (atab st)"

definition aliases_wf :: "aliases \<Rightarrow> bool" where
  "aliases_wf st \<longleftrightarrow> chain_wf hashalias ATABSIZE (alias_key st) (atab st) \<and> (\<forall>a \<in> alias_nodes st. a < nalias st)"

text \<open>What is known of a name: its text, and whether it is in use and dead.\<close>

definition alias_obs :: "aliases \<Rightarrow> string \<Rightarrow> (string \<times> aliasflag set) option" where
  "alias_obs st n = map_option (\<lambda>a. (alias_val (alias_mem st a), alias_flag (alias_mem st a))) (findalias n st)"

lemma findalias_Some: "aliases_wf st \<Longrightarrow> findalias n st = Some a \<longleftrightarrow> a \<in> alias_nodes st \<and> alias_key st a = n"
  unfolding findalias_def aliases_wf_def by (rule at.find_Some) simp

lemma findalias_None: "aliases_wf st \<Longrightarrow> findalias n st = None \<longleftrightarrow> (\<forall>a \<in> alias_nodes st. alias_key st a \<noteq> n)"
  unfolding findalias_def aliases_wf_def by (rule at.find_None) simp

lemma findalias_eqI:
  assumes "aliases_wf st" and "aliases_wf st'" and "\<And>a. a \<in> alias_nodes st \<and> alias_key st a = n \<longleftrightarrow> a \<in> alias_nodes st' \<and> alias_key st' a = n"
  shows "findalias n st' = findalias n st"
proof (cases "findalias n st")
  case None
  then have "\<forall>a \<in> alias_nodes st'. alias_key st' a \<noteq> n" using findalias_None [OF assms(1)] assms(3) by blast
  then show ?thesis using None findalias_None [OF assms(2)] by simp
next
  case (Some a)
  then have "a \<in> alias_nodes st' \<and> alias_key st' a = n" using findalias_Some [OF assms(1)] assms(3) by blast
  then show ?thesis using Some findalias_Some [OF assms(2)] by simp
qed

lemma upd_alias_wf:
  assumes "aliases_wf st" and "\<And>x. alias_name (f x) = alias_name x"
  shows "aliases_wf (upd_alias a f st)"
proof -
  have "alias_key (upd_alias a f st) b = alias_key st b" for b by (simp add: upd_alias_def assms(2))
  then show ?thesis
    using assms(1) at.wf_cong [of "alias_key st" "atab st" "alias_key (upd_alias a f st)"]
    by (simp add: aliases_wf_def) (simp add: upd_alias_def)
qed

lemma upd_alias_obs:
  assumes wf: "aliases_wf st" and a: "a \<in> alias_nodes st" and f: "\<And>x. alias_name (f x) = alias_name x"
  shows "alias_obs (upd_alias a f st) = (alias_obs st)(alias_key st a \<mapsto> (alias_val (f (alias_mem st a)), alias_flag (f (alias_mem st a))))"
proof
  fix n
  have "findalias n (upd_alias a f st) = findalias n st"
    using wf upd_alias_wf [OF wf f] by (rule findalias_eqI) (simp add: upd_alias_def f)
  moreover have "findalias (alias_key st a) st = Some a" using findalias_Some [OF wf] a by blast
  moreover have "b = a \<longleftrightarrow> n = alias_key st a" if b: "findalias n st = Some b" for b
  proof
    assume "b = a"
    then show "n = alias_key st a" using findalias_Some [OF wf, of n b] b by blast
  next
    assume "n = alias_key st a"
    then show "b = a" using b findalias_Some [OF wf, of "alias_key st a" a] a by (metis option.inject)
  qed
  ultimately show "alias_obs (upd_alias a f st) n = ((alias_obs st)(alias_key st a \<mapsto> (alias_val (f (alias_mem st a)), alias_flag (f (alias_mem st a))))) n"
    by (cases "findalias n st"; cases "n = alias_key st a") (simp_all add: alias_obs_def upd_alias_def)
qed

lemma alias_obs_None: "aliases_wf st \<Longrightarrow> alias_obs st n = None \<longleftrightarrow> (\<forall>a \<in> alias_nodes st. alias_key st a \<noteq> n)"
  by (simp add: alias_obs_def findalias_None)

lemma new_alias_ok:
  fixes name val :: string
  assumes wf: "aliases_wf st" and new: "findalias name st = None"
  defines "st' \<equiv> st\<lparr>nalias := nalias st + 1,
    alias_mem := (alias_mem st)(nalias st := \<lparr>alias_name = name, alias_val = val, alias_flag = {}\<rparr>),
    atab := (atab st)[hashalias name := atab st ! hashalias name @ [nalias st]]\<rparr>"
  shows "aliases_wf st'" and "alias_obs st' = (alias_obs st)(name \<mapsto> (val, {}))"
proof -
  let ?a = "nalias st"
  have chain: "chain_wf hashalias ATABSIZE (alias_key st) (atab st)" and less: "\<forall>a \<in> alias_nodes st. a < ?a"
    using wf by (simp_all add: aliases_wf_def)
  have fresh: "?a \<notin> alias_nodes st" using less by blast
  have key: "alias_key st' ?a = name" "\<And>b. b \<in> alias_nodes st \<Longrightarrow> alias_mem st' b = alias_mem st b"
    using fresh by (auto simp: st'_def)
  have "chain_wf hashalias ATABSIZE (alias_key st') (atab st)"
    using at.wf_cong [OF chain, of "alias_key st'"] key(2) by simp
  moreover have "\<forall>y \<in> alias_nodes st. alias_key st' y \<noteq> alias_key st' ?a"
    using new findalias_None [OF wf] key by simp
  moreover have tab: "atab st' = (atab st)[hashalias (alias_key st' ?a) := atab st ! hashalias (alias_key st' ?a) @ [?a]]"
    by (simp add: st'_def)
  ultimately have chain': "chain_wf hashalias ATABSIZE (alias_key st') (atab st')" by (metis at.append_wf)
  have nodes: "alias_nodes st' = insert ?a (alias_nodes st)" unfolding tab by (rule at.append_nodes [OF chain])
  show wf': "aliases_wf st'" using chain' less nodes by (auto simp: aliases_wf_def) (auto simp: st'_def)
  show "alias_obs st' = (alias_obs st)(name \<mapsto> (val, {}))"
  proof
    fix n
    show "alias_obs st' n = ((alias_obs st)(name \<mapsto> (val, {}))) n"
    proof (cases "n = name")
      case True
      then have "findalias n st' = Some ?a" using findalias_Some [OF wf'] nodes key by simp
      then show ?thesis using True by (simp add: alias_obs_def) (simp add: st'_def)
    next
      case False
      then have "findalias n st' = findalias n st"
        by (intro findalias_eqI [OF wf wf']) (use nodes key fresh in auto)
      moreover have "findalias n st = Some b \<Longrightarrow> alias_mem st' b = alias_mem st b" for b
        using findalias_Some [OF wf] key(2) by blast
      ultimately show ?thesis using False by (cases "findalias n st") (auto simp: alias_obs_def)
    qed
  qed
qed

lemma freealias_ok:
  assumes wf: "aliases_wf st" and a: "a \<in> alias_nodes st"
  defines "st' \<equiv> freealias (hashalias (alias_key st a)) a st"
  shows "aliases_wf st'" and "alias_obs st' = (if ALIASINUSE \<in> alias_flag (alias_mem st a)
    then (alias_obs st)(alias_key st a \<mapsto> (alias_val (alias_mem st a), insert ALIASDEAD (alias_flag (alias_mem st a))))
    else (alias_obs st)(alias_key st a := None))"
proof -
  have "aliases_wf st' \<and> alias_obs st' = (if ALIASINUSE \<in> alias_flag (alias_mem st a)
    then (alias_obs st)(alias_key st a \<mapsto> (alias_val (alias_mem st a), insert ALIASDEAD (alias_flag (alias_mem st a))))
    else (alias_obs st)(alias_key st a := None))"
  proof (cases "ALIASINUSE \<in> alias_flag (alias_mem st a)")
    case True
    then show ?thesis
      using upd_alias_wf [OF wf] upd_alias_obs [OF wf a] by (simp add: st'_def freealias_def)
  next
    case False
    have chain: "chain_wf hashalias ATABSIZE (alias_key st) (atab st)" and less: "\<forall>a \<in> alias_nodes st. a < nalias st"
      using wf by (simp_all add: aliases_wf_def)
    have mem: "alias_mem st' = alias_mem st" "nalias st' = nalias st" using False by (simp_all add: st'_def freealias_def)
    have tab: "atab st' = (atab st)[hashalias (alias_key st a) := remove1 a (atab st ! hashalias (alias_key st a))]"
      using False by (simp add: st'_def freealias_def)
    have nodes: "alias_nodes st' = alias_nodes st - {a}" unfolding tab by (rule at.remove_nodes [OF chain a])
    have wf': "aliases_wf st'"
      using at.remove_wf [OF chain, of "hashalias (alias_key st a)" a] less nodes by (simp add: aliases_wf_def mem tab)
    have key: "b \<in> alias_nodes st \<Longrightarrow> alias_key st b = alias_key st a \<Longrightarrow> b = a" for b
      using at.key_unique [OF chain _ a] by blast
    have "alias_obs st' n = ((alias_obs st)(alias_key st a := None)) n" for n
    proof (cases "n = alias_key st a")
      case True
      then have "alias_obs st' n = None" using alias_obs_None [OF wf'] nodes key mem by auto
      then show ?thesis using True by simp
    next
      case False
      then have "findalias n st' = findalias n st" by (intro findalias_eqI [OF wf wf']) (use nodes mem in auto)
      then show ?thesis using False by (simp add: alias_obs_def mem)
    qed
    then show ?thesis using wf' False by auto
  qed
  then show "aliases_wf st'" and "alias_obs st' = (if ALIASINUSE \<in> alias_flag (alias_mem st a)
    then (alias_obs st)(alias_key st a \<mapsto> (alias_val (alias_mem st a), insert ALIASDEAD (alias_flag (alias_mem st a))))
    else (alias_obs st)(alias_key st a := None))" by blast+
qed

text \<open>The commands of this component, as what they do to the map.\<close>

datatype alias_op = Set_alias string string | Unalias string | Use_alias string | Release_alias string

fun alias_run :: "alias_op \<Rightarrow> aliases \<Rightarrow> aliases" where
  "alias_run (Set_alias n v) st = (case setalias n v st of Inl _ \<Rightarrow> st | Inr st' \<Rightarrow> st')"
| "alias_run (Unalias n) st = snd (unalias n st)"
| "alias_run (Use_alias n) st = (case lookupalias n True st of None \<Rightarrow> st | Some a \<Rightarrow> use_alias a st)"
| "alias_run (Release_alias n) st =
     (case findalias n st of None \<Rightarrow> st
      | Some a \<Rightarrow> if ALIASINUSE \<in> alias_flag (alias_mem st a) then release_alias a st else st)"

type_synonym alias_map = "string \<rightharpoonup> string \<times> aliasflag set"

fun alias_spec :: "alias_op \<Rightarrow> alias_map \<Rightarrow> alias_map" where
  "alias_spec (Set_alias n v) m =
     (if \<exists>c \<in> set n. BASESYNTAX (schar c) \<noteq> CWORD then m
      else case m n of None \<Rightarrow> m(n \<mapsto> (v, {})) | Some (_, f) \<Rightarrow> m(n \<mapsto> (v, f - {ALIASDEAD})))"
| "alias_spec (Unalias n) m =
     (case m n of None \<Rightarrow> m
      | Some (v, f) \<Rightarrow> if ALIASINUSE \<in> f then m(n \<mapsto> (v, insert ALIASDEAD f)) else m(n := None))"
| "alias_spec (Use_alias n) m =
     (case m n of None \<Rightarrow> m
      | Some (v, f) \<Rightarrow> if ALIASINUSE \<in> f then m else m(n \<mapsto> (v, insert ALIASINUSE f)))"
| "alias_spec (Release_alias n) m =
     (case m n of None \<Rightarrow> m
      | Some (v, f) \<Rightarrow> if ALIASINUSE \<notin> f then m
                        else if ALIASDEAD \<in> f then m(n := None) else m(n \<mapsto> (v, f - {ALIASINUSE})))"

lemma alias_obs_Some:
  assumes "aliases_wf st" and "findalias n st = Some a"
  shows "a \<in> alias_nodes st" "alias_key st a = n" "alias_obs st n = Some (alias_val (alias_mem st a), alias_flag (alias_mem st a))"
  using findalias_Some [OF assms(1)] assms(2) by (auto simp: alias_obs_def)

lemma setalias_refines:
  assumes wf: "aliases_wf st" and run: "setalias n v st = Inr st'"
  shows "aliases_wf st'" and "alias_obs st' = alias_spec (Set_alias n v) (alias_obs st)"
proof -
  have ok: "\<not> (\<exists>c \<in> set n. BASESYNTAX (schar c) \<noteq> CWORD)" using run by (auto simp: setalias_def split: if_splits)
  have "aliases_wf st' \<and> alias_obs st' = alias_spec (Set_alias n v) (alias_obs st)"
  proof (cases "findalias n st")
    case None
    then have "alias_obs st n = None" by (simp add: alias_obs_def)
    then show ?thesis using new_alias_ok [OF wf None, of v] run ok None by (auto simp: setalias_def Let_def)
  next
    case (Some a)
    then show ?thesis
      using alias_obs_Some [OF wf Some] upd_alias_wf [OF wf] upd_alias_obs [OF wf] run ok by (auto simp: setalias_def)
  qed
  then show "aliases_wf st'" and "alias_obs st' = alias_spec (Set_alias n v) (alias_obs st)" by blast+
qed

lemma unalias_refines:
  assumes wf: "aliases_wf st"
  shows "aliases_wf (snd (unalias n st))" and "alias_obs (snd (unalias n st)) = alias_spec (Unalias n) (alias_obs st)"
proof -
  have "aliases_wf (snd (unalias n st)) \<and> alias_obs (snd (unalias n st)) = alias_spec (Unalias n) (alias_obs st)"
  proof (cases "findalias n st")
    case None
    then show ?thesis using wf by (simp add: unalias_def alias_obs_def)
  next
    case (Some a)
    note a = alias_obs_Some [OF wf Some]
    show ?thesis using freealias_ok [OF wf a(1)] Some a by (simp add: unalias_def)
  qed
  then show "aliases_wf (snd (unalias n st))" and "alias_obs (snd (unalias n st)) = alias_spec (Unalias n) (alias_obs st)" by blast+
qed

lemma use_alias_refines:
  assumes wf: "aliases_wf st"
  shows "aliases_wf (alias_run (Use_alias n) st)" and "alias_obs (alias_run (Use_alias n) st) = alias_spec (Use_alias n) (alias_obs st)"
proof -
  have "aliases_wf (alias_run (Use_alias n) st) \<and> alias_obs (alias_run (Use_alias n) st) = alias_spec (Use_alias n) (alias_obs st)"
  proof (cases "findalias n st")
    case None
    then show ?thesis using wf by (simp add: lookupalias_def alias_obs_def)
  next
    case (Some a)
    note a = alias_obs_Some [OF wf Some]
    show ?thesis
      using upd_alias_wf [OF wf] upd_alias_obs [OF wf a(1)] wf Some a by (simp add: lookupalias_def use_alias_def)
  qed
  then show "aliases_wf (alias_run (Use_alias n) st)" and "alias_obs (alias_run (Use_alias n) st) = alias_spec (Use_alias n) (alias_obs st)"
    by blast+
qed

lemma release_alias_refines:
  assumes wf: "aliases_wf st"
  shows "aliases_wf (alias_run (Release_alias n) st)"
    and "alias_obs (alias_run (Release_alias n) st) = alias_spec (Release_alias n) (alias_obs st)"
proof -
  have "aliases_wf (alias_run (Release_alias n) st) \<and> alias_obs (alias_run (Release_alias n) st) = alias_spec (Release_alias n) (alias_obs st)"
  proof (cases "findalias n st")
    case None
    then show ?thesis using wf by (simp add: alias_obs_def)
  next
    case (Some a)
    note a = alias_obs_Some [OF wf Some]
    let ?f = "\<lambda>x. x\<lparr>alias_flag := alias_flag x - {ALIASINUSE}\<rparr>"
    let ?s = "upd_alias a ?f st"
    have s: "aliases_wf ?s" "alias_obs ?s = (alias_obs st)(n \<mapsto> (alias_val (alias_mem st a), alias_flag (alias_mem st a) - {ALIASINUSE}))"
      using upd_alias_wf [OF wf] upd_alias_obs [OF wf a(1)] a(2) by simp_all
    have key: "alias_key ?s a = n" "alias_flag (alias_mem ?s a) = alias_flag (alias_mem st a) - {ALIASINUSE}"
      using a(2) by (simp_all add: upd_alias_def)
    have "release_alias a st = (if ALIASDEAD \<in> alias_flag (alias_mem st a) then snd (unalias n ?s) else ?s)"
      by (simp add: release_alias_def key)
    then show ?thesis
      using s unalias_refines [OF s(1), of n] wf Some a by (cases "ALIASDEAD \<in> alias_flag (alias_mem st a)") (simp_all add: fun_upd_upd)
  qed
  then show "aliases_wf (alias_run (Release_alias n) st)"
    and "alias_obs (alias_run (Release_alias n) st) = alias_spec (Release_alias n) (alias_obs st)" by blast+
qed

lemma alias_run_refines:
  assumes "aliases_wf st"
  shows "aliases_wf (alias_run x st) \<and> alias_obs (alias_run x st) = alias_spec x (alias_obs st)"
proof (cases x)
  case (Set_alias n v)
  show ?thesis
  proof (cases "setalias n v st")
    case (Inl e)
    then have "\<exists>c \<in> set n. BASESYNTAX (schar c) \<noteq> CWORD" by (auto simp: setalias_def split: if_splits)
    then show ?thesis using Inl assms Set_alias by simp
  next
    case (Inr st')
    then show ?thesis using setalias_refines [OF assms Inr] Set_alias by simp
  qed
next
  case (Unalias n)
  then show ?thesis using unalias_refines [OF assms, of n] by simp
next
  case (Use_alias n)
  then show ?thesis using use_alias_refines [OF assms, of n] by blast
next
  case (Release_alias n)
  then show ?thesis using release_alias_refines [OF assms, of n] by blast
qed

definition empty_aliases :: aliases where
  "empty_aliases = \<lparr>atab = replicate ATABSIZE [], alias_mem = (\<lambda>_. \<lparr>alias_name = [], alias_val = [], alias_flag = {}\<rparr>), nalias = 0\<rparr>"


end
