(* ===== verification/Sh_Expand.thy ===== *)
theory Sh_Expand
  imports Sh_Syntax
begin

text \<open>
  Parts of word expansion (\<open>expand.c\<close>): the escapes that protect quoted characters, the search
  for the prefix or suffix that a pattern matches, the regions of the expanded word that are
  subject to field splitting, field splitting, and the sorting of file names.

  A buffer is the list of its characters with its null character (or several); positions are
  offsets into it. \<open>pmatch\<close> is \<open>fnmatch\<close> of the C library (\<open>config.h\<close>: \<open>HAVE_FNMATCH\<close>, no
  \<open>HAVE_GLOB\<close>) and a parameter.
\<close>

abbreviation NUL :: char where "NUL \<equiv> CHR 0x00"

section \<open>Escapes\<close>

text \<open>
  \<open>memtodest\<close>: \<open>quoted\<close>, \<open>esc\<close> and \<open>keepnul\<close> are \<open>EXP_QUOTED\<close>, \<open>QUOTES_ESC\<close> and
  \<open>EXP_KEEPNUL\<close> of the flags. The result is what is appended at \<open>expdest\<close>.
\<close>

definition memtodest :: "bool \<Rightarrow> bool \<Rightarrow> bool \<Rightarrow> string \<Rightarrow> string" where
  "memtodest quoted esc keepnul s =
     (let table = (if quoted then DQSYNTAX else BASESYNTAX)
      in concat (map (\<lambda>c.
           if c \<noteq> NUL then
             (if esc \<and> (table (schar c) = CCTL \<or> quoted \<and> table (schar c) = CBACK) then [CTLESC, c] else [c])
           else if keepnul then [c] else []) s))"

text \<open>The number of escapes that end at \<open>p\<close>.\<close>

definition esclen :: "string \<Rightarrow> nat \<Rightarrow> nat" where
  "esclen s p = length (takeWhile (\<lambda>c. c = CTLESC) (rev (take p s)))"

text \<open>
  \<open>_rmescapes\<close>: \<open>glob\<close> is \<open>RMESCAPE_GLOB\<close>; the other flags say where the result is stored. An
  escape at the end of the string makes the loop copy the null character and go on behind it.
\<close>

fun rmescapes_loop :: "bool \<Rightarrow> bool \<Rightarrow> string \<Rightarrow> shell_error + string" where
  "rmescapes_loop globbing notescaped [] = Inr []"
| "rmescapes_loop globbing notescaped (c # p) =
     (if c = CTLQUOTEMARK then rmescapes_loop globbing globbing p
      else if c = CHR 0x5C then bindE (rmescapes_loop globbing False p) (\<lambda>q. Inr (c # q))
      else if c = CHR ''^'' then
        bindE (rmescapes_loop globbing globbing p) (\<lambda>q. Inr ((if notescaped then [CHR 0x5C] else []) @ c # q))
      else if c = CTLESC then
        (case p of
           [] \<Rightarrow> Inl Sh_undefined
         | d # p' \<Rightarrow>
           bindE (rmescapes_loop globbing globbing p') (\<lambda>q. Inr ((if notescaped then [CHR 0x5C] else []) @ d # q)))
      else bindE (rmescapes_loop globbing globbing p) (\<lambda>q. Inr (c # q)))"

definition is_cqchar :: "char \<Rightarrow> bool" where
  "is_cqchar c = (c = CHR ''^'' \<or> c = CTLESC \<or> c = CTLQUOTEMARK)"

definition rmescapes :: "bool \<Rightarrow> string \<Rightarrow> shell_error + string" where
  "rmescapes glob s =
     (let p = dropWhile (\<lambda>c. \<not> is_cqchar c) s
      in if p = [] then Inr s
         else bindE (rmescapes_loop glob glob p) (\<lambda>q. Inr (takeWhile (\<lambda>c. \<not> is_cqchar c) s @ q)))"

definition patmatch :: "(string \<Rightarrow> string \<Rightarrow> bool) \<Rightarrow> string \<Rightarrow> string \<Rightarrow> shell_error + bool" where
  "patmatch pmatch pattern s = bindE (rmescapes True pattern) (\<lambda>p. Inr (pmatch p s))"

section \<open>Prefixes and suffixes\<close>

text \<open>
  \<open>str\<close> is the value with escapes, \<open>rmesc\<close> the value without, both up to their null character.
  The result is an offset into \<open>str\<close>; \<open>zero\<close> selects prefixes, otherwise suffixes are matched.
\<close>

definition scan_part :: "bool \<Rightarrow> string \<Rightarrow> nat \<Rightarrow> string" where
  "scan_part zero rmesc loc2 = (if zero then take loc2 rmesc else drop loc2 rmesc)"

function scanleft_loop :: "(string \<Rightarrow> bool) \<Rightarrow> bool \<Rightarrow> bool \<Rightarrow> string \<Rightarrow> string \<Rightarrow> nat \<Rightarrow> nat \<Rightarrow> nat option" where
  "scanleft_loop match quotes zero str rmesc loc loc2 =
     (if match (scan_part zero rmesc loc2) then Some loc
      else if length rmesc \<le> loc2 then None
      else scanleft_loop match quotes zero str rmesc
             (if quotes \<and> take 1 (drop loc str) = [CTLESC] then loc + 2 else loc + 1) (loc2 + 1))"
  by pat_completeness auto
termination by (relation "measure (\<lambda>(match, quotes, zero, str, rmesc, loc, loc2). length rmesc - loc2)") auto

declare scanleft_loop.simps [simp del]

definition scanleft :: "(string \<Rightarrow> bool) \<Rightarrow> bool \<Rightarrow> bool \<Rightarrow> string \<Rightarrow> string \<Rightarrow> nat option" where
  "scanleft match quotes zero str rmesc = scanleft_loop match quotes zero str rmesc 0 0"

text \<open>
  \<open>loc\<close> runs down to the start of the string; \<open>loc + 1\<close> is written for it, so that 0 is the place
  before the start, where the loop ends. \<open>esc\<close> counts the escapes before \<open>loc\<close>.
\<close>

function scanright_loop ::
    "(string \<Rightarrow> bool) \<Rightarrow> bool \<Rightarrow> bool \<Rightarrow> string \<Rightarrow> string \<Rightarrow> nat \<Rightarrow> nat \<Rightarrow> int \<Rightarrow> nat option" where
  "scanright_loop match quotes zero str rmesc loc1 loc2 esc =
     (if loc1 = 0 then None
      else if match (scan_part zero rmesc loc2) then Some (loc1 - 1)
      else if quotes then
        let loc1' = loc1 - 1;
            esc' = (if esc - 1 < 0 then int (esclen str (loc1' - 1)) else esc - 1)
        in if esc' mod 2 = 1 then scanright_loop match quotes zero str rmesc (loc1' - 1) (loc2 - 1) (esc' - 1)
           else scanright_loop match quotes zero str rmesc loc1' (loc2 - 1) esc'
      else scanright_loop match quotes zero str rmesc (loc1 - 1) (loc2 - 1) esc)"
  by pat_completeness auto
termination by (relation "measure (\<lambda>(match, quotes, zero, str, rmesc, loc1, loc2, esc). loc1)") auto

declare scanright_loop.simps [simp del]

definition scanright :: "(string \<Rightarrow> bool) \<Rightarrow> bool \<Rightarrow> bool \<Rightarrow> string \<Rightarrow> string \<Rightarrow> nat option" where
  "scanright match quotes zero str rmesc =
     scanright_loop match quotes zero str rmesc (length str + 1) (length rmesc) 0"

section \<open>Regions for field splitting\<close>

record ifsregion =
  begoff :: nat
  endoff :: nat
  nulonly :: bool

text \<open>The list of regions is empty if \<open>ifslastp\<close> is null.\<close>

definition recordregion :: "nat \<Rightarrow> nat \<Rightarrow> bool \<Rightarrow> ifsregion list \<Rightarrow> ifsregion list" where
  "recordregion b e n rs = rs @ [\<lparr>begoff = b, endoff = e, nulonly = n\<rparr>]"

definition cut_region :: "nat \<Rightarrow> ifsregion \<Rightarrow> ifsregion" where
  "cut_region e r = (if e < endoff r then r\<lparr>endoff := e\<rparr> else r)"

definition removerecordregions :: "nat \<Rightarrow> ifsregion list \<Rightarrow> ifsregion list" where
  "removerecordregions e rs =
     (case rs of
        [] \<Rightarrow> []
      | r # rest \<Rightarrow>
        if e < endoff r then if e < begoff r then [] else [r\<lparr>endoff := e\<rparr>]
        else let keep = r # takeWhile (\<lambda>x. begoff x < e) rest
             in butlast keep @ [cut_region e (last keep)])"

definition ifsfree :: "ifsregion list \<Rightarrow> ifsregion list" where
  "ifsfree rs = []"

section \<open>Field splitting\<close>

definition defifs :: string where
  "defifs = '' '' @ [tab_chr, newline_chr]"

text \<open>\<open>strchr\<close> also finds the null character at the end of the string.\<close>

definition in_str :: "string \<Rightarrow> char \<Rightarrow> bool" where
  "in_str s c = (c \<in> set s \<or> c = NUL)"

record split_state =
  sbuf :: string
  sp :: nat
  sstart :: nat
  sr :: "nat option"
  smax :: int
  sspc :: bool
  sout :: "nat list"

text \<open>Reading a character of the buffer.\<close>

definition rd :: "string \<Rightarrow> nat \<Rightarrow> shell_error + char" where
  "rd b i = (if i < length b then Inr (b ! i) else Inl Sh_undefined)"

text \<open>
  One turn of the inner loop for the character \<open>c\<close> at \<open>q\<close>, with \<open>p\<close> behind it. The branch for
  \<open>maxargs\<close> equal to 0 reads the last argument of \<open>read\<close>; the other one splits.
\<close>

definition last_arg_turn :: "nat \<Rightarrow> nat \<Rightarrow> bool \<Rightarrow> bool \<Rightarrow> split_state \<Rightarrow> split_state" where
  "last_arg_turn q p isifs isdefifs st =
     (if isdefifs then st\<lparr>sp := p, sr := (case sr st of None \<Rightarrow> Some q | Some i \<Rightarrow> Some i)\<rparr>
      else st\<lparr>sp := p, sr := (if isifs \<and> sspc st then sr st else None), sspc := False\<rparr>)"

definition end_field :: "nat \<Rightarrow> nat \<Rightarrow> bool \<Rightarrow> split_state \<Rightarrow> split_state" where
  "end_field q p spc st =
     (if q = sstart st \<and> spc then st\<lparr>sp := p, sstart := p, sspc := False\<rparr>
      else if smax st = 1 then st\<lparr>sp := p, smax := 0, sspc := spc, sr := Some q\<rparr>
      else st\<lparr>sp := p, smax := (if 0 < smax st then smax st - 1 else smax st), sspc := spc,
              sbuf := (sbuf st)[q := NUL], sout := sout st @ [sstart st], sstart := p\<rparr>)"

definition split_turn :: "nat \<Rightarrow> nat \<Rightarrow> bool \<Rightarrow> bool \<Rightarrow> bool \<Rightarrow> split_state \<Rightarrow> split_state" where
  "split_turn q p isifs isdefifs nul st =
     (if sspc st then
        let st1 = st\<lparr>sp := p, sstart := (if isifs then p else q)\<rparr>
        in if isdefifs then st1 else st1\<lparr>sspc := False\<rparr>
      else if isifs then end_field q p (isdefifs \<and> \<not> nul) st
      else st\<lparr>sp := p, sspc := False\<rparr>)"

definition ifs_turn :: "string \<Rightarrow> bool \<Rightarrow> split_state \<Rightarrow> shell_error + split_state" where
  "ifs_turn ifs nul st =
     bindE (rd (sbuf st) (sp st)) (\<lambda>c0.
     bindE (if c0 = CTLESC then bindE (rd (sbuf st) (sp st + 1)) (\<lambda>c. Inr (c, sp st + 2))
            else Inr (c0, sp st + 1)) (\<lambda>(c, p).
       let isifs = in_str ifs c; isdefifs = (isifs \<and> in_str defifs c)
       in Inr ((if smax st = 0 then last_arg_turn (sp st) p isifs isdefifs st
                else split_turn (sp st) p isifs isdefifs nul st))))"

lemma turn_sp [simp]: "sp (last_arg_turn q p i d st) = p" "sp (split_turn q p i d n st) = p"
  by (simp_all add: last_arg_turn_def split_turn_def end_field_def Let_def)

lemma ifs_turn_sp:
  assumes "ifs_turn ifs nul st = Inr st'"
  shows "sp st < sp st'"
proof -
  obtain c0 where "rd (sbuf st) (sp st) = Inr c0" using assms by (cases "rd (sbuf st) (sp st)") (auto simp: ifs_turn_def)
  then show ?thesis
    using assms by (cases "rd (sbuf st) (Suc (sp st))") (auto simp: ifs_turn_def Let_def split: if_splits)
qed

function ifs_region :: "string \<Rightarrow> bool \<Rightarrow> nat \<Rightarrow> split_state \<Rightarrow> shell_error + split_state" where
  "ifs_region ifs nul e st =
     (if sp st < e then bindE (ifs_turn ifs nul st) (ifs_region ifs nul e) else Inr st)"
  by pat_completeness auto
termination
  by (relation "measure (\<lambda>(ifs, nul, e, st). e - sp st)") (auto dest!: ifs_turn_sp)

declare ifs_region.simps [simp del]

text \<open>The loop over the regions; \<open>afternul\<close> is \<open>nulonly\<close> of the region before.\<close>

fun ifs_regions :: "string \<Rightarrow> bool \<Rightarrow> ifsregion list \<Rightarrow> split_state \<Rightarrow> shell_error + bool \<times> split_state" where
  "ifs_regions realifs afternul [] st = Inr (afternul, st)"
| "ifs_regions realifs afternul (r # rs) st =
     bindE (ifs_region (if nulonly r then [] else realifs) (afternul \<or> nulonly r) (endoff r)
              (st\<lparr>sp := begoff r, sspc := False\<rparr>)) (ifs_regions realifs (nulonly r) rs)"

definition buf_text :: "string \<Rightarrow> nat \<Rightarrow> string" where
  "buf_text b i = takeWhile (\<lambda>c. c \<noteq> NUL) (drop i b)"

text \<open>The labels \<open>add\<close> and what is before it; the result is the list of the arguments.\<close>

definition ifsbreakup :: "string \<Rightarrow> string \<Rightarrow> int \<Rightarrow> ifsregion list \<Rightarrow> shell_error + string list" where
  "ifsbreakup realifs buf maxargs rs =
     bindE (ifs_regions realifs False rs
              \<lparr>sbuf = buf, sp = 0, sstart = 0, sr = None, smax = maxargs, sspc = False, sout = []\<rparr>) (\<lambda>(nul, st).
     let buf1 = (if nul then sbuf st else case sr st of None \<Rightarrow> sbuf st | Some i \<Rightarrow> (sbuf st)[i := NUL])
     in bindE (rd buf1 (sstart st)) (\<lambda>c.
          Inr (map (buf_text buf1) (if nul \<or> c \<noteq> NUL then sout st @ [sstart st] else sout st))))"

text \<open>\<open>ifsset() ? ifsval() : defifs\<close>; \<open>IFS\<close> is the first variable of \<open>varinit\<close>.\<close>

definition realifs :: "shell \<Rightarrow> string" where
  "realifs sh = (if VUNSET \<in> vflags (varmem sh 0) then defifs else drop 4 (vartext_at sh 0))"

section \<open>Sorting\<close>

text \<open>The loop that merges the sorted halves; \<open>q\<close> is the first.\<close>

fun merge_names :: "string list \<Rightarrow> string list \<Rightarrow> string list" where
  "merge_names [] ps = ps"
| "merge_names qs [] = qs"
| "merge_names (q # qs) (p # ps) =
     (if strcmp p q < 0 then p # merge_names (q # qs) ps else q # merge_names qs (p # ps))"

function msort :: "string list \<Rightarrow> nat \<Rightarrow> string list" where
  "msort list len =
     (if len \<le> 1 then list
      else merge_names (msort (take (len div 2) list) (len div 2)) (msort (drop (len div 2) list) (len - len div 2)))"
  by pat_completeness auto
termination by (relation "measure (\<lambda>(list, len). len)") auto

declare msort.simps [simp del]

definition expsort :: "string list \<Rightarrow> string list" where
  "expsort str = msort str (length str)"

end
