(* ===== verification/Sh_Expand_Laws.thy ===== *)
theory Sh_Expand_Laws
  imports Sh_Expand
begin

text \<open>
  What the pieces of word expansion promise: escapes come off as they went on, the searches for a
  prefix or a suffix find the shortest or the longest one, field splitting computes the fields that
  POSIX describes, and sorting sorts.
\<close>

section \<open>Escapes come off\<close>

lemma ctl_distinct [simp]:
  "CTLESC \<noteq> NUL" "CTLQUOTEMARK \<noteq> NUL" "CTLESC \<noteq> CTLQUOTEMARK" "CTLQUOTEMARK \<noteq> CTLESC"
  "CTLESC \<noteq> CHR 0x5C" "CTLQUOTEMARK \<noteq> CHR 0x5C" "CTLESC \<noteq> CHR ''^''" "CTLQUOTEMARK \<noteq> CHR ''^''"
  "CHR ''^'' \<noteq> CTLESC" "CHR ''^'' \<noteq> CTLQUOTEMARK"
  "CHR 0x5C \<noteq> CTLESC" "CHR 0x5C \<noteq> CTLQUOTEMARK" "NUL \<noteq> CTLESC" "NUL \<noteq> CTLQUOTEMARK"
  by (simp_all add: ctl_defs)

lemma ctl_class:
  "BASESYNTAX (schar CTLESC) = CCTL" "BASESYNTAX (schar CTLQUOTEMARK) = CCTL"
  "DQSYNTAX (schar CTLESC) = CCTL" "DQSYNTAX (schar CTLQUOTEMARK) = CCTL"
  by code_simp+

text \<open>The text without the null characters that \<open>memtodest\<close> leaves out.\<close>

definition kept :: "bool \<Rightarrow> string \<Rightarrow> string" where
  "kept keepnul s = (if keepnul then s else filter (\<lambda>c. c \<noteq> NUL) s)"

lemma kept_simps [simp]:
  "kept k [] = []" "kept k (c # s) = (if c = NUL \<and> \<not> k then kept k s else c # kept k s)"
  by (auto simp: kept_def)

lemma memtodest_simps:
  "memtodest q e k [] = []"
  "memtodest q e k (c # s) =
     (if c = NUL \<and> \<not> k then []
      else if c \<noteq> NUL \<and> e \<and> ((if q then DQSYNTAX else BASESYNTAX) (schar c) = CCTL \<or>
                  q \<and> DQSYNTAX (schar c) = CBACK) then [CTLESC, c]
      else [c]) @ memtodest q e k s"
  by (auto simp: memtodest_def Let_def)

lemma rmescapes_loop_memtodest:
  "rmescapes_loop False False (memtodest q True k s) = Inr (kept k s)"
  by (induction s) (auto simp: memtodest_simps ctl_class split: if_splits)

lemma rmescapes_loop_prefix:
  assumes "\<forall>c \<in> set s. \<not> is_cqchar c \<and> (g \<longrightarrow> c \<noteq> CHR 0x5C)"
  shows "rmescapes_loop g g (s @ t) = bindE (rmescapes_loop g g t) (\<lambda>q. Inr (s @ q))"
  using assms
proof (induction s)
  case Nil
  show ?case by (cases "rmescapes_loop g g t") simp_all
next
  case (Cons c s)
  then have ih: "rmescapes_loop g g (s @ t) = bindE (rmescapes_loop g g t) (\<lambda>q. Inr (s @ q))"
    and c: "c \<noteq> CHR ''^''" "c \<noteq> CTLESC" "c \<noteq> CTLQUOTEMARK" "g \<longrightarrow> c \<noteq> CHR 0x5C"
    by (simp_all add: is_cqchar_def)
  show ?case using c ih by (cases g; cases "c = CHR 0x5C") (simp_all add: bindE_assoc)
qed

lemma rmescapes_is_loop:
  assumes "g \<Longrightarrow> CHR 0x5C \<notin> set (takeWhile (\<lambda>c. \<not> is_cqchar c) s)"
  shows "rmescapes g s = rmescapes_loop g g s"
proof -
  let ?p = "takeWhile (\<lambda>c. \<not> is_cqchar c) s" and ?q = "dropWhile (\<lambda>c. \<not> is_cqchar c) s"
  have eq: "rmescapes_loop g g s = bindE (rmescapes_loop g g ?q) (\<lambda>q. Inr (?p @ q))"
    using rmescapes_loop_prefix [of ?p g ?q] assms by (auto dest: set_takeWhileD)
  show ?thesis
  proof (cases "?q = []")
    case True
    then have "?p = s" by (metis append_Nil2 takeWhile_dropWhile_id)
    then show ?thesis using eq True by (simp only: rmescapes_def Let_def if_True) simp
  next
    case False
    then show ?thesis using eq by (simp only: rmescapes_def Let_def if_False)
  qed
qed

text \<open>
  What \<open>memtodest\<close> writes with escapes, \<open>rmescapes\<close> takes off again: the text comes back,
  whatever it is and however it is quoted, but for the null characters that \<open>memtodest\<close> leaves
  out unless it is asked to keep them.
\<close>
theorem escapes_come_off: "rmescapes False (memtodest quoted True keepnul s) = Inr (kept keepnul s)"
  by (simp add: rmescapes_is_loop rmescapes_loop_memtodest)

text \<open>
  A quoted value in a pattern: what is left for \<open>fnmatch\<close> is the value with a backslash before each
  character that could be special, so that it matches only itself.
\<close>

definition pattern_special :: "char \<Rightarrow> bool" where
  "pattern_special c =
     (c = CHR ''^'' \<or> DQSYNTAX (schar c) = CCTL \<or> DQSYNTAX (schar c) = CBACK)"

definition quote_pattern :: "string \<Rightarrow> string" where
  "quote_pattern s = concat (map (\<lambda>c. if pattern_special c then [CHR 0x5C, c] else [c]) s)"

lemma backslash_class: "DQSYNTAX (schar (CHR 0x5C)) = CBACK"
  by code_simp

lemma caret_class: "DQSYNTAX (schar (CHR ''^'')) = CWORD"
  by code_simp

lemma quoted_loop:
  "NUL \<notin> set s \<Longrightarrow> rmescapes_loop True True (memtodest True True k s) = Inr (quote_pattern s)"
  by (induction s)
    (auto simp: memtodest_simps quote_pattern_def pattern_special_def ctl_class backslash_class caret_class split: if_splits)

lemma quoted_prefix:
  "NUL \<notin> set s \<Longrightarrow> CHR 0x5C \<notin> set (takeWhile (\<lambda>c. \<not> is_cqchar c) (memtodest True True k s))"
  by (induction s) (auto simp: memtodest_simps is_cqchar_def backslash_class)

text \<open>
  The pattern that \<open>preglob\<close> makes of a quoted value is the value with a backslash before each
  character that a pattern or a bracket expression gives a meaning to, and before nothing else.
\<close>
theorem quoted_pattern_is_literal:
  "NUL \<notin> set s \<Longrightarrow> rmescapes True (memtodest True True keepnul s) = Inr (quote_pattern s)"
  by (simp add: rmescapes_is_loop quoted_prefix quoted_loop)

lemma quote_pattern_example: "quote_pattern ''a*^b'' = ''a'' @ [CHR 0x5C, CHR ''*'', CHR 0x5C, CHR ''^'', CHR ''b'']"
  by code_simp

theorem quoted_pattern_is_literal_witness:
  "rmescapes True (memtodest True True False ''a*^b'') = Inr (''a'' @ [CHR 0x5C, CHR ''*'', CHR 0x5C, CHR ''^'', CHR ''b''])"
  using quoted_pattern_is_literal [of "''a*^b''" False] by (simp add: quote_pattern_example)

text \<open>
  An unquoted backslash before a caret: at the start of the search the caret counts as not escaped,
  so that the pattern of the two characters asks for a backslash; after another caret it does not.
\<close>

lemma caret_escaped_twice:
  "rmescapes True [CHR 0x5C, CHR ''^''] = Inr [CHR 0x5C, CHR 0x5C, CHR ''^'']"
  "rmescapes True [CHR ''^'', CHR 0x5C, CHR ''^''] = Inr [CHR 0x5C, CHR ''^'', CHR 0x5C, CHR ''^'']"
  by (simp_all add: rmescapes_def is_cqchar_def ctl_defs)

section \<open>Shortest and longest matches\<close>

text \<open>An escaped text as a list of its characters, each with its escape or without.\<close>

definition esc_text :: "(bool \<times> char) list \<Rightarrow> string" where
  "esc_text ws = concat (map (\<lambda>(e, c). if e then [CTLESC, c] else [c]) ws)"

abbreviation plain_text :: "(bool \<times> char) list \<Rightarrow> string" where
  "plain_text ws \<equiv> map snd ws"

definition esc_ok :: "(bool \<times> char) list \<Rightarrow> bool" where
  "esc_ok ws = (\<forall>w \<in> set ws. snd w = CTLESC \<longrightarrow> fst w)"

definition esc_off :: "(bool \<times> char) list \<Rightarrow> nat \<Rightarrow> nat" where
  "esc_off ws i = length (esc_text (take i ws))"

lemma esc_text_simps [simp]:
  "esc_text [] = []" "esc_text (w # ws) = (if fst w then [CTLESC, snd w] else [snd w]) @ esc_text ws"
  "esc_text (us @ ws) = esc_text us @ esc_text ws"
  by (auto simp: esc_text_def split: prod.splits)

lemma esc_off_Suc: "i < length ws \<Longrightarrow> esc_off ws (Suc i) = esc_off ws i + (if fst (ws ! i) then 2 else 1)"
  by (simp add: esc_off_def take_Suc_conv_app_nth)

lemma esc_at:
  assumes "i < length ws"
  shows "drop (esc_off ws i) (esc_text ws) = (if fst (ws ! i) then [CTLESC, snd (ws ! i)] else [snd (ws ! i)]) @ esc_text (drop (Suc i) ws)"
proof -
  have "esc_text ws = esc_text (take i ws) @ esc_text (ws ! i # drop (Suc i) ws)"
    using assms by (metis append_take_drop_id Cons_nth_drop_Suc esc_text_simps(3))
  then show ?thesis by (simp add: esc_off_def)
qed

lemma esc_off_all: "esc_off ws (length ws) = length (esc_text ws)"
  by (simp add: esc_off_def)

lemma scanleft_loop_correct:
  assumes "esc_ok ws" and "i \<le> length ws"
  shows "scanleft_loop match True zero (esc_text ws) (plain_text ws) (esc_off ws i) i =
    map_option (esc_off ws) (find (\<lambda>i. match (scan_part zero (plain_text ws) i)) [i..<Suc (length ws)])"
  using assms(2)
proof (induction "length ws - i" arbitrary: i)
  case 0
  then show ?case by (subst scanleft_loop.simps) (simp add: esc_off_def)
next
  case (Suc k)
  then have i: "i < length ws" by simp
  have ok: "snd (ws ! i) = CTLESC \<longrightarrow> fst (ws ! i)" using assms(1) nth_mem [OF i] unfolding esc_ok_def by blast
  have step: "(if True \<and> take 1 (drop (esc_off ws i) (esc_text ws)) = [CTLESC] then esc_off ws i + 2 else esc_off ws i + 1)
      = esc_off ws (Suc i)"
    using ok by (auto simp: esc_at [OF i] esc_off_Suc [OF i])
  have up: "[i..<Suc (length ws)] = i # [Suc i..<Suc (length ws)]" using i by (simp add: upt_conv_Cons)
  have ih: "scanleft_loop match True zero (esc_text ws) (plain_text ws) (esc_off ws (Suc i)) (i + 1) =
    map_option (esc_off ws) (find (\<lambda>i. match (scan_part zero (plain_text ws) i)) [Suc i..<Suc (length ws)])"
    using Suc.hyps(1) [of "Suc i"] Suc.hyps(2) i by simp
  have "scanleft_loop match True zero (esc_text ws) (plain_text ws) (esc_off ws i) i =
    (if match (scan_part zero (plain_text ws) i) then Some (esc_off ws i)
     else scanleft_loop match True zero (esc_text ws) (plain_text ws) (esc_off ws (Suc i)) (i + 1))"
    (is "?l = ?r")
  proof -
    have le: "(length (plain_text ws) \<le> i) = False" using i by simp
    show ?thesis by (rule trans [OF scanleft_loop.simps]) (simp only: step le if_False)
  qed
  then show ?case by (simp only: ih up find.simps if_distrib [of "map_option (esc_off ws)"] option.map)
qed

theorem scanleft_finds_first:
  "esc_ok ws \<Longrightarrow> scanleft match True zero (esc_text ws) (plain_text ws) =
     map_option (esc_off ws) (find (\<lambda>i. match (scan_part zero (plain_text ws) i)) [0..<Suc (length ws)])"
  using scanleft_loop_correct [of ws 0 match zero] by (simp only: scanleft_def le0 True_implies_equals) (simp add: esc_off_def)

text \<open>Seen from a place between two characters the number of escapes before it is even.\<close>

lemma esclen_append:
  "esclen (s @ t) (length s) = length (takeWhile (\<lambda>c. c = CTLESC) (rev s))"
  by (simp add: esclen_def)

lemma even_escapes:
  "esc_ok ws \<Longrightarrow> even (length (takeWhile (\<lambda>c. c = CTLESC) (rev (esc_text ws))))"
proof (induction ws rule: rev_induct)
  case Nil
  then show ?case by simp
next
  case (snoc w ws)
  then show ?case by (auto simp: esc_ok_def)
qed

lemma esc_prefix:
  assumes "i \<le> length ws"
  shows "take (esc_off ws i) (esc_text ws) = esc_text (take i ws)"
proof -
  have "esc_text ws = esc_text (take i ws) @ esc_text (drop i ws)"
    by (metis append_take_drop_id esc_text_simps(3))
  then show ?thesis by (simp add: esc_off_def)
qed

lemma esclen_at:
  assumes "esc_ok ws" and "i < length ws"
  shows "even (esclen (esc_text ws) (esc_off ws i))"
    and "odd (esclen (esc_text ws) (esc_off ws (Suc i) - 1)) = fst (ws ! i)"
proof -
  let ?n = "length (takeWhile (\<lambda>c. c = CTLESC) (rev (esc_text (take i ws))))"
  have "esc_ok (take i ws)" using assms(1) by (auto simp: esc_ok_def dest: in_set_takeD)
  then have even: "even ?n" by (rule even_escapes)
  then show "even (esclen (esc_text ws) (esc_off ws i))"
    using assms(2) by (simp add: esclen_def esc_prefix)
  have "take (esc_off ws (Suc i) - 1) (esc_text ws) =
      take (esc_off ws (Suc i) - 1) (take (esc_off ws (Suc i)) (esc_text ws))" by simp
  also have "\<dots> = take (esc_off ws (Suc i) - 1) (esc_text (take (Suc i) ws))"
    using esc_prefix [of "Suc i" ws] assms(2) by simp
  also have "\<dots> = esc_text (take i ws) @ (if fst (ws ! i) then [CTLESC] else [])"
    using assms(2) by (simp add: esc_off_def take_Suc_conv_app_nth)
  finally show "odd (esclen (esc_text ws) (esc_off ws (Suc i) - 1)) = fst (ws ! i)"
    using even by (simp add: esclen_def)
qed

text \<open>The counter that \<open>scanright\<close> carries along is the number of escapes, or 0.\<close>

lemma esclen_Suc:
  "p < length s \<Longrightarrow> s ! p = CTLESC \<Longrightarrow> esclen s (Suc p) = Suc (esclen s p)"
  by (simp add: esclen_def take_Suc_conv_app_nth)

lemma esclen_pos:
  assumes "0 < esclen s (Suc p)" and "p < length s"
  shows "esclen s p = esclen s (Suc p) - 1"
proof -
  have "s ! p = CTLESC" using assms by (simp add: esclen_def take_Suc_conv_app_nth split: if_splits)
  then show ?thesis using assms(2) by (simp add: esclen_Suc)
qed

lemma scanright_loop_correct:
  assumes "esc_ok ws" and "i \<le> length ws" and "c = 0 \<or> c = esclen (esc_text ws) (esc_off ws i)"
  shows "scanright_loop match True zero (esc_text ws) (plain_text ws) (Suc (esc_off ws i)) i (int c) =
    map_option (esc_off ws) (find (\<lambda>i. match (scan_part zero (plain_text ws) i)) (rev [0..<Suc i]))"
  using assms(2,3)
proof (induction i arbitrary: c)
  case 0
  have "esc_off ws 0 = 0" by (simp add: esc_off_def)
  moreover have "esclen (esc_text ws) 0 = 0" by (simp add: esclen_def)
  ultimately show ?case using 0
    by (subst scanright_loop.simps) (simp add: Let_def scanright_loop.simps)
next
  case (Suc i)
  let ?T = "esc_text ws" and ?p = "esc_off ws (Suc i) - 1"
  have i: "i < length ws" using Suc.prems(1) by simp
  have pos: "esc_off ws (Suc i) = Suc ?p" using esc_off_Suc [OF i] by simp
  have p: "?p < length ?T"
    using pos esc_prefix [OF Suc.prems(1)] by (metis Suc_le_eq esc_off_def length_take min.cobounded1)
  have esc': "(if int c - 1 < 0 then int (esclen ?T ?p) else int c - 1) = int (esclen ?T ?p)"
    using Suc.prems(2) esclen_pos [OF _ p] pos by (cases "c = 0") auto
  have step: "scanright_loop match True zero ?T (plain_text ws) (Suc (esc_off ws (Suc i))) (Suc i) (int c) =
    (if match (scan_part zero (plain_text ws) (Suc i)) then Some (esc_off ws (Suc i))
     else if int (esclen ?T ?p) mod 2 = 1
       then scanright_loop match True zero ?T (plain_text ws) ?p i (int (esclen ?T ?p) - 1)
       else scanright_loop match True zero ?T (plain_text ws) (esc_off ws (Suc i)) i (int (esclen ?T ?p)))"
    by (rule trans [OF scanright_loop.simps]) (simp only: Let_def esc' diff_Suc_1 nat.distinct if_False if_True simp_thms)
  have ih: "c = 0 \<or> c = esclen ?T (esc_off ws i) \<Longrightarrow>
    scanright_loop match True zero ?T (plain_text ws) (Suc (esc_off ws i)) i (int c) =
    map_option (esc_off ws) (find (\<lambda>i. match (scan_part zero (plain_text ws) i)) (rev [0..<Suc i]))" for c
    using Suc.IH i by simp
  have rest: "(if int (esclen ?T ?p) mod 2 = 1
       then scanright_loop match True zero ?T (plain_text ws) ?p i (int (esclen ?T ?p) - 1)
       else scanright_loop match True zero ?T (plain_text ws) (esc_off ws (Suc i)) i (int (esclen ?T ?p))) =
    map_option (esc_off ws) (find (\<lambda>i. match (scan_part zero (plain_text ws) i)) (rev [0..<Suc i]))"
  proof (cases "fst (ws ! i)")
    case True
    then have off: "?p = Suc (esc_off ws i)" and o: "odd (esclen ?T ?p)"
      using esc_off_Suc [OF i] esclen_at(2) [OF assms(1) i] by simp_all
    then have e: "esclen ?T ?p - 1 = esclen ?T (esc_off ws i)"
      using esclen_pos [of ?T "esc_off ws i"] p by (simp add: odd_pos)
    have m: "int (esclen ?T ?p) mod 2 = 1" using o by presburger
    have n: "int (esclen ?T ?p) - 1 = int (esclen ?T ?p - 1)" using odd_pos [OF o] by simp
    show ?thesis by (simp only: m n if_True refl) (simp only: off e [unfolded off] ih [OF disjI2, OF refl])
  next
    case False
    then have off: "?p = esc_off ws i" and e: "even (esclen ?T ?p)"
      using esc_off_Suc [OF i] esclen_at(2) [OF assms(1) i] by simp_all
    then have m: "(int (esclen ?T (esc_off ws i)) mod 2 = 1) = False" by (simp only: off) presburger
    have "esc_off ws (Suc i) = Suc (esc_off ws i)" using pos off by simp
    then show ?thesis by (simp only: m if_False diff_Suc_1 ih [OF disjI2, OF refl])
  qed
  have up: "rev [0..<Suc (Suc i)] = Suc i # rev [0..<Suc i]" by simp
  show ?case
    by (simp only: step rest up find.simps if_distrib [of "map_option (esc_off ws)"] option.map)
qed

theorem scanright_finds_last:
  "esc_ok ws \<Longrightarrow> scanright match True zero (esc_text ws) (plain_text ws) =
     map_option (esc_off ws) (find (\<lambda>i. match (scan_part zero (plain_text ws) i)) (rev [0..<Suc (length ws)]))"
  using scanright_loop_correct [of ws "length ws" 0 match zero] by (simp add: scanright_def esc_off_all)

section \<open>Field splitting\<close>

text \<open>
  The rules of POSIX. A character of \<open>IFS\<close> is white space (space, tab, newline) or not. White space
  at the start and at the end of the text is ignored. A delimiter is one other character with the
  white space around it, or white space alone; the text between the delimiters are the fields.
\<close>

definition ifs_white :: "string \<Rightarrow> char \<Rightarrow> bool" where
  "ifs_white ifs c = (c \<in> set ifs \<and> c \<in> set defifs)"

definition after_delimiter :: "string \<Rightarrow> string \<Rightarrow> string" where
  "after_delimiter ifs s =
     (case dropWhile (ifs_white ifs) s of
        [] \<Rightarrow> []
      | c # s' \<Rightarrow> if c \<in> set ifs then dropWhile (ifs_white ifs) s' else c # s')"

lemma after_delimiter_length: "length (after_delimiter ifs s) \<le> length s"
  using length_dropWhile_le [of "ifs_white ifs" s]
  by (auto simp: after_delimiter_def split: list.splits intro: order_trans [OF length_dropWhile_le])

lemma after_delimiter_Cons:
  "after_delimiter ifs (c # s) =
     (if ifs_white ifs c then after_delimiter ifs s
      else if c \<in> set ifs then dropWhile (ifs_white ifs) s else c # s)"
  by (simp add: after_delimiter_def ifs_white_def)

lemma after_field_length:
  "length (after_delimiter ifs (dropWhile (\<lambda>x. x \<notin> set ifs) (c # s))) < length (c # s)"
proof (cases "c \<in> set ifs")
  case True
  then show ?thesis
    using after_delimiter_length [of ifs s] length_dropWhile_le [of "ifs_white ifs" s]
    by (simp add: after_delimiter_Cons)
next
  case False
  then show ?thesis
    using after_delimiter_length [of ifs "dropWhile (\<lambda>x. x \<notin> set ifs) s"] length_dropWhile_le [of "\<lambda>x. x \<notin> set ifs" s]
    by simp
qed

function split_fields :: "string \<Rightarrow> string \<Rightarrow> string list" where
  "split_fields ifs [] = []"
| "split_fields ifs (c # s) =
     takeWhile (\<lambda>x. x \<notin> set ifs) (c # s) # split_fields ifs (after_delimiter ifs (dropWhile (\<lambda>x. x \<notin> set ifs) (c # s)))"
  by pat_completeness auto
termination
  by (relation "measure (\<lambda>(ifs, s). length s)") (simp, simp only: in_measure prod.case after_field_length)

definition fields :: "string \<Rightarrow> string \<Rightarrow> string list" where
  "fields ifs s = split_fields ifs (dropWhile (ifs_white ifs) s)"

text \<open>The loop of \<open>ifsbreakup\<close> on the characters alone: the field so far, and \<open>ifsspc\<close>.\<close>

fun field_loop :: "string \<Rightarrow> string \<Rightarrow> bool \<Rightarrow> string \<Rightarrow> string list" where
  "field_loop ifs cur spc [] = (if cur = [] then [] else [cur])"
| "field_loop ifs cur spc (c # s) =
     (if spc then
        if ifs_white ifs c then field_loop ifs [] True s
        else if c \<in> set ifs then field_loop ifs [] False s else field_loop ifs [c] False s
      else if c \<in> set ifs then
        if cur = [] \<and> ifs_white ifs c then field_loop ifs [] False s
        else cur # field_loop ifs [] (ifs_white ifs c) s
      else field_loop ifs (cur @ [c]) False s)"

lemma ifs_whiteD: "ifs_white ifs c \<Longrightarrow> c \<in> set ifs"
  by (simp add: ifs_white_def)

lemma field_loop_fields:
  "(cur \<noteq> [] \<longrightarrow> field_loop ifs cur False s =
      (cur @ takeWhile (\<lambda>x. x \<notin> set ifs) s) # split_fields ifs (after_delimiter ifs (dropWhile (\<lambda>x. x \<notin> set ifs) s))) \<and>
   field_loop ifs [] False s = split_fields ifs (dropWhile (ifs_white ifs) s) \<and>
   field_loop ifs [] True s = split_fields ifs (after_delimiter ifs s)"
proof (induction s arbitrary: cur)
  case Nil
  show ?case by (simp add: after_delimiter_def)
next
  case (Cons c s)
  consider "ifs_white ifs c" "c \<in> set ifs" | "\<not> ifs_white ifs c" "c \<in> set ifs" | "\<not> ifs_white ifs c" "c \<notin> set ifs"
    using ifs_whiteD by blast
  then show ?case using Cons [of "cur @ [c]"] Cons [of "[c]"]
    by cases (simp_all add: after_delimiter_Cons)
qed

text \<open>The buffer as it is after some characters: behind a null character nothing of a field.\<close>

lemma buf_text_prefix:
  assumes "NUL \<in> set (drop i pre)"
  shows "buf_text (pre @ r) i = buf_text (pre @ r') i"
proof -
  have "i \<le> length pre" using assms by (metis drop_all empty_iff linorder_linear list.set(1))
  then show ?thesis using assms by (auto simp: buf_text_def takeWhile_append)
qed

text \<open>
  The state of the loop after the characters \<open>pre\<close> of the buffer (with the null characters written
  over delimiters), with the field \<open>cur\<close> begun and \<open>rest\<close> still to read.
\<close>

definition splitting :: "string \<Rightarrow> string \<Rightarrow> string \<Rightarrow> split_state \<Rightarrow> bool" where
  "splitting pre cur rest st =
     (sbuf st = pre @ rest @ [NUL] \<and> sp st = length pre \<and> sstart st \<le> length pre \<and>
      drop (sstart st) pre = cur \<and> NUL \<notin> set cur \<and> sr st = None \<and> smax st = - 1 \<and>
      (sspc st \<longrightarrow> cur = []) \<and> (\<forall>i \<in> set (sout st). NUL \<in> set (drop i pre)))"

lemma buf_text_field:
  assumes "i \<le> length pre" and "NUL \<notin> set (drop i pre)"
  shows "buf_text (pre @ NUL # r) i = drop i pre"
proof -
  have "takeWhile (\<lambda>c. c \<noteq> NUL) (drop i pre @ NUL # r) = drop i pre"
    using assms(2) by (subst takeWhile_append2) auto
  then show ?thesis using assms(1) by (simp add: buf_text_def)
qed

lemma turn_plain:
  assumes "splitting pre cur (c # rest) st" and "c \<noteq> NUL" and "c \<noteq> CTLESC"
  shows "ifs_turn ifs False st =
    Inr (split_turn (length pre) (Suc (length pre)) (c \<in> set ifs) (ifs_white ifs c) False st)"
  using assms by (simp add: ifs_turn_def rd_def splitting_def in_str_def ifs_white_def Let_def)

lemma split_step:
  assumes sp: "splitting pre cur (c # rest) st" and c: "c \<noteq> NUL" "c \<noteq> CTLESC"
  shows "\<exists>st'. ifs_turn ifs False st = Inr st' \<and>
    ((\<exists>cur'. splitting (pre @ [c]) cur' rest st' \<and> sout st' = sout st \<and>
        field_loop ifs cur (sspc st) (c # rest) = field_loop ifs cur' (sspc st') rest) \<or>
     (splitting (pre @ [NUL]) [] rest st' \<and> sout st' = sout st @ [sstart st] \<and>
        field_loop ifs cur (sspc st) (c # rest) = cur # field_loop ifs [] (sspc st') rest))"
    (is "\<exists>st'. _ \<and> (?same st' \<or> ?emit st')")
proof -
  let ?st = "split_turn (length pre) (Suc (length pre)) (c \<in> set ifs) (ifs_white ifs c) False st"
  have old: "\<forall>i \<in> set (sout st). NUL \<in> set (drop i pre) \<and> i \<le> length pre"
  proof
    fix i assume "i \<in> set (sout st)"
    then have "NUL \<in> set (drop i pre)" using sp by (simp add: splitting_def)
    then show "NUL \<in> set (drop i pre) \<and> i \<le> length pre" by (cases "i \<le> length pre") simp_all
  qed
  have app: "drop i (pre @ [x]) = drop i pre @ [x]" if "i \<le> length pre" for i x using that by simp
  consider "sspc st" | "\<not> sspc st" "c \<notin> set ifs" | "\<not> sspc st" "cur = []" "ifs_white ifs c"
    | "\<not> sspc st" "c \<in> set ifs" "\<not> (cur = [] \<and> ifs_white ifs c)" by blast
  then have "?same ?st \<or> ?emit ?st"
  proof cases
    case 1
    then have "?same ?st" using sp c old
      by (intro exI [of _ "if c \<in> set ifs then [] else [c]"])
        (auto simp: splitting_def split_turn_def Let_def dest: ifs_whiteD)
    then show ?thesis ..
  next
    case 2
    then have "?same ?st" using sp c old
      by (intro exI [of _ "cur @ [c]"]) (auto simp: splitting_def split_turn_def Let_def dest: ifs_whiteD)
    then show ?thesis ..
  next
    case 3
    then have "?same ?st" using sp c old
      by (intro exI [of _ "[]"]) (auto simp: splitting_def split_turn_def end_field_def Let_def dest: ifs_whiteD)
    then show ?thesis ..
  next
    case 4
    then have "?emit ?st" using sp c old
      by (auto simp: splitting_def split_turn_def end_field_def Let_def list_update_append)
    then show ?thesis ..
  qed
  then show ?thesis using turn_plain [OF sp c, of ifs] by blast
qed

text \<open>What \<open>ifsbreakup\<close> makes of the state after the last region.\<close>

definition args_of :: "split_state \<Rightarrow> string list" where
  "args_of st = map (buf_text (sbuf st)) (if sbuf st ! sstart st = NUL then sout st else sout st @ [sstart st])"

lemma split_run:
  assumes "splitting pre cur rest st" and "NUL \<notin> set rest" and "CTLESC \<notin> set rest"
  shows "\<exists>st'. ifs_region ifs False (length pre + length rest) st = Inr st' \<and> sr st' = None \<and>
    sstart st' < length (sbuf st') \<and>
    args_of st' = map (buf_text pre) (sout st) @ field_loop ifs cur (sspc st) rest"
  using assms
proof (induction rest arbitrary: pre cur st)
  case Nil
  have out: "map (buf_text (pre @ [NUL])) (sout st) = map (buf_text pre) (sout st)"
    using Nil.prems(1) buf_text_prefix [of _ pre "[NUL]" "[]"] by (simp add: splitting_def)
  show ?case
  proof (cases "cur = []")
    case True
    then show ?thesis using Nil.prems(1) out
      by (simp add: ifs_region.simps splitting_def args_of_def nth_append)
  next
    case False
    then have "sstart st < length pre" using Nil.prems(1) by (auto simp: splitting_def)
    moreover from this have "pre ! sstart st \<in> set cur"
      using Nil.prems(1) by (metis splitting_def Cons_nth_drop_Suc list.set_intros(1))
    ultimately show ?thesis using Nil.prems(1) out False
      by (auto simp: ifs_region.simps splitting_def args_of_def nth_append buf_text_field)
  qed
next
  case (Cons c rest)
  obtain st1 where t: "ifs_turn ifs False st = Inr st1"
    and d: "(\<exists>cur'. splitting (pre @ [c]) cur' rest st1 \<and> sout st1 = sout st \<and>
        field_loop ifs cur (sspc st) (c # rest) = field_loop ifs cur' (sspc st1) rest) \<or>
     (splitting (pre @ [NUL]) [] rest st1 \<and> sout st1 = sout st @ [sstart st] \<and>
        field_loop ifs cur (sspc st) (c # rest) = cur # field_loop ifs [] (sspc st1) rest)"
    using split_step [OF Cons.prems(1)] Cons.prems(2,3) by (metis list.set_intros(1))
  have "sp st < length pre + length (c # rest)" using Cons.prems(1) by (simp add: splitting_def)
  then have run: "ifs_region ifs False (length pre + length (c # rest)) st =
      ifs_region ifs False (length (pre @ [x]) + length rest) st1" for x
    using t by (simp add: ifs_region.simps [of _ _ _ st])
  have out: "map (buf_text (pre @ [x])) (sout st) = map (buf_text pre) (sout st)" for x
    using Cons.prems(1) buf_text_prefix [of _ pre "[x]" "[]"] by (simp add: splitting_def)
  from d show ?case
  proof
    assume "\<exists>cur'. splitting (pre @ [c]) cur' rest st1 \<and> sout st1 = sout st \<and>
        field_loop ifs cur (sspc st) (c # rest) = field_loop ifs cur' (sspc st1) rest"
    then show ?thesis using Cons.IH [of "pre @ [c]" _ st1] Cons.prems(2,3) run [of c] out [of c]
      by (metis list.set_intros(2))
  next
    assume e: "splitting (pre @ [NUL]) [] rest st1 \<and> sout st1 = sout st @ [sstart st] \<and>
        field_loop ifs cur (sspc st) (c # rest) = cur # field_loop ifs [] (sspc st1) rest"
    have "buf_text (pre @ [NUL]) (sstart st) = cur"
      using Cons.prems(1) by (simp add: splitting_def buf_text_field)
    then show ?thesis using Cons.IH [of "pre @ [NUL]" "[]" st1] Cons.prems(2,3) run [of NUL] out [of NUL] e
      by simp
  qed
qed

lemma ifsbreakup_is_fields:
  assumes "NUL \<notin> set s" and "CTLESC \<notin> set s"
  shows "ifsbreakup ifs (s @ [NUL]) (- 1) [\<lparr>begoff = 0, endoff = length s, nulonly = False\<rparr>] = Inr (fields ifs s)"
proof -
  let ?st = "\<lparr>sbuf = s @ [NUL], sp = 0, sstart = 0, sr = None, smax = - 1, sspc = False, sout = []\<rparr>"
  have "splitting [] [] s ?st" by (simp add: splitting_def)
  then obtain st where "ifs_region ifs False (length s) ?st = Inr st" and "sr st = None"
    and "sstart st < length (sbuf st)" and "args_of st = field_loop ifs [] False s"
    using split_run [of "[]" "[]" s ?st ifs] assms by auto
  then show ?thesis using field_loop_fields [of "[]" ifs s]
    by (simp add: ifsbreakup_def Let_def rd_def args_of_def fields_def split: if_splits)
qed

text \<open>
  C35: Field splitting of a text without escapes, all of which is one region: the arguments that
  \<open>ifsbreakup\<close> cuts out of the buffer are the fields of POSIX, for any \<open>IFS\<close>.
\<close>

theorem ifsbreakup_fields:
  assumes "NUL \<notin> set s" and "CTLESC \<notin> set s"
  shows "ifsbreakup ifs (s @ [NUL]) (- 1) [\<lparr>begoff = 0, endoff = length s, nulonly = False\<rparr>] = Inr (fields ifs s)"
  by (rule ifsbreakup_is_fields [OF assms])

lemma fields_example: "fields '' :'' ''  a b : c::d '' = [''a'', ''b'', ''c'', '''', ''d'']"
  by code_simp

theorem ifsbreakup_fields_witness:
  "ifsbreakup '' :'' (''  a b : c::d '' @ [NUL]) (- 1) [\<lparr>begoff = 0, endoff = length ''  a b : c::d '', nulonly = False\<rparr>] =
     Inr [''a'', ''b'', ''c'', '''', ''d'']"
  using ifsbreakup_fields [of "''  a b : c::d ''" "'' :''"] by (simp add: fields_example CTLESC_def)

section \<open>Sorting\<close>

lemma mset_merge_names: "mset (merge_names qs ps) = mset qs + mset ps"
  by (induction qs ps rule: merge_names.induct) auto

lemma set_merge_names: "set (merge_names qs ps) = set qs \<union> set ps"
  by (metis mset_merge_names set_mset_mset set_mset_union)

lemma sorted_merge_names: "sorted qs \<Longrightarrow> sorted ps \<Longrightarrow> sorted (merge_names qs ps)"
  by (induction qs ps rule: merge_names.induct) (auto simp: set_merge_names strcmp_neg)

lemma msort_sorts:
  "len = length list \<Longrightarrow> mset (msort list len) = mset list \<and> sorted (msort list len)"
proof (induction list len rule: msort.induct)
  case (1 list len)
  show ?case
  proof (cases "len \<le> 1")
    case True
    then show ?thesis using 1 by (simp add: msort.simps [of list] sorted01)
  next
    case False
    let ?a = "take (len div 2) list" and ?b = "drop (len div 2) list"
    have "mset (msort ?a (len div 2)) = mset ?a \<and> sorted (msort ?a (len div 2))"
      using "1.IH"(1) [OF False] "1.prems" by simp
    moreover have "mset (msort ?b (len - len div 2)) = mset ?b \<and> sorted (msort ?b (len - len div 2))"
      using "1.IH"(2) [OF False] "1.prems" by simp
    moreover have "mset ?a + mset ?b = mset list" by (metis append_take_drop_id mset_append)
    ultimately show ?thesis using False
      by (simp add: msort.simps [of list] mset_merge_names sorted_merge_names)
  qed
qed

text \<open>C0: The names that a pattern expands to come out sorted, each as often as it was found.\<close>
theorem expsort_sorts: "expsort str = sort str"
proof (rule properties_for_sort [symmetric])
  show "mset (expsort str) = mset str" using msort_sorts by (simp add: expsort_def)
  show "sorted (expsort str)" using msort_sorts by (simp add: expsort_def)
qed

end
