(* ===== verification/Sh_Eval.thy ===== *)
theory Sh_Eval
  imports Sh_Var
begin

text \<open>
  The evaluation of commands (\<open>eval.c\<close>, \<open>evalstring\<close> and its callers included): trees of commands,
  exit statuses, \<open>-e\<close> and \<open>-n\<close>, loops with \<open>break\<close> and \<open>continue\<close>, functions with \<open>return\<close>,
  subshells, and the exceptions that end a command.

  What commands do besides is a parameter, the record \<open>sys\<close>: expanding words, redirecting, looking
  commands up, parsing, running programs and the builtin commands that do not steer evaluation.
  These work on the shell (variables, options, parameters) and on the rest of the world. Signals do
  not arrive, so \<open>dotrap\<close> has nothing to do.
\<close>

section \<open>Trees\<close>

text \<open>
  \<open>nodetypes\<close>: \<open>Null\<close> is the null pointer; words and redirections are what the parser makes of them.
\<close>

datatype ('a, 'r) cmdtree =
    Null
  | NCMD int "'a list" "'a list" 'r
  | NPIPE bool "('a, 'r) cmdtree list"
  | NREDIR int "('a, 'r) cmdtree" 'r
  | NBACKGND int "('a, 'r) cmdtree" 'r
  | NSUBSHELL int "('a, 'r) cmdtree" 'r
  | NAND "('a, 'r) cmdtree" "('a, 'r) cmdtree"
  | NOR "('a, 'r) cmdtree" "('a, 'r) cmdtree"
  | NSEMI "('a, 'r) cmdtree" "('a, 'r) cmdtree"
  | NIF "('a, 'r) cmdtree" "('a, 'r) cmdtree" "('a, 'r) cmdtree"
  | NWHILE "('a, 'r) cmdtree" "('a, 'r) cmdtree"
  | NUNTIL "('a, 'r) cmdtree" "('a, 'r) cmdtree"
  | NFOR int "'a list" "('a, 'r) cmdtree" string
  | NCASE int 'a "('a list \<times> ('a, 'r) cmdtree) list"
  | NDEFUN int string "('a, 'r) cmdtree"
  | NNOT "('a, 'r) cmdtree"

section \<open>States\<close>

text \<open>
  \<open>evalskip\<close> is 0 or one of the four bits. \<open>core\<close> is the state but for \<open>evalskip\<close> and
  \<open>skipcount\<close>. A function is its line and its body.
\<close>

datatype skip = NOSKIP | SKIPBREAK | SKIPCONT | SKIPFUNC | SKIPFUNCDEF

record ('a, 'r, 'w) core =
  csh :: "shell \<times> 'w"
  cfuns :: "string \<Rightarrow> (int \<times> ('a, 'r) cmdtree) option"
  exitstatus :: int
  savestatus :: int
  loopnest :: int
  funcline :: int

record ('a, 'r, 'w) est =
  ecore :: "('a, 'r, 'w) core"
  evalskip :: skip
  skipcount :: int

text \<open>
  Exceptions (\<open>error.h\<close>). \<open>NOEXEC\<close> is the \<open>EXEND\<close> of \<open>shellexec\<close>, when a program cannot be run;
  \<open>REPLACED\<close> stands for the end of the program that has taken the place of the shell.
\<close>

datatype exc = EXINT | EXERROR | EXEND | EXEXIT | NOEXEC | REPLACED

text \<open>
  A run that returns gives a value and a state, one that raises an exception the exception and the
  state; no result at all means that the fuel did not suffice.
\<close>

type_synonym ('x, 's) run = "((exc \<times> 's) + ('x \<times> 's)) option"

definition returns :: "'x \<Rightarrow> 's \<Rightarrow> ('x, 's) run" where
  "returns x s = Some (Inr (x, s))"

definition raises :: "exc \<Rightarrow> 's \<Rightarrow> ('x, 's) run" where
  "raises e s = Some (Inl (e, s))"

definition andthen :: "('x, 's) run \<Rightarrow> ('x \<Rightarrow> 's \<Rightarrow> ('y, 's) run) \<Rightarrow> ('y, 's) run" where
  "andthen m f =
     (case m of
        None \<Rightarrow> None
      | Some (Inl (e, s)) \<Rightarrow> Some (Inl (e, s))
      | Some (Inr (x, s)) \<Rightarrow> f x s)"

text \<open>An error of the parameters is an exception and what it leaves in \<open>exitstatus\<close>.\<close>

datatype fault = Error int | Interrupt int

fun fault_exc :: "fault \<Rightarrow> exc" where
  "fault_exc (Error i) = EXERROR"
| "fault_exc (Interrupt i) = EXINT"

fun fault_status :: "fault \<Rightarrow> int" where
  "fault_status (Error i) = i"
| "fault_status (Interrupt i) = i"

text \<open>
  What \<open>evalcommand\<close> has before it executes the command: a redirection that failed or a command that
  was not found (the exit status, and whether a special builtin command was named), a program, a
  builtin command or a function, with the argument vector.
\<close>

datatype bltin = BREAKCMD | RETURNCMD | EXITCMD | EVALCMD | DOTCMD | EXECCMD | OTHERCMD

datatype 'f prepared =
    Bail int bool
  | Program "string list"
  | Builtin bltin bool "string list"
  | Function 'f "string list"

record ('a, 'r, 'w) sys =
  sy_words :: "'a list \<Rightarrow> shell \<times> 'w \<Rightarrow> (fault + string list) \<times> shell \<times> 'w"
  sy_word :: "'a \<Rightarrow> shell \<times> 'w \<Rightarrow> (fault + string) \<times> shell \<times> 'w"
  sy_casematch :: "'a \<Rightarrow> string \<Rightarrow> shell \<times> 'w \<Rightarrow> (fault + bool) \<times> shell \<times> 'w"
  sy_expredir :: "'r \<Rightarrow> shell \<times> 'w \<Rightarrow> (fault + unit) \<times> shell \<times> 'w"
  sy_redirectsafe :: "'r \<Rightarrow> shell \<times> 'w \<Rightarrow> (fault + int) \<times> shell \<times> 'w"
  sy_redirect :: "'r \<Rightarrow> shell \<times> 'w \<Rightarrow> (fault + unit) \<times> shell \<times> 'w"
  sy_popredir :: "'r \<Rightarrow> shell \<times> 'w \<Rightarrow> shell \<times> 'w"
  sy_prepare :: "'a list \<Rightarrow> 'a list \<Rightarrow> 'r \<Rightarrow> (string \<Rightarrow> (int \<times> ('a, 'r) cmdtree) option) \<Rightarrow> shell \<times> 'w \<Rightarrow>
    (fault + (int \<times> ('a, 'r) cmdtree) prepared) \<times> shell \<times> 'w"
  sy_finish :: "'a list \<Rightarrow> 'a list \<Rightarrow> 'r \<Rightarrow> shell \<times> 'w \<Rightarrow> shell \<times> 'w"
  sy_bltin :: "string list \<Rightarrow> int \<Rightarrow> (string \<Rightarrow> (int \<times> ('a, 'r) cmdtree) option) \<Rightarrow> shell \<times> 'w \<Rightarrow>
    (fault + int \<times> (string \<Rightarrow> (int \<times> ('a, 'r) cmdtree) option)) \<times> shell \<times> 'w"
  sy_program :: "string list \<Rightarrow> shell \<times> 'w \<Rightarrow> int \<times> 'w"
  sy_shellexec :: "string list \<Rightarrow> shell \<times> 'w \<Rightarrow> bool \<times> int \<times> shell \<times> 'w"
  sy_dot_file :: "string list \<Rightarrow> shell \<times> 'w \<Rightarrow> (fault + string option) \<times> shell \<times> 'w"
  sy_parsecmd :: "string \<Rightarrow> shell \<times> 'w \<Rightarrow> (fault + (('a, 'r) cmdtree \<times> bool \<times> string) option) \<times> shell \<times> 'w"
  sy_forkreset :: "shell \<times> 'w \<Rightarrow> shell \<times> 'w"
  sy_have_traps :: "'w \<Rightarrow> bool"
  sy_stoppedjobs :: "'w \<Rightarrow> bool"
  sy_background :: "('a, 'r) cmdtree \<Rightarrow> bool \<Rightarrow> ('a, 'r, 'w) core \<Rightarrow> 'w"
  sy_pipe :: "bool \<Rightarrow> ('a, 'r) cmdtree list \<Rightarrow> bool \<Rightarrow> ('a, 'r, 'w) core \<Rightarrow> (fault + int) \<times> shell \<times> 'w"

text \<open>A call of a parameter.\<close>

definition ccall :: "(shell \<times> 'w \<Rightarrow> (fault + 'x) \<times> shell \<times> 'w) \<Rightarrow> ('a, 'r, 'w) core \<Rightarrow> ('x, ('a, 'r, 'w) core) run" where
  "ccall f c =
     (case f (csh c) of
        (Inl e, s) \<Rightarrow> raises (fault_exc e) (c\<lparr>csh := s, exitstatus := fault_status e\<rparr>)
      | (Inr x, s) \<Rightarrow> returns x (c\<lparr>csh := s\<rparr>))"

text \<open>A run on the core, seen as one on the whole state.\<close>

definition on_core :: "(('a, 'r, 'w) core \<Rightarrow> ('x, ('a, 'r, 'w) core) run) \<Rightarrow> ('a, 'r, 'w) est \<Rightarrow> ('x, ('a, 'r, 'w) est) run" where
  "on_core f st =
     (case f (ecore st) of
        None \<Rightarrow> None
      | Some (Inl (e, c)) \<Rightarrow> Some (Inl (e, st\<lparr>ecore := c\<rparr>))
      | Some (Inr (x, c)) \<Rightarrow> Some (Inr (x, st\<lparr>ecore := c\<rparr>)))"

definition upd_core :: "(('a, 'r, 'w) core \<Rightarrow> ('a, 'r, 'w) core) \<Rightarrow> ('a, 'r, 'w) est \<Rightarrow> ('a, 'r, 'w) est" where
  "upd_core f st = st\<lparr>ecore := f (ecore st)\<rparr>"

text \<open>\<open>sh_error\<close>: the exit status is 2.\<close>

definition sh_result :: "shell_error + 'x \<Rightarrow> ('a, 'r, 'w) core \<Rightarrow> ('x, ('a, 'r, 'w) core) run" where
  "sh_result r c = (case r of Inl e \<Rightarrow> raises EXERROR (c\<lparr>exitstatus := 2\<rparr>) | Inr x \<Rightarrow> returns x c)"

definition eflag :: "('a, 'r, 'w) core \<Rightarrow> bool" where
  "eflag c = (optlist (fst (csh c)) ! 0 \<noteq> 0)"

definition nflag :: "('a, 'r, 'w) core \<Rightarrow> bool" where
  "nflag c = (optlist (fst (csh c)) ! 5 \<noteq> 0)"

text \<open>The line number that a command sets; in a function lines count from its first line.\<close>

definition at_line :: "int \<Rightarrow> ('a, 'r, 'w) core \<Rightarrow> ('a, 'r, 'w) core" where
  "at_line l c =
     c\<lparr>csh := (fst (csh c)\<lparr>lineno := (if funcline c \<noteq> 0 then l - (funcline c - 1) else l)\<rparr>, snd (csh c))\<rparr>"

definition nest :: "int \<Rightarrow> ('a, 'r, 'w) core \<Rightarrow> ('a, 'r, 'w) core" where
  "nest d c = c\<lparr>loopnest := loopnest c + d\<rparr>"

definition set_status :: "int \<Rightarrow> ('a, 'r, 'w) core \<Rightarrow> ('a, 'r, 'w) core" where
  "set_status i c = c\<lparr>exitstatus := i\<rparr>"

section \<open>The pieces of evaluation\<close>

text \<open>
  \<open>rec\<close> is \<open>evaltree\<close>, \<open>ex\<close> and \<open>te\<close> are the flags \<open>EV_EXIT\<close> and \<open>EV_TESTED\<close>. The end of
  \<open>evaltree\<close>, from the label \<open>out\<close> on; \<open>ce\<close> is \<open>checkexit\<close>.
\<close>

definition eval_out :: "bool \<Rightarrow> bool \<Rightarrow> bool \<Rightarrow> int \<Rightarrow> ('a, 'r, 'w) est \<Rightarrow> (int, ('a, 'r, 'w) est) run" where
  "eval_out ex te ce status st =
     (if eflag (ecore st) \<and> ce \<and> \<not> te \<and> status \<noteq> 0 then raises EXEND st
      else if ex then raises EXEND st
      else returns (exitstatus (ecore st)) st)"

definition skiploop :: "('a, 'r, 'w) est \<Rightarrow> skip \<times> ('a, 'r, 'w) est" where
  "skiploop st =
     (if evalskip st \<in> {SKIPBREAK, SKIPCONT} then
        let st1 = st\<lparr>skipcount := skipcount st - 1\<rparr>
        in if skipcount st1 \<le> 0 then (evalskip st, st1\<lparr>evalskip := NOSKIP\<rparr>) else (SKIPBREAK, st1)
      else (evalskip st, st))"

type_synonym ('a, 'r, 'w) evaluator =
  "('a, 'r) cmdtree \<Rightarrow> bool \<Rightarrow> bool \<Rightarrow> ('a, 'r, 'w) est \<Rightarrow> (int, ('a, 'r, 'w) est) run"

text \<open>The loop of \<open>evalloop\<close>; \<open>until\<close> tells \<open>NUNTIL\<close> from \<open>NWHILE\<close>.\<close>

fun while_loop ::
    "('a, 'r, 'w) evaluator \<Rightarrow> nat \<Rightarrow> bool \<Rightarrow> ('a, 'r) cmdtree \<Rightarrow> ('a, 'r) cmdtree \<Rightarrow> bool \<Rightarrow> int \<Rightarrow> ('a, 'r, 'w) est \<Rightarrow>
     (int, ('a, 'r, 'w) est) run" where
  "while_loop rec 0 until ch1 ch2 te status st = None"
| "while_loop rec (Suc k) until ch1 ch2 te status st =
     andthen (rec ch1 False True st) (\<lambda>i st1.
       case skiploop st1 of (skip, st2) \<Rightarrow>
         let status1 = (if skip = SKIPFUNC then i else status)
         in if skip \<noteq> NOSKIP then
              (if skip = SKIPCONT then while_loop rec k until ch1 ch2 te status1 st2 else returns status1 st2)
            else if (i \<noteq> 0) \<noteq> until then returns status1 st2
            else andthen (rec ch2 False te st2) (\<lambda>i2 st3.
              case skiploop st3 of (skip2, st4) \<Rightarrow>
                if skip2 = NOSKIP \<or> skip2 = SKIPCONT then while_loop rec k until ch1 ch2 te i2 st4
                else returns i2 st4))"

definition evalloop ::
    "('a, 'r, 'w) evaluator \<Rightarrow> nat \<Rightarrow> bool \<Rightarrow> ('a, 'r) cmdtree \<Rightarrow> ('a, 'r) cmdtree \<Rightarrow> bool \<Rightarrow> ('a, 'r, 'w) est \<Rightarrow>
     (int, ('a, 'r, 'w) est) run" where
  "evalloop rec k until ch1 ch2 te st =
     andthen (while_loop rec k until ch1 ch2 te 0 (upd_core (nest 1) st))
       (\<lambda>status st1. returns status (upd_core (nest (- 1)) st1))"

definition assign_for :: "string \<Rightarrow> string \<Rightarrow> ('a, 'r, 'w) core \<Rightarrow> (unit, ('a, 'r, 'w) core) run" where
  "assign_for var text c =
     (case setvar var (Some text) {} (fst (csh c)) of
        Inl e \<Rightarrow> sh_result (Inl e) c
      | Inr (a, sh) \<Rightarrow> returns () (c\<lparr>csh := (sh, snd (csh c))\<rparr>))"

fun for_loop ::
    "('a, 'r, 'w) evaluator \<Rightarrow> string \<Rightarrow> ('a, 'r) cmdtree \<Rightarrow> bool \<Rightarrow> int \<Rightarrow> string list \<Rightarrow> ('a, 'r, 'w) est \<Rightarrow>
     (int, ('a, 'r, 'w) est) run" where
  "for_loop rec var body te status [] st = returns status st"
| "for_loop rec var body te status (w # ws) st =
     andthen (on_core (assign_for var w) st) (\<lambda>_ st1.
     andthen (rec body False te st1) (\<lambda>i st2.
       case skiploop st2 of (skip, st3) \<Rightarrow>
         if skip = NOSKIP \<or> skip = SKIPCONT then for_loop rec var body te i ws st3 else returns i st3))"

definition evalfor ::
    "('a, 'r, 'w) sys \<Rightarrow> ('a, 'r, 'w) evaluator \<Rightarrow> int \<Rightarrow> 'a list \<Rightarrow> ('a, 'r) cmdtree \<Rightarrow> string \<Rightarrow> bool \<Rightarrow> ('a, 'r, 'w) est \<Rightarrow>
     (int, ('a, 'r, 'w) est) run" where
  "evalfor sy rec l args body var te st =
     andthen (on_core (ccall (sy_words sy args)) (upd_core (at_line l) st)) (\<lambda>ws st1.
     andthen (for_loop rec var body te 0 ws (upd_core (nest 1) st1))
       (\<lambda>status st2. returns status (upd_core (nest (- 1)) st2)))"

text \<open>The loops of \<open>evalcase\<close> over the patterns of a case and over the cases.\<close>

fun try_patterns ::
    "('a, 'r, 'w) sys \<Rightarrow> string \<Rightarrow> 'a list \<Rightarrow> ('a, 'r, 'w) core \<Rightarrow> (bool, ('a, 'r, 'w) core) run" where
  "try_patterns sy s [] c = returns False c"
| "try_patterns sy s (p # ps) c =
     andthen (ccall (sy_casematch sy p s) c) (\<lambda>b c1. if b then returns True c1 else try_patterns sy s ps c1)"

fun try_cases ::
    "('a, 'r, 'w) sys \<Rightarrow> ('a, 'r, 'w) evaluator \<Rightarrow> string \<Rightarrow> ('a list \<times> ('a, 'r) cmdtree) list \<Rightarrow> bool \<Rightarrow> bool \<Rightarrow>
     ('a, 'r, 'w) est \<Rightarrow> (int, ('a, 'r, 'w) est) run" where
  "try_cases sy rec s [] ex te st = returns 0 st"
| "try_cases sy rec s ((ps, body) # cs) ex te st =
     (if evalskip st \<noteq> NOSKIP then returns 0 st
      else andthen (on_core (try_patterns sy s ps) st) (\<lambda>b st1.
        if \<not> b then try_cases sy rec s cs ex te st1
        else if evalskip st1 = NOSKIP \<and> body \<noteq> Null then rec body ex te st1
        else returns 0 st1))"

definition evalcase ::
    "('a, 'r, 'w) sys \<Rightarrow> ('a, 'r, 'w) evaluator \<Rightarrow> int \<Rightarrow> 'a \<Rightarrow> ('a list \<times> ('a, 'r) cmdtree) list \<Rightarrow> bool \<Rightarrow> bool \<Rightarrow>
     ('a, 'r, 'w) est \<Rightarrow> (int, ('a, 'r, 'w) est) run" where
  "evalcase sy rec l w cs ex te st =
     andthen (on_core (ccall (sy_word sy w)) (upd_core (at_line l) st)) (\<lambda>s st1. try_cases sy rec s cs ex te st1)"

text \<open>
  What the parent sees of a child that has ended: \<open>exitreset\<close> and \<open>exitshell\<close> without traps, where
  \<open>savestatus\<close> is only set by \<open>exit\<close>. The child always raises an exception, since it runs with
  \<open>EV_EXIT\<close>.
\<close>

definition exit_code :: "exc \<Rightarrow> ('a, 'r, 'w) core \<Rightarrow> int" where
  "exit_code e c = (if e = EXEXIT \<and> 0 \<le> savestatus c then savestatus c else exitstatus c) mod 256"

definition subshell_body ::
    "('a, 'r, 'w) sys \<Rightarrow> ('a, 'r, 'w) evaluator \<Rightarrow> ('a, 'r) cmdtree \<Rightarrow> 'r \<Rightarrow> bool \<Rightarrow> ('a, 'r, 'w) est \<Rightarrow>
     (int, ('a, 'r, 'w) est) run" where
  "subshell_body sy rec n r te st =
     andthen (on_core (ccall (sy_redirect sy r)) (upd_core (\<lambda>c. c\<lparr>csh := sy_forkreset sy (csh c)\<rparr>) st))
       (\<lambda>_ st1. rec n True te st1)"

definition evalsubshell ::
    "('a, 'r, 'w) sys \<Rightarrow> ('a, 'r, 'w) evaluator \<Rightarrow> int \<Rightarrow> ('a, 'r) cmdtree \<Rightarrow> 'r \<Rightarrow> bool \<Rightarrow> bool \<Rightarrow> ('a, 'r, 'w) est \<Rightarrow>
     (int, ('a, 'r, 'w) est) run" where
  "evalsubshell sy rec l n r ex te st =
     andthen (on_core (ccall (sy_expredir sy r)) (upd_core (at_line l) st)) (\<lambda>_ st1.
       if ex \<and> \<not> sy_have_traps sy (snd (csh (ecore st1))) then subshell_body sy rec n r te st1
       else
         case subshell_body sy rec n r te st1 of
           None \<Rightarrow> None
         | Some (Inl (e, st2)) \<Rightarrow>
           returns (exit_code e (ecore st2))
             (upd_core (\<lambda>c. c\<lparr>csh := (fst (csh c), snd (csh (ecore st2)))\<rparr>) st1)
         | Some (Inr (i, st2)) \<Rightarrow> None)"

text \<open>A job in the background goes on by itself; so do the parts of a pipeline until the last ends.\<close>

definition evalbackgnd ::
    "('a, 'r, 'w) sys \<Rightarrow> int \<Rightarrow> ('a, 'r) cmdtree \<Rightarrow> 'r \<Rightarrow> ('a, 'r, 'w) core \<Rightarrow> (int, ('a, 'r, 'w) core) run" where
  "evalbackgnd sy l n r c =
     andthen (ccall (sy_expredir sy r) (at_line l c)) (\<lambda>_ c1.
       returns 0 (c1\<lparr>csh := (fst (csh c1), sy_background sy n False c1)\<rparr>))"

definition evalpipe ::
    "('a, 'r, 'w) sys \<Rightarrow> bool \<Rightarrow> ('a, 'r) cmdtree list \<Rightarrow> bool \<Rightarrow> ('a, 'r, 'w) core \<Rightarrow> (int, ('a, 'r, 'w) core) run" where
  "evalpipe sy bg ns te c = ccall (\<lambda>s. sy_pipe sy bg ns te (c\<lparr>csh := s\<rparr>)) c"

section \<open>Builtin commands\<close>

text \<open>\<open>break\<close> and \<open>continue\<close>, which the first character of the name tells apart.\<close>

definition breakcmd :: "string list \<Rightarrow> ('a, 'r, 'w) est \<Rightarrow> (int, ('a, 'r, 'w) est) run" where
  "breakcmd argv st =
     andthen (on_core (sh_result (if 1 < length argv then
                  bindE (number (argv ! 1)) (\<lambda>n. if n \<le> 0 then badnum (argv ! 1) else Inr n) else Inr 1)) st) (\<lambda>n st1.
       let n1 = (if n > loopnest (ecore st1) then loopnest (ecore st1) else n)
       in returns 0 (if n1 > 0 then st1\<lparr>evalskip := (if take 1 (argv ! 0) = ''c'' then SKIPCONT else SKIPBREAK), skipcount := n1\<rparr>
                     else st1))"

definition returncmd :: "string list \<Rightarrow> ('a, 'r, 'w) est \<Rightarrow> (int, ('a, 'r, 'w) est) run" where
  "returncmd argv st =
     (if 1 < length argv then
        andthen (on_core (sh_result (number (argv ! 1))) st) (\<lambda>n st1. returns n (st1\<lparr>evalskip := SKIPFUNC\<rparr>))
      else returns (exitstatus (ecore st)) (st\<lparr>evalskip := SKIPFUNCDEF\<rparr>))"

definition exitcmd :: "('a, 'r, 'w) sys \<Rightarrow> string list \<Rightarrow> ('a, 'r, 'w) core \<Rightarrow> (int, ('a, 'r, 'w) core) run" where
  "exitcmd sy argv c =
     (if sy_stoppedjobs sy (snd (csh c)) then returns 0 c
      else if 1 < length argv then
        andthen (sh_result (number (argv ! 1)) c) (\<lambda>n c1. raises EXEXIT (c1\<lparr>savestatus := n\<rparr>))
      else raises EXEXIT c)"

text \<open>The command strings of \<open>eval\<close>, of \<open>sh -c\<close> and the like, and the files of \<open>.\<close>.\<close>

fun evalstring ::
    "('a, 'r, 'w) sys \<Rightarrow> ('a, 'r, 'w) evaluator \<Rightarrow> nat \<Rightarrow> string \<Rightarrow> bool \<Rightarrow> bool \<Rightarrow> int \<Rightarrow> ('a, 'r, 'w) est \<Rightarrow>
     (int, ('a, 'r, 'w) est) run" where
  "evalstring sy rec 0 s ex te status st = None"
| "evalstring sy rec (Suc k) s ex te status st =
     andthen (on_core (ccall (sy_parsecmd sy s)) st) (\<lambda>p st1.
       case p of
         None \<Rightarrow> returns status st1
       | Some (n, eof, s') \<Rightarrow>
         andthen (rec n (ex \<and> eof) te st1) (\<lambda>i st2.
           let status1 = (if n \<noteq> Null then i else status)
           in if evalskip st2 \<noteq> NOSKIP then returns status1 st2
              else evalstring sy rec k s' ex te status1 st2))"

definition clear_func :: "skip \<Rightarrow> skip" where
  "clear_func sk = (if sk = SKIPFUNC \<or> sk = SKIPFUNCDEF then NOSKIP else sk)"

fun cmdloop ::
    "('a, 'r, 'w) sys \<Rightarrow> ('a, 'r, 'w) evaluator \<Rightarrow> nat \<Rightarrow> string \<Rightarrow> int \<Rightarrow> ('a, 'r, 'w) est \<Rightarrow>
     (int, ('a, 'r, 'w) est) run" where
  "cmdloop sy rec 0 s status st = None"
| "cmdloop sy rec (Suc k) s status st =
     andthen (on_core (ccall (sy_parsecmd sy s)) st) (\<lambda>p st1.
       case p of
         None \<Rightarrow> returns status st1
       | Some (n, eof, s') \<Rightarrow>
         andthen (rec n False False st1) (\<lambda>i st2.
           let status1 = (if n \<noteq> Null then i else status)
           in if evalskip st2 \<noteq> NOSKIP then returns status1 (st2\<lparr>evalskip := clear_func (evalskip st2)\<rparr>)
              else cmdloop sy rec k s' status1 st2))"

definition evalcmd ::
    "('a, 'r, 'w) sys \<Rightarrow> ('a, 'r, 'w) evaluator \<Rightarrow> nat \<Rightarrow> string list \<Rightarrow> bool \<Rightarrow> ('a, 'r, 'w) est \<Rightarrow>
     (int, ('a, 'r, 'w) est) run" where
  "evalcmd sy rec k argv te st =
     (case argv of
        a # p # ps \<Rightarrow> evalstring sy rec k (p @ concat (map (\<lambda>q. CHR '' '' # q) ps)) False te 0 st
      | _ \<Rightarrow> returns 0 st)"

definition dotcmd ::
    "('a, 'r, 'w) sys \<Rightarrow> ('a, 'r, 'w) evaluator \<Rightarrow> nat \<Rightarrow> string list \<Rightarrow> ('a, 'r, 'w) est \<Rightarrow>
     (int, ('a, 'r, 'w) est) run" where
  "dotcmd sy rec k argv st =
     andthen (on_core (ccall (sy_dot_file sy argv)) st) (\<lambda>f st1.
       case f of None \<Rightarrow> returns 0 st1 | Some s \<Rightarrow> cmdloop sy rec k s 0 st1)"

text \<open>\<open>shellexec\<close>, which does not return: the program takes over, or it cannot be run.\<close>

definition shellexec :: "('a, 'r, 'w) sys \<Rightarrow> string list \<Rightarrow> ('a, 'r, 'w) core \<Rightarrow> (int, ('a, 'r, 'w) core) run" where
  "shellexec sy argv c =
     (case sy_shellexec sy argv (csh c) of
        (ok, i, s) \<Rightarrow> raises (if ok then REPLACED else NOEXEC) (c\<lparr>csh := s, exitstatus := i\<rparr>))"

definition execcmd :: "('a, 'r, 'w) sys \<Rightarrow> string list \<Rightarrow> ('a, 'r, 'w) core \<Rightarrow> (int, ('a, 'r, 'w) core) run" where
  "execcmd sy argv c =
     (if 1 < length argv then
        shellexec sy (drop 1 argv) (c\<lparr>csh := (fst (csh c)\<lparr>optlist := (optlist (fst (csh c)))[3 := 0, 4 := 0]\<rparr>, snd (csh c))\<rparr>)
      else returns 0 c)"

definition othercmd :: "('a, 'r, 'w) sys \<Rightarrow> string list \<Rightarrow> ('a, 'r, 'w) core \<Rightarrow> (int, ('a, 'r, 'w) core) run" where
  "othercmd sy argv c =
     andthen (ccall (sy_bltin sy argv (exitstatus c) (cfuns c)) c) (\<lambda>(i, fs) c1. returns i (c1\<lparr>cfuns := fs\<rparr>))"

definition run_bltin ::
    "('a, 'r, 'w) sys \<Rightarrow> ('a, 'r, 'w) evaluator \<Rightarrow> nat \<Rightarrow> bltin \<Rightarrow> string list \<Rightarrow> bool \<Rightarrow> ('a, 'r, 'w) est \<Rightarrow>
     (int, ('a, 'r, 'w) est) run" where
  "run_bltin sy rec k b argv te st =
     (case b of
        BREAKCMD \<Rightarrow> breakcmd argv st
      | RETURNCMD \<Rightarrow> returncmd argv st
      | EXITCMD \<Rightarrow> on_core (exitcmd sy argv) st
      | EVALCMD \<Rightarrow> evalcmd sy rec k argv te st
      | DOTCMD \<Rightarrow> dotcmd sy rec k argv st
      | EXECCMD \<Rightarrow> on_core (execcmd sy argv) st
      | OTHERCMD \<Rightarrow> on_core (othercmd sy argv) st)"

definition evalbltin ::
    "('a, 'r, 'w) sys \<Rightarrow> ('a, 'r, 'w) evaluator \<Rightarrow> nat \<Rightarrow> bltin \<Rightarrow> string list \<Rightarrow> bool \<Rightarrow> ('a, 'r, 'w) est \<Rightarrow>
     (int, ('a, 'r, 'w) est) run" where
  "evalbltin sy rec k b argv te st =
     andthen (run_bltin sy rec k b argv te st) (\<lambda>i st1. returns i (upd_core (set_status i) st1))"

text \<open>A function has its own parameters and its own loops; both are put back however it ends.\<close>

definition enter_fun :: "int \<Rightarrow> string list \<Rightarrow> ('a, 'r, 'w) core \<Rightarrow> ('a, 'r, 'w) core" where
  "enter_fun l argv c =
     c\<lparr>csh := (fst (csh c)\<lparr>shparam := drop 1 argv, optind := 1, optoff := - 1\<rparr>, snd (csh c)),
       loopnest := 0, funcline := l\<rparr>"

definition leave_fun :: "('a, 'r, 'w) core \<Rightarrow> ('a, 'r, 'w) core \<Rightarrow> ('a, 'r, 'w) core" where
  "leave_fun c0 c =
     c\<lparr>csh := (fst (csh c)\<lparr>shparam := shparam (fst (csh c0)), optind := optind (fst (csh c0)),
                optoff := optoff (fst (csh c0))\<rparr>, snd (csh c)),
       loopnest := loopnest c0, funcline := funcline c0\<rparr>"

definition evalfun ::
    "('a, 'r, 'w) evaluator \<Rightarrow> int \<times> ('a, 'r) cmdtree \<Rightarrow> string list \<Rightarrow> bool \<Rightarrow> ('a, 'r, 'w) est \<Rightarrow>
     (int, ('a, 'r, 'w) est) run" where
  "evalfun rec f argv te st =
     (let done = (\<lambda>st1. st1\<lparr>ecore := leave_fun (ecore st) (ecore st1), evalskip := clear_func (evalskip st1)\<rparr>)
      in case rec (snd f) False te (upd_core (enter_fun (fst f) argv) st) of
           None \<Rightarrow> None
         | Some (Inl (e, st1)) \<Rightarrow> raises e (done st1)
         | Some (Inr (i, st1)) \<Rightarrow> returns i (done st1))"

section \<open>Commands\<close>

text \<open>
  \<open>evalcommand\<close> from the redirections on. Only an error in a builtin command that is not special
  does not end what the command is part of; the exit status is then the one of the error.
\<close>

definition run_prepared ::
    "('a, 'r, 'w) sys \<Rightarrow> ('a, 'r, 'w) evaluator \<Rightarrow> nat \<Rightarrow> bool \<Rightarrow> bool \<Rightarrow> (int \<times> ('a, 'r) cmdtree) prepared \<Rightarrow>
     ('a, 'r, 'w) est \<Rightarrow> (int, ('a, 'r, 'w) est) run" where
  "run_prepared sy rec k ex te p st =
     (case p of
        Bail i special \<Rightarrow>
          (if special then raises EXERROR (upd_core (set_status i) st) else returns i (upd_core (set_status i) st))
      | Program argv \<Rightarrow>
          (if \<not> ex \<or> sy_have_traps sy (snd (csh (ecore st))) then
             case sy_program sy argv (csh (ecore st)) of
               (i, w) \<Rightarrow> returns i (upd_core (\<lambda>c. c\<lparr>csh := (fst (csh c), w)\<rparr>) st)
           else on_core (shellexec sy argv) st)
      | Builtin b special argv \<Rightarrow>
          (case evalbltin sy rec k b argv te st of
             Some (Inl (e, st1)) \<Rightarrow>
               (if e = EXERROR \<and> \<not> special then returns (exitstatus (ecore st1)) st1 else raises e st1)
           | Some (Inr (i, st1)) \<Rightarrow> returns (exitstatus (ecore st1)) st1
           | None \<Rightarrow> None)
      | Function f argv \<Rightarrow>
          andthen (evalfun rec f argv te st) (\<lambda>i st1. returns (exitstatus (ecore st1)) st1))"

definition evalcommand ::
    "('a, 'r, 'w) sys \<Rightarrow> ('a, 'r, 'w) evaluator \<Rightarrow> nat \<Rightarrow> int \<Rightarrow> 'a list \<Rightarrow> 'a list \<Rightarrow> 'r \<Rightarrow> bool \<Rightarrow> bool \<Rightarrow>
     ('a, 'r, 'w) est \<Rightarrow> (int, ('a, 'r, 'w) est) run" where
  "evalcommand sy rec k l as args r ex te st =
     andthen (on_core (\<lambda>c. ccall (sy_prepare sy as args r (cfuns c)) c) (upd_core (at_line l) st)) (\<lambda>p st1.
     andthen (run_prepared sy rec k ex te p st1) (\<lambda>i st2.
       returns i (upd_core (\<lambda>c. c\<lparr>csh := sy_finish sy as args r (csh c)\<rparr>) st2)))"

definition evalredir ::
    "('a, 'r, 'w) sys \<Rightarrow> ('a, 'r, 'w) evaluator \<Rightarrow> int \<Rightarrow> ('a, 'r) cmdtree \<Rightarrow> 'r \<Rightarrow> bool \<Rightarrow> ('a, 'r, 'w) est \<Rightarrow>
     (int \<times> bool, ('a, 'r, 'w) est) run" where
  "evalredir sy rec l n r te st =
     andthen (on_core (ccall (sy_expredir sy r)) (upd_core (at_line l) st)) (\<lambda>_ st1.
     andthen (on_core (ccall (sy_redirectsafe sy r)) st1) (\<lambda>i st2.
     andthen (if i \<noteq> 0 then returns (i, True) st2
              else andthen (rec n False te st2) (\<lambda>j st3. returns (j, False) st3)) (\<lambda>p st3.
       returns p (upd_core (\<lambda>c. c\<lparr>csh := sy_popredir sy r (csh c)\<rparr>) st3))))"

definition defun :: "int \<Rightarrow> string \<Rightarrow> ('a, 'r) cmdtree \<Rightarrow> ('a, 'r, 'w) core \<Rightarrow> ('a, 'r, 'w) core" where
  "defun l f body c = c\<lparr>cfuns := (cfuns c)(f \<mapsto> (l, body))\<rparr>"

text \<open>\<open>calleval\<close>: the status of a part, with \<open>checkexit\<close>.\<close>

definition checked :: "bool \<Rightarrow> (int, ('a, 'r, 'w) est) run \<Rightarrow> (int \<times> bool, ('a, 'r, 'w) est) run" where
  "checked ce m = andthen m (\<lambda>i st. returns (i, ce) st)"

definition not_status :: "int \<Rightarrow> int" where
  "not_status i = (if i = 0 then 1 else 0)"

text \<open>The \<open>switch\<close> of \<open>evaltree\<close>; the result is the status with \<open>checkexit\<close>.\<close>

fun eval_node ::
    "('a, 'r, 'w) sys \<Rightarrow> ('a, 'r, 'w) evaluator \<Rightarrow> nat \<Rightarrow> ('a, 'r) cmdtree \<Rightarrow> bool \<Rightarrow> bool \<Rightarrow> ('a, 'r, 'w) est \<Rightarrow>
     (int \<times> bool, ('a, 'r, 'w) est) run" where
  "eval_node sy rec k Null ex te st = returns (0, False) st"
| "eval_node sy rec k (NNOT n) ex te st =
     andthen (rec n False True st) (\<lambda>i st1. returns (if evalskip st1 = NOSKIP then not_status i else i, False) st1)"
| "eval_node sy rec k (NREDIR l n r) ex te st = evalredir sy rec l n r te st"
| "eval_node sy rec k (NCMD l as args r) ex te st = checked True (evalcommand sy rec k l as args r ex te st)"
| "eval_node sy rec k (NFOR l args body var) ex te st = checked False (evalfor sy rec l args body var te st)"
| "eval_node sy rec k (NWHILE c b) ex te st = checked False (evalloop rec k False c b te st)"
| "eval_node sy rec k (NUNTIL c b) ex te st = checked False (evalloop rec k True c b te st)"
| "eval_node sy rec k (NSUBSHELL l n r) ex te st = checked True (evalsubshell sy rec l n r ex te st)"
| "eval_node sy rec k (NBACKGND l n r) ex te st = checked True (on_core (evalbackgnd sy l n r) st)"
| "eval_node sy rec k (NPIPE bg ns) ex te st = checked True (on_core (evalpipe sy bg ns te) st)"
| "eval_node sy rec k (NCASE l w cs) ex te st = checked False (evalcase sy rec l w cs ex te st)"
| "eval_node sy rec k (NAND a b) ex te st =
     andthen (rec a False True st) (\<lambda>i st1.
       if i \<noteq> 0 \<or> evalskip st1 \<noteq> NOSKIP then returns (i, False) st1 else checked False (rec b ex te st1))"
| "eval_node sy rec k (NOR a b) ex te st =
     andthen (rec a False True st) (\<lambda>i st1.
       if i = 0 \<or> evalskip st1 \<noteq> NOSKIP then returns (i, False) st1 else checked False (rec b ex te st1))"
| "eval_node sy rec k (NSEMI a b) ex te st =
     andthen (rec a False te st) (\<lambda>i st1.
       if evalskip st1 \<noteq> NOSKIP then returns (i, False) st1 else checked False (rec b ex te st1))"
| "eval_node sy rec k (NIF c a b) ex te st =
     andthen (rec c False True st) (\<lambda>i st1.
       if evalskip st1 \<noteq> NOSKIP then returns (i, False) st1
       else if i = 0 then checked False (rec a ex te st1)
       else if b \<noteq> Null then checked False (rec b ex te st1)
       else returns (0, False) st1)"
| "eval_node sy rec k (NDEFUN l f body) ex te st = returns (0, False) (upd_core (defun l f body) st)"

text \<open>
  \<open>evaltree\<close>. The fuel bounds the depth of calls, and for each call the number of turns of a loop.
\<close>

fun evaltree :: "('a, 'r, 'w) sys \<Rightarrow> nat \<Rightarrow> ('a, 'r, 'w) evaluator" where
  "evaltree sy 0 n ex te st = None"
| "evaltree sy (Suc k) n ex te st =
     (if nflag (ecore st) \<or> n = Null then eval_out ex te False 0 st
      else andthen (eval_node sy (evaltree sy k) k n ex te st) (\<lambda>(status, ce) st1.
        eval_out ex te ce status (upd_core (set_status status) st1)))"

end
