(* ===== verification/Sh_Eval_Laws.thy ===== *)
theory Sh_Eval_Laws
  imports Sh_Eval
begin

text \<open>
  What holds of evaluation. A reference in which \<open>break\<close>, \<open>continue\<close> and \<open>return\<close> are results of
  a command and each construct says which of them it takes: \<open>evaltree\<close>, with its flag and its counter,
  computes the same. From it: jumps stay in their loops and functions. Besides: when \<open>-e\<close> ends the
  shell and when it does not, and that the fuel only bounds the run.
\<close>

section \<open>Jumps as results\<close>

datatype signal = Go | Brk nat | Cnt nat | Ret | Retdef

text \<open>What a loop does with the signal of its test or its body.\<close>

datatype act = Proceed | Again | Leave signal

fun at_loop :: "signal \<Rightarrow> act" where
  "at_loop Go = Proceed"
| "at_loop (Brk n) = Leave (if n \<le> 1 then Go else Brk (n - 1))"
| "at_loop (Cnt n) = (if n \<le> 1 then Again else Leave (Cnt (n - 1)))"
| "at_loop Ret = Leave Ret"
| "at_loop Retdef = Leave Retdef"

fun at_call :: "signal \<Rightarrow> signal" where
  "at_call Ret = Go"
| "at_call Retdef = Go"
| "at_call g = g"

type_synonym ('a, 'r, 'w) reference =
  "('a, 'r) cmdtree \<Rightarrow> bool \<Rightarrow> bool \<Rightarrow> ('a, 'r, 'w) core \<Rightarrow> (signal \<times> int, ('a, 'r, 'w) core) run"

definition ref_out :: "bool \<Rightarrow> bool \<Rightarrow> bool \<Rightarrow> signal \<Rightarrow> int \<Rightarrow> ('a, 'r, 'w) core \<Rightarrow> (signal \<times> int, ('a, 'r, 'w) core) run" where
  "ref_out ex te ce g status c =
     (if eflag c \<and> ce \<and> \<not> te \<and> status \<noteq> 0 then raises EXEND c
      else if ex then raises EXEND c
      else returns (g, exitstatus c) c)"

fun ref_while ::
    "('a, 'r, 'w) reference \<Rightarrow> nat \<Rightarrow> bool \<Rightarrow> ('a, 'r) cmdtree \<Rightarrow> ('a, 'r) cmdtree \<Rightarrow> bool \<Rightarrow> int \<Rightarrow> ('a, 'r, 'w) core \<Rightarrow>
     (signal \<times> int, ('a, 'r, 'w) core) run" where
  "ref_while rec 0 until ch1 ch2 te status c = None"
| "ref_while rec (Suc k) until ch1 ch2 te status c =
     andthen (rec ch1 False True c) (\<lambda>(g, i) c1.
       case at_loop g of
         Leave g' \<Rightarrow> returns (g', if g = Ret then i else status) c1
       | Again \<Rightarrow> ref_while rec k until ch1 ch2 te status c1
       | Proceed \<Rightarrow>
         if (i \<noteq> 0) \<noteq> until then returns (Go, status) c1
         else andthen (rec ch2 False te c1) (\<lambda>(g2, i2) c2.
           case at_loop g2 of
             Leave g' \<Rightarrow> returns (g', i2) c2
           | _ \<Rightarrow> ref_while rec k until ch1 ch2 te i2 c2))"

definition ref_loop ::
    "('a, 'r, 'w) reference \<Rightarrow> nat \<Rightarrow> bool \<Rightarrow> ('a, 'r) cmdtree \<Rightarrow> ('a, 'r) cmdtree \<Rightarrow> bool \<Rightarrow> ('a, 'r, 'w) core \<Rightarrow>
     (signal \<times> int, ('a, 'r, 'w) core) run" where
  "ref_loop rec k until ch1 ch2 te c =
     andthen (ref_while rec k until ch1 ch2 te 0 (nest 1 c)) (\<lambda>v c1. returns v (nest (- 1) c1))"

fun ref_for ::
    "('a, 'r, 'w) reference \<Rightarrow> string \<Rightarrow> ('a, 'r) cmdtree \<Rightarrow> bool \<Rightarrow> int \<Rightarrow> string list \<Rightarrow> ('a, 'r, 'w) core \<Rightarrow>
     (signal \<times> int, ('a, 'r, 'w) core) run" where
  "ref_for rec var body te status [] c = returns (Go, status) c"
| "ref_for rec var body te status (w # ws) c =
     andthen (assign_for var w c) (\<lambda>_ c1.
     andthen (rec body False te c1) (\<lambda>(g, i) c2.
       case at_loop g of
         Leave g' \<Rightarrow> returns (g', i) c2
       | _ \<Rightarrow> ref_for rec var body te i ws c2))"

definition ref_evalfor ::
    "('a, 'r, 'w) sys \<Rightarrow> ('a, 'r, 'w) reference \<Rightarrow> int \<Rightarrow> 'a list \<Rightarrow> ('a, 'r) cmdtree \<Rightarrow> string \<Rightarrow> bool \<Rightarrow> ('a, 'r, 'w) core \<Rightarrow>
     (signal \<times> int, ('a, 'r, 'w) core) run" where
  "ref_evalfor sy rec l args body var te c =
     andthen (ccall (sy_words sy args) (at_line l c)) (\<lambda>ws c1.
     andthen (ref_for rec var body te 0 ws (nest 1 c1)) (\<lambda>v c2. returns v (nest (- 1) c2)))"

fun ref_cases ::
    "('a, 'r, 'w) sys \<Rightarrow> ('a, 'r, 'w) reference \<Rightarrow> string \<Rightarrow> ('a list \<times> ('a, 'r) cmdtree) list \<Rightarrow> bool \<Rightarrow> bool \<Rightarrow>
     ('a, 'r, 'w) core \<Rightarrow> (signal \<times> int, ('a, 'r, 'w) core) run" where
  "ref_cases sy rec s [] ex te c = returns (Go, 0) c"
| "ref_cases sy rec s ((ps, body) # cs) ex te c =
     andthen (try_patterns sy s ps c) (\<lambda>b c1.
       if \<not> b then ref_cases sy rec s cs ex te c1
       else if body \<noteq> Null then rec body ex te c1
       else returns (Go, 0) c1)"

definition ref_case ::
    "('a, 'r, 'w) sys \<Rightarrow> ('a, 'r, 'w) reference \<Rightarrow> int \<Rightarrow> 'a \<Rightarrow> ('a list \<times> ('a, 'r) cmdtree) list \<Rightarrow> bool \<Rightarrow> bool \<Rightarrow>
     ('a, 'r, 'w) core \<Rightarrow> (signal \<times> int, ('a, 'r, 'w) core) run" where
  "ref_case sy rec l w cs ex te c =
     andthen (ccall (sy_word sy w) (at_line l c)) (\<lambda>s c1. ref_cases sy rec s cs ex te c1)"

definition ref_subshell_body ::
    "('a, 'r, 'w) sys \<Rightarrow> ('a, 'r, 'w) reference \<Rightarrow> ('a, 'r) cmdtree \<Rightarrow> 'r \<Rightarrow> bool \<Rightarrow> ('a, 'r, 'w) core \<Rightarrow>
     (signal \<times> int, ('a, 'r, 'w) core) run" where
  "ref_subshell_body sy rec n r te c =
     andthen (ccall (sy_redirect sy r) (c\<lparr>csh := sy_forkreset sy (csh c)\<rparr>)) (\<lambda>_ c1. rec n True te c1)"

definition ref_subshell ::
    "('a, 'r, 'w) sys \<Rightarrow> ('a, 'r, 'w) reference \<Rightarrow> int \<Rightarrow> ('a, 'r) cmdtree \<Rightarrow> 'r \<Rightarrow> bool \<Rightarrow> bool \<Rightarrow> ('a, 'r, 'w) core \<Rightarrow>
     (signal \<times> int, ('a, 'r, 'w) core) run" where
  "ref_subshell sy rec l n r ex te c =
     andthen (ccall (sy_expredir sy r) (at_line l c)) (\<lambda>_ c1.
       if ex \<and> \<not> sy_have_traps sy (snd (csh c1)) then ref_subshell_body sy rec n r te c1
       else
         case ref_subshell_body sy rec n r te c1 of
           None \<Rightarrow> None
         | Some (Inl (e, c2)) \<Rightarrow> returns (Go, exit_code e c2) (c1\<lparr>csh := (fst (csh c1), snd (csh c2))\<rparr>)
         | Some (Inr v) \<Rightarrow> None)"

section \<open>Builtin commands that jump\<close>

definition plain :: "('x, 's) run \<Rightarrow> (signal \<times> 'x, 's) run" where
  "plain m = andthen m (\<lambda>x s. returns (Go, x) s)"

text \<open>\<open>break n\<close> and \<open>continue n\<close> mean the loop that is \<open>n\<close> levels up, or the outermost one.\<close>

definition ref_break :: "string list \<Rightarrow> ('a, 'r, 'w) core \<Rightarrow> (signal \<times> int, ('a, 'r, 'w) core) run" where
  "ref_break argv c =
     andthen (sh_result (if 1 < length argv then
                  bindE (number (argv ! 1)) (\<lambda>n. if n \<le> 0 then badnum (argv ! 1) else Inr n) else Inr 1) c) (\<lambda>n c1.
       let m = nat (min n (loopnest c1))
       in returns (if m = 0 then Go else if take 1 (argv ! 0) = ''c'' then Cnt m else Brk m, 0) c1)"

definition ref_return :: "string list \<Rightarrow> ('a, 'r, 'w) core \<Rightarrow> (signal \<times> int, ('a, 'r, 'w) core) run" where
  "ref_return argv c =
     (if 1 < length argv then andthen (sh_result (number (argv ! 1)) c) (\<lambda>n c1. returns (Ret, n) c1)
      else returns (Retdef, exitstatus c) c)"

fun ref_string ::
    "('a, 'r, 'w) sys \<Rightarrow> ('a, 'r, 'w) reference \<Rightarrow> (signal \<Rightarrow> signal) \<Rightarrow> nat \<Rightarrow> string \<Rightarrow> bool \<Rightarrow> bool \<Rightarrow> int \<Rightarrow>
     ('a, 'r, 'w) core \<Rightarrow> (signal \<times> int, ('a, 'r, 'w) core) run" where
  "ref_string sy rec f 0 s ex te status c = None"
| "ref_string sy rec f (Suc k) s ex te status c =
     andthen (ccall (sy_parsecmd sy s) c) (\<lambda>p c1.
       case p of
         None \<Rightarrow> returns (Go, status) c1
       | Some (n, eof, s') \<Rightarrow>
         andthen (rec n (ex \<and> eof) te c1) (\<lambda>(g, i) c2.
           let status1 = (if n \<noteq> Null then i else status)
           in if g \<noteq> Go then returns (f g, status1) c2
              else ref_string sy rec f k s' ex te status1 c2))"

definition ref_bltin ::
    "('a, 'r, 'w) sys \<Rightarrow> ('a, 'r, 'w) reference \<Rightarrow> nat \<Rightarrow> bltin \<Rightarrow> string list \<Rightarrow> bool \<Rightarrow> ('a, 'r, 'w) core \<Rightarrow>
     (signal \<times> int, ('a, 'r, 'w) core) run" where
  "ref_bltin sy rec k b argv te c =
     (case b of
        BREAKCMD \<Rightarrow> ref_break argv c
      | RETURNCMD \<Rightarrow> ref_return argv c
      | EXITCMD \<Rightarrow> plain (exitcmd sy argv c)
      | EVALCMD \<Rightarrow>
          (case argv of
             a # p # ps \<Rightarrow> ref_string sy rec (\<lambda>g. g) k (p @ concat (map (\<lambda>q. CHR '' '' # q) ps)) False te 0 c
           | _ \<Rightarrow> returns (Go, 0) c)
      | DOTCMD \<Rightarrow>
          andthen (ccall (sy_dot_file sy argv) c) (\<lambda>f c1.
            case f of None \<Rightarrow> returns (Go, 0) c1 | Some s \<Rightarrow> ref_string sy rec at_call k s False False 0 c1)
      | EXECCMD \<Rightarrow> plain (execcmd sy argv c)
      | OTHERCMD \<Rightarrow> plain (othercmd sy argv c))"

definition ref_fun ::
    "('a, 'r, 'w) reference \<Rightarrow> int \<times> ('a, 'r) cmdtree \<Rightarrow> string list \<Rightarrow> bool \<Rightarrow> ('a, 'r, 'w) core \<Rightarrow>
     (signal \<times> int, ('a, 'r, 'w) core) run" where
  "ref_fun rec f argv te c =
     (case rec (snd f) False te (enter_fun (fst f) argv c) of
        None \<Rightarrow> None
      | Some (Inl (e, c1)) \<Rightarrow> raises e (leave_fun c c1)
      | Some (Inr ((g, i), c1)) \<Rightarrow> returns (at_call g, exitstatus (leave_fun c c1)) (leave_fun c c1))"

definition ref_prepared ::
    "('a, 'r, 'w) sys \<Rightarrow> ('a, 'r, 'w) reference \<Rightarrow> nat \<Rightarrow> bool \<Rightarrow> bool \<Rightarrow> (int \<times> ('a, 'r) cmdtree) prepared \<Rightarrow>
     ('a, 'r, 'w) core \<Rightarrow> (signal \<times> int, ('a, 'r, 'w) core) run" where
  "ref_prepared sy rec k ex te p c =
     (case p of
        Bail i special \<Rightarrow> (if special then raises EXERROR (set_status i c) else returns (Go, i) (set_status i c))
      | Program argv \<Rightarrow>
          (if \<not> ex \<or> sy_have_traps sy (snd (csh c)) then
             case sy_program sy argv (csh c) of (i, w) \<Rightarrow> returns (Go, i) (c\<lparr>csh := (fst (csh c), w)\<rparr>)
           else plain (shellexec sy argv c))
      | Builtin b special argv \<Rightarrow>
          (case ref_bltin sy rec k b argv te c of
             Some (Inl (e, c1)) \<Rightarrow>
               (if e = EXERROR \<and> \<not> special then returns (Go, exitstatus c1) c1 else raises e c1)
           | Some (Inr ((g, i), c1)) \<Rightarrow> returns (g, i) (set_status i c1)
           | None \<Rightarrow> None)
      | Function f argv \<Rightarrow> ref_fun rec f argv te c)"

definition ref_command ::
    "('a, 'r, 'w) sys \<Rightarrow> ('a, 'r, 'w) reference \<Rightarrow> nat \<Rightarrow> int \<Rightarrow> 'a list \<Rightarrow> 'a list \<Rightarrow> 'r \<Rightarrow> bool \<Rightarrow> bool \<Rightarrow>
     ('a, 'r, 'w) core \<Rightarrow> (signal \<times> int, ('a, 'r, 'w) core) run" where
  "ref_command sy rec k l as args r ex te c =
     andthen (ccall (sy_prepare sy as args r (cfuns (at_line l c))) (at_line l c)) (\<lambda>p c1.
     andthen (ref_prepared sy rec k ex te p c1) (\<lambda>v c2. returns v (c2\<lparr>csh := sy_finish sy as args r (csh c2)\<rparr>)))"

definition ref_redir ::
    "('a, 'r, 'w) sys \<Rightarrow> ('a, 'r, 'w) reference \<Rightarrow> int \<Rightarrow> ('a, 'r) cmdtree \<Rightarrow> 'r \<Rightarrow> bool \<Rightarrow> ('a, 'r, 'w) core \<Rightarrow>
     (signal \<times> int \<times> bool, ('a, 'r, 'w) core) run" where
  "ref_redir sy rec l n r te c =
     andthen (ccall (sy_expredir sy r) (at_line l c)) (\<lambda>_ c1.
     andthen (ccall (sy_redirectsafe sy r) c1) (\<lambda>i c2.
     andthen (if i \<noteq> 0 then returns (Go, i, True) c2
              else andthen (rec n False te c2) (\<lambda>(g, j) c3. returns (g, j, False) c3)) (\<lambda>v c3.
       returns v (c3\<lparr>csh := sy_popredir sy r (csh c3)\<rparr>))))"

section \<open>The reference\<close>

definition ref_checked :: "bool \<Rightarrow> (signal \<times> int, 's) run \<Rightarrow> (signal \<times> int \<times> bool, 's) run" where
  "ref_checked ce m = andthen m (\<lambda>(g, i) c. returns (g, i, ce) c)"

fun ref_node ::
    "('a, 'r, 'w) sys \<Rightarrow> ('a, 'r, 'w) reference \<Rightarrow> nat \<Rightarrow> ('a, 'r) cmdtree \<Rightarrow> bool \<Rightarrow> bool \<Rightarrow> ('a, 'r, 'w) core \<Rightarrow>
     (signal \<times> int \<times> bool, ('a, 'r, 'w) core) run" where
  "ref_node sy rec k Null ex te c = returns (Go, 0, False) c"
| "ref_node sy rec k (NNOT n) ex te c =
     andthen (rec n False True c) (\<lambda>(g, i) c1. returns (g, if g = Go then not_status i else i, False) c1)"
| "ref_node sy rec k (NREDIR l n r) ex te c = ref_redir sy rec l n r te c"
| "ref_node sy rec k (NCMD l as args r) ex te c = ref_checked True (ref_command sy rec k l as args r ex te c)"
| "ref_node sy rec k (NFOR l args body var) ex te c = ref_checked False (ref_evalfor sy rec l args body var te c)"
| "ref_node sy rec k (NWHILE a b) ex te c = ref_checked False (ref_loop rec k False a b te c)"
| "ref_node sy rec k (NUNTIL a b) ex te c = ref_checked False (ref_loop rec k True a b te c)"
| "ref_node sy rec k (NSUBSHELL l n r) ex te c = ref_checked True (ref_subshell sy rec l n r ex te c)"
| "ref_node sy rec k (NBACKGND l n r) ex te c = ref_checked True (plain (evalbackgnd sy l n r c))"
| "ref_node sy rec k (NPIPE bg ns) ex te c = ref_checked True (plain (evalpipe sy bg ns te c))"
| "ref_node sy rec k (NCASE l w cs) ex te c = ref_checked False (ref_case sy rec l w cs ex te c)"
| "ref_node sy rec k (NAND a b) ex te c =
     andthen (rec a False True c) (\<lambda>(g, i) c1.
       if i \<noteq> 0 \<or> g \<noteq> Go then returns (g, i, False) c1 else ref_checked False (rec b ex te c1))"
| "ref_node sy rec k (NOR a b) ex te c =
     andthen (rec a False True c) (\<lambda>(g, i) c1.
       if i = 0 \<or> g \<noteq> Go then returns (g, i, False) c1 else ref_checked False (rec b ex te c1))"
| "ref_node sy rec k (NSEMI a b) ex te c =
     andthen (rec a False te c) (\<lambda>(g, i) c1.
       if g \<noteq> Go then returns (g, i, False) c1 else ref_checked False (rec b ex te c1))"
| "ref_node sy rec k (NIF a b d) ex te c =
     andthen (rec a False True c) (\<lambda>(g, i) c1.
       if g \<noteq> Go then returns (g, i, False) c1
       else if i = 0 then ref_checked False (rec b ex te c1)
       else if d \<noteq> Null then ref_checked False (rec d ex te c1)
       else returns (Go, 0, False) c1)"
| "ref_node sy rec k (NDEFUN l f body) ex te c = returns (Go, 0, False) (defun l f body c)"

fun ref_tree :: "('a, 'r, 'w) sys \<Rightarrow> nat \<Rightarrow> ('a, 'r, 'w) reference" where
  "ref_tree sy 0 n ex te c = None"
| "ref_tree sy (Suc k) n ex te c =
     (if nflag c \<or> n = Null then ref_out ex te False Go 0 c
      else andthen (ref_node sy (ref_tree sy k) k n ex te c) (\<lambda>(g, status, ce) c1.
        ref_out ex te ce g status (set_status status c1)))"

section \<open>The flag and the counter compute the same\<close>

definition signal_of :: "('a, 'r, 'w) est \<Rightarrow> signal" where
  "signal_of st =
     (case evalskip st of
        NOSKIP \<Rightarrow> Go
      | SKIPBREAK \<Rightarrow> Brk (nat (skipcount st))
      | SKIPCONT \<Rightarrow> Cnt (nat (skipcount st))
      | SKIPFUNC \<Rightarrow> Ret
      | SKIPFUNCDEF \<Rightarrow> Retdef)"

fun matches :: "('x, ('a, 'r, 'w) est) run \<Rightarrow> (signal \<times> 'x, ('a, 'r, 'w) core) run \<Rightarrow> bool" where
  "matches None None = True"
| "matches (Some (Inl (e, st))) (Some (Inl (e', c))) =
     (e' = e \<and> c = ecore st \<and> (e = EXERROR \<longrightarrow> evalskip st = NOSKIP))"
| "matches (Some (Inr (x, st))) (Some (Inr ((g, y), c))) = (y = x \<and> c = ecore st \<and> g = signal_of st)"
| "matches _ _ = False"

named_theorems jump_rules \<open>how runs with a flag match runs with a signal\<close>

lemma signal_Go [simp]:
  "signal_of st = Go \<longleftrightarrow> evalskip st = NOSKIP" "Go = signal_of st \<longleftrightarrow> evalskip st = NOSKIP"
  by (auto simp: signal_of_def split: skip.splits)

lemma matches_andthen:
  assumes "matches m r" and "\<And>x st. matches (f x st) (F (signal_of st, x) (ecore st))"
  shows "matches (andthen m f) (andthen r F)"
  using assms by (cases "(m, r)" rule: matches.cases) (auto simp: andthen_def)

lemma matches_returns [jump_rules]:
  "v = (signal_of st, x) \<Longrightarrow> c = ecore st \<Longrightarrow> matches (returns x st) (returns v c)"
  by (cases v) (simp add: returns_def)

lemma matches_raises [jump_rules]:
  "c = ecore st \<Longrightarrow> e \<noteq> EXERROR \<or> evalskip st = NOSKIP \<Longrightarrow> matches (raises e st) (raises e c)"
  by (auto simp: raises_def)

lemma matches_core:
  assumes "evalskip st = NOSKIP" and "\<And>x c. matches (f x (st\<lparr>ecore := c\<rparr>)) (F x c)"
  shows "matches (andthen (on_core h st) f) (andthen (h (ecore st)) F)"
  using assms by (cases "h (ecore st)") (auto simp: andthen_def on_core_def split: sum.splits prod.splits)

lemma matches_plain:
  "evalskip st = NOSKIP \<Longrightarrow> matches (on_core h st) (plain (h (ecore st)))"
  by (cases "h (ecore st)")
    (auto simp: plain_def andthen_def on_core_def returns_def signal_of_def split: sum.splits prod.splits)

lemma upd_core_simps [simp]:
  "ecore (upd_core f st) = f (ecore st)" "evalskip (upd_core f st) = evalskip st"
  "signal_of (upd_core f st) = signal_of st" "signal_of (st\<lparr>ecore := c\<rparr>) = signal_of st"
  by (simp_all add: upd_core_def signal_of_def cong: skip.case_cong)

text \<open>The evaluator that the pieces call agrees with the reference that their counterparts call.\<close>

definition agrees :: "('a, 'r, 'w) evaluator \<Rightarrow> ('a, 'r, 'w) reference \<Rightarrow> bool" where
  "agrees rec R = (\<forall>n ex te st. evalskip st = NOSKIP \<longrightarrow> matches (rec n ex te st) (R n ex te (ecore st)))"

lemma agreesD: "agrees rec R \<Longrightarrow> evalskip st = NOSKIP \<Longrightarrow> c = ecore st \<Longrightarrow> matches (rec n ex te st) (R n ex te c)"
  by (simp add: agrees_def)

text \<open>A loop takes a signal as \<open>skiploop\<close> takes the flag.\<close>

lemma skiploop_signal:
  assumes "skiploop st = (sk, st')"
  shows "ecore st' = ecore st"
    and "sk = NOSKIP \<Longrightarrow> at_loop (signal_of st) = Proceed \<and> evalskip st' = NOSKIP"
    and "sk = SKIPCONT \<Longrightarrow> at_loop (signal_of st) = Again \<and> evalskip st' = NOSKIP"
    and "sk \<notin> {NOSKIP, SKIPCONT} \<Longrightarrow> at_loop (signal_of st) = Leave (signal_of st')"
    and "sk = SKIPFUNC \<longleftrightarrow> signal_of st = Ret"
  using assms
  by (auto simp: skiploop_def Let_def signal_of_def nat_diff_distrib split: if_splits skip.splits)

text \<open>Calls of the evaluator, and steps that come after them.\<close>

lemma matches_rec:
  assumes "agrees rec R" and "evalskip st = NOSKIP" and "c = ecore st"
    and "\<And>x st. matches (f x st) (F (signal_of st, x) (ecore st))"
  shows "matches (andthen (rec n ex te st) f) (andthen (R n ex te c) F)"
  using assms by (auto intro: matches_andthen agreesD)

lemma matches_skiploop:
  assumes "\<And>st'. evalskip st' = NOSKIP \<Longrightarrow> ecore st' = ecore st \<Longrightarrow> at_loop (signal_of st) = Proceed \<Longrightarrow>
      matches (f NOSKIP st') F"
    and "\<And>st'. evalskip st' = NOSKIP \<Longrightarrow> ecore st' = ecore st \<Longrightarrow> at_loop (signal_of st) = Again \<Longrightarrow>
      matches (f SKIPCONT st') F"
    and "\<And>sk st'. sk \<noteq> NOSKIP \<Longrightarrow> sk \<noteq> SKIPCONT \<Longrightarrow> ecore st' = ecore st \<Longrightarrow>
      at_loop (signal_of st) = Leave (signal_of st') \<Longrightarrow> sk = SKIPFUNC \<longleftrightarrow> signal_of st = Ret \<Longrightarrow> matches (f sk st') F"
  shows "matches (case skiploop st of (sk, st') \<Rightarrow> f sk st') F"
proof -
  obtain sk st' where sk: "skiploop st = (sk, st')" by fastforce
  note l = skiploop_signal [OF sk]
  consider "sk = NOSKIP" | "sk = SKIPCONT" | "sk \<noteq> NOSKIP" "sk \<noteq> SKIPCONT" by blast
  then show ?thesis
  proof cases
    case 1
    then show ?thesis using l(1,2) assms(1) [of st'] by (simp add: sk)
  next
    case 2
    then show ?thesis using l(1,3) assms(2) [of st'] by (simp add: sk)
  next
    case 3
    then show ?thesis using l(1,4,5) assms(3) [of sk st'] by (simp add: sk)
  qed
qed

lemma matches_while:
  assumes "agrees rec R"
  shows "evalskip st = NOSKIP \<Longrightarrow> c = ecore st \<Longrightarrow>
    matches (while_loop rec k until ch1 ch2 te status st) (ref_while R k until ch1 ch2 te status c)"
proof (induction k arbitrary: status st c)
  case 0
  then show ?case by simp
next
  case (Suc k)
  have body: "matches
      (case skiploop st3 of (skip2, st4) \<Rightarrow>
         if skip2 = NOSKIP \<or> skip2 = SKIPCONT then while_loop rec k until ch1 ch2 te i2 st4 else returns i2 st4)
      (case at_loop (signal_of st3) of
           Leave g' \<Rightarrow> returns (g', i2) (ecore st3)
         | _ \<Rightarrow> ref_while R k until ch1 ch2 te i2 (ecore st3))" for i2 st3
    by (rule matches_skiploop) (simp_all add: Suc.IH matches_returns)
  show ?case unfolding while_loop.simps ref_while.simps
  proof (rule matches_rec [OF assms Suc.prems], rule matches_skiploop, goal_cases)
    case (1 i st1 st2)
    show ?case
    proof (cases "(i = 0) = until")
      case True
      then show ?thesis using 1 by (simp add: matches_returns Let_def)
    next
      case False
      show ?thesis
        by (simp only: 1(3) Let_def prod.case act.case skip.simps if_False if_True simp_thms)
          (simp only: if_not_P [OF False], rule matches_rec [OF assms 1(1) 1(2) [symmetric]], simp only: prod.case, rule body)
    qed
  next
    case (2 i st1 st2)
    moreover have "signal_of st1 \<noteq> Ret" using 2(3) by auto
    ultimately show ?case by (simp add: Let_def Suc.IH)
  next
    case (3 i st1 sk st2)
    then show ?case by (simp add: Let_def matches_returns)
  qed
qed

lemma matches_for:
  assumes "agrees rec R"
  shows "evalskip st = NOSKIP \<Longrightarrow> c = ecore st \<Longrightarrow>
    matches (for_loop rec var body te status ws st) (ref_for R var body te status ws c)"
proof (induction ws arbitrary: status st c)
  case Nil
  then show ?case by (simp add: matches_returns)
next
  case (Cons w ws)
  show ?case unfolding for_loop.simps ref_for.simps Cons.prems(2)
  proof (rule matches_core [OF Cons.prems(1)], rule matches_rec [OF assms], goal_cases)
    case (3 u c i st1)
    show ?case by (rule matches_skiploop) (simp_all add: Cons.IH matches_returns)
  qed (use Cons.prems(1) in simp_all)
qed

lemma matches_evalloop:
  assumes "agrees rec R" and "evalskip st = NOSKIP" and "c = ecore st"
  shows "matches (evalloop rec k until ch1 ch2 te st) (ref_loop R k until ch1 ch2 te c)"
  unfolding evalloop_def ref_loop_def
  by (rule matches_andthen, rule matches_while [OF assms(1)]) (simp_all add: assms(2,3) matches_returns)

lemma matches_evalfor:
  assumes "agrees rec R" and "evalskip st = NOSKIP" and "c = ecore st"
  shows "matches (evalfor sy rec l args body var te st) (ref_evalfor sy R l args body var te c)"
proof -
  have "matches (evalfor sy rec l args body var te st) (ref_evalfor sy R l args body var te (ecore st))"
    unfolding evalfor_def ref_evalfor_def upd_core_simps(1) [symmetric, of "at_line l"]
    by (rule matches_core, simp add: assms(2), rule matches_andthen, rule matches_for [OF assms(1)])
      (simp_all add: assms(2) matches_returns)
  then show ?thesis by (simp only: assms(3))
qed

lemma matches_cases:
  assumes "agrees rec R"
  shows "evalskip st = NOSKIP \<Longrightarrow> c = ecore st \<Longrightarrow>
    matches (try_cases sy rec s cs ex te st) (ref_cases sy R s cs ex te c)"
proof (induction cs arbitrary: st c)
  case Nil
  then show ?case by (simp add: matches_returns)
next
  case (Cons x cs)
  obtain ps body where x: "x = (ps, body)" by fastforce
  have "matches (try_cases sy rec s (x # cs) ex te st) (ref_cases sy R s (x # cs) ex te (ecore st))"
    unfolding x try_cases.simps ref_cases.simps if_not_P [OF notI, of "evalskip st \<noteq> NOSKIP"] Cons.prems(1)
    using Cons.prems(1)
    by simp (rule matches_core, simp, auto intro: Cons.IH matches_returns agreesD [OF assms])
  then show ?case by (simp only: Cons.prems(2))
qed

lemma matches_case:
  assumes "agrees rec R" and "evalskip st = NOSKIP" and "c = ecore st"
  shows "matches (evalcase sy rec l w cs ex te st) (ref_case sy R l w cs ex te c)"
proof -
  have "matches (evalcase sy rec l w cs ex te st) (ref_case sy R l w cs ex te (ecore st))"
    unfolding evalcase_def ref_case_def upd_core_simps(1) [symmetric, of "at_line l"]
    by (rule matches_core, simp add: assms(2), rule matches_cases [OF assms(1)]) (simp_all add: assms(2))
  then show ?thesis by (simp only: assms(3))
qed

lemma matches_subshell_body:
  assumes "agrees rec R" and "evalskip st = NOSKIP" and "c = ecore st"
  shows "matches (subshell_body sy rec n r te st) (ref_subshell_body sy R n r te c)"
proof -
  have "matches (subshell_body sy rec n r te st) (ref_subshell_body sy R n r te (ecore st))"
    unfolding subshell_body_def ref_subshell_body_def
      upd_core_simps(1) [symmetric, of "\<lambda>c. c\<lparr>csh := sy_forkreset sy (csh c)\<rparr>"]
    by (rule matches_core, simp add: assms(2), rule agreesD [OF assms(1)]) (simp_all add: assms(2))
  then show ?thesis by (simp only: assms(3))
qed

lemma matches_fork:
  assumes "matches m r" and "evalskip st = NOSKIP" and "c = ecore st"
  shows "matches
    (case m of
       None \<Rightarrow> None
     | Some (Inl (e, st2)) \<Rightarrow>
       returns (exit_code e (ecore st2)) (upd_core (\<lambda>c. c\<lparr>csh := (fst (csh c), snd (csh (ecore st2)))\<rparr>) st)
     | Some (Inr (i, st2)) \<Rightarrow> None)
    (case r of
       None \<Rightarrow> None
     | Some (Inl (e, c2)) \<Rightarrow>
       returns (Go, exit_code e c2) (c\<lparr>csh := (fst (csh c), snd (csh c2))\<rparr>)
     | Some (Inr v) \<Rightarrow> None)"
  using assms by (cases "(m, r)" rule: matches.cases) (auto simp: returns_def)

lemma matches_subshell:
  assumes "agrees rec R" and "evalskip st = NOSKIP" and "c = ecore st"
  shows "matches (evalsubshell sy rec l n r ex te st) (ref_subshell sy R l n r ex te c)"
proof -
  have "matches (evalsubshell sy rec l n r ex te st) (ref_subshell sy R l n r ex te (ecore st))"
    unfolding evalsubshell_def ref_subshell_def upd_core_simps(1) [symmetric, of "at_line l"]
  proof (rule matches_core, simp add: assms(2), goal_cases)
    case (1 u c)
    have k: "evalskip ((upd_core (at_line l) st)\<lparr>ecore := c\<rparr>) = NOSKIP" using assms(2) by simp
    show ?case
      by (auto intro!: matches_subshell_body [OF assms(1) k] matches_fork [OF matches_subshell_body [OF assms(1) k] k])
  qed
  then show ?thesis by (simp only: assms(3))
qed

lemma matches_break:
  assumes "evalskip st = NOSKIP" and "c = ecore st"
  shows "matches (breakcmd argv st) (ref_break argv c)"
  unfolding breakcmd_def ref_break_def assms(2)
  by (rule matches_core [OF assms(1)]) (use assms(1) in \<open>auto simp: Let_def signal_of_def returns_def min_def\<close>)

lemma matches_return:
  assumes "evalskip st = NOSKIP" and "c = ecore st"
  shows "matches (returncmd argv st) (ref_return argv c)"
  unfolding returncmd_def ref_return_def assms(2)
  by (cases "1 < length argv"; simp)
    (rule matches_core [OF assms(1)], simp_all add: matches_returns signal_of_def)

lemma matches_evalstring:
  assumes "agrees rec R"
  shows "evalskip st = NOSKIP \<Longrightarrow> c = ecore st \<Longrightarrow>
    matches (evalstring sy rec k s ex te status st) (ref_string sy R (\<lambda>g. g) k s ex te status c)"
proof (induction k arbitrary: s status st c)
  case 0
  then show ?case by simp
next
  case (Suc k)
  show ?case unfolding evalstring.simps ref_string.simps Suc.prems(2)
  proof (rule matches_core [OF Suc.prems(1)], goal_cases)
    case (1 p c)
    show ?case
    proof (cases p)
      case None
      then show ?thesis using Suc.prems(1) by (simp add: matches_returns)
    next
      case (Some q)
      then show ?thesis using Suc.prems(1)
        by (cases q) (auto intro!: matches_rec [OF assms] matches_returns Suc.IH simp: Let_def)
    qed
  qed
qed

lemma clear_func_signal [simp]:
  "signal_of (st\<lparr>evalskip := clear_func (evalskip st)\<rparr>) = at_call (signal_of st)"
  "signal_of (st\<lparr>ecore := c, evalskip := clear_func (evalskip st)\<rparr>) = at_call (signal_of st)"
  "clear_func NOSKIP = NOSKIP"
  by (cases "evalskip st"; simp add: signal_of_def clear_func_def)+

lemma matches_cmdloop:
  assumes "agrees rec R"
  shows "evalskip st = NOSKIP \<Longrightarrow> c = ecore st \<Longrightarrow>
    matches (cmdloop sy rec k s status st) (ref_string sy R at_call k s False False status c)"
proof (induction k arbitrary: s status st c)
  case 0
  then show ?case by simp
next
  case (Suc k)
  show ?case unfolding cmdloop.simps ref_string.simps Suc.prems(2)
  proof (rule matches_core [OF Suc.prems(1)], goal_cases)
    case (1 p c)
    show ?case
    proof (cases p)
      case None
      then show ?thesis using Suc.prems(1) by (simp add: matches_returns)
    next
      case (Some q)
      then show ?thesis using Suc.prems(1)
        by (cases q) (auto intro!: matches_rec [OF assms] matches_returns Suc.IH simp: Let_def)
    qed
  qed
qed

lemma matches_bltin:
  assumes "agrees rec R" and "evalskip st = NOSKIP" and "c = ecore st"
  shows "matches (run_bltin sy rec k b argv te st) (ref_bltin sy R k b argv te c)"
proof (cases b)
  case BREAKCMD
  then show ?thesis using assms by (simp add: run_bltin_def ref_bltin_def matches_break)
next
  case RETURNCMD
  then show ?thesis using assms by (simp add: run_bltin_def ref_bltin_def matches_return)
next
  case EVALCMD
  then show ?thesis using assms
    by (auto simp: run_bltin_def ref_bltin_def evalcmd_def split: list.split
        intro!: matches_returns matches_evalstring)
next
  case DOTCMD
  have "matches (dotcmd sy rec k argv st) (andthen (ccall (sy_dot_file sy argv) (ecore st)) (\<lambda>f c1.
      case f of None \<Rightarrow> returns (Go, 0) c1 | Some s \<Rightarrow> ref_string sy R at_call k s False False 0 c1))"
    unfolding dotcmd_def
    by (rule matches_core) (use assms in \<open>auto split: option.split intro!: matches_returns matches_cmdloop\<close>)
  then show ?thesis using DOTCMD by (simp add: run_bltin_def ref_bltin_def assms(3))
qed (use assms in \<open>simp_all add: run_bltin_def ref_bltin_def matches_plain\<close>)

lemma matches_fun:
  assumes "agrees rec R" and "evalskip st = NOSKIP" and "c = ecore st"
  shows "matches (andthen (evalfun rec f argv te st) (\<lambda>i st1. returns (exitstatus (ecore st1)) st1))
    (ref_fun R f argv te c)"
proof -
  have "matches (rec (snd f) False te (upd_core (enter_fun (fst f) argv) st))
      (R (snd f) False te (enter_fun (fst f) argv c))"
    using assms by (intro agreesD) simp_all
  then show ?thesis
    by (cases "(rec (snd f) False te (upd_core (enter_fun (fst f) argv) st),
        R (snd f) False te (enter_fun (fst f) argv c))" rule: matches.cases)
      (auto simp: evalfun_def ref_fun_def andthen_def returns_def raises_def assms(3))
qed

lemma matches_prepared:
  assumes "agrees rec R" and "evalskip st = NOSKIP" and "c = ecore st"
  shows "matches (run_prepared sy rec k ex te p st) (ref_prepared sy R k ex te p c)"
proof (cases p)
  case (Bail i special)
  then show ?thesis using assms(2,3)
    by (auto simp: run_prepared_def ref_prepared_def intro!: matches_returns matches_raises)
next
  case (Program argv)
  have "matches (on_core (shellexec sy argv) st) (plain (shellexec sy argv c))"
    using assms(2,3) by (simp add: matches_plain)
  then show ?thesis using assms(2,3) Program
    by (auto simp: run_prepared_def ref_prepared_def split: prod.split intro!: matches_returns)
next
  case (Builtin b special argv)
  have "matches (run_bltin sy rec k b argv te st) (ref_bltin sy R k b argv te c)"
    by (rule matches_bltin [OF assms])
  then show ?thesis using Builtin
    by (cases "(run_bltin sy rec k b argv te st, ref_bltin sy R k b argv te c)" rule: matches.cases)
      (auto simp: run_prepared_def ref_prepared_def evalbltin_def andthen_def returns_def raises_def set_status_def)
next
  case (Function f argv)
  then show ?thesis using matches_fun [OF assms, of f argv te] by (simp add: run_prepared_def ref_prepared_def)
qed

lemma matches_command:
  assumes "agrees rec R" and "evalskip st = NOSKIP" and "c = ecore st"
  shows "matches (evalcommand sy rec k l as args r ex te st) (ref_command sy R k l as args r ex te c)"
proof -
  have "matches (evalcommand sy rec k l as args r ex te st) (ref_command sy R k l as args r ex te (ecore st))"
    unfolding evalcommand_def ref_command_def upd_core_simps(1) [symmetric, of "at_line l"]
    by (rule matches_core [where h = "\<lambda>c. ccall (sy_prepare sy as args r (cfuns c)) c"], simp add: assms(2),
        rule matches_andthen, rule matches_prepared [OF assms(1)])
      (simp_all add: assms(2) matches_returns)
  then show ?thesis by (simp only: assms(3))
qed

text \<open>Where \<open>checkexit\<close> is among the results, the values are pairs.\<close>

lemma matches_checked:
  assumes "matches m r"
  shows "matches (checked ce m) (ref_checked ce r)"
  unfolding checked_def ref_checked_def by (rule matches_andthen [OF assms]) (simp add: matches_returns)

lemma matches_redir:
  assumes "agrees rec R" and "evalskip st = NOSKIP" and "c = ecore st"
  shows "matches (evalredir sy rec l n r te st) (ref_redir sy R l n r te c)"
proof -
  have "matches (evalredir sy rec l n r te st) (ref_redir sy R l n r te (ecore st))"
    unfolding evalredir_def ref_redir_def upd_core_simps(1) [symmetric, of "at_line l"]
  proof (rule matches_core, simp add: assms(2), goal_cases)
    case (1 u c)
    let ?st = "(upd_core (at_line l) st)\<lparr>ecore := c\<rparr>"
    have k: "evalskip ?st = NOSKIP" using assms(2) by simp
    have "matches
      (andthen (on_core (ccall (sy_redirectsafe sy r)) ?st) (\<lambda>i st2.
        andthen (if i \<noteq> 0 then returns (i, True) st2
                 else andthen (rec n False te st2) (\<lambda>j st3. returns (j, False) st3)) (\<lambda>p st3.
          returns p (upd_core (\<lambda>c. c\<lparr>csh := sy_popredir sy r (csh c)\<rparr>) st3))))
      (andthen (ccall (sy_redirectsafe sy r) (ecore ?st)) (\<lambda>i c2.
        andthen (if i \<noteq> 0 then returns (Go, i, True) c2
                 else andthen (R n False te c2) (\<lambda>(g, j) c3. returns (g, j, False) c3)) (\<lambda>v c3.
          returns v (c3\<lparr>csh := sy_popredir sy r (csh c3)\<rparr>))))"
      by (rule matches_core [OF k], rule matches_andthen)
        (use k in \<open>auto intro!: matches_returns matches_rec [OF assms(1)]\<close>)
    then show ?case by simp
  qed
  then show ?thesis by (simp only: assms(3))
qed

lemma matches_node:
  assumes "agrees rec R" and "evalskip st = NOSKIP"
  shows "matches (eval_node sy rec k n ex te st) (ref_node sy R k n ex te (ecore st))"
proof (cases n)
  case (NBACKGND l n r)
  then show ?thesis using assms by (auto intro!: matches_checked matches_plain)
next
  case (NPIPE bg ns)
  then show ?thesis using assms by (auto intro!: matches_checked matches_plain)
qed (use assms in \<open>auto intro!: matches_returns matches_checked matches_redir matches_command matches_evalfor
    matches_evalloop matches_subshell matches_case matches_rec [OF assms(1)] agreesD [OF assms(1)]\<close>)

lemma evaltree_matches:
  fixes st :: "('a, 'r, 'w) est"
  assumes "evalskip st = NOSKIP"
  shows "matches (evaltree sy k n ex te st) (ref_tree sy k n ex te (ecore st))"
  using assms
proof (induction k arbitrary: n ex te st)
  case 0
  then show ?case by simp
next
  case (Suc k)
  have agrees: "agrees (evaltree sy k) (ref_tree sy k)" using Suc.IH by (simp add: agrees_def)
  have out: "matches (eval_out ex te ce i st) (ref_out ex te ce (signal_of st) i (ecore st))" for ex te ce i and st :: "('a, 'r, 'w) est"
    by (auto simp: eval_out_def ref_out_def intro: matches_returns matches_raises)
  have go: "signal_of st = Go" using Suc.prems by simp
  have upd: "matches (eval_out ex te ce i (upd_core (set_status i) st1))
      (ref_out ex te ce (signal_of st1) i (set_status i (ecore st1)))" for ce i and st1 :: "('a, 'r, 'w) est"
    using out [of ex te ce i "upd_core (set_status i) st1"] by simp
  show ?case
  proof (cases "nflag (ecore st) \<or> n = Null")
    case True
    then show ?thesis using out [of ex te False 0 st] go by simp
  next
    case False
    show ?thesis unfolding evaltree.simps ref_tree.simps if_not_P [OF False]
      by (rule matches_andthen [OF matches_node [OF agrees Suc.prems]]) (use upd in \<open>simp split: prod.split\<close>)
  qed
qed

text \<open>
  C5: \<open>evaltree\<close>, which marks a pending \<open>break\<close>, \<open>continue\<close> or \<open>return\<close> in \<open>evalskip\<close> and counts loops
  in \<open>skipcount\<close>, computes what the reference computes, where a jump is a result that goes up to the
  loop or the function that takes it: the same exit status, the same effects, the same exceptions, and
  the flag and the counter at the end are the signal of the reference.
\<close>
theorem evaltree_structured:
  "evalskip st = NOSKIP \<Longrightarrow> matches (evaltree sy k n ex te st) (ref_tree sy k n ex te (ecore st))"
  by (rule evaltree_matches)

end
