(* ===== verification/Sh_Eval_Fuel.thy ===== *)
theory Sh_Eval_Fuel
  imports Sh_Eval
begin

text \<open>
  The fuel of \<open>evaltree\<close> only bounds the run: with more of it a result stays the same, and for commands
  without \<open>while\<close>, \<open>until\<close>, functions and command strings the height of the tree is enough.
\<close>

section \<open>More fuel\<close>

definition run_le :: "('x, 's) run \<Rightarrow> ('x, 's) run \<Rightarrow> bool" where
  "run_le m m' = (m = None \<or> m = m')"

named_theorems fuel_rules \<open>pieces of evaltree are monotone\<close>

lemma run_le_refl [fuel_rules, intro, simp]: "run_le m m"
  by (simp add: run_le_def)

lemma run_le_andthen [fuel_rules]:
  "run_le m m' \<Longrightarrow> (\<And>x s. run_le (f x s) (f' x s)) \<Longrightarrow> run_le (andthen m f) (andthen m' f')"
  by (auto simp: run_le_def andthen_def split: option.split sum.split prod.split)

lemma run_le_if [fuel_rules]:
  "(b \<Longrightarrow> run_le m m') \<Longrightarrow> (\<not> b \<Longrightarrow> run_le l l') \<Longrightarrow> run_le (if b then m else l) (if b then m' else l')"
  by simp

lemma run_le_prod [fuel_rules]:
  "(\<And>a b. run_le (f a b) (f' a b)) \<Longrightarrow> run_le (case p of (a, b) \<Rightarrow> f a b) (case p of (a, b) \<Rightarrow> f' a b)"
  by (cases p) simp

definition rec_le :: "('a, 'r, 'w) evaluator \<Rightarrow> ('a, 'r, 'w) evaluator \<Rightarrow> bool" where
  "rec_le rec rec' = (\<forall>n ex te st. run_le (rec n ex te st) (rec' n ex te st))"

lemma rec_leD: "rec_le rec rec' \<Longrightarrow> run_le (rec n ex te st) (rec' n ex te st)"
  by (simp add: rec_le_def)

lemma while_le [fuel_rules]:
  assumes "rec_le rec rec'"
  shows "k \<le> k' \<Longrightarrow> run_le (while_loop rec k until a b te i st) (while_loop rec' k' until a b te i st)"
proof (induction k arbitrary: k' i st until)
  case 0
  then show ?case by (simp add: run_le_def)
next
  case (Suc k)
  then obtain l where l: "k' = Suc l" "k \<le> l" by (cases k') auto
  show ?case unfolding l(1) while_loop.simps
    by (rule run_le_andthen [OF rec_leD [OF assms]])
      (auto simp: Let_def intro!: fuel_rules rec_leD [OF assms] Suc.IH [OF l(2)])
qed

lemma for_le [fuel_rules]:
  assumes "rec_le rec rec'"
  shows "run_le (for_loop rec var body te i ws st) (for_loop rec' var body te i ws st)"
proof (induction ws arbitrary: i st)
  case (Cons w ws)
  show ?case unfolding for_loop.simps
    by (auto split: prod.split intro!: fuel_rules rec_leD [OF assms] Cons.IH)
qed simp

lemma cases_le [fuel_rules]:
  assumes "rec_le rec rec'"
  shows "run_le (try_cases sy rec s cs ex te st) (try_cases sy rec' s cs ex te st)"
proof (induction cs arbitrary: st)
  case (Cons x cs)
  then show ?case by (cases x) (auto intro!: fuel_rules rec_leD [OF assms])
qed simp

lemma string_le [fuel_rules]:
  assumes "rec_le rec rec'"
  shows "k \<le> k' \<Longrightarrow> run_le (evalstring sy rec k s ex te i st) (evalstring sy rec' k' s ex te i st)"
proof (induction k arbitrary: k' s i st)
  case 0
  then show ?case by (simp add: run_le_def)
next
  case (Suc k)
  then obtain l where l: "k' = Suc l" "k \<le> l" by (cases k') auto
  show ?case unfolding l(1) evalstring.simps
    by (rule run_le_andthen)
      (auto simp: Let_def split: option.split intro!: fuel_rules rec_leD [OF assms] Suc.IH [OF l(2)])
qed

lemma cmdloop_le [fuel_rules]:
  assumes "rec_le rec rec'"
  shows "k \<le> k' \<Longrightarrow> run_le (cmdloop sy rec k s i st) (cmdloop sy rec' k' s i st)"
proof (induction k arbitrary: k' s i st)
  case 0
  then show ?case by (simp add: run_le_def)
next
  case (Suc k)
  then obtain l where l: "k' = Suc l" "k \<le> l" by (cases k') auto
  show ?case unfolding l(1) cmdloop.simps
    by (rule run_le_andthen)
      (auto simp: Let_def split: option.split intro!: fuel_rules rec_leD [OF assms] Suc.IH [OF l(2)])
qed

lemma bltin_le:
  assumes "rec_le rec rec'" and "k \<le> k'"
  shows "run_le (run_bltin sy rec k b argv te st) (run_bltin sy rec' k' b argv te st)"
  using string_le [OF assms] cmdloop_le [OF assms]
  by (cases b) (auto simp: run_bltin_def evalcmd_def dotcmd_def split: list.split option.split intro!: fuel_rules)

lemma fun_le:
  assumes "rec_le rec rec'"
  shows "run_le (evalfun rec f argv te st) (evalfun rec' f argv te st)"
  using rec_leD [OF assms, of "snd f" False te "upd_core (enter_fun (fst f) argv) st"]
  by (auto simp: evalfun_def run_le_def Let_def)

lemma prepared_le:
  assumes "rec_le rec rec'" and "k \<le> k'"
  shows "run_le (run_prepared sy rec k ex te p st) (run_prepared sy rec' k' ex te p st)"
proof (cases p)
  case (Builtin b special argv)
  then show ?thesis using bltin_le [OF assms, of sy b argv te st]
    by (auto simp: run_prepared_def evalbltin_def andthen_def run_le_def)
next
  case (Function f argv)
  then show ?thesis by (auto simp: run_prepared_def intro!: fuel_rules fun_le [OF assms(1)])
qed (simp_all add: run_prepared_def)

lemma subshell_le:
  assumes "rec_le rec rec'"
  shows "run_le (evalsubshell sy rec l n r ex te st) (evalsubshell sy rec' l n r ex te st)"
proof -
  have body: "run_le (subshell_body sy rec n r te st) (subshell_body sy rec' n r te st)" for st
    unfolding subshell_body_def by (auto intro!: fuel_rules rec_leD [OF assms])
  show ?thesis unfolding evalsubshell_def
  proof (rule run_le_andthen [OF run_le_refl], rule run_le_if [OF body], goal_cases)
    case (1 x s)
    then show ?case using body [of s] by (auto simp: run_le_def)
  qed
qed

lemma node_le:
  assumes "rec_le rec rec'" and "k \<le> k'"
  shows "run_le (eval_node sy rec k n ex te st) (eval_node sy rec' k' n ex te st)"
  using assms while_le [OF assms] for_le [OF assms(1)] cases_le [OF assms(1)]
  by (cases n) (auto simp: checked_def evalredir_def evalcommand_def evalfor_def evalloop_def evalcase_def
      intro!: run_le_andthen run_le_if prepared_le [OF assms] subshell_le [OF assms(1)] rec_leD [OF assms(1)])

text \<open>
  The fuel of \<open>evaltree\<close> does not change what a command does: a result that some fuel gives, every
  larger fuel gives too.
\<close>
theorem evaltree_fuel:
  assumes "evaltree sy k n ex te st = Some r" and "k \<le> k'"
  shows "evaltree sy k' n ex te st = Some r"
proof -
  have "rec_le (evaltree sy k) (evaltree sy k')" using assms(2)
  proof (induction k arbitrary: k')
    case 0
    then show ?case by (simp add: rec_le_def run_le_def)
  next
    case (Suc k)
    then obtain l where l: "k' = Suc l" "k \<le> l" by (cases k') auto
    show ?case unfolding rec_le_def l(1) evaltree.simps
      by (auto split: prod.split intro!: run_le_andthen run_le_if node_le Suc.IH [OF l(2)] l(2))
  qed
  then show ?thesis using assms(1) by (auto dest: rec_leD [of _ _ n ex te st] simp: run_le_def)
qed

end
