(* ===== verification/Sh_Eval_Jumps.thy ===== *)
theory Sh_Eval_Jumps
  imports Sh_Eval_Laws Sh_Eval_Fuel
begin

text \<open>
  Where jumps and \<open>-e\<close> can lead: \<open>break\<close> and \<open>continue\<close> stay inside the loops that are running, a
  command whose status is tested does not end the shell. Two cases in which the code does not keep
  this: an error in \<open>command eval\<close>, and files read with \<open>.\<close>. An instance of the parameters on which
  the witnesses run.
\<close>

section \<open>An instance of the parameters\<close>

text \<open>
  Words are strings, a redirection tells whether it fails, nothing else happens in the world. The
  prefix \<open>command\<close> is there if \<open>cmd\<close>. \<open>W\<close> is a command string or a file that is parsed as \<open>tree\<close>.
\<close>

definition ex_special :: "string \<Rightarrow> bool" where
  "ex_special s = (s \<in> {'':'', ''break'', ''continue'', ''return'', ''eval'', ''exit'', ''.''})"

definition ex_kind :: "string \<Rightarrow> bltin" where
  "ex_kind s =
     (if s = ''break'' \<or> s = ''continue'' then BREAKCMD
      else if s = ''return'' then RETURNCMD
      else if s = ''exit'' then EXITCMD
      else if s = ''eval'' then EVALCMD
      else if s = ''.'' then DOTCMD
      else OTHERCMD)"

definition ex_prepare ::
    "bool \<Rightarrow> string list \<Rightarrow> string list \<Rightarrow> bool \<Rightarrow> (string \<Rightarrow> (int \<times> (string, bool) cmdtree) option) \<Rightarrow> shell \<times> unit \<Rightarrow>
     (fault + (int \<times> (string, bool) cmdtree) prepared) \<times> shell \<times> unit" where
  "ex_prepare cmd as args r fs s =
     (let special = (args \<noteq> [] \<and> ex_special (hd args));
          argv = (if cmd \<and> take 1 args = [''command''] then drop 1 args else args);
          name = (if argv = [] then [] else hd argv)
      in (Inr (if r then Bail 2 special
               else if \<not> cmd \<and> name = ''.'' then Bail 127 True
               else if ex_special name \<or> name = ''true'' \<or> name = ''false'' then Builtin (ex_kind name) special argv
               else case fs name of Some f \<Rightarrow> Function f argv | None \<Rightarrow> Bail 127 False), s))"

definition ex_sys :: "bool \<Rightarrow> (string, bool) cmdtree \<Rightarrow> (string, bool, unit) sys" where
  "ex_sys cmd tree =
     \<lparr>sy_words = (\<lambda>ws s. (Inr ws, s)), sy_word = (\<lambda>w s. (Inr w, s)),
      sy_casematch = (\<lambda>p w s. (Inr (p = w), s)),
      sy_expredir = (\<lambda>r s. (Inr (), s)), sy_redirectsafe = (\<lambda>r s. (Inr (if r then 2 else 0), s)),
      sy_redirect = (\<lambda>r s. (Inr (), s)), sy_popredir = (\<lambda>r s. s),
      sy_prepare = ex_prepare cmd, sy_finish = (\<lambda>as args r s. s),
      sy_bltin = (\<lambda>argv i fs s. (Inr (if argv = [''false''] then 1 else 0, fs), s)),
      sy_program = (\<lambda>argv s. (127, ())), sy_shellexec = (\<lambda>argv s. (False, 127, s)),
      sy_dot_file = (\<lambda>argv s. (Inr (Some ''W''), s)),
      sy_parsecmd = (\<lambda>x s. (Inr (if x = ''W'' then Some (tree, True, []) else None), s)),
      sy_forkreset = (\<lambda>s. s), sy_have_traps = (\<lambda>w. False), sy_stoppedjobs = (\<lambda>w. False),
      sy_background = (\<lambda>n te c. ()), sy_pipe = (\<lambda>bg ns te c. (Inr 0, csh c))\<rparr>"

definition ex_state :: "bool \<Rightarrow> (string, bool, unit) est" where
  "ex_state e =
     \<lparr>ecore = \<lparr>csh = (static_shell\<lparr>optlist := (if e then 1 else 0) # replicate 17 0\<rparr>, ()), cfuns = (\<lambda>f. None),
         exitstatus = 0, savestatus = - 1, loopnest = 0, funcline = 0\<rparr>,
      evalskip = NOSKIP, skipcount = 0\<rparr>"

text \<open>A command without redirections, \<open>while true; do break; done\<close>, and \<open>while : <f; do true; done\<close>.\<close>

definition ex_cmd :: "string list \<Rightarrow> (string, bool) cmdtree" where
  "ex_cmd args = NCMD 1 [] args False"

definition ex_loop :: "(string, bool) cmdtree" where
  "ex_loop = NWHILE (ex_cmd [''true'']) (NSEMI (ex_cmd [''break'']) (ex_cmd [''false'']))"

definition ex_failing_loop :: "(string, bool) cmdtree" where
  "ex_failing_loop = NWHILE (NCMD 1 [] ['':''] True) (ex_cmd [''true''])"

section \<open>Jumps stay in the loops\<close>

definition sig_ok :: "int \<Rightarrow> signal \<Rightarrow> bool" where
  "sig_ok d g = (case g of Brk m \<Rightarrow> 1 \<le> m \<and> int m \<le> d | Cnt m \<Rightarrow> 1 \<le> m \<and> int m \<le> d | _ \<Rightarrow> True)"

lemma sig_ok_simps [simp]: "sig_ok d Go" "sig_ok d Ret" "sig_ok d Retdef"
  by (simp_all add: sig_ok_def)

lemma sig_ok_loop: "sig_ok (d + 1) g \<Longrightarrow> at_loop g = Leave g' \<Longrightarrow> sig_ok d g'"
  by (cases g) (auto simp: sig_ok_def split: if_splits)

lemma sig_ok_call: "sig_ok d g \<Longrightarrow> sig_ok d (at_call g)"
  by (cases g) (simp_all add: sig_ok_def)

text \<open>
  A run that returns leaves \<open>d1\<close> loops running, and a jump that is pending goes to one of \<open>d\<close> loops.
\<close>

definition stays :: "(signal \<times> 'x, ('a, 'r, 'w) core) run \<Rightarrow> int \<Rightarrow> int \<Rightarrow> bool" where
  "stays m d1 d = (\<forall>g x c. m = Some (Inr ((g, x), c)) \<longrightarrow> loopnest c = d1 \<and> sig_ok d g)"

definition keeps :: "('x, ('a, 'r, 'w) core) run \<Rightarrow> int \<Rightarrow> bool" where
  "keeps m d = ((\<forall>x c. m = Some (Inr (x, c)) \<longrightarrow> loopnest c = d) \<and> (\<forall>e c. m = Some (Inl (e, c)) \<longrightarrow> loopnest c = d))"

named_theorems stay_rules \<open>pieces of the reference keep jumps in their loops\<close>

lemma stays_returns [stay_rules]: "loopnest c = d1 \<Longrightarrow> sig_ok d (fst v) \<Longrightarrow> stays (returns v c) d1 d"
  by (auto simp: stays_def returns_def)

lemma stays_raises [stay_rules]: "stays (raises e c) d1 d"
  by (simp add: stays_def raises_def)

lemma run_cases:
  obtains "m = None" | e s where "m = Some (Inl (e, s))" | x s where "m = Some (Inr (x, s))"
  by (cases m) (auto, metis sumE surj_pair)

lemma stays_andthen:
  "stays m e1 e \<Longrightarrow> (\<And>g x c. loopnest c = e1 \<Longrightarrow> sig_ok e g \<Longrightarrow> stays (F (g, x) c) d1 d) \<Longrightarrow> stays (andthen m F) d1 d"
proof (cases m rule: run_cases)
  case (3 v c)
  assume "stays m e1 e" and F: "\<And>g x c. loopnest c = e1 \<Longrightarrow> sig_ok e g \<Longrightarrow> stays (F (g, x) c) d1 d"
  obtain g x where v: "v = (g, x)" by fastforce
  then have "loopnest c = e1" "sig_ok e g" using 3 \<open>stays m e1 e\<close> by (simp_all add: stays_def)
  then show ?thesis using F by (simp add: 3 v andthen_def)
qed (simp_all add: stays_def andthen_def)

lemma stays_keeps:
  "keeps m e \<Longrightarrow> (\<And>x c. m = Some (Inr (x, c)) \<Longrightarrow> loopnest c = e \<Longrightarrow> stays (F x c) d1 d) \<Longrightarrow> stays (andthen m F) d1 d"
  by (cases m rule: run_cases) (simp_all add: stays_def keeps_def andthen_def)

lemma keeps_ccall [stay_rules]: "loopnest c = d \<Longrightarrow> keeps (ccall f c) d"
  by (auto simp: keeps_def ccall_def returns_def raises_def split: prod.split sum.split)

lemma keeps_sh_result [stay_rules]: "loopnest c = d \<Longrightarrow> keeps (sh_result r c) d"
  by (auto simp: keeps_def sh_result_def returns_def raises_def split: sum.split)

lemma keeps_returns [stay_rules]: "loopnest c = d \<Longrightarrow> keeps (returns x c) d"
  by (simp add: keeps_def returns_def)

lemma keeps_raises [stay_rules]: "loopnest c = d \<Longrightarrow> keeps (raises x c) d"
  by (simp add: keeps_def raises_def)

lemma keeps_andthen [stay_rules]:
  assumes "keeps m d" and F: "\<And>x c. loopnest c = d \<Longrightarrow> keeps (F x c) d"
  shows "keeps (andthen m F) d"
proof (cases m rule: run_cases)
  case 1
  then show ?thesis by (simp add: keeps_def andthen_def)
next
  case (2 e c)
  then show ?thesis using assms(1) by (simp add: keeps_def andthen_def)
next
  case (3 x c)
  have "loopnest c = d" using assms(1) by (simp add: keeps_def 3)
  then show ?thesis using F by (simp add: 3 andthen_def)
qed

lemma keeps_assign [stay_rules]: "loopnest c = d \<Longrightarrow> keeps (assign_for var w c) d"
  by (auto simp: assign_for_def split: sum.split intro: stay_rules)

lemma keeps_patterns [stay_rules]: "loopnest c = d \<Longrightarrow> keeps (try_patterns sy s ps c) d"
  by (induction ps arbitrary: c) (auto intro!: stay_rules)

lemma keeps_shellexec [stay_rules]: "loopnest c = d \<Longrightarrow> keeps (shellexec sy argv c) d"
  by (auto simp: shellexec_def split: prod.split intro!: stay_rules)

lemma keeps_other:
  "loopnest c = d \<Longrightarrow> keeps (exitcmd sy argv c) d" "loopnest c = d \<Longrightarrow> keeps (execcmd sy argv c) d"
  "loopnest c = d \<Longrightarrow> keeps (othercmd sy argv c) d"
  by (auto simp: exitcmd_def execcmd_def othercmd_def intro!: stay_rules split: prod.split)

lemma stays_plain [stay_rules]: "keeps m d \<Longrightarrow> stays (plain m) d d'"
  unfolding plain_def by (erule stays_keeps) (simp add: stays_returns)

lemma at_core [simp]:
  "loopnest (at_line l c) = loopnest c" "loopnest (nest k c) = loopnest c + k" "loopnest (set_status i c) = loopnest c"
  "loopnest (defun l f b c) = loopnest c" "loopnest (leave_fun c0 c) = loopnest c0" "loopnest (enter_fun l argv c) = 0"
  by (simp_all add: at_line_def nest_def set_status_def defun_def leave_fun_def enter_fun_def)

text \<open>\<open>stays_rec\<close>: what is assumed of the evaluator that the pieces call.\<close>

definition stays_rec :: "('a, 'r, 'w) reference \<Rightarrow> bool" where
  "stays_rec R = (\<forall>n ex te c. stays (R n ex te c) (loopnest c) (loopnest c))"

lemma stays_recD: "stays_rec R \<Longrightarrow> loopnest c = d \<Longrightarrow> stays (R n ex te c) d d"
  by (auto simp: stays_rec_def)

lemma stays_act:
  assumes "sig_ok (d + 1) g" and "\<And>g'. sig_ok d g' \<Longrightarrow> stays (F g') d1 d" and "stays A d1 d" and "stays P d1 d"
  shows "stays (case at_loop g of Leave g' \<Rightarrow> F g' | Again \<Rightarrow> A | Proceed \<Rightarrow> P) d1 d"
  using assms sig_ok_loop by (auto split: act.split)

lemma stays_while:
  assumes "stays_rec R"
  shows "loopnest c = d + 1 \<Longrightarrow> stays (ref_while R k until a b te i c) (d + 1) d"
proof (induction k arbitrary: i c until)
  case 0
  then show ?case by (simp add: stays_def)
next
  case (Suc k)
  show ?case unfolding ref_while.simps
    by (rule stays_andthen [OF stays_recD [OF assms Suc.prems]])
      (auto intro!: stays_act stays_returns Suc.IH stays_andthen [OF stays_recD [OF assms]])
qed

lemma stays_for:
  assumes "stays_rec R"
  shows "loopnest c = d + 1 \<Longrightarrow> stays (ref_for R var body te i ws c) (d + 1) d"
proof (induction ws arbitrary: i c)
  case Nil
  then show ?case by (simp add: stays_returns)
next
  case (Cons w ws)
  show ?case unfolding ref_for.simps
    by (rule stays_keeps [OF keeps_assign [OF Cons.prems]], rule stays_andthen [OF stays_recD [OF assms]])
      (auto intro!: stays_act stays_returns Cons.IH)
qed

lemma stays_loop:
  assumes "stays_rec R" and "loopnest c = d"
  shows "stays (ref_loop R k until a b te c) d d"
  unfolding ref_loop_def
  by (rule stays_andthen [OF stays_while [OF assms(1)]]) (auto simp: assms(2) intro!: stays_returns)

lemma stays_evalfor:
  assumes "stays_rec R" and "loopnest c = d"
  shows "stays (ref_evalfor sy R l args body var te c) d d"
  unfolding ref_evalfor_def
  by (rule stays_keeps [OF keeps_ccall], simp add: assms(2), rule stays_andthen [OF stays_for [OF assms(1)]])
    (auto simp: assms(2) intro!: stays_returns)

lemma stays_cases:
  assumes "stays_rec R"
  shows "loopnest c = d \<Longrightarrow> stays (ref_cases sy R s cs ex te c) d d"
proof (induction cs arbitrary: c d)
  case Nil
  then show ?case by (simp add: stays_returns)
next
  case (Cons x cs)
  obtain ps body where x: "x = (ps, body)" by fastforce
  show ?case unfolding x ref_cases.simps
    by (rule stays_keeps [OF keeps_patterns [OF Cons.prems]])
      (auto intro!: Cons.IH stays_returns stays_recD [OF assms])
qed

lemma stays_case:
  assumes "stays_rec R" and "loopnest c = d"
  shows "stays (ref_case sy R l w cs ex te c) d d"
  unfolding ref_case_def
  by (rule stays_keeps [OF keeps_ccall], simp add: assms(2), rule stays_cases [OF assms(1)]) simp

lemma stays_subshell:
  assumes "stays_rec R" and "loopnest c = d"
  shows "stays (ref_subshell sy R l n r ex te c) d d"
proof -
  have body: "stays (ref_subshell_body sy R n r te c) d d" if "loopnest c = d" for c
    unfolding ref_subshell_body_def
    by (rule stays_keeps [OF keeps_ccall], simp add: that, rule stays_recD [OF assms(1)]) simp
  show ?thesis unfolding ref_subshell_def
  proof (rule stays_keeps [OF keeps_ccall], simp add: assms(2), goal_cases)
    case (1 u c1)
    then show ?case using body [of c1]
      by (cases "ref_subshell_body sy R n r te c1" rule: run_cases) (auto intro!: stays_returns simp: stays_def [of None])
  qed
qed

lemma stays_break:
  "loopnest c = d \<Longrightarrow> stays (ref_break argv c) d d"
  unfolding ref_break_def
  by (rule stays_keeps [OF keeps_sh_result]) (auto simp: Let_def sig_ok_def min_def intro!: stays_returns)

lemma stays_return: "loopnest c = d \<Longrightarrow> stays (ref_return argv c) d d"
  unfolding ref_return_def by (auto intro!: stays_keeps [OF keeps_sh_result] stays_returns)

lemma stays_string:
  assumes "stays_rec R" and "\<And>d g. sig_ok d g \<Longrightarrow> sig_ok d (f g)"
  shows "loopnest c = d \<Longrightarrow> stays (ref_string sy R f k s ex te i c) d d"
proof (induction k arbitrary: s i c d)
  case 0
  then show ?case by (simp add: stays_def)
next
  case (Suc k)
  show ?case unfolding ref_string.simps
  proof (rule stays_keeps [OF keeps_ccall [OF Suc.prems]], goal_cases)
    case (1 p c)
    then show ?case
    proof (cases p)
      case None
      then show ?thesis using 1 by (simp add: stays_returns)
    next
      case (Some q)
      obtain n eof s' where "q = (n, eof, s')" by (cases q)
      then show ?thesis using Some 1
        by (auto simp: Let_def intro!: stays_andthen [OF stays_recD [OF assms(1)]] stays_returns Suc.IH assms(2))
    qed
  qed
qed

lemma stays_bltin:
  assumes "stays_rec R" and "loopnest c = d"
  shows "stays (ref_bltin sy R k b argv te c) d d"
proof (cases b)
  case EVALCMD
  then show ?thesis using assms
    by (auto simp: ref_bltin_def split: list.split intro!: stays_returns stays_string)
next
  case DOTCMD
  have "stays (andthen (ccall (sy_dot_file sy argv) c) (\<lambda>f c1.
      case f of None \<Rightarrow> returns (Go, 0) c1 | Some s \<Rightarrow> ref_string sy R at_call k s False False 0 c1)) d d"
    by (rule stays_keeps [OF keeps_ccall [OF assms(2)]])
      (auto split: option.split intro!: stays_returns stays_string [OF assms(1)] sig_ok_call)
  then show ?thesis using DOTCMD by (simp add: ref_bltin_def)
qed (use assms(2) in \<open>auto simp: ref_bltin_def intro!: stays_break stays_return stays_plain keeps_other\<close>)

text \<open>Builtin commands that run no commands leave the count of loops alone when they fail, too.\<close>

lemma bltin_error_keeps:
  assumes "ref_bltin sy R k b argv te c = Some (Inl (e, c1))" and "b \<noteq> EVALCMD" and "b \<noteq> DOTCMD"
  shows "loopnest c1 = loopnest c"
proof -
  have "keeps (ref_bltin sy R k b argv te c) (loopnest c)"
    using assms(2,3)
    by (cases b) (auto simp: ref_bltin_def ref_break_def ref_return_def plain_def Let_def
        intro!: stay_rules keeps_other)
  then show ?thesis using assms(1) by (simp add: keeps_def)
qed

text \<open>
  What keeps the count of loops right: an error that is caught comes from a command that runs no
  loops. It does not hold for \<open>command eval\<close> and \<open>command .\<close>, where the prefix makes a special
  builtin command an ordinary one.
\<close>

definition strings_special :: "('a, 'r, 'w) sys \<Rightarrow> bool" where
  "strings_special sy =
     (\<forall>as args r fs s b special argv s'.
        sy_prepare sy as args r fs s = (Inr (Builtin b special argv), s') \<longrightarrow> b = EVALCMD \<or> b = DOTCMD \<longrightarrow> special)"

lemma strings_specialD:
  "strings_special sy \<Longrightarrow> sy_prepare sy as args r fs s = (Inr (Builtin b special argv), s') \<Longrightarrow>
   b = EVALCMD \<or> b = DOTCMD \<Longrightarrow> special"
  unfolding strings_special_def by blast

lemma ccall_returns: "ccall f c = Some (Inr (x, c1)) \<Longrightarrow> \<exists>s. f (csh c) = (Inr x, s)"
  by (auto simp: ccall_def returns_def raises_def split: prod.splits sum.splits)

lemma stays_prepared:
  assumes "stays_rec R" and "loopnest c = d"
    and "\<And>b special argv. p = Builtin b special argv \<Longrightarrow> b = EVALCMD \<or> b = DOTCMD \<Longrightarrow> special"
  shows "stays (ref_prepared sy R k ex te p c) d d"
proof (cases p)
  case (Bail i special)
  then show ?thesis using assms(2) by (auto simp: ref_prepared_def intro!: stays_returns stays_raises)
next
  case (Program argv)
  then show ?thesis using assms(2)
    by (auto simp: ref_prepared_def split: prod.split intro!: stays_returns stays_plain keeps_shellexec)
next
  case (Builtin b special argv)
  have st: "stays (ref_bltin sy R k b argv te c) d d" by (rule stays_bltin [OF assms(1,2)])
  show ?thesis
  proof (cases "ref_bltin sy R k b argv te c" rule: run_cases)
    case 1
    then show ?thesis by (simp add: ref_prepared_def Builtin stays_def)
  next
    case (2 e c1)
    have "loopnest c1 = d" if "\<not> special"
      using bltin_error_keeps [OF 2] assms(3) [OF Builtin] that assms(2) by blast
    then show ?thesis using 2 by (auto simp: ref_prepared_def Builtin intro!: stays_returns stays_raises)
  next
    case (3 v c1)
    then show ?thesis using st
      by (cases v) (auto simp: ref_prepared_def Builtin stays_def [of "Some _"] intro!: stays_returns)
  qed
next
  case (Function f argv)
  show ?thesis
  proof (cases "R (snd f) False te (enter_fun (fst f) argv c)" rule: run_cases)
    case (3 v c1)
    obtain g i where v: "v = (g, i)" by fastforce
    have "stays (R (snd f) False te (enter_fun (fst f) argv c)) 0 0" by (rule stays_recD [OF assms(1)]) simp
    then have "sig_ok 0 g" by (simp add: stays_def 3 v)
    then have "sig_ok d (at_call g)" by (cases g) (auto simp: sig_ok_def)
    then show ?thesis using assms(2) by (simp add: ref_prepared_def Function ref_fun_def 3 v stays_returns)
  qed (simp_all add: ref_prepared_def Function ref_fun_def stays_def raises_def)
qed

lemma stays_command:
  assumes "stays_rec R" and "loopnest c = d" and "strings_special sy"
  shows "stays (ref_command sy R k l as args r ex te c) d d"
  unfolding ref_command_def
proof (rule stays_keeps [OF keeps_ccall], simp add: assms(2), goal_cases)
  case (1 p c1)
  have "special" if "p = Builtin b special argv" and "b = EVALCMD \<or> b = DOTCMD" for b special argv
    using ccall_returns [OF 1(1)] that strings_specialD [OF assms(3)] by blast
  then have "stays (ref_prepared sy R k ex te p c1) d d" by (rule stays_prepared [OF assms(1) 1(2)])
  then show ?case by (rule stays_andthen) (simp add: stays_returns)
qed

lemma stays_redir:
  assumes "stays_rec R" and "loopnest c = d"
  shows "stays (ref_redir sy R l n r te c) d d"
  unfolding ref_redir_def
proof (rule stays_keeps [OF keeps_ccall], simp add: assms(2), rule stays_keeps [OF keeps_ccall], simp, goal_cases)
  case (1 u c1 i c2)
  have "stays (if i \<noteq> 0 then returns (Go, i, True) c2
      else andthen (R n False te c2) (\<lambda>(g, j) c3. returns (g, j, False) c3)) d d"
    using 1 by (simp add: stays_returns stays_andthen [OF stays_recD [OF assms(1)]])
  then show ?case by (rule stays_andthen) (simp add: stays_returns)
qed

lemma stays_checked: "stays m d d \<Longrightarrow> stays (ref_checked ce m) d d"
  unfolding ref_checked_def by (erule stays_andthen) (simp add: stays_returns)

lemma stays_node:
  assumes "stays_rec R" and "strings_special sy"
  shows "stays (ref_node sy R k n ex te c) (loopnest c) (loopnest c)"
proof -
  have rec: "stays (andthen (R n ex te c) F) (loopnest c) (loopnest c)"
    if "\<And>g x c1. loopnest c1 = loopnest c \<Longrightarrow> sig_ok (loopnest c) g \<Longrightarrow> stays (F (g, x) c1) (loopnest c) (loopnest c)"
    for n ex te c and F :: "signal \<times> int \<Rightarrow> _ \<Rightarrow> (signal \<times> int \<times> bool, _) run"
    by (rule stays_andthen [OF stays_recD [OF assms(1) refl]]) (rule that)
  note plain = stays_plain keeps_ccall
  show ?thesis
  proof (cases n)
    case (NBACKGND l n r)
    then show ?thesis
      by (auto simp: evalbackgnd_def intro!: stays_checked stays_plain keeps_andthen keeps_ccall keeps_returns)
  next
    case (NPIPE bg ns)
    then show ?thesis by (auto simp: evalpipe_def intro!: stays_checked stays_plain keeps_ccall)
  qed (auto intro!: rec stays_returns stays_checked stays_redir stays_command stays_evalfor stays_loop
      stays_subshell stays_case stays_recD [OF assms(1)] assms)
qed

lemma stays_tree:
  assumes "strings_special sy"
  shows "stays_rec (ref_tree sy k)"
proof (induction k)
  case 0
  then show ?case by (simp add: stays_rec_def stays_def)
next
  case (Suc k)
  have out: "stays (ref_out ex te ce g i c) d d" if "loopnest c = d" "sig_ok d g" for ex te ce g i d
    and c :: "('a, 'b, 'c) core"
    using that by (auto simp: ref_out_def intro!: stays_returns stays_raises)
  show ?case unfolding stays_rec_def ref_tree.simps
    by (auto intro!: out stays_andthen [OF stays_node [OF Suc.IH assms]])
qed


section \<open>Runs of the instance\<close>

definition outcome :: "(int, ('a, 'r, 'w) est) run \<Rightarrow> (exc + int \<times> skip \<times> int) option" where
  "outcome m =
     (case m of
        None \<Rightarrow> None
      | Some (Inl (e, st)) \<Rightarrow> Some (Inl e)
      | Some (Inr (i, st)) \<Rightarrow> Some (Inr (i, evalskip st, loopnest (ecore st))))"

lemmas ex_simps = ex_sys_def ex_state_def ex_cmd_def ex_loop_def ex_failing_loop_def ex_prepare_def ex_special_def
  ex_kind_def outcome_def eval_nat_numeral eval_out_def evalcommand_def evalbltin_def run_prepared_def run_bltin_def
  evalloop_def skiploop_def checked_def andthen_def returns_def raises_def on_core_def ccall_def upd_core_def
  at_line_def nest_def set_status_def eflag_def nflag_def othercmd_def breakcmd_def sh_result_def evalcmd_def
  dotcmd_def static_shell_def Let_def

lemma ex_loop_ends: "outcome (evaltree (ex_sys False Null) 5 ex_loop False False (ex_state False)) = Some (Inr (0, NOSKIP, 0))"
  by (simp add: ex_simps)

lemma outcome_returns:
  assumes "outcome m = Some (Inr (i, sk, d))"
  obtains st where "m = Some (Inr (i, st))" and "evalskip st = sk" and "loopnest (ecore st) = d"
  using assms by (cases m rule: run_cases) (auto simp: outcome_def)

lemma ex_strings_special: "strings_special (ex_sys False tree)"
  by (auto simp: strings_special_def ex_sys_def ex_prepare_def ex_special_def ex_kind_def Let_def
      split: if_splits option.splits)

lemma ex_evalskip: "evalskip (ex_state e) = NOSKIP"
  by (simp add: ex_state_def)

theorem evaltree_structured_witness:
  "matches (evaltree (ex_sys False Null) 5 ex_loop False False (ex_state False))
     (ref_tree (ex_sys False Null) 5 ex_loop False False (ecore (ex_state False))) \<and>
   outcome (evaltree (ex_sys False Null) 5 ex_loop False False (ex_state False)) = Some (Inr (0, NOSKIP, 0))"
  using evaltree_structured [OF ex_evalskip] ex_loop_ends by blast


theorem evaltree_fuel_witness:
  "\<exists>r. evaltree (ex_sys False Null) 5 ex_loop False False (ex_state False) = Some r \<and>
     evaltree (ex_sys False Null) 500 ex_loop False False (ex_state False) = Some r"
proof -
  obtain st' where "evaltree (ex_sys False Null) 5 ex_loop False False (ex_state False) = Some (Inr (0, st'))"
    by (rule outcome_returns [OF ex_loop_ends])
  then show ?thesis using evaltree_fuel [of "ex_sys False Null" 5 ex_loop False False "ex_state False" _ 500] by simp
qed

section \<open>A loop that stays open\<close>


section \<open>Tested commands do not end the shell\<close>

definition quiet :: "('x, 's) run \<Rightarrow> bool" where
  "quiet m = (\<forall>s. m \<noteq> Some (Inl (EXEND, s)))"

named_theorems quiet_rules \<open>pieces of evaltree that do not raise EXEND\<close>

lemma quiet_returns [quiet_rules]: "quiet (returns x s)"
  by (simp add: quiet_def returns_def)

lemma quiet_raises [quiet_rules]: "e \<noteq> EXEND \<Longrightarrow> quiet (raises e s)"
  by (simp add: quiet_def raises_def)

lemma quiet_None [quiet_rules]: "quiet None"
  by (simp add: quiet_def)

lemma quiet_andthen:
  assumes "quiet m" and F: "\<And>x s. m = Some (Inr (x, s)) \<Longrightarrow> quiet (F x s)"
  shows "quiet (andthen m F)"
proof (cases m rule: run_cases)
  case (3 x s)
  then show ?thesis using F [OF 3] by (simp add: andthen_def)
qed (use assms(1) in \<open>simp_all add: quiet_def andthen_def\<close>)

lemma quiet_ccall [quiet_rules]: "quiet (ccall f c)"
proof -
  have "fault_exc e \<noteq> EXEND" for e by (cases e) simp_all
  then show ?thesis by (auto simp: quiet_def ccall_def returns_def raises_def split: prod.splits sum.splits)
qed

lemma quiet_sh_result [quiet_rules]: "quiet (sh_result r c)"
  by (auto simp: sh_result_def split: sum.split intro!: quiet_rules)

lemma quiet_on_core [quiet_rules]: "quiet (f (ecore st)) \<Longrightarrow> quiet (on_core f st)"
  by (cases "f (ecore st)" rule: run_cases) (simp_all add: quiet_def on_core_def)

lemma quiet_other [quiet_rules]:
  "quiet (shellexec sy argv c)" "quiet (exitcmd sy argv c)" "quiet (execcmd sy argv c)" "quiet (othercmd sy argv c)"
  "quiet (assign_for var w c)"
  by (auto simp: shellexec_def exitcmd_def execcmd_def othercmd_def assign_for_def
      split: prod.split sum.split intro!: quiet_rules quiet_andthen)

lemma quiet_patterns [quiet_rules]: "quiet (try_patterns sy s ps c)"
  by (induction ps arbitrary: c) (auto intro!: quiet_rules quiet_andthen)

definition quiet_rec :: "('a, 'r, 'w) evaluator \<Rightarrow> bool" where
  "quiet_rec rec = (\<forall>n st. quiet (rec n False True st))"

lemma quiet_recD: "quiet_rec rec \<Longrightarrow> quiet (rec n False True st)"
  by (simp add: quiet_rec_def)

lemma quiet_prod [quiet_rules]: "(\<And>a b. quiet (f a b)) \<Longrightarrow> quiet (case p of (a, b) \<Rightarrow> f a b)"
  by (cases p) simp

lemma quiet_while:
  assumes "quiet_rec rec"
  shows "quiet (while_loop rec k until a b True i st)"
proof (induction k arbitrary: i st)
  case 0
  then show ?case by (simp add: quiet_None)
next
  case (Suc k)
  show ?case unfolding while_loop.simps Let_def
    by (rule quiet_andthen [OF quiet_recD [OF assms]], rule quiet_prod)
      (simp add: Suc.IH quiet_returns quiet_andthen [OF quiet_recD [OF assms]] split: prod.split)
qed

lemma quiet_for:
  assumes "quiet_rec rec"
  shows "quiet (for_loop rec var body True i ws st)"
proof (induction ws arbitrary: i st)
  case Nil
  then show ?case by (simp add: quiet_returns)
next
  case (Cons w ws)
  show ?case unfolding for_loop.simps
    by (rule quiet_andthen [OF quiet_on_core [OF quiet_other(5)]], rule quiet_andthen [OF quiet_recD [OF assms]],
        rule quiet_prod) (simp add: Cons.IH quiet_returns)
qed

lemma quiet_cases:
  assumes "quiet_rec rec"
  shows "quiet (try_cases sy rec s cs False True st)"
proof (induction cs arbitrary: st)
  case Nil
  then show ?case by (simp add: quiet_returns)
next
  case (Cons x cs)
  obtain ps body where x: "x = (ps, body)" by fastforce
  have "quiet (andthen (on_core (try_patterns sy s ps) st) (\<lambda>b st1.
      if \<not> b then try_cases sy rec s cs False True st1
      else if evalskip st1 = NOSKIP \<and> body \<noteq> Null then rec body False True st1 else returns 0 st1))"
    by (rule quiet_andthen [OF quiet_on_core [OF quiet_patterns]])
      (simp add: Cons.IH quiet_returns quiet_recD [OF assms])
  then show ?case by (simp add: x quiet_returns)
qed

lemma quiet_string:
  assumes "quiet_rec rec"
  shows "quiet (evalstring sy rec k s False True i st)"
proof (induction k arbitrary: s i st)
  case 0
  then show ?case by (simp add: quiet_None)
next
  case (Suc k)
  show ?case unfolding evalstring.simps Let_def
    by (rule quiet_andthen [OF quiet_on_core [OF quiet_ccall]])
      (simp add: Suc.IH quiet_returns quiet_andthen [OF quiet_recD [OF assms]] split: option.split)
qed

text \<open>\<open>.\<close> is left out: it runs the commands of the file as if their status were not tested.\<close>

definition no_dot :: "('a, 'r, 'w) sys \<Rightarrow> bool" where
  "no_dot sy =
     (\<forall>as args r fs s b special argv s'.
        sy_prepare sy as args r fs s = (Inr (Builtin b special argv), s') \<longrightarrow> b \<noteq> DOTCMD)"

lemma no_dotD: "no_dot sy \<Longrightarrow> sy_prepare sy as args r fs s = (Inr (Builtin b special argv), s') \<Longrightarrow> b \<noteq> DOTCMD"
  unfolding no_dot_def by blast

lemma quiet_bltin:
  assumes "quiet_rec rec" and "b \<noteq> DOTCMD"
  shows "quiet (run_bltin sy rec k b argv True st)"
proof (cases b)
  case EVALCMD
  then show ?thesis
    by (simp add: run_bltin_def evalcmd_def quiet_returns quiet_string [OF assms(1)] split: list.split)
qed (use assms(2) in \<open>auto simp: run_bltin_def breakcmd_def returncmd_def Let_def
    intro!: quiet_rules quiet_andthen\<close>)

lemma quiet_prepared:
  assumes "quiet_rec rec" and "\<And>b special argv. p = Builtin b special argv \<Longrightarrow> b \<noteq> DOTCMD"
  shows "quiet (run_prepared sy rec k False True p st)"
proof (cases p)
  case (Bail i special)
  then show ?thesis by (simp add: run_prepared_def quiet_returns quiet_raises)
next
  case (Program argv)
  then show ?thesis by (simp add: run_prepared_def quiet_returns split: prod.split)
next
  case (Builtin b special argv)
  have "quiet (evalbltin sy rec k b argv True st)"
    unfolding evalbltin_def by (rule quiet_andthen [OF quiet_bltin [OF assms(1) assms(2) [OF Builtin]]]) (rule quiet_returns)
  then show ?thesis
    by (cases "evalbltin sy rec k b argv True st" rule: run_cases)
      (auto simp: run_prepared_def Builtin quiet_def returns_def raises_def)
next
  case (Function f argv)
  have "quiet (rec (snd f) False True (upd_core (enter_fun (fst f) argv) st))" by (rule quiet_recD [OF assms(1)])
  then have "quiet (evalfun rec f argv True st)"
    by (cases "rec (snd f) False True (upd_core (enter_fun (fst f) argv) st)" rule: run_cases)
      (auto simp: evalfun_def Let_def quiet_def returns_def raises_def)
  then show ?thesis by (simp add: run_prepared_def Function quiet_andthen quiet_returns)
qed

lemma quiet_command:
  assumes "quiet_rec rec" and "no_dot sy"
  shows "quiet (evalcommand sy rec k l as args r False True st)"
  unfolding evalcommand_def
proof (rule quiet_andthen [OF quiet_on_core [OF quiet_ccall]], goal_cases)
  case (1 p st1)
  have "b \<noteq> DOTCMD" if "p = Builtin b special argv" for b special argv
  proof -
    obtain c1 where "ccall (sy_prepare sy as args r (cfuns (at_line l (ecore st)))) (at_line l (ecore st)) = Some (Inr (p, c1))"
      using 1 by (auto simp: on_core_def split: option.splits sum.splits)
    from ccall_returns [OF this] show ?thesis using no_dotD [OF assms(2)] that by blast
  qed
  then have "quiet (run_prepared sy rec k False True p st1)" by (rule quiet_prepared [OF assms(1)])
  then show ?case by (rule quiet_andthen) (rule quiet_returns)
qed

lemma quiet_subshell: "quiet (evalsubshell sy rec l n r False True st)"
  unfolding evalsubshell_def
proof (rule quiet_andthen [OF quiet_on_core [OF quiet_ccall]], goal_cases)
  case (1 u st1)
  show ?case by (cases "subshell_body sy rec n r True st1" rule: run_cases) (simp_all add: quiet_returns quiet_None)
qed

lemma quiet_redir:
  assumes "quiet_rec rec"
  shows "quiet (evalredir sy rec l n r True st)"
  unfolding evalredir_def
  by (rule quiet_andthen [OF quiet_on_core [OF quiet_ccall]], rule quiet_andthen [OF quiet_on_core [OF quiet_ccall]],
      rule quiet_andthen) (auto intro!: quiet_returns quiet_andthen [OF quiet_recD [OF assms]])

lemma quiet_node:
  assumes "quiet_rec rec" and "no_dot sy"
  shows "quiet (eval_node sy rec k n False True st)"
proof -
  have checked: "quiet m \<Longrightarrow> quiet (checked ce m)" for ce and m :: "(int, ('a, 'b, 'c) est) run"
    unfolding checked_def by (erule quiet_andthen) (rule quiet_returns)
  have loop: "quiet (evalloop rec k until a b True st)" for until a b st
    unfolding evalloop_def by (rule quiet_andthen [OF quiet_while [OF assms(1)]]) (rule quiet_returns)
  have "for": "quiet (evalfor sy rec l args body var True st)" for l args body var st
    unfolding evalfor_def
    by (rule quiet_andthen [OF quiet_on_core [OF quiet_ccall]], rule quiet_andthen [OF quiet_for [OF assms(1)]])
      (rule quiet_returns)
  have cas: "quiet (evalcase sy rec l w cs False True st)" for l w cs st
    unfolding evalcase_def
    by (rule quiet_andthen [OF quiet_on_core [OF quiet_ccall]]) (rule quiet_cases [OF assms(1)])
  note rules = quiet_returns checked loop "for" cas quiet_subshell quiet_redir [OF assms(1)] quiet_command [OF assms]
    quiet_on_core quiet_ccall quiet_recD [OF assms(1)] quiet_andthen [OF quiet_recD [OF assms(1)]]
  show ?thesis
  proof (cases n)
    case (NBACKGND l n r)
    then show ?thesis by (auto simp: evalbackgnd_def intro!: rules quiet_andthen)
  next
    case (NPIPE bg ns)
    then show ?thesis by (auto simp: evalpipe_def intro!: rules)
  qed (auto intro!: rules)
qed


lemma ex_no_dot: "no_dot (ex_sys False tree)"
  by (auto simp: no_dot_def ex_sys_def ex_prepare_def ex_special_def ex_kind_def Let_def
      split: if_splits option.splits)


text \<open>With \<open>-e\<close> the test \<open>. f\<close> ends the shell when a command of the file fails; \<open>eval\<close> does not.\<close>

lemma dot_ignores_test:
  "outcome (evaltree (ex_sys True (ex_cmd [''false''])) 7 (ex_cmd [''.'', ''f'']) False True (ex_state True)) =
     Some (Inl EXEND)"
  "outcome (evaltree (ex_sys True (ex_cmd [''false''])) 7 (ex_cmd [''eval'', ''W'']) False True (ex_state True)) =
     Some (Inr (1, NOSKIP, 0))"
  by (simp_all add: ex_simps)

end
