(* ===== verification/Sh_Cd.thy ===== *)
theory Sh_Cd
  imports Sh_Var Sh_Args
begin

text \<open>
  The current directory (\<open>cd.c\<close>): the name that the shell keeps of it, \<open>cd\<close> and \<open>pwd\<close>, and the walk
  through a list of directories with colons (\<open>padvance_magic\<close> of \<open>exec.c\<close>).

  \<open>curdir\<close> and \<open>physdir\<close> are the empty string where they are \<open>nullstr\<close>. \<open>chdir\<close>, \<open>getcwd\<close> and
  \<open>stat\<close> are parameters.
\<close>

section \<open>Lists of directories\<close>

text \<open>\<open>legal_pathopt\<close> for the value 0 of \<open>magic\<close> accepts nothing, for 1 the two names.\<close>

definition skip_percent :: "string \<Rightarrow> string" where
  "skip_percent opt = (if take 1 opt = ''%'' then drop 1 opt else opt)"

definition legal_pathopt :: "string \<Rightarrow> string \<Rightarrow> int \<Rightarrow> string option" where
  "legal_pathopt opt term magic =
     map_option skip_percent
       (if magic = 0 then None
        else if magic = 1 then
          (case prefix_rest opt ''builtin'' of Some r \<Rightarrow> Some r | None \<Rightarrow> prefix_rest opt ''func'')
        else Some (dropWhile (\<lambda>c. c \<notin> set term) opt))"

text \<open>One step: the candidate, the option, and the rest of the list; no list is the null pointer.\<close>

definition padvance_magic :: "string \<Rightarrow> string \<Rightarrow> int \<Rightarrow> string \<times> string option \<times> string option" where
  "padvance_magic path name magic =
     (let (lpathopt, start, term) =
        (case path of
           c # r \<Rightarrow>
             if c = CHR ''%'' then
               (case legal_pathopt r ''%:'' magic of
                  Some p \<Rightarrow> (Some r, p, '':'')
                | None \<Rightarrow> (None, path, ''%:''))
             else (None, path, ''%:'')
         | [] \<Rightarrow> (None, path, ''%:''));
        len = length (takeWhile (\<lambda>c. c \<notin> set term) start);
        p = drop len start;
        extra = length (takeWhile (\<lambda>c. c \<noteq> CHR '':'') p);
        (lpathopt1, len1, p1) =
          (if take 1 p = ''%'' then
             (case legal_pathopt (drop 1 p) term magic of
                Some _ \<Rightarrow> (Some (drop 1 p), len, drop extra p)
              | None \<Rightarrow> (lpathopt, len + extra, drop extra p))
           else (lpathopt, len, p))
      in ((if len1 \<noteq> 0 then take len1 start @ ''/'' else []) @ name, lpathopt1,
          if take 1 p1 = '':'' then Some (drop 1 p1) else None))"

section \<open>The name of the new directory\<close>

text \<open>\<open>strtok\<close> with the slash: the parts between slashes that are not empty.\<close>

function components :: "string \<Rightarrow> string list" where
  "components s =
     (let s' = dropWhile (\<lambda>c. c = CHR ''/'') s
      in if s' = [] then []
         else takeWhile (\<lambda>c. c \<noteq> CHR ''/'') s' # components (dropWhile (\<lambda>c. c \<noteq> CHR ''/'') s'))"
  by pat_completeness auto
termination
proof (relation "measure length", simp, goal_cases)
  case (1 s s')
  then obtain a l where s': "s' = a # l" by (metis list.exhaust)
  have "dropWhile (\<lambda>c. c = CHR ''/'') s = a # l" using 1(1) s' by simp
  then have "a \<noteq> CHR ''/''" using hd_dropWhile [of "\<lambda>c. c = CHR ''/''" s] by simp
  then have "length (dropWhile (\<lambda>c. c \<noteq> CHR ''/'') s') < length s'"
    using length_dropWhile_le [of "\<lambda>c. c \<noteq> CHR ''/''" l] s' by simp
  then show ?case using length_dropWhile_le [of "\<lambda>c. c = CHR ''/''" s] 1(1) by simp
qed

declare components.simps [simp del]

text \<open>The loop for a \<open>..\<close>: \<open>new\<close> is what has been written, \<open>lim\<close> as an offset.\<close>

function unwind_component :: "nat \<Rightarrow> string \<Rightarrow> string" where
  "unwind_component lim new =
     (if length new \<le> lim then new
      else let new1 = butlast new
           in if new1 \<noteq> [] \<and> last new1 = CHR ''/'' then new1 else unwind_component lim new1)"
  by pat_completeness auto
termination by (relation "measure (\<lambda>(lim, new). length new)") auto

declare unwind_component.simps [simp del]

definition put_component :: "nat \<Rightarrow> string \<Rightarrow> string \<Rightarrow> string" where
  "put_component lim new p =
     (if p = ''..'' then unwind_component lim new
      else if p = ''.'' then new
      else new @ p @ ''/'')"

text \<open>What \<open>new\<close> and \<open>lim\<close> start with.\<close>

definition start_absolute :: "string \<Rightarrow> string \<times> nat" where
  "start_absolute dir =
     (if take 1 (drop 1 dir) = ''/'' \<and> take 1 (drop 2 dir) \<noteq> ''/'' then (''//'', 2) else (''/'', 1))"

definition start_relative :: "string \<Rightarrow> string \<times> nat" where
  "start_relative curdir =
     (let new = (if last curdir \<noteq> CHR ''/'' then curdir @ ''/'' else curdir)
      in (new, if 1 < length new \<and> new ! 1 = CHR ''/'' then 2 else 1))"

definition updatepwd :: "string \<Rightarrow> string \<Rightarrow> string option" where
  "updatepwd curdir dir =
     (if take 1 dir \<noteq> ''/'' \<and> curdir = [] then None
      else case (if take 1 dir = ''/'' then start_absolute dir else start_relative curdir) of
        (new, lim) \<Rightarrow>
          let new1 = foldl (put_component lim) new (components dir)
          in Some (if lim < length new1 then butlast new1 else new1))"

section \<open>The commands\<close>

record 'w dirsys =
  chdir_to :: "string \<Rightarrow> 'w \<Rightarrow> bool \<times> 'w"
  getcwd_name :: "'w \<Rightarrow> string option"
  is_directory :: "string \<Rightarrow> 'w \<Rightarrow> bool"

record 'w cdstate =
  curdir :: string
  physdir :: string
  cdsh :: shell
  cdworld :: 'w
  cdout :: string

text \<open>\<open>getpwd\<close> gives \<open>nullstr\<close> when \<open>getcwd\<close> fails.\<close>

definition getpwd :: "'w dirsys \<Rightarrow> 'w \<Rightarrow> string" where
  "getpwd d w = (case getcwd_name d w of Some s \<Rightarrow> s | None \<Rightarrow> [])"

text \<open>The argument of \<open>setpwd\<close>: a null pointer, the pointer \<open>curdir\<close> itself, or another string.\<close>

datatype pwdval = Unknown | Same | Name string

definition setvar_in :: "string \<Rightarrow> string \<Rightarrow> 'w cdstate \<Rightarrow> shell_error + 'w cdstate" where
  "setvar_in name val st =
     bindE (setvar name (Some val) {VEXPORT} (cdsh st)) (\<lambda>(_, sh). Inr (st\<lparr>cdsh := sh\<rparr>))"

definition setpwd :: "'w dirsys \<Rightarrow> pwdval \<Rightarrow> bool \<Rightarrow> 'w cdstate \<Rightarrow> shell_error + 'w cdstate" where
  "setpwd d val setold st =
     bindE (if setold then setvar_in ''OLDPWD'' (curdir st) st else Inr st) (\<lambda>st1.
       let cwd = getpwd d (cdworld st1);
           st2 = (case val of
                    Unknown \<Rightarrow> st1\<lparr>physdir := cwd, curdir := cwd\<rparr>
                  | Same \<Rightarrow> st1\<lparr>physdir := cwd\<rparr>
                  | Name s \<Rightarrow> st1\<lparr>physdir := [], curdir := s\<rparr>)
       in setvar_in ''PWD'' (curdir st2) st2)"

text \<open>The flags are \<open>CD_PHYSICAL\<close> and \<open>CD_PRINT\<close>; the body of the loop of \<open>cdopt\<close> keeps the last letter.\<close>

definition cdopt :: "string list \<Rightarrow> shell_error + bool \<times> string list" where
  "cdopt args =
     bindE (opt_loop ''LP'' (\<lambda>c arg (physical, j). if c \<noteq> j then (\<not> physical, c) else (physical, j))
              (start_args args) (False, CHR ''L'')) (\<lambda>((physical, j), st). Inr (physical, argptr st))"

text \<open>\<open>docd\<close>; the result tells whether the directory was changed.\<close>

definition docd :: "'w dirsys \<Rightarrow> string \<Rightarrow> bool \<Rightarrow> 'w cdstate \<Rightarrow> shell_error + bool \<times> 'w cdstate" where
  "docd d dest physical st =
     (let dir = (if physical then None else updatepwd (curdir st) dest)
      in case chdir_to d (case dir of Some s \<Rightarrow> s | None \<Rightarrow> dest) (cdworld st) of
           (ok, w) \<Rightarrow>
             let st1 = st\<lparr>cdworld := w\<rparr>
             in if \<not> ok then Inr (False, st1)
                else bindE (setpwd d (case dir of Some s \<Rightarrow> Name s | None \<Rightarrow> Unknown) True st1) (\<lambda>st2. Inr (True, st2)))"

definition print_dir :: "string \<Rightarrow> 'w cdstate \<Rightarrow> 'w cdstate" where
  "print_dir s st = st\<lparr>cdout := cdout st @ s @ [newline_chr]\<rparr>"

definition cd_to :: "'w dirsys \<Rightarrow> string \<Rightarrow> string \<Rightarrow> bool \<Rightarrow> bool \<Rightarrow> 'w cdstate \<Rightarrow> shell_error + 'w cdstate" where
  "cd_to d dest p physical printing st =
     bindE (docd d p physical st) (\<lambda>(ok, st1).
       if ok then Inr (if printing then print_dir (curdir st1) st1 else st1)
       else Inl (Sh_error (''can't cd to '' @ dest)))"

text \<open>The search through \<open>CDPATH\<close>; each step takes a part off the list.\<close>

definition cd_direct :: "string \<Rightarrow> bool" where
  "cd_direct dest =
     (take 1 dest = ''/'' \<or> dest = ''.'' \<or> take 2 dest = ''./'' \<or> dest = ''..'' \<or> take 3 dest = ''../'')"

lemma padvance_shorter:
  assumes "padvance_magic path name 0 = (p, o', Some rest)"
  shows "length rest < length path"
proof -
  have legal: "legal_pathopt r t 0 = None" for r t by (simp add: legal_pathopt_def)
  have *: "take 1 (drop n path) = '':'' \<Longrightarrow> length (drop 1 (drop n path)) < length path" for n
    by (cases "drop n path") (auto dest: arg_cong [where f = length])
  show ?thesis using assms *
    by (auto simp: padvance_magic_def Let_def legal split: if_splits list.splits simp flip: drop_drop)
qed

function cd_search ::
    "'w dirsys \<Rightarrow> string option \<Rightarrow> string \<Rightarrow> bool \<Rightarrow> bool \<Rightarrow> 'w cdstate \<Rightarrow> shell_error + 'w cdstate" where
  "cd_search d path dest physical printing st =
     (case path of
        None \<Rightarrow> cd_to d dest dest physical printing st
      | Some s \<Rightarrow>
        (case padvance_magic s dest 0 of (p, lpathopt, rest) \<Rightarrow>
           if is_directory d p (cdworld st) then
             cd_to d dest p physical (printing \<or> (s \<noteq> [] \<and> take 1 s \<noteq> '':'')) st
           else cd_search d rest dest physical printing st))"
  by pat_completeness auto
termination
  by (relation "measure (\<lambda>(d, path, r). case path of None \<Rightarrow> 0 | Some s \<Rightarrow> Suc (length s))")
    (auto dest!: sym [THEN padvance_shorter] split: option.split)

declare cd_search.simps [simp del]

definition cdcmd :: "'w dirsys \<Rightarrow> string list \<Rightarrow> 'w cdstate \<Rightarrow> shell_error + 'w cdstate" where
  "cdcmd d args st =
     bindE (cdopt args) (\<lambda>(physical, rest).
       let (dest0, printing, sh) =
             (case rest of
                [] \<Rightarrow> (case lookupvar ''HOME'' (cdsh st) of (v, sh) \<Rightarrow> (v, False, sh))
              | a # _ \<Rightarrow>
                if a = ''-'' then (case lookupvar ''OLDPWD'' (cdsh st) of (v, sh) \<Rightarrow> (v, True, sh))
                else (Some a, False, cdsh st));
           dest = (case dest0 of Some s \<Rightarrow> s | None \<Rightarrow> []);
           st1 = st\<lparr>cdsh := sh\<rparr>
       in if cd_direct dest then cd_to d dest dest physical printing st1
          else let dest1 = (if dest = [] then ''.'' else dest)
               in case lookupvar ''CDPATH'' sh of (path, sh2) \<Rightarrow>
                    cd_search d path dest1 physical printing (st1\<lparr>cdsh := sh2\<rparr>))"

definition pwdcmd :: "'w dirsys \<Rightarrow> string list \<Rightarrow> 'w cdstate \<Rightarrow> shell_error + 'w cdstate" where
  "pwdcmd d args st =
     bindE (cdopt args) (\<lambda>(physical, rest).
       if physical then
         bindE (if physdir st = [] then setpwd d Same False st else Inr st) (\<lambda>st1. Inr (print_dir (physdir st1) st1))
       else Inr (print_dir (curdir st) st))"

end
