(* ===== verification/Sh_Cd_Laws.thy ===== *)
theory Sh_Cd_Laws
  imports Sh_Cd
begin

text \<open>
  \<open>updatepwd\<close> against a reference on lists of components, and the order in which a list of directories
  is searched.
\<close>

section \<open>Components\<close>

text \<open>
  A directory is a root, one slash or two, with components that are neither empty nor dots. The shell
  writes it with a slash between components.
\<close>

definition component_ok :: "string \<Rightarrow> bool" where
  "component_ok p = (p \<noteq> [] \<and> CHR ''/'' \<notin> set p \<and> p \<noteq> ''.'' \<and> p \<noteq> ''..'')"

fun join_path :: "string list \<Rightarrow> string" where
  "join_path [] = []"
| "join_path [p] = p"
| "join_path (p # q # ps) = p @ ''/'' @ join_path (q # ps)"

definition show_dir :: "nat \<Rightarrow> string list \<Rightarrow> string" where
  "show_dir lim ps = replicate lim (CHR ''/'') @ join_path ps"

text \<open>What a component of the argument of \<open>cd\<close> does to the components of the directory.\<close>

definition step_dir :: "string list \<Rightarrow> string \<Rightarrow> string list" where
  "step_dir ps p = (if p = ''..'' then butlast ps else if p = ''.'' then ps else ps @ [p])"

text \<open>The text with a slash after every component, which the loop works on.\<close>

definition slashed :: "nat \<Rightarrow> string list \<Rightarrow> string" where
  "slashed lim ps = replicate lim (CHR ''/'') @ concat (map (\<lambda>p. p @ ''/'') ps)"

lemma slashed_snoc: "slashed lim (ps @ [p]) = slashed lim ps @ p @ ''/''"
  by (simp add: slashed_def)

lemma slashed_length: "lim \<le> length (slashed lim ps)"
  by (simp add: slashed_def)

lemma slashed_Nil [simp]: "length (slashed lim []) = lim"
  by (simp add: slashed_def)

lemma slashed_last: "0 < lim \<Longrightarrow> slashed lim ps \<noteq> [] \<and> last (slashed lim ps) = CHR ''/''"
  by (cases ps rule: rev_cases) (auto simp: slashed_def)

lemma show_slashed: "ps \<noteq> [] \<Longrightarrow> show_dir lim ps @ ''/'' = slashed lim ps"
proof -
  have "ps \<noteq> [] \<Longrightarrow> join_path ps @ ''/'' = concat (map (\<lambda>p. p @ ''/'') ps)"
    by (induction ps rule: join_path.induct) simp_all
  then show "ps \<noteq> [] \<Longrightarrow> show_dir lim ps @ ''/'' = slashed lim ps" by (simp add: show_dir_def slashed_def)
qed

lemma components_ok: "p \<in> set (components s) \<Longrightarrow> p \<noteq> [] \<and> CHR ''/'' \<notin> set p"
proof (induction s rule: components.induct)
  case (1 s)
  let ?s = "dropWhile (\<lambda>c. c = CHR ''/'') s"
  show ?case
  proof (cases "?s = []")
    case True
    then have "components s = []" by (simp add: components.simps [of s])
    then show ?thesis using 1(2) by simp
  next
    case False
    have hd: "hd ?s \<noteq> CHR ''/''" using hd_dropWhile [OF False] .
    have t: "takeWhile (\<lambda>c. c \<noteq> CHR ''/'') ?s \<noteq> []"
      using False hd by (cases ?s) auto
    have "p \<in> set (takeWhile (\<lambda>c. c \<noteq> CHR ''/'') ?s # components (dropWhile (\<lambda>c. c \<noteq> CHR ''/'') ?s))"
      using 1(2) by (simp only: components.simps [of s] Let_def if_not_P [OF False])
    then show ?thesis using t 1(1) [OF refl False] by (auto dest: set_takeWhileD)
  qed
qed

section \<open>The loop\<close>

lemma unwind_within:
  assumes "CHR ''/'' \<notin> set p" and "last w = CHR ''/''" and "w \<noteq> []" and "lim \<le> length w"
  shows "unwind_component lim (w @ p @ [c]) = w"
proof -
  have "unwind_component lim (w @ q @ [c]) = w" if "CHR ''/'' \<notin> set q" for q c
    using that
  proof (induction q arbitrary: c rule: rev_induct)
    case Nil
    then show ?case using assms(2-4) by (subst unwind_component.simps) (simp add: Let_def butlast_append)
  next
    case (snoc x q)
    have "unwind_component lim (w @ (q @ [x]) @ [c]) = unwind_component lim (w @ q @ [x])"
      using snoc.prems assms(4) by (subst unwind_component.simps) (auto simp: Let_def butlast_append)
    then show ?case using snoc by simp
  qed
  then show ?thesis using assms(1) .
qed

lemma put_component_slashed:
  assumes "0 < lim" and "\<forall>p \<in> set ps. component_ok p" and "p \<noteq> []" and "CHR ''/'' \<notin> set p"
  shows "put_component lim (slashed lim ps) p = slashed lim (step_dir ps p)"
proof (cases "p = ''..''")
  case True
  show ?thesis
  proof (cases ps rule: rev_cases)
    case Nil
    have "unwind_component lim (slashed lim []) = slashed lim []"
      by (subst unwind_component.simps) simp
    then show ?thesis using True Nil by (simp add: put_component_def step_dir_def)
  next
    case (snoc qs q)
    then have "unwind_component lim (slashed lim qs @ q @ ''/'') = slashed lim qs"
      using assms(1,2) slashed_last [OF assms(1), of qs] slashed_length [of lim qs]
      by (intro unwind_within) (auto simp: component_ok_def)
    then show ?thesis using True snoc by (simp add: put_component_def step_dir_def slashed_snoc)
  qed
next
  case False
  then show ?thesis by (simp add: put_component_def step_dir_def slashed_snoc)
qed

lemma step_dir_ok:
  "\<forall>p \<in> set ps. component_ok p \<Longrightarrow> p \<noteq> [] \<Longrightarrow> CHR ''/'' \<notin> set p \<Longrightarrow> \<forall>q \<in> set (step_dir ps p). component_ok q"
  by (auto simp: step_dir_def component_ok_def dest: in_set_butlastD)

definition names_ok :: "string list \<Rightarrow> bool" where
  "names_ok qs = (\<forall>q \<in> set qs. q \<noteq> [] \<and> CHR ''/'' \<notin> set q)"

definition dir_ok :: "string list \<Rightarrow> bool" where
  "dir_ok ps = (\<forall>p \<in> set ps. component_ok p)"

lemma dir_ok_fold: "dir_ok ps \<Longrightarrow> names_ok qs \<Longrightarrow> dir_ok (foldl step_dir ps qs)"
proof (induction qs arbitrary: ps)
  case (Cons q qs)
  have "dir_ok (step_dir ps q)"
    using Cons.prems step_dir_ok [of ps q] by (simp add: dir_ok_def names_ok_def)
  then show ?case using Cons.IH Cons.prems(2) by (simp add: names_ok_def)
qed simp

lemma fold_slashed:
  assumes "0 < lim"
  shows "dir_ok ps \<Longrightarrow> names_ok qs \<Longrightarrow>
    foldl (put_component lim) (slashed lim ps) qs = slashed lim (foldl step_dir ps qs)"
proof (induction qs arbitrary: ps)
  case (Cons q qs)
  have q: "q \<noteq> []" "CHR ''/'' \<notin> set q" using Cons.prems(2) by (simp_all add: names_ok_def)
  have ok: "\<forall>p \<in> set ps. component_ok p" using Cons.prems(1) by (simp add: dir_ok_def)
  have "dir_ok (step_dir ps q)" using step_dir_ok [OF ok q] by (simp add: dir_ok_def)
  then show ?case
    using Cons.IH Cons.prems(2) put_component_slashed [OF assms ok q] by (simp add: names_ok_def)
qed simp

lemma strip_slashed:
  "(if lim < length (slashed lim ps) then butlast (slashed lim ps) else slashed lim ps) = show_dir lim ps"
proof (cases ps)
  case Nil
  then show ?thesis by (simp add: show_dir_def slashed_def)
next
  case (Cons p qs)
  have "lim < length (slashed lim ps)" by (simp add: slashed_def Cons)
  moreover have "butlast (slashed lim ps) = show_dir lim ps"
    using show_slashed [of ps lim] Cons by (metis butlast_snoc list.distinct(1))
  ultimately show ?thesis by simp
qed

section \<open>The new directory\<close>

definition root_of :: "string \<Rightarrow> nat" where
  "root_of dir = (if take 2 dir = ''//'' \<and> take 3 dir \<noteq> ''///'' then 2 else 1)"

lemma start_absolute_slashed: "take 1 dir = ''/'' \<Longrightarrow> start_absolute dir = (slashed (root_of dir) [], root_of dir)"
proof -
  assume "take 1 dir = ''/''"
  then obtain r where d: "dir = CHR ''/'' # r" by (cases dir) auto
  show ?thesis
  proof (cases r)
    case Nil
    then show ?thesis by (simp add: d start_absolute_def slashed_def root_of_def)
  next
    case (Cons x t)
    then show ?thesis by (cases t) (auto simp: d start_absolute_def slashed_def root_of_def numeral_2_eq_2 numeral_3_eq_3)
  qed
qed

lemma slashed_second:
  assumes "r = 1 \<or> r = 2" and "dir_ok ps"
  shows "(if 1 < length (slashed r ps) \<and> slashed r ps ! 1 = CHR ''/'' then 2 else 1) = r"
proof (cases ps)
  case Nil
  then show ?thesis using assms(1) by (auto simp: slashed_def numeral_2_eq_2)
next
  case (Cons p qs)
  then obtain c t where p: "p = c # t" and c: "c \<noteq> CHR ''/''"
    using assms(2) by (cases p) (auto simp: dir_ok_def component_ok_def)
  show ?thesis using assms(1) c by (auto simp: slashed_def Cons p numeral_2_eq_2)
qed

lemma start_relative_slashed:
  assumes "r = 1 \<or> r = 2" and "dir_ok ps"
  shows "start_relative (show_dir r ps) = (slashed r ps, r)"
proof -
  have "(if last (show_dir r ps) \<noteq> CHR ''/'' then show_dir r ps @ ''/'' else show_dir r ps) = slashed r ps"
  proof (cases ps rule: rev_cases)
    case Nil
    then show ?thesis using assms(1) by (auto simp: show_dir_def slashed_def numeral_2_eq_2)
  next
    case (snoc qs q)
    then have q: "q \<noteq> []" "CHR ''/'' \<notin> set q" using assms(2) by (auto simp: dir_ok_def component_ok_def)
    have "show_dir r ps @ ''/'' = slashed r qs @ q @ ''/''"
      using show_slashed [of ps r] snoc by (simp add: slashed_snoc)
    then have "show_dir r ps = slashed r qs @ q" by (metis append_assoc append_same_eq)
    then have "last (show_dir r ps) = last q" using q by simp
    then have "last (show_dir r ps) \<noteq> CHR ''/''" using q by (metis last_in_set)
    then show ?thesis using show_slashed [of ps r] snoc by simp
  qed
  then show ?thesis using slashed_second [OF assms] by (simp add: start_relative_def Let_def)
qed

text \<open>
  C36: The name of the directory that \<open>cd\<close> goes to, computed in place in a buffer, is the one of the
  components: of the current directory, or of none for an absolute name, with every component of the
  argument added and \<open>..\<close> taking one away, but never the root. The result is again such a name.
\<close>
theorem updatepwd_components:
  assumes "r = 1 \<or> r = 2" and "dir_ok ps"
  shows "let r' = (if take 1 dir = ''/'' then root_of dir else r);
             ps' = foldl step_dir (if take 1 dir = ''/'' then [] else ps) (components dir)
         in updatepwd (show_dir r ps) dir = Some (show_dir r' ps') \<and> dir_ok ps' \<and> (r' = 1 \<or> r' = 2)"
proof -
  let ?abs = "take 1 dir = ''/''"
  let ?r = "if ?abs then root_of dir else r" and ?ps = "if ?abs then [] else ps"
  have names: "names_ok (components dir)" using components_ok by (simp add: names_ok_def)
  have ok: "dir_ok ?ps" using assms(2) by (simp add: dir_ok_def)
  have r: "?r = 1 \<or> ?r = 2" using assms(1) by (simp add: root_of_def)
  have start: "(if ?abs then start_absolute dir else start_relative (show_dir r ps)) = (slashed ?r ?ps, ?r)"
    using start_absolute_slashed start_relative_slashed [OF assms] by simp
  have nonempty: "show_dir r ps \<noteq> []" using assms(1) by (auto simp: show_dir_def)
  have fold: "foldl (put_component ?r) (slashed ?r ?ps) (components dir) = slashed ?r (foldl step_dir ?ps (components dir))"
    by (rule fold_slashed) (use r ok names in auto)
  have "updatepwd (show_dir r ps) dir = Some (show_dir ?r (foldl step_dir ?ps (components dir)))"
    unfolding updatepwd_def start prod.case fold Let_def strip_slashed using nonempty by simp
  then show ?thesis using dir_ok_fold [OF ok names] r by (simp only: Let_def simp_thms)
qed

lemma updatepwd_example: "foldl step_dir [''usr'', ''lib''] (components ''..//./bin/../..'') = []"
  by code_simp

theorem updatepwd_components_witness:
  "updatepwd ''/usr/lib'' ''..//./bin/../..'' = Some ''/'' \<and> dir_ok ([] :: string list) \<and> (1 = (1::nat) \<or> 1 = (2::nat))"
proof -
  have "dir_ok [''usr'', ''lib'']" by (simp add: dir_ok_def component_ok_def)
  then show ?thesis
    using updatepwd_components [of 1 "[''usr'', ''lib'']" "''..//./bin/../..''"]
    by (simp add: updatepwd_example show_dir_def Let_def)
qed

end
