(* ===== verification/Sh_Options.thy ===== *)
theory Sh_Options
  imports Sh_Var Sh_Args
begin

text \<open>
  The options and the parameters of the shell (\<open>options.c\<close>): \<open>set\<close>, \<open>shift\<close>, \<open>getopts\<close>. The record
  \<open>shell\<close> of \<open>Sh_Var\<close> has \<open>optlist\<close> and the fields of \<open>shellparam\<close>; whether its strings were
  allocated (\<open>malloc\<close>) does not matter here. \<open>optschanged\<close> only acts on signals and job control.
\<close>

section \<open>Options of the shell\<close>

definition optnames :: "string list" where
  "optnames =
     [''errexit'', ''noglob'', ''ignoreeof'', ''interactive'', ''monitor'', ''noexec'', ''stdin'', ''xtrace'',
      ''verbose'', ''vi'', ''emacs'', ''noclobber'', ''allexport'', ''notify'', ''nounset'', ''nolog'',
      ''pipefail'', ''debug'']"

text \<open>The last three options have no letter.\<close>

definition optletters :: "char list" where
  "optletters = ''efIimnsxvVECabu'' @ replicate 3 (CHR 0x00)"

definition on_off :: "int \<Rightarrow> string" where
  "on_off v = (if v \<noteq> 0 then ''on'' else ''off'')"

text \<open>\<open>%-16s\<close>\<close>

definition pad16 :: "string \<Rightarrow> string" where
  "pad16 s = s @ replicate (16 - length s) (CHR '' '')"

text \<open>\<open>minus_o\<close>: the state and what is printed; no name is the null pointer.\<close>

definition minus_o :: "string option \<Rightarrow> bool \<Rightarrow> shell \<Rightarrow> shell_error + string \<times> shell" where
  "minus_o name val sh =
     (case name of
        None \<Rightarrow>
          Inr (if val then ''Current option settings'' @ [newline_chr] @
                 concat (map (\<lambda>i. pad16 (optnames ! i) @ on_off (optlist sh ! i) @ [newline_chr]) [0..<NOPTS])
               else concat (map (\<lambda>i. ''set '' @ (if optlist sh ! i \<noteq> 0 then ''-o'' else ''+o'') @ '' '' @
                      optnames ! i @ [newline_chr]) [0..<NOPTS]), sh)
      | Some s \<Rightarrow>
          (case find (\<lambda>i. s = optnames ! i) [0..<NOPTS] of
             Some i \<Rightarrow> Inr ([], sh\<lparr>optlist := (optlist sh)[i := of_bool val]\<rparr>)
           | None \<Rightarrow> Inl (Sh_error (''Illegal option -o '' @ s))))"

text \<open>\<open>V\<close> and \<open>E\<close> exclude each other.\<close>

definition setoption :: "char \<Rightarrow> bool \<Rightarrow> shell \<Rightarrow> shell_error + shell" where
  "setoption flag val sh =
     (case find (\<lambda>i. optletters ! i = flag) [0..<NOPTS] of
        Some i \<Rightarrow>
          let opts = (optlist sh)[i := of_bool val]
          in Inr (sh\<lparr>optlist :=
               (if val \<and> flag = CHR ''V'' then opts[10 := 0]
                else if val \<and> flag = CHR ''E'' then opts[9 := 0] else opts)\<rparr>)
      | None \<Rightarrow> Inl (Sh_error (''Illegal option -'' @ [flag])))"

section \<open>Parameters\<close>

definition setparam :: "string list \<Rightarrow> shell \<Rightarrow> shell" where
  "setparam argv sh = sh\<lparr>shparam := argv, optind := 1, optoff := - 1\<rparr>"

text \<open>
  \<open>options\<close> works on the arguments \<open>argptr\<close>; the rest of its state is what was printed, \<open>minusc\<close>, \<open>login\<close>
  and the shell. Only the command line of the shell (\<open>cmdline\<close>) has \<open>-c\<close> and \<open>-l\<close>.
\<close>

record optrun =
  or_args :: "string list"
  or_out :: string
  or_minusc :: "string option"
  or_login :: bool
  or_shell :: shell

text \<open>The letters of a word.\<close>

fun option_letters :: "bool \<Rightarrow> string \<Rightarrow> bool \<Rightarrow> optrun \<Rightarrow> shell_error + optrun" where
  "option_letters cmdline [] val st = Inr st"
| "option_letters cmdline (c # p) val st =
     (if c = CHR ''c'' \<and> cmdline then option_letters cmdline p val (st\<lparr>or_minusc := Some p\<rparr>)
      else if c = CHR ''l'' \<and> cmdline then option_letters cmdline p val (st\<lparr>or_login := True\<rparr>)
      else if c = CHR ''o'' then
        bindE (minus_o (case or_args st of [] \<Rightarrow> None | a # _ \<Rightarrow> Some a) val (or_shell st)) (\<lambda>(s, sh).
          option_letters cmdline p val (st\<lparr>or_args := drop 1 (or_args st), or_out := or_out st @ s, or_shell := sh\<rparr>))
      else bindE (setoption c val (or_shell st)) (\<lambda>sh. option_letters cmdline p val (st\<lparr>or_shell := sh\<rparr>)))"

lemma option_letters_length:
  "option_letters cmdline p val st = Inr st' \<Longrightarrow> length (or_args st') \<le> length (or_args st)"
  by (induction cmdline p val st rule: option_letters.induct) (fastforce simp: monad_simps split: if_splits)+

function options_loop :: "bool \<Rightarrow> optrun \<Rightarrow> shell_error + optrun" where
  "options_loop cmdline st =
     (case or_args st of
        [] \<Rightarrow> Inr st
      | p # rest \<Rightarrow>
        if p = ''-'' then
          Inr (st\<lparr>or_args := rest,
            or_shell := (if cmdline then or_shell st else (or_shell st)\<lparr>optlist := (optlist (or_shell st))[7 := 0, 8 := 0]\<rparr>)\<rparr>)
        else if p = ''--'' then
          Inr (st\<lparr>or_args := rest,
            or_shell := (if \<not> cmdline \<and> rest = [] then setparam [] (or_shell st) else or_shell st)\<rparr>)
        else if take 1 p = ''-'' \<or> take 1 p = ''+'' then
          bindE (option_letters cmdline (drop 1 p) (take 1 p = ''-'') (st\<lparr>or_args := rest\<rparr>)) (options_loop cmdline)
        else Inr st)"
  by pat_completeness auto
termination
  by (relation "measure (\<lambda>(cmdline, st). length (or_args st))") (auto dest: option_letters_length)

declare options_loop.simps [simp del]

definition options :: "bool \<Rightarrow> string list \<Rightarrow> shell \<Rightarrow> shell_error + optrun" where
  "options cmdline av sh =
     options_loop cmdline \<lparr>or_args = av, or_out = [], or_minusc = None, or_login = False, or_shell = sh\<rparr>"

definition setcmd :: "string list \<Rightarrow> shell \<Rightarrow> shell_error + string \<times> shell" where
  "setcmd args sh =
     (if args = [] then Inr (showvars [] {} {VUNSET} sh, sh)
      else bindE (options False args sh) (\<lambda>r.
        Inr (or_out r, if or_args r \<noteq> [] then setparam (or_args r) (or_shell r) else or_shell r)))"

text \<open>
  The command line of the shell. \<open>tty\<close> says that input and output are terminals; the file to read from
  is a result, as \<open>setinputfile\<close> opens it.
\<close>

record invocation =
  inv_login :: bool
  inv_arg0 :: "string option"
  inv_minusc :: "string option"
  inv_file :: "string option"
  inv_shell :: shell

text \<open>Options that the command line left at 2.\<close>

definition default_options :: "bool \<Rightarrow> bool \<Rightarrow> int list \<Rightarrow> int list" where
  "default_options tty no_args opts =
     (let o1 = (if no_args then opts[6 := 1] else opts);
          o2 = (if o1 ! 3 = 2 \<and> o1 ! 6 = 1 \<and> tty then o1[3 := 1] else o1);
          o3 = (if o2 ! 4 = 2 then o2[4 := o2 ! 3] else o2)
      in map (\<lambda>v. if v = 2 then 0 else v) o3)"

definition procargs :: "bool \<Rightarrow> string list \<Rightarrow> shell \<Rightarrow> shell_error + invocation" where
  "procargs tty argv sh =
     bindE (options True (drop 1 argv) (sh\<lparr>optlist := replicate NOPTS 2\<rparr>)) (\<lambda>r.
       let av = or_args r; name0 = (case argv of [] \<Rightarrow> None | a # _ \<Rightarrow> Some a);
           opts = default_options tty (av = []) (optlist (or_shell r));
           sflag = (opts ! 6 \<noteq> 0);
           start = (\<lambda>a0 cmd f params.
             Inr \<lparr>inv_login = (or_login r \<or> (\<exists>a \<in> set (take 1 argv). take 1 a = ''-'')), inv_arg0 = a0, inv_minusc = cmd, inv_file = f,
               inv_shell = (or_shell r)\<lparr>optlist := opts, shparam := params, optind := 1, optoff := - 1\<rparr>\<rparr>)
       in case av of
            [] \<Rightarrow> if or_minusc r \<noteq> None then Inl (Sh_error ''-c requires an argument'') else start name0 None None []
          | a # rest \<Rightarrow>
            if or_minusc r \<noteq> None then
              (case rest of [] \<Rightarrow> start name0 (Some a) None [] | n # params \<Rightarrow> start (Some n) (Some a) None params)
            else if \<not> sflag then start (Some a) None (Some a) rest
            else start name0 None None av)"

definition shiftcmd :: "string list \<Rightarrow> shell \<Rightarrow> shell_error + shell" where
  "shiftcmd args sh =
     bindE (case args of [] \<Rightarrow> Inr 1 | a # _ \<Rightarrow> number a) (\<lambda>n.
       if n > int (length (shparam sh)) then Inl (Sh_error ''can't shift that many'')
       else Inr (sh\<lparr>shparam := drop (nat n) (shparam sh), optind := 1, optoff := - 1\<rparr>))"

section \<open>getopts\<close>

text \<open>
  What a call finds: the character for the variable, the value of \<open>OPTARG\<close> (none to unset it, or to
  leave it alone), the message, and \<open>optnext\<close> and \<open>p\<close> as the new \<open>optind\<close> and \<open>optoff\<close>.
\<close>

datatype optarg = Keep | Unset_arg | Arg string

record getopt =
  go_done :: bool
  go_char :: char
  go_arg :: optarg
  go_msg :: string
  go_ind :: int
  go_off :: int

text \<open>
  The word \<open>w\<close>, of which the first \<open>k\<close> characters are read and the next is \<open>c\<close>, is behind the place
  \<open>optnext\<close>, an index of \<open>args\<close>.
\<close>

definition getopts_char :: "string \<Rightarrow> string list \<Rightarrow> nat \<Rightarrow> string \<Rightarrow> nat \<Rightarrow> getopt" where
  "getopts_char optstr args optnext w k =
     (let c = w ! k; p = drop (Suc k) w; colon = (take 1 optstr = '':'');
          result = (\<lambda>ch arg msg nxt off.
            \<lparr>go_done = False, go_char = ch, go_arg = arg, go_msg = msg, go_ind = int nxt + 1, go_off = off\<rparr>)
      in case find_opt (if colon then drop 1 optstr else optstr) c of
           None \<Rightarrow>
             if colon then result (CHR ''?'') (Arg [c]) [] optnext (int (Suc k))
             else result (CHR ''?'') Unset_arg (''Illegal option -'' @ [c, newline_chr]) optnext (int (Suc k))
         | Some q \<Rightarrow>
             if take 1 q = '':'' then
               (if p \<noteq> [] then result c (Arg p) [] optnext (- 1)
                else if optnext < length args then result c (Arg (args ! optnext)) [] (Suc optnext) (- 1)
                else if colon then result (CHR '':'') (Arg [c]) [] optnext (- 1)
                else result (CHR ''?'') Unset_arg (''No arg for -'' @ [c] @ '' option'' @ [newline_chr]) optnext (- 1))
             else result c (Arg []) [] optnext (int (Suc k)))"

text \<open>From the new word on. \<open>ind\<close> is at least 1 and \<open>optnext\<close> inside the arguments or at their end.\<close>

definition getopts_word :: "string \<Rightarrow> string list \<Rightarrow> nat \<Rightarrow> getopt" where
  "getopts_word optstr args optnext =
     (let end = (\<lambda>nxt. \<lparr>go_done = True, go_char = CHR ''?'', go_arg = Keep, go_msg = [], go_ind = int nxt + 1, go_off = - 1\<rparr>)
      in if length args \<le> optnext then end optnext
         else let w = args ! optnext
              in if take 1 w \<noteq> ''-'' \<or> length w < 2 then end optnext
                 else if w = ''--'' then end (Suc optnext)
                 else getopts_char optstr args (Suc optnext) w 1)"

definition getopts_scan :: "string \<Rightarrow> string list \<Rightarrow> int \<Rightarrow> int \<Rightarrow> getopt" where
  "getopts_scan optstr args ind off =
     (let optnext = nat (ind - 1)
      in if ind \<le> 1 \<or> off < 0 \<or> int (length (args ! (optnext - 1))) \<le> off then getopts_word optstr args optnext
         else getopts_char optstr args optnext (args ! (optnext - 1)) (nat off))"

definition set_optarg :: "optarg \<Rightarrow> shell \<Rightarrow> shell_error + shell" where
  "set_optarg a sh =
     (case a of
        Keep \<Rightarrow> Inr sh
      | Unset_arg \<Rightarrow> unsetvar ''OPTARG'' sh
      | Arg s \<Rightarrow> bindE (setvar ''OPTARG'' (Some s) {} sh) (\<lambda>(_, sh1). Inr sh1))"

definition getopts :: "string \<Rightarrow> string \<Rightarrow> string list \<Rightarrow> shell \<Rightarrow> shell_error + int \<times> string \<times> shell" where
  "getopts optstr optvar args sh =
     (let g = getopts_scan optstr args (optind sh) (optoff sh)
      in bindE (set_optarg (go_arg g) (sh\<lparr>optind := - 1\<rparr>)) (\<lambda>sh1.
         bindE (setvarint ''OPTIND'' (go_ind g) {VNOFUNC} sh1) (\<lambda>(_, sh2).
         bindE (setvar optvar (Some [go_char g]) {} sh2) (\<lambda>(_, sh3).
           Inr (of_bool (go_done g), go_msg g, sh3\<lparr>optoff := go_off g, optind := go_ind g\<rparr>)))))"

text \<open>An index that does not fit the arguments starts over; a negative one is a large unsigned one.\<close>

definition getoptscmd :: "string list \<Rightarrow> shell \<Rightarrow> shell_error + int \<times> string \<times> shell" where
  "getoptscmd args sh =
     bindE (nextopt [] (start_args args)) (\<lambda>(r, st).
       case Sh_Args.argptr st of
         optstr # optvar # rest \<Rightarrow>
           let optbase = (if rest = [] then shparam sh else rest);
               sh1 = (if optind sh < 0 \<or> optind sh > int (length optbase) + 1 then sh\<lparr>optind := 1, optoff := - 1\<rparr> else sh)
           in getopts optstr optvar optbase sh1
       | _ \<Rightarrow> Inl (Sh_error ''Usage: getopts optstring var [arg...]''))"

end
