(* ===== verification/Sh_Options_Laws.thy ===== *)
theory Sh_Options_Laws
  imports Sh_Options
begin

text \<open>
  What \<open>getopts\<close> finds, call after call, against a parse of the arguments by recursion; and the lines
  that \<open>set +o\<close> prints, which bring the options back.
\<close>

section \<open>getopts against a parse of the arguments\<close>

text \<open>
  The parse: \<open>p\<close> holds the letters of the present word that are still to come, \<open>rest\<close> the words
  behind it. The result is the letters with their arguments, and the operands.
\<close>

function parse_opts :: "string \<Rightarrow> string \<Rightarrow> string list \<Rightarrow> (char \<times> optarg) list \<times> string list" where
  "parse_opts optstr (c # p) rest =
     (let colon = (take 1 optstr = '':'') in
      case find_opt (if colon then drop 1 optstr else optstr) c of
        None \<Rightarrow> apfst (Cons (CHR ''?'', if colon then Arg [c] else Unset_arg)) (parse_opts optstr p rest)
      | Some q \<Rightarrow>
        if take 1 q \<noteq> '':'' then apfst (Cons (c, Arg [])) (parse_opts optstr p rest)
        else if p \<noteq> [] then apfst (Cons (c, Arg p)) (parse_opts optstr [] rest)
        else (case rest of
                a # rest' \<Rightarrow> apfst (Cons (c, Arg a)) (parse_opts optstr [] rest')
              | [] \<Rightarrow> ([if colon then (CHR '':'', Arg [c]) else (CHR ''?'', Unset_arg)], [])))"
| "parse_opts optstr [] [] = ([], [])"
| "parse_opts optstr [] (w # ws) =
     (if take 1 w \<noteq> ''-'' \<or> length w < 2 then ([], w # ws)
      else if w = ''--'' then ([], ws)
      else parse_opts optstr (drop 1 w) ws)"
  by pat_completeness auto
termination
  by (relation "measure (\<lambda>(optstr, p, rest). length p + sum_list (map length rest))") auto

declare parse_opts.simps [simp del]

text \<open>
  The calls of a \<open>while getopts\<close> loop from \<open>OPTIND\<close> \<open>ind\<close>: what each finds, and the last \<open>OPTIND\<close>.
\<close>

fun getopts_calls :: "nat \<Rightarrow> string \<Rightarrow> string list \<Rightarrow> int \<Rightarrow> int \<Rightarrow> ((char \<times> optarg) list \<times> int) option" where
  "getopts_calls 0 optstr args ind off = None"
| "getopts_calls (Suc n) optstr args ind off =
     (let g = getopts_scan optstr args ind off
      in if go_done g then Some ([], go_ind g)
         else map_option (apfst (Cons (go_char g, go_arg g))) (getopts_calls n optstr args (go_ind g) (go_off g)))"

definition first_operand :: "string list \<Rightarrow> (char \<times> optarg) list \<times> string list \<Rightarrow> (char \<times> optarg) list \<times> int" where
  "first_operand args r = (fst r, int (length args) - int (length (snd r)) + 1)"

lemma first_operand_Cons:
  "map_option (apfst (Cons e)) (Some (first_operand args r)) = Some (first_operand args (apfst (Cons e) r))"
  by (simp add: first_operand_def)

text \<open>A position: \<open>nxt\<close> words are gone, and of the last of them the letters \<open>p\<close> are still to come.\<close>

definition at_letters :: "string list \<Rightarrow> nat \<Rightarrow> int \<Rightarrow> string \<Rightarrow> bool" where
  "at_letters args nxt off p \<longleftrightarrow>
     nxt \<le> length args \<and> (if p = [] then off < 0 \<or> nxt = 0 \<or> int (length (args ! (nxt - 1))) \<le> off
       else 0 < nxt \<and> 0 \<le> off \<and> p = drop (nat off) (args ! (nxt - 1)))"

lemma scan_at_word:
  "at_letters args nxt off [] \<Longrightarrow> getopts_scan optstr args (int nxt + 1) off = getopts_word optstr args nxt"
  by (auto simp: at_letters_def getopts_scan_def)

lemma scan_at_letter:
  assumes "at_letters args nxt off (c # p)"
  shows "getopts_scan optstr args (int nxt + 1) off = getopts_char optstr args nxt (args ! (nxt - 1)) (nat off)"
    and "args ! (nxt - 1) ! nat off = c" "drop (Suc (nat off)) (args ! (nxt - 1)) = p"
    and "0 \<le> off" "0 < nxt" "nxt \<le> length args"
proof -
  have d: "c # p = drop (nat off) (args ! (nxt - 1))" and pos: "0 < nxt" "0 \<le> off" "nxt \<le> length args"
    using assms by (auto simp: at_letters_def)
  then have "nat off < length (args ! (nxt - 1))"
    by (metis drop_eq_Nil leI list.distinct(1))
  then show "getopts_scan optstr args (int nxt + 1) off = getopts_char optstr args nxt (args ! (nxt - 1)) (nat off)"
      "args ! (nxt - 1) ! nat off = c" "drop (Suc (nat off)) (args ! (nxt - 1)) = p"
    using d pos by (auto simp: getopts_scan_def nat_diff_distrib simp flip: Cons_nth_drop_Suc)
  show "0 \<le> off" "0 < nxt" "nxt \<le> length args" by (rule pos)+
qed

lemma at_letters_next:
  assumes "nxt \<le> length args" "0 < nxt" "0 \<le> off" "drop (Suc (nat off)) (args ! (nxt - 1)) = p"
  shows "at_letters args nxt (int (Suc (nat off))) p"
  using assms by (auto simp: at_letters_def nat_add_distrib)

lemma at_letters_word: "nxt \<le> length args \<Longrightarrow> at_letters args nxt (- 1) []"
  by (simp add: at_letters_def)

text \<open>One letter: the call finds what the parse finds next, and is left at the letters that follow.\<close>

lemma letter_step:
  assumes "at_letters args nxt off (c # p)" and g: "g = getopts_scan optstr args (int nxt + 1) off"
  obtains nxt' p' where "\<not> go_done g" "go_ind g = int nxt' + 1" "at_letters args nxt' (go_off g) p'"
    "length p' + sum_list (map length (drop nxt' args)) < length (c # p) + sum_list (map length (drop nxt args))"
    "parse_opts optstr (c # p) (drop nxt args) = apfst (Cons (go_char g, go_arg g)) (parse_opts optstr p' (drop nxt' args))"
proof -
  note at = scan_at_letter [OF assms(1)]
  note stay = at_letters_next [OF at(6) at(5) at(4) at(3)]
  define q where "q = find_opt (if take 1 optstr = '':'' then drop 1 optstr else optstr) c"
  note g' = trans [OF g at(1), unfolded getopts_char_def Let_def at(2,3), folded q_def]
  note parse = parse_opts.simps(1) [of optstr c p, unfolded Let_def, folded q_def]
  consider (bad) "q = None" | (plain) q' where "q = Some q'" "take 1 q' \<noteq> '':''"
    | (here) q' where "q = Some q'" "take 1 q' = '':''" "p \<noteq> []"
    | (missing) q' where "q = Some q'" "take 1 q' = '':''" "p = []" "nxt = length args"
    | (word) q' where "q = Some q'" "take 1 q' = '':''" "p = []" "nxt < length args"
    using at(6) by (cases q) (auto simp: le_eq_less_or_eq)
  then show thesis
  proof cases
    case bad
    then show thesis
      using stay by (intro that [of nxt p]) (simp_all add: g' parse)
  next
    case plain
    then show thesis
      using stay by (intro that [of nxt p]) (simp_all add: g' parse)
  next
    case here
    then show thesis
      by (intro that [of nxt "[]"]) (simp_all add: g' parse at(6) at_letters_word)
  next
    case missing
    then show thesis
      by (intro that [of nxt "[]"])
        (simp_all add: g' parse [unfolded missing(3)] at_letters_word parse_opts.simps(2))
  next
    case word
    then have rest: "drop nxt args = args ! nxt # drop (Suc nxt) args"
      by (simp add: Cons_nth_drop_Suc)
    show thesis
      using word by (intro that [of "Suc nxt" "[]"]) (simp_all add: g' parse [unfolded word(3)] rest at_letters_word)
  qed
qed

text \<open>No letter is left: the call ends, or goes on with the letters of a new word.\<close>

lemma word_step:
  assumes "at_letters args nxt off []"
  shows "(let g = getopts_scan optstr args (int nxt + 1) off
          in go_done g \<and> ([], go_ind g) = first_operand args (parse_opts optstr [] (drop nxt args))) \<or>
    (\<exists>c p. getopts_scan optstr args (int nxt + 1) off = getopts_scan optstr args (int (Suc nxt) + 1) 1 \<and>
      at_letters args (Suc nxt) 1 (c # p) \<and>
      length (c # p) + sum_list (map length (drop (Suc nxt) args)) < sum_list (map length (drop nxt args)) \<and>
      parse_opts optstr [] (drop nxt args) = parse_opts optstr (c # p) (drop (Suc nxt) args))"
proof (cases "nxt < length args")
  case False
  then have "nxt = length args"
    using assms by (simp add: at_letters_def)
  then show ?thesis
    using assms by (simp add: scan_at_word getopts_word_def first_operand_def parse_opts.simps)
next
  case True
  define w where "w = args ! nxt"
  have rest: "drop nxt args = w # drop (Suc nxt) args"
    using True by (simp add: w_def Cons_nth_drop_Suc)
  show ?thesis
  proof (cases "take 1 w \<noteq> ''-'' \<or> length w < 2 \<or> w = ''--''")
    case end_word: True
    then show ?thesis
      using assms True unfolding rest
      by (auto simp: scan_at_word getopts_word_def first_operand_def parse_opts.simps(3) Let_def simp flip: w_def)
  next
    case False
    then obtain c p where w: "w = CHR ''-'' # c # p"
      by (cases w; cases "tl w") auto
    have at: "at_letters args (Suc nxt) 1 (c # p)"
      using True w by (simp add: at_letters_def w_def)
    have "getopts_scan optstr args (int nxt + 1) off = getopts_scan optstr args (int (Suc nxt) + 1) 1"
      using False True unfolding scan_at_word [OF assms] scan_at_letter(1) [OF at]
      by (simp add: getopts_word_def w_def Let_def)
    moreover have "parse_opts optstr [] (drop nxt args) = parse_opts optstr (c # p) (drop (Suc nxt) args)"
      using False unfolding rest by (auto simp: parse_opts.simps(3) w)
    ultimately show ?thesis
      using at by (intro disjI2 exI [of _ c] exI [of _ p] conjI) (simp_all add: rest w)
  qed
qed

lemma getopts_calls_parse:
  assumes "at_letters args nxt off p" "length p + sum_list (map length (drop nxt args)) < n"
  shows "getopts_calls n optstr args (int nxt + 1) off =
    Some (first_operand args (parse_opts optstr p (drop nxt args)))"
  using assms
proof (induction n arbitrary: nxt off p)
  case (Suc n)
  have letter: "getopts_calls (Suc n) optstr args (int nxt + 1) off =
      Some (first_operand args (parse_opts optstr (c # p) (drop nxt args)))"
    if at: "at_letters args nxt off (c # p)"
      and len: "length (c # p) + sum_list (map length (drop nxt args)) < Suc n" for nxt off c p
  proof -
    obtain nxt' p' where step: "\<not> go_done (getopts_scan optstr args (int nxt + 1) off)"
        "go_ind (getopts_scan optstr args (int nxt + 1) off) = int nxt' + 1"
        "at_letters args nxt' (go_off (getopts_scan optstr args (int nxt + 1) off)) p'"
      and less: "length p' + sum_list (map length (drop nxt' args)) <
        length (c # p) + sum_list (map length (drop nxt args))"
      and eq: "parse_opts optstr (c # p) (drop nxt args) =
        apfst (Cons (go_char (getopts_scan optstr args (int nxt + 1) off),
                     go_arg (getopts_scan optstr args (int nxt + 1) off))) (parse_opts optstr p' (drop nxt' args))"
      using letter_step [OF at refl] by metis
    have "length p' + sum_list (map length (drop nxt' args)) < n"
      using less len by linarith
    from Suc.IH [OF step(3) this] show ?thesis
      unfolding getopts_calls.simps Let_def step(2) by (simp only: step(1) if_False eq first_operand_Cons)
  qed
  show ?case
  proof (cases p)
    case (Cons c p')
    then show ?thesis
      using letter Suc.prems by blast
  next
    case Nil
    from word_step [OF Suc.prems(1) [unfolded Nil], of optstr] show ?thesis
    proof (elim disjE exE conjE)
      fix c p'
      assume "at_letters args (Suc nxt) 1 (c # p')"
        and "length (c # p') + sum_list (map length (drop (Suc nxt) args)) < sum_list (map length (drop nxt args))"
        and same: "getopts_scan optstr args (int nxt + 1) off = getopts_scan optstr args (int (Suc nxt) + 1) 1"
        and eq: "parse_opts optstr [] (drop nxt args) = parse_opts optstr (c # p') (drop (Suc nxt) args)"
      then show ?thesis
        using letter [of "Suc nxt" 1 c p'] Suc.prems(2) unfolding Nil eq by (simp add: same)
    qed (simp add: Nil Let_def)
  qed
qed simp

text \<open>The command does what the scan says: its status, \<open>optind\<close> and \<open>optoff\<close> are those of the scan.\<close>

lemma getopts_follows_scan:
  assumes "getopts optstr optvar args sh = Inr (r, msg, sh')"
  shows "r = of_bool (go_done (getopts_scan optstr args (optind sh) (optoff sh)))"
    and "optind sh' = go_ind (getopts_scan optstr args (optind sh) (optoff sh))"
    and "optoff sh' = go_off (getopts_scan optstr args (optind sh) (optoff sh))"
  using assms by (auto simp: getopts_def Let_def monad_simps)

text \<open>
  C37: A \<open>while getopts\<close> loop ends, and finds exactly the options that a parse of the arguments by
  recursion finds, clustered letters, arguments in the same or the next word, missing arguments and
  unknown letters included; \<open>OPTIND\<close> is left at the first operand.
\<close>

theorem getopts_parses_arguments:
  "getopts_calls (Suc (sum_list (map length args))) optstr args 1 (- 1) =
     Some (fst (parse_opts optstr [] args),
       int (length args) - int (length (snd (parse_opts optstr [] args))) + 1)"
  using getopts_calls_parse [of args 0 "- 1" "[]" "Suc (sum_list (map length args))" optstr]
  by (simp add: at_letters_def first_operand_def)

section \<open>The options come back\<close>

lemma find_index: "distinct xs \<Longrightarrow> i < length xs \<Longrightarrow> find (\<lambda>j. xs ! i = xs ! j) [0..<length xs] = Some i"
  by (auto simp: find_Some_iff nth_eq_iff_index_eq intro!: exI [of _ i])

lemma minus_o_named:
  assumes "i < NOPTS"
  shows "minus_o (Some (optnames ! i)) val sh = Inr ([], sh\<lparr>optlist := (optlist sh)[i := of_bool val]\<rparr>)"
proof -
  have "distinct optnames" "length optnames = NOPTS"
    by (simp_all add: optnames_def NOPTS_def)
  then have "find (\<lambda>j. optnames ! i = optnames ! j) [0..<NOPTS] = Some i"
    using find_index [of optnames i] assms by simp
  then show ?thesis
    by (simp add: minus_o_def)
qed

lemma setcmd_named:
  assumes "i < NOPTS"
  shows "setcmd [if val then ''-o'' else ''+o'', optnames ! i] sh =
    Inr ([], sh\<lparr>optlist := (optlist sh)[i := of_bool val]\<rparr>)"
  using minus_o_named [OF assms, of val sh]
  by (cases val) (simp_all add: setcmd_def options_def options_loop.simps monad_simps)

text \<open>The words of the lines that \<open>set +o\<close> prints.\<close>

definition set_lines :: "shell \<Rightarrow> string list list" where
  "set_lines sh = map (\<lambda>i. [''set'', if optlist sh ! i \<noteq> 0 then ''-o'' else ''+o'', optnames ! i]) [0..<NOPTS]"

fun join_words :: "string list \<Rightarrow> string" where
  "join_words [] = []"
| "join_words [w] = w"
| "join_words (w # ws) = w @ '' '' @ join_words ws"

definition run_set :: "string list \<Rightarrow> shell \<Rightarrow> shell_error + shell" where
  "run_set ws sh = bindE (setcmd (drop 1 ws) sh) (\<lambda>(_, sh1). Inr sh1)"

lemma run_set_line:
  "i < NOPTS \<Longrightarrow> run_set (set_lines sh ! i) sh' = Inr (sh'\<lparr>optlist := (optlist sh')[i := of_bool (optlist sh ! i \<noteq> 0)]\<rparr>)"
  using setcmd_named [of i "optlist sh ! i \<noteq> 0" sh'] by (simp add: run_set_def set_lines_def monad_simps)

lemma run_set_lines:
  assumes "n \<le> NOPTS" "length (optlist sh') = NOPTS" "length (optlist sh) = NOPTS"
  shows "foldE run_set (take n (set_lines sh)) sh' =
    Inr (sh'\<lparr>optlist := map (\<lambda>v. of_bool (v \<noteq> 0)) (take n (optlist sh)) @ drop n (optlist sh')\<rparr>)"
  using assms(1)
proof (induction n)
  case (Suc n)
  then have n: "n < NOPTS" "n < length (set_lines sh)" and split: "drop n (optlist sh') = optlist sh' ! n # drop (Suc n) (optlist sh')"
    using assms(2) by (simp_all add: set_lines_def Cons_nth_drop_Suc)
  show ?case
    using Suc n assms(3)
    by (simp add: take_Suc_conv_app_nth foldE_append monad_simps run_set_line list_update_append split)
qed simp



section \<open>The options are switches\<close>

text \<open>The command line starts with every option at 2, which is neither on nor off.\<close>

definition optlist_in :: "int set \<Rightarrow> shell \<Rightarrow> bool" where
  "optlist_in V sh \<longleftrightarrow> length (optlist sh) = NOPTS \<and> set (optlist sh) \<subseteq> V"

lemma optlist_in_update:
  "optlist_in V sh \<Longrightarrow> v \<in> V \<Longrightarrow> optlist_in V (sh\<lparr>optlist := (optlist sh)[i := v]\<rparr>)"
  by (auto simp: optlist_in_def dest: set_update_subset_insert [THEN subsetD])

lemma minus_o_optlist:
  "minus_o name val sh = Inr (s, sh') \<Longrightarrow> optlist_in V sh \<Longrightarrow> {0, 1} \<subseteq> V \<Longrightarrow> optlist_in V sh'"
  by (cases val) (auto simp: minus_o_def optlist_in_update split: option.splits)

lemma setoption_optlist:
  assumes "setoption c val sh = Inr sh'" "optlist_in V sh" "{0, 1} \<subseteq> V"
  shows "optlist_in V sh'"
proof -
  have "optlist_in V (sh\<lparr>optlist := (optlist sh)[i := of_bool val, j := 0]\<rparr>)" for i j
    using optlist_in_update [OF optlist_in_update [OF assms(2)]] assms(3) by simp
  moreover have "optlist_in V (sh\<lparr>optlist := (optlist sh)[i := of_bool val]\<rparr>)" for i
    using optlist_in_update [OF assms(2)] assms(3) by simp
  ultimately show ?thesis
    using assms(1) by (auto simp: setoption_def Let_def split: option.splits if_splits)
qed

lemma option_letters_optlist:
  assumes "{0, 1} \<subseteq> V"
  shows "option_letters cmdline p val st = Inr st' \<Longrightarrow> optlist_in V (or_shell st) \<Longrightarrow> optlist_in V (or_shell st')"
  by (induction cmdline p val st rule: option_letters.induct)
    (fastforce simp: monad_simps split: if_splits
      dest: minus_o_optlist [OF _ _ assms] setoption_optlist [OF _ _ assms])+

lemma options_loop_optlist:
  assumes "{0, 1} \<subseteq> V"
  shows "options_loop cmdline st = Inr st' \<Longrightarrow> optlist_in V (or_shell st) \<Longrightarrow> optlist_in V (or_shell st')"
proof (induction cmdline st rule: options_loop.induct)
  case (1 cmdline st)
  have two: "optlist_in V (sh\<lparr>optlist := (optlist sh)[7 := 0, 8 := 0]\<rparr>)" if "optlist_in V sh" for sh
    using optlist_in_update [OF optlist_in_update [OF that]] assms by simp
  have "optlist_in V (setparam [] (or_shell st))"
    using "1.prems"(2) by (simp add: setparam_def optlist_in_def)
  then show ?case
    using "1.prems" two "1.IH" option_letters_optlist [OF assms]
    by (subst (asm) options_loop.simps) (fastforce simp: monad_simps split: list.splits if_splits)
qed

lemma options_optlist:
  "options cmdline av sh = Inr st \<Longrightarrow> {0, 1} \<subseteq> V \<Longrightarrow> optlist_in V sh \<Longrightarrow> optlist_in V (or_shell st)"
  using options_loop_optlist [of V cmdline _ st] by (simp add: options_def)

lemma default_options_settle:
  assumes "length opts = NOPTS" "set opts \<subseteq> {0, 1, 2}"
  shows "length (default_options tty no_args opts) = NOPTS \<and> set (default_options tty no_args opts) \<subseteq> {0, 1}"
proof -
  have upd: "set (os[i := v]) \<subseteq> {0, 1, 2}" if "set os \<subseteq> {0, 1, 2}" "v \<in> {0, 1, 2}" for os and i :: nat and v :: int
    using that set_update_subset_insert [of os i v] by blast
  have settle: "set (map (\<lambda>v. if v = 2 then 0 else v) os) \<subseteq> {0, 1 :: int}" if "set os \<subseteq> {0, 1, 2}" for os
    using that by auto
  have mem: "os ! 3 \<in> {0, 1, 2}" if "set os \<subseteq> {0, 1, 2}" "length os = NOPTS" for os :: "int list"
    using subsetD [OF that(1) nth_mem [of 3 os]] that(2) by (simp add: NOPTS_def)
  define o1 where "o1 = (if no_args then opts[6 := 1] else opts)"
  define o2 where "o2 = (if o1 ! 3 = 2 \<and> o1 ! 6 = 1 \<and> tty then o1[3 := 1] else o1)"
  define o3 where "o3 = (if o2 ! 4 = 2 then o2[4 := o2 ! 3] else o2)"
  have o1: "set o1 \<subseteq> {0, 1, 2}" "length o1 = NOPTS"
    using assms upd by (simp_all add: o1_def)
  have o2: "set o2 \<subseteq> {0, 1, 2}" "length o2 = NOPTS"
    using o1 upd by (simp_all add: o2_def)
  have "set o3 \<subseteq> {0, 1, 2}" "length o3 = NOPTS"
    using o2 upd [OF o2(1) mem [OF o2]] by (simp_all add: o3_def)
  then have "length (map (\<lambda>v. if v = 2 then 0 else v) o3) = NOPTS \<and> set (map (\<lambda>v. if v = 2 then 0 else v) o3) \<subseteq> {0, 1}"
    using settle [of o3] by simp
  then show ?thesis
    unfolding default_options_def Let_def o1_def [symmetric] o2_def [symmetric] o3_def [symmetric] .
qed

lemma procargs_optlist:
  assumes "procargs tty argv sh = Inr i"
  shows "optlist_in {0, 1} (inv_shell i)"
proof -
  obtain r where r: "options True (drop 1 argv) (sh\<lparr>optlist := replicate NOPTS 2\<rparr>) = Inr r"
    and opts: "optlist (inv_shell i) = default_options tty (or_args r = []) (optlist (or_shell r))"
  proof -
    obtain r where r: "options True (drop 1 argv) (sh\<lparr>optlist := replicate NOPTS 2\<rparr>) = Inr r"
      using assms by (cases "options True (drop 1 argv) (sh\<lparr>optlist := replicate NOPTS 2\<rparr>)")
        (simp_all add: procargs_def)
    moreover from assms r have "optlist (inv_shell i) = default_options tty (or_args r = []) (optlist (or_shell r))"
      by (cases "or_args r"; cases "tl (or_args r)") (auto simp: procargs_def Let_def split: if_splits)
    ultimately show thesis by (rule that)
  qed
  have "optlist_in {0, 1, 2} (or_shell r)"
    by (rule options_optlist [OF r]) (auto simp: optlist_in_def)
  then show ?thesis
    using default_options_settle opts by (simp add: optlist_in_def)
qed

lemma setcmd_optlist:
  assumes "setcmd args sh = Inr (out, sh')" "optlist_in {0, 1} sh"
  shows "optlist_in {0, 1} sh'"
proof (cases "args = []")
  case True
  then show ?thesis using assms by (simp add: setcmd_def)
next
  case False
  then obtain r where r: "options False args sh = Inr r"
    and "optlist sh' = optlist (or_shell r)"
    using assms(1) by (auto simp: setcmd_def monad_simps setparam_def)
  then show ?thesis
    using options_optlist [OF r subset_refl assms(2)] by (simp add: optlist_in_def)
qed

lemma shiftcmd_optlist: "shiftcmd args sh = Inr sh' \<Longrightarrow> optlist_in {0, 1} sh \<Longrightarrow> optlist_in {0, 1} sh'"
  by (auto simp: shiftcmd_def monad_simps optlist_in_def split: if_splits)



text \<open>\<open>sh -c command name args\<close>: the command, its name and its parameters, options before and after \<open>-c\<close> or not.\<close>

lemma procargs_command:
  "procargs tty (a # ''-c'' # cmd # n # args) sh = Inr i \<Longrightarrow> take 1 cmd \<noteq> ''-'' \<Longrightarrow> take 1 cmd \<noteq> ''+'' \<Longrightarrow>
   inv_minusc i = Some cmd \<and> inv_arg0 i = Some n \<and> shparam (inv_shell i) = args \<and> inv_file i = None"
  by (auto simp: procargs_def options_def options_loop.simps monad_simps Let_def split: if_splits)

end
