(* ===== verification/Sh_Word.thy ===== *)
theory Sh_Word
  imports Sh_Expand Sh_Arith Sh_Options
begin

text \<open>
  Word expansion (\<open>expand.c\<close>): tildes, parameters with their modifiers, command substitution,
  arithmetic, field splitting and file names, over the text that the parser leaves, with its control
  characters. The string that is built on the stack is \<open>xbuf\<close>; positions are offsets into it.

  The text is a C string: a pointer into it is the list of the characters that follow, and \<open>None\<close> is
  the address behind its null character, where an expansion that is not closed ends. \<open>argstr\<close>,
  \<open>evalvar\<close> and \<open>subevalvar\<close> call each other: the last two get \<open>argstr\<close> as an argument, the loop of
  \<open>argstr\<close> has fuel.

  The commands of command substitution, user names, the file system and \<open>fnmatch\<close> are the parameter
  \<open>expsys\<close>; \<open>'c\<close> is the type of commands, \<open>'w\<close> what they work on.
\<close>

section \<open>State\<close>

datatype expflag =
    EXP_FULL | EXP_TILDE | EXP_VARTILDE | EXP_REDIR | EXP_CASE | EXP_VARTILDE2
  | EXP_WORD | EXP_QUOTED | EXP_KEEPNUL | EXP_DISCARD

definition quotes_esc :: "expflag set \<Rightarrow> bool" where
  "quotes_esc fl = (EXP_FULL \<in> fl \<or> EXP_CASE \<in> fl)"

text \<open>\<open>xbackq\<close> is \<open>argbackq\<close>, \<open>xregs\<close> the list that starts at \<open>ifsfirst\<close>.\<close>

record ('c, 'w) expst =
  xbuf :: string
  xregs :: "ifsregion list"
  xbackq :: "'c list"
  xsh :: shell
  xworld :: 'w

record ('c, 'w) expsys =
  sys_rootpid :: int
  sys_status :: "'w \<Rightarrow> int"
  sys_bgpid :: "'w \<Rightarrow> int"
  sys_arg0 :: "string option"
  sys_backcmd :: "'c \<Rightarrow> shell \<Rightarrow> 'w \<Rightarrow> string \<times> 'w"
  sys_pwhome :: "string \<Rightarrow> string option"
  sys_pmatch :: "string \<Rightarrow> string \<Rightarrow> bool"
  sys_opendir :: "string \<Rightarrow> string list option"
  sys_lstat :: "string \<Rightarrow> bool"
  sys_alloc :: "string \<Rightarrow> intmax"
  sys_ylval :: yystype
  sys_token :: nat

definition fflag :: "shell \<Rightarrow> bool" where "fflag sh = (optlist sh ! 1 \<noteq> 0)"
definition uflag :: "shell \<Rightarrow> bool" where "uflag sh = (optlist sh ! 14 \<noteq> 0)"

definition xappend :: "string \<Rightarrow> ('c, 'w) expst \<Rightarrow> ('c, 'w) expst" where
  "xappend s st = st\<lparr>xbuf := xbuf st @ s\<rparr>"

abbreviation xpos :: "('c, 'w) expst \<Rightarrow> nat" where
  "xpos st \<equiv> length (xbuf st)"

definition xrecord :: "nat \<Rightarrow> nat \<Rightarrow> bool \<Rightarrow> ('c, 'w) expst \<Rightarrow> ('c, 'w) expst" where
  "xrecord b e n st = st\<lparr>xregs := recordregion b e n (xregs st)\<rparr>"

definition dest_text :: "expflag set \<Rightarrow> string \<Rightarrow> string" where
  "dest_text fl s = memtodest (EXP_QUOTED \<in> fl) (quotes_esc fl) (EXP_KEEPNUL \<in> fl) s"

definition strtodest :: "string \<Rightarrow> expflag set \<Rightarrow> ('c, 'w) expst \<Rightarrow> ('c, 'w) expst" where
  "strtodest s fl st = xappend (dest_text fl s) st"

definition cvtnum :: "int \<Rightarrow> expflag set \<Rightarrow> ('c, 'w) expst \<Rightarrow> nat \<times> ('c, 'w) expst" where
  "cvtnum num fl st =
     (let s = dest_text fl (print_int num) in (length s, xappend s st))"

text \<open>The C string at an offset of the buffer.\<close>

definition text_at :: "nat \<Rightarrow> ('c, 'w) expst \<Rightarrow> string" where
  "text_at loc st = buf_text (xbuf st) loc"

definition c_text :: "string \<Rightarrow> string" where
  "c_text s = takeWhile (\<lambda>c. c \<noteq> NUL) s"

section \<open>Values of parameters\<close>

definition VSNORMAL :: nat where "VSNORMAL = 1"
definition VSMINUS :: nat where "VSMINUS = 2"
definition VSPLUS :: nat where "VSPLUS = 3"
definition VSQUESTION :: nat where "VSQUESTION = 4"
definition VSASSIGN :: nat where "VSASSIGN = 5"
definition VSTRIMRIGHT :: nat where "VSTRIMRIGHT = 6"
definition VSTRIMLEFTMAX :: nat where "VSTRIMLEFTMAX = 9"
definition VSLENGTH :: nat where "VSLENGTH = 10"

text \<open>\<open>VSTYPE\<close> and \<open>VSNUL\<close> of the character behind \<open>CTLVAR\<close>.\<close>

definition vs_type :: "char \<Rightarrow> nat" where "vs_type c = byte_of c mod 16"
definition vs_nul :: "char \<Rightarrow> bool" where "vs_nul c = odd (byte_of c div 16)"

text \<open>
  What stands between the parameters of \<open>@\<close> and \<open>*\<close>: the null character where they are split, nothing
  if \<open>IFS\<close> is empty.
\<close>

definition param_sep :: "bool \<Rightarrow> bool \<Rightarrow> bool \<Rightarrow> shell \<Rightarrow> char option" where
  "param_sep at quoted full sh =
     (let ifsset = (VUNSET \<notin> vflags (varmem sh 0)); ifsval = drop 4 (vartext_at sh 0)
      in if at \<and> quoted \<and> full then Some NUL
         else if full \<and> \<not> quoted then Some (if ifsset then NUL else CHR '' '')
         else if ifsset then (case ifsval of [] \<Rightarrow> None | c # _ \<Rightarrow> Some c) else Some (CHR '' ''))"

fun put_params :: "expflag set \<Rightarrow> char option \<Rightarrow> string list \<Rightarrow> ('c, 'w) expst \<Rightarrow> int \<times> ('c, 'w) expst" where
  "put_params fl sep [] st = (0, st)"
| "put_params fl sep (p # ps) st =
     (let st1 = strtodest p fl st
      in case (if ps = [] then None else sep) of
           None \<Rightarrow> apfst ((+) (int (length p))) (put_params fl sep ps st1)
         | Some c \<Rightarrow> apfst ((+) (int (length p) + 1)) (put_params fl sep ps (strtodest [c] fl st1)))"

definition option_string :: "shell \<Rightarrow> string" where
  "option_string sh =
     map ((!) optletters) (filter (\<lambda>i. optlist sh ! i \<noteq> 0 \<and> optletters ! i \<noteq> NUL) (rev [0..<NOPTS]))"

definition atoi_name :: "string \<Rightarrow> nat" where
  "atoi_name s = foldl (\<lambda>n c. 10 * n + (byte_of c - 48)) 0 (takeWhile (\<lambda>c. 48 \<le> byte_of c \<and> byte_of c \<le> 57) s)"

definition put_value :: "string option \<Rightarrow> expflag set \<Rightarrow> ('c, 'w) expst \<Rightarrow> int \<times> ('c, 'w) expst" where
  "put_value v fl st = (case v of None \<Rightarrow> (- 1, st) | Some s \<Rightarrow> (int (length s), strtodest s fl st))"

text \<open>The \<open>switch\<close>: the length, or -1 if the parameter is not set, and the value on the stack.\<close>

definition put_special :: "('c, 'w) expsys \<Rightarrow> string \<Rightarrow> expflag set \<Rightarrow> bool \<Rightarrow> ('c, 'w) expst \<Rightarrow> int \<times> ('c, 'w) expst" where
  "put_special sys var fl quoted st =
     (let sh = xsh st; c = (case var of [] \<Rightarrow> NUL | x # _ \<Rightarrow> x); num = (\<lambda>n. apfst int (cvtnum n fl st))
      in if c = CHR ''$'' then num (sys_rootpid sys)
         else if c = CHR ''?'' then num (sys_status sys (xworld st))
         else if c = CHR ''#'' then num (int (length (shparam sh)))
         else if c = CHR ''!'' then (if sys_bgpid sys (xworld st) = 0 then (- 1, st) else num (sys_bgpid sys (xworld st)))
         else if c = CHR ''-'' then (int (length (option_string sh)), xappend (option_string sh) st)
         else if c = CHR ''@'' \<or> c = CHR ''*'' then
           put_params fl (param_sep (c = CHR ''@'') quoted (EXP_FULL \<in> fl) sh) (shparam sh) st
         else if 48 \<le> byte_of c \<and> byte_of c \<le> 57 then
           let n = atoi_name var
           in if n > length (shparam sh) then (- 1, st)
              else put_value (if n = 0 then sys_arg0 sys else Some (shparam sh ! (n - 1))) fl st
         else (case lookupvar var sh of (v, sh1) \<Rightarrow> put_value v fl (st\<lparr>xsh := sh1\<rparr>)))"

definition varvalue ::
    "('c, 'w) expsys \<Rightarrow> string \<Rightarrow> nat \<Rightarrow> expflag set \<Rightarrow> bool \<Rightarrow> ('c, 'w) expst \<Rightarrow> shell_error + int \<times> ('c, 'w) expst" where
  "varvalue sys var subtype flags quoted st =
     (let discard = (subtype = VSPLUS \<or> subtype = VSLENGTH \<or> EXP_DISCARD \<in> flags);
          fl = insert EXP_KEEPNUL (if discard then flags - {EXP_FULL, EXP_CASE} else flags)
      in if subtype = 0 then (if discard then Inr (- 1, st) else Inl (Sh_error ''Bad substitution''))
         else case put_special sys var fl quoted st of (len, st1) \<Rightarrow>
           Inr (len, if discard \<and> 0 \<le> len then st1\<lparr>xbuf := take (xpos st1 - nat len) (xbuf st1)\<rparr> else st1))"

section \<open>Tildes and command substitution\<close>

definition exptilde :: "('c, 'w) expsys \<Rightarrow> string \<Rightarrow> expflag set \<Rightarrow> ('c, 'w) expst \<Rightarrow> string \<times> ('c, 'w) expst" where
  "exptilde sys startp fl st =
     (let stops = {CTLESC, CTLQUOTEMARK, CHR ''/'', CTLENDVAR} \<union> (if EXP_VARTILDE \<in> fl then {CHR '':''} else {});
          name = takeWhile (\<lambda>c. c \<notin> stops) (drop 1 startp);
          p = drop (1 + length name) startp
      in if take 1 p = [CTLESC] \<or> take 1 p = [CTLQUOTEMARK] then (startp, st)
         else if EXP_DISCARD \<in> fl then (p, st)
         else case (if name = [] then apsnd (\<lambda>sh. st\<lparr>xsh := sh\<rparr>) (lookupvar ''HOME'' (xsh st)) else (sys_pwhome sys name, st)) of
                (None, st1) \<Rightarrow> (startp, st1)
              | (Some home, st1) \<Rightarrow> (p, strtodest home (insert EXP_QUOTED fl) st1))"

text \<open>Newlines at the end of the output go away, but not what was there before \<open>startloc\<close>.\<close>

definition drop_newlines :: "nat \<Rightarrow> string \<Rightarrow> string" where
  "drop_newlines startloc b = take startloc b @ rev (dropWhile (\<lambda>c. c = newline_chr) (rev (drop startloc b)))"

definition expbackq :: "('c, 'w) expsys \<Rightarrow> expflag set \<Rightarrow> ('c, 'w) expst \<Rightarrow> shell_error + ('c, 'w) expst" where
  "expbackq sys fl st =
     (case xbackq st of
        [] \<Rightarrow> Inl Sh_undefined
      | cmd # rest \<Rightarrow>
        if EXP_DISCARD \<in> fl then Inr (st\<lparr>xbackq := rest\<rparr>)
        else case sys_backcmd sys cmd (xsh st) (xworld st) of (out, w) \<Rightarrow>
          let st1 = strtodest out fl (st\<lparr>xworld := w\<rparr>);
              st2 = st1\<lparr>xbuf := drop_newlines (xpos st) (xbuf st1), xbackq := rest\<rparr>
          in Inr (if EXP_QUOTED \<in> fl then st2 else xrecord (xpos st) (xpos st2) False st2))"

section \<open>Parameters with modifiers\<close>

text \<open>
  \<open>A\<close> is \<open>argstr\<close>. The message of \<open>varunset\<close>: \<open>umsg\<close> is the word of \<open>${x?word}\<close>, and \<open>empty_word\<close> says
  that there is none.
\<close>

definition varunset :: "bool \<Rightarrow> string \<Rightarrow> string option \<Rightarrow> bool \<Rightarrow> shell_error" where
  "varunset empty_word var umsg vsnul =
     Sh_error (var_name var @ '': '' @
       (case umsg of
          None \<Rightarrow> ''parameter not set''
        | Some m \<Rightarrow> if empty_word then ''parameter not set'' @ (if vsnul then '' or null'' else []) else m))"

definition xcut :: "nat \<Rightarrow> string \<Rightarrow> ('c, 'w) expst \<Rightarrow> ('c, 'w) expst" where
  "xcut startloc s st =
     st\<lparr>xbuf := take startloc (xbuf st) @ s, xregs := removerecordregions startloc (xregs st)\<rparr>"

text \<open>
  The value lies between \<open>startloc\<close> and \<open>strloc - 1\<close>, the pattern behind it. A value of several parameters
  may have null characters in it: \<open>_rmescapes\<close> and \<open>scanleft\<close> see what is before the first of them.
\<close>

definition trim_value :: "('c, 'w) expsys \<Rightarrow> bool \<Rightarrow> nat \<Rightarrow> string \<Rightarrow> string \<Rightarrow> shell_error + string" where
  "trim_value sys quotes subtype val pat =
     bindE (rmescapes True pat) (\<lambda>str.
     bindE (rmescapes False (c_text val)) (\<lambda>plain.
       let copied = (quotes \<and> (\<exists>c \<in> set (c_text val). is_cqchar c));
           k = subtype - VSTRIMRIGHT; zero = (2 \<le> k); left = (odd k \<noteq> zero);
           match = (\<lambda>s. sys_pmatch sys str (c_text s));
           loc = (if left then scanleft match quotes zero val (if copied then plain else c_text val)
                  else scanright match quotes zero val (if copied then plain else val))
       in Inr (case loc of None \<Rightarrow> val | Some i \<Rightarrow> if zero then drop i val else take i val)))"

type_synonym ('c, 'w) word_fun =
  "string \<Rightarrow> expflag set \<Rightarrow> ('c, 'w) expst \<Rightarrow> shell_error + string option \<times> ('c, 'w) expst"

definition subevalvar ::
    "('c, 'w) expsys \<Rightarrow> ('c, 'w) word_fun \<Rightarrow> string \<Rightarrow> string option \<Rightarrow> nat \<Rightarrow> nat \<Rightarrow> nat \<Rightarrow> bool \<Rightarrow> expflag set \<Rightarrow>
     ('c, 'w) expst \<Rightarrow> shell_error + string option \<times> ('c, 'w) expst" where
  "subevalvar sys A start str strloc startloc subtype vsnul fl st =
     bindE (A start (({EXP_DISCARD} \<inter> fl) \<union> {EXP_TILDE} \<union> (if str = None then {EXP_CASE} else {})) st) (\<lambda>(p, st1).
       if EXP_DISCARD \<in> fl then Inr (p, st1)
       else case str of
         Some var \<Rightarrow>
           if subtype = VSASSIGN then
             bindE (setvar var (Some (text_at startloc st1)) {} (xsh st1)) (\<lambda>(_, sh1).
               Inr (p, xcut startloc [] (st1\<lparr>xsh := sh1\<rparr>)))
           else Inl (varunset (take 1 start = [CTLENDVAR]) var (Some (text_at startloc st1)) vsnul)
       | None \<Rightarrow>
           bindE (trim_value sys (quotes_esc fl) subtype
                    (drop startloc (take (strloc - 1) (xbuf st1))) (text_at strloc st1)) (\<lambda>v.
             Inr (p, xcut startloc v st1)))"

text \<open>The labels \<open>record\<close> and \<open>really_record\<close>.\<close>

definition really_record :: "string \<Rightarrow> bool \<Rightarrow> nat \<Rightarrow> ('c, 'w) expst \<Rightarrow> ('c, 'w) expst" where
  "really_record var quoted startloc st =
     (if quoted \<and> \<not> (take 1 var = ''@'' \<and> shparam (xsh st) \<noteq> []) then st
      else xrecord startloc (xpos st) quoted st)"

definition record_unless :: "bool \<Rightarrow> string \<Rightarrow> bool \<Rightarrow> nat \<Rightarrow> ('c, 'w) expst \<Rightarrow> ('c, 'w) expst" where
  "record_unless discard var quoted startloc st = (if discard then st else really_record var quoted startloc st)"

text \<open>What follows the \<open>switch\<close> over the modifiers with a word; \<open>p\<close> is behind the name or the word.\<close>

definition eval_plain ::
    "('c, 'w) expsys \<Rightarrow> ('c, 'w) word_fun \<Rightarrow> string \<Rightarrow> string option \<Rightarrow> nat \<Rightarrow> bool \<Rightarrow> expflag set \<Rightarrow> nat \<Rightarrow> int \<Rightarrow>
     ('c, 'w) expst \<Rightarrow> shell_error + string option \<times> ('c, 'w) expst" where
  "eval_plain sys A var p subtype vsnul fl startloc varlen st =
     (let unset = (varlen < 0); quoted = (EXP_QUOTED \<in> fl)
      in if unset \<and> EXP_DISCARD \<notin> fl \<and> uflag (xsh st) then Inl (varunset False var None False)
         else if subtype = VSNORMAL then
           Inr (p, record_unless (EXP_DISCARD \<in> fl \<or> unset) var quoted startloc st)
         else case p of
           None \<Rightarrow> Inl Sh_undefined
         | Some start \<Rightarrow>
           if subtype = VSLENGTH then
             let p1 = (case start of [] \<Rightarrow> None | _ # q \<Rightarrow> Some q)
             in Inr (p1, if EXP_DISCARD \<in> fl then st
                         else really_record var quoted startloc (snd (cvtnum (max varlen 0) fl st)))
           else if VSLENGTH < subtype then Inl Sh_undefined
           else
             let fl1 = (if unset then insert EXP_DISCARD fl else fl);
                 st1 = (if EXP_DISCARD \<in> fl1 then st else xappend [NUL] st)
             in bindE (subevalvar sys A start None (xpos st1) startloc subtype vsnul fl1 st1) (\<lambda>(p1, st2).
                  Inr (p1, record_unless (EXP_DISCARD \<in> fl1) var quoted startloc st2)))"

definition evalvar :: "('c, 'w) expsys \<Rightarrow> ('c, 'w) word_fun \<Rightarrow> ('c, 'w) word_fun" where
  "evalvar sys A p0 fl st =
     (case p0 of
        [] \<Rightarrow> Inl Sh_undefined
      | c # var \<Rightarrow>
        if CHR ''='' \<notin> set var then Inl Sh_undefined
        else
          let subtype = vs_type c; vsnul = vs_nul c; quoted = (EXP_QUOTED \<in> fl); startloc = xpos st;
              p = varnull var
          in bindE (varvalue sys var subtype fl quoted st) (\<lambda>(len, st1).
               let unset = (len - of_bool vsnul < 0)
               in if subtype = VSPLUS \<or> subtype = 0 \<or> subtype = VSMINUS then
                    let discard = (if subtype = VSPLUS then \<not> unset else unset)
                    in bindE (A p (fl \<union> {EXP_TILDE, EXP_WORD} \<union> (if discard then {} else {EXP_DISCARD})) st1) (\<lambda>(p1, st2).
                         Inr (p1, record_unless (EXP_DISCARD \<in> fl \<or> discard) var quoted startloc st2))
                  else if subtype = VSASSIGN \<or> subtype = VSQUESTION then
                    bindE (subevalvar sys A p (Some var) 0 startloc subtype vsnul
                             (fl - {EXP_FULL, EXP_CASE} \<union> (if unset then {} else {EXP_DISCARD})) st1) (\<lambda>(p1, st2).
                      if EXP_DISCARD \<in> fl \<or> \<not> unset then
                        Inr (p1, record_unless (EXP_DISCARD \<in> fl \<or> unset) var quoted startloc st2)
                      else bindE (varvalue sys var subtype fl quoted st2) (\<lambda>(len1, st3).
                        eval_plain sys A var p1 VSNORMAL False fl startloc len1 st3))
                  else eval_plain sys A var (Some p) subtype vsnul fl startloc (len - of_bool vsnul) st1))"

definition expari :: "('c, 'w) expsys \<Rightarrow> ('c, 'w) word_fun \<Rightarrow> ('c, 'w) word_fun" where
  "expari sys A start fl st =
     (let begoff = xpos st
      in bindE (A start (fl \<inter> {EXP_DISCARD}) st) (\<lambda>(p, st1).
           if EXP_DISCARD \<in> fl then Inr (p, st1)
           else
             let text = text_at begoff st1; st2 = xcut begoff [] st1
             in bindE (if quotes_esc fl then rmescapes False text else Inr text) (\<lambda>s.
                bindE (arith (sys_alloc sys) (sys_ylval sys) (sys_token sys) s (xsh st2)) (\<lambda>(result, sh1).
                  case cvtnum (sint result) fl (st2\<lparr>xsh := sh1\<rparr>) of (len, st3) \<Rightarrow>
                    Inr (p, if EXP_QUOTED \<in> fl then st3 else xrecord begoff (begoff + len) False st3)))))"

section \<open>The loop over the text\<close>

definition spclchars :: string where
  "spclchars = ''=:'' @ [CTLQUOTEMARK, CTLENDVAR, CTLESC, CTLVAR, CTLBACKQ, CTLARI, CTLENDARI]"

definition dolatstr :: string where
  "dolatstr = [CTLQUOTEMARK, CTLVAR, CHR 0x21, CHR ''@'', CHR ''='', CTLQUOTEMARK]"

definition ends_word :: "char \<Rightarrow> bool" where
  "ends_word c = (c = NUL \<or> c = CTLENDVAR \<or> c = CTLENDARI)"

text \<open>
  The loop variables: \<open>p\<close>; \<open>pre\<close> (\<open>length\<close>), the number of characters that are taken as they are; \<open>nrej\<close>,
  the offset of \<open>reject\<close> in \<open>spclchars\<close>; \<open>inquotes\<close>, \<open>startloc\<close>, \<open>breakall\<close> and the flags.
\<close>

definition put_plain ::
    "string \<Rightarrow> char \<Rightarrow> bool \<Rightarrow> nat \<Rightarrow> bool \<Rightarrow> expflag set \<Rightarrow> ('c, 'w) expst \<Rightarrow> nat \<times> ('c, 'w) expst" where
  "put_plain plain c inquotes startloc breakall fl st =
     (let text = plain @ (if c = CHR ''='' \<or> c = CHR '':'' then [c] else [])
      in if text = [] \<and> \<not> ends_word c \<or> EXP_DISCARD \<in> fl then (startloc, st)
         else
           let newloc = xpos st + length text;
               st1 = xappend (text @ (if ends_word c \<and> EXP_WORD \<notin> fl then [NUL] else [])) st
           in (newloc, if breakall \<and> \<not> inquotes \<and> startloc < newloc then xrecord startloc newloc False st1 else st1))"

definition quoted_flags :: "bool \<Rightarrow> expflag set \<Rightarrow> expflag set" where
  "quoted_flags inquotes fl = (if inquotes then insert EXP_QUOTED fl else fl)"

text \<open>The label \<open>tilde\<close>.\<close>

definition at_tilde :: "('c, 'w) expsys \<Rightarrow> string \<Rightarrow> expflag set \<Rightarrow> ('c, 'w) expst \<Rightarrow> string \<times> ('c, 'w) expst" where
  "at_tilde sys p fl st = (if take 1 p = ''~'' then exptilde sys p fl st else (p, st))"

type_synonym ('c, 'w) loop_fun =
  "string \<Rightarrow> nat \<Rightarrow> nat \<Rightarrow> bool \<Rightarrow> nat \<Rightarrow> bool \<Rightarrow> expflag set \<Rightarrow> ('c, 'w) expst \<Rightarrow>
   shell_error + string option \<times> ('c, 'w) expst"

definition argstr_with :: "('c, 'w) loop_fun \<Rightarrow> ('c, 'w) expsys \<Rightarrow> ('c, 'w) word_fun" where
  "argstr_with loop sys p fl st =
     (let breakall = (EXP_WORD \<in> fl \<and> EXP_QUOTED \<notin> fl);
          nrej = of_bool (EXP_VARTILDE2 \<in> fl) + (if EXP_VARTILDE \<in> fl then 0 else 2);
          fl1 = fl - {EXP_TILDE}
      in case (if EXP_TILDE \<in> fl then at_tilde sys p fl1 st else (p, st)) of (p1, st1) \<Rightarrow>
           loop p1 0 nrej False (xpos st1) breakall fl1 st1)"

text \<open>
  One turn, for \<open>plain\<close> and what is \<open>here\<close> behind it. After an expansion the loop goes on at the label
  \<open>start\<close>, in the text that it has left (\<open>cont\<close>).
\<close>

definition arg_turn ::
    "('c, 'w) loop_fun \<Rightarrow> ('c, 'w) expsys \<Rightarrow> string \<Rightarrow> string \<Rightarrow> nat \<Rightarrow> bool \<Rightarrow> nat \<Rightarrow> bool \<Rightarrow> expflag set \<Rightarrow>
     ('c, 'w) expst \<Rightarrow> shell_error + string option \<times> ('c, 'w) expst" where
  "arg_turn loop sys plain here nrej inquotes startloc breakall fl st =
     (let c = (case here of [] \<Rightarrow> NUL | x # _ \<Rightarrow> x);
          rest = drop 1 here;
          A = argstr_with loop sys;
          flq = quoted_flags inquotes fl;
          esc = quotes_esc fl;
          cont = (\<lambda>(p1, st1). case p1 of None \<Rightarrow> Inl Sh_undefined
                    | Some p2 \<Rightarrow> loop p2 0 nrej inquotes (xpos st1) breakall fl st1)
      in case put_plain plain c inquotes startloc breakall fl st of (loc, st1) \<Rightarrow>
         if ends_word c then Inr (if here = [] then None else Some rest, st1)
         else if c = CHR ''='' \<or> c = CHR '':'' then
           let fl1 = (if c = CHR ''='' then insert EXP_VARTILDE2 fl else fl);
               nrej1 = (if c = CHR ''='' then nrej + 1 else nrej)
           in if take 1 rest = ''~'' then
                (case exptilde sys rest fl1 st1 of (p2, st2) \<Rightarrow> loop p2 0 nrej1 inquotes (xpos st2) breakall fl1 st2)
              else loop rest 0 nrej1 inquotes loc breakall fl1 st1
         else if c = CTLQUOTEMARK then
           if \<not> inquotes \<and> take 5 rest = drop 1 dolatstr then
             bindE (evalvar sys A (drop 1 rest) (insert EXP_QUOTED fl) st1) (\<lambda>(p1, st2).
               cont (case p1 of Some (_ # q) \<Rightarrow> Some q | _ \<Rightarrow> None, st2))
           else if esc then loop here 1 nrej (\<not> inquotes) (loc + 1) breakall fl st1
           else loop rest 0 nrej (\<not> inquotes) loc breakall fl st1
         else if c = CTLESC then
           if esc then loop here 2 nrej inquotes (loc + 2) breakall fl st1
           else loop rest 1 nrej inquotes (loc + 1) breakall fl st1
         else if c = CTLVAR then bindE (evalvar sys A rest flq st1) cont
         else if c = CTLBACKQ then bindE (expbackq sys flq st1) (\<lambda>st2. cont (Some rest, st2))
         else bindE (expari sys A rest flq st1) cont)"

primrec argloop :: "nat \<Rightarrow> ('c, 'w) expsys \<Rightarrow> ('c, 'w) loop_fun" where
  "argloop 0 sys p pre nrej inquotes startloc breakall fl st = Inl Sh_fuel"
| "argloop (Suc n) sys p pre nrej inquotes startloc breakall fl st =
     (if length p < pre then Inl Sh_undefined
      else
        let plain = take pre p @ takeWhile (\<lambda>c. c \<noteq> NUL \<and> c \<notin> set (drop nrej spclchars)) (drop pre p)
        in arg_turn (argloop n sys) sys plain (drop (length plain) p) nrej inquotes startloc breakall fl st)"

declare argloop.simps [simp del]

text \<open>Each turn takes a character of the text, or of its last two: the fuel for a text.\<close>

definition arg_fuel :: "string \<Rightarrow> nat" where
  "arg_fuel p = 2 * length p + 1"

definition argstr :: "('c, 'w) expsys \<Rightarrow> ('c, 'w) word_fun" where
  "argstr sys p = argstr_with (argloop (arg_fuel p) sys) sys p"

section \<open>File names\<close>

text \<open>\<open>[\<close> starts a bracket expression if there is a \<open>]\<close> for it before the next slash.\<close>

function bracket_loop :: "string \<Rightarrow> bool" where
  "bracket_loop q =
     (case (if take 1 q = [CHR 0x5C] then drop 1 q else q) of
        [] \<Rightarrow> False
      | c # q1 \<Rightarrow> if c = CHR ''/'' then False else if take 1 q1 = '']'' then True else bracket_loop q1)"
  by pat_completeness auto
termination by (relation "measure length") (auto split: if_splits, (case_tac q; simp)+)

declare bracket_loop.simps [simp del]

definition bracket_meta :: "string \<Rightarrow> bool" where
  "bracket_meta q = bracket_loop (if take 1 q = ''!'' then drop 1 q else q)"

text \<open>
  The first loop of \<open>expmeta\<close>: \<open>metaflag\<close>, and the offsets \<open>start\<close>, \<open>p\<close> and \<open>esc\<close> where it ends.
\<close>

function meta_scan :: "string \<Rightarrow> nat \<Rightarrow> nat \<Rightarrow> bool \<Rightarrow> bool \<times> nat \<times> nat \<times> nat" where
  "meta_scan name0 start p metaflag =
     (if length name0 \<le> p then (metaflag, start, p, 0)
      else
        let c = name0 ! p; esc = (if c = CHR 0x5C \<and> Suc p < length name0 then 1 else 0)
        in if c = CHR ''*'' \<or> c = CHR ''?'' then meta_scan name0 start (Suc p) True
           else if c = CHR ''['' then meta_scan name0 start (Suc p) (metaflag \<or> bracket_meta (drop (Suc p) name0))
           else if name0 ! (p + esc) = CHR ''/'' then
             (if metaflag then (metaflag, start, p, esc) else meta_scan name0 (p + esc + 1) (p + esc + 1) metaflag)
           else meta_scan name0 start (p + esc + 1) metaflag)"
  by pat_completeness auto
termination by (relation "measure (\<lambda>(name0, start, p, metaflag). length name0 - p)") auto

declare meta_scan.simps [simp del]

fun unbackslash :: "string \<Rightarrow> string" where
  "unbackslash [] = []"
| "unbackslash (c # p) =
     (if c = CHR 0x5C then (case p of [] \<Rightarrow> [c] | d # p1 \<Rightarrow> d # unbackslash p1) else c # unbackslash p)"

text \<open>
  The result is the list of the file names that are added; \<open>expdir\<close> is what stands in the buffer before
  the name. Entries are matched in the order in which the directory gives them.
\<close>

function expmeta :: "('c, 'w) expsys \<Rightarrow> string \<Rightarrow> string \<Rightarrow> string list" where
  "expmeta sys name0 expdir =
     (case meta_scan name0 0 0 False of (metaflag, start, endname, esc) \<Rightarrow>
        if \<not> metaflag then
          (if expdir = [] then []
           else let path = expdir @ unbackslash name0 in if sys_lstat sys path then [path] else [])
        else
          let dir = expdir @ unbackslash (take start name0);
              seg = drop start (take endname name0);
              lead = (if take 1 seg = [CHR 0x5C] then drop 1 seg else seg);
              matchdot = (take 1 lead = ''.'')
          in case sys_opendir sys (if dir = [] then ''.'' else dir) of
               None \<Rightarrow> []
             | Some ds \<Rightarrow>
               concat (map (\<lambda>d.
                 if take 1 d = ''.'' \<and> \<not> matchdot \<or> \<not> sys_pmatch sys seg d then []
                 else if length name0 \<le> endname then [dir @ d]
                 else expmeta sys (drop (endname + esc + 1) name0) (dir @ d @ ''/'')) ds))"
  by pat_completeness auto
termination by (relation "measure (\<lambda>(sys, name0, expdir). length name0)") auto

declare expmeta.simps [simp del]

definition has_meta :: "string \<Rightarrow> bool" where
  "has_meta s = (\<exists>c \<in> set s. c \<in> set ''*?['')"

definition expand_name :: "('c, 'w) expsys \<Rightarrow> shell \<Rightarrow> string \<Rightarrow> shell_error + string list" where
  "expand_name sys sh s =
     bindE (rmescapes False s) (\<lambda>plain.
       if fflag sh \<or> \<not> has_meta s then Inr [plain]
       else bindE (rmescapes True s) (\<lambda>p.
         let names = expmeta sys p [] in Inr (if names = [] then [plain] else expsort names)))"

fun expandmeta :: "('c, 'w) expsys \<Rightarrow> shell \<Rightarrow> string list \<Rightarrow> shell_error + string list" where
  "expandmeta sys sh [] = Inr []"
| "expandmeta sys sh (s # ss) =
     bindE (expand_name sys sh s) (\<lambda>names. bindE (expandmeta sys sh ss) (\<lambda>rest. Inr (names @ rest)))"

section \<open>Words\<close>

definition start_word :: "'c list \<Rightarrow> ('c, 'w) expst \<Rightarrow> ('c, 'w) expst" where
  "start_word backq st = st\<lparr>xbuf := [], xbackq := backq\<rparr>"

definition expandarg ::
    "('c, 'w) expsys \<Rightarrow> string \<Rightarrow> 'c list \<Rightarrow> expflag set \<Rightarrow> ('c, 'w) expst \<Rightarrow> shell_error + string list \<times> ('c, 'w) expst" where
  "expandarg sys text backq fl st =
     bindE (argstr sys text fl (start_word backq st)) (\<lambda>(_, st1).
     bindE (if EXP_FULL \<in> fl then
              bindE (ifsbreakup (realifs (xsh st1)) (xbuf st1) (- 1) (xregs st1)) (expandmeta sys (xsh st1))
            else Inr [text_at 0 st1]) (\<lambda>args. Inr (args, st1\<lparr>xregs := ifsfree (xregs st1)\<rparr>)))"

text \<open>A here document: the expanded text stays in the buffer.\<close>

definition expand_here ::
    "('c, 'w) expsys \<Rightarrow> string \<Rightarrow> 'c list \<Rightarrow> expflag set \<Rightarrow> ('c, 'w) expst \<Rightarrow> shell_error + string \<times> ('c, 'w) expst" where
  "expand_here sys text backq fl st =
     bindE (argstr sys text fl (start_word backq st)) (\<lambda>(_, st1). Inr (text_at 0 st1, st1\<lparr>xregs := ifsfree (xregs st1)\<rparr>))"

definition casematch ::
    "('c, 'w) expsys \<Rightarrow> string \<Rightarrow> 'c list \<Rightarrow> string \<Rightarrow> ('c, 'w) expst \<Rightarrow> shell_error + bool \<times> ('c, 'w) expst" where
  "casematch sys text backq val st =
     bindE (argstr sys text {EXP_TILDE, EXP_CASE} (start_word backq st)) (\<lambda>(_, st1).
     bindE (patmatch (sys_pmatch sys) (text_at 0 st1) val) (\<lambda>r. Inr (r, st1\<lparr>xregs := ifsfree (xregs st1)\<rparr>)))"

end
