(* ===== verification/Sh_Word_Laws.thy ===== *)
theory Sh_Word_Laws
  imports Sh_Word Sh_Expand_Laws
begin

text \<open>
  What quoting guarantees: \<open>"$@"\<close> gives exactly the parameters and \<open>"$x"\<close> exactly the value of the
  variable, whatever characters they hold, whatever \<open>IFS\<close> is and whatever files there are.
\<close>

section \<open>File names that are quoted\<close>

text \<open>A pattern in which every special character has a backslash in front of it names no file.\<close>

lemma special_chars:
  "pattern_special (CHR ''*'')" "pattern_special (CHR ''?'')" "pattern_special (CHR ''['')"
  "pattern_special (CHR 0x5C)"
  by (simp_all add: pattern_special_def) code_simp+

lemma quote_pattern_Cons:
  "quote_pattern (c # s) = (if pattern_special c then [CHR 0x5C, c] else [c]) @ quote_pattern s"
  by (simp add: quote_pattern_def)

lemma nth_app: "(xs @ y # ys) ! length xs = y" "(xs @ x # y # ys) ! Suc (length xs) = y"
  by (simp_all add: nth_append)

lemma meta_scan_quoted:
  "fst (meta_scan (pre @ quote_pattern s) start (length pre) False) = False"
proof (induction s arbitrary: pre start)
  case Nil
  show ?case by (simp add: quote_pattern_def meta_scan.simps)
next
  case (Cons c s)
  show ?case
  proof (cases "pattern_special c")
    case True
    have "meta_scan (pre @ CHR 0x5C # c # quote_pattern s) start (length pre) False =
        meta_scan (pre @ CHR 0x5C # c # quote_pattern s) (if c = CHR ''/'' then length pre + 2 else start) (length pre + 2) False"
      by (subst meta_scan.simps) (simp add: nth_app Let_def)
    then show ?thesis
      using Cons.IH [of "pre @ [CHR 0x5C, c]"] True by (simp add: quote_pattern_Cons)
  next
    case False
    then have c: "c \<noteq> CHR ''*''" "c \<noteq> CHR ''?''" "c \<noteq> CHR ''[''" "c \<noteq> CHR 0x5C"
      using special_chars by auto
    have "meta_scan (pre @ c # quote_pattern s) start (length pre) False =
        meta_scan (pre @ c # quote_pattern s) (if c = CHR ''/'' then length pre + 1 else start) (length pre + 1) False"
      using c by (subst meta_scan.simps) (simp add: nth_app Let_def)
    then show ?thesis
      using Cons.IH [of "pre @ [c]"] False by (simp add: quote_pattern_Cons)
  qed
qed

lemma expmeta_quoted: "expmeta sys (quote_pattern s) [] = []"
  using meta_scan_quoted [of "[]" s 0] by (subst expmeta.simps) (auto split: prod.splits)

text \<open>The escaped text of a quoted value, with or without quote marks around it.\<close>

abbreviation quoted_text :: "string \<Rightarrow> string" where
  "quoted_text v \<equiv> memtodest True True True v"

lemma quoted_marks:
  "rmescapes_loop False False (quoted_text v @ [CTLQUOTEMARK]) = Inr v"
  "NUL \<notin> set v \<Longrightarrow> rmescapes_loop True True (quoted_text v @ [CTLQUOTEMARK]) = Inr (quote_pattern v)"
  by (induction v)
    (auto simp: memtodest_simps quote_pattern_def pattern_special_def ctl_class backslash_class caret_class split: if_splits)

definition marked :: "string \<Rightarrow> string \<Rightarrow> bool" where
  "marked v s = (s = quoted_text v \<or> s = [CTLQUOTEMARK] @ quoted_text v @ [CTLQUOTEMARK])"

lemma is_cqchar_mark: "is_cqchar CTLQUOTEMARK"
  by (simp add: is_cqchar_def)

lemma rmescapes_marked:
  assumes "marked v s" and "NUL \<notin> set v"
  shows "rmescapes False s = Inr v" and "rmescapes True s = Inr (quote_pattern v)"
  using assms rmescapes_loop_memtodest [of True True v] quoted_loop [of v True] quoted_prefix [of v True]
  by (auto simp: marked_def rmescapes_is_loop is_cqchar_mark quoted_marks kept_def)

lemma expand_name_marked:
  "marked v s \<Longrightarrow> NUL \<notin> set v \<Longrightarrow> expand_name sys sh s = Inr [v]"
  by (simp add: expand_name_def rmescapes_marked expmeta_quoted)

lemma expandmeta_marked:
  "list_all2 marked vs ss \<Longrightarrow> \<forall>v \<in> set vs. NUL \<notin> set v \<Longrightarrow> expandmeta sys sh ss = Inr vs"
  by (induction rule: list_all2_induct) (simp_all add: expand_name_marked)

section \<open>Fields between null characters\<close>

text \<open>A region in which only null characters split: the loop steps over a quoted text.\<close>

lemma nul_turn:
  assumes "sspc st = False" "smax st = - 1" "sbuf st = pre @ c # post" "sp st = length pre" "c \<noteq> NUL" "c \<noteq> CTLESC"
  shows "ifs_turn [] True st = Inr (st\<lparr>sp := length pre + 1\<rparr>)"
  using assms by (simp add: ifs_turn_def rd_def nth_app in_str_def split_turn_def Let_def)

lemma nul_turn_esc:
  assumes "sspc st = False" "smax st = - 1" "sbuf st = pre @ CTLESC # c # post" "sp st = length pre" "c \<noteq> NUL"
  shows "ifs_turn [] True st = Inr (st\<lparr>sp := length pre + 2\<rparr>)"
  using assms by (simp add: ifs_turn_def rd_def nth_app in_str_def split_turn_def Let_def)

lemma nul_region_text:
  assumes "sspc st = False" "smax st = - 1" "NUL \<notin> set v"
    and "sbuf st = pre @ quoted_text v @ post" "sp st = length pre" "length (pre @ quoted_text v) \<le> e"
  shows "ifs_region [] True e st = ifs_region [] True e (st\<lparr>sp := length (pre @ quoted_text v)\<rparr>)"
  using assms
proof (induction v arbitrary: pre st)
  case Nil
  then show ?case by (cases st) (simp add: memtodest_simps)
next
  case (Cons c v)
  let ?esc = "DQSYNTAX (schar c) = CCTL \<or> DQSYNTAX (schar c) = CBACK"
  define m where "m = (if ?esc then [CTLESC, c] else [c])"
  have c: "c \<noteq> NUL" and v: "NUL \<notin> set v" using Cons.prems(3) by auto
  have eq: "quoted_text (c # v) = m @ quoted_text v"
    using c by (simp add: m_def memtodest_simps)
  have "\<not> ?esc \<Longrightarrow> c \<noteq> CTLESC" using ctl_class by auto
  then have turn: "ifs_turn [] True st = Inr (st\<lparr>sp := length (pre @ m)\<rparr>)"
    using Cons.prems c
      nul_turn [of st pre c "quoted_text v @ post"] nul_turn_esc [of st pre c "quoted_text v @ post"]
    by (auto simp: eq m_def)
  have "sp st < e" using Cons.prems(5,6) by (simp add: eq m_def split: if_splits)
  then have "ifs_region [] True e st = ifs_region [] True e (st\<lparr>sp := length (pre @ m)\<rparr>)"
    by (subst ifs_region.simps) (simp add: turn)
  also have "\<dots> = ifs_region [] True e (st\<lparr>sp := length (pre @ m), sp := length ((pre @ m) @ quoted_text v)\<rparr>)"
    by (rule Cons.IH) (use Cons.prems v in \<open>auto simp: eq\<close>)
  finally show ?case by (simp add: eq)
qed

text \<open>What \<open>put_params\<close> leaves in the buffer.\<close>

fun nul_join :: "string list \<Rightarrow> string" where
  "nul_join [] = []"
| "nul_join [v] = quoted_text v"
| "nul_join (v # vs) = quoted_text v @ NUL # nul_join vs"

lemma quoted_text_no_nul: "NUL \<notin> set v \<Longrightarrow> NUL \<notin> set (quoted_text v)"
  by (induction v) (auto simp: memtodest_simps split: if_splits)

lemma buf_text_at:
  "NUL \<notin> set s \<Longrightarrow> buf_text (pre @ s @ NUL # post) (length pre) = s"
  by (simp add: buf_text_def) (subst takeWhile_append2; auto)

lemma nul_turn_end:
  assumes "sspc st = False" "smax st = - 1" "sbuf st = pre @ NUL # post" "sp st = length pre"
  shows "ifs_turn [] True st =
    Inr (st\<lparr>sp := length pre + 1, sout := sout st @ [sstart st], sstart := length pre + 1\<rparr>)"
  using assms by (simp add: ifs_turn_def rd_def nth_app in_str_def split_turn_def end_field_def Let_def)

lemma nul_region:
  assumes "vs \<noteq> []" "\<forall>v \<in> set vs. NUL \<notin> set v" "sspc st = False" "smax st = - 1"
    and "sbuf st = pre @ nul_join vs @ [NUL]" "sp st = length pre" "sstart st = length pre"
  obtains st' where "ifs_region [] True (length (pre @ nul_join vs)) st = Inr st'" "sbuf st' = sbuf st" "sr st' = sr st"
    "map (buf_text (sbuf st)) (sout st' @ [sstart st']) = map (buf_text (sbuf st)) (sout st) @ map quoted_text vs"
    "sstart st' < length (sbuf st)"
  using assms
proof (induction vs arbitrary: pre st thesis rule: nul_join.induct)
  case (2 v)
  have "ifs_region [] True (length (pre @ quoted_text v)) st =
      ifs_region [] True (length (pre @ quoted_text v)) (st\<lparr>sp := length (pre @ quoted_text v)\<rparr>)"
    by (rule nul_region_text [where post = "[NUL]"]) (use "2.prems" in auto)
  also have "\<dots> = Inr (st\<lparr>sp := length (pre @ quoted_text v)\<rparr>)"
    by (subst ifs_region.simps) simp
  finally show ?case
    using buf_text_at [OF quoted_text_no_nul, of v pre "[]"] "2.prems"
    by (intro "2.prems"(1) [of "st\<lparr>sp := length (pre @ quoted_text v)\<rparr>"]) auto
next
  case (3 v w vs)
  let ?e = "length (pre @ nul_join (v # w # vs))" and ?pre = "pre @ quoted_text v @ [NUL]"
  define st1 where "st1 = st\<lparr>sp := length ?pre, sout := sout st @ [sstart st], sstart := length ?pre\<rparr>"
  have "ifs_region [] True ?e st = ifs_region [] True ?e (st\<lparr>sp := length (pre @ quoted_text v)\<rparr>)"
    by (rule nul_region_text [where post = "NUL # nul_join (w # vs) @ [NUL]"]) (use "3.prems" in auto)
  also have "\<dots> = ifs_region [] True ?e st1"
    using nul_turn_end [of "st\<lparr>sp := length (pre @ quoted_text v)\<rparr>" "pre @ quoted_text v" "nul_join (w # vs) @ [NUL]"] "3.prems"
    by (subst ifs_region.simps) (simp add: st1_def)
  finally have run: "ifs_region [] True ?e st = ifs_region [] True (length (?pre @ nul_join (w # vs))) st1"
    by simp
  obtain st' where st': "ifs_region [] True (length (?pre @ nul_join (w # vs))) st1 = Inr st'" "sbuf st' = sbuf st1"
      "sr st' = sr st1" "map (buf_text (sbuf st1)) (sout st' @ [sstart st']) = map (buf_text (sbuf st1)) (sout st1) @ map quoted_text (w # vs)"
      "sstart st' < length (sbuf st1)"
    by (rule "3.IH" [of ?pre st1]) (use "3.prems" in \<open>auto simp: st1_def\<close>)
  have "buf_text (sbuf st) (sstart st) = quoted_text v"
    using buf_text_at [OF quoted_text_no_nul, of v pre "nul_join (w # vs) @ [NUL]"] "3.prems" by simp
  then show ?case
    using st' run by (intro "3.prems"(1) [of st']) (simp_all add: st1_def)
qed simp

lemma ifsbreakup_nul:
  assumes "vs \<noteq> []" "\<forall>v \<in> set vs. NUL \<notin> set v"
  shows "ifsbreakup ifs (nul_join vs @ [NUL]) (- 1) [\<lparr>begoff = 0, endoff = length (nul_join vs), nulonly = True\<rparr>] =
    Inr (map quoted_text vs)"
proof -
  let ?st = "\<lparr>sbuf = nul_join vs @ [NUL], sp = 0, sstart = 0, sr = None, smax = - 1, sspc = False, sout = []\<rparr>"
  obtain st' where "ifs_region [] True (length ([] @ nul_join vs)) ?st = Inr st'" "sbuf st' = sbuf ?st" "sr st' = None"
      "map (buf_text (sbuf ?st)) (sout st' @ [sstart st']) = map (buf_text (sbuf ?st)) (sout ?st) @ map quoted_text vs"
      "sstart st' < length (sbuf ?st)"
    by (rule nul_region [of vs ?st "[]"]) (use assms in auto)
  then show ?thesis
    by (simp add: ifsbreakup_def rd_def)
qed

section \<open>The parameters in quotes\<close>

lemma dest_quoted:
  "EXP_QUOTED \<in> fl \<Longrightarrow> EXP_FULL \<in> fl \<Longrightarrow> EXP_KEEPNUL \<in> fl \<Longrightarrow> dest_text fl s = quoted_text s"
  by (simp add: dest_text_def quotes_esc_def)

lemma xappend_simps [simp]:
  "xbuf (xappend s st) = xbuf st @ s" "xregs (xappend s st) = xregs st" "xbackq (xappend s st) = xbackq st"
  "xsh (xappend s st) = xsh st" "xworld (xappend s st) = xworld st"
  "xappend t (xappend s st) = xappend (s @ t) st" "xappend [] st = st"
  by (simp_all add: xappend_def)

lemma put_params_nul:
  assumes "EXP_QUOTED \<in> fl" "EXP_FULL \<in> fl" "EXP_KEEPNUL \<in> fl"
  shows "\<exists>len \<ge> 0. put_params fl (Some NUL) vs st = (len, xappend (nul_join vs) st)"
proof (induction vs arbitrary: st rule: nul_join.induct)
  case (2 v)
  show ?case by (simp add: strtodest_def dest_quoted assms)
next
  case (3 v w vs)
  let ?st = "xappend (quoted_text v @ [NUL]) st"
  obtain len where "0 \<le> len" "put_params fl (Some NUL) (w # vs) ?st = (len, xappend (nul_join (w # vs)) ?st)"
    using 3 by blast
  then show ?case
    by (simp add: strtodest_def dest_quoted assms memtodest_simps)
qed simp

lemma ctl_chars [simp]:
  "ends_word NUL" "\<not> ends_word CTLQUOTEMARK" "\<not> ends_word CTLVAR" "CTLQUOTEMARK \<noteq> CHR ''=''" "CTLQUOTEMARK \<noteq> CHR '':''"
  "CTLVAR \<noteq> CHR ''=''" "CTLVAR \<noteq> CHR '':''" "CTLVAR \<noteq> CTLQUOTEMARK" "CTLVAR \<noteq> CTLESC" "CTLVAR \<noteq> NUL"
  "CTLQUOTEMARK \<noteq> CTLVAR"
  by (simp_all add: ends_word_def ctl_defs)

lemma evalvar_at:
  assumes "EXP_QUOTED \<in> fl" "EXP_FULL \<in> fl" "EXP_DISCARD \<notin> fl"
  shows "evalvar sys A (CHR ''!'' # CHR ''@'' # CHR ''='' # p) fl st =
    Inr (Some p, let st1 = xappend (nul_join (shparam (xsh st))) st in
      if shparam (xsh st) = [] then st1 else xrecord (xpos st) (xpos st1) True st1)"
proof -
  obtain len where len: "0 \<le> len" "put_params (insert EXP_KEEPNUL fl) (Some NUL) (shparam (xsh st)) st =
      (len, xappend (nul_join (shparam (xsh st))) st)"
    using put_params_nul [of "insert EXP_KEEPNUL fl" "shparam (xsh st)" st] assms by auto
  then have "varvalue sys (CHR ''@'' # CHR ''='' # p) 1 fl True st = Inr (len, xappend (nul_join (shparam (xsh st))) st)"
    using assms by (simp add: varvalue_def put_special_def param_sep_def VSPLUS_def VSLENGTH_def)
  moreover have "vs_type (CHR ''!'') = 1" "vs_nul (CHR ''!'') = False"
    by code_simp+
  ultimately show ?thesis
    using len(1) assms
    by (simp add: evalvar_def eval_plain_def varnull_def record_unless_def really_record_def Let_def VSPLUS_def VSMINUS_def
        VSASSIGN_def VSQUESTION_def VSNORMAL_def)
qed

lemma stop_chars:
  "CTLQUOTEMARK \<in> set (drop 2 spclchars)" "CTLVAR \<in> set (drop 2 spclchars)" "CTLENDVAR \<in> set (drop 2 spclchars)"
  by code_simp+

lemma argloop_end:
  "argloop (Suc n) sys [] 0 nrej inquotes startloc False fl st =
     Inr (None, if EXP_DISCARD \<in> fl \<or> EXP_WORD \<in> fl then st else xappend [NUL] st)"
  by (simp add: argloop.simps arg_turn_def put_plain_def Let_def)

lemma argloop_at:
  assumes "EXP_FULL \<in> fl" "EXP_DISCARD \<notin> fl" "EXP_WORD \<notin> fl"
  shows "argloop (Suc (Suc n)) sys dolatstr 0 2 False startloc False fl st =
    Inr (None, let st1 = xappend (nul_join (shparam (xsh st))) st in
      xappend [NUL] (if shparam (xsh st) = [] then st1 else xrecord (xpos st) (xpos st1) True st1))"
proof -
  note step = argloop.simps(2) [where p = dolatstr]
  show ?thesis
    using assms stop_chars
    by (subst step) (simp add: arg_turn_def dolatstr_def put_plain_def evalvar_at Let_def argloop_end)
qed

lemma argstr_plain_flags:
  "take 1 p \<noteq> ''~'' \<Longrightarrow> argstr sys p {EXP_FULL, EXP_TILDE} st =
     argloop (arg_fuel p) sys p 0 2 False (xpos st) False {EXP_FULL} st"
proof -
  have "{EXP_FULL, EXP_TILDE} - {EXP_TILDE} = {EXP_FULL}" by auto
  then show "take 1 p \<noteq> ''~'' \<Longrightarrow> ?thesis"
    by (simp add: argstr_def argstr_with_def at_tilde_def numeral_2_eq_2)
qed

text \<open>
  C2: \<open>"$@"\<close> gives exactly the positional parameters, one argument for each and none if there are none:
  whatever characters they hold, empty ones and pattern characters included, whatever \<open>IFS\<close> is and
  whatever files there are.
\<close>

theorem quoted_at_gives_parameters:
  assumes "xregs st = []" and "\<forall>p \<in> set (shparam (xsh st)). NUL \<notin> set p"
  shows "\<exists>st'. expandarg sys dolatstr backq {EXP_FULL, EXP_TILDE} st = Inr (shparam (xsh st), st') \<and>
    xsh st' = xsh st \<and> xworld st' = xworld st \<and> xregs st' = []"
proof -
  let ?ps = "shparam (xsh st)" and ?st0 = "start_word backq st"
  have "CTLQUOTEMARK \<noteq> CHR ''~''" by (simp add: ctl_defs)
  moreover have "arg_fuel dolatstr = Suc (Suc 11)" by (simp add: arg_fuel_def dolatstr_def)
  ultimately have arg: "argstr sys dolatstr {EXP_FULL, EXP_TILDE} ?st0 = Inr (None,
      let st1 = xappend (nul_join ?ps) ?st0 in
        xappend [NUL] (if ?ps = [] then st1 else xrecord 0 (length (nul_join ?ps)) True st1))"
    using argstr_plain_flags [of dolatstr sys ?st0] argloop_at [of "{EXP_FULL}" 11 sys 0 ?st0]
    by (simp only:) (simp add: dolatstr_def start_word_def Let_def)
  have "list_all2 marked ?ps (map quoted_text ?ps)"
    by (simp add: list_all2_map2 marked_def list_all2_refl)
  then have names: "expandmeta sys (xsh st) (map quoted_text ?ps) = Inr ?ps"
    using assms(2) by (rule expandmeta_marked)
  show ?thesis
  proof (cases "?ps = []")
    case True
    then show ?thesis
      unfolding expandarg_def arg using assms(1)
      by (simp add: start_word_def ifsbreakup_def rd_def ifsfree_def)
  next
    case False
    then show ?thesis
      unfolding expandarg_def arg using assms ifsbreakup_nul [OF False] names
      by (simp add: start_word_def Let_def xrecord_def recordregion_def ifsfree_def)
  qed
qed

section \<open>A variable, in quotes and without\<close>

text \<open>The lookup reads the name up to the equals sign that the text has behind it.\<close>

lemma varcmp_upto: "varcmp a (n @ CHR ''='' # x) = varcmp a n" if "CHR ''='' \<notin> set n"
  using that by (induction a n rule: varcmp.induct) (auto simp: cmp_value_def)

lemma var_name_upto:
  assumes "CHR ''='' \<notin> set n"
  shows "var_name (n @ CHR ''='' # x) = n" and "var_name n = n" and "varnull (n @ CHR ''='' # x) = x"
proof -
  have "\<forall>c \<in> set n. c \<noteq> CHR ''=''" using assms by auto
  then show "var_name (n @ CHR ''='' # x) = n" "var_name n = n" "varnull (n @ CHR ''='' # x) = x"
    by (simp_all add: var_name_def varnull_def takeWhile_eq_all_conv)
qed

lemma lookupvar_upto:
  assumes "n \<noteq> []" "CHR ''='' \<notin> set n"
  shows "lookupvar (n @ CHR ''='' # x) sh = lookupvar n sh"
proof -
  have "hashvar (n @ CHR ''='' # x) = hashvar n"
    using assms var_name_upto [of n] by (cases n) (simp_all add: hashvar_def)
  then show ?thesis
    using assms(2) by (simp add: lookupvar_def findvar_def varcmp_upto)
qed

definition variable_name :: "string \<Rightarrow> bool" where
  "variable_name n = (n \<noteq> [] \<and> is_name (hd n) \<and> CHR ''='' \<notin> set n)"

lemma name_chars:
  "is_name c \<Longrightarrow> c \<notin> set ''$?#!-@*'' \<and> \<not> (48 \<le> byte_of c \<and> byte_of c \<le> 57)"
  by (auto simp: is_name_def isalpha_def less_eq_char_def byte_of_def)

lemma put_special_name:
  assumes "variable_name n"
  shows "put_special sys (n @ CHR ''='' # x) fl quoted st =
    (case lookupvar n (xsh st) of (v, sh1) \<Rightarrow> put_value v fl (st\<lparr>xsh := sh1\<rparr>))"
proof -
  obtain c m where n: "n = c # m" and c: "is_name c" using assms by (cases n) (auto simp: variable_name_def)
  have "lookupvar (c # m @ CHR ''='' # x) (xsh st) = lookupvar (c # m) (xsh st)"
    using lookupvar_upto [of n] assms by (simp add: variable_name_def n)
  then show ?thesis
    using name_chars [OF c] by (auto simp: put_special_def n Let_def)
qed

text \<open>\<open>$x\<close> of a variable that is set.\<close>

lemma evalvar_name:
  assumes "variable_name n" "EXP_FULL \<in> fl" "EXP_DISCARD \<notin> fl" "lookupvar n (xsh st) = (Some v, sh')"
  shows "evalvar sys A (CHR ''!'' # n @ CHR ''='' # p) fl st =
    Inr (Some p, let st1 = xappend (memtodest (EXP_QUOTED \<in> fl) True True v) (st\<lparr>xsh := sh'\<rparr>) in
      if EXP_QUOTED \<in> fl then st1 else xrecord (xpos st) (xpos st1) False st1)"
proof -
  have "varvalue sys (n @ CHR ''='' # p) 1 fl q st =
      Inr (int (length v), xappend (memtodest (EXP_QUOTED \<in> fl) True True v) (st\<lparr>xsh := sh'\<rparr>))" for q
    using assms(2-4)
    by (simp add: put_special_name [OF assms(1)] varvalue_def VSPLUS_def VSLENGTH_def put_value_def strtodest_def dest_text_def quotes_esc_def)
  moreover have "vs_type (CHR ''!'') = 1" "vs_nul (CHR ''!'') = False"
    by code_simp+
  moreover have "varnull (n @ CHR ''='' # p) = p"
    using assms(1) by (simp add: variable_name_def var_name_upto)
  moreover have "take 1 (n @ CHR ''='' # p) \<noteq> ''@''"
    using assms(1) name_chars [of "hd n"] by (cases n) (auto simp: variable_name_def)
  ultimately show ?thesis
    using assms(3)
    by (simp add: evalvar_def eval_plain_def record_unless_def really_record_def Let_def VSPLUS_def VSMINUS_def
        VSASSIGN_def VSQUESTION_def VSNORMAL_def)
qed

lemma take_mark: "take 5 (CTLVAR # CHR ''!'' # n @ x) = drop 1 dolatstr \<Longrightarrow> n \<noteq> [] \<Longrightarrow> hd n = CHR ''@''"
  by (cases n) (auto simp: dolatstr_def numeral_eq_Suc)

lemma argloop_mark:
  assumes "inquotes \<or> take 5 r \<noteq> drop 1 dolatstr"
  shows "argloop (Suc n) sys (CTLQUOTEMARK # r) 0 2 inquotes startloc False {EXP_FULL} st =
    argloop n sys (CTLQUOTEMARK # r) 1 2 (\<not> inquotes) (startloc + 1) False {EXP_FULL} st"
  using assms by (auto simp: argloop.simps arg_turn_def put_plain_def stop_chars quotes_esc_def Let_def)

lemma argloop_marked_var:
  "argloop (Suc n) sys (CTLQUOTEMARK # CTLVAR # r) 1 2 True startloc False {EXP_FULL} st =
     bindE (evalvar sys (argstr_with (argloop n sys) sys) r {EXP_QUOTED, EXP_FULL} (xappend [CTLQUOTEMARK] st)) (\<lambda>(p1, st1).
       case p1 of None \<Rightarrow> Inl Sh_undefined
       | Some p2 \<Rightarrow> argloop n sys p2 0 2 True (xpos st1) False {EXP_FULL} st1)"
  by (simp add: argloop.simps arg_turn_def put_plain_def stop_chars quotes_esc_def quoted_flags_def Let_def)

lemma argloop_var:
  "argloop (Suc n) sys (CTLVAR # r) 0 2 False startloc False {EXP_FULL} st =
     bindE (evalvar sys (argstr_with (argloop n sys) sys) r {EXP_FULL} st) (\<lambda>(p1, st1).
       case p1 of None \<Rightarrow> Inl Sh_undefined
       | Some p2 \<Rightarrow> argloop n sys p2 0 2 False (xpos st1) False {EXP_FULL} st1)"
  by (simp add: argloop.simps arg_turn_def put_plain_def stop_chars quotes_esc_def quoted_flags_def Let_def)

lemma argloop_marked_end:
  "argloop (Suc n) sys [CTLQUOTEMARK] 1 2 False startloc False {EXP_FULL} st =
     Inr (None, xappend [CTLQUOTEMARK, NUL] st)"
  by (simp add: argloop.simps arg_turn_def put_plain_def Let_def)

lemma arg_fuel_ge:
  assumes "k \<le> 2 * length p"
  obtains m where "arg_fuel p = m + Suc k"
  using assms that [of "2 * length p - k"] by (simp add: arg_fuel_def)

lemma argstr_quoted_var:
  assumes "variable_name n" "lookupvar n (xsh st) = (Some v, sh')"
  shows "argstr sys ([CTLQUOTEMARK, CTLVAR, CHR ''!''] @ n @ ''='' @ [CTLQUOTEMARK]) {EXP_FULL, EXP_TILDE} st =
    Inr (None, xappend ([CTLQUOTEMARK] @ quoted_text v @ [CTLQUOTEMARK, NUL]) (st\<lparr>xsh := sh'\<rparr>))"
proof -
  let ?p = "CTLQUOTEMARK # CTLVAR # CHR ''!'' # n @ CHR ''='' # [CTLQUOTEMARK]"
  have tilde: "take 1 ?p \<noteq> ''~''" by (simp add: ctl_defs)
  have at: "take 5 (CTLVAR # CHR ''!'' # n @ CHR ''='' # [CTLQUOTEMARK]) \<noteq> drop 1 dolatstr"
    using take_mark [of n "CHR ''='' # [CTLQUOTEMARK]"] assms(1) name_chars [of "hd n"] by (auto simp: variable_name_def)
  obtain m where "arg_fuel ?p = m + Suc 4" by (rule arg_fuel_ge [of 4 ?p]) simp_all
  then have "arg_fuel ?p = Suc (Suc (Suc (Suc (Suc m))))" by simp
  then have "argstr sys ?p {EXP_FULL, EXP_TILDE} st =
      argloop (Suc (Suc (Suc (Suc (Suc m))))) sys ?p 0 2 False (xpos st) False {EXP_FULL} st"
    by (simp only: argstr_plain_flags [OF tilde])
  also have "\<dots> = Inr (None, xappend ([CTLQUOTEMARK] @ quoted_text v @ [CTLQUOTEMARK, NUL]) (st\<lparr>xsh := sh'\<rparr>))"
    using at assms
    by (simp add: argloop_mark [of False] argloop_mark [of True] argloop_marked_var [simplified] argloop_marked_end [simplified] evalvar_name)
  finally show ?thesis by simp
qed

lemma argstr_plain_var:
  assumes "variable_name n" "lookupvar n (xsh st) = (Some v, sh')" "xbuf st = []"
  shows "argstr sys ([CTLVAR, CHR ''!''] @ n @ ''='') {EXP_FULL, EXP_TILDE} st =
    Inr (None, xappend [NUL] (xrecord 0 (length (memtodest False True True v)) False
      (xappend (memtodest False True True v) (st\<lparr>xsh := sh'\<rparr>))))"
proof -
  let ?p = "CTLVAR # CHR ''!'' # n @ CHR ''='' # []"
  have tilde: "take 1 ?p \<noteq> ''~''" by (simp add: ctl_defs)
  obtain m where "arg_fuel ?p = m + Suc 1" by (rule arg_fuel_ge [of 1 ?p]) simp_all
  then have "arg_fuel ?p = Suc (Suc m)" by simp
  then have "argstr sys ?p {EXP_FULL, EXP_TILDE} st =
      argloop (Suc (Suc m)) sys ?p 0 2 False (xpos st) False {EXP_FULL} st"
    by (simp only: argstr_plain_flags [OF tilde])
  also have "\<dots> = Inr (None, xappend [NUL] (xrecord 0 (length (memtodest False True True v)) False
      (xappend (memtodest False True True v) (st\<lparr>xsh := sh'\<rparr>))))"
    using assms by (simp add: argloop_var argloop_end evalvar_name Let_def)
  finally show ?thesis by simp
qed

text \<open>
  C8: \<open>"$x"\<close> of a variable that is set gives exactly one argument, the value: it is neither split nor
  taken for a pattern, whatever characters it has, whatever \<open>IFS\<close> is and whatever files there are.
\<close>

theorem quoted_variable_is_one_argument:
  assumes "variable_name n" and "lookupvar n (xsh st) = (Some v, sh')" and "NUL \<notin> set v" and "xregs st = []"
  shows "\<exists>st'. expandarg sys ([CTLQUOTEMARK, CTLVAR, CHR ''!''] @ n @ ''='' @ [CTLQUOTEMARK]) backq {EXP_FULL, EXP_TILDE} st =
      Inr ([v], st') \<and> xsh st' = sh' \<and> xregs st' = []"
proof -
  let ?s = "[CTLQUOTEMARK] @ quoted_text v @ [CTLQUOTEMARK]"
  have "NUL \<notin> set ?s" using quoted_text_no_nul [OF assms(3)] by simp
  then have "buf_text (?s @ [NUL]) 0 = ?s"
    using buf_text_at [of ?s "[]" "[]"] by simp
  then have "ifsbreakup ifs (?s @ [NUL]) (- 1) [] = Inr [?s]" for ifs
    by (simp add: ifsbreakup_def rd_def)
  moreover have "expand_name sys sh' ?s = Inr [v]"
    by (rule expand_name_marked) (simp_all add: marked_def assms(3))
  ultimately show ?thesis
    using argstr_quoted_var [OF assms(1), of "start_word backq st" v sh' sys] assms(2,4)
    by (simp add: expandarg_def start_word_def ifsfree_def)
qed

text \<open>Without control characters the text of an unquoted value is the value.\<close>

definition no_ctl :: "string \<Rightarrow> bool" where
  "no_ctl v = (\<forall>c \<in> set v. BASESYNTAX (schar c) \<noteq> CCTL \<and> c \<noteq> NUL)"

lemma memtodest_no_ctl: "no_ctl v \<Longrightarrow> memtodest False True True v = v"
  by (induction v) (simp_all add: no_ctl_def memtodest_simps)

lemma no_ctl_chars: "no_ctl v \<Longrightarrow> NUL \<notin> set v \<and> CTLESC \<notin> set v \<and> CTLQUOTEMARK \<notin> set v"
  using ctl_class by (auto simp: no_ctl_def)

lemma rmescapes_loop_id: "CTLESC \<notin> set v \<Longrightarrow> CTLQUOTEMARK \<notin> set v \<Longrightarrow> rmescapes_loop False False v = Inr v"
  by (induction v) auto

lemma rmescapes_id: "CTLESC \<notin> set v \<Longrightarrow> CTLQUOTEMARK \<notin> set v \<Longrightarrow> rmescapes False v = Inr v"
  by (simp add: rmescapes_is_loop rmescapes_loop_id)

lemma set_after_delimiter: "set (after_delimiter ifs s) \<subseteq> set s"
  by (auto simp: after_delimiter_def split: list.splits dest!: set_dropWhileD arg_cong [where f = set])

lemma set_fields: "f \<in> set (fields ifs s) \<Longrightarrow> set f \<subseteq> set s"
proof -
  have "f \<in> set (split_fields ifs s) \<Longrightarrow> set f \<subseteq> set s" for s
  proof (induction ifs s rule: split_fields.induct)
    case (2 ifs c s)
    then show ?case
      using set_after_delimiter [of ifs "dropWhile (\<lambda>x. x \<notin> set ifs) (c # s)"]
      by (auto dest: set_takeWhileD set_dropWhileD split: if_splits)
  qed simp
  then show "f \<in> set (fields ifs s) \<Longrightarrow> set f \<subseteq> set s"
    by (auto simp: fields_def dest: set_dropWhileD)
qed

lemma expandmeta_noglob:
  "fflag sh \<Longrightarrow> \<forall>f \<in> set fs. CTLESC \<notin> set f \<and> CTLQUOTEMARK \<notin> set f \<Longrightarrow> expandmeta sys sh fs = Inr fs"
  by (induction fs) (simp_all add: expand_name_def rmescapes_id)


section \<open>Examples\<close>

definition example_sys :: "(string, unit) expsys" where
  "example_sys =
     \<lparr>sys_rootpid = 42, sys_status = (\<lambda>_. 0), sys_bgpid = (\<lambda>_. 0), sys_arg0 = Some ''sh'',
      sys_backcmd = (\<lambda>c sh w. (c, w)), sys_pwhome = (\<lambda>_. None), sys_pmatch = (\<lambda>p s. p = s),
      sys_opendir = (\<lambda>_. Some [''a'']), sys_lstat = (\<lambda>_. True), sys_alloc = (\<lambda>_. 0), sys_ylval = Yval 0, sys_token = 0\<rparr>"

text \<open>A shell with \<open>set -f\<close>, three parameters and the variable \<open>PS1\<close>.\<close>

definition example_shell :: shell where
  "example_shell = (link_var 4 static_shell)\<lparr>shparam := [''a b'', [], ''*''], optlist := replicate NOPTS 1\<rparr>"

definition example_st :: "(string, unit) expst" where
  "example_st = \<lparr>xbuf = [], xregs = [], xbackq = [], xsh = example_shell, xworld = ()\<rparr>"

lemma example_lookup: "lookupvar ''PS1'' example_shell = (Some ''$ '', example_shell)"
proof -
  have find: "findvar ''PS1'' example_shell = Some 4" and "varmem example_shell 4 = varinit ! 4"
    by (code_simp, simp add: example_shell_def link_var_def static_shell_def Let_def)
  then show ?thesis
    by (simp add: lookupvar_def varinit_def text_of_def varnull_def vlineno_def)
qed

lemma example_text: "no_ctl ''$ ''" "fflag example_shell" "fields (realifs example_shell) ''$ '' = [''$'']"
  by code_simp+

lemma example_params: "shparam example_shell = [''a b'', [], ''*'']"
  by (simp add: example_shell_def)

theorem quoted_at_gives_parameters_witness:
  "\<exists>st'. expandarg example_sys dolatstr [] {EXP_FULL, EXP_TILDE} example_st = Inr ([''a b'', [], ''*''], st')"
  using quoted_at_gives_parameters [of example_st example_sys "[]"]
  by (auto simp: example_st_def example_params)

theorem quoted_variable_is_one_argument_witness:
  "\<exists>st'. expandarg example_sys ([CTLQUOTEMARK, CTLVAR, CHR ''!''] @ ''PS1='' @ [CTLQUOTEMARK]) [] {EXP_FULL, EXP_TILDE} example_st =
     Inr ([''$ ''], st')"
  using quoted_variable_is_one_argument [of "''PS1''" example_st "''$ ''" example_shell example_sys "[]"]
  by (auto simp: example_st_def example_lookup variable_name_def is_name_def isalpha_def less_eq_char_def)


end
