(* ===== verification/Sh_Word_Fuel.thy ===== *)
theory Sh_Word_Fuel
  imports Sh_Word Sh_Arith_Returns
begin

text \<open>
  The expansion of a word ends: the fuel of the loop over the text is never used up, whatever the text
  is, so that each word gives arguments or an error message.
\<close>

section \<open>Results that make progress\<close>

definition progress :: "string \<Rightarrow> shell_error + string option \<times> ('c, 'w) expst \<Rightarrow> bool" where
  "progress p res = (res \<noteq> Inl Sh_fuel \<and> (\<forall>r st. res = Inr (Some r, st) \<longrightarrow> length r < length p))"

lemma progress_simps [simp]:
  "progress p (Inl e) \<longleftrightarrow> e \<noteq> Sh_fuel" "progress p (Inr (None, st))" "progress p (Inr (Some r, st)) \<longleftrightarrow> length r < length p"
  by (simp_all add: progress_def)

lemma progress_mono: "progress q res \<Longrightarrow> length q \<le> length p \<Longrightarrow> progress p res"
  by (auto simp: progress_def)

lemma progress_bind:
  assumes "m \<noteq> Inl Sh_fuel" "\<And>x. m = Inr x \<Longrightarrow> progress p (f x)"
  shows "progress p (bindE m f)"
  using assms by (cases m) auto

lemma progress_bind_word:
  assumes "progress q m" "length q \<le> length p" "\<And>r st. \<lbrakk>m = Inr (r, st); \<And>r'. r = Some r' \<Longrightarrow> length r' < length q\<rbrakk> \<Longrightarrow> progress p (f (r, st))"
  shows "progress p (bindE m f)"
proof (cases m)
  case (Inr x)
  obtain r st where "x = (r, st)" by (cases x)
  then show ?thesis using Inr assms by (simp add: progress_def)
qed (use assms in auto)

lemma progress_if: "\<lbrakk>b \<Longrightarrow> progress p x; \<not> b \<Longrightarrow> progress p y\<rbrakk> \<Longrightarrow> progress p (if b then x else y)"
  by simp

lemma progress_prod: "(\<And>a b. x = (a, b) \<Longrightarrow> progress p (f a b)) \<Longrightarrow> progress p (case x of (a, b) \<Rightarrow> f a b)"
  by (cases x) simp

section \<open>Steps that have no fuel\<close>

lemma setvar_not_fuel: "setvar name val flags sh \<noteq> Inl Sh_fuel"
  using number_fuel
  by (auto simp: setvar_def setvareq_def set_existing_def call_varfunc_def getoptsreset_def monad_simps Let_def
      split: option.splits varfunc.splits if_splits)

lemma rmescapes_not_fuel: "rmescapes g s \<noteq> Inl Sh_fuel"
proof -
  have "rmescapes_loop g n p \<noteq> Inl Sh_fuel" for n p
    by (induction g n p rule: rmescapes_loop.induct) (auto simp: monad_simps split: list.splits)
  then show ?thesis by (auto simp: rmescapes_def Let_def monad_simps)
qed

lemma trim_value_not_fuel: "trim_value sys quotes subtype val pat \<noteq> Inl Sh_fuel"
  by (auto simp: trim_value_def Let_def monad_simps rmescapes_not_fuel)

lemma varvalue_not_fuel: "varvalue sys var subtype fl quoted st \<noteq> Inl Sh_fuel"
  by (auto simp: varvalue_def Let_def split: prod.splits)

lemma expbackq_not_fuel: "expbackq sys fl st \<noteq> Inl Sh_fuel"
  by (auto simp: expbackq_def Let_def split: list.splits prod.splits)

lemma exptilde_length: "exptilde sys p fl st = (q, st') \<Longrightarrow> length q \<le> length p"
  by (auto simp: exptilde_def Let_def split: if_splits prod.splits option.splits)

section \<open>The mutual calls\<close>

text \<open>\<open>A\<close> makes progress on the texts that are shorter than \<open>p\<close>.\<close>

definition below :: "string \<Rightarrow> ('c, 'w) word_fun \<Rightarrow> bool" where
  "below p A = (\<forall>q fl st. length q < length p \<longrightarrow> progress q (A q fl st))"

lemma subevalvar_progress:
  assumes "\<And>fl st. progress start (A start fl st)"
  shows "progress start (subevalvar sys A start str strloc startloc subtype vsnul fl st)"
  unfolding subevalvar_def
proof (rule progress_bind_word [OF assms le_refl])
  fix r :: "string option" and st1 :: "('a, 'b) expst"
  assume r: "\<And>r'. r = Some r' \<Longrightarrow> length r' < length start"
  have r': "progress start (Inr (r, st2))" for st2 :: "('a, 'b) expst"
    using r by (cases r) auto
  show "progress start (case (r, st1) of (p, st1) \<Rightarrow>
       if EXP_DISCARD \<in> fl then Inr (p, st1)
       else case str of
         Some var \<Rightarrow>
           if subtype = VSASSIGN then
             bindE (setvar var (Some (text_at startloc st1)) {} (xsh st1)) (\<lambda>(_, sh1).
               Inr (p, xcut startloc [] (st1\<lparr>xsh := sh1\<rparr>)))
           else Inl (varunset (take 1 start = [CTLENDVAR]) var (Some (text_at startloc st1)) vsnul)
       | None \<Rightarrow>
           bindE (trim_value sys (quotes_esc fl) subtype
                    (drop startloc (take (strloc - 1) (xbuf st1))) (text_at strloc st1)) (\<lambda>v.
             Inr (p, xcut startloc v st1)))"
    using r' by (auto simp: varunset_def setvar_not_fuel trim_value_not_fuel split: option.splits intro!: progress_bind)
qed

lemma eval_plain_progress:
  assumes "below p A" and "\<And>q. r = Some q \<Longrightarrow> length q < length p"
  shows "progress p (eval_plain sys A var r subtype vsnul fl startloc varlen st)"
proof (cases r)
  case None
  then show ?thesis by (simp add: eval_plain_def Let_def varunset_def)
next
  case (Some start)
  then have less: "length start < length p" using assms(2) by simp
  have word: "progress start (A start fl' st')" for fl' st'
    using assms(1) less by (simp add: below_def)
  have "progress p (bindE (subevalvar sys A start None strloc startloc subtype vsnul fl1 st1) (\<lambda>(p1, st2). Inr (p1, f st2)))"
    for strloc fl1 st1 f
    by (rule progress_bind_word [OF subevalvar_progress [of start A, OF word]])
      (use less in \<open>auto intro: less_trans split: option.splits simp: progress_def\<close>)
  then show ?thesis
    using less by (cases start) (auto simp: Some eval_plain_def Let_def varunset_def)
qed

lemma evalvar_progress:
  assumes "below p A"
  shows "progress p (evalvar sys A p fl st)"
proof (cases p)
  case Nil
  then show ?thesis by (simp add: evalvar_def)
next
  case (Cons c var)
  let ?q = "varnull var"
  have len: "length ?q < length p"
    using length_dropWhile_le [of "\<lambda>c. c \<noteq> CHR ''=''" var] by (simp add: varnull_def Cons)
  have word: "progress ?q (A ?q fl' st')" for fl' st'
    using assms len by (simp add: below_def)
  have words: "progress p (bindE (A ?q fl' st') (\<lambda>(p1, st2). Inr (p1, f st2)))" for fl' st' f
    by (rule progress_bind_word [OF word less_imp_le [OF len]])
      (use len in \<open>auto intro: less_trans simp: progress_def\<close>)
  have sub: "progress p (bindE (subevalvar sys A ?q str strloc startloc subtype vsnul fl' st') (\<lambda>(p1, st2).
      if b then Inr (p1, f st2) else bindE (varvalue sys var subtype fl quoted st2) (\<lambda>(len1, st3).
        eval_plain sys A var p1 VSNORMAL False fl startloc len1 st3)))"
    for str strloc startloc subtype vsnul fl' st' b f quoted
  proof (rule progress_bind_word [OF subevalvar_progress [of ?q A, OF word] less_imp_le [OF len]])
    fix r :: "string option" and st1 :: "('a, 'b) expst"
    assume "\<And>r'. r = Some r' \<Longrightarrow> length r' < length ?q"
    then have r: "\<And>r'. r = Some r' \<Longrightarrow> length r' < length p" using len by (blast intro: less_trans)
    then have "progress p (Inr (r, f st1))" by (cases r) auto
    then show "progress p (case (r, st1) of (p1, st2) \<Rightarrow>
      if b then Inr (p1, f st2) else bindE (varvalue sys var subtype fl quoted st2) (\<lambda>(len1, st3).
        eval_plain sys A var p1 VSNORMAL False fl startloc len1 st3))"
      using eval_plain_progress [OF assms r] by (auto intro!: progress_bind simp: varvalue_not_fuel)
  qed
  have plain: "progress p (eval_plain sys A var (Some ?q) subtype vsnul fl startloc varlen st')"
    for subtype vsnul startloc varlen st'
    by (rule eval_plain_progress [OF assms]) (simp add: len)
  show ?thesis
    unfolding evalvar_def list.case Let_def Cons [symmetric]
    by (subst (2) Cons) (simp only: list.case, intro progress_if progress_prod progress_bind [OF varvalue_not_fuel] words sub plain, simp)
qed

lemma expari_progress:
  assumes "progress p (A p (fl \<inter> {EXP_DISCARD}) st)"
  shows "progress p (expari sys A p fl st)"
  unfolding expari_def Let_def
proof (rule progress_bind_word [OF assms le_refl])
  fix r :: "string option" and st1 :: "('a, 'b) expst"
  assume "\<And>r'. r = Some r' \<Longrightarrow> length r' < length p"
  then have r': "progress p (Inr (r, st2))" for st2 :: "('a, 'b) expst" by (cases r) auto
  show "progress p (case (r, st1) of (p, st1) \<Rightarrow>
           if EXP_DISCARD \<in> fl then Inr (p, st1)
           else
             bindE (if quotes_esc fl then rmescapes False (text_at (xpos st) st1) else Inr (text_at (xpos st) st1)) (\<lambda>s.
                bindE (arith (sys_alloc sys) (sys_ylval sys) (sys_token sys) s (xsh (xcut (xpos st) [] st1))) (\<lambda>(result, sh1).
                  case cvtnum (sint result) fl (xcut (xpos st) [] st1\<lparr>xsh := sh1\<rparr>) of (len, st3) \<Rightarrow>
                    Inr (p, if EXP_QUOTED \<in> fl then st3 else xrecord (xpos st) (xpos st + len) False st3))))"
    using r' by (auto simp: rmescapes_not_fuel arith_not_fuel split: prod.splits intro!: progress_bind)
qed

section \<open>The loop\<close>

text \<open>What \<open>argloop\<close> is called with has a measure below the fuel.\<close>

definition fuelled :: "nat \<Rightarrow> ('c, 'w) expsys \<Rightarrow> bool" where
  "fuelled n sys = (\<forall>p pre nrej inquotes startloc breakall fl st. 0 < n \<longrightarrow> 2 * length p < n + pre \<longrightarrow>
     progress p (argloop n sys p pre nrej inquotes startloc breakall fl st))"

lemma fuelledD:
  assumes "fuelled n sys" "0 < n" "2 * length p < n + pre" "length p \<le> length q"
  shows "progress q (argloop n sys p pre nrej inquotes startloc breakall fl st)"
  using assms progress_mono unfolding fuelled_def by blast

lemma at_tilde_length: "at_tilde sys p fl st = (q, st') \<Longrightarrow> length q \<le> length p"
  by (auto simp: at_tilde_def dest: exptilde_length split: if_splits)

lemma argstr_with_progress:
  assumes "fuelled n sys" "2 * length p < n"
  shows "progress p (argstr_with (argloop n sys) sys p fl st)"
proof -
  obtain q st1 where q: "(if EXP_TILDE \<in> fl then at_tilde sys p (fl - {EXP_TILDE}) st else (p, st)) = (q, st1)"
    by (cases "if EXP_TILDE \<in> fl then at_tilde sys p (fl - {EXP_TILDE}) st else (p, st)")
  then have "length q \<le> length p" by (auto dest: at_tilde_length split: if_splits)
  then show ?thesis
    using assms(2) unfolding argstr_with_def Let_def q prod.case by (intro fuelledD [OF assms(1)]) simp_all
qed

text \<open>One turn: \<open>loop\<close> makes progress on what is behind \<open>plain\<close>, as a whole if it is not read again.\<close>

lemma arg_turn_progress:
  assumes loop: "\<And>q pre nrej inquotes startloc breakall fl st. here \<noteq> [] \<Longrightarrow> length q \<le> length here \<Longrightarrow> (pre = 0 \<longrightarrow> length q < length here) \<Longrightarrow>
      progress here (loop q pre nrej inquotes startloc breakall fl st)"
    and below: "below here (argstr_with loop sys)"
  shows "progress here (arg_turn loop sys plain here nrej inquotes startloc breakall fl st)"
proof (cases here)
  case Nil
  then show ?thesis by (simp add: arg_turn_def ends_word_def split: prod.splits)
next
  case (Cons c rest)
  have cont: "progress here (case p1 of None \<Rightarrow> Inl Sh_undefined | Some p2 \<Rightarrow> loop p2 0 nrej inquotes (xpos st1) breakall fl st1)"
    if "\<And>p2. p1 = Some p2 \<Longrightarrow> length p2 < length here" for p1 st1
    using that by (cases p1) (auto simp: Cons intro!: loop [unfolded Cons, simplified])
  have below_rest: "below q (argstr_with loop sys)" if "length q \<le> length rest" for q
    using below that by (auto simp: below_def Cons)
  have after: "progress here (bindE m (\<lambda>(p1, st1). case p1 of None \<Rightarrow> Inl Sh_undefined
      | Some p2 \<Rightarrow> loop p2 0 nrej inquotes (xpos st1) breakall fl st1))" if "progress rest m" for m
    using that by (rule progress_bind_word) (auto simp: Cons intro!: cont [unfolded Cons] dest: less_trans)
  have at: "progress here (bindE m (\<lambda>(p1, st2). case (case p1 of Some (_ # q) \<Rightarrow> Some q | _ \<Rightarrow> None, st2) of
      (p1, st1) \<Rightarrow> case p1 of None \<Rightarrow> Inl Sh_undefined
      | Some p2 \<Rightarrow> loop p2 0 nrej inquotes (xpos st1) breakall fl st1))" if "progress (drop 1 rest) m" for m
    using that by (rule progress_bind_word) (auto simp: Cons intro!: loop [unfolded Cons, simplified] split: option.splits list.splits)
  have var: "progress q (evalvar sys (argstr_with loop sys) q fl' st')" if "length q \<le> length rest" for q fl' st'
    by (rule evalvar_progress [OF below_rest [OF that]])
  have ari: "progress rest (expari sys (argstr_with loop sys) rest fl' st')" for fl' st'
    using below by (intro expari_progress) (simp add: below_def Cons)
  have again: "progress (x # rest) (loop q pre nrej iq sl ba fl st)"
    if "length q \<le> Suc (length rest)" "pre = 0 \<longrightarrow> length q < Suc (length rest)" for x q pre nrej iq sl ba fl st
    by (rule progress_mono [OF loop]) (use that in \<open>simp_all add: Cons\<close>)
  show ?thesis
    unfolding arg_turn_def Let_def Cons list.case drop_Suc_Cons One_nat_def drop_0
    by (intro progress_if progress_prod after [unfolded Cons] at [unfolded Cons One_nat_def] var ari
        progress_bind [OF expbackq_not_fuel])
      (auto intro!: again dest: exptilde_length)
qed

lemma fuelled_Suc:
  assumes "fuelled n sys"
  shows "fuelled (Suc n) sys"
  unfolding fuelled_def
proof (intro allI impI)
  fix p :: string and pre nrej :: nat and inquotes :: bool and startloc :: nat and breakall :: bool
    and fl :: "expflag set" and st :: "('a, 'b) expst"
  assume len: "2 * length p < Suc n + pre"
  let ?plain = "take pre p @ takeWhile (\<lambda>c. c \<noteq> NUL \<and> c \<notin> set (drop nrej spclchars)) (drop pre p)"
  let ?here = "drop (length ?plain) p"
  show "progress p (argloop (Suc n) sys p pre nrej inquotes startloc breakall fl st)"
  proof (cases "length p < pre")
    case True
    then show ?thesis by (simp add: argloop.simps)
  next
    case False
    then have k: "pre \<le> length ?plain" "length ?plain \<le> length p" 
      using length_takeWhile_le [of "\<lambda>c. c \<noteq> NUL \<and> c \<notin> set (drop nrej spclchars)" "drop pre p"] by auto
    have "progress ?here (arg_turn (argloop n sys) sys ?plain ?here nrej inquotes startloc breakall fl st)"
    proof (rule arg_turn_progress)
      fix q :: string and pre' nrej :: nat and iq :: bool and sl :: nat and ba :: bool and fl and st :: "('a, 'b) expst"
      assume "?here \<noteq> []" "length q \<le> length ?here" "pre' = 0 \<longrightarrow> length q < length ?here"
      then show "progress ?here (argloop n sys q pre' nrej iq sl ba fl st)"
        using len k by (intro fuelledD [OF assms]) (auto simp del: length_append)
    next
      show "below ?here (argstr_with (argloop n sys) sys)"
        unfolding below_def using len k by (auto simp del: length_append intro!: argstr_with_progress [OF assms])
    qed
    then show ?thesis
      using False k by (simp only: argloop.simps if_False Let_def) (rule progress_mono, assumption, simp)
  qed
qed

lemma fuelled: "fuelled n sys"
  by (induction n) (simp add: fuelled_def, rule fuelled_Suc)

lemma argstr_progress: "progress p (argstr sys p fl st)"
  unfolding argstr_def by (rule argstr_with_progress [OF fuelled]) (simp add: arg_fuel_def)

section \<open>Splitting and file names\<close>

lemma ifs_region_not_fuel: "ifs_region ifs nul e st \<noteq> Inl Sh_fuel"
proof (induction ifs nul e st rule: ifs_region.induct)
  case (1 ifs nul e st)
  have "ifs_turn ifs nul st \<noteq> Inl Sh_fuel"
    by (auto simp: ifs_turn_def rd_def monad_simps Let_def)
  then show ?case
    using "1.IH" by (subst ifs_region.simps) (auto simp: monad_simps)
qed

lemma ifs_regions_not_fuel: "ifs_regions ifs nul rs st \<noteq> Inl Sh_fuel"
  by (induction rs arbitrary: nul st) (auto simp: monad_simps ifs_region_not_fuel)

lemma ifsbreakup_not_fuel: "ifsbreakup ifs buf m rs \<noteq> Inl Sh_fuel"
  by (auto simp: ifsbreakup_def monad_simps ifs_regions_not_fuel rd_def Let_def split: prod.splits)

lemma expandmeta_not_fuel: "expandmeta sys sh ss \<noteq> Inl Sh_fuel"
  by (induction ss) (auto simp: monad_simps expand_name_def rmescapes_not_fuel Let_def)


end
