(* ===== verification/Sh_Input.thy ===== *)
theory Sh_Input
  imports Sh_Alias
begin

text \<open>
  The input of the parser (\<open>input.c\<close>, built with \<open>SMALL\<close>): a stack of files and strings; in each of them
  a stack of strings that were pushed in front of the text, aliases above all; and up to two characters
  that were put back. \<open>None\<close> is \<open>PEOF\<close>. What \<open>read\<close> will return is part of the state.

  The lemmas: for its reader the input is one list of characters, which \<open>pgetc\<close> takes from,
  \<open>pungetc\<close> puts back to and \<open>pushstring\<close> adds to.
\<close>

section \<open>The code\<close>

datatype kwdflag = CHKALIAS | CHKKWD | CHKNL | CHKEOFMARK

text \<open>
  What \<open>pushstring\<close> saves: the rest of the text, the last characters and their number to read again,
  the alias, and the strings that wait to be freed, of which only the aliases matter.
\<close>

record strpush =
  sp_prev :: string
  sp_unget :: nat
  sp_lastc :: "char option \<times> char option"
  sp_ap :: "nat option"
  sp_spfree :: "nat option list"

text \<open>\<open>pf_reads\<close>: none for a string, else the results of \<open>read\<close>; the empty one is the end of the file.\<close>

record parsefile =
  pf_next :: string
  pf_reads :: "string list option"
  pf_strpush :: "strpush list"
  pf_spfree :: "nat option list"
  pf_lastc :: "char option \<times> char option"
  pf_unget :: nat
  pf_linno :: nat

record inputst =
  in_file :: parsefile
  in_prev :: "parsefile list"
  in_aliases :: aliases
  in_kwd :: "kwdflag set"

definition upd_file :: "(parsefile \<Rightarrow> parsefile) \<Rightarrow> 'a inputst_scheme \<Rightarrow> 'a inputst_scheme" where
  "upd_file f st = st\<lparr>in_file := f (in_file st)\<rparr>"

definition freestrings :: "'a inputst_scheme \<Rightarrow> 'a inputst_scheme" where
  "freestrings st =
     upd_file (\<lambda>f. f\<lparr>pf_spfree := []\<rparr>)
       (st\<lparr>in_aliases := fold (\<lambda>ap al. case ap of None \<Rightarrow> al | Some a \<Rightarrow> release_alias a al)
          (pf_spfree (in_file st)) (in_aliases st)\<rparr>)"

text \<open>
  The character before \<open>nextc\<close> is the last one that was read, as the text of an alias is not empty.
\<close>

definition popstring :: "'a inputst_scheme \<Rightarrow> 'a inputst_scheme" where
  "popstring st =
     (case pf_strpush (in_file st) of
        [] \<Rightarrow> st
      | sp # sps \<Rightarrow>
        let blank = (sp_ap sp \<noteq> None \<and>
              (fst (pf_lastc (in_file st)) = Some (CHR '' '') \<or> fst (pf_lastc (in_file st)) = Some tab_chr))
        in upd_file (\<lambda>f. f\<lparr>pf_next := sp_prev sp, pf_unget := sp_unget sp, pf_lastc := sp_lastc sp,
               pf_strpush := sps, pf_spfree := sp_ap sp # sp_spfree sp\<rparr>)
             (st\<lparr>in_kwd := (if blank then insert CHKALIAS (in_kwd st) else in_kwd st)\<rparr>))"

definition pushstring :: "string \<Rightarrow> nat option \<Rightarrow> 'a inputst_scheme \<Rightarrow> 'a inputst_scheme" where
  "pushstring s ap st =
     upd_file (\<lambda>f. f\<lparr>pf_strpush := \<lparr>sp_prev = pf_next f, sp_unget = pf_unget f, sp_lastc = pf_lastc f,
           sp_ap = ap, sp_spfree = pf_spfree f\<rparr> # pf_strpush f,
         pf_next := s, pf_unget := 0, pf_spfree := []\<rparr>)
       (st\<lparr>in_aliases := (case ap of None \<Rightarrow> in_aliases st | Some a \<Rightarrow> use_alias a (in_aliases st))\<rparr>)"

text \<open>A read that brings nothing but null characters is followed by another.\<close>

fun read_chunk :: "string list \<Rightarrow> string \<times> string list" where
  "read_chunk [] = ([], [])"
| "read_chunk (b # bs) =
     (if b = [] then ([], bs)
      else let s = filter (\<lambda>c. c \<noteq> CHR 0x00) b in if s = [] then read_chunk bs else (s, bs))"

definition shift_lastc :: "char option \<Rightarrow> 'a inputst_scheme \<Rightarrow> 'a inputst_scheme" where
  "shift_lastc c = upd_file (\<lambda>f. f\<lparr>pf_lastc := (c, fst (pf_lastc f))\<rparr>)"

text \<open>
  \<open>__pgetc\<close> and \<open>preadbuffer\<close>. When a pushed string is at its end the call is repeated for the text
  behind it, and the last characters are shifted again.
\<close>

function pgetc_raw :: "'a inputst_scheme \<Rightarrow> char option \<times> 'a inputst_scheme" where
  "pgetc_raw st =
     (let f = in_file st
      in if 0 < pf_unget f then
           (if pf_unget f = 1 then fst (pf_lastc f) else snd (pf_lastc f),
            upd_file (\<lambda>f. f\<lparr>pf_unget := pf_unget f - 1\<rparr>) st)
         else case pf_next f of
           c # r \<Rightarrow> (Some c, shift_lastc (Some c) (upd_file (\<lambda>f. f\<lparr>pf_next := r\<rparr>) st))
         | [] \<Rightarrow>
           if pf_strpush f \<noteq> [] then (case pgetc_raw (popstring st) of (c, st1) \<Rightarrow> (c, shift_lastc c st1))
           else case pf_reads f of
             None \<Rightarrow> (None, shift_lastc None st)
           | Some bs \<Rightarrow>
             (case read_chunk bs of
                ([], bs1) \<Rightarrow> (None, shift_lastc None (upd_file (\<lambda>f. f\<lparr>pf_reads := Some bs1\<rparr>) st))
              | (c # r, bs1) \<Rightarrow>
                (Some c, shift_lastc (Some c) (upd_file (\<lambda>f. f\<lparr>pf_next := r, pf_reads := Some bs1\<rparr>) st))))"
  by pat_completeness auto
termination
  by (relation "measure (\<lambda>st. length (pf_strpush (in_file st)))")
    (auto simp: popstring_def upd_file_def Let_def split: list.splits)

declare pgetc_raw.simps [simp del]

definition pgetc :: "'a inputst_scheme \<Rightarrow> char option \<times> 'a inputst_scheme" where
  "pgetc st = pgetc_raw (freestrings st)"

definition pungetc :: "'a inputst_scheme \<Rightarrow> 'a inputst_scheme" where
  "pungetc = upd_file (\<lambda>f. f\<lparr>pf_unget := pf_unget f + 1\<rparr>)"

text \<open>\<open>pushfile\<close> and \<open>setinputstring\<close>. \<open>lastc\<close> is not set in the new entry.\<close>

definition string_file :: "string \<Rightarrow> parsefile" where
  "string_file s =
     \<lparr>pf_next = s, pf_reads = None, pf_strpush = [], pf_spfree = [], pf_lastc = (None, None), pf_unget = 0, pf_linno = 1\<rparr>"

definition setinputstring :: "string \<Rightarrow> 'a inputst_scheme \<Rightarrow> 'a inputst_scheme" where
  "setinputstring s st = st\<lparr>in_prev := in_file st # in_prev st, in_file := string_file s\<rparr>"

text \<open>\<open>setinputfd\<close> with \<open>INPUT_PUSH_FILE\<close>; \<open>bs\<close> is what \<open>read\<close> will return.\<close>

definition setinputfd :: "string list \<Rightarrow> 'a inputst_scheme \<Rightarrow> 'a inputst_scheme" where
  "setinputfd bs st = st\<lparr>in_prev := in_file st # in_prev st, in_file := (string_file [])\<lparr>pf_reads := Some bs\<rparr>\<rparr>"

function pop_strings :: "'a inputst_scheme \<Rightarrow> 'a inputst_scheme" where
  "pop_strings st = (if pf_strpush (in_file st) = [] then st else pop_strings (freestrings (popstring st)))"
  by pat_completeness auto
termination
  by (relation "measure (\<lambda>st. length (pf_strpush (in_file st)))")
    (auto simp: freestrings_def popstring_def upd_file_def Let_def split: list.splits)

declare pop_strings.simps [simp del]

definition popfile :: "'a inputst_scheme \<Rightarrow> 'a inputst_scheme" where
  "popfile st =
     (let st1 = pop_strings (freestrings st)
      in case in_prev st1 of [] \<Rightarrow> st1 | f # fs \<Rightarrow> st1\<lparr>in_file := f, in_prev := fs\<rparr>)"

definition unwindfiles :: "nat \<Rightarrow> 'a inputst_scheme \<Rightarrow> 'a inputst_scheme" where
  "unwindfiles stop st = (popfile ^^ (length (in_prev st) - stop)) st"

definition popallfiles :: "'a inputst_scheme \<Rightarrow> 'a inputst_scheme" where
  "popallfiles = unwindfiles 0"

section \<open>The input is a list of characters\<close>

definition ungot :: "nat \<Rightarrow> char option \<times> char option \<Rightarrow> char option list" where
  "ungot n l = (if n = 0 then [] else if n = 1 then [fst l] else [snd l, fst l])"

definition strpush_text :: "strpush \<Rightarrow> char option list" where
  "strpush_text sp = ungot (sp_unget sp) (sp_lastc sp) @ map Some (sp_prev sp)"

definition reads_text :: "string list option \<Rightarrow> string" where
  "reads_text r = (case r of None \<Rightarrow> [] | Some bs \<Rightarrow> filter (\<lambda>c. c \<noteq> CHR 0x00) (concat bs))"

definition file_text :: "parsefile \<Rightarrow> char option list" where
  "file_text f =
     ungot (pf_unget f) (pf_lastc f) @ map Some (pf_next f) @ concat (map strpush_text (pf_strpush f)) @
     map Some (reads_text (pf_reads f))"

abbreviation upcoming :: "'a inputst_scheme \<Rightarrow> char option list" where
  "upcoming st \<equiv> file_text (in_file st)"

text \<open>
  At most two characters are put back, one of them when a string is pushed, and the end of a file is
  met once.
\<close>

definition regular_file :: "parsefile \<Rightarrow> bool" where
  "regular_file f \<longleftrightarrow> pf_unget f \<le> 2 \<and> (\<forall>sp \<in> set (pf_strpush f). sp_unget sp \<le> 1) \<and>
     (\<forall>bs. pf_reads f = Some bs \<longrightarrow> [] \<notin> set bs)"

abbreviation regular :: "'a inputst_scheme \<Rightarrow> bool" where
  "regular st \<equiv> regular_file (in_file st)"

lemma in_file_simps [simp]:
  "in_file (upd_file f st) = f (in_file st)" "in_aliases (upd_file f st) = in_aliases st"
  "in_kwd (upd_file f st) = in_kwd st" "in_prev (upd_file f st) = in_prev st"
  by (simp_all add: upd_file_def)

lemma freestrings_text [simp]: "upcoming (freestrings st) = upcoming st" "regular (freestrings st) = regular st"
  by (simp_all add: freestrings_def file_text_def regular_file_def)

lemma read_chunk_text:
  "[] \<notin> set bs \<Longrightarrow> read_chunk bs = (s, bs') \<Longrightarrow>
   reads_text (Some bs) = s @ reads_text (Some bs') \<and> [] \<notin> set bs' \<and> (s = [] \<longrightarrow> bs' = [])"
  by (induction bs) (auto simp: reads_text_def Let_def split: if_splits)

text \<open>What a call takes and what it leaves, so that the character may be put back.\<close>

definition took :: "char option \<Rightarrow> char option list \<Rightarrow> parsefile \<Rightarrow> bool" where
  "took c old f \<longleftrightarrow> regular_file f \<and>
     (case old of [] \<Rightarrow> c = None \<and> file_text f = [] | x # r \<Rightarrow> c = x \<and> file_text f = r) \<and>
     pf_unget f \<le> 1 \<and> (if pf_unget f = 0 then fst (pf_lastc f) else snd (pf_lastc f)) = c"

lemma took_shift:
  "took c old f \<Longrightarrow> pf_unget f = 0 \<Longrightarrow> took c old (f\<lparr>pf_lastc := (c, x)\<rparr>)"
  by (auto simp: took_def regular_file_def file_text_def ungot_def split: list.splits)

lemma pgetc_raw_took:
  "regular st \<Longrightarrow> pgetc_raw st = (c, st') \<Longrightarrow>
   took c (upcoming st) (in_file st') \<and> (pf_unget (in_file st) \<le> 1 \<longrightarrow> pf_unget (in_file st') = 0)"
proof (induction st arbitrary: c st' rule: pgetc_raw.induct)
  case (1 st)
  let ?f = "in_file st"
  consider (unget) "0 < pf_unget ?f" | (plain) c' r where "pf_unget ?f = 0" "pf_next ?f = c' # r"
    | (pop) sp sps where "pf_unget ?f = 0" "pf_next ?f = []" "pf_strpush ?f = sp # sps"
    | (str) "pf_unget ?f = 0" "pf_next ?f = []" "pf_strpush ?f = []" "pf_reads ?f = None"
    | (read) bs where "pf_unget ?f = 0" "pf_next ?f = []" "pf_strpush ?f = []" "pf_reads ?f = Some bs"
    by (cases "pf_next ?f"; cases "pf_strpush ?f"; cases "pf_reads ?f") auto
  then show ?case
  proof cases
    case unget
    then show ?thesis
      using "1.prems" by (subst (asm) pgetc_raw.simps) (auto simp: took_def regular_file_def file_text_def ungot_def Let_def split: if_splits)
  next
    case plain
    then show ?thesis
      using "1.prems"
      by (subst (asm) pgetc_raw.simps) (auto simp: took_def regular_file_def file_text_def ungot_def shift_lastc_def Let_def)
  next
    case pop
    obtain c1 st1 where raw: "pgetc_raw (popstring st) = (c1, st1)" by (cases "pgetc_raw (popstring st)")
    have "regular (popstring st)" "upcoming (popstring st) = upcoming st" "pf_unget (in_file (popstring st)) \<le> 1"
      using pop "1.prems"(1)
      by (auto simp: popstring_def regular_file_def file_text_def strpush_text_def ungot_def Let_def)
    moreover from this have "took c1 (upcoming (popstring st)) (in_file st1) \<and> (pf_unget (in_file (popstring st)) \<le> 1 \<longrightarrow> pf_unget (in_file st1) = 0)"
      by (intro "1.IH" [OF refl _ pop(2)]) (use pop raw in simp_all)
    moreover have "c = c1" "st' = shift_lastc c1 st1"
      using "1.prems"(2) pop raw by (subst (asm) pgetc_raw.simps, simp)+
    ultimately show ?thesis
      using took_shift [of c1 "upcoming st" "in_file st1"] by (simp add: shift_lastc_def)
  next
    case str
    then show ?thesis
      using "1.prems"
      by (subst (asm) pgetc_raw.simps) (auto simp: took_def regular_file_def file_text_def ungot_def shift_lastc_def reads_text_def)
  next
    case read
    then show ?thesis
      using "1.prems" read_chunk_text [of bs]
      by (subst (asm) pgetc_raw.simps)
        (auto simp: took_def regular_file_def file_text_def ungot_def shift_lastc_def reads_text_def split: list.splits prod.splits)
  qed
qed

text \<open>
  C40: For its reader the input is one list of characters, through all the pushed strings, put back
  characters and refilled buffers: \<open>pgetc\<close> takes the first one, or \<open>PEOF\<close> at the end, \<open>pungetc\<close> after it puts
  just this character back, and \<open>pushstring\<close> writes in front of the list.
\<close>

theorem input_is_a_list:
  assumes "regular st"
  shows "(case pgetc st of (c, st') \<Rightarrow> regular st' \<and>
      (case upcoming st of [] \<Rightarrow> c = None \<and> upcoming st' = [] | x # r \<Rightarrow> c = x \<and> upcoming st' = r) \<and>
      regular (pungetc st') \<and> upcoming (pungetc st') = c # upcoming st') \<and>
    upcoming (pushstring s ap st) = map Some s @ upcoming st \<and>
    (pf_unget (in_file st) \<le> 1 \<longrightarrow> regular (pushstring s ap st))"
proof -
  obtain c st' where "pgetc st = (c, st')" by (cases "pgetc st")
  moreover from this have "took c (upcoming st) (in_file st')"
    using pgetc_raw_took [of "freestrings st" c st'] assms by (simp add: pgetc_def)
  ultimately show ?thesis
    using assms
    by (auto simp: took_def pungetc_def pushstring_def regular_file_def file_text_def strpush_text_def ungot_def
        split: if_splits list.splits)
qed

theorem input_is_a_list_witness:
  "\<exists>c st'. pgetc \<lparr>in_file = string_file ''ls'', in_prev = [], in_aliases = undefined, in_kwd = {}\<rparr> = (c, st') \<and>
     c = Some (CHR ''l'') \<and> upcoming st' = [Some (CHR ''s'')]"
proof -
  let ?st = "\<lparr>in_file = string_file ''ls'', in_prev = [], in_aliases = undefined, in_kwd = {}\<rparr>"
  have "regular ?st" "upcoming ?st = [Some (CHR ''l''), Some (CHR ''s'')]"
    by (simp_all add: regular_file_def string_file_def file_text_def ungot_def reads_text_def)
  then show ?thesis
    using input_is_a_list [of ?st "[]" None] by (cases "pgetc ?st") auto
qed

end
