(* ===== verification/Sh_Lexer.thy ===== *)
theory Sh_Lexer
  imports Sh_Input Sh_Expand Sh_Eval
begin

text \<open>
  The lexical analysis of the shell (\<open>parser.c\<close>): \<open>readtoken1\<close> reads a word or a here document and leaves
  its text with control characters for the expansion; \<open>xxreadtoken\<close> reads a token; \<open>readtoken\<close> knows
  keywords and aliases. Prompts (\<open>doprompt\<close>) and \<open>ATTY\<close> are not modelled. An error is the result, with
  no state: whoever catches it leaves the input.

  Commands in words are parsed by \<open>B\<close>, an argument here (\<open>parsebackq\<close> of \<open>Sh_Parser\<close>). The loops have fuel.
\<close>

section \<open>Trees\<close>

text \<open>
  The nodes of \<open>nodetypes\<close> below the commands, which are those of \<open>Sh_Eval\<close>. A missing command is \<open>Null\<close>.
  A here document is read after the line of its redirection: \<open>NHERE\<close> has its number, \<open>p_docs\<close> the texts.
  \<open>NDUP\<close> has what stands in \<open>dupfd\<close> or in \<open>vname\<close>; its first argument tells \<open>NTOFD\<close> from \<open>NFROMFD\<close>, that of
  \<open>NHERE\<close> tells \<open>NXHERE\<close> from \<open>NHERE\<close>.
\<close>

datatype filekind = NTO | NCLOBBER | NFROM | NFROMTO | NAPPEND

datatype arg = NARG string "(arg, redir list) cmdtree list"
and redir =
    NFILE filekind int arg
  | NDUP bool int "int + arg"
  | NHERE bool int nat

type_synonym tree = "(arg, redir list) cmdtree"

datatype sh_token =
    TEOF | TNL | TSEMI | TBACKGND | TAND | TOR | TPIPE | TLP | TRP | TENDCASE | TENDBQUOTE | TREDIR | TWORD
  | TNOT | TCASE | TDO | TDONE | TELIF | TELSE | TESAC | TFI | TFOR | TIF | TIN | TTHEN | TUNTIL | TWHILE
  | TBEGIN | TEND

text \<open>What \<open>parseredir\<close> makes; \<open>parsefname\<close> completes it. A here document has \<open>striptabs\<close>.\<close>

datatype redirop = Rfile filekind int | Rdup bool int | Rhere int bool

text \<open>\<open>p_unset\<close> is what the fields of a new node hold that are not set; the parser only copies it.\<close>

record heredoc =
  h_id :: nat
  h_expand :: bool
  h_eofmark :: string
  h_striptabs :: bool

record pst = inputst +
  p_pushback :: bool
  p_lasttoken :: sh_token
  p_wordtext :: string
  p_backq :: "tree list"
  p_quoteflag :: nat
  p_redir :: redirop
  p_heredocs :: "heredoc list"
  p_nhere :: nat
  p_docs :: "(nat \<times> arg) list"
  p_unset :: int

definition synerror :: "string \<Rightarrow> shell_error" where
  "synerror msg = Sh_error (''Syntax error: '' @ msg)"

definition set_kwd :: "kwdflag set \<Rightarrow> 'a inputst_scheme \<Rightarrow> 'a inputst_scheme" where
  "set_kwd k st = st\<lparr>in_kwd := k\<rparr>"

text \<open>\<open>nlprompt\<close> and \<open>nlnoprompt\<close>.\<close>

definition next_line :: "'a inputst_scheme \<Rightarrow> 'a inputst_scheme" where
  "next_line = upd_file (\<lambda>f. f\<lparr>pf_linno := pf_linno f + 1\<rparr>)"

abbreviation backslash :: char where "backslash \<equiv> CHR 0x5C"
abbreviation backquote :: char where "backquote \<equiv> CHR 0x60"

primrec pgetc_eatbnl :: "nat \<Rightarrow> 'a inputst_scheme \<Rightarrow> shell_error + char option \<times> 'a inputst_scheme" where
  "pgetc_eatbnl 0 st = Inl Sh_fuel"
| "pgetc_eatbnl (Suc n) st =
     (case pgetc st of (c, st1) \<Rightarrow>
        if c \<noteq> Some backslash then Inr (c, st1)
        else case pgetc st1 of (d, st2) \<Rightarrow>
          if d \<noteq> Some newline_chr then Inr (c, pungetc st2) else pgetc_eatbnl n (next_line st2))"

section \<open>The state of \<open>readtoken1\<close>\<close>

datatype synkind = BASE_SYN | DQ_SYN | SQ_SYN | ARI_SYN

fun syntax_of :: "synkind \<Rightarrow> int \<Rightarrow> synclass" where
  "syntax_of BASE_SYN = BASESYNTAX"
| "syntax_of DQ_SYN = DQSYNTAX"
| "syntax_of SQ_SYN = SQSYNTAX"
| "syntax_of ARI_SYN = ARISYNTAX"

definition char_class :: "synkind \<Rightarrow> char option \<Rightarrow> synclass" where
  "char_class k c = syntax_of k (case c of None \<Rightarrow> PEOF | Some x \<Rightarrow> schar x)"

record synstack =
  ss_syntax :: synkind
  ss_innerdq :: bool
  ss_varpushed :: bool
  ss_dblquote :: bool
  ss_varnest :: nat
  ss_parenlevel :: nat
  ss_dqvarnest :: nat

definition new_synstack :: "synkind \<Rightarrow> synstack" where
  "new_synstack k =
     \<lparr>ss_syntax = k, ss_innerdq = False, ss_varpushed = False, ss_dblquote = False, ss_varnest = 0,
      ss_parenlevel = 0, ss_dqvarnest = 0\<rparr>"

text \<open>\<open>lx_stack\<close> has the present entry first.\<close>

record lexst =
  lx_out :: string
  lx_quotef :: nat
  lx_bq :: "tree list"
  lx_stack :: "synstack list"

datatype eofmark = No_mark | Fake_mark | Mark string

abbreviation lx_top :: "lexst \<Rightarrow> synstack" where
  "lx_top lx \<equiv> hd (lx_stack lx)"

definition lx_put :: "string \<Rightarrow> lexst \<Rightarrow> lexst" where
  "lx_put s lx = lx\<lparr>lx_out := lx_out lx @ s\<rparr>"

definition lx_set :: "(synstack \<Rightarrow> synstack) \<Rightarrow> lexst \<Rightarrow> lexst" where
  "lx_set f lx = lx\<lparr>lx_stack := f (lx_top lx) # tl (lx_stack lx)\<rparr>"

definition synstack_push :: "synstack \<Rightarrow> lexst \<Rightarrow> lexst" where
  "synstack_push s lx = lx\<lparr>lx_stack := s # lx_stack lx\<rparr>"

definition synstack_pop :: "lexst \<Rightarrow> lexst" where
  "synstack_pop lx = lx\<lparr>lx_stack := tl (lx_stack lx)\<rparr>"

text \<open>Behind a turn of the loop the next character is read; behind a newline a new line starts.\<close>

datatype lexturn = Next_char lexst pst | Next_line lexst pst | End_word

definition pgetc_top :: "nat \<Rightarrow> lexst \<Rightarrow> pst \<Rightarrow> shell_error + char option \<times> pst" where
  "pgetc_top n lx st = (if ss_syntax (lx_top lx) = SQ_SYN then Inr (pgetc st) else pgetc_eatbnl n st)"

section \<open>Here documents\<close>

primrec skip_tabs :: "nat \<Rightarrow> char option \<Rightarrow> pst \<Rightarrow> shell_error + char option \<times> pst" where
  "skip_tabs 0 c st = Inl Sh_fuel"
| "skip_tabs (Suc n) c st =
     (if c \<noteq> Some tab_chr then Inr (c, st) else case pgetc st of (d, st1) \<Rightarrow> skip_tabs n d st1)"

text \<open>The characters that were compared, whether all of the mark was there, and the character behind.\<close>

fun match_mark :: "string \<Rightarrow> char option \<Rightarrow> char option list \<Rightarrow> pst \<Rightarrow> char option list \<times> bool \<times> char option \<times> pst" where
  "match_mark [] c t st = (t @ [c], True, c, st)"
| "match_mark (m # ms) c t st =
     (if c \<noteq> Some m then (t @ [c], False, c, st)
      else case pgetc st of (d, st1) \<Rightarrow> match_mark ms d (t @ [c]) st1)"

definition c_negative :: "char option \<Rightarrow> bool" where
  "c_negative c = (case c of None \<Rightarrow> True | Some x \<Rightarrow> schar x < 0)"

text \<open>\<open>checkend\<close>: a character that is stored from \<open>PEOF\<close> is 0x7f.\<close>

definition stored :: "char option \<Rightarrow> char" where
  "stored c = (case c of None \<Rightarrow> CHR 0x7F | Some x \<Rightarrow> x)"

definition checkend :: "nat \<Rightarrow> eofmark \<Rightarrow> bool \<Rightarrow> char option \<Rightarrow> pst \<Rightarrow> shell_error + char option \<times> pst" where
  "checkend n mark striptabs c0 st0 =
     (case mark of
        Mark m \<Rightarrow>
          bindE (if striptabs then skip_tabs n c0 st0 else Inr (c0, st0)) (\<lambda>(c1, st1).
            case match_mark m c1 [] st1 of (t, found, c, st) \<Rightarrow>
              if found \<and> (c = Some newline_chr \<or> c = None) then Inr (None, next_line st)
              else
                let len = length t - 1; len1 = len - of_bool (c_negative c); s = map stored (take len1 (drop 1 t))
                in if len = 0 then Inr (c, st)
                   else Inr (Some (stored (hd t)), if len1 = 0 then st else pushstring s None st))
      | _ \<Rightarrow> Inr (c0, st0))"

section \<open>Quotes, braces and parentheses\<close>

type_synonym backq_fun = "bool \<Rightarrow> pst \<Rightarrow> shell_error + tree \<times> pst"

text \<open>The labels \<open>quotemark\<close> and \<open>toggledq\<close>.\<close>

definition quotemark :: "eofmark \<Rightarrow> lexst \<Rightarrow> lexst" where
  "quotemark mark lx = (if mark = No_mark then lx_put [CTLQUOTEMARK] lx else lx)"

definition toggledq :: "eofmark \<Rightarrow> lexst \<Rightarrow> lexst" where
  "toggledq mark lx =
     quotemark mark (lx_set (\<lambda>s. if 0 < ss_varnest s then s\<lparr>ss_innerdq := \<not> ss_innerdq s\<rparr> else s) lx)"

definition start_squote :: "eofmark \<Rightarrow> lexst \<Rightarrow> lexst" where
  "start_squote mark lx = quotemark mark (lx_set (\<lambda>s. s\<lparr>ss_syntax := SQ_SYN\<rparr>) lx)"

definition start_dquote :: "eofmark \<Rightarrow> lexst \<Rightarrow> lexst" where
  "start_dquote mark lx = toggledq mark (lx_set (\<lambda>s. s\<lparr>ss_syntax := DQ_SYN, ss_dblquote := True\<rparr>) lx)"

definition end_quote :: "eofmark \<Rightarrow> char \<Rightarrow> lexst \<Rightarrow> lexst" where
  "end_quote mark c lx =
     (if mark \<noteq> No_mark \<and> ss_varnest (lx_top lx) = 0 then lx_put [c] lx
      else
        let lx1 = lx_set (\<lambda>s. if ss_dqvarnest s = 0 then s\<lparr>ss_syntax := BASE_SYN, ss_dblquote := False\<rparr> else s)
                    (lx\<lparr>lx_quotef := lx_quotef lx + 1\<rparr>)
        in if c = dquote_chr then toggledq mark lx1 else quotemark mark lx1)"

definition end_var :: "char \<Rightarrow> lexst \<Rightarrow> lexst" where
  "end_var c lx =
     (let s = lx_top lx
      in if \<not> ss_innerdq s \<and> 0 < ss_varnest s then
           let lx1 = lx_set (\<lambda>s. s\<lparr>ss_varnest := ss_varnest s - 1\<rparr>) lx;
               lx2 = (if ss_varnest s = 1 \<and> ss_varpushed s then synstack_pop lx1
                      else if 0 < ss_dqvarnest s then lx_set (\<lambda>s. s\<lparr>ss_dqvarnest := ss_dqvarnest s - 1\<rparr>) lx1
                      else lx1)
           in lx_put [CTLENDVAR] lx2
         else lx_put [c] lx)"

text \<open>A backslash keeps its meaning in double quotes before a few characters only.\<close>

definition keeps_backslash :: "eofmark \<Rightarrow> synstack \<Rightarrow> char \<Rightarrow> bool" where
  "keeps_backslash mark s c =
     (ss_dblquote s \<and> c \<noteq> backslash \<and> c \<noteq> backquote \<and> c \<noteq> CHR ''$'' \<and>
      (c \<noteq> dquote_chr \<or> mark \<noteq> No_mark \<and> ss_varnest s = 0) \<and> (c \<noteq> CHR ''}'' \<or> ss_varnest s = 0))"

definition put_escaped :: "eofmark \<Rightarrow> lexst \<Rightarrow> pst \<Rightarrow> lexst \<times> pst" where
  "put_escaped mark lx st =
     (case pgetc st of
        (None, st1) \<Rightarrow> (lx_put [CTLESC, backslash] lx, pungetc st1)
      | (Some c, st1) \<Rightarrow>
        (lx_put ((if keeps_backslash mark (lx_top lx) c then [CTLESC, backslash] else []) @ [CTLESC, c])
           (lx\<lparr>lx_quotef := lx_quotef lx + 1\<rparr>), st1))"

definition put_ctl :: "eofmark \<Rightarrow> char \<Rightarrow> lexst \<Rightarrow> lexst" where
  "put_ctl mark c lx =
     (let s = lx_top lx
      in lx_put ((if mark = No_mark \<or> ss_dblquote s \<or> 0 < ss_varnest s then [CTLESC] else []) @ [c]) lx)"

definition end_paren :: "nat \<Rightarrow> lexst \<Rightarrow> pst \<Rightarrow> shell_error + lexst \<times> pst" where
  "end_paren n lx st =
     (if 0 < ss_parenlevel (lx_top lx) then
        Inr (lx_set (\<lambda>s. s\<lparr>ss_parenlevel := ss_parenlevel s - 1\<rparr>) (lx_put '')'' lx), st)
      else bindE (pgetc_eatbnl n st) (\<lambda>(c, st1).
        if c = Some (CHR '')'') then Inr (synstack_pop (lx_put [CTLENDARI] lx), st1)
        else Inr (lx_put '')'' lx, pungetc st1)))"

section \<open>Command substitution and arithmetic\<close>

text \<open>The text up to the closing backquote; \<open>dbl\<close> is \<open>dblquote\<close>.\<close>

primrec backq_text :: "nat \<Rightarrow> bool \<Rightarrow> pst \<Rightarrow> shell_error + string \<times> pst" where
  "backq_text 0 dbl st = Inl Sh_fuel"
| "backq_text (Suc n) dbl st =
     bindE (pgetc_eatbnl n st) (\<lambda>(c, st1).
       if c = Some backquote then Inr ([], st1)
       else if c = None then Inl (synerror ''EOF in backquote substitution'')
       else if c = Some backslash then
         case pgetc st1 of (d, st2) \<Rightarrow>
           bindE (backq_text n dbl st2) (\<lambda>(r, st3).
             let plain = (d \<noteq> Some backslash \<and> d \<noteq> Some backquote \<and> d \<noteq> Some (CHR ''$'') \<and>
                   (\<not> dbl \<or> d \<noteq> Some dquote_chr))
             in Inr ((if plain then [backslash] else []) @ stored d # r, st3))
       else bindE (backq_text n dbl (if c = Some newline_chr then next_line st1 else st1)) (\<lambda>(r, st3).
         Inr (stored c # r, st3)))"

definition put_backq :: "backq_fun \<Rightarrow> bool \<Rightarrow> nat \<Rightarrow> lexst \<Rightarrow> pst \<Rightarrow> shell_error + lexst \<times> pst" where
  "put_backq B oldstyle n lx st =
     bindE (if oldstyle then bindE (backq_text n (ss_dblquote (lx_top lx)) st) (\<lambda>(s, st1). Inr (setinputstring s st1))
            else Inr st) (\<lambda>st1.
     bindE (B oldstyle st1) (\<lambda>(cmd, st2).
       Inr (lx_put [CTLBACKQ] (lx\<lparr>lx_bq := lx_bq lx @ [cmd]\<rparr>), st2)))"

definition put_arith :: "lexst \<Rightarrow> lexst" where
  "put_arith lx = lx_put [CTLARI] (synstack_push ((new_synstack ARI_SYN)\<lparr>ss_dblquote := True\<rparr>) lx)"

section \<open>Parameters\<close>

definition is_special :: "char \<Rightarrow> bool" where
  "is_special c = (c \<in> set ''#?$!-*@'' \<or> isdigit c)"

definition opt_is :: "(char \<Rightarrow> bool) \<Rightarrow> char option \<Rightarrow> bool" where
  "opt_is P c = (case c of None \<Rightarrow> False | Some x \<Rightarrow> P x)"

primrec take_chars :: "nat \<Rightarrow> (char \<Rightarrow> bool) \<Rightarrow> char option \<Rightarrow> pst \<Rightarrow> shell_error + string \<times> char option \<times> pst" where
  "take_chars 0 P c st = Inl Sh_fuel"
| "take_chars (Suc n) P c st =
     (if \<not> opt_is P c then Inr ([], c, st)
      else bindE (pgetc_eatbnl n st) (\<lambda>(d, st1).
           bindE (take_chars n P d st1) (\<lambda>(r, e, st2). Inr (stored c # r, e, st2))))"

definition VSTRIMLEFT :: nat where "VSTRIMLEFT = 8"
definition VS_LENGTH :: nat where "VS_LENGTH = 10"

text \<open>
  The label \<open>varname\<close> up to the modifier: the name, \<open>subtype\<close>, whether it goes on at \<open>badsub\<close>, and the
  character that was read behind the name. A digit is one of several in braces only. \<open>isalnum\<close> is not
  defined for \<open>PEOF\<close>.
\<close>

type_synonym sub_result = "string \<times> nat \<times> bool \<times> char option \<times> pst"

definition sub_word :: "nat \<Rightarrow> nat \<Rightarrow> char option \<Rightarrow> pst \<Rightarrow> shell_error + sub_result" where
  "sub_word n subtype c st =
     bindE (if opt_is is_name c then take_chars n is_in_name c st
            else bindE (pgetc_eatbnl n st) (\<lambda>(d, st1).
                 bindE (take_chars n (\<lambda>x. (subtype = 0 \<or> VS_LENGTH \<le> subtype) \<and> isdigit x) d st1) (\<lambda>(r, e, st2).
                   Inr (stored c # r, e, st2)))) (\<lambda>(name, e, st1).
       Inr (name, subtype, False, e, st1))"

definition sub_special :: "nat \<Rightarrow> char option \<Rightarrow> char option \<Rightarrow> pst \<Rightarrow> sub_result" where
  "sub_special subtype cc c st =
     (if opt_is is_special cc then ([stored cc], subtype, False, c, st)
      else ([], if subtype = VS_LENGTH then 0 else subtype, True, c, st))"

definition sub_name :: "nat \<Rightarrow> nat \<Rightarrow> char option \<Rightarrow> pst \<Rightarrow> shell_error + sub_result" where
  "sub_name n subtype c st =
     (if opt_is is_name c \<or> opt_is isdigit c then sub_word n subtype c st
      else if c = Some (CHR ''}'') then Inr ([], subtype, True, c, st)
      else bindE (pgetc_eatbnl n st) (\<lambda>(d, st1).
        if \<not> (subtype = 0 \<and> c = Some (CHR ''#'')) then Inr (sub_special subtype c d st1)
        else if d = None then Inl Sh_undefined
        else if opt_is is_in_name d then sub_word n VS_LENGTH d st1
        else bindE (pgetc_eatbnl n st1) (\<lambda>(e, st2).
          if d = Some (CHR ''}'') \<or> e \<noteq> Some (CHR ''}'') then Inr (sub_special 0 c d (pungetc st2))
          else Inr (sub_special VS_LENGTH d e st2))))"

definition sub_type :: "char option \<Rightarrow> nat option" where
  "sub_type c =
     (if c = Some (CHR ''}'') then Some 1 else if c = Some (CHR ''-'') then Some 2
      else if c = Some (CHR ''+'') then Some 3 else if c = Some (CHR ''?'') then Some 4
      else if c = Some (CHR ''='') then Some 5 else None)"

text \<open>The modifier: \<open>subtype\<close>, and whether the word is a pattern (\<open>newsyn = BASESYNTAX\<close>).\<close>

definition sub_op :: "nat \<Rightarrow> nat \<Rightarrow> bool \<Rightarrow> char option \<Rightarrow> pst \<Rightarrow> shell_error + nat \<times> bool \<times> pst" where
  "sub_op n subtype bad c st =
     (if bad then Inr (subtype, False, pungetc st)
      else if subtype \<noteq> 0 then
        Inr (if subtype = VS_LENGTH \<and> c \<noteq> Some (CHR ''}'') then 0 else subtype, False, pungetc st)
      else if c = Some (CHR '':'') then
        bindE (pgetc_eatbnl n st) (\<lambda>(d, st1).
          Inr (16 + (case sub_type d of None \<Rightarrow> 0 | Some t \<Rightarrow> t), False, st1))
      else if c = Some (CHR ''%'') \<or> c = Some (CHR ''#'') then
        bindE (pgetc_eatbnl n st) (\<lambda>(d, st1).
          let t = (if c = Some (CHR ''#'') then VSTRIMLEFT else 6)
          in Inr (if d = c then (t + 1, True, st1) else (t, True, pungetc st1)))
      else Inr (case sub_type c of None \<Rightarrow> 0 | Some t \<Rightarrow> t, False, st))"

text \<open>The \<open>synstack\<close> behind the operator of \<open>${...}\<close>.\<close>

definition sub_syntax :: "nat \<Rightarrow> bool \<Rightarrow> lexst \<Rightarrow> lexst" where
  "sub_syntax subtype pat lx =
     (let syn = ss_syntax (lx_top lx);
          newsyn0 = (if pat then BASE_SYN else syn);
          newsyn = (if newsyn0 = ARI_SYN then DQ_SYN else newsyn0)
      in if subtype = 1 then lx
         else
           let lx1 = (if newsyn \<noteq> syn \<or> ss_innerdq (lx_top lx) then
                 synstack_push ((new_synstack newsyn)\<lparr>ss_varpushed := True, ss_dblquote := (newsyn \<noteq> BASE_SYN)\<rparr>) lx
                 else lx)
           in lx_set (\<lambda>s. s\<lparr>ss_varnest := ss_varnest s + 1,
                ss_dqvarnest := (if ss_dblquote s then ss_dqvarnest s + 1 else ss_dqvarnest s)\<rparr>) lx1)"

definition put_param :: "nat \<Rightarrow> char option \<Rightarrow> lexst \<Rightarrow> pst \<Rightarrow> shell_error + lexst \<times> pst" where
  "put_param n c lx st =
     bindE (if c = Some (CHR ''{'') then bindE (pgetc_eatbnl n st) (\<lambda>(d, st1). sub_name n 0 d st1)
            else sub_name n 1 c st) (\<lambda>(name, subtype, bad, d, st1).
     bindE (sub_op n subtype bad d st1) (\<lambda>(subtype1, pat, st2).
       Inr (sub_syntax subtype1 pat (lx_put ([CTLVAR, char_of (subtype1 + 32)] @ name @ ''='') lx), st2)))"

definition parsesub :: "backq_fun \<Rightarrow> nat \<Rightarrow> lexst \<Rightarrow> pst \<Rightarrow> shell_error + lexst \<times> pst" where
  "parsesub B n lx st =
     bindE (pgetc_eatbnl n st) (\<lambda>(c, st1).
       if CHKEOFMARK \<in> in_kwd st1 \<or>
          c \<noteq> Some (CHR ''('') \<and> c \<noteq> Some (CHR ''{'') \<and> \<not> opt_is is_name c \<and> \<not> opt_is is_special c
       then Inr (lx_put ''$'' lx, pungetc st1)
       else if c = Some (CHR ''('') then
         bindE (pgetc_eatbnl n st1) (\<lambda>(d, st2).
           if d = Some (CHR ''('') then Inr (put_arith lx, st2)
           else put_backq B False n lx (pungetc st2))
       else put_param n c lx st1)"

section \<open>Words\<close>

text \<open>
  One turn of the inner loop. The default of the \<open>switch\<close> and \<open>CNL\<close> end a word outside braces.
\<close>

definition lex_turn :: "backq_fun \<Rightarrow> nat \<Rightarrow> eofmark \<Rightarrow> char option \<Rightarrow> lexst \<Rightarrow> pst \<Rightarrow> shell_error + lexturn" where
  "lex_turn B n mark c lx st =
     (let s = lx_top lx; x = stored c; put = Next_char (lx_put [x] lx) st; next = map_sum id (\<lambda>(lx1, st1). Next_char lx1 st1)
      in case char_class (ss_syntax s) c of
           CNL \<Rightarrow>
             if ss_syntax s = BASE_SYN \<and> ss_varnest s = 0 then Inr End_word
             else Inr (Next_line (lx_put [x] lx) (next_line st))
         | CWORD \<Rightarrow> Inr put
         | CCTL \<Rightarrow> Inr (Next_char (put_ctl mark x lx) st)
         | CBACK \<Rightarrow> next (Inr (put_escaped mark lx st))
         | CSQUOTE \<Rightarrow> Inr (Next_char (start_squote mark lx) st)
         | CDQUOTE \<Rightarrow> Inr (Next_char (start_dquote mark lx) st)
         | CENDQUOTE \<Rightarrow> Inr (Next_char (end_quote mark x lx) st)
         | CVAR \<Rightarrow> next (parsesub B n lx st)
         | CENDVAR \<Rightarrow> Inr (Next_char (end_var x lx) st)
         | CLP \<Rightarrow> Inr (Next_char (lx_set (\<lambda>s. s\<lparr>ss_parenlevel := ss_parenlevel s + 1\<rparr>) (lx_put [x] lx)) st)
         | CRP \<Rightarrow> next (end_paren n lx st)
         | CBQUOTE \<Rightarrow> if CHKEOFMARK \<in> in_kwd st then Inr put else next (put_backq B True n lx st)
         | CEOF \<Rightarrow> Inr End_word
         | _ \<Rightarrow> Inr (if ss_varnest s = 0 then End_word else put))"

text \<open>The loop; the character that ended the word is in the result.\<close>

primrec lex_loop ::
    "nat \<Rightarrow> backq_fun \<Rightarrow> eofmark \<Rightarrow> bool \<Rightarrow> char option \<Rightarrow> lexst \<Rightarrow> pst \<Rightarrow> shell_error + char option \<times> lexst \<times> pst" where
  "lex_loop 0 B mark striptabs c lx st = Inl Sh_fuel"
| "lex_loop (Suc n) B mark striptabs c lx st =
     bindE (lex_turn B n mark c lx st) (\<lambda>turn.
       case turn of
         End_word \<Rightarrow> Inr (c, lx, st)
       | Next_char lx1 st1 \<Rightarrow>
           bindE (pgetc_top n lx1 st1) (\<lambda>(d, st2). lex_loop n B mark striptabs d lx1 st2)
       | Next_line lx1 st1 \<Rightarrow>
           bindE (pgetc_top n lx1 st1) (\<lambda>(d, st2).
           bindE (checkend n mark striptabs d st2) (\<lambda>(e, st3). lex_loop n B mark striptabs e lx1 st3)))"

declare lex_loop.simps [simp del]

text \<open>\<open>parseredir\<close>: \<open>fd\<close> is the text before the operator, a digit or nothing.\<close>

definition parseredir :: "nat \<Rightarrow> string \<Rightarrow> char option \<Rightarrow> pst \<Rightarrow> shell_error + redirop \<times> pst" where
  "parseredir n fd c st =
     (let fdn = (\<lambda>d. case fd of [] \<Rightarrow> d | x # _ \<Rightarrow> int (byte_of x) - 48)
      in bindE (pgetc_eatbnl n st) (\<lambda>(d, st1).
           if c = Some (CHR ''>'') then
             Inr (if d = Some (CHR ''>'') then (Rfile NAPPEND (fdn 1), st1)
                  else if d = Some (CHR ''|'') then (Rfile NCLOBBER (fdn 1), st1)
                  else if d = Some (CHR ''&'') then (Rdup True (fdn 1), st1)
                  else (Rfile NTO (fdn 1), pungetc st1))
           else if d = Some (CHR ''<'') then
             bindE (pgetc_eatbnl n st1) (\<lambda>(e, st2).
               Inr (if e = Some (CHR ''-'') then (Rhere (fdn 0) True, st2) else (Rhere (fdn 0) False, pungetc st2)))
           else
             Inr (if d = Some (CHR ''&'') then (Rdup False (fdn 0), st1)
                  else if d = Some (CHR ''>'') then (Rfile NFROMTO (fdn 0), st1)
                  else (Rfile NFROM (fdn 0), pungetc st1))))"

text \<open>The label \<open>endword\<close>.\<close>

definition end_word :: "nat \<Rightarrow> eofmark \<Rightarrow> char option \<Rightarrow> lexst \<Rightarrow> pst \<Rightarrow> shell_error + sh_token \<times> pst" where
  "end_word n mark c lx st =
     (let s = lx_top lx; out = lx_out lx
      in if ss_syntax s = ARI_SYN then Inl (synerror (''Missing '' @ [quote_chr] @ ''))'' @ [quote_chr]))
         else if ss_syntax s \<noteq> BASE_SYN \<and> mark = No_mark then Inl (synerror ''Unterminated quoted string'')
         else if ss_varnest s \<noteq> 0 then Inl (synerror (''Missing '' @ [quote_chr] @ ''}'' @ [quote_chr]))
         else if mark = No_mark \<and> (c = Some (CHR ''>'') \<or> c = Some (CHR ''<'')) \<and> lx_quotef lx = 0 \<and> length out \<le> 1 \<and>
           (out = [] \<or> isdigit (hd out))
         then bindE (parseredir n out c st) (\<lambda>(r, st1). Inr (TREDIR, st1\<lparr>p_redir := r, p_lasttoken := TREDIR\<rparr>))
         else Inr (TWORD, (if mark = No_mark then pungetc st else st)
           \<lparr>p_quoteflag := lx_quotef lx, p_backq := lx_bq lx, p_wordtext := out, p_lasttoken := TWORD\<rparr>))"

definition start_lex :: "synkind \<Rightarrow> lexst" where
  "start_lex syn =
     \<lparr>lx_out = [], lx_quotef = 0, lx_bq = [],
      lx_stack = [(new_synstack syn)\<lparr>ss_dblquote := (syn = DQ_SYN)\<rparr>]\<rparr>"

definition readtoken1 ::
    "nat \<Rightarrow> backq_fun \<Rightarrow> char option \<Rightarrow> synkind \<Rightarrow> eofmark \<Rightarrow> bool \<Rightarrow> pst \<Rightarrow> shell_error + sh_token \<times> pst" where
  "readtoken1 n B firstc syn mark striptabs st =
     bindE (checkend n mark striptabs firstc st) (\<lambda>(c, st1).
     bindE (lex_loop n B mark striptabs c (start_lex syn) st1) (\<lambda>(d, lx, st2).
       end_word n mark d lx st2))"

section \<open>Tokens\<close>

text \<open>The rest of a comment, up to the newline, which is put back.\<close>

primrec skip_comment :: "nat \<Rightarrow> pst \<Rightarrow> shell_error + pst" where
  "skip_comment 0 st = Inl Sh_fuel"
| "skip_comment (Suc n) st =
     (case pgetc st of (c, st1) \<Rightarrow>
        if c \<noteq> Some newline_chr \<and> c \<noteq> None then skip_comment n st1 else Inr (pungetc st1))"

definition got :: "sh_token \<Rightarrow> pst \<Rightarrow> shell_error + sh_token \<times> pst" where
  "got t st = Inr (t, st\<lparr>p_lasttoken := t\<rparr>)"

text \<open>An operator that has a longer one when \<open>x\<close> follows.\<close>

definition got_double :: "nat \<Rightarrow> char \<Rightarrow> sh_token \<Rightarrow> sh_token \<Rightarrow> pst \<Rightarrow> shell_error + sh_token \<times> pst" where
  "got_double n x long short st =
     bindE (pgetc_eatbnl n st) (\<lambda>(c, st1). if c = Some x then got long st1 else got short (pungetc st1))"

primrec next_token :: "nat \<Rightarrow> backq_fun \<Rightarrow> pst \<Rightarrow> shell_error + sh_token \<times> pst" where
  "next_token 0 B st = Inl Sh_fuel"
| "next_token (Suc n) B st =
     bindE (pgetc_eatbnl n st) (\<lambda>(c, st1).
       if c = Some (CHR '' '') \<or> c = Some tab_chr then next_token n B st1
       else if c = Some (CHR ''#'') then bindE (skip_comment n st1) (next_token n B)
       else if c = Some newline_chr then got TNL (next_line st1)
       else if c = None then got TEOF st1
       else if c = Some (CHR ''&'') then got_double n (CHR ''&'') TAND TBACKGND st1
       else if c = Some (CHR ''|'') then got_double n (CHR ''|'') TOR TPIPE st1
       else if c = Some (CHR '';'') then got_double n (CHR '';'') TENDCASE TSEMI st1
       else if c = Some (CHR ''('') then got TLP st1
       else if c = Some (CHR '')'') then got TRP st1
       else readtoken1 n B c BASE_SYN No_mark False st1)"

declare next_token.simps [simp del]

definition xxreadtoken :: "nat \<Rightarrow> backq_fun \<Rightarrow> pst \<Rightarrow> shell_error + sh_token \<times> pst" where
  "xxreadtoken n B st =
     (if p_pushback st then Inr (p_lasttoken st, st\<lparr>p_pushback := False\<rparr>) else next_token n B st)"

text \<open>\<open>parsekwd\<close>, sorted for \<open>findstring\<close>, with the tokens from \<open>KWDOFFSET\<close> on.\<close>

definition parsekwd :: "string list" where
  "parsekwd =
     [''!'', ''case'', ''do'', ''done'', ''elif'', ''else'', ''esac'', ''fi'', ''for'', ''if'', ''in'', ''then'', ''until'',
      ''while'', ''{'', ''}'']"

definition kwd_tokens :: "sh_token list" where
  "kwd_tokens =
     [TNOT, TCASE, TDO, TDONE, TELIF, TELSE, TESAC, TFI, TFOR, TIF, TIN, TTHEN, TUNTIL, TWHILE, TBEGIN, TEND]"

definition findkwd :: "string \<Rightarrow> sh_token option" where
  "findkwd s = map_option ((!) kwd_tokens) (findstring s parsekwd)"

text \<open>
  \<open>parseheredoc\<close>. A document is the text of \<open>readtoken1\<close>; \<open>pgetc\<close> or \<open>pgetc_eatbnl\<close> reads its first character.
\<close>

definition read_heredoc :: "nat \<Rightarrow> backq_fun \<Rightarrow> heredoc \<Rightarrow> pst \<Rightarrow> shell_error + pst" where
  "read_heredoc n B h st =
     bindE (if h_expand h then pgetc_eatbnl n st else Inr (pgetc st)) (\<lambda>(c, st1).
     bindE (readtoken1 n B c (if h_expand h then DQ_SYN else SQ_SYN) (Mark (h_eofmark h)) (h_striptabs h) st1) (\<lambda>(_, st2).
       Inr (st2\<lparr>p_docs := (h_id h, NARG (p_wordtext st2) (p_backq st2)) # p_docs st2\<rparr>)))"

definition parseheredoc :: "nat \<Rightarrow> backq_fun \<Rightarrow> pst \<Rightarrow> shell_error + pst" where
  "parseheredoc n B st = foldE (read_heredoc n B) (p_heredocs st) (st\<lparr>p_heredocs := []\<rparr>)"

text \<open>Newlines where \<open>CHKNL\<close> allows them.\<close>

primrec eat_newlines :: "nat \<Rightarrow> backq_fun \<Rightarrow> sh_token \<Rightarrow> pst \<Rightarrow> shell_error + sh_token \<times> pst" where
  "eat_newlines 0 B t st = Inl Sh_fuel"
| "eat_newlines (Suc n) B t st =
     (if t \<noteq> TNL then Inr (t, st)
      else bindE (parseheredoc n B st) (\<lambda>st1.
           bindE (xxreadtoken n B (set_kwd {} st1)) (\<lambda>(u, st2). eat_newlines n B u st2)))"

text \<open>The label \<open>top\<close>; \<open>kwd\<close> is what \<open>checkkwd\<close> was, and grows. An alias makes it start again.\<close>

primrec readtoken_loop :: "nat \<Rightarrow> backq_fun \<Rightarrow> kwdflag set \<Rightarrow> pst \<Rightarrow> shell_error + sh_token \<times> pst" where
  "readtoken_loop 0 B kwd st = Inl Sh_fuel"
| "readtoken_loop (Suc n) B kwd st =
     bindE (xxreadtoken n B st) (\<lambda>(t0, st0).
     bindE (if CHKNL \<in> kwd then eat_newlines n B t0 st0 else Inr (t0, st0)) (\<lambda>(t, st1).
       let kwd1 = kwd \<union> in_kwd st1; st2 = set_kwd {} st1
       in if t \<noteq> TWORD \<or> p_quoteflag st2 \<noteq> 0 then Inr (t, st2)
          else case if CHKKWD \<in> kwd1 then findkwd (p_wordtext st2) else None of
                 Some k \<Rightarrow> Inr (k, st2\<lparr>p_lasttoken := k\<rparr>)
               | None \<Rightarrow>
                 (case if CHKALIAS \<in> kwd1 then lookupalias (p_wordtext st2) True (in_aliases st2) else None of
                    None \<Rightarrow> Inr (t, st2)
                  | Some a \<Rightarrow>
                    let val = alias_val (alias_mem (in_aliases st2) a)
                    in readtoken_loop n B kwd1 (if val \<noteq> [] then pushstring val (Some a) st2 else st2))))"

declare readtoken_loop.simps [simp del]

definition readtoken :: "nat \<Rightarrow> backq_fun \<Rightarrow> pst \<Rightarrow> shell_error + sh_token \<times> pst" where
  "readtoken n B st = readtoken_loop n B (in_kwd st) st"

end
