(* ===== verification/Sh_Parser.thy ===== *)
theory Sh_Parser
  imports Sh_Lexer Sh_Word
begin

text \<open>
  The recursive descent parser of the shell (\<open>parser.c\<close>): lists, pipelines, commands and redirections,
  here documents, commands in words, and \<open>parsecmd\<close>.

  The functions call each other, so each has the ones it calls as arguments: \<open>T\<close> is \<open>readtoken\<close>, \<open>H\<close>
  is \<open>parseheredoc\<close>, \<open>L\<close> is \<open>list\<close> and \<open>C\<close> is \<open>command\<close>. \<open>pcommand\<close> and \<open>backq\<close> tie the knots; their fuel is the
  depth of the calls and the bound of every loop. The list of a word's or command's nodes is in the order
  of the input.
\<close>

section \<open>Tokens\<close>

type_synonym 'a parser = "pst \<Rightarrow> shell_error + 'a \<times> pst"

definition tokname :: "sh_token \<Rightarrow> string" where
  "tokname t =
     (case t of
        TEOF \<Rightarrow> ''end of file'' | TNL \<Rightarrow> ''newline'' | TREDIR \<Rightarrow> ''redirection'' | TWORD \<Rightarrow> ''word''
      | _ \<Rightarrow> [dquote_chr] @
        (case t of
           TSEMI \<Rightarrow> '';'' | TBACKGND \<Rightarrow> ''&'' | TAND \<Rightarrow> ''&&'' | TOR \<Rightarrow> ''||'' | TPIPE \<Rightarrow> ''|'' | TLP \<Rightarrow> ''('' | TRP \<Rightarrow> '')''
         | TENDCASE \<Rightarrow> '';;'' | TENDBQUOTE \<Rightarrow> [backquote] | TNOT \<Rightarrow> ''!'' | TCASE \<Rightarrow> ''case'' | TDO \<Rightarrow> ''do''
         | TDONE \<Rightarrow> ''done'' | TELIF \<Rightarrow> ''elif'' | TELSE \<Rightarrow> ''else'' | TESAC \<Rightarrow> ''esac'' | TFI \<Rightarrow> ''fi'' | TFOR \<Rightarrow> ''for''
         | TIF \<Rightarrow> ''if'' | TIN \<Rightarrow> ''in'' | TTHEN \<Rightarrow> ''then'' | TUNTIL \<Rightarrow> ''until'' | TWHILE \<Rightarrow> ''while'' | TBEGIN \<Rightarrow> ''{''
         | TEND \<Rightarrow> ''}'' | _ \<Rightarrow> []) @ [dquote_chr])"

definition tokendlist :: "sh_token \<Rightarrow> bool" where
  "tokendlist t =
     (t \<in> set [TEOF, TRP, TENDCASE, TENDBQUOTE, TDO, TDONE, TELIF, TELSE, TESAC, TFI, TTHEN, TEND])"

text \<open>The message has room for 63 characters.\<close>

definition synexpect :: "sh_token option \<Rightarrow> pst \<Rightarrow> shell_error" where
  "synexpect t st =
     synerror (take 63 (tokname (p_lasttoken st) @ '' unexpected'' @
       (case t of None \<Rightarrow> [] | Some u \<Rightarrow> '' (expecting '' @ tokname u @ '')'')))"

definition expect :: "sh_token parser \<Rightarrow> sh_token \<Rightarrow> pst \<Rightarrow> shell_error + pst" where
  "expect T t st = bindE (T st) (\<lambda>(u, st1). if u = t then Inr st1 else Inl (synexpect (Some t) st1))"

definition push_token :: "pst \<Rightarrow> pst" where
  "push_token st = st\<lparr>p_pushback := True\<rparr>"

abbreviation plinno :: "pst \<Rightarrow> int" where
  "plinno st \<equiv> int (pf_linno (in_file st))"

definition makename :: "pst \<Rightarrow> arg" where
  "makename st = NARG (p_wordtext st) (p_backq st)"

abbreviation kwd_alias :: "kwdflag set" where "kwd_alias \<equiv> {CHKKWD, CHKALIAS}"
abbreviation kwd_nl :: "kwdflag set" where "kwd_nl \<equiv> {CHKNL, CHKKWD, CHKALIAS}"

section \<open>Redirections\<close>

text \<open>\<open>fixredir\<close>: the descriptor, -1 for a minus sign, if the text is one.\<close>

definition fixredir :: "string \<Rightarrow> int option" where
  "fixredir s =
     (case s of [c] \<Rightarrow> if isdigit c then Some (int (byte_of c) - 48) else if c = CHR ''-'' then Some (- 1) else None
      | _ \<Rightarrow> None)"

definition parsefname :: "sh_token parser \<Rightarrow> redir parser" where
  "parsefname T st =
     (let r = p_redir st
      in bindE (T (case r of Rhere _ _ \<Rightarrow> set_kwd {CHKEOFMARK} st | _ \<Rightarrow> st)) (\<lambda>(t, st1).
           if t \<noteq> TWORD then Inl (synexpect None st1)
           else case r of
             Rhere fd tabs \<Rightarrow>
               bindE (rmescapes False (p_wordtext st1)) (\<lambda>mark.
                 let h = \<lparr>h_id = p_nhere st1, h_expand = (p_quoteflag st1 = 0), h_eofmark = mark, h_striptabs = tabs\<rparr>
                 in Inr (NHERE (h_expand h) fd (h_id h),
                      st1\<lparr>p_wordtext := mark, p_nhere := p_nhere st1 + 1, p_heredocs := p_heredocs st1 @ [h]\<rparr>))
           | Rdup to fd \<Rightarrow>
               Inr (NDUP to fd (case fixredir (p_wordtext st1) of Some d \<Rightarrow> Inl d | None \<Rightarrow> Inr (makename st1)), st1)
           | Rfile k fd \<Rightarrow> Inr (NFILE k fd (makename st1), st1)))"

primrec redirs :: "nat \<Rightarrow> sh_token parser \<Rightarrow> redir list parser" where
  "redirs 0 T st = Inl Sh_fuel"
| "redirs (Suc n) T st =
     bindE (T st) (\<lambda>(t, st1).
       if t \<noteq> TREDIR then Inr ([], push_token st1)
       else bindE (parsefname T st1) (\<lambda>(r, st2).
            bindE (redirs n T st2) (\<lambda>(rs, st3). Inr (r # rs, st3))))"

section \<open>Compound commands\<close>

text \<open>The part of an \<open>if\<close> behind the first \<open>then\<close> list: \<open>elif\<close>, \<open>else\<close> or nothing.\<close>

primrec else_part :: "nat \<Rightarrow> (nat \<Rightarrow> tree parser) \<Rightarrow> sh_token parser \<Rightarrow> tree parser" where
  "else_part 0 L T st = Inl Sh_fuel"
| "else_part (Suc n) L T st =
     bindE (T st) (\<lambda>(t, st1).
       if t = TELIF then
         bindE (L 0 st1) (\<lambda>(test, st2).
         bindE (expect T TTHEN st2) (\<lambda>st3.
         bindE (L 0 st3) (\<lambda>(ifpart, st4).
         bindE (else_part n L T st4) (\<lambda>(elsepart, st5). Inr (NIF test ifpart elsepart, st5)))))
       else if p_lasttoken st1 = TELSE then L 0 st1
       else Inr (Null, push_token st1))"

definition if_cmd :: "nat \<Rightarrow> (nat \<Rightarrow> tree parser) \<Rightarrow> sh_token parser \<Rightarrow> tree parser" where
  "if_cmd n L T st =
     bindE (L 0 st) (\<lambda>(test, st1).
     bindE (expect T TTHEN st1) (\<lambda>st2.
     bindE (L 0 st2) (\<lambda>(ifpart, st3).
     bindE (else_part n L T st3) (\<lambda>(elsepart, st4). Inr (NIF test ifpart elsepart, st4)))))"

definition while_cmd :: "(nat \<Rightarrow> tree parser) \<Rightarrow> sh_token parser \<Rightarrow> tree parser" where
  "while_cmd L T st =
     (let node = (if p_lasttoken st = TWHILE then NWHILE else NUNTIL)
      in bindE (L 0 st) (\<lambda>(test, st1).
         bindE (expect T TDO st1) (\<lambda>st2.
         bindE (L 0 st2) (\<lambda>(body, st3). Inr (node test body, st3)))))"

text \<open>The words behind \<open>in\<close>; the token that ends them is consumed.\<close>

primrec for_words :: "nat \<Rightarrow> sh_token parser \<Rightarrow> arg list parser" where
  "for_words 0 T st = Inl Sh_fuel"
| "for_words (Suc n) T st =
     bindE (T st) (\<lambda>(t, st1).
       if t \<noteq> TWORD then Inr ([], st1)
       else bindE (for_words n T st1) (\<lambda>(as, st2). Inr (makename st1 # as, st2)))"

definition for_cmd :: "nat \<Rightarrow> (nat \<Rightarrow> tree parser) \<Rightarrow> sh_token parser \<Rightarrow> int \<Rightarrow> tree parser" where
  "for_cmd n L T linno st =
     bindE (T st) (\<lambda>(t, st1).
       if t \<noteq> TWORD \<or> p_quoteflag st1 \<noteq> 0 \<or> \<not> goodname (p_wordtext st1) then Inl (synerror ''Bad for loop variable'')
       else
         bindE (T (set_kwd kwd_nl st1)) (\<lambda>(u, st2).
         bindE (if u = TIN then
                  bindE (for_words n T st2) (\<lambda>(as, st3).
                    if p_lasttoken st3 \<noteq> TNL \<and> p_lasttoken st3 \<noteq> TSEMI then Inl (synexpect None st3) else Inr (as, st3))
                else Inr ([NARG dolatstr []], if p_lasttoken st2 \<noteq> TSEMI then push_token st2 else st2)) (\<lambda>(as, st3).
         bindE (expect T TDO (set_kwd kwd_nl st3)) (\<lambda>st4.
         bindE (L 0 st4) (\<lambda>(body, st5). Inr (NFOR linno as body (p_wordtext st1), st5))))))"

text \<open>
  A pattern is the text of the last word, whatever the token is; the loop ends behind a token that
  is not \<open>TPIPE\<close>.
\<close>

primrec case_patterns :: "nat \<Rightarrow> sh_token parser \<Rightarrow> arg list parser" where
  "case_patterns 0 T st = Inl Sh_fuel"
| "case_patterns (Suc n) T st =
     bindE (T st) (\<lambda>(t, st1).
       if t \<noteq> TPIPE then Inr ([makename st], st1)
       else bindE (T st1) (\<lambda>(_, st2).
            bindE (case_patterns n T st2) (\<lambda>(ps, st3). Inr (makename st # ps, st3))))"

text \<open>The label \<open>next_case\<close> and the loop behind it.\<close>

primrec case_items :: "nat \<Rightarrow> (nat \<Rightarrow> tree parser) \<Rightarrow> sh_token parser \<Rightarrow> (arg list \<times> tree) list parser" where
  "case_items 0 L T st = Inl Sh_fuel"
| "case_items (Suc n) L T st =
     bindE (T (set_kwd {CHKNL, CHKKWD} st)) (\<lambda>(t, st1).
       if t = TESAC then Inr ([], st1)
       else
         bindE (if p_lasttoken st1 = TLP then map_sum id snd (T st1) else Inr st1) (\<lambda>st2.
         bindE (case_patterns n T st2) (\<lambda>(ps, st3).
           if p_lasttoken st3 \<noteq> TRP then Inl (synexpect (Some TRP) st3)
           else bindE (L 2 st3) (\<lambda>(body, st4).
             bindE (T (set_kwd {CHKNL, CHKKWD} st4)) (\<lambda>(u, st5).
               if u = TESAC then Inr ([(ps, body)], st5)
               else if u \<noteq> TENDCASE then Inl (synexpect (Some TENDCASE) st5)
               else bindE (case_items n L T st5) (\<lambda>(cs, st6). Inr ((ps, body) # cs, st6)))))))"

definition case_cmd :: "nat \<Rightarrow> (nat \<Rightarrow> tree parser) \<Rightarrow> sh_token parser \<Rightarrow> int \<Rightarrow> tree parser" where
  "case_cmd n L T linno st =
     bindE (expect T TWORD st) (\<lambda>st1.
     bindE (expect T TIN (set_kwd kwd_nl st1)) (\<lambda>st2.
     bindE (case_items n L T st2) (\<lambda>(cs, st3). Inr (NCASE linno (makename st1) cs, st3))))"

section \<open>Simple commands\<close>

text \<open>The names that \<open>builtins.def\<close> marks with \<open>-s\<close>.\<close>

definition special_builtins :: "string list" where
  "special_builtins =
     [''break'', ''continue'', ''.'', ''eval'', ''exec'', ''exit'', ''export'', ''readonly'', ''local'', ''return'', ''set'',
      ''shift'', ''times'', ''trap'', '':'', ''unset'']"

definition function_def :: "tree parser \<Rightarrow> sh_token parser \<Rightarrow> arg \<Rightarrow> tree parser" where
  "function_def C T name st =
     bindE (expect T TRP st) (\<lambda>st1.
       case name of NARG s _ \<Rightarrow>
         if \<not> goodname s \<or> s \<in> set special_builtins then Inl (synerror ''Bad function name'')
         else bindE (C (set_kwd kwd_nl st1)) (\<lambda>(body, st2). Inr (NDEFUN (plinno st1) s body, st2)))"

text \<open>\<open>al\<close> tells whether \<open>savecheckkwd\<close> is still \<open>CHKALIAS\<close>: there was no word but assignments.\<close>

primrec simple_loop ::
    "nat \<Rightarrow> tree parser \<Rightarrow> sh_token parser \<Rightarrow> int \<Rightarrow> bool \<Rightarrow> arg list \<Rightarrow> arg list \<Rightarrow> redir list \<Rightarrow> tree parser" where
  "simple_loop 0 C T linno al as vs rs st = Inl Sh_fuel"
| "simple_loop (Suc n) C T linno al as vs rs st =
     bindE (T (set_kwd (if al then {CHKALIAS} else {}) st)) (\<lambda>(t, st1).
       if t = TWORD then
         (if al \<and> isassignment (p_wordtext st1) then simple_loop n C T linno al as (vs @ [makename st1]) rs st1
          else simple_loop n C T linno False (as @ [makename st1]) vs rs st1)
       else if t = TREDIR then
         bindE (parsefname T st1) (\<lambda>(r, st2). simple_loop n C T linno al as vs (rs @ [r]) st2)
       else if t = TLP \<and> length as = 1 \<and> vs = [] \<and> rs = [] then function_def C T (hd as) st1
       else Inr (NCMD linno as vs rs, push_token st1))"

definition simplecmd :: "nat \<Rightarrow> tree parser \<Rightarrow> sh_token parser \<Rightarrow> tree parser" where
  "simplecmd n C T st = simple_loop n C T (plinno st) True [] [] [] st"

section \<open>Commands, pipelines and lists\<close>

definition add_redirs :: "int \<Rightarrow> tree \<Rightarrow> redir list \<Rightarrow> tree" where
  "add_redirs linno n rs =
     (if rs = [] then n else case n of NSUBSHELL l m _ \<Rightarrow> NSUBSHELL l m rs | _ \<Rightarrow> NREDIR linno n rs)"

text \<open>\<open>end\<close> is the token that \<open>t\<close> holds at the end of the \<open>switch\<close>, none for \<open>case\<close>.\<close>

definition closed ::
    "nat \<Rightarrow> sh_token parser \<Rightarrow> int \<Rightarrow> sh_token option \<Rightarrow> shell_error + tree \<times> pst \<Rightarrow> shell_error + tree \<times> pst" where
  "closed n T linno endtok res =
     bindE res (\<lambda>(tree, st1).
     bindE (case endtok of None \<Rightarrow> Inr st1 | Some t \<Rightarrow> expect T t st1) (\<lambda>st2.
     bindE (redirs n T (set_kwd kwd_alias st2)) (\<lambda>(rs, st3). Inr (add_redirs linno tree rs, st3))))"

definition command :: "nat \<Rightarrow> (nat \<Rightarrow> tree parser) \<Rightarrow> tree parser \<Rightarrow> sh_token parser \<Rightarrow> tree parser" where
  "command n L C T st =
     (let linno = plinno st
      in bindE (T st) (\<lambda>(t, st1).
           case t of
             TIF \<Rightarrow> closed n T linno (Some TFI) (if_cmd n L T st1)
           | TWHILE \<Rightarrow> closed n T linno (Some TDONE) (while_cmd L T st1)
           | TUNTIL \<Rightarrow> closed n T linno (Some TDONE) (while_cmd L T st1)
           | TFOR \<Rightarrow> closed n T linno (Some TDONE) (for_cmd n L T linno st1)
           | TCASE \<Rightarrow> closed n T linno None (case_cmd n L T linno st1)
           | TLP \<Rightarrow> closed n T linno (Some TRP) (bindE (L 0 st1) (\<lambda>(m, st2). Inr (NSUBSHELL linno m [], st2)))
           | TBEGIN \<Rightarrow> closed n T linno (Some TEND) (L 0 st1)
           | TWORD \<Rightarrow> simplecmd n C T (push_token st1)
           | TREDIR \<Rightarrow> simplecmd n C T (push_token st1)
           | _ \<Rightarrow> Inl (synexpect None st1)))"

primrec pipe_rest :: "nat \<Rightarrow> tree parser \<Rightarrow> sh_token parser \<Rightarrow> tree list parser" where
  "pipe_rest 0 C T st = Inl Sh_fuel"
| "pipe_rest (Suc n) C T st =
     bindE (C (set_kwd kwd_nl st)) (\<lambda>(m, st1).
     bindE (T st1) (\<lambda>(t, st2).
       if t \<noteq> TPIPE then Inr ([m], st2)
       else bindE (pipe_rest n C T st2) (\<lambda>(ms, st3). Inr (m # ms, st3))))"

definition pipeline :: "nat \<Rightarrow> tree parser \<Rightarrow> sh_token parser \<Rightarrow> tree parser" where
  "pipeline n C T st =
     bindE (T st) (\<lambda>(t, st1).
     bindE (C (if t = TNOT then set_kwd kwd_alias st1 else push_token st1)) (\<lambda>(n1, st2).
     bindE (T st2) (\<lambda>(u, st3).
     bindE (if u = TPIPE then bindE (pipe_rest n C T st3) (\<lambda>(ms, st4). Inr (NPIPE False (n1 # ms), st4))
            else Inr (n1, st3)) (\<lambda>(n2, st4).
       Inr (if t = TNOT then NNOT n2 else n2, push_token st4)))))"

primrec andor_rest :: "nat \<Rightarrow> tree parser \<Rightarrow> sh_token parser \<Rightarrow> tree \<Rightarrow> tree parser" where
  "andor_rest 0 P T n1 st = Inl Sh_fuel"
| "andor_rest (Suc n) P T n1 st =
     bindE (T st) (\<lambda>(t, st1).
       if t = TAND \<or> t = TOR then
         bindE (P (set_kwd kwd_nl st1)) (\<lambda>(n2, st2).
           andor_rest n P T (if t = TAND then NAND n1 n2 else NOR n1 n2) st2)
       else Inr (n1, push_token st1))"

definition andor :: "nat \<Rightarrow> tree parser \<Rightarrow> sh_token parser \<Rightarrow> tree parser" where
  "andor n P T st = bindE (P st) (\<lambda>(n1, st1). andor_rest n P T n1 st1)"

text \<open>The new node of a command in the background is not given a line number.\<close>

definition set_backgnd :: "int \<Rightarrow> tree \<Rightarrow> tree" where
  "set_backgnd unset n =
     (case n of NPIPE _ ms \<Rightarrow> NPIPE True ms | NREDIR l m rs \<Rightarrow> NBACKGND l m rs | _ \<Rightarrow> NBACKGND unset n [])"

text \<open>
  \<open>list\<close>: \<open>None\<close> is \<open>NEOF\<close>. \<open>nlflag\<close> is 0, 1 or 2 at the call; \<open>again\<close> says that its bit 1 was set since.
\<close>

definition list_end :: "(pst \<Rightarrow> shell_error + pst) \<Rightarrow> tree option \<Rightarrow> tree option parser" where
  "list_end H n1 st =
     bindE (H st) (\<lambda>st1. Inr (n1, st1\<lparr>p_pushback := True, p_lasttoken := TEOF\<rparr>))"

primrec list_loop ::
    "nat \<Rightarrow> tree parser \<Rightarrow> sh_token parser \<Rightarrow> (pst \<Rightarrow> shell_error + pst) \<Rightarrow> nat \<Rightarrow> bool \<Rightarrow> tree \<Rightarrow> tree option parser" where
  "list_loop 0 A T H nlflag again n1 st = Inl Sh_fuel"
| "list_loop (Suc n) A T H nlflag again n1 st =
     (let toplevel = odd nlflag
      in bindE (T (set_kwd (if toplevel then kwd_alias else kwd_nl) st)) (\<lambda>(t, st1).
           if t = TNL then bindE (H st1) (\<lambda>st2. Inr (Some n1, st2))
           else if t = TEOF then list_end H (if n1 = Null \<and> toplevel then None else Some n1) st1
           else if (nlflag = 2 \<or> nlflag = 0 \<and> again) \<and> tokendlist t then Inr (Some n1, push_token st1)
           else
             bindE (A (push_token st1)) (\<lambda>(n2, st2).
             bindE (T st2) (\<lambda>(u, st3).
               let n3 = (if u = TBACKGND then set_backgnd (p_unset st3) n2 else n2);
                   n4 = (if n1 = Null then n3 else NSEMI n1 n3)
               in if u = TEOF then list_end H (Some n4) st3
                  else if u = TNL then list_loop n A T H nlflag True n4 (push_token st3)
                  else if u = TBACKGND \<or> u = TSEMI then list_loop n A T H nlflag True n4 st3
                  else if toplevel then Inl (synexpect None st3)
                  else Inr (Some n4, push_token st3)))))"

definition plist ::
    "nat \<Rightarrow> tree parser \<Rightarrow> sh_token parser \<Rightarrow> (pst \<Rightarrow> shell_error + pst) \<Rightarrow> nat \<Rightarrow> tree option parser" where
  "plist n C T H nlflag st = list_loop n (andor n (pipeline n C T) T) T H nlflag False Null st"

text \<open>Only the list of \<open>parsecmd\<close> is \<open>NEOF\<close>.\<close>

definition sublist ::
    "nat \<Rightarrow> tree parser \<Rightarrow> sh_token parser \<Rightarrow> (pst \<Rightarrow> shell_error + pst) \<Rightarrow> nat \<Rightarrow> tree parser" where
  "sublist n C T H nlflag st = map_sum id (apfst (case_option Null id)) (plist n C T H nlflag st)"

primrec pcommand :: "nat \<Rightarrow> sh_token parser \<Rightarrow> (pst \<Rightarrow> shell_error + pst) \<Rightarrow> tree parser" where
  "pcommand 0 T H st = Inl Sh_fuel"
| "pcommand (Suc n) T H st = command n (sublist n (pcommand n T H) T H) (pcommand n T H) T st"

section \<open>Commands in words\<close>

text \<open>The part of \<open>parsebackq\<close> behind the text of the old style.\<close>

primrec backq :: "nat \<Rightarrow> backq_fun" where
  "backq 0 oldstyle st = Inl Sh_fuel"
| "backq (Suc n) oldstyle st =
     (let T = readtoken n (backq n); H = parseheredoc n (backq n)
      in bindE (sublist n (pcommand n T H) T H 2 (st\<lparr>p_heredocs := []\<rparr>)) (\<lambda>(cmd, st1).
         bindE (if oldstyle then Inr st1 else bindE (expect T TRP st1) (\<lambda>st2. Inr (setinputstring [] st2))) (\<lambda>st2.
         bindE (H st2) (\<lambda>st3.
           let st4 = popfile (st3\<lparr>p_heredocs := p_heredocs st\<rparr>)
           in Inr (cmd, if oldstyle then st4\<lparr>p_pushback := False\<rparr> else st4)))))"

definition parsecmd :: "nat \<Rightarrow> tree option parser" where
  "parsecmd n st =
     (let T = readtoken n (backq n); H = parseheredoc n (backq n)
      in plist n (pcommand n T H) T H 1 (set_kwd {} (st\<lparr>p_pushback := False, p_heredocs := []\<rparr>)))"

end
