(* ===== verification/Sh_Lexer_Laws.thy ===== *)
theory Sh_Lexer_Laws
  imports Sh_Lexer Sh_Word_Laws Sh_Var_Laws
begin

text \<open>
  Words that have no expansions in them: the lexer and the expansion take them apart as POSIX says.
\<close>

section \<open>Reading characters\<close>

definition reads :: "pst \<Rightarrow> char option list \<Rightarrow> bool" where
  "reads st cs = (regular st \<and> pf_unget (in_file st) \<le> 1 \<and> upcoming st = cs)"

lemma more_upd_file [simp]: "inputst.more (upd_file f st) = inputst.more st"
  by (simp add: upd_file_def)

lemma more_shift_lastc [simp]: "inputst.more (shift_lastc c st) = inputst.more st" "in_prev (shift_lastc c st) = in_prev st"
  by (simp_all add: shift_lastc_def)

lemma more_popstring [simp]: "inputst.more (popstring st) = inputst.more st" "in_prev (popstring st) = in_prev st"
  by (simp_all add: popstring_def Let_def split: list.splits)

lemma more_freestrings [simp]: "inputst.more (freestrings st) = inputst.more st" "in_prev (freestrings st) = in_prev st"
  by (simp_all add: freestrings_def)

lemma more_pungetc [simp]: "inputst.more (pungetc st) = inputst.more st" "in_prev (pungetc st) = in_prev st"
  by (simp_all add: pungetc_def)

lemma more_next_line [simp]: "inputst.more (next_line st) = inputst.more st" "in_prev (next_line st) = in_prev st"
  by (simp_all add: next_line_def)

lemma more_pgetc_raw: "pgetc_raw st = (c, st') \<Longrightarrow> inputst.more st' = inputst.more st \<and> in_prev st' = in_prev st"
proof (induction st arbitrary: c st' rule: pgetc_raw.induct)
  case (1 st)
  show ?case
  proof (cases "pf_unget (in_file st) = 0 \<and> pf_next (in_file st) = [] \<and> pf_strpush (in_file st) \<noteq> []")
    case True
    then show ?thesis
      using "1.prems" "1.IH" [OF refl]
      by (subst (asm) pgetc_raw.simps) (auto simp: Let_def split: prod.splits)
  next
    case False
    then show ?thesis
      using "1.prems"
      by (subst (asm) pgetc_raw.simps) (auto simp: Let_def split: if_splits list.splits option.splits prod.splits)
  qed
qed

lemma reads_next_line [simp]: "reads (next_line st) cs = reads st cs"
  by (simp add: reads_def next_line_def regular_file_def file_text_def)

text \<open>The first of \<open>cs\<close> was read.\<close>

definition at_char :: "pst \<Rightarrow> char option list \<Rightarrow> bool" where
  "at_char st cs = (reads st (tl cs) \<and> reads (pungetc st) cs)"

lemma at_char_next_line [simp]: "at_char (next_line st) cs = at_char st cs"
proof -
  have "pungetc (next_line st) = next_line (pungetc st)"
    by (simp add: pungetc_def next_line_def upd_file_def)
  then show ?thesis by (simp add: at_char_def)
qed

lemma pgetc_reads:
  assumes "reads st (c # cs)"
  obtains st' where "pgetc st = (c, st')" "at_char st' (c # cs)"
    "inputst.more st' = inputst.more st" "in_prev st' = in_prev st"
proof -
  obtain d st' where d: "pgetc st = (d, st')" by (cases "pgetc st")
  then have raw: "pgetc_raw (freestrings st) = (d, st')" by (simp add: pgetc_def)
  have unget: "pf_unget (in_file (freestrings st)) = pf_unget (in_file st)"
    by (simp add: freestrings_def)
  have "took d (c # cs) (in_file st')" "pf_unget (in_file st') = 0"
    using pgetc_raw_took [OF _ raw] assms unget by (auto simp: reads_def)
  then have "c = d" "at_char st' (c # cs)"
    by (auto simp: took_def at_char_def reads_def pungetc_def regular_file_def file_text_def ungot_def)
  then show ?thesis
    using that d more_pgetc_raw [OF raw] by simp
qed

lemma eatbnl_reads:
  assumes "reads st (c # cs)" "c \<noteq> Some backslash" "0 < n"
  obtains st' where "pgetc_eatbnl n st = Inr (c, st')" "at_char st' (c # cs)"
    "inputst.more st' = inputst.more st" "in_prev st' = in_prev st"
proof -
  obtain m where m: "n = Suc m" using assms(3) gr0_implies_Suc by blast
  obtain st' where "pgetc st = (c, st')" "at_char st' (c # cs)"
    "inputst.more st' = inputst.more st" "in_prev st' = in_prev st"
    using pgetc_reads [OF assms(1)] by blast
  then show ?thesis
    using that assms(2) m by simp
qed

section \<open>Quoted characters\<close>

definition lexed :: "string \<Rightarrow> nat \<Rightarrow> synstack \<Rightarrow> lexst" where
  "lexed out q f = \<lparr>lx_out = out, lx_quotef = q, lx_bq = [], lx_stack = [f]\<rparr>"

abbreviation base_frame :: synstack where "base_frame \<equiv> new_synstack BASE_SYN"
definition sq_frame :: synstack where "sq_frame = base_frame\<lparr>ss_syntax := SQ_SYN\<rparr>"
definition dq_frame :: synstack where "dq_frame = base_frame\<lparr>ss_syntax := DQ_SYN, ss_dblquote := True\<rparr>"

text \<open>One turn, and the next character.\<close>

lemma lex_loop_next:
  assumes "lex_turn B n No_mark c lx st = Inr (Next_char lx1 st1)" "pgetc_top n lx1 st1 = Inr (d, st2)"
  shows "lex_loop (Suc n) B No_mark False c lx st = lex_loop n B No_mark False d lx1 st2"
  using assms by (simp add: lex_loop.simps)

lemma lex_loop_line:
  assumes "lex_turn B n No_mark c lx st = Inr (Next_line lx1 st1)" "pgetc_top n lx1 st1 = Inr (d, st2)"
  shows "lex_loop (Suc n) B No_mark False c lx st = lex_loop n B No_mark False d lx1 st2"
  using assms by (simp add: lex_loop.simps checkend_def)

lemma schar_eq_iff [simp]: "schar c = schar d \<longleftrightarrow> c = d"
  using schar_inj by auto

lemma schar_peof [simp]: "schar c \<noteq> PEOF"
  by (auto simp: schar_def PEOF_def)

lemma table_simps: "add_class (s, t) tab (schar c) = (if c \<in> set s then t else tab (schar c))"
proof -
  have "fold (\<lambda>c tab. tab(schar c := t)) s tab (schar c) = (if c \<in> set s then t else tab (schar c))"
    by (induction s arbitrary: tab) auto
  then show ?thesis by (simp add: add_class_def)
qed

lemma sq_class:
  "SQSYNTAX (schar c) = CNL \<longleftrightarrow> c = newline_chr" "SQSYNTAX (schar c) = CENDQUOTE \<longleftrightarrow> c = quote_chr"
  "SQSYNTAX (schar c) \<in> {CNL, CENDQUOTE, CCTL, CWORD}"
  by (auto simp: SQSYNTAX_def table_simps init_table_def newline_chr_def quote_chr_def)

lemma quote_classes:
  "BASESYNTAX (schar quote_chr) = CSQUOTE" "BASESYNTAX (schar dquote_chr) = CDQUOTE"
  "DQSYNTAX (schar quote_chr) = CWORD" "DQSYNTAX (schar dquote_chr) = CENDQUOTE"
  by code_simp+

lemma quotes_differ [simp]: "quote_chr \<noteq> dquote_chr" "dquote_chr \<noteq> quote_chr" "newline_chr \<noteq> quote_chr" "newline_chr \<noteq> dquote_chr"
  "quote_chr \<noteq> backslash" "dquote_chr \<noteq> backslash" "newline_chr \<noteq> backslash"
  by (simp_all add: quote_chr_def dquote_chr_def newline_chr_def)

lemma frame_simps [simp]:
  "lx_top (lexed out q f) = f" "lx_put s (lexed out q f) = lexed (out @ s) q f"
  "lx_set g (lexed out q f) = lexed out q (g f)" "lexed out q f\<lparr>lx_quotef := q'\<rparr> = lexed out q' f"
  "lx_quotef (lexed out q f) = q"
  by (simp_all add: lexed_def lx_put_def lx_set_def)

lemma frames [simp]:
  "ss_syntax base_frame = BASE_SYN" "ss_syntax sq_frame = SQ_SYN" "ss_syntax dq_frame = DQ_SYN"
  "ss_varnest base_frame = 0" "ss_varnest sq_frame = 0" "ss_varnest dq_frame = 0"
  "ss_dblquote sq_frame = False"
  "base_frame\<lparr>ss_syntax := SQ_SYN\<rparr> = sq_frame" "base_frame\<lparr>ss_syntax := DQ_SYN, ss_dblquote := True\<rparr> = dq_frame"
  "ss_dqvarnest sq_frame = 0" "ss_dqvarnest dq_frame = 0"
  "sq_frame\<lparr>ss_syntax := BASE_SYN, ss_dblquote := False\<rparr> = base_frame"
  "dq_frame\<lparr>ss_syntax := BASE_SYN, ss_dblquote := False\<rparr> = base_frame"
  by (simp_all add: sq_frame_def dq_frame_def new_synstack_def)

lemma turn_simps [simp]:
  "lex_turn B n No_mark (Some quote_chr) (lexed out q base_frame) st =
     Inr (Next_char (lexed (out @ [CTLQUOTEMARK]) q sq_frame) st)"
  "lex_turn B n No_mark (Some quote_chr) (lexed out q sq_frame) st =
     Inr (Next_char (lexed (out @ [CTLQUOTEMARK]) (Suc q) base_frame) st)"
  "lex_turn B n No_mark (Some dquote_chr) (lexed out q base_frame) st =
     Inr (Next_char (lexed (out @ [CTLQUOTEMARK]) q dq_frame) st)"
  "lex_turn B n No_mark (Some dquote_chr) (lexed out q dq_frame) st =
     Inr (Next_char (lexed (out @ [CTLQUOTEMARK]) (Suc q) base_frame) st)"
  using sq_class(2) [of quote_chr]
  by (simp_all add: lex_turn_def char_class_def quote_classes start_squote_def start_dquote_def end_quote_def
      quotemark_def toggledq_def stored_def Let_def)

section \<open>Words without expansions\<close>

text \<open>
  The text that such a word has after the lexer: quote marks, escaped characters, and characters that
  mean nothing to the expansion.
\<close>

definition plain_item :: "char \<Rightarrow> bool" where
  "plain_item c = (c \<notin> set (drop 2 spclchars) \<and> c \<noteq> NUL \<and> c \<notin> set ''*?[~='' \<and> c \<noteq> backslash)"

inductive lexeme :: "string \<Rightarrow> string \<Rightarrow> bool" where
  Nil: "lexeme [] []"
| Mark: "lexeme s w \<Longrightarrow> lexeme s (CTLQUOTEMARK # w)"
| Esc: "lexeme s w \<Longrightarrow> c \<noteq> NUL \<Longrightarrow> lexeme (c # s) (CTLESC # c # w)"
| Plain: "lexeme s w \<Longrightarrow> plain_item c \<Longrightarrow> lexeme (c # s) (c # w)"

fun frame_of :: "quoting \<Rightarrow> synstack" where
  "frame_of Plain = base_frame"
| "frame_of Single = sq_frame"
| "frame_of Double = dq_frame"

text \<open>A character that is neither a quote nor an end: it is put, with or without an escape.\<close>

definition item :: "quoting \<Rightarrow> char \<Rightarrow> string" where
  "item m c = (if syntax_of (ss_syntax (frame_of m)) (schar c) = CCTL then [CTLESC, c] else [c])"

definition own_char :: "quoting \<Rightarrow> char \<Rightarrow> bool" where
  "own_char m c =
     (case m of
        Plain \<Rightarrow> c \<noteq> quote_chr \<and> c \<noteq> dquote_chr \<and> c \<notin> set ''|&;<>()$` *?[#~=%'' \<and> c \<noteq> backslash \<and> c \<noteq> tab_chr \<and> c \<noteq> newline_chr
      | Single \<Rightarrow> c \<noteq> quote_chr
      | Double \<Rightarrow> c \<noteq> dquote_chr \<and> c \<noteq> CHR ''$'' \<and> c \<noteq> CHR ''`'' \<and> c \<noteq> backslash)"

lemma own_class:
  "own_char Plain c \<Longrightarrow> BASESYNTAX (schar c) \<in> {CWORD, CCTL, CENDVAR}"
  "own_char Single c \<Longrightarrow> SQSYNTAX (schar c) \<in> {CWORD, CCTL, CNL}"
  "own_char Double c \<Longrightarrow> DQSYNTAX (schar c) \<in> {CWORD, CCTL, CENDVAR, CNL}"
  by (auto simp: own_char_def BASESYNTAX_def SQSYNTAX_def DQSYNTAX_def table_simps init_table_def quote_chr_def dquote_chr_def tab_chr_def newline_chr_def)

lemma own_newline:
  "own_char m c \<Longrightarrow> syntax_of (ss_syntax (frame_of m)) (schar c) = CNL \<Longrightarrow> m \<noteq> Plain"
  using own_class(1) by (cases m) force+

lemma own_turn:
  assumes "own_char m c"
  shows "lex_turn B n No_mark (Some c) (lexed out q (frame_of m)) st =
    (if syntax_of (ss_syntax (frame_of m)) (schar c) = CNL then Inr (Next_line (lexed (out @ item m c) q (frame_of m)) (next_line st))
     else Inr (Next_char (lexed (out @ item m c) q (frame_of m)) st))"
  using assms own_class [of c] own_newline [OF assms]
  by (cases m) (auto simp: lex_turn_def char_class_def put_ctl_def end_var_def stored_def item_def Let_def)

lemma special_classes:
  "list_all (\<lambda>c. BASESYNTAX (schar c) = CCTL \<and> SQSYNTAX (schar c) = CCTL \<and> DQSYNTAX (schar c) = CCTL) (drop 2 spclchars)"
  "list_all (\<lambda>c. SQSYNTAX (schar c) = CCTL \<and> DQSYNTAX (schar c) = CCTL) ''*?[~=''" "SQSYNTAX (schar backslash) = CCTL"
  by code_simp+

lemma spcl_class: "c \<in> set (drop 2 spclchars) \<Longrightarrow> syntax_of k (schar c) = CCTL \<or> k = ARI_SYN"
  using special_classes(1) unfolding list_all_iff by (cases k) simp_all

lemma meta_class: "c \<in> set ''*?[~='' \<Longrightarrow> SQSYNTAX (schar c) = CCTL \<and> DQSYNTAX (schar c) = CCTL"
  using special_classes(2) unfolding list_all_iff by blast

lemma frame_not_ari [simp]: "ss_syntax (frame_of m) \<noteq> ARI_SYN"
  by (cases m) simp_all

lemma own_plain:
  assumes "own_char m c" "c \<noteq> NUL" "syntax_of (ss_syntax (frame_of m)) (schar c) \<noteq> CCTL"
  shows "plain_item c"
proof -
  have "c \<notin> set (drop 2 spclchars)" using spcl_class [of c "ss_syntax (frame_of m)"] assms(3) by auto
  moreover have "c \<notin> set ''*?[~=''"
  proof
    assume c: "c \<in> set ''*?[~=''"
    then have "m = Plain" using meta_class [OF c] assms(3) by (cases m) simp_all
    then show False using c assms(1) by (auto simp: own_char_def)
  qed
  moreover have "c \<noteq> backslash" using assms(1,3) special_classes(3) by (cases m) (auto simp: own_char_def)
  ultimately show ?thesis using assms(2) unfolding plain_item_def by blast
qed

lemma own_item:
  assumes "own_char m c" "c \<noteq> NUL" "lexeme s w"
  shows "lexeme (c # s) (item m c @ w)"
  using assms own_plain [OF assms(1,2)] by (auto simp: item_def intro: lexeme.intros)

text \<open>The reference takes a word apart in the same steps.\<close>

lemma dequote_steps:
  assumes "sh_dequote m (c # t) = Some s"
  obtains (own) s' where "own_char m c" "s = c # s'" "sh_dequote m t = Some s'"
  | (sq) "c = quote_chr" "m = Plain" "sh_dequote Single t = Some s"
  | (dq) "c = dquote_chr" "m = Plain" "sh_dequote Double t = Some s"
  | (end_sq) "c = quote_chr" "m = Single" "sh_dequote Plain t = Some s"
  | (end_dq) "c = dquote_chr" "m = Double" "sh_dequote Plain t = Some s"
  using assms by (cases m) (auto simp: own_char_def split: if_splits)

lemma dequote_head:
  assumes "sh_dequote m t = Some s" "m \<noteq> Single" "d \<noteq> backslash"
  shows "hd (t @ [d]) \<noteq> backslash"
  using assms by (cases t; cases m) (auto split: if_splits)

text \<open>The next character, in any quotes.\<close>

lemma top_reads:
  assumes "reads st (c # cs)" "m \<noteq> Single \<longrightarrow> c \<noteq> Some backslash" "0 < n"
  obtains st' where "pgetc_top n (lexed out q (frame_of m)) st = Inr (c, st')" "at_char st' (c # cs)" "inputst.more st' = inputst.more st" "in_prev st' = in_prev st"
proof (cases "m = Single")
  case True
  obtain st' where "pgetc st = (c, st')" "at_char st' (c # cs)"
    "inputst.more st' = inputst.more st" "in_prev st' = in_prev st"
    using pgetc_reads [OF assms(1)] by blast
  then show ?thesis using that True by (simp add: pgetc_top_def)
next
  case False
  then obtain st' where "pgetc_eatbnl n st = Inr (c, st')" "at_char st' (c # cs)"
    "inputst.more st' = inputst.more st" "in_prev st' = in_prev st"
    using eatbnl_reads [OF assms(1) _ assms(3)] assms(2) by blast
  moreover have "ss_syntax (frame_of m) \<noteq> SQ_SYN" using False by (cases m) simp_all
  ultimately show ?thesis using that by (simp add: pgetc_top_def)
qed

text \<open>
  \<open>t\<close> is read from the quotes \<open>m\<close> on, up to \<open>d\<close>; the present character is the first of these. The count
  of quotes grows if there are any.
\<close>

definition has_quotes :: "quoting \<Rightarrow> string \<Rightarrow> bool" where
  "has_quotes m t = (m \<noteq> Plain \<or> quote_chr \<in> set t \<or> dquote_chr \<in> set t)"

definition word_read ::
    "backq_fun \<Rightarrow> quoting \<Rightarrow> string \<Rightarrow> string \<Rightarrow> char \<Rightarrow> char option list \<Rightarrow> string \<Rightarrow> nat \<Rightarrow> nat \<Rightarrow> pst \<Rightarrow> bool" where
  "word_read B m t s d rest out k n st \<longleftrightarrow>
     (\<exists>w k' st'. lex_loop (length t + n) B No_mark False (Some (hd (t @ [d]))) (lexed out k (frame_of m)) st =
        lex_loop n B No_mark False (Some d) (lexed (out @ w) k' base_frame) st' \<and>
      lexeme s w \<and> (t \<noteq> [] \<longrightarrow> w \<noteq> []) \<and> k \<le> k' \<and> (has_quotes m t \<longrightarrow> k < k') \<and> at_char st' (Some d # rest) \<and>
      inputst.more st' = inputst.more st \<and> in_prev st' = in_prev st)"

lemma word_read_step:
  assumes turn: "lex_turn B (length t + n) No_mark (Some c) (lexed out k (frame_of m)) st =
      Inr (if line then Next_line (lexed (out @ v) k1 (frame_of m1)) (next_line st) else Next_char (lexed (out @ v) k1 (frame_of m1)) st)"
    and st: "at_char st (map Some (c # t @ [d]) @ rest)"
    and tail: "sh_dequote m1 t = Some s1" "d \<noteq> backslash" "0 < n"
    and IH: "\<And>st. at_char st (map Some (t @ [d]) @ rest) \<Longrightarrow> word_read B m1 t s1 d rest (out @ v) k1 n st"
    and lex: "\<And>w. lexeme s1 w \<Longrightarrow> lexeme s (v @ w)" "v \<noteq> []" and k: "k \<le> k1" "has_quotes m (c # t) \<Longrightarrow> k < k1 \<or> has_quotes m1 t"
  shows "word_read B m (c # t) s d rest out k n st"
proof -
  let ?st = "if line then next_line st else st" and ?lx = "lexed (out @ v) k1 (frame_of m1)"
  have r: "reads ?st (Some (hd (t @ [d])) # map Some (tl (t @ [d])) @ rest)"
    using st by (cases t) (simp_all add: at_char_def)
  have "m1 \<noteq> Single \<longrightarrow> Some (hd (t @ [d])) \<noteq> Some backslash" "0 < length t + n"
    using dequote_head [OF tail(1) _ tail(2)] tail(3) by auto
  from top_reads [where out = "out @ v" and q = k1, OF r this] obtain st' where
    st': "pgetc_top (length t + n) ?lx ?st = Inr (Some (hd (t @ [d])), st')"
      "at_char st' (Some (hd (t @ [d])) # map Some (tl (t @ [d])) @ rest)" and "inputst.more st' = inputst.more ?st" "in_prev st' = in_prev ?st"
    by blast
  have tail_at: "at_char st' (map Some (t @ [d]) @ rest)" using st'(2) by (cases t) simp_all
  have same: "inputst.more st' = inputst.more st" "in_prev st' = in_prev st"
    using \<open>inputst.more st' = _\<close> \<open>in_prev st' = _\<close> by (simp_all split: if_splits)
  have "lex_loop (length (c # t) + n) B No_mark False (Some c) (lexed out k (frame_of m)) st =
      lex_loop (length t + n) B No_mark False (Some (hd (t @ [d]))) ?lx st'"
    using turn st'(1) by (auto simp: lex_loop_next lex_loop_line split: if_splits)
  then show ?thesis
    using IH [OF tail_at] lex k same unfolding word_read_def by fastforce
qed

lemma lex_word:
  assumes "d \<noteq> backslash" "0 < n" "NUL \<notin> set s" "sh_dequote m t = Some s" "at_char st (map Some (t @ [d]) @ rest)"
  shows "word_read B m t s d rest out k n st"
  using assms
proof (induction t arbitrary: m s out k st)
  case Nil
  then have "m = Plain" "s = []" by (cases m; simp)+
  then show ?case
    using Nil lexeme.Nil unfolding word_read_def by (force simp: has_quotes_def)
next
  case (Cons c t)
  note IH = Cons.IH [OF Cons.prems(1,2)]
  from Cons.prems have st: "at_char st (map Some (c # t @ [d]) @ rest)" by simp
  note step = word_read_step [OF _ st _ Cons.prems(1,2)]
  from Cons.prems(4) show ?case
  proof (cases rule: dequote_steps)
    case (own s')
    then show ?thesis
      using Cons.prems(3) own_turn [OF own(1)] own_item [OF own(1)]
      by (intro step [where v = "item m c" and ?m1.0 = m and ?s1.0 = s' and ?k1.0 = k]) (auto simp: has_quotes_def own_char_def item_def intro!: IH)
  next
    case sq
    then show ?thesis
      using Cons.prems(3)
      by (intro step [where v = "[CTLQUOTEMARK]" and ?m1.0 = Single and ?s1.0 = s and ?k1.0 = k and line = False])
        (auto simp: has_quotes_def intro!: IH lexeme.Mark)
  next
    case dq
    then show ?thesis
      using Cons.prems(3)
      by (intro step [where v = "[CTLQUOTEMARK]" and ?m1.0 = Double and ?s1.0 = s and ?k1.0 = k and line = False])
        (auto simp: has_quotes_def intro!: IH lexeme.Mark)
  next
    case end_sq
    then show ?thesis
      using Cons.prems(3)
      by (intro step [where v = "[CTLQUOTEMARK]" and ?m1.0 = Plain and ?s1.0 = s and ?k1.0 = "Suc k" and line = False])
        (auto simp: has_quotes_def intro!: IH lexeme.Mark)
  next
    case end_dq
    then show ?thesis
      using Cons.prems(3)
      by (intro step [where v = "[CTLQUOTEMARK]" and ?m1.0 = Plain and ?s1.0 = s and ?k1.0 = "Suc k" and line = False])
        (auto simp: has_quotes_def intro!: IH lexeme.Mark)
  qed
qed

text \<open>The end of the word; the end of a line, a blank or an operator other than a redirection.\<close>

definition ends_token :: "char \<Rightarrow> bool" where
  "ends_token d = ((BASESYNTAX (schar d) = CSPCL \<and> d \<noteq> CHR ''<'' \<and> d \<noteq> CHR ''>'') \<or> d = newline_chr)"

lemma ends_class: "BASESYNTAX (schar newline_chr) = CNL" "BASESYNTAX (schar backslash) = CBACK"
  by code_simp+

lemma ends_token_char: "ends_token d \<Longrightarrow> d \<noteq> backslash"
  using ends_class by (auto simp: ends_token_def newline_chr_def)

lemma end_turn:
  "ends_token d \<Longrightarrow> lex_turn B n No_mark (Some d) (lexed out k base_frame) st = Inr End_word"
  using ends_class(1) by (auto simp: ends_token_def lex_turn_def char_class_def)

lemma word_end:
  "ends_token d \<Longrightarrow> end_word n No_mark (Some d) (lexed out k base_frame) st =
     Inr (TWORD, (pungetc st)\<lparr>p_quoteflag := k, p_backq := [], p_wordtext := out, p_lasttoken := TWORD\<rparr>)"
  using ends_class(1) by (auto simp: newline_chr_def ends_token_def end_word_def lexed_def Let_def new_synstack_def)

text \<open>What \<open>readtoken1\<close> leaves of a state: the input, and what a word sets.\<close>

definition word_state :: "pst \<Rightarrow> string \<Rightarrow> nat \<Rightarrow> char option list \<Rightarrow> pst \<Rightarrow> bool" where
  "word_state st w q cs st' \<longleftrightarrow> reads st' cs \<and> p_wordtext st' = w \<and> p_quoteflag st' = q \<and> p_backq st' = [] \<and>
     p_lasttoken st' = TWORD \<and> p_pushback st' = p_pushback st \<and> p_heredocs st' = p_heredocs st \<and> p_docs st' = p_docs st \<and>
     p_nhere st' = p_nhere st \<and> in_prev st' = in_prev st"

lemma more_pst:
  assumes "inputst.more st' = inputst.more (st :: pst)"
  shows "p_pushback st' = p_pushback st" "p_heredocs st' = p_heredocs st" "p_docs st' = p_docs st" "p_nhere st' = p_nhere st"
    "p_lasttoken st' = p_lasttoken st" "p_wordtext st' = p_wordtext st" "p_quoteflag st' = p_quoteflag st" "p_backq st' = p_backq st"
  using assms by (cases st; cases st'; simp)+

lemma reads_update [simp]:
  "reads (st\<lparr>p_quoteflag := q, p_backq := b, p_wordtext := w, p_lasttoken := t\<rparr>) cs = reads st cs"
  by (simp add: reads_def)

lemma readtoken1_word:
  assumes "sh_dequote Plain t = Some s" "NUL \<notin> set s" "t \<noteq> []" "ends_token d" "length t + 1 < n"
    and "at_char st (map Some (t @ [d]) @ rest)"
  obtains w q st' where "readtoken1 n B (Some (hd t)) BASE_SYN No_mark False st = Inr (TWORD, st')"
    "word_state st w q (Some d # rest) st'" "lexeme s w" "w \<noteq> []" "has_quotes Plain t \<longrightarrow> 0 < q"
proof -
  obtain m where n: "n = length t + Suc (Suc m)"
    using assms(5) by (metis add.commute add_Suc_right less_imp_Suc_add add_Suc plus_1_eq_Suc)
  have "word_read B Plain t s d rest [] 0 (Suc (Suc m)) st"
    using lex_word [OF ends_token_char [OF assms(4)] _ assms(2,1,6)] by blast
  then obtain w q st' where
    loop: "lex_loop n B No_mark False (Some (hd t)) (lexed [] 0 base_frame) st =
        lex_loop (Suc (Suc m)) B No_mark False (Some d) (lexed w q base_frame) st'"
      "lexeme s w" "w \<noteq> []" "has_quotes Plain t \<longrightarrow> 0 < q" "at_char st' (Some d # rest)" "inputst.more st' = inputst.more st" "in_prev st' = in_prev st"
    using assms(3) unfolding word_read_def n by (cases t) auto
  let ?st = "(pungetc st')\<lparr>p_quoteflag := q, p_backq := [], p_wordtext := w, p_lasttoken := TWORD\<rparr>"
  have "start_lex BASE_SYN = lexed [] 0 base_frame"
    by (simp add: start_lex_def lexed_def new_synstack_def)
  then have "readtoken1 n B (Some (hd t)) BASE_SYN No_mark False st = Inr (TWORD, ?st)"
    using loop(1) assms(4) by (simp add: readtoken1_def checkend_def lex_loop.simps end_turn word_end)
  moreover have "word_state st w q (Some d # rest) ?st"
    using loop(5-7) more_pst [of "pungetc st'" st] by (simp add: word_state_def at_char_def)
  ultimately show ?thesis using that loop(2-4) by blast
qed

lemma word_head:
  assumes "sh_dequote Plain t = Some s" "t \<noteq> []"
  shows "hd t \<notin> set '' #&|;()'' \<and> hd t \<noteq> tab_chr \<and> hd t \<noteq> newline_chr \<and> hd t \<noteq> backslash"
proof -
  obtain c t' where t: "t = c # t'" using assms(2) by (cases t) auto
  show ?thesis
  proof (cases "c = quote_chr \<or> c = dquote_chr")
    case True
    then show ?thesis by (auto simp: t quote_chr_def dquote_chr_def tab_chr_def newline_chr_def)
  next
    case False
    then show ?thesis using assms(1) by (auto simp: t split: if_splits)
  qed
qed

text \<open>The token that a word is, behind any number of blanks.\<close>

lemma next_token_word:
  assumes "sh_dequote Plain t = Some s" "NUL \<notin> set s" "t \<noteq> []" "ends_token d" "b + length t + 2 < n"
    and "reads st (replicate b (Some (CHR '' '')) @ map Some (t @ [d]) @ rest)"
  obtains w q st' where "next_token n B st = Inr (TWORD, st')" "word_state st w q (Some d # rest) st'" "lexeme s w" "w \<noteq> []"
    "has_quotes Plain t \<longrightarrow> 0 < q"
proof -
  have "\<exists>w q st'. next_token n B st = Inr (TWORD, st') \<and> word_state st w q (Some d # rest) st' \<and> lexeme s w \<and> w \<noteq> [] \<and>
      (has_quotes Plain t \<longrightarrow> 0 < q)"
    using assms(5,6)
  proof (induction b arbitrary: n st)
    case 0
    obtain m where m: "n = Suc m" "0 < m" "length t + 1 < m" using 0(1) by (cases n) auto
    obtain c t' where t: "t = c # t'" using assms(3) by (cases t) auto
    obtain st1 where st1: "pgetc_eatbnl m st = Inr (Some c, st1)" "at_char st1 (map Some (t @ [d]) @ rest)"
      "inputst.more st1 = inputst.more st" "in_prev st1 = in_prev st"
      using eatbnl_reads [of st "Some c" "map Some (t' @ [d]) @ rest" m] 0(2) word_head [OF assms(1,3)] m(2) by (auto simp: t)
    obtain w q st' where "readtoken1 m B (Some (hd t)) BASE_SYN No_mark False st1 = Inr (TWORD, st')"
      "word_state st1 w q (Some d # rest) st'" "lexeme s w" "w \<noteq> []" "has_quotes Plain t \<longrightarrow> 0 < q"
      using readtoken1_word [OF assms(1-4) m(3) st1(2)] by blast
    then show ?case
      using st1 word_head [OF assms(1,3)] more_pst [OF st1(3)]
      by (auto simp: m(1) t next_token.simps word_state_def)
  next
    case (Suc b)
    obtain m where m: "n = Suc m" "0 < m" "b + length t + 2 < m" using Suc.prems(1) by (cases n) auto
    obtain st1 where st1: "pgetc_eatbnl m st = Inr (Some (CHR '' ''), st1)"
      "reads st1 (replicate b (Some (CHR '' '')) @ map Some (t @ [d]) @ rest)"
      "inputst.more st1 = inputst.more st" "in_prev st1 = in_prev st"
      using eatbnl_reads [of st "Some (CHR '' '')" _ m] Suc.prems(2) m(2) by (auto simp: at_char_def)
    show ?case
      using Suc.IH [OF m(3) st1(2)] st1 more_pst [OF st1(3)] by (simp add: m(1) next_token.simps word_state_def)
  qed
  then show ?thesis using that by blast
qed

section \<open>The expansion of such a word\<close>

lemma lexeme_chars: "lexeme s w \<Longrightarrow> NUL \<notin> set w \<and> NUL \<notin> set s"
  by (induction rule: lexeme.induct) (auto simp: plain_item_def ctl_defs)

lemma lexeme_start: "lexeme s w \<Longrightarrow> take 1 w \<noteq> ''~'' \<and> take 1 w \<noteq> [CTLVAR]"
  by (induction rule: lexeme.induct) (auto simp: plain_item_def ctl_defs spclchars_def)

lemma lexeme_not_at: "lexeme s w \<Longrightarrow> take 5 w \<noteq> drop 1 dolatstr"
  using lexeme_start [of s w] by (cases w) (auto simp: dolatstr_def)

lemma argloop_lexeme:
  assumes "lexeme s w"
  shows "length w < n \<Longrightarrow> argloop n sys (u @ w) (length u) 2 q loc False {EXP_FULL} st = Inr (None, xappend (u @ w @ [NUL]) st)"
  using assms
proof (induction arbitrary: n u q loc st rule: lexeme.induct)
  case Nil
  then obtain m where "n = Suc m" by (cases n) auto
  then show ?case by (simp add: argloop.simps arg_turn_def put_plain_def Let_def)
next
  case (Mark s w)
  then obtain m where m: "n = Suc m" "length w < m" by (cases n) auto
  show ?case
    using Mark.IH [OF m(2), of "[CTLQUOTEMARK]"] lexeme_not_at [OF Mark.hyps] stop_chars
    by (auto simp: m(1) argloop.simps arg_turn_def put_plain_def quotes_esc_def Let_def)
next
  case (Esc s w c)
  then obtain m where m: "n = Suc m" "length w < m" by (cases n) auto
  have "CTLESC \<in> set (drop 2 spclchars)" "\<not> ends_word CTLESC" "CTLESC \<noteq> CHR ''=''" "CTLESC \<noteq> CHR '':''" "CTLESC \<noteq> CTLQUOTEMARK"
    by (simp_all add: spclchars_def ends_word_def ctl_defs)
  then show ?case
    using Esc.IH [OF m(2), of "[CTLESC, c]"]
    by (simp add: m(1) argloop.simps arg_turn_def put_plain_def quotes_esc_def Let_def numeral_2_eq_2)
next
  case (Plain s w c)
  then obtain m where m: "n = Suc m" "length w < n" by (cases n) auto
  have "argloop n sys (u @ c # w) (length u) 2 q loc False {EXP_FULL} st =
      argloop n sys ((u @ [c]) @ w) (length (u @ [c])) 2 q loc False {EXP_FULL} st"
    using Plain.hyps(2) by (simp add: m(1) argloop.simps plain_item_def)
  then show ?case using Plain.IH [OF m(2), of "u @ [c]"] by simp
qed

text \<open>A pattern whose special characters all have a backslash in front of them.\<close>

inductive quiet :: "string \<Rightarrow> bool" where
  Nil: "quiet []"
| Esc: "quiet p \<Longrightarrow> quiet (backslash # c # p)"
| Own: "quiet p \<Longrightarrow> c \<notin> set ''*?['' \<Longrightarrow> c \<noteq> backslash \<Longrightarrow> quiet (c # p)"

lemma meta_scan_quiet: "quiet p \<Longrightarrow> fst (meta_scan (pre @ p) start (length pre) False) = False"
proof (induction arbitrary: pre start rule: quiet.induct)
  case Nil
  then show ?case by (simp add: meta_scan.simps)
next
  case (Esc p c)
  have "meta_scan (pre @ backslash # c # p) start (length pre) False =
      meta_scan (pre @ backslash # c # p) (if c = CHR ''/'' then length pre + 2 else start) (length pre + 2) False"
    by (subst meta_scan.simps) (simp add: nth_app Let_def)
  then show ?case using Esc.IH [of "pre @ [backslash, c]"] by simp
next
  case (Own p c)
  have "meta_scan (pre @ c # p) start (length pre) False =
      meta_scan (pre @ c # p) (if c = CHR ''/'' then length pre + 1 else start) (length pre + 1) False"
    using Own.hyps by (subst meta_scan.simps) (simp add: nth_app Let_def)
  then show ?case using Own.IH [of "pre @ [c]"] by simp
qed

lemma expmeta_quiet: "quiet p \<Longrightarrow> expmeta sys p [] = []"
  using meta_scan_quiet [of p "[]" 0] by (subst expmeta.simps) (auto split: prod.splits)

lemma lexeme_escapes:
  assumes "lexeme s w"
  shows "rmescapes_loop False False w = Inr s" "\<exists>p. rmescapes_loop True True w = Inr p \<and> quiet p"
  using assms
proof (induction rule: lexeme.induct)
  case Nil
  { case 1 show ?case by simp next case 2 show ?case by (auto intro: quiet.Nil) }
next
  case (Mark s w)
  { case 1 show ?case using Mark by simp next case 2 show ?case using Mark by simp }
next
  case (Esc s w c)
  { case 1 show ?case using Esc by (simp add: ctl_defs)
  next
    case 2
    obtain p where "rmescapes_loop True True w = Inr p" "quiet p" using Esc by blast
    then show ?case by (auto simp: ctl_defs intro: quiet.Esc) }
next
  case (Plain s w c)
  have c: "c \<noteq> CTLQUOTEMARK" "c \<noteq> CTLESC" "c \<noteq> backslash" "c \<notin> set ''*?[''"
    using Plain.hyps(2) by (auto simp: plain_item_def spclchars_def)
  { case 1 show ?case using Plain c by simp
  next
    case 2
    obtain p where "rmescapes_loop True True w = Inr p" "quiet p" using Plain by blast
    then show ?case using c by (auto intro: quiet.Esc quiet.Own) }
qed

lemma lexeme_prefix: "lexeme s w \<Longrightarrow> backslash \<notin> set (takeWhile (\<lambda>c. \<not> is_cqchar c) w)"
  by (induction rule: lexeme.induct) (auto simp: is_cqchar_def plain_item_def)

lemma expand_name_lexeme: "lexeme s w \<Longrightarrow> expand_name sys sh w = Inr [s]"
  using lexeme_escapes [of s w] lexeme_prefix [of s w] by (auto simp: expand_name_def rmescapes_is_loop expmeta_quiet)

lemma expandarg_lexeme:
  assumes "lexeme s w" "w \<noteq> []" "xregs st = []"
  shows "\<exists>st'. expandarg sys w backq {EXP_FULL, EXP_TILDE} st = Inr ([s], st') \<and> xsh st' = xsh st \<and> xworld st' = xworld st \<and> xregs st' = []"
proof -
  have "length w < arg_fuel w" by (simp add: arg_fuel_def)
  from argloop_lexeme [OF assms(1) this, where u = "[]"]
  have "argstr sys w {EXP_FULL, EXP_TILDE} (start_word backq st) = Inr (None, xappend (w @ [NUL]) (start_word backq st))"
    using lexeme_start [OF assms(1)] by (simp add: argstr_plain_flags)
  moreover have "ifsbreakup ifs (w @ [NUL]) (- 1) [] = Inr [w]" for ifs
    using buf_text_at [of w "[]" "[]"] lexeme_chars [OF assms(1)] assms(2) by (cases w) (auto simp: ifsbreakup_def rd_def)
  ultimately show ?thesis
    using assms(3) expand_name_lexeme [OF assms(1), of sys "xsh st"] by (simp add: expandarg_def start_word_def ifsfree_def)
qed

lemma ctl_no_name: "\<not> is_in_name CTLESC" "\<not> is_in_name CTLQUOTEMARK" "CTLESC \<noteq> CHR ''=''"
  by code_simp+

lemma lexeme_no_assignment:
  assumes "lexeme s w"
  shows "\<not> isassignment w"
proof -
  have "take 1 (dropWhile is_in_name w) \<noteq> ''=''"
    using assms by (induction rule: lexeme.induct) (auto simp: ctl_no_name plain_item_def)
  moreover have "is_in_name c" if "is_name c" for c
    using that by (auto simp: is_name_def is_in_name_def isalnum_def)
  ultimately show ?thesis
    by (cases w) (auto simp: isassignment_def endofname_def Let_def)
qed


text \<open>An example: the input is a string, and there are no aliases.\<close>

definition example_pst :: "string \<Rightarrow> pst" where
  "example_pst s =
     \<lparr>in_file = string_file s, in_prev = [], in_aliases = empty_aliases, in_kwd = {}, p_pushback = False, p_lasttoken = TEOF,
      p_wordtext = [], p_backq = [], p_quoteflag = 0, p_redir = Rfile NTO 0, p_heredocs = [], p_nhere = 0, p_docs = [], p_unset = 0\<rparr>"

lemma example_pst_reads: "reads (example_pst s) (map Some s)"
  by (simp add: reads_def example_pst_def string_file_def regular_file_def file_text_def ungot_def reads_text_def)

definition tree_sys :: "(tree, unit) expsys" where
  "tree_sys =
     \<lparr>sys_rootpid = 42, sys_status = (\<lambda>_. 0), sys_bgpid = (\<lambda>_. 0), sys_arg0 = Some ''sh'',
      sys_backcmd = (\<lambda>c sh w. ([], w)), sys_pwhome = (\<lambda>_. None), sys_pmatch = (\<lambda>p s. p = s),
      sys_opendir = (\<lambda>_. Some [''a'']), sys_lstat = (\<lambda>_. True), sys_alloc = (\<lambda>_. 0), sys_ylval = Yval 0, sys_token = 0\<rparr>"

definition tree_st :: "(tree, unit) expst" where
  "tree_st = \<lparr>xbuf = [], xregs = [], xbackq = [], xsh = static_shell, xworld = ()\<rparr>"


end
