(* ===== verification/Sh_Parser_Laws.thy ===== *)
theory Sh_Parser_Laws
  imports Sh_Parser Sh_Lexer_Laws
begin

text \<open>
  What the parser makes of tokens: a line of quoted words is a simple command with these words.
\<close>

section \<open>Tokens\<close>

lemma set_kwd_simps [simp]:
  "reads (set_kwd k st) cs = reads st cs" "in_kwd (set_kwd k st) = k" "in_file (set_kwd k st) = in_file st"
  "in_prev (set_kwd k st) = in_prev st" "set_kwd k (set_kwd k' st) = set_kwd k st"
  "p_pushback (set_kwd k st) = p_pushback st" "p_lasttoken (set_kwd k st) = p_lasttoken st"
  "p_wordtext (set_kwd k st) = p_wordtext st" "p_quoteflag (set_kwd k st) = p_quoteflag st"
  "p_backq (set_kwd k st) = p_backq st" "p_heredocs (set_kwd k st) = p_heredocs st"
  by (simp_all add: set_kwd_def reads_def)

lemma push_simps [simp]:
  "reads (push_token st) cs = reads st cs" "p_pushback (push_token st)" "p_lasttoken (push_token st) = p_lasttoken st"
  "p_quoteflag (push_token st) = p_quoteflag st" "p_wordtext (push_token st) = p_wordtext st" "p_backq (push_token st) = p_backq st"
  "p_heredocs (push_token st) = p_heredocs st" "in_kwd (push_token st) = in_kwd st" "in_file (push_token st) = in_file st"
  by (simp_all add: push_token_def reads_def)

lemma reads_pushback [simp]: "reads (st\<lparr>p_pushback := b\<rparr>) cs = reads st cs"
  by (simp add: reads_def)

lemma readtoken_pushed:
  assumes "p_pushback st" "1 < n" "p_lasttoken st = TWORD \<Longrightarrow> p_quoteflag st \<noteq> 0" "p_lasttoken st = TNL \<Longrightarrow> CHKNL \<notin> in_kwd st"
  shows "readtoken n B st = Inr (p_lasttoken st, set_kwd {} (st\<lparr>p_pushback := False\<rparr>))"
proof -
  obtain m where m: "n = Suc (Suc m)" using assms(2) by (cases n; cases "n - 1") auto
  have "xxreadtoken (Suc m) B st = Inr (p_lasttoken st, st\<lparr>p_pushback := False\<rparr>)"
    using assms(1) by (simp add: xxreadtoken_def)
  then show ?thesis
    unfolding m readtoken_def readtoken_loop.simps using assms(3,4) by (cases "p_lasttoken st = TNL"; cases "p_lasttoken st = TWORD") (simp_all add: Let_def set_kwd_def)
qed

lemma readtoken_word:
  assumes "sh_dequote Plain t = Some s" "NUL \<notin> set s" "t \<noteq> []" "has_quotes Plain t" "ends_token d" "b + length t + 3 < n"
    and "reads st (replicate b (Some (CHR '' '')) @ map Some (t @ [d]) @ rest)" "\<not> p_pushback st" "p_heredocs st = []"
  obtains w st' where "readtoken n B st = Inr (TWORD, st')" "lexeme s w" "w \<noteq> []" "reads st' (Some d # rest)"
    "makename st' = NARG w []" "p_lasttoken st' = TWORD" "p_quoteflag st' \<noteq> 0" "\<not> p_pushback st'" "p_heredocs st' = []"
proof -
  obtain m where m: "n = Suc (Suc m)" "b + length t + 2 < Suc m" using assms(6) by (cases n; cases "n - 1") auto
  obtain w q st' where nt: "next_token (Suc m) B st = Inr (TWORD, st')" "word_state st w q (Some d # rest) st'" "lexeme s w" "w \<noteq> []"
    "has_quotes Plain t \<longrightarrow> 0 < q"
    by (rule next_token_word [OF assms(1-3,5) m(2) assms(7)])
  then have "readtoken n B st = Inr (TWORD, set_kwd {} st')"
    using assms(4,8) by (auto simp: readtoken_def readtoken_loop.simps xxreadtoken_def word_state_def m(1))
  then show ?thesis
    using that [of "set_kwd {} st'" w] nt assms(4,8,9) by (simp add: word_state_def makename_def)
qed

lemma readtoken_newline:
  assumes "reads st (Some newline_chr # rest)" "\<not> p_pushback st" "p_heredocs st = []" "CHKNL \<notin> in_kwd st" "3 < n"
  obtains st' where "readtoken n B st = Inr (TNL, st')" "reads st' rest" "p_lasttoken st' = TNL" "\<not> p_pushback st'" "p_heredocs st' = []"
    "in_kwd st' = {}"
proof -
  obtain m where m: "n = Suc (Suc m)" "0 < m" using assms(5) by (cases n; cases "n - 1") auto
  obtain st1 where st1: "pgetc_eatbnl m st = Inr (Some newline_chr, st1)" "at_char st1 (Some newline_chr # rest)"
    "inputst.more st1 = inputst.more st"
    by (rule eatbnl_reads [OF assms(1) _ m(2)]) simp_all
  let ?st = "(next_line st1)\<lparr>p_lasttoken := TNL\<rparr>"
  have "next_token (Suc m) B st = Inr (TNL, ?st)"
    using st1 by (simp add: next_token.simps got_def newline_chr_def tab_chr_def)
  then have "readtoken n B st = Inr (TNL, set_kwd {} ?st)"
    using assms(2,4) by (simp add: readtoken_def readtoken_loop.simps xxreadtoken_def m(1))
  moreover have "reads ?st rest" using st1(2) reads_next_line [of st1 rest] by (simp add: at_char_def reads_def)
  moreover have "inputst.more (next_line st1) = inputst.more st" using st1(3) by simp
  ultimately show ?thesis
    using that [of "set_kwd {} ?st"] more_pst [of "next_line st1" st] assms(2,3) by simp
qed

section \<open>Simple commands of quoted words\<close>

definition word_of :: "string \<Rightarrow> arg \<Rightarrow> bool" where
  "word_of s a = (\<exists>w. a = NARG w [] \<and> lexeme s w \<and> w \<noteq> [])"

text \<open>A word as it is written, and what it means.\<close>

definition quoted_word :: "string \<Rightarrow> string \<Rightarrow> bool" where
  "quoted_word t s = (sh_dequote Plain t = Some s \<and> NUL \<notin> set s \<and> has_quotes Plain t)"

lemma quoted_not_Nil: "quoted_word t s \<Longrightarrow> t \<noteq> []"
  by (auto simp: quoted_word_def has_quotes_def)

definition words_text :: "string list \<Rightarrow> string" where
  "words_text ts = concat (map (\<lambda>t. CHR '' '' # t) ts) @ [newline_chr]"

lemma words_text_simps [simp]:
  "words_text [] = [newline_chr]" "words_text (t # ts) = CHR '' '' # t @ words_text ts"
  by (simp_all add: words_text_def)

lemma words_text_head: "\<exists>d r. words_text ts = d # r \<and> ends_token d"
proof -
  have "ends_token (CHR '' '')" by (simp add: ends_token_def) code_simp
  moreover have "ends_token newline_chr" by (simp add: ends_token_def)
  ultimately show ?thesis by (cases ts) auto
qed

lemma simple_words:
  assumes "list_all2 quoted_word ts ss" "length ts < k" "length (words_text ts) + 5 < n"
    and "reads st (map Some (words_text ts) @ rest)" "\<not> p_pushback st" "p_heredocs st = []"
  shows "\<exists>as' st'. simple_loop k C (readtoken n B) linno al as [] [] st = Inr (NCMD linno (as @ as') [] [], st') \<and>
    list_all2 word_of ss as' \<and> reads st' rest \<and> p_pushback st' \<and> p_lasttoken st' = TNL \<and> p_heredocs st' = [] \<and> in_kwd st' = {}"
  using assms
proof (induction ts ss arbitrary: k as al st rule: list_all2_induct)
  case Nil
  obtain j where j: "k = Suc j" using Nil.prems by (cases k) auto
  let ?st = "set_kwd (if al then {CHKALIAS} else {}) st"
  obtain st1 where "readtoken n B ?st = Inr (TNL, st1)" "reads st1 rest" "p_lasttoken st1 = TNL" "\<not> p_pushback st1" "p_heredocs st1 = []" "in_kwd st1 = {}"
    by (rule readtoken_newline [of ?st rest n B]) (use Nil.prems in auto)
  then show ?case by (simp add: j)
next
  case (Cons t ts s ss)
  obtain j where j: "k = Suc j" "length ts < j" using Cons.prems by (cases k) auto
  let ?st = "set_kwd (if al then {CHKALIAS} else {}) st"
  obtain d r where d: "words_text ts = d # r" "ends_token d" using words_text_head by blast
  have t: "sh_dequote Plain t = Some s" "NUL \<notin> set s" "t \<noteq> []" "has_quotes Plain t"
    using Cons.hyps(1) quoted_not_Nil by (auto simp: quoted_word_def)
  obtain w st1 where st1: "readtoken n B ?st = Inr (TWORD, st1)" "lexeme s w" "w \<noteq> []" "reads st1 (Some d # map Some r @ rest)"
    "makename st1 = NARG w []" "\<not> p_pushback st1" "p_heredocs st1 = []"
    by (rule readtoken_word [OF t d(2), of 1 n ?st "map Some r @ rest" B]) (use Cons.prems d in auto)
  have "\<not> isassignment (p_wordtext st1)"
    using lexeme_no_assignment [OF st1(2)] st1(5) by (simp add: makename_def)
  then have "simple_loop k C (readtoken n B) linno al as [] [] st =
      simple_loop j C (readtoken n B) linno False (as @ [NARG w []]) [] [] st1"
    using st1 by (simp add: j(1))
  moreover obtain as' st' where "simple_loop j C (readtoken n B) linno False (as @ [NARG w []]) [] [] st1 =
      Inr (NCMD linno ((as @ [NARG w []]) @ as') [] [], st')" "list_all2 word_of ss as'" "reads st' rest" "p_pushback st'"
      "p_lasttoken st' = TNL" "p_heredocs st' = []" "in_kwd st' = {}"
    using Cons.IH [OF j(2) _ _ st1(6,7), of False "as @ [NARG w []]"] Cons.prems st1(4) d by auto
  moreover have "word_of s (NARG w [])" using st1 by (simp add: word_of_def)
  ultimately show ?case by (intro exI [of _ "NARG w [] # as'"] exI [of _ st']) simp
qed

text \<open>Between the commands of a line the tokens are read again.\<close>

definition after_line :: "pst \<Rightarrow> char option list \<Rightarrow> bool" where
  "after_line st cs \<longleftrightarrow> reads st cs \<and> p_lasttoken st = TNL \<and> p_heredocs st = [] \<and> CHKNL \<notin> in_kwd st"

lemma readtoken_after_line:
  assumes "after_line st cs" "p_pushback st" "1 < n"
  obtains st' where "readtoken n B st = Inr (TNL, st')" "after_line st' cs" "\<not> p_pushback st'"
proof -
  have "readtoken n B st = Inr (TNL, set_kwd {} (st\<lparr>p_pushback := False\<rparr>))"
    using readtoken_pushed [OF assms(2,3)] assms(1) by (auto simp: after_line_def)
  then show ?thesis
    using that [of "set_kwd {} (st\<lparr>p_pushback := False\<rparr>)"] assms(1) by (simp add: after_line_def)
qed

lemma after_line_push [simp]: "after_line (push_token st) cs = after_line st cs"
  by (simp add: after_line_def)

lemma after_line_kwd: "after_line st cs \<Longrightarrow> CHKNL \<notin> k \<Longrightarrow> after_line (set_kwd k st) cs"
  by (simp add: after_line_def)

text \<open>A state in which a quoted word is the last token, and is to be read again.\<close>

definition at_word :: "pst \<Rightarrow> string \<Rightarrow> char option list \<Rightarrow> bool" where
  "at_word st s cs \<longleftrightarrow> (\<exists>w. makename st = NARG w [] \<and> lexeme s w \<and> w \<noteq> []) \<and> reads st cs \<and> p_lasttoken st = TWORD \<and>
     p_quoteflag st \<noteq> 0 \<and> p_heredocs st = []"

lemma makename_simps [simp]:
  "makename (push_token st) = makename st" "makename (set_kwd k st) = makename st" "makename (st\<lparr>p_pushback := b\<rparr>) = makename st"
  by (simp_all add: makename_def)

lemma at_word_simps [simp]:
  "at_word (push_token st) s cs = at_word st s cs" "at_word (set_kwd k st) s cs = at_word st s cs"
  "at_word (st\<lparr>p_pushback := b\<rparr>) s cs = at_word st s cs"
  by (simp_all add: at_word_def)

lemma readtoken_at_word:
  assumes "at_word st s cs" "p_pushback st" "1 < n"
  obtains st' where "readtoken n B st = Inr (TWORD, st')" "at_word st' s cs" "\<not> p_pushback st'"
proof -
  have "readtoken n B st = Inr (TWORD, set_kwd {} (st\<lparr>p_pushback := False\<rparr>))"
    using readtoken_pushed [OF assms(2,3)] assms(1) by (auto simp: at_word_def)
  then show ?thesis using that [of "set_kwd {} (st\<lparr>p_pushback := False\<rparr>)"] assms(1) by simp
qed

lemma simplecmd_words:
  assumes "list_all2 quoted_word ts ss" "length ts + 1 < k" "length (words_text ts) + 5 < n"
    and "at_word st s (map Some (words_text ts) @ rest)" "p_pushback st"
  shows "\<exists>as st'. simplecmd k C (readtoken n B) st = Inr (NCMD (plinno st) as [] [], st') \<and>
    list_all2 word_of (s # ss) as \<and> after_line st' rest \<and> p_pushback st'"
proof -
  obtain j where j: "k = Suc j" "length ts < j" using assms(2) by (cases k) auto
  obtain st1 where st1: "readtoken n B (set_kwd {CHKALIAS} st) = Inr (TWORD, st1)" "at_word st1 s (map Some (words_text ts) @ rest)" "\<not> p_pushback st1"
    by (rule readtoken_at_word [of "set_kwd {CHKALIAS} st" s "map Some (words_text ts) @ rest" n B]) (use assms(3-5) in auto)
  obtain w where w: "makename st1 = NARG w []" "lexeme s w" "w \<noteq> []" "p_heredocs st1 = []" "reads st1 (map Some (words_text ts) @ rest)"
    using st1(2) by (auto simp: at_word_def)
  have "\<not> isassignment (p_wordtext st1)"
    using lexeme_no_assignment [OF w(2)] w(1) by (simp add: makename_def)
  then have "simplecmd k C (readtoken n B) st = simple_loop j C (readtoken n B) (plinno st) False [NARG w []] [] [] st1"
    using st1(1) w(1) by (simp add: simplecmd_def j(1))
  moreover obtain as' st' where "simple_loop j C (readtoken n B) (plinno st) False [NARG w []] [] [] st1 =
      Inr (NCMD (plinno st) ([NARG w []] @ as') [] [], st')" "list_all2 word_of ss as'" "reads st' rest" "p_pushback st'"
      "p_lasttoken st' = TNL" "p_heredocs st' = []" "in_kwd st' = {}"
    using simple_words [OF assms(1) j(2) assms(3) w(5) st1(3) w(4)] by blast
  moreover have "word_of s (NARG w [])" using w by (simp add: word_of_def)
  ultimately show ?thesis
    by (intro exI [of _ "NARG w [] # as'"] exI [of _ st']) (simp add: after_line_def)
qed

definition parses_words :: "tree parser \<Rightarrow> string \<Rightarrow> string list \<Rightarrow> char option list \<Rightarrow> char option list \<Rightarrow> bool" where
  "parses_words P s ss cs rest \<longleftrightarrow> (\<forall>st. at_word st s cs \<longrightarrow> p_pushback st \<longrightarrow>
     (\<exists>l as st'. P st = Inr (NCMD l as [] [], st') \<and> list_all2 word_of (s # ss) as \<and> after_line st' rest \<and> p_pushback st'))"

lemma parses_wordsE:
  assumes "parses_words P s ss cs rest" "at_word st s cs" "p_pushback st"
  obtains l as st' where "P st = Inr (NCMD l as [] [], st')" "list_all2 word_of (s # ss) as" "after_line st' rest" "p_pushback st'"
  using assms unfolding parses_words_def by blast

lemma words_text_length: "length ts < length (words_text ts)"
  by (induction ts) auto

lemma command_words:
  assumes "list_all2 quoted_word ts ss" "length ts + 1 < k" "length (words_text ts) + 5 < n"
  shows "parses_words (command k L C (readtoken n B)) s ss (map Some (words_text ts) @ rest) rest"
  unfolding parses_words_def
proof (intro allI impI)
  fix st assume st: "at_word st s (map Some (words_text ts) @ rest)" "p_pushback st"
  obtain st1 where "readtoken n B st = Inr (TWORD, st1)" "at_word (push_token st1) s (map Some (words_text ts) @ rest)"
    using readtoken_at_word [OF st, of n B] assms(3) by auto
  then show "\<exists>l as st'. command k L C (readtoken n B) st = Inr (NCMD l as [] [], st') \<and> list_all2 word_of (s # ss) as \<and>
      after_line st' rest \<and> p_pushback st'"
    using simplecmd_words [OF assms, of "push_token st1" s rest C B] by (auto simp: command_def)
qed

lemma pipeline_words:
  assumes "parses_words C s ss cs rest" "1 < n"
  shows "parses_words (pipeline k C (readtoken n B)) s ss cs rest"
  unfolding parses_words_def
proof (intro allI impI)
  fix st assume st: "at_word st s cs" "p_pushback st"
  obtain st1 where st1: "readtoken n B st = Inr (TWORD, st1)" "at_word (push_token st1) s cs"
    using readtoken_at_word [OF st assms(2), of B] by auto
  then obtain l as st2 where st2: "C (push_token st1) = Inr (NCMD l as [] [], st2)" "list_all2 word_of (s # ss) as" "after_line st2 rest" "p_pushback st2"
    using parses_wordsE [OF assms(1) st1(2)] by auto
  obtain st3 where "readtoken n B st2 = Inr (TNL, st3)" "after_line st3 rest"
    using readtoken_after_line [OF st2(3,4) assms(2), of B] by blast
  then show "\<exists>l as st'. pipeline k C (readtoken n B) st = Inr (NCMD l as [] [], st') \<and> list_all2 word_of (s # ss) as \<and>
      after_line st' rest \<and> p_pushback st'"
    using st1(1) st2 by (simp add: pipeline_def)
qed

lemma andor_words:
  assumes "parses_words P s ss cs rest" "1 < n" "0 < k"
  shows "parses_words (andor k P (readtoken n B)) s ss cs rest"
  unfolding parses_words_def
proof (intro allI impI)
  fix st assume "at_word st s cs" "p_pushback st"
  then obtain l as st1 where st1: "P st = Inr (NCMD l as [] [], st1)" "list_all2 word_of (s # ss) as" "after_line st1 rest" "p_pushback st1"
    using parses_wordsE [OF assms(1)] by blast
  obtain st2 where "readtoken n B st1 = Inr (TNL, st2)" "after_line st2 rest"
    using readtoken_after_line [OF st1(3,4) assms(2), of B] by blast
  moreover obtain j where "k = Suc j" using assms(3) by (cases k) auto
  ultimately show "\<exists>l as st'. andor k P (readtoken n B) st = Inr (NCMD l as [] [], st') \<and> list_all2 word_of (s # ss) as \<and>
      after_line st' rest \<and> p_pushback st'"
    using st1 by (simp add: andor_def)
qed

lemma list_words:
  assumes "parses_words A s ss cs rest" "1 < n" "1 < k" "readtoken n B (set_kwd kwd_alias st) = Inr (TWORD, st1)" "at_word st1 s cs"
  shows "\<exists>l as st'. list_loop k A (readtoken n B) (parseheredoc m B) 1 False Null st = Inr (Some (NCMD l as [] []), st') \<and>
    list_all2 word_of (s # ss) as \<and> reads st' rest"
proof -
  obtain j where k: "k = Suc (Suc j)" using assms(3) by (cases k; cases "k - 1") auto
  obtain l as st2 where st2: "A (push_token st1) = Inr (NCMD l as [] [], st2)" "list_all2 word_of (s # ss) as" "after_line st2 rest" "p_pushback st2"
    using parses_wordsE [OF assms(1), of "push_token st1"] assms(5) by auto
  obtain st3 where st3: "readtoken n B st2 = Inr (TNL, st3)" "after_line st3 rest"
    using readtoken_after_line [OF st2(3,4) assms(2), of B] by blast
  let ?st = "set_kwd kwd_alias (push_token st3)"
  obtain st4 where st4: "readtoken n B ?st = Inr (TNL, st4)" "after_line st4 rest"
    using readtoken_after_line [of ?st rest n B] st3(2) assms(2) after_line_kwd [of "push_token st3" rest kwd_alias] by auto
  have "parseheredoc m B st4 = Inr (st4\<lparr>p_heredocs := []\<rparr>)"
    using st4(2) by (simp add: parseheredoc_def after_line_def)
  moreover have "reads (st4\<lparr>p_heredocs := []\<rparr>) rest" using st4(2) by (simp add: after_line_def reads_def)
  ultimately show ?thesis
    using assms(4) st2 st3(1) st4(1) by (simp add: k tokendlist_def)
qed

text \<open>A line of quoted words is one simple command.\<close>

lemma quoted_line:
  assumes "list_all2 quoted_word (t # ts) (s # ss)" and "length (words_text (t # ts)) + 8 < n"
    and "reads st (map Some (t @ words_text ts) @ rest)"
  shows "\<exists>l as st'. parsecmd n st = Inr (Some (NCMD l as [] []), st') \<and> reads st' rest \<and>
    list_all2 (\<lambda>s a. \<exists>w. a = NARG w [] \<and> (\<forall>sys x. xregs x = [] \<longrightarrow>
      (\<exists>x'. expandarg sys w [] {EXP_FULL, EXP_TILDE} x = Inr ([s], x') \<and> xsh x' = xsh x))) (s # ss) as"
proof -
  let ?st = "set_kwd {} (st\<lparr>p_pushback := False, p_heredocs := []\<rparr>)"
  let ?T = "readtoken n (backq n)" and ?H = "parseheredoc n (backq n)"
  have len: "length (t # ts) < length (words_text (t # ts))" by (rule words_text_length)
  obtain m where n: "n = Suc m" "length ts + 1 < m" using assms(2) len by (cases n) auto
  have big: "length (words_text ts) + 5 < n" "1 < n" "0 < n" "0 + length t + 3 < n" using assms(2) len by simp_all
  have words: "list_all2 quoted_word ts ss" "sh_dequote Plain t = Some s" "NUL \<notin> set s" "t \<noteq> []" "has_quotes Plain t"
    using assms(1) quoted_not_Nil [of t s] by (auto simp: quoted_word_def)
  obtain d r where d: "words_text ts = d # r" "ends_token d" using words_text_head by blast
  have first: "reads (set_kwd kwd_alias ?st) (replicate 0 (Some (CHR '' '')) @ map Some (t @ [d]) @ map Some r @ rest)"
    "\<not> p_pushback (set_kwd kwd_alias ?st)" "p_heredocs (set_kwd kwd_alias ?st) = []"
    using assms(3) d by (simp_all add: reads_def)
  obtain w st1 where st1: "?T (set_kwd kwd_alias ?st) = Inr (TWORD, st1)" "lexeme s w" "w \<noteq> []" "reads st1 (Some d # map Some r @ rest)"
    "makename st1 = NARG w []" "p_lasttoken st1 = TWORD" "p_quoteflag st1 \<noteq> 0" "p_heredocs st1 = []"
    by (rule readtoken_word [OF words(2-5) d(2) big(4) first])
  then have at: "at_word st1 s (map Some (words_text ts) @ rest)" using d by (auto simp: at_word_def)
  have "parses_words (pcommand n ?T ?H) s ss (map Some (words_text ts) @ rest) rest"
  proof -
    have "pcommand (Suc m) ?T ?H = command m (sublist m (pcommand m ?T ?H) ?T ?H) (pcommand m ?T ?H) ?T" by (rule ext) simp
    then show ?thesis using command_words [OF words(1) n(2) big(1)] by (simp only: n(1))
  qed
  note andor_words [OF pipeline_words [OF this big(2), where k = n and B = "backq n"] big(2,3), where B = "backq n"]
  from list_words [OF this big(2,2) st1(1) at, where m = n] obtain l as st'
    where "parsecmd n st = Inr (Some (NCMD l as [] []), st')" "list_all2 word_of (s # ss) as" "reads st' rest"
    unfolding parsecmd_def plist_def Let_def by blast
  moreover from this(2) have "list_all2 (\<lambda>s a. \<exists>w. a = NARG w [] \<and> (\<forall>sys x. xregs x = [] \<longrightarrow>
      (\<exists>x'. expandarg sys w [] {EXP_FULL, EXP_TILDE} x = Inr ([s], x') \<and> xsh x' = xsh x))) (s # ss) as"
    by (rule list_all2_mono) (use expandarg_lexeme in \<open>fastforce simp: word_of_def\<close>)
  ultimately show ?thesis by blast
qed

lemma single_quoted_word:
  assumes "NUL \<notin> set s"
  shows "quoted_word (single_quote s) s"
proof -
  have "quote_chr \<in> set (single_quote s)" by (simp add: single_quote.simps [of s] Let_def)
  then show ?thesis
    using assms dequote_single_quote [of s "[]"] by (simp add: quoted_word_def has_quotes_def)
qed

text \<open>
  C3: A line that \<open>single_quote\<close> makes of strings, with blanks between them, is one simple command whose words
  expand to exactly these strings: no word is taken for a keyword, an alias or an assignment, none is split or
  taken for a pattern, whatever the strings hold, whatever \<open>IFS\<close>, options and files there are. This is what
  \<open>set\<close>, \<open>alias\<close> and \<open>trap\<close> rely on for their output to be input again. Lexer, parser and expansion together.
\<close>

theorem single_quoted_line_is_a_command:
  assumes "\<forall>s \<in> set (s # ss). NUL \<notin> set s" and "length (words_text (map single_quote (s # ss))) + 8 < n"
    and "reads st (map Some (single_quote s @ words_text (map single_quote ss)) @ rest)"
  shows "\<exists>l as st'. parsecmd n st = Inr (Some (NCMD l as [] []), st') \<and> reads st' rest \<and>
    list_all2 (\<lambda>s a. \<exists>w. a = NARG w [] \<and> (\<forall>sys x. xregs x = [] \<longrightarrow>
      (\<exists>x'. expandarg sys w [] {EXP_FULL, EXP_TILDE} x = Inr ([s], x') \<and> xsh x' = xsh x))) (s # ss) as"
proof -
  have "list_all2 quoted_word (map single_quote (s # ss)) (s # ss)"
    using assms(1) single_quoted_word by (simp add: list_all2_map1 list_all2_same)
  then show ?thesis using quoted_line [of "single_quote s" "map single_quote ss" s ss n st rest] assms(2,3) by simp
qed

theorem single_quoted_line_is_a_command_witness:
  "\<exists>l as st'. parsecmd 60 (example_pst (single_quote ''ls'' @ words_text [single_quote ''it*s''])) =
     Inr (Some (NCMD l as [] []), st') \<and> length as = 2"
proof -
  let ?st = "example_pst (single_quote ''ls'' @ words_text (map single_quote [''it*s'']))"
  have "single_quote ''ls'' = quote_chr # ''ls'' @ [quote_chr]" "single_quote ''it*s'' = quote_chr # ''it*s'' @ [quote_chr]"
    by (simp_all add: single_quote.simps quote_chr_def)
  then have "length (words_text (map single_quote [''ls'', ''it*s''])) + 8 < 60" by simp
  moreover have "reads ?st (map Some (single_quote ''ls'' @ words_text (map single_quote [''it*s''])) @ [])"
    by (simp only: append_Nil2 example_pst_reads)
  ultimately show ?thesis
    using single_quoted_line_is_a_command [of "''ls''" "[''it*s'']" 60 ?st "[]"] by (auto dest!: list_all2_lengthD)
qed

end
